(* ===== verification/Prelude.thy ===== *)
theory Prelude
  imports Complex_Main "HOL-Library.Word" "HOL-Library.Multiset"
begin

text \<open>
  Shared vocabulary of the development: machine-integer names, the failure values that stand
  for Rust panics and error results, sequencing of fallible steps, little-endian bit lists,
  chunking of vectors, and the generic facts about products of linear factors on which the
  permutation check rests.
\<close>

section \<open>Machine integers and failures\<close>

type_synonym u8 = "8 word"
type_synonym u16 = "16 word"
type_synonym u32 = "32 word"
type_synonym u64 = "64 word"

text \<open>
  A call that panics (\<open>expect\<close>, \<open>unwrap\<close>, \<open>assert\<close>, an index out of range) yields
  \<open>Inl (Panic msg)\<close>; the other constructors are the \<open>Err\<close> values the code returns.
\<close>

datatype failure =
    Panic string
  | SynthesisError
  | InvalidData
  | InvalidHashSize
  | InvalidParameter
  | MalformedVerifyingKey
  | UnexpectedIdentity
  | PolynomialDegreeTooLarge

named_theorems res_simps \<open>evaluation of fallible sequencing\<close>

definition rbind :: "failure + 'a \<Rightarrow> ('a \<Rightarrow> failure + 'b) \<Rightarrow> failure + 'b" where
  "rbind m f = (case m of Inl e \<Rightarrow> Inl e | Inr x \<Rightarrow> f x)"

lemma rbind_simps [simp, res_simps]:
  "rbind (Inr x) f = f x"
  "rbind (Inl e) f = Inl e"
  by (simp_all add: rbind_def)

lemma rbind_Inr_iff [res_simps]:
  "rbind m f = Inr y \<longleftrightarrow> (\<exists>x. m = Inr x \<and> f x = Inr y)"
  by (cases m) (simp_all add: rbind_def)

lemma rbind_InrE:
  assumes "rbind m f = Inr y"
  obtains x where "m = Inr x" "f x = Inr y"
  using assms by (auto simp: rbind_Inr_iff)

lemma rbind_assoc: "rbind (rbind m f) g = rbind m (\<lambda>x. rbind (f x) g)"
  by (cases m) simp_all

lemma rbind_cong [fundef_cong]:
  "m = m' \<Longrightarrow> (\<And>x. m' = Inr x \<Longrightarrow> f x = f' x) \<Longrightarrow> rbind m f = rbind m' f'"
  by (cases m') simp_all

definition unwrap :: "string \<Rightarrow> 'a option \<Rightarrow> failure + 'a" where
  "unwrap msg r = (case r of None \<Rightarrow> Inl (Panic msg) | Some x \<Rightarrow> Inr x)"

lemma unwrap_simps [simp, res_simps]:
  "unwrap msg (Some x) = Inr x"
  "unwrap msg None = Inl (Panic msg)"
  by (simp_all add: unwrap_def)

lemma unwrap_Inr_iff [res_simps]: "unwrap msg r = Inr x \<longleftrightarrow> r = Some x"
  by (cases r) simp_all

text \<open>\<open>Result::unwrap\<close>: an \<open>Err\<close> becomes a panic, a panic stays one.\<close>

definition unwrap_res :: "string \<Rightarrow> failure + 'a \<Rightarrow> failure + 'a" where
  "unwrap_res msg r = (case r of Inl (Panic e) \<Rightarrow> Inl (Panic e) | Inl _ \<Rightarrow> Inl (Panic msg) | Inr x \<Rightarrow> Inr x)"

lemma unwrap_res_Inr [simp, res_simps]: "unwrap_res msg (Inr x) = Inr x"
  by (simp add: unwrap_res_def)

lemma unwrap_res_Inr_iff [res_simps]: "unwrap_res msg r = Inr x \<longleftrightarrow> r = Inr x"
  by (auto simp: unwrap_res_def split: sum.splits failure.splits)

abbreviation unwrap_err_msg :: string where
  "unwrap_err_msg \<equiv> ''called `Result::unwrap()` on an `Err` value''"

definition ensure :: "string \<Rightarrow> bool \<Rightarrow> failure + unit" where
  "ensure msg b = (if b then Inr () else Inl (Panic msg))"

lemma ensure_simps [simp, res_simps]:
  "ensure msg True = Inr ()"
  "ensure msg False = Inl (Panic msg)"
  by (simp_all add: ensure_def)

lemma ensure_Inr_iff [res_simps]: "ensure msg b = Inr u \<longleftrightarrow> b"
  by (simp add: ensure_def)

text \<open>\<open>usize\<close> subtraction panics below zero.\<close>

definition usub :: "nat \<Rightarrow> nat \<Rightarrow> failure + nat" where
  "usub a b = (if b \<le> a then Inr (a - b) else Inl (Panic ''attempt to subtract with overflow''))"

lemma usub_simps [simp]: "b \<le> a \<Longrightarrow> usub a b = Inr (a - b)" "a < b \<Longrightarrow> usub a b = Inl (Panic ''attempt to subtract with overflow'')"
  by (simp_all add: usub_def)

text \<open>Indexing with \<open>Vec::get\<close> and with \<open>v[i]\<close>.\<close>

definition vget :: "'a list \<Rightarrow> nat \<Rightarrow> 'a option" where
  "vget xs i = (if i < length xs then Some (xs ! i) else None)"

definition vindex :: "'a list \<Rightarrow> nat \<Rightarrow> failure + 'a" where
  "vindex xs i = unwrap ''index out of bounds'' (vget xs i)"

lemma vget_iff [res_simps]: "vget xs i = Some x \<longleftrightarrow> i < length xs \<and> xs ! i = x"
  by (auto simp: vget_def)

lemma vget_None [simp]: "vget xs i = None \<longleftrightarrow> length xs \<le> i"
  by (auto simp: vget_def)

lemma vget_less [simp]: "i < length xs \<Longrightarrow> vget xs i = Some (xs ! i)"
  by (simp add: vget_def)

lemma vindex_less [simp]: "i < length xs \<Longrightarrow> vindex xs i = Inr (xs ! i)"
  by (simp add: vindex_def)

lemma vindex_Inr_iff [res_simps]: "vindex xs i = Inr x \<longleftrightarrow> i < length xs \<and> xs ! i = x"
  by (simp add: vindex_def res_simps)

text \<open>\<open>xs[a..b]\<close> panics unless \<open>a \<le> b \<le> xs.len()\<close>.\<close>

definition slice_range :: "nat \<Rightarrow> nat \<Rightarrow> 'a list \<Rightarrow> failure + 'a list" where
  "slice_range a b xs =
     (if a \<le> b \<and> b \<le> length xs then Inr (take (b - a) (drop a xs)) else Inl (Panic ''range end index out of range''))"

lemma slice_range_0 [simp]: "b \<le> length xs \<Longrightarrow> slice_range 0 b xs = Inr (take b xs)"
  by (simp add: slice_range_def)

lemma slice_range_0_Inr_iff [res_simps]: "slice_range 0 b xs = Inr ys \<longleftrightarrow> b \<le> length xs \<and> ys = take b xs"
  by (auto simp: slice_range_def)

text \<open>\<open><[T; N]>::try_from(slice).unwrap()\<close>.\<close>

definition array_from :: "nat \<Rightarrow> 'a list \<Rightarrow> failure + 'a list" where
  "array_from n xs = (if length xs = n then Inr xs else Inl (Panic ''TryFromSliceError''))"

lemma array_from_Inr_iff [res_simps]: "array_from n xs = Inr ys \<longleftrightarrow> length xs = n \<and> ys = xs"
  by (auto simp: array_from_def)

text \<open>Loops over a vector: collecting fallible results, and threading a state.\<close>

fun rmap :: "('a \<Rightarrow> failure + 'b) \<Rightarrow> 'a list \<Rightarrow> failure + 'b list" where
  "rmap f [] = Inr []"
| "rmap f (x # xs) = rbind (f x) (\<lambda>y. rbind (rmap f xs) (\<lambda>ys. Inr (y # ys)))"

fun rfold :: "('a \<Rightarrow> 's \<Rightarrow> failure + 's) \<Rightarrow> 'a list \<Rightarrow> 's \<Rightarrow> failure + 's" where
  "rfold f [] s = Inr s"
| "rfold f (x # xs) s = rbind (f x s) (rfold f xs)"

lemma rmap_total: "(\<And>x. x \<in> set xs \<Longrightarrow> f x = Inr (g x)) \<Longrightarrow> rmap f xs = Inr (map g xs)"
  by (induction xs) auto

lemma rmap_Inr_nth:
  "rmap f xs = Inr ys \<Longrightarrow> length ys = length xs \<and> (\<forall>i < length xs. f (xs ! i) = Inr (ys ! i))"
proof (induction xs arbitrary: ys)
  case (Cons x xs)
  then obtain y zs where "f x = Inr y" "rmap f xs = Inr zs" "ys = y # zs"
    by (auto simp: rbind_Inr_iff)
  with Cons.IH show ?case by (auto simp: nth_Cons split: nat.splits)
qed simp

lemma rfold_append: "rfold f (xs @ ys) s = rbind (rfold f xs s) (rfold f ys)"
proof (induction xs arbitrary: s)
  case (Cons x xs)
  then show ?case by (cases "f x s") simp_all
qed simp

lemma rfold_total: "(\<And>x s. x \<in> set xs \<Longrightarrow> f x s = Inr (g x s)) \<Longrightarrow> rfold f xs s = Inr (fold g xs s)"
  by (induction xs arbitrary: s) auto

lemma rfold_invariant:
  assumes "rfold f xs s = Inr t" and "P s"
    and "\<And>x s s'. x \<in> set xs \<Longrightarrow> P s \<Longrightarrow> f x s = Inr s' \<Longrightarrow> P s'"
  shows "P t"
  using assms
proof (induction xs arbitrary: s)
  case (Cons x xs)
  then obtain s' where "f x s = Inr s'" "rfold f xs s' = Inr t"
    by (auto simp: rbind_Inr_iff)
  with Cons show ?case by (metis list.set_intros)
qed simp

section \<open>Little-endian bit and byte strings\<close>

primrec bits_val :: "bool list \<Rightarrow> nat" where
  "bits_val [] = 0"
| "bits_val (b # bs) = of_bool b + 2 * bits_val bs"

primrec val_bits :: "nat \<Rightarrow> nat \<Rightarrow> bool list" where
  "val_bits 0 n = []"
| "val_bits (Suc k) n = odd n # val_bits k (n div 2)"

primrec bytes_val :: "u8 list \<Rightarrow> nat" where
  "bytes_val [] = 0"
| "bytes_val (b # bs) = unat b + 256 * bytes_val bs"

primrec val_bytes :: "nat \<Rightarrow> nat \<Rightarrow> u8 list" where
  "val_bytes 0 n = []"
| "val_bytes (Suc k) n = word_of_nat n # val_bytes k (n div 256)"

lemma length_val_bits [simp]: "length (val_bits k n) = k"
  by (induction k arbitrary: n) simp_all

lemma length_val_bytes [simp]: "length (val_bytes k n) = k"
  by (induction k arbitrary: n) simp_all

lemma bits_val_less: "bits_val bs < 2 ^ length bs"
  by (induction bs) (auto simp: of_bool_def)

lemma bits_val_append: "bits_val (xs @ ys) = bits_val xs + 2 ^ length xs * bits_val ys"
  by (induction xs) (simp_all add: algebra_simps)

lemma bits_val_replicate_False [simp]: "bits_val (replicate k False) = 0"
  by (induction k) simp_all

lemma bits_val_inj: "length xs = length ys \<Longrightarrow> bits_val xs = bits_val ys \<longleftrightarrow> xs = ys"
proof (induction xs ys rule: list_induct2)
  case (Cons x xs y ys)
  have "of_bool x + 2 * bits_val xs = of_bool y + 2 * bits_val ys
        \<longleftrightarrow> x = y \<and> bits_val xs = bits_val ys"
    by (cases x; cases y; simp; presburger)
  with Cons.IH show ?case by simp
qed simp

lemma val_bits_bits_val: "length bs = k \<Longrightarrow> val_bits k (bits_val bs) = bs"
  by (induction bs arbitrary: k) auto

lemma bits_val_val_bits: "bits_val (val_bits k n) = n mod 2 ^ k"
proof (induction k arbitrary: n)
  case (Suc k)
  have "of_bool (odd n) + 2 * (n div 2 mod 2 ^ k) = n mod 2 ^ Suc k"
    by (simp add: mod_mult2_eq mod_2_eq_odd)
  with Suc show ?case by simp
qed simp

lemma take_val_bits: "j \<le> k \<Longrightarrow> take j (val_bits k n) = val_bits j n"
proof (induction k arbitrary: j n)
  case (Suc k)
  then show ?case by (cases j) simp_all
qed simp

lemma drop_val_bits: "j \<le> k \<Longrightarrow> drop j (val_bits k n) = val_bits (k - j) (n div 2 ^ j)"
proof (induction k arbitrary: j n)
  case (Suc k)
  then show ?case by (cases j) (simp_all add: div_mult2_eq)
qed simp

lemma nth_val_bits: "i < k \<Longrightarrow> val_bits k n ! i = odd (n div 2 ^ i)"
proof (induction k arbitrary: i n)
  case (Suc k)
  then show ?case by (cases i) (simp_all add: div_mult2_eq)
qed simp

lemma u8_less [simp]: "unat (b :: u8) < 256"
proof -
  have "unat b < 2 ^ LENGTH(8)" by (rule unsigned_less)
  then show ?thesis by simp
qed

lemma bytes_val_less: "bytes_val bs < 256 ^ length bs"
proof (induction bs)
  case (Cons b bs)
  have "unat b < 256" and "bytes_val bs + 1 \<le> 256 ^ length bs"
    using Cons by simp_all
  then have "unat b + 256 * bytes_val bs < 256 * (256 ^ length bs)" by linarith
  then show ?case by simp
qed simp

lemma bytes_val_append: "bytes_val (xs @ ys) = bytes_val xs + 256 ^ length xs * bytes_val ys"
  by (induction xs) (simp_all add: algebra_simps)

lemma val_bytes_bytes_val: "length bs = k \<Longrightarrow> val_bytes k (bytes_val bs) = bs"
proof (induction bs arbitrary: k)
  case (Cons b bs)
  have "(word_of_nat (unat b + 256 * bytes_val bs) :: u8) = b"
  proof (rule unsigned_word_eqI)
    have "(unat b + 256 * bytes_val bs) mod 256 = unat b"
      by (simp add: mod_less)
    then show "unat (word_of_nat (unat b + 256 * bytes_val bs) :: u8) = unat b"
      by (simp only: unat_of_nat) simp
  qed
  with Cons show ?case by (auto simp: div_less)
qed simp

lemma bytes_val_val_bytes: "bytes_val (val_bytes k n) = n mod 256 ^ k"
proof (induction k arbitrary: n)
  case (Suc k)
  have "n mod 256 + 256 * (n div 256 mod 256 ^ k) = n mod 256 ^ Suc k"
    by (simp add: mod_mult2_eq)
  with Suc show ?case by (simp add: unat_of_nat)
qed simp

lemma bytes_val_inj: "length xs = length ys \<Longrightarrow> bytes_val xs = bytes_val ys \<longleftrightarrow> xs = ys"
  by (metis val_bytes_bytes_val)

section \<open>Characteristic and chains\<close>

text \<open>The small naturals are told apart by the field (its characteristic exceeds \<open>n\<close>).\<close>

definition char_above :: "'f::semiring_1 itself \<Rightarrow> nat \<Rightarrow> bool" where
  "char_above T n \<longleftrightarrow> (\<forall>d \<in> {1..n}. of_nat d \<noteq> (0 :: 'f))"

lemma char_above_zero: "char_above TYPE('f::semiring_1) n \<Longrightarrow> d \<le> n \<Longrightarrow> of_nat d = (0 :: 'f) \<longleftrightarrow> d = 0"
  by (cases "d = 0") (auto simp: char_above_def)

lemma char_above_mono: "char_above T n \<Longrightarrow> m \<le> n \<Longrightarrow> char_above T m"
  by (auto simp: char_above_def)

lemma char_above_inj:
  assumes "char_above TYPE('f::ring_1) n" and "a \<le> n" and "b \<le> n"
  shows "of_nat a = (of_nat b :: 'f) \<longleftrightarrow> a = b"
proof -
  have aux: "a = b" if "a \<le> b" "b \<le> n" "of_nat a = (of_nat b :: 'f)" for a b
  proof -
    from that have "of_nat (b - a) = (0 :: 'f)" by (simp add: of_nat_diff)
    moreover have "b - a \<le> n" using that(2) by arith
    ultimately have "b - a = 0" using char_above_zero [OF assms(1)] by blast
    with that(1) show ?thesis by simp
  qed
  show ?thesis
    using aux [of a b] aux [of b a] assms(2,3) by (metis linear)
qed

lemma char_above_char_0 [simp]: "char_above TYPE('f::semiring_char_0) n"
  by (auto simp: char_above_def)

text \<open>A sorted list that uses exactly the numbers \<open>1 .. k\<close> climbs in steps of at most one.\<close>

lemma sorted_covering_steps_from:
  "sorted (a # xs) \<Longrightarrow> {a<..k} \<subseteq> set xs \<Longrightarrow> \<forall>x \<in> set xs. x \<le> k
    \<Longrightarrow> successively (\<lambda>a b. b = a \<or> b = Suc a) (a # xs)"
proof (induction xs arbitrary: a)
  case (Cons b xs)
  have "b = a \<or> b = Suc a"
  proof (rule ccontr)
    assume "\<not> ?thesis"
    moreover have "a \<le> b" using Cons.prems(1) by simp
    ultimately have "Suc a < b" by linarith
    moreover have "Suc a \<in> {a<..k}" using Cons.prems(3) \<open>Suc a < b\<close> by auto
    then have "Suc a \<in> set (b # xs)" using Cons.prems(2) by blast
    ultimately show False using Cons.prems(1) \<open>Suc a \<in> set (b # xs)\<close> by auto
  qed
  moreover have "{b<..k} \<subseteq> set xs"
  proof
    fix x assume "x \<in> {b<..k}"
    then have "x \<in> {a<..k}" "x \<noteq> b" using Cons.prems(1) by auto
    then show "x \<in> set xs" using Cons.prems(2) by auto
  qed
  ultimately show ?case using Cons.IH [of b] Cons.prems by auto
qed simp

lemma sorted_covering_steps:
  "sorted xs \<Longrightarrow> set xs = {1..k} \<Longrightarrow> successively (\<lambda>a b. b = a \<or> b = Suc a) (0 # xs)"
  by (rule sorted_covering_steps_from [where k = k]) auto

lemma successivelyI:
  "(\<And>us a b vs. xs = us @ a # b # vs \<Longrightarrow> P a b) \<Longrightarrow> successively P xs"
proof (induction xs)
  case (Cons x xs)
  have "successively P xs"
    by (rule Cons.IH) (metis Cons.prems append_Cons)
  moreover have "P x (hd xs)" if "xs \<noteq> []"
    using Cons.prems [of "[]" x "hd xs" "tl xs"] that by simp
  ultimately show ?case by (cases "xs = []") (simp_all add: successively_Cons)
qed simp

lemma successivelyD: "successively P (us @ a # b # vs) \<Longrightarrow> P a b"
  by (simp add: successively_append_iff)

lemma successively_take_add:
  "successively P (take (k + j + 1) xs)
     \<longleftrightarrow> successively P (take (k + 1) xs) \<and> successively P (take (j + 1) (drop k xs))"
proof (induction k arbitrary: xs)
  case 0
  then show ?case by (cases xs) simp_all
next
  case (Suc k)
  show ?case
  proof (cases xs)
    case (Cons x ys)
    with Suc [of ys] show ?thesis by (cases ys) (auto simp: successively_Cons)
  qed simp
qed

section \<open>Chunking\<close>

text \<open>\<open>slice::chunks\<close>: pieces of \<open>n\<close> elements, the last one possibly shorter (\<open>n > 0\<close>).\<close>

function chunks :: "nat \<Rightarrow> 'a list \<Rightarrow> 'a list list" where
  "chunks n xs = (if n = 0 \<or> xs = [] then [] else take n xs # chunks n (drop n xs))"
  by pat_completeness auto
termination
  by (relation "measure (\<lambda>(n, xs). length xs)") (auto simp: length_greater_0_conv [symmetric] simp del: length_greater_0_conv)

declare chunks.simps [simp del]

lemma chunks_Nil [simp]: "chunks n [] = []"
  by (simp add: chunks.simps)

lemma chunks_unfold: "0 < n \<Longrightarrow> xs \<noteq> [] \<Longrightarrow> chunks n xs = take n xs # chunks n (drop n xs)"
  by (subst chunks.simps) simp

lemma concat_chunks: "0 < n \<Longrightarrow> concat (chunks n xs) = xs"
  by (induction n xs rule: chunks.induct) (subst chunks.simps, auto)

lemma chunks_append_exact:
  "0 < n \<Longrightarrow> length xs = n \<Longrightarrow> chunks n (xs @ ys) = xs # chunks n ys"
  by (subst chunks_unfold) auto

lemma chunks_map: "chunks n (map f xs) = map (map f) (chunks n xs)"
proof (induction n xs rule: chunks.induct)
  case (1 n xs)
  then show ?case
    by (subst chunks.simps, subst (2) chunks.simps) (simp add: take_map drop_map)
qed

lemma chunks_bound: "c \<in> set (chunks n xs) \<Longrightarrow> c \<noteq> [] \<and> length c \<le> n"
proof (induction n xs rule: chunks.induct)
  case (1 n xs)
  then show ?case
    by (subst (asm) (2) chunks.simps) (auto split: if_splits)
qed

text \<open>\<open>Iterator::take(k)\<close> on a shared iterator, once per size: cut a list by a list of sizes.\<close>

primrec cut_by :: "nat list \<Rightarrow> 'a list \<Rightarrow> 'a list list" where
  "cut_by [] xs = []"
| "cut_by (k # ks) xs = take k xs # cut_by ks (drop k xs)"

lemma length_cut_by [simp]: "length (cut_by ks xs) = length ks"
  by (induction ks arbitrary: xs) simp_all

lemma concat_cut_by: "sum_list ks = length xs \<Longrightarrow> concat (cut_by ks xs) = xs"
  by (induction ks arbitrary: xs) auto

lemma map_length_cut_by: "sum_list ks \<le> length xs \<Longrightarrow> map length (cut_by ks xs) = ks"
  by (induction ks arbitrary: xs) auto

lemma cut_by_concat: "cut_by (map length xss) (concat xss) = xss"
  by (induction xss) simp_all

end
