(* ===== verification/Uint32.thy ===== *)
theory Uint32
  imports Prelude
begin

unbundle bit_operations_syntax

text \<open>
  The 32-bit timestamps of RAM transcripts, \<open>distributed-prover/src/uint32.rs\<close>: the native
  bit vector \<open>Unsigned32\<close> and its in-circuit counterpart \<open>Unsigned32Var\<close>. A circuit
  variable is modelled by the value its witness assigns to it, and an \<open>enforce_equal\<close> by the
  truth value of the constraint. The carry that \<open>Unsigned32Var::increment_inplace\<close> starts
  with is a fresh witness, so it is an argument of the model: an honest prover assigns it
  \<open>True\<close>, the constraints do not.
\<close>

section \<open>Definitions\<close>

record unsigned32 =
  bits :: "bool list"

record unsigned32_var =
  var_bits :: "bool list"

definition u32_default :: unsigned32 where
  "u32_default = \<lparr>bits = replicate 32 False\<rparr>"

text \<open>The folds over \<open>(index, bit)\<close>; a shift distance is taken modulo the width.\<close>

fun representation_from :: "nat \<Rightarrow> bool list \<Rightarrow> u32 \<Rightarrow> u32" where
  "representation_from index [] acc = acc"
| "representation_from index (b # bs) acc =
     representation_from (Suc index) bs (if b then acc OR push_bit (index mod 32) 1 else acc)"

definition representation :: "unsigned32 \<Rightarrow> u32" where
  "representation u = representation_from 0 (bits u) 0"

definition representation_var :: "unsigned32_var \<Rightarrow> u32" where
  "representation_var u = representation_from 0 (var_bits u) 0"

fun as_field_elem_from :: "nat \<Rightarrow> bool list \<Rightarrow> 'f \<Rightarrow> 'f::field" where
  "as_field_elem_from index [] acc = acc"
| "as_field_elem_from index (b # bs) acc =
     as_field_elem_from (Suc index) bs
       (if b then acc + of_nat (unat (push_bit (index mod 64) (1 :: u64))) else acc)"

definition as_field_elem :: "unsigned32 \<Rightarrow> 'f::field" where
  "as_field_elem u = as_field_elem_from 0 (bits u) 0"

text \<open>\<open>for index in 0..len { if carry { carry = bit; flip } else { break } }\<close>\<close>

fun increment_bits :: "bool \<Rightarrow> bool list \<Rightarrow> bool list" where
  "increment_bits carry [] = []"
| "increment_bits carry (b # bs) = (if carry then (\<not> b) # increment_bits b bs else b # bs)"

definition increment_inplace :: "unsigned32 \<Rightarrow> unsigned32" where
  "increment_inplace u = u\<lparr>bits := increment_bits True (bits u)\<rparr>"

fun increment_bits_var :: "bool \<Rightarrow> bool list \<Rightarrow> bool list" where
  "increment_bits_var carry [] = []"
| "increment_bits_var carry (b # bs) =
     (if carry then \<not> b else b) # increment_bits_var (if b then carry else False) bs"

definition increment_inplace_var :: "bool \<Rightarrow> unsigned32_var \<Rightarrow> unsigned32_var" where
  "increment_inplace_var carry u = u\<lparr>var_bits := increment_bits_var carry (var_bits u)\<rparr>"

text \<open>Allocation copies the bits into witnesses; \<open>value\<close> reads them back.\<close>

definition u32_new_variable :: "unsigned32 \<Rightarrow> unsigned32_var" where
  "u32_new_variable u = \<lparr>var_bits = map (\<lambda>i. bits u ! i) [0..<length (bits u)]\<rparr>"

definition u32_value :: "unsigned32_var \<Rightarrow> unsigned32" where
  "u32_value v = \<lparr>bits = var_bits v\<rparr>"

definition u32_var_new :: unsigned32_var where
  "u32_var_new = \<lparr>var_bits = replicate 32 False\<rparr>"

definition to_fpvar :: "unsigned32_var \<Rightarrow> 'f::field" where
  "to_fpvar v = of_nat (bits_val (var_bits v))"

text \<open>\<open>UInt8::from_bits_le\<close> asserts that it is given eight bits.\<close>

definition from_bits_le :: "bool list \<Rightarrow> failure + u8" where
  "from_bits_le bs = (if length bs = 8 then Inr (word_of_nat (bits_val bs)) else Inl (Panic ''bits.len() == 8''))"

definition u32_to_bytes :: "unsigned32_var \<Rightarrow> failure + u8 list" where
  "u32_to_bytes v = rmap from_bits_le (chunks 8 (var_bits v))"

fun greater_loop :: "bool \<Rightarrow> bool \<Rightarrow> (bool \<times> bool) list \<Rightarrow> bool" where
  "greater_loop gt found_difference [] = gt"
| "greater_loop gt found_difference ((a, b) # rest) =
     (let a_greater_b = (a \<and> \<not> b);
          difference = (a \<noteq> b);
          found_a_new_difference = (\<not> found_difference \<and> difference)
      in greater_loop (if found_a_new_difference then a_greater_b else gt)
           (found_difference \<or> found_a_new_difference) rest)"

definition is_greater_than :: "unsigned32_var \<Rightarrow> unsigned32_var \<Rightarrow> bool" where
  "is_greater_than u v = greater_loop False False (zip (rev (var_bits u)) (rev (var_bits v)))"

text \<open>\<open>enforce_equal\<close> walks the bits of the first operand; the result is the constraint's truth.\<close>

definition u32_enforce_equal :: "unsigned32_var \<Rightarrow> unsigned32_var \<Rightarrow> failure + bool" where
  "u32_enforce_equal u v =
     rfold (\<lambda>i sat. rbind (vindex (var_bits v) i) (\<lambda>b. Inr (sat \<and> var_bits u ! i = b)))
       [0..<length (var_bits u)] True"

definition u32_wf :: "unsigned32 \<Rightarrow> bool" where
  "u32_wf u \<longleftrightarrow> length (bits u) = 32"

section \<open>The native counter\<close>

lemma bit_bits_val: "bit (bits_val bs) n \<longleftrightarrow> n < length bs \<and> bs ! n"
proof (induction bs arbitrary: n)
  case (Cons b bs)
  then show ?case
    by (cases n) (auto simp: bit_0 bit_Suc)
qed simp

lemma bit_representation_from:
  "index + length bs \<le> 32 \<Longrightarrow>
     bit (representation_from index bs acc) n \<longleftrightarrow>
       bit acc n \<or> (index \<le> n \<and> n < index + length bs \<and> bs ! (n - index))"
proof (induction bs arbitrary: index acc)
  case (Cons b bs)
  then have "bit (representation_from index (b # bs) acc) n \<longleftrightarrow>
      bit (if b then acc OR push_bit (index mod 32) 1 else acc) n
      \<or> (Suc index \<le> n \<and> n < Suc index + length bs \<and> bs ! (n - Suc index))"
    by simp
  then show ?case
    using Cons.prems
    by (cases "n = index")
      (auto simp: bit_or_iff bit_exp_iff nth_Cons' Suc_le_eq le_neq_implies_less)
qed auto

lemma representation_word: "u32_wf u \<Longrightarrow> representation u = word_of_nat (bits_val (bits u))"
  by (rule bit_word_eqI)
    (simp add: representation_def u32_wf_def bit_representation_from bit_unsigned_iff bit_of_nat_iff bit_bits_val)

lemma representation_eq: "u32_wf u \<Longrightarrow> unat (representation u) = bits_val (bits u)"
  using bits_val_less [of "bits u"] by (simp add: representation_word u32_wf_def unat_of_nat)

lemma unsigned_shifted_one [simp]:
  assumes "i < 64"
  shows "(unsigned ((2 :: u64) ^ i) :: 'f::field) = 2 ^ i"
proof -
  have "unat ((2 :: u64) ^ i) = unat (word_of_nat (2 ^ i) :: u64)" by simp
  also have "\<dots> = 2 ^ i mod 2 ^ 64" by (simp only: unat_of_nat) simp
  also have "\<dots> = 2 ^ i"
    using assms by (intro mod_less power_strict_increasing) auto
  finally have "(of_nat (unat ((2 :: u64) ^ i)) :: 'f) = of_nat (2 ^ i)" by simp
  then show ?thesis by simp
qed

lemma as_field_elem_from_eq:
  "index + length bs \<le> 64 \<Longrightarrow>
     as_field_elem_from index bs acc = acc + of_nat (2 ^ index * bits_val bs)"
proof (induction bs arbitrary: index acc)
  case (Cons b bs)
  then show ?case by (auto simp: algebra_simps)
qed simp

lemma as_field_elem_eq: "u32_wf u \<Longrightarrow> as_field_elem u = of_nat (bits_val (bits u))"
  by (simp add: as_field_elem_def u32_wf_def as_field_elem_from_eq)

lemma increment_bits_False [simp]: "increment_bits False bs = bs"
  by (cases bs) simp_all

lemma length_increment_bits [simp]: "length (increment_bits c bs) = length bs"
  by (induction bs arbitrary: c) simp_all

lemma bits_val_increment:
  "bits_val (increment_bits c bs) = (bits_val bs + of_bool c) mod 2 ^ length bs"
proof (induction bs arbitrary: c)
  case (Cons b bs)
  have less: "bits_val bs < 2 ^ length bs" by (rule bits_val_less)
  show ?case
  proof (cases c)
    case False
    with less show ?thesis by (auto simp: of_bool_def)
  next
    case True
    with Cons.IH [of b] less show ?thesis
      by (cases b) (simp_all add: mult_mod_right)
  qed
qed simp

lemma u32_wf_default [simp]: "u32_wf u32_default"
  by (simp add: u32_wf_def u32_default_def)

lemma u32_wf_increment [simp]: "u32_wf u \<Longrightarrow> u32_wf (increment_inplace u)"
  by (simp add: u32_wf_def increment_inplace_def)

lemma representation_increment:
  "u32_wf u \<Longrightarrow> representation (increment_inplace u) = representation u + 1"
proof -
  assume wf: "u32_wf u"
  have "representation (increment_inplace u)
          = word_of_nat ((bits_val (bits u) + 1) mod 2 ^ 32)"
    using wf by (simp add: representation_word bits_val_increment increment_inplace_def u32_wf_def)
  also have "\<dots> = word_of_nat (bits_val (bits u) + 1)"
    by (simp only: word_unat_eq_iff unat_of_nat) simp
  finally show ?thesis using wf by (simp add: representation_word)
qed

lemma u32_wf_funpow_increment [simp]: "u32_wf u \<Longrightarrow> u32_wf ((increment_inplace ^^ k) u)"
  by (induction k) simp_all

lemma representation_inj:
  "u32_wf u \<Longrightarrow> u32_wf v \<Longrightarrow> representation u = representation v \<longleftrightarrow> u = v"
  by (metis bits_val_inj representation_eq u32_wf_def unsigned32.equality unit_eq)

section \<open>The circuit counter\<close>

lemma increment_bits_var_False [simp]: "increment_bits_var False bs = bs"
  by (induction bs) simp_all

lemma increment_bits_var_True [simp]: "increment_bits_var True bs = increment_bits True bs"
  by (induction bs) simp_all

lemma length_increment_bits_var [simp]: "length (increment_bits_var c bs) = length bs"
  by (cases c) simp_all

lemma u32_new_variable_eq [simp]: "u32_new_variable u = \<lparr>var_bits = bits u\<rparr>"
  by (simp add: u32_new_variable_def map_nth)

lemma u32_value_new [simp]: "u32_value (u32_new_variable u) = u"
  by (simp add: u32_value_def)

lemma u32_increment_gadget:
  "u32_value (increment_inplace_var True (u32_new_variable u)) = increment_inplace u"
  by (simp add: u32_value_def increment_inplace_var_def increment_inplace_def)

lemma greater_loop_found [simp]: "greater_loop g True ps = g"
  by (induction ps) (auto simp: Let_def)

lemma greater_loop_append:
  "greater_loop g False (ps @ [(a, b)]) =
     (if \<exists>(x, y) \<in> set ps. x \<noteq> y then greater_loop g False ps
      else if a \<noteq> b then a else g)"
proof (induction ps)
  case Nil
  then show ?case by (cases a; cases b; simp)
next
  case (Cons p ps)
  obtain x y where p: "p = (x, y)" by (cases p)
  show ?case
  proof (cases "x = y")
    case True
    with Cons p show ?thesis by (simp only: append_Cons greater_loop.simps) (simp add: Let_def)
  next
    case False
    with p show ?thesis by (simp add: Let_def)
  qed
qed

lemma zip_differs_iff:
  "length xs = length ys \<Longrightarrow> (\<exists>(x, y) \<in> set (zip xs ys). x \<noteq> y) \<longleftrightarrow> xs \<noteq> ys"
  by (induction xs ys rule: list_induct2) auto

lemma greater_loop_rev_zip:
  "length xs = length ys \<Longrightarrow>
     greater_loop False False (zip (rev xs) (rev ys)) \<longleftrightarrow> bits_val ys < bits_val xs"
proof (induction xs ys rule: list_induct2)
  case (Cons x xs y ys)
  have diff: "(\<exists>(a, b) \<in> set (zip (rev xs) (rev ys)). a \<noteq> b) \<longleftrightarrow> xs \<noteq> ys"
    using Cons.hyps by (subst zip_differs_iff) simp_all
  show ?case
  proof (cases "xs = ys")
    case True
    then show ?thesis
      using diff Cons.hyps by (cases x; cases y) (simp_all add: greater_loop_append split: prod.splits)
  next
    case False
    then have "bits_val xs \<noteq> bits_val ys"
      using Cons.hyps by (simp add: bits_val_inj)
    with False diff Cons show ?thesis
      by (cases x; cases y) (auto simp: greater_loop_append)
  qed
qed simp

lemma is_greater_than_iff:
  "length (var_bits u) = length (var_bits v) \<Longrightarrow>
     is_greater_than u v \<longleftrightarrow> bits_val (var_bits v) < bits_val (var_bits u)"
  by (simp add: is_greater_than_def greater_loop_rev_zip)

lemma u32_enforce_equal_eq:
  assumes "length (var_bits u) = length (var_bits v)"
  shows "u32_enforce_equal u v = Inr (var_bits u = var_bits v)"
proof -
  have "rfold (\<lambda>i sat. rbind (vindex (var_bits v) i) (\<lambda>b. Inr (sat \<and> var_bits u ! i = b))) is s
          = Inr (s \<and> (\<forall>i \<in> set is. var_bits u ! i = var_bits v ! i))"
    if "\<forall>i \<in> set is. i < length (var_bits v)" for "is" s
    using that
  proof (induction "is" arbitrary: s)
    case (Cons i "is")
    then show ?case by simp
  qed simp
  moreover have "(\<forall>i \<in> set [0..<length (var_bits u)]. var_bits u ! i = var_bits v ! i)
      \<longleftrightarrow> var_bits u = var_bits v"
    unfolding list_eq_iff_nth_eq using assms by auto
  ultimately show ?thesis
    using assms by (simp add: u32_enforce_equal_def)
qed

lemma rmap_from_bits_le:
  "\<forall>c \<in> set cs. length c = 8 \<Longrightarrow>
     rmap from_bits_le cs = Inr (map (\<lambda>c. word_of_nat (bits_val c)) cs)
     \<and> bytes_val (map (\<lambda>c. word_of_nat (bits_val c)) cs) = bits_val (concat cs)"
proof (induction cs)
  case (Cons c cs)
  have "bits_val c < 256" using bits_val_less [of c] Cons.prems by simp
  with Cons show ?case by (simp add: from_bits_le_def bits_val_append unat_of_nat)
qed simp

lemma chunks_8_exact: "length bs = 8 * k \<Longrightarrow> \<forall>c \<in> set (chunks 8 bs). length c = 8"
proof (induction k arbitrary: bs)
  case (Suc k)
  from Suc.IH [of "drop 8 bs"] Suc.prems show ?case
    by (subst chunks_unfold) auto
qed simp

lemma u32_to_bytes_eq:
  assumes "length (var_bits v) = 32"
  shows "\<exists>bytes. u32_to_bytes v = Inr bytes \<and> bytes_val bytes = bits_val (var_bits v)"
  using rmap_from_bits_le [OF chunks_8_exact [of "var_bits v" 4]] assms
  by (simp add: u32_to_bytes_def concat_chunks)

section \<open>Timestamps are 32-bit integers\<close>

text \<open>
  C39: On 32-bit vectors, the in-circuit comparison is the order of the represented words, the
  in-circuit increment with an honest carry is the native one, which adds one modulo \<open>2 ^ 32\<close>,
  and the field element and the little-endian bytes of a timestamp are the represented number.
\<close>

theorem timestamp_gadgets:
  assumes "u32_wf u" and "u32_wf v"
  shows "is_greater_than (u32_new_variable u) (u32_new_variable v) = (representation v < representation u)
    \<and> u32_value (increment_inplace_var True (u32_new_variable u)) = increment_inplace u
    \<and> representation (increment_inplace u) = representation u + 1
    \<and> as_field_elem u = (of_nat (unat (representation u)) :: 'f::field)
    \<and> (\<exists>bytes. u32_to_bytes (u32_new_variable u) = Inr bytes \<and> bytes_val bytes = unat (representation u))
    \<and> u32_enforce_equal (u32_new_variable u) (u32_new_variable v) = Inr (representation u = representation v)"
proof -
  have len: "length (bits u) = 32" "length (bits v) = 32" using assms by (simp_all add: u32_wf_def)
  have "bits u = bits v \<longleftrightarrow> representation u = representation v"
    using representation_inj [OF assms] by auto
  then have "u32_enforce_equal (u32_new_variable u) (u32_new_variable v) = Inr (representation u = representation v)"
    using u32_enforce_equal_eq [of "u32_new_variable u" "u32_new_variable v"] len by simp
  moreover have "is_greater_than (u32_new_variable u) (u32_new_variable v) = (representation v < representation u)"
    using is_greater_than_iff [of "u32_new_variable u" "u32_new_variable v"] len assms
    by (simp add: word_less_nat_alt representation_eq)
  ultimately show ?thesis
    using u32_to_bytes_eq [of "u32_new_variable u"] len assms
    by (simp only: u32_increment_gadget representation_increment as_field_elem_eq representation_eq) simp
qed

theorem timestamp_gadgets_witness:
  "is_greater_than (u32_new_variable (increment_inplace u32_default)) (u32_new_variable u32_default)
     = (representation u32_default < representation (increment_inplace u32_default))"
  using timestamp_gadgets [of "increment_inplace u32_default" u32_default, THEN conjunct1] by simp

end
