(* ===== verification/Perm_Check.thy ===== *)
theory Perm_Check
  imports Prelude
begin

text \<open>
  The algebra behind the permutation check of the running evaluations: a transcript is folded
  into the product of the factors \<open>chal - entry\<close>. Two transcripts with the same entries give
  the same product at every challenge; two with different entries agree at no more challenges
  than their length. Polynomials are coefficient lists evaluated by Horner's rule.
\<close>

primrec horner :: "'a::idom list \<Rightarrow> 'a \<Rightarrow> 'a" where
  "horner [] t = 0"
| "horner (a # p) t = a + t * horner p t"

definition linear_prod :: "'a::idom \<Rightarrow> 'a list \<Rightarrow> 'a" where
  "linear_prod t xs = prod_list (map (\<lambda>x. t - x) xs)"

lemma linear_prod_simps [simp]:
  "linear_prod t [] = 1"
  "linear_prod t (x # xs) = (t - x) * linear_prod t xs"
  "linear_prod t (xs @ ys) = linear_prod t xs * linear_prod t ys"
  by (simp_all add: linear_prod_def)

lemma linear_prod_take_drop_add:
  "linear_prod t (map f (take (k + j) (drop n xs)))
     = linear_prod t (map f (take k (drop n xs))) * linear_prod t (map f (take j (drop (n + k) xs)))"
  by (simp only: take_add drop_drop add.commute [of n k] map_append linear_prod_simps)

lemma linear_prod_mset: "linear_prod t xs = prod_mset (image_mset (\<lambda>x. t - x) (mset xs))"
  by (induction xs) simp_all

lemma linear_prod_perm: "mset xs = mset ys \<Longrightarrow> linear_prod t xs = linear_prod t ys"
  by (simp add: linear_prod_mset)

lemma linear_prod_zero_iff: "linear_prod t xs = 0 \<longleftrightarrow> t \<in> set xs"
  by (induction xs) auto

lemma horner_combine:
  "length q \<le> length p \<Longrightarrow> \<exists>s. length s = length p \<and> (\<forall>t. horner s t = horner p t + c * horner q t)"
proof (induction p arbitrary: q)
  case (Cons a p)
  show ?case
  proof (cases q)
    case Nil
    then show ?thesis by (intro exI [of _ "a # p"]) simp
  next
    case (Cons b q')
    with Cons.prems Cons.IH [of q'] obtain s where
      "length s = length p" "\<forall>t. horner s t = horner p t + c * horner q' t" by auto
    then show ?thesis
      by (intro exI [of _ "(a + c * b) # s"]) (simp add: Cons algebra_simps)
  qed
qed simp

lemma horner_factor:
  "\<exists>q. length q = length p - 1 \<and> (\<forall>t. horner p t - horner p r = (t - r) * horner q t)"
proof (induction p)
  case (Cons a p)
  then obtain q where q: "length q = length p - 1"
    "\<And>t. horner p t - horner p r = (t - r) * horner q t" by blast
  from horner_combine [of q p r] q(1) obtain s where
    s: "length s = length p" "\<And>t. horner s t = horner p t + r * horner q t" by auto
  have "horner (a # p) t - horner (a # p) r = (t - r) * horner s t" for t
  proof -
    have "horner (a # p) t - horner (a # p) r = (t - r) * horner p t + r * (horner p t - horner p r)"
      by (simp add: algebra_simps)
    then show ?thesis by (simp only: q(2) s(2)) (simp add: algebra_simps)
  qed
  with s show ?case by auto
qed simp

lemma horner_roots:
  "horner p x \<noteq> 0 \<Longrightarrow> finite {t. horner p t = 0} \<and> card {t. horner p t = 0} \<le> length p - 1"
proof (induction "length p" arbitrary: p)
  case 0
  then show ?case by simp
next
  case (Suc n)
  show ?case
  proof (cases "\<exists>r. horner p r = 0")
    case True
    then obtain r where r: "horner p r = 0" by blast
    from horner_factor [of p r] r obtain q where
      q: "length q = n" "\<And>t. horner p t = (t - r) * horner q t"
      using Suc.hyps(2) by (metis diff_Suc_1 diff_zero)
    with Suc.prems have "horner q x \<noteq> 0" by auto
    with Suc.hyps(1) q have fin: "finite {t. horner q t = 0}" "card {t. horner q t = 0} \<le> n - 1"
      by auto
    have roots: "{t. horner p t = 0} = insert r {t. horner q t = 0}"
      using q(2) by auto
    have "n \<noteq> 0" using \<open>horner q x \<noteq> 0\<close> q(1) by auto
    with fin roots Suc.hyps(2) show ?thesis
      by (metis card_insert_le_m1 diff_Suc_1 finite.insertI neq0_conv)
  qed simp
qed

lemma linear_prod_horner: "\<exists>p. length p = Suc (length xs) \<and> (\<forall>t. linear_prod t xs = horner p t)"
proof (induction xs)
  case Nil
  show ?case by (intro exI [of _ "[1]"]) simp
next
  case (Cons x xs)
  then obtain p where p: "length p = Suc (length xs)" "\<And>t. linear_prod t xs = horner p t" by blast
  from horner_combine [of p "0 # p" "- x"] obtain s where
    "length s = Suc (length p)" "\<And>t. horner s t = t * horner p t - x * horner p t" by auto
  with p show ?case by (auto simp: algebra_simps)
qed

lemma agree_disjoint:
  assumes "set xs \<inter> set ys = {}" and "length xs = length ys" and "xs \<noteq> []"
  shows "finite {t. linear_prod t xs = linear_prod t ys}
         \<and> card {t. linear_prod t xs = linear_prod t ys} \<le> length xs"
proof -
  obtain p where p: "length p = Suc (length xs)" "\<And>t. linear_prod t xs = horner p t"
    using linear_prod_horner by blast
  obtain q where q: "length q = Suc (length ys)" "\<And>t. linear_prod t ys = horner q t"
    using linear_prod_horner by blast
  from horner_combine [of q p "- 1"] p q assms(2) obtain s where
    s: "length s = Suc (length xs)" "\<And>t. horner s t = linear_prod t xs - linear_prod t ys" by auto
  from assms obtain x where "x \<in> set xs" "x \<notin> set ys" by (cases xs) auto
  then have "horner s x \<noteq> 0" by (simp add: s linear_prod_zero_iff [THEN iffD2]) (simp add: linear_prod_zero_iff)
  from horner_roots [OF this] s show ?thesis by simp
qed

lemma mset_split_common:
  assumes "mset xs \<noteq> mset ys" and "length xs = length ys"
  obtains cs xs' ys' where "mset xs = mset (cs @ xs')" "mset ys = mset (cs @ ys')"
    "set xs' \<inter> set ys' = {}" "xs' \<noteq> []" "length ys' \<le> length xs"
    "length xs = length cs + length xs'" "length ys = length cs + length ys'"
proof -
  define M where "M = mset xs \<inter># mset ys"
  obtain cs where cs: "mset cs = M" using ex_mset by blast
  obtain xs' where xs': "mset xs' = mset xs - M" using ex_mset by blast
  obtain ys' where ys': "mset ys' = mset ys - M" using ex_mset by blast
  have mx: "mset xs = mset (cs @ xs')" and my: "mset ys = mset (cs @ ys')"
    by (auto simp: cs xs' ys' M_def multiset_eq_iff)
  have lx: "length xs = length cs + length xs'" and ly: "length ys = length cs + length ys'"
    using mx my by (metis length_append size_mset)+
  have "(mset xs - M) \<inter># (mset ys - M) = {#}"
    by (rule multiset_eqI) (simp add: M_def)
  then have "set_mset (mset xs') \<inter> set_mset (mset ys') = {}"
    by (metis xs' ys' set_mset_empty set_mset_inter)
  then have disj: "set xs' \<inter> set ys' = {}" by simp
  have "xs' \<noteq> []"
  proof
    assume "xs' = []"
    with lx ly assms(2) have "ys' = []" by simp
    with \<open>xs' = []\<close> mx my assms(1) show False by simp
  qed
  show ?thesis
    by (rule that [OF mx my disj \<open>xs' \<noteq> []\<close>]) (use lx ly assms(2) in auto)
qed

lemma linear_prod_agree_bound:
  assumes "mset xs \<noteq> mset ys" and "length xs = length ys"
  shows "finite {t. linear_prod t xs = linear_prod t ys}
         \<and> card {t. linear_prod t xs = linear_prod t ys} \<le> length xs"
proof -
  from mset_split_common [OF assms] obtain cs xs' ys' where
    sp: "mset xs = mset (cs @ xs')" "mset ys = mset (cs @ ys')"
      "set xs' \<inter> set ys' = {}" "xs' \<noteq> []"
      "length xs = length cs + length xs'" "length ys = length cs + length ys'" by metis
  let ?B = "{t. linear_prod t xs' = linear_prod t ys'}"
  have B: "finite ?B" "card ?B \<le> length xs'"
    using agree_disjoint [OF sp(3) _ sp(4)] sp(5,6) assms(2) by auto
  have "{t. linear_prod t xs = linear_prod t ys} \<subseteq> set cs \<union> ?B"
    by (auto simp: linear_prod_perm [OF sp(1)] linear_prod_perm [OF sp(2)] linear_prod_zero_iff)
  moreover have "card (set cs \<union> ?B) \<le> length cs + length xs'"
    using B(2) card_length [of cs] by (meson add_mono card_Un_le le_trans)
  ultimately show ?thesis
    using B(1) sp(5) by (metis (no_types, lifting) List.finite_set card_mono finite_UnI finite_subset le_trans)
qed

section \<open>Random linear compression of entries\<close>

text \<open>
  Entries are compressed to one field element by a challenge before they are multiplied up. If
  two distinct entries collide under at most \<open>K\<close> challenges, different multisets of entries
  stay different under all but \<open>n * K\<close> of them.
\<close>

lemma compress_collision_bound:
  assumes "finite A" and neq: "mset xs \<noteq> mset ys" and len: "length xs = length ys"
    and K: "\<And>x y. x \<in> set xs \<Longrightarrow> y \<in> set ys \<Longrightarrow> x \<noteq> y \<Longrightarrow> card {c \<in> A. f c x = f c y} \<le> K"
  shows "card {c \<in> A. mset (map (f c) xs) = mset (map (f c) ys)} \<le> length xs * K"
proof -
  from mset_split_common [OF neq len] obtain cs xs' ys' where
    sp: "mset xs = mset (cs @ xs')" "mset ys = mset (cs @ ys')"
      "set xs' \<inter> set ys' = {}" "xs' \<noteq> []" "length ys' \<le> length xs" by metis
  obtain x where x: "x \<in> set xs'" using sp(4) by (cases xs') auto
  have sub: "set xs' \<subseteq> set xs" "set ys' \<subseteq> set ys"
    using sp(1,2) by (metis set_append set_mset_mset sup_ge2)+
  have "{c \<in> A. mset (map (f c) xs) = mset (map (f c) ys)}
        \<subseteq> (\<Union>y \<in> set ys'. {c \<in> A. f c x = f c y})"
  proof
    fix c assume c: "c \<in> {c \<in> A. mset (map (f c) xs) = mset (map (f c) ys)}"
    have "mset (map (f c) xs) = mset (map (f c) cs) + mset (map (f c) xs')"
         "mset (map (f c) ys) = mset (map (f c) cs) + mset (map (f c) ys')"
      using sp(1,2) by (metis map_append mset_append mset_map)+
    with c have "mset (map (f c) xs') = mset (map (f c) ys')" by simp
    then have "f c ` set xs' = f c ` set ys'" by (metis set_map set_mset_mset)
    with x have "f c x \<in> f c ` set ys'" by blast
    with c show "c \<in> (\<Union>y \<in> set ys'. {c \<in> A. f c x = f c y})" by auto
  qed
  then have "card {c \<in> A. mset (map (f c) xs) = mset (map (f c) ys)}
        \<le> card (\<Union>y \<in> set ys'. {c \<in> A. f c x = f c y})"
    using \<open>finite A\<close> by (intro card_mono) auto
  also have "\<dots> \<le> (\<Sum>y \<in> set ys'. card {c \<in> A. f c x = f c y})"
    by (rule card_UN_le) simp
  also have "\<dots> \<le> (\<Sum>y \<in> set ys'. K)"
    using x sub sp(3) by (intro sum_mono K) auto
  also have "\<dots> = card (set ys') * K" by simp
  also have "\<dots> \<le> length xs * K"
    using card_length [of ys'] sp(5) by (meson le_trans mult_le_mono1)
  finally show ?thesis .
qed

lemma compressed_product_bound:
  fixes f :: "'c \<Rightarrow> 'e \<Rightarrow> 'f::idom"
  assumes "finite A" and "finite C" and neq: "mset xs \<noteq> mset ys" and len: "length xs = length ys"
    and K: "\<And>x y. x \<in> set xs \<Longrightarrow> y \<in> set ys \<Longrightarrow> x \<noteq> y \<Longrightarrow> card {c \<in> A. f c x = f c y} \<le> K"
  shows "card {(c, t). c \<in> A \<and> t \<in> C \<and> linear_prod t (map (f c) xs) = linear_prod t (map (f c) ys)}
         \<le> length xs * K * card C + length xs * card A"
proof -
  let ?agree = "\<lambda>c t. linear_prod t (map (f c) xs) = linear_prod t (map (f c) ys)"
  let ?bad = "{c \<in> A. mset (map (f c) xs) = mset (map (f c) ys)}"
  let ?good = "A - ?bad"
  have "{(c, t). c \<in> A \<and> t \<in> C \<and> ?agree c t} \<subseteq> (?bad \<times> C) \<union> (SIGMA c:?good. {t. ?agree c t})"
    by auto
  moreover have fin: "finite {t. ?agree c t} \<and> card {t. ?agree c t} \<le> length xs" if "c \<in> ?good" for c
    using linear_prod_agree_bound [of "map (f c) xs" "map (f c) ys"] that len by auto
  ultimately have "card {(c, t). c \<in> A \<and> t \<in> C \<and> ?agree c t}
      \<le> card ((?bad \<times> C) \<union> (SIGMA c:?good. {t. ?agree c t}))"
    using assms(1,2) by (intro card_mono) auto
  also have "\<dots> \<le> card (?bad \<times> C) + card (SIGMA c:?good. {t. ?agree c t})"
    by (rule card_Un_le)
  also have "card (?bad \<times> C) = card ?bad * card C" by (rule card_cartesian_product)
  also have "card (SIGMA c:?good. {t. ?agree c t}) = (\<Sum>c \<in> ?good. card {t. ?agree c t})"
    using assms(1) fin by (intro card_SigmaI) auto
  also have "\<dots> \<le> (\<Sum>c \<in> ?good. length xs)" using fin by (intro sum_mono) auto
  also have "\<dots> \<le> length xs * card A"
    using assms(1) by (simp add: card_mono)
  finally have "card {(c, t). c \<in> A \<and> t \<in> C \<and> ?agree c t} \<le> card ?bad * card C + length xs * card A"
    by simp
  also have "\<dots> \<le> length xs * K * card C + length xs * card A"
    using compress_collision_bound [OF assms(1) neq len K] by simp
  finally show ?thesis .
qed

end
