(* ===== verification/Transcript.thy ===== *)
theory Transcript
  imports Uint32 Perm_Check
begin

text \<open>
  Portal-wire transcripts and their running evaluations,
  \<open>distributed-prover/src/transcript/{mod,rom_transcript,ram_transcript}.rs\<close>. The scalar
  field is a type \<open>'f::field\<close>. A circuit variable is the value its witness assigns to it, so
  a \<open>...Var\<close> struct becomes a record of values. SHA-256 and the serialisation of commitments
  are parameters; \<open>from_le_bytes_mod_order\<close> is \<open>of_nat\<close> of the little-endian value.
\<close>

section \<open>Entries\<close>

datatype mem_type = Ram | Rom

record 'f rom_entry =
  rom_addr :: u64
  rom_val :: 'f

record 'f ram_entry =
  ram_addr :: u64
  ram_val :: 'f
  ram_i :: unsigned32
  ram_read :: bool

datatype 'f transcript_entry = RomEntry "'f rom_entry" | RamEntry "'f ram_entry"

definition rom_padding :: "'f::field rom_entry" where
  "rom_padding = \<lparr>rom_addr = 0, rom_val = 0\<rparr>"

definition ram_padding :: "'f::field ram_entry" where
  "ram_padding = \<lparr>ram_addr = 0, ram_val = 0, ram_i = u32_default, ram_read = False\<rparr>"

fun entry_padding :: "mem_type \<Rightarrow> 'f::field transcript_entry" where
  "entry_padding Ram = RamEntry ram_padding"
| "entry_padding Rom = RomEntry rom_padding"

fun entry_addr :: "'f transcript_entry \<Rightarrow> u64" where
  "entry_addr (RomEntry e) = rom_addr e"
| "entry_addr (RamEntry e) = ram_addr e"

fun entry_timestamp :: "'f transcript_entry \<Rightarrow> u32" where
  "entry_timestamp (RomEntry e) = 0"
| "entry_timestamp (RamEntry e) = representation (ram_i e)"

fun entry_value :: "'f transcript_entry \<Rightarrow> 'f" where
  "entry_value (RomEntry e) = rom_val e"
| "entry_value (RamEntry e) = ram_val e"

definition rom_to_field_elements :: "'f::field rom_entry \<Rightarrow> 'f list" where
  "rom_to_field_elements e = [of_nat (unat (rom_addr e)), rom_val e]"

definition ram_to_field_elements :: "'f::field ram_entry \<Rightarrow> 'f list" where
  "ram_to_field_elements e =
     [of_nat (unat (ram_addr e)), ram_val e, as_field_elem (ram_i e), of_bool (ram_read e)]"

fun entry_to_field_elements :: "'f::field transcript_entry \<Rightarrow> 'f list" where
  "entry_to_field_elements (RomEntry e) = rom_to_field_elements e"
| "entry_to_field_elements (RamEntry e) = ram_to_field_elements e"

section \<open>Entries as circuit variables\<close>

record 'f rom_entry_var =
  romv_val :: 'f
  romv_addr :: 'f

record 'f ram_entry_var =
  ramv_addr :: 'f
  ramv_val :: 'f
  ramv_i :: unsigned32_var
  ramv_read :: bool

datatype 'f transcript_entry_var = RomEntryVar "'f rom_entry_var" | RamEntryVar "'f ram_entry_var"

definition rom_entry_new_variable :: "'f::field rom_entry \<Rightarrow> 'f rom_entry_var" where
  "rom_entry_new_variable e = \<lparr>romv_val = rom_val e, romv_addr = of_nat (unat (rom_addr e))\<rparr>"

definition ram_entry_new_variable :: "'f::field ram_entry \<Rightarrow> 'f ram_entry_var" where
  "ram_entry_new_variable e =
     \<lparr>ramv_addr = of_nat (unat (ram_addr e)), ramv_val = ram_val e,
      ramv_i = u32_new_variable (ram_i e), ramv_read = ram_read e\<rparr>"

fun entry_new_variable :: "'f::field transcript_entry \<Rightarrow> 'f transcript_entry_var" where
  "entry_new_variable (RomEntry e) = RomEntryVar (rom_entry_new_variable e)"
| "entry_new_variable (RamEntry e) = RamEntryVar (ram_entry_new_variable e)"

text \<open>
  Reading a variable back asserts that the address fits into 64 bits. \<open>into_bigint\<close>, the
  canonical integer of a field element, is the parameter \<open>repr\<close>.
\<close>

definition rom_entry_value :: "('f \<Rightarrow> nat) \<Rightarrow> 'f rom_entry_var \<Rightarrow> failure + 'f rom_entry" where
  "rom_entry_value repr v =
     rbind (ensure ''address does not fit into 64 bits'' (repr (romv_addr v) < 2 ^ 64))
       (\<lambda>_. Inr \<lparr>rom_addr = word_of_nat (repr (romv_addr v)), rom_val = romv_val v\<rparr>)"

definition ram_entry_value :: "('f \<Rightarrow> nat) \<Rightarrow> 'f ram_entry_var \<Rightarrow> failure + 'f ram_entry" where
  "ram_entry_value repr v =
     rbind (ensure ''address does not fit into 64 bits'' (repr (ramv_addr v) < 2 ^ 64))
       (\<lambda>_. Inr \<lparr>ram_addr = word_of_nat (repr (ramv_addr v)), ram_val = ramv_val v,
                ram_i = u32_value (ramv_i v), ram_read = ramv_read v\<rparr>)"

fun entry_var_value :: "('f \<Rightarrow> nat) \<Rightarrow> 'f transcript_entry_var \<Rightarrow> failure + 'f transcript_entry" where
  "entry_var_value repr (RomEntryVar v) = rbind (rom_entry_value repr v) (\<lambda>e. Inr (RomEntry e))"
| "entry_var_value repr (RamEntryVar v) = rbind (ram_entry_value repr v) (\<lambda>e. Inr (RamEntry e))"

definition rom_to_constraint_field :: "'f rom_entry_var \<Rightarrow> 'f list" where
  "rom_to_constraint_field v = [romv_addr v, romv_val v]"

definition ram_to_constraint_field :: "'f::field ram_entry_var \<Rightarrow> 'f list" where
  "ram_to_constraint_field v = [ramv_addr v, ramv_val v, to_fpvar (ramv_i v), of_bool (ramv_read v)]"

fun entry_to_constraint_field :: "'f::field transcript_entry_var \<Rightarrow> 'f list" where
  "entry_to_constraint_field (RomEntryVar v) = rom_to_constraint_field v"
| "entry_to_constraint_field (RamEntryVar v) = ram_to_constraint_field v"

text \<open>
  \<open>is_padding\<close> chains \<open>is_eq(..)\<close> calls, each a \<open>Result<Boolean>\<close>, with \<open>Result::and\<close>: an
  \<open>Ok\<close> on the left is discarded and the right operand is returned.
\<close>

definition result_and :: "failure + 'a \<Rightarrow> failure + 'b \<Rightarrow> failure + 'b" where
  "result_and r s = (case r of Inl e \<Rightarrow> Inl e | Inr _ \<Rightarrow> s)"

definition rom_is_padding :: "'f::field rom_entry_var \<Rightarrow> failure + bool" where
  "rom_is_padding v = result_and (Inr (romv_addr v = 0)) (Inr (romv_addr v = 0))"

definition ram_is_padding :: "'f::field ram_entry_var \<Rightarrow> failure + bool" where
  "ram_is_padding v =
     result_and (result_and (result_and (Inr (ramv_addr v = 0)) (Inr (ramv_addr v = 0)))
       (Inr (to_fpvar (ramv_i v) = (0 :: 'f)))) (Inr (ramv_read v = False))"

fun entry_is_padding :: "'f::field transcript_entry_var \<Rightarrow> failure + bool" where
  "entry_is_padding (RomEntryVar v) = rom_is_padding v"
| "entry_is_padding (RamEntryVar v) = ram_is_padding v"

section \<open>Running evaluations\<close>

record 'f rom_evals =
  rom_time_eval :: 'f
  rom_addr_eval :: 'f
  rom_challenges :: "('f \<times> 'f) option"

record 'f ram_evals =
  ram_time_eval :: 'f
  ram_addr_eval :: 'f
  ram_challenges :: "('f \<times> 'f \<times> 'f \<times> 'f) option"

datatype 'f running_evaluation = RomEval "'f rom_evals" | RamEval "'f ram_evals"

definition rom_evals_default :: "'f::field rom_evals" where
  "rom_evals_default = \<lparr>rom_time_eval = 1, rom_addr_eval = 1, rom_challenges = None\<rparr>"

definition ram_evals_default :: "'f::field ram_evals" where
  "ram_evals_default = \<lparr>ram_time_eval = 1, ram_addr_eval = 1, ram_challenges = None\<rparr>"

definition str_bytes :: "string \<Rightarrow> u8 list" where
  "str_bytes s = map of_char s"

definition from_le_bytes_mod_order :: "u8 list \<Rightarrow> 'f::field" where
  "from_le_bytes_mod_order bs = of_nat (bytes_val bs)"

text \<open>One Fiat-Shamir challenge: hash a context string followed by the commitment's bytes.\<close>

definition hash_challenge :: "(u8 list \<Rightarrow> u8 list) \<Rightarrow> string \<Rightarrow> u8 list \<Rightarrow> 'f::field" where
  "hash_challenge sha256 context com_bytes =
     from_le_bytes_mod_order (sha256 (str_bytes context @ com_bytes))"

definition rom_evals_new ::
    "(u8 list \<Rightarrow> u8 list) \<Rightarrow> ('com \<Rightarrow> u8 list) \<Rightarrow> 'com \<Rightarrow> 'f::field rom_evals" where
  "rom_evals_new sha256 serialize com =
     (let com_bytes = serialize com
      in \<lparr>rom_time_eval = 1, rom_addr_eval = 1,
          rom_challenges = Some (hash_challenge sha256 ''entry_chal'' com_bytes,
                                 hash_challenge sha256 ''tr_chal'' com_bytes)\<rparr>)"

definition ram_evals_new ::
    "(u8 list \<Rightarrow> u8 list) \<Rightarrow> ('com \<Rightarrow> u8 list) \<Rightarrow> 'com \<Rightarrow> 'f::field ram_evals" where
  "ram_evals_new sha256 serialize com =
     (let com_bytes = serialize com
      in \<lparr>ram_time_eval = 1, ram_addr_eval = 1,
          ram_challenges = Some (hash_challenge sha256 ''entry_chal_1'' com_bytes,
                                 hash_challenge sha256 ''entry_chal_2'' com_bytes,
                                 hash_challenge sha256 ''entry_chal_3'' com_bytes,
                                 hash_challenge sha256 ''tr_chal'' com_bytes)\<rparr>)"

definition rom_entry_repr :: "'f::field \<Rightarrow> 'f rom_entry \<Rightarrow> 'f" where
  "rom_entry_repr entry_chal e = rom_val e + entry_chal * of_nat (unat (rom_addr e))"

definition ram_entry_repr :: "'f::field \<Rightarrow> 'f \<Rightarrow> 'f \<Rightarrow> 'f ram_entry \<Rightarrow> 'f" where
  "ram_entry_repr entry_chal_1 entry_chal_2 entry_chal_3 e =
     ram_val e + entry_chal_1 * of_nat (unat (ram_addr e))
       + entry_chal_2 * of_nat (unat (representation (ram_i e))) + entry_chal_3 * of_bool (ram_read e)"

definition rom_update_time_ordered :: "'f::field rom_entry \<Rightarrow> 'f rom_evals \<Rightarrow> failure + 'f rom_evals" where
  "rom_update_time_ordered e ev =
     rbind (unwrap ''RunningEvals.challenges needs to be set in order to run update'' (rom_challenges ev))
       (\<lambda>(entry_chal, tr_chal).
          Inr (ev\<lparr>rom_time_eval := rom_time_eval ev * (tr_chal - rom_entry_repr entry_chal e)\<rparr>))"

definition rom_update_addr_ordered :: "'f::field rom_entry \<Rightarrow> 'f rom_evals \<Rightarrow> failure + 'f rom_evals" where
  "rom_update_addr_ordered e ev =
     rbind (unwrap ''RunningEvals.challenges needs to be set in order to run update'' (rom_challenges ev))
       (\<lambda>(entry_chal, tr_chal).
          Inr (ev\<lparr>rom_addr_eval := rom_addr_eval ev * (tr_chal - rom_entry_repr entry_chal e)\<rparr>))"

definition ram_update_time_ordered :: "'f::field ram_entry \<Rightarrow> 'f ram_evals \<Rightarrow> failure + 'f ram_evals" where
  "ram_update_time_ordered e ev =
     rbind (unwrap ''RunningEvals.challenges needs to be set in order to run update'' (ram_challenges ev))
       (\<lambda>(c1, c2, c3, tr_chal).
          Inr (ev\<lparr>ram_time_eval := ram_time_eval ev * (tr_chal - ram_entry_repr c1 c2 c3 e)\<rparr>))"

definition ram_update_addr_ordered :: "'f::field ram_entry \<Rightarrow> 'f ram_evals \<Rightarrow> failure + 'f ram_evals" where
  "ram_update_addr_ordered e ev =
     rbind (unwrap ''RunningEvals.challenges needs to be set in order to run update'' (ram_challenges ev))
       (\<lambda>(c1, c2, c3, tr_chal).
          Inr (ev\<lparr>ram_addr_eval := ram_addr_eval ev * (tr_chal - ram_entry_repr c1 c2 c3 e)\<rparr>))"


text \<open>
  The enum over the two kinds of evaluation. Feeding it an entry of the other kind panics.
\<close>

fun eval_new :: "(u8 list \<Rightarrow> u8 list) \<Rightarrow> ('com \<Rightarrow> u8 list) \<Rightarrow> mem_type \<Rightarrow> 'com \<Rightarrow> 'f::field running_evaluation" where
  "eval_new sha256 serialize Ram com = RamEval (ram_evals_new sha256 serialize com)"
| "eval_new sha256 serialize Rom com = RomEval (rom_evals_new sha256 serialize com)"

fun eval_default :: "mem_type \<Rightarrow> 'f::field running_evaluation" where
  "eval_default Ram = RamEval ram_evals_default"
| "eval_default Rom = RomEval rom_evals_default"

fun eval_update_time_ordered ::
    "'f::field transcript_entry \<Rightarrow> 'f running_evaluation \<Rightarrow> failure + 'f running_evaluation" where
  "eval_update_time_ordered (RomEntry e) (RomEval ev) =
     rbind (rom_update_time_ordered e ev) (\<lambda>ev'. Inr (RomEval ev'))"
| "eval_update_time_ordered (RamEntry e) (RamEval ev) =
     rbind (ram_update_time_ordered e ev) (\<lambda>ev'. Inr (RamEval ev'))"
| "eval_update_time_ordered e ev = Inl (Panic ''Invalid entry type'')"

fun eval_update_addr_ordered ::
    "'f::field transcript_entry \<Rightarrow> 'f running_evaluation \<Rightarrow> failure + 'f running_evaluation" where
  "eval_update_addr_ordered (RomEntry e) (RomEval ev) =
     rbind (rom_update_addr_ordered e ev) (\<lambda>ev'. Inr (RomEval ev'))"
| "eval_update_addr_ordered (RamEntry e) (RamEval ev) =
     rbind (ram_update_addr_ordered e ev) (\<lambda>ev'. Inr (RamEval ev'))"
| "eval_update_addr_ordered e ev = Inl (Panic ''Invalid entry type'')"

fun time_ordered_eval :: "'f running_evaluation \<Rightarrow> 'f" where
  "time_ordered_eval (RomEval ev) = rom_time_eval ev"
| "time_ordered_eval (RamEval ev) = ram_time_eval ev"

fun addr_ordered_eval :: "'f running_evaluation \<Rightarrow> 'f" where
  "addr_ordered_eval (RomEval ev) = rom_addr_eval ev"
| "addr_ordered_eval (RamEval ev) = ram_addr_eval ev"

fun copy_challenges_from ::
    "'f running_evaluation \<Rightarrow> 'f running_evaluation \<Rightarrow> failure + 'f running_evaluation" where
  "copy_challenges_from (RomEval other) (RomEval ev) = Inr (RomEval (ev\<lparr>rom_challenges := rom_challenges other\<rparr>))"
| "copy_challenges_from (RamEval other) (RamEval ev) = Inr (RamEval (ev\<lparr>ram_challenges := ram_challenges other\<rparr>))"
| "copy_challenges_from other ev = Inl (Panic ''Invalid entry type'')"

fun eval_challenges :: "'f running_evaluation \<Rightarrow> failure + 'f list" where
  "eval_challenges (RomEval ev) =
     rbind (unwrap ''called `Option::unwrap()` on a `None` value'' (rom_challenges ev))
       (\<lambda>(c0, c1). Inr [c0, c1])"
| "eval_challenges (RamEval ev) =
     rbind (unwrap ''called `Option::unwrap()` on a `None` value'' (ram_challenges ev))
       (\<lambda>(c0, c1, c2, c3). Inr [c0, c1, c2, c3])"

section \<open>Running evaluations as circuit variables\<close>

record 'f rom_evals_var =
  romv_time_eval :: 'f
  romv_addr_eval :: 'f
  romv_challenges :: "('f \<times> 'f) option"

record 'f ram_evals_var =
  ramv_time_eval :: 'f
  ramv_addr_eval :: 'f
  ramv_challenges :: "('f \<times> 'f \<times> 'f \<times> 'f) option"

datatype 'f running_evaluation_var = RomEvalVar "'f rom_evals_var" | RamEvalVar "'f ram_evals_var"

definition rom_update_time_ordered_var ::
    "'f::field rom_entry_var \<Rightarrow> 'f rom_evals_var \<Rightarrow> failure + 'f rom_evals_var" where
  "rom_update_time_ordered_var e ev =
     rbind (unwrap ''RunningEvalsVar.challenges needs to be set in order to run update'' (romv_challenges ev))
       (\<lambda>(entry_chal, tr_chal).
          let entry_repr = romv_val e + entry_chal * romv_addr e
          in Inr (ev\<lparr>romv_time_eval := romv_time_eval ev * (tr_chal - entry_repr)\<rparr>))"

definition rom_update_addr_ordered_var ::
    "'f::field rom_entry_var \<Rightarrow> 'f rom_evals_var \<Rightarrow> failure + 'f rom_evals_var" where
  "rom_update_addr_ordered_var e ev =
     rbind (unwrap ''RunningEvalsVar.challenges needs to be set in order to run update'' (romv_challenges ev))
       (\<lambda>(entry_chal, tr_chal).
          let entry_repr = romv_val e + entry_chal * romv_addr e
          in Inr (ev\<lparr>romv_addr_eval := romv_addr_eval ev * (tr_chal - entry_repr)\<rparr>))"

definition ram_update_time_ordered_var ::
    "'f::field ram_entry_var \<Rightarrow> 'f ram_evals_var \<Rightarrow> failure + 'f ram_evals_var" where
  "ram_update_time_ordered_var e ev =
     rbind (unwrap ''RunningEvalsVar.challenges needs to be set in order to run update'' (ramv_challenges ev))
       (\<lambda>(c1, c2, c3, tr_chal).
          let entry_repr = ramv_val e + c1 * ramv_addr e + c2 * of_nat (bits_val (var_bits (ramv_i e)))
                + c3 * of_bool (ramv_read e)
          in Inr (ev\<lparr>ramv_time_eval := ramv_time_eval ev * (tr_chal - entry_repr)\<rparr>))"

definition ram_update_addr_ordered_var ::
    "'f::field ram_entry_var \<Rightarrow> 'f ram_evals_var \<Rightarrow> failure + 'f ram_evals_var" where
  "ram_update_addr_ordered_var e ev =
     rbind (unwrap ''RunningEvalsVar.challenges needs to be set in order to run update'' (ramv_challenges ev))
       (\<lambda>(c1, c2, c3, tr_chal).
          let entry_repr = ramv_val e + c1 * ramv_addr e + c2 * of_nat (bits_val (var_bits (ramv_i e)))
                + c3 * of_bool (ramv_read e)
          in Inr (ev\<lparr>ramv_addr_eval := ramv_addr_eval ev * (tr_chal - entry_repr)\<rparr>))"

definition rom_evals_var_value :: "'f rom_evals_var \<Rightarrow> 'f rom_evals" where
  "rom_evals_var_value v =
     \<lparr>rom_time_eval = romv_time_eval v, rom_addr_eval = romv_addr_eval v, rom_challenges = romv_challenges v\<rparr>"

definition ram_evals_var_value :: "'f ram_evals_var \<Rightarrow> 'f ram_evals" where
  "ram_evals_var_value v =
     \<lparr>ram_time_eval = ramv_time_eval v, ram_addr_eval = ramv_addr_eval v, ram_challenges = ramv_challenges v\<rparr>"

fun eval_var_value :: "'f running_evaluation_var \<Rightarrow> 'f running_evaluation" where
  "eval_var_value (RomEvalVar v) = RomEval (rom_evals_var_value v)"
| "eval_var_value (RamEvalVar v) = RamEval (ram_evals_var_value v)"

text \<open>Allocation does not carry the challenges over: they come from the public input.\<close>

definition rom_evals_new_variable :: "'f rom_evals \<Rightarrow> 'f rom_evals_var" where
  "rom_evals_new_variable ev =
     \<lparr>romv_time_eval = rom_time_eval ev, romv_addr_eval = rom_addr_eval ev, romv_challenges = None\<rparr>"

definition ram_evals_new_variable :: "'f ram_evals \<Rightarrow> 'f ram_evals_var" where
  "ram_evals_new_variable ev =
     \<lparr>ramv_time_eval = ram_time_eval ev, ramv_addr_eval = ram_addr_eval ev, ramv_challenges = None\<rparr>"

fun eval_new_variable :: "'f running_evaluation \<Rightarrow> 'f running_evaluation_var" where
  "eval_new_variable (RomEval ev) = RomEvalVar (rom_evals_new_variable ev)"
| "eval_new_variable (RamEval ev) = RamEvalVar (ram_evals_new_variable ev)"

fun set_challenges :: "'f list \<Rightarrow> 'f running_evaluation_var \<Rightarrow> failure + 'f running_evaluation_var" where
  "set_challenges cs (RomEvalVar ev) =
     rbind (ensure ''challenges.len() == 2'' (length cs = 2))
       (\<lambda>_. Inr (RomEvalVar (ev\<lparr>romv_challenges := Some (cs ! 0, cs ! 1)\<rparr>)))"
| "set_challenges cs (RamEvalVar ev) =
     rbind (ensure ''challenges.len() == 4'' (length cs = 4))
       (\<lambda>_. Inr (RamEvalVar (ev\<lparr>ramv_challenges := Some (cs ! 0, cs ! 1, cs ! 2, cs ! 3)\<rparr>)))"

fun time_ordered_eval_var :: "'f running_evaluation_var \<Rightarrow> 'f" where
  "time_ordered_eval_var (RomEvalVar ev) = romv_time_eval ev"
| "time_ordered_eval_var (RamEvalVar ev) = ramv_time_eval ev"

fun addr_ordered_eval_var :: "'f running_evaluation_var \<Rightarrow> 'f" where
  "addr_ordered_eval_var (RomEvalVar ev) = romv_addr_eval ev"
| "addr_ordered_eval_var (RamEvalVar ev) = ramv_addr_eval ev"

text \<open>
  \<open>to_bytes\<close> of the variables: the byte decomposition of a field variable is the parameter
  \<open>fp_bytes\<close>; a Boolean becomes one byte.
\<close>

definition rom_evals_to_bytes :: "('f \<Rightarrow> u8 list) \<Rightarrow> 'f rom_evals_var \<Rightarrow> u8 list" where
  "rom_evals_to_bytes fp_bytes v = concat [fp_bytes (romv_time_eval v), fp_bytes (romv_addr_eval v)]"

definition ram_evals_to_bytes :: "('f \<Rightarrow> u8 list) \<Rightarrow> 'f ram_evals_var \<Rightarrow> u8 list" where
  "ram_evals_to_bytes fp_bytes v = concat [fp_bytes (ramv_time_eval v), fp_bytes (ramv_addr_eval v)]"

fun eval_var_to_bytes :: "('f \<Rightarrow> u8 list) \<Rightarrow> 'f running_evaluation_var \<Rightarrow> u8 list" where
  "eval_var_to_bytes fp_bytes (RomEvalVar v) = rom_evals_to_bytes fp_bytes v"
| "eval_var_to_bytes fp_bytes (RamEvalVar v) = ram_evals_to_bytes fp_bytes v"

definition rom_entry_to_bytes :: "('f \<Rightarrow> u8 list) \<Rightarrow> 'f rom_entry_var \<Rightarrow> failure + u8 list" where
  "rom_entry_to_bytes fp_bytes v = Inr (concat [fp_bytes (romv_addr v), fp_bytes (romv_val v)])"

definition ram_entry_to_bytes :: "('f \<Rightarrow> u8 list) \<Rightarrow> 'f ram_entry_var \<Rightarrow> failure + u8 list" where
  "ram_entry_to_bytes fp_bytes v =
     rbind (u32_to_bytes (ramv_i v)) (\<lambda>i_bytes.
       Inr (concat [fp_bytes (ramv_addr v), fp_bytes (ramv_val v), i_bytes, [of_bool (ramv_read v)]]))"

fun entry_var_to_bytes :: "('f \<Rightarrow> u8 list) \<Rightarrow> 'f transcript_entry_var \<Rightarrow> failure + u8 list" where
  "entry_var_to_bytes fp_bytes (RomEntryVar v) = rom_entry_to_bytes fp_bytes v"
| "entry_var_to_bytes fp_bytes (RamEntryVar v) = ram_entry_to_bytes fp_bytes v"


section \<open>Shape of the updates\<close>

definition result_map :: "('a \<Rightarrow> 'b) \<Rightarrow> failure + 'a \<Rightarrow> failure + 'b" where
  "result_map f r = rbind r (\<lambda>x. Inr (f x))"

lemma result_map_simps [simp]: "result_map f (Inr x) = Inr (f x)" "result_map f (Inl e) = Inl e"
  by (simp_all add: result_map_def)

lemma rom_update_time_ordered_eq:
  "rom_challenges ev = Some (c, t) \<Longrightarrow> rom_update_time_ordered e ev
     = Inr (ev\<lparr>rom_time_eval := rom_time_eval ev * (t - rom_entry_repr c e)\<rparr>)"
  by (simp add: rom_update_time_ordered_def)

lemma rom_update_addr_ordered_eq:
  "rom_challenges ev = Some (c, t) \<Longrightarrow> rom_update_addr_ordered e ev
     = Inr (ev\<lparr>rom_addr_eval := rom_addr_eval ev * (t - rom_entry_repr c e)\<rparr>)"
  by (simp add: rom_update_addr_ordered_def)

lemma ram_update_time_ordered_eq:
  "ram_challenges ev = Some (c1, c2, c3, t) \<Longrightarrow> ram_update_time_ordered e ev
     = Inr (ev\<lparr>ram_time_eval := ram_time_eval ev * (t - ram_entry_repr c1 c2 c3 e)\<rparr>)"
  by (simp add: ram_update_time_ordered_def)

lemma ram_update_addr_ordered_eq:
  "ram_challenges ev = Some (c1, c2, c3, t) \<Longrightarrow> ram_update_addr_ordered e ev
     = Inr (ev\<lparr>ram_addr_eval := ram_addr_eval ev * (t - ram_entry_repr c1 c2 c3 e)\<rparr>)"
  by (simp add: ram_update_addr_ordered_def)

lemmas eval_update_eqs =
  rom_update_time_ordered_eq rom_update_addr_ordered_eq ram_update_time_ordered_eq ram_update_addr_ordered_eq

lemma rom_time_fold:
  "rom_challenges ev = Some (c, t) \<Longrightarrow> rfold rom_update_time_ordered es ev
     = Inr (ev\<lparr>rom_time_eval := rom_time_eval ev * linear_prod t (map (rom_entry_repr c) es)\<rparr>)"
  by (induction es arbitrary: ev) (simp_all add: eval_update_eqs mult.assoc)

lemma rom_addr_fold:
  "rom_challenges ev = Some (c, t) \<Longrightarrow> rfold rom_update_addr_ordered es ev
     = Inr (ev\<lparr>rom_addr_eval := rom_addr_eval ev * linear_prod t (map (rom_entry_repr c) es)\<rparr>)"
  by (induction es arbitrary: ev) (simp_all add: eval_update_eqs mult.assoc)

lemma ram_time_fold:
  "ram_challenges ev = Some (c1, c2, c3, t) \<Longrightarrow> rfold ram_update_time_ordered es ev
     = Inr (ev\<lparr>ram_time_eval := ram_time_eval ev * linear_prod t (map (ram_entry_repr c1 c2 c3) es)\<rparr>)"
  by (induction es arbitrary: ev) (simp_all add: eval_update_eqs mult.assoc)

lemma ram_addr_fold:
  "ram_challenges ev = Some (c1, c2, c3, t) \<Longrightarrow> rfold ram_update_addr_ordered es ev
     = Inr (ev\<lparr>ram_addr_eval := ram_addr_eval ev * linear_prod t (map (ram_entry_repr c1 c2 c3) es)\<rparr>)"
  by (induction es arbitrary: ev) (simp_all add: eval_update_eqs mult.assoc)

lemmas eval_folds = rom_time_fold rom_addr_fold ram_time_fold ram_addr_fold

text \<open>The loop that absorbs a time-ordered and an address-ordered trace, starting from scratch.\<close>

definition rom_absorb ::
    "'f::field \<times> 'f \<Rightarrow> 'f rom_entry list \<Rightarrow> 'f rom_entry list \<Rightarrow> failure + 'f rom_evals" where
  "rom_absorb ch time_tr addr_tr =
     rbind (rfold rom_update_time_ordered time_tr (rom_evals_default\<lparr>rom_challenges := Some ch\<rparr>))
       (rfold rom_update_addr_ordered addr_tr)"

definition ram_absorb ::
    "'f::field \<times> 'f \<times> 'f \<times> 'f \<Rightarrow> 'f ram_entry list \<Rightarrow> 'f ram_entry list \<Rightarrow> failure + 'f ram_evals" where
  "ram_absorb ch time_tr addr_tr =
     rbind (rfold ram_update_time_ordered time_tr (ram_evals_default\<lparr>ram_challenges := Some ch\<rparr>))
       (rfold ram_update_addr_ordered addr_tr)"

lemma rom_absorb_eq:
  "rom_absorb (c, t) ts as = Inr \<lparr>rom_time_eval = linear_prod t (map (rom_entry_repr c) ts),
     rom_addr_eval = linear_prod t (map (rom_entry_repr c) as), rom_challenges = Some (c, t)\<rparr>"
  by (simp add: rom_absorb_def eval_folds rom_evals_default_def)

lemma ram_absorb_eq:
  "ram_absorb (c1, c2, c3, t) ts as = Inr \<lparr>ram_time_eval = linear_prod t (map (ram_entry_repr c1 c2 c3) ts),
     ram_addr_eval = linear_prod t (map (ram_entry_repr c1 c2 c3) as), ram_challenges = Some (c1, c2, c3, t)\<rparr>"
  by (simp add: ram_absorb_def eval_folds ram_evals_default_def)

section \<open>Collisions of the compressed entries\<close>

definition rom_vec_repr :: "'f::field \<Rightarrow> 'f list \<Rightarrow> 'f" where
  "rom_vec_repr c v = v ! 1 + c * v ! 0"

definition ram_vec_repr :: "'f::field \<times> 'f \<times> 'f \<Rightarrow> 'f list \<Rightarrow> 'f" where
  "ram_vec_repr ch v = (case ch of (c1, c2, c3) \<Rightarrow> v ! 1 + c1 * v ! 0 + c2 * v ! 2 + c3 * v ! 3)"

lemma length_to_field_elements [simp]:
  "length (rom_to_field_elements r) = 2" "length (ram_to_field_elements w) = 4"
  by (simp_all add: rom_to_field_elements_def ram_to_field_elements_def)

lemma rom_entry_repr_vec: "rom_entry_repr c e = rom_vec_repr c (rom_to_field_elements e)"
  by (simp add: rom_entry_repr_def rom_vec_repr_def rom_to_field_elements_def)

lemma ram_entry_repr_vec:
  "u32_wf (ram_i e) \<Longrightarrow> ram_entry_repr c1 c2 c3 e = ram_vec_repr (c1, c2, c3) (ram_to_field_elements e)"
  by (simp add: ram_entry_repr_def ram_vec_repr_def ram_to_field_elements_def as_field_elem_eq representation_eq)

lemma linear_eq_card1:
  fixes a :: "'f::field"
  assumes "a \<noteq> 0"
  shows "card {c \<in> C. c * a = b} \<le> 1"
proof -
  have "{c \<in> C. c * a = b} \<subseteq> {b / a}" using assms by (auto simp: field_simps)
  then show ?thesis using card_mono [of "{b / a}"] by auto
qed

lemma linear_eq_card3:
  fixes a1 a2 a3 :: "'f::field"
  assumes "finite C" and "a1 \<noteq> 0 \<or> a2 \<noteq> 0 \<or> a3 \<noteq> 0"
  shows "card {p \<in> C \<times> C \<times> C. (case p of (c1, c2, c3) \<Rightarrow> c1 * a1 + c2 * a2 + c3 * a3 = b)} \<le> card C * card C"
    (is "card ?S \<le> _")
proof -
  have fin: "finite (C \<times> C)" using assms(1) by simp
  have bound: "card ?S \<le> card C * card C" if "inj_on h ?S" "h ` ?S \<subseteq> C \<times> C" for h
    using card_inj_on_le [OF that fin] by (simp add: card_cartesian_product)
  consider "a1 \<noteq> 0" | "a2 \<noteq> 0" | "a3 \<noteq> 0" using assms(2) by blast
  then show ?thesis
  proof cases
    case 1
    show ?thesis by (rule bound [of "\<lambda>(c1, c2, c3). (c2, c3)"]) (auto simp: inj_on_def 1)
  next
    case 2
    show ?thesis by (rule bound [of "\<lambda>(c1, c2, c3). (c1, c3)"]) (auto simp: inj_on_def 2)
  next
    case 3
    show ?thesis by (rule bound [of "\<lambda>(c1, c2, c3). (c1, c2)"]) (auto simp: inj_on_def 3)
  qed
qed

lemma list2_cases: "length xs = 2 \<Longrightarrow> \<exists>a b. xs = [a, b]"
  by (auto simp: numeral_eq_Suc length_Suc_conv)

lemma list4_cases: "length xs = 4 \<Longrightarrow> \<exists>a b c d. xs = [a, b, c, d]"
  by (auto simp: numeral_eq_Suc length_Suc_conv)

lemma rom_vec_collisions:
  assumes "length x = 2" and "length y = 2" and "x \<noteq> y"
  shows "card {c \<in> C. rom_vec_repr c x = rom_vec_repr c y} \<le> 1"
proof -
  obtain a v a' v' where xy: "x = [a, v]" "y = [a', v']" using assms(1,2) list2_cases by metis
  show ?thesis
  proof (cases "a = a'")
    case True
    with assms(3) xy show ?thesis by (simp add: rom_vec_repr_def)
  next
    case False
    have "{c \<in> C. rom_vec_repr c x = rom_vec_repr c y} = {c \<in> C. c * (a - a') = v' - v}"
      by (auto simp: xy rom_vec_repr_def algebra_simps)
    with False linear_eq_card1 [of "a - a'" C "v' - v"] show ?thesis by simp
  qed
qed

lemma ram_vec_collisions:
  assumes "finite C" and "length x = 4" and "length y = 4" and "x \<noteq> y"
  shows "card {c \<in> C \<times> C \<times> C. ram_vec_repr c x = ram_vec_repr c y} \<le> card C * card C"
proof -
  obtain a v i r a' v' i' r' where xy: "x = [a, v, i, r]" "y = [a', v', i', r']"
    using assms(2,3) list4_cases by metis
  have eq: "{c \<in> C \<times> C \<times> C. ram_vec_repr c x = ram_vec_repr c y}
     = {p \<in> C \<times> C \<times> C. (case p of (c1, c2, c3) \<Rightarrow> c1 * (a - a') + c2 * (i - i') + c3 * (r - r') = v' - v)}"
    by (auto simp: xy ram_vec_repr_def algebra_simps)
  show ?thesis
  proof (cases "a = a' \<and> i = i' \<and> r = r'")
    case True
    with assms(4) xy show ?thesis by (auto simp: ram_vec_repr_def case_prod_beta)
  next
    case False
    then show ?thesis unfolding eq by (intro linear_eq_card3 [OF assms(1)]) auto
  qed
qed


section \<open>The permutation check\<close>

fun entry_kind :: "'f transcript_entry \<Rightarrow> mem_type" where
  "entry_kind (RomEntry e) = Rom"
| "entry_kind (RamEntry e) = Ram"

fun eval_kind :: "'f running_evaluation \<Rightarrow> mem_type" where
  "eval_kind (RomEval ev) = Rom"
| "eval_kind (RamEval ev) = Ram"

fun has_challenges :: "'f running_evaluation \<Rightarrow> bool" where
  "has_challenges (RomEval ev) = (rom_challenges ev \<noteq> None)"
| "has_challenges (RamEval ev) = (ram_challenges ev \<noteq> None)"

fun eval_repr :: "'f::field running_evaluation \<Rightarrow> 'f transcript_entry \<Rightarrow> 'f" where
  "eval_repr (RomEval ev) (RomEntry e) = (case rom_challenges ev of Some (c, t) \<Rightarrow> t - rom_entry_repr c e | None \<Rightarrow> 0)"
| "eval_repr (RamEval ev) (RamEntry e) =
     (case ram_challenges ev of Some (c1, c2, c3, t) \<Rightarrow> t - ram_entry_repr c1 c2 c3 e | None \<Rightarrow> 0)"
| "eval_repr ev e = 0"

text \<open>One update multiplies one of the evaluations and changes nothing else.\<close>

lemma eval_update_time:
  assumes "entry_kind e = eval_kind ev" and "has_challenges ev"
  obtains ev' where "eval_update_time_ordered e ev = Inr ev'" "eval_kind ev' = eval_kind ev"
    "has_challenges ev'" "eval_repr ev' = eval_repr ev" "addr_ordered_eval ev' = addr_ordered_eval ev"
    "time_ordered_eval ev' = time_ordered_eval ev * eval_repr ev e"
proof (cases "eval_update_time_ordered e ev")
  case (Inl err)
  with assms show ?thesis by (cases e; cases ev) (auto simp: eval_update_eqs)
next
  case (Inr ev')
  have "eval_repr ev' x = eval_repr ev x" for x
    using assms Inr by (cases e; cases ev; cases x) (auto simp: eval_update_eqs)
  with assms Inr show ?thesis
    by (intro that [of ev']) (cases e; cases ev; auto simp: eval_update_eqs)+
qed

lemma eval_update_addr:
  assumes "entry_kind e = eval_kind ev" and "has_challenges ev"
  obtains ev' where "eval_update_addr_ordered e ev = Inr ev'" "eval_kind ev' = eval_kind ev"
    "has_challenges ev'" "eval_repr ev' = eval_repr ev" "time_ordered_eval ev' = time_ordered_eval ev"
    "addr_ordered_eval ev' = addr_ordered_eval ev * eval_repr ev e"
proof (cases "eval_update_addr_ordered e ev")
  case (Inl err)
  with assms show ?thesis by (cases e; cases ev) (auto simp: eval_update_eqs)
next
  case (Inr ev')
  have "eval_repr ev' x = eval_repr ev x" for x
    using assms Inr by (cases e; cases ev; cases x) (auto simp: eval_update_eqs)
  with assms Inr show ?thesis
    by (intro that [of ev']) (cases e; cases ev; auto simp: eval_update_eqs)+
qed

lemma eval_time_fold:
  assumes "\<forall>e \<in> set es. entry_kind e = eval_kind ev" and "has_challenges ev"
  shows "\<exists>ev'. rfold eval_update_time_ordered es ev = Inr ev' \<and> eval_kind ev' = eval_kind ev
    \<and> has_challenges ev' \<and> eval_repr ev' = eval_repr ev \<and> addr_ordered_eval ev' = addr_ordered_eval ev
    \<and> time_ordered_eval ev' = time_ordered_eval ev * prod_list (map (eval_repr ev) es)"
  using assms
proof (induction es arbitrary: ev)
  case (Cons e es)
  then obtain ev1 where 1: "eval_update_time_ordered e ev = Inr ev1" "eval_kind ev1 = eval_kind ev"
    "has_challenges ev1" "eval_repr ev1 = eval_repr ev" "addr_ordered_eval ev1 = addr_ordered_eval ev"
    "time_ordered_eval ev1 = time_ordered_eval ev * eval_repr ev e"
    using eval_update_time [of e ev] by auto
  with Cons.IH [of ev1] Cons.prems show ?case by (auto simp: mult.assoc)
qed simp

lemma eval_addr_fold:
  assumes "\<forall>e \<in> set es. entry_kind e = eval_kind ev" and "has_challenges ev"
  shows "\<exists>ev'. rfold eval_update_addr_ordered es ev = Inr ev' \<and> eval_kind ev' = eval_kind ev
    \<and> has_challenges ev' \<and> eval_repr ev' = eval_repr ev \<and> time_ordered_eval ev' = time_ordered_eval ev
    \<and> addr_ordered_eval ev' = addr_ordered_eval ev * prod_list (map (eval_repr ev) es)"
  using assms
proof (induction es arbitrary: ev)
  case (Cons e es)
  then obtain ev1 where 1: "eval_update_addr_ordered e ev = Inr ev1" "eval_kind ev1 = eval_kind ev"
    "has_challenges ev1" "eval_repr ev1 = eval_repr ev" "time_ordered_eval ev1 = time_ordered_eval ev"
    "addr_ordered_eval ev1 = addr_ordered_eval ev * eval_repr ev e"
    using eval_update_addr [of e ev] by auto
  with Cons.IH [of ev1] Cons.prems show ?case by (auto simp: mult.assoc)
qed simp

text \<open>
  Completeness of the permutation check. Absorbing a time-ordered trace and an
  address-ordered rearrangement of it into a running evaluation of their kind never panics and,
  if the two evaluations start equal, ends with equal evaluations.
\<close>

theorem permutation_check_complete:
  assumes "mset time_tr = mset addr_tr" and "\<forall>e \<in> set time_tr. entry_kind e = eval_kind ev"
    and "has_challenges ev" and "time_ordered_eval ev = addr_ordered_eval ev"
  shows "\<exists>ev'. rbind (rfold eval_update_time_ordered time_tr ev) (rfold eval_update_addr_ordered addr_tr) = Inr ev'
           \<and> time_ordered_eval ev' = addr_ordered_eval ev'"
proof -
  obtain ev1 where 1: "rfold eval_update_time_ordered time_tr ev = Inr ev1" "eval_kind ev1 = eval_kind ev"
    "has_challenges ev1" "eval_repr ev1 = eval_repr ev" "addr_ordered_eval ev1 = addr_ordered_eval ev"
    "time_ordered_eval ev1 = time_ordered_eval ev * prod_list (map (eval_repr ev) time_tr)"
    using eval_time_fold [OF assms(2,3)] by blast
  have "\<forall>e \<in> set addr_tr. entry_kind e = eval_kind ev1"
    using assms(1,2) 1 by (metis set_mset_mset)
  then obtain ev2 where 2: "rfold eval_update_addr_ordered addr_tr ev1 = Inr ev2"
    "time_ordered_eval ev2 = time_ordered_eval ev1"
    "addr_ordered_eval ev2 = addr_ordered_eval ev1 * prod_list (map (eval_repr ev1) addr_tr)"
    using eval_addr_fold 1(3) by blast
  have "prod_list (map (eval_repr ev) time_tr) = prod_list (map (eval_repr ev) addr_tr)"
    using assms(1) by (metis mset_map prod_mset_prod_list)
  with 1 2 assms(4) show ?thesis by simp
qed

theorem permutation_check_complete_witness:
  "\<exists>ev'. rbind (rfold eval_update_time_ordered [RomEntry \<lparr>rom_addr = 2, rom_val = 7\<rparr>, RomEntry \<lparr>rom_addr = 1, rom_val = 5\<rparr>]
            (RomEval \<lparr>rom_time_eval = 1, rom_addr_eval = 1, rom_challenges = Some (3 :: rat, 11)\<rparr>))
          (rfold eval_update_addr_ordered [RomEntry \<lparr>rom_addr = 1, rom_val = 5\<rparr>, RomEntry \<lparr>rom_addr = 2, rom_val = 7\<rparr>]) = Inr ev'
        \<and> time_ordered_eval ev' = addr_ordered_eval ev'"
  by (rule permutation_check_complete) simp_all

text \<open>
  Soundness of the ROM permutation check. If the time-ordered and the address-ordered trace
  hold different multisets of entries, then among the challenge pairs drawn from a finite set
  \<open>C\<close> at most \<open>2 n |C|\<close> make the two running evaluations agree.
\<close>

theorem rom_permutation_check_sound:
  fixes C :: "'f::field set"
  assumes "finite C" and "length time_tr = length addr_tr"
    and "mset (map rom_to_field_elements time_tr) \<noteq> mset (map rom_to_field_elements addr_tr)"
  shows "card {(c, t). c \<in> C \<and> t \<in> C \<and> (\<exists>ev. rom_absorb (c, t) time_tr addr_tr = Inr ev \<and> rom_time_eval ev = rom_addr_eval ev)}
         \<le> 2 * length time_tr * card C"
proof -
  have "card {(c, t). c \<in> C \<and> t \<in> C \<and>
      linear_prod t (map (rom_vec_repr c) (map rom_to_field_elements time_tr))
        = linear_prod t (map (rom_vec_repr c) (map rom_to_field_elements addr_tr))}
      \<le> length (map rom_to_field_elements time_tr) * 1 * card C + length (map rom_to_field_elements time_tr) * card C"
    by (rule compressed_product_bound [OF assms(1,1,3)])
      (use assms(2) in \<open>auto intro!: rom_vec_collisions simp del: One_nat_def\<close>)
  then show ?thesis
    by (simp add: rom_absorb_eq rom_entry_repr_vec [abs_def] o_def algebra_simps)
qed

theorem rom_permutation_check_sound_witness:
  "card {(c, t). c \<in> {3 :: rat, 5} \<and> t \<in> {3, 5} \<and> (\<exists>ev. rom_absorb (c, t) [\<lparr>rom_addr = 1, rom_val = 7\<rparr>] [\<lparr>rom_addr = 1, rom_val = 8\<rparr>] = Inr ev
     \<and> rom_time_eval ev = rom_addr_eval ev)} \<le> 2 * length [\<lparr>rom_addr = 1, rom_val = 7 :: rat\<rparr>] * card {3 :: rat, 5}"
  by (rule rom_permutation_check_sound) (simp_all add: rom_to_field_elements_def)

text \<open>
  C23: Soundness of the RAM permutation check, whose entries carry an address, a value, a
  timestamp and a read flag and are compressed by three challenges: at most \<open>2 n |C| ^ 3\<close>
  of the \<open>|C| ^ 4\<close> challenge tuples let traces with different entries pass.
\<close>

theorem ram_permutation_check_sound:
  fixes C :: "'f::field set"
  assumes "finite C" and "length time_tr = length addr_tr"
    and "\<forall>e \<in> set (time_tr @ addr_tr). u32_wf (ram_i e)"
    and "mset (map ram_to_field_elements time_tr) \<noteq> mset (map ram_to_field_elements addr_tr)"
  shows "card {((c1, c2, c3), t). (c1, c2, c3) \<in> C \<times> C \<times> C \<and> t \<in> C \<and>
            (\<exists>ev. ram_absorb (c1, c2, c3, t) time_tr addr_tr = Inr ev \<and> ram_time_eval ev = ram_addr_eval ev)}
         \<le> 2 * length time_tr * card C ^ 3"
proof -
  have "card {(c, t). c \<in> C \<times> C \<times> C \<and> t \<in> C \<and>
      linear_prod t (map (ram_vec_repr c) (map ram_to_field_elements time_tr))
        = linear_prod t (map (ram_vec_repr c) (map ram_to_field_elements addr_tr))}
      \<le> length (map ram_to_field_elements time_tr) * (card C * card C) * card C
        + length (map ram_to_field_elements time_tr) * card (C \<times> C \<times> C)"
    by (rule compressed_product_bound [OF _ assms(1,4)])
      (use assms(1,2) in \<open>auto intro!: ram_vec_collisions\<close>)
  moreover have "{((c1, c2, c3), t). (c1, c2, c3) \<in> C \<times> C \<times> C \<and> t \<in> C \<and>
            (\<exists>ev. ram_absorb (c1, c2, c3, t) time_tr addr_tr = Inr ev \<and> ram_time_eval ev = ram_addr_eval ev)}
     = {(c, t). c \<in> C \<times> C \<times> C \<and> t \<in> C \<and>
      linear_prod t (map (ram_vec_repr c) (map ram_to_field_elements time_tr))
        = linear_prod t (map (ram_vec_repr c) (map ram_to_field_elements addr_tr))}"
  proof -
    have "map (ram_entry_repr c1 c2 c3) time_tr = map (ram_vec_repr (c1, c2, c3)) (map ram_to_field_elements time_tr)"
         "map (ram_entry_repr c1 c2 c3) addr_tr = map (ram_vec_repr (c1, c2, c3)) (map ram_to_field_elements addr_tr)" for c1 c2 c3
      using assms(3) by (simp_all add: ram_entry_repr_vec)
    then show ?thesis by (auto simp: ram_absorb_eq simp del: map_map map_eq_conv)
  qed
  ultimately show ?thesis
    by (simp add: card_cartesian_product power3_eq_cube algebra_simps)
qed

theorem ram_permutation_check_sound_witness:
  "card {((c1, c2, c3), t). (c1, c2, c3) \<in> {3 :: rat, 5} \<times> {3, 5} \<times> {3, 5} \<and> t \<in> {3, 5} \<and>
      (\<exists>ev. ram_absorb (c1, c2, c3, t) [\<lparr>ram_addr = 1, ram_val = 7, ram_i = u32_default, ram_read = True\<rparr>]
          [\<lparr>ram_addr = 1, ram_val = 8, ram_i = u32_default, ram_read = True\<rparr>] = Inr ev \<and> ram_time_eval ev = ram_addr_eval ev)}
   \<le> 2 * length [\<lparr>ram_addr = 1, ram_val = 7 :: rat, ram_i = u32_default, ram_read = True\<rparr>] * card {3 :: rat, 5} ^ 3"
  by (rule ram_permutation_check_sound) (simp_all add: ram_to_field_elements_def)

section \<open>Gadgets against the native updates\<close>

lemma var_value_simps [simp]:
  "rom_evals_var_value (v\<lparr>romv_time_eval := x\<rparr>) = (rom_evals_var_value v)\<lparr>rom_time_eval := x\<rparr>"
  "rom_evals_var_value (v\<lparr>romv_addr_eval := x\<rparr>) = (rom_evals_var_value v)\<lparr>rom_addr_eval := x\<rparr>"
  "ram_evals_var_value (w\<lparr>ramv_time_eval := x\<rparr>) = (ram_evals_var_value w)\<lparr>ram_time_eval := x\<rparr>"
  "ram_evals_var_value (w\<lparr>ramv_addr_eval := x\<rparr>) = (ram_evals_var_value w)\<lparr>ram_addr_eval := x\<rparr>"
  by (simp_all add: rom_evals_var_value_def ram_evals_var_value_def)

lemma var_value_sel [simp]:
  "rom_time_eval (rom_evals_var_value v) = romv_time_eval v"
  "rom_addr_eval (rom_evals_var_value v) = romv_addr_eval v"
  "rom_challenges (rom_evals_var_value v) = romv_challenges v"
  "ram_time_eval (ram_evals_var_value w) = ramv_time_eval w"
  "ram_addr_eval (ram_evals_var_value w) = ramv_addr_eval w"
  "ram_challenges (ram_evals_var_value w) = ramv_challenges w"
  by (simp_all add: rom_evals_var_value_def ram_evals_var_value_def)

text \<open>
  The circuit's running evaluation is the native one. For every entry, updating the evaluation
  variables with the allocated entry and reading them back gives what the native update gives, for
  ROM and RAM, time-ordered and address-ordered.
\<close>

theorem running_eval_gadgets_match:
  assumes "romv_challenges rv \<noteq> None" and "ramv_challenges wv \<noteq> None" and "u32_wf (ram_i w)"
  shows "result_map rom_evals_var_value (rom_update_time_ordered_var (rom_entry_new_variable r) rv)
           = rom_update_time_ordered r (rom_evals_var_value rv)
    \<and> result_map rom_evals_var_value (rom_update_addr_ordered_var (rom_entry_new_variable r) rv)
           = rom_update_addr_ordered r (rom_evals_var_value rv)
    \<and> result_map ram_evals_var_value (ram_update_time_ordered_var (ram_entry_new_variable w) wv)
           = ram_update_time_ordered w (ram_evals_var_value wv)
    \<and> result_map ram_evals_var_value (ram_update_addr_ordered_var (ram_entry_new_variable w) wv)
           = ram_update_addr_ordered w (ram_evals_var_value wv)"
  using assms
  by (auto simp: rom_update_time_ordered_var_def rom_update_addr_ordered_var_def
      ram_update_time_ordered_var_def ram_update_addr_ordered_var_def
      rom_entry_new_variable_def ram_entry_new_variable_def
      rom_entry_repr_def ram_entry_repr_def representation_eq eval_update_eqs)

theorem running_eval_gadgets_match_witness:
  "result_map rom_evals_var_value (rom_update_time_ordered_var (rom_entry_new_variable \<lparr>rom_addr = 1, rom_val = 2 :: rat\<rparr>)
        \<lparr>romv_time_eval = 1, romv_addr_eval = 1, romv_challenges = Some (3, 11)\<rparr>)
      = rom_update_time_ordered \<lparr>rom_addr = 1, rom_val = 2\<rparr>
          (rom_evals_var_value \<lparr>romv_time_eval = 1, romv_addr_eval = 1, romv_challenges = Some (3, 11)\<rparr>)"
  by (rule running_eval_gadgets_match
        [where wv = "\<lparr>ramv_time_eval = 1, ramv_addr_eval = 1, ramv_challenges = Some (3, 5, 7, 11)\<rparr> :: rat ram_evals_var"
          and w = "\<lparr>ram_addr = 1, ram_val = 2, ram_i = u32_default, ram_read = True\<rparr> :: rat ram_entry", THEN conjunct1])
    simp_all

end
