(* ===== verification/Portal.thy ===== *)
theory Portal
  imports Transcript
begin

text \<open>
  The \<open>PortalManager\<close> interface of \<open>distributed-prover/src/portal_manager/portal_manager.rs\<close>.
  A circuit is generic in its portal manager, so its \<open>generate_constraints\<close> is a program over
  \<open>get\<close> and \<open>set\<close>, a value of the type \<open>portal\<close>; running it means giving it the \<open>get\<close>
  and \<open>set\<close> of one manager. The locale states what a setup manager promises; the prover's
  managers replay a recorded trace instead and are related to it in the theories of the managers.
\<close>

section \<open>Programs over portal wires\<close>

datatype ('f, 'a) portal =
    Return 'a
  | Fail failure
  | Get string "'f \<Rightarrow> ('f, 'a) portal"
  | Set string 'f "('f, 'a) portal"

primrec pbind :: "('f, 'a) portal \<Rightarrow> ('a \<Rightarrow> ('f, 'b) portal) \<Rightarrow> ('f, 'b) portal" where
  "pbind (Return x) k = k x"
| "pbind (Fail e) k = Fail e"
| "pbind (Get n c) k = Get n (\<lambda>v. pbind (c v) k)"
| "pbind (Set n v c) k = Set n v (pbind c k)"

definition portal_get :: "string \<Rightarrow> ('f, 'f) portal" where
  "portal_get n = Get n Return"

definition portal_set :: "string \<Rightarrow> 'f \<Rightarrow> ('f, unit) portal" where
  "portal_set n v = Set n v (Return ())"

definition lift_res :: "failure + 'a \<Rightarrow> ('f, 'a) portal" where
  "lift_res r = (case r of Inl e \<Rightarrow> Fail e | Inr x \<Rightarrow> Return x)"

primrec run_portal ::
    "(string \<Rightarrow> 's \<Rightarrow> failure + ('f \<times> 's)) \<Rightarrow> (string \<Rightarrow> 'f \<Rightarrow> 's \<Rightarrow> failure + 's)
      \<Rightarrow> ('f, 'a) portal \<Rightarrow> 's \<Rightarrow> failure + ('a \<times> 's)" where
  "run_portal pg ps (Return x) s = Inr (x, s)"
| "run_portal pg ps (Fail e) s = Inl e"
| "run_portal pg ps (Get n c) s = rbind (pg n s) (\<lambda>(v, s'). run_portal pg ps (c v) s')"
| "run_portal pg ps (Set n v c) s = rbind (ps n v s) (\<lambda>s'. run_portal pg ps c s')"

lemma run_portal_bind:
  "run_portal pg ps (pbind p k) s =
     rbind (run_portal pg ps p s) (\<lambda>(x, s'). run_portal pg ps (k x) s')"
  by (induction p arbitrary: s) (simp_all add: rbind_assoc split_def)

lemma run_portal_invariant:
  assumes "run_portal pg ps p s = Inr (x, s')" and "P s"
    and "\<And>n s v s'. P s \<Longrightarrow> pg n s = Inr (v, s') \<Longrightarrow> P s'"
    and "\<And>n v s s'. P s \<Longrightarrow> ps n v s = Inr s' \<Longrightarrow> P s'"
  shows "P s'"
  using assms(1,2)
proof (induction p arbitrary: s)
  case (Get n c)
  then obtain v s1 where "pg n s = Inr (v, s1)" "run_portal pg ps (c v) s1 = Inr (x, s')"
    by (auto simp: res_simps)
  with Get.IH [of "c v" s1] Get.prems assms(3) show ?case by blast
next
  case (Set n v p)
  then obtain s1 where "ps n v s = Inr s1" "run_portal pg ps p s1 = Inr (x, s')"
    by (auto simp: res_simps)
  with Set.IH [of s1] Set.prems assms(4) show ?case by blast
qed simp_all

lemma run_portal_lift [simp]:
  "run_portal pg ps (lift_res r) s = rbind r (\<lambda>x. Inr (x, s))"
  by (cases r) (simp_all add: lift_res_def)

lemma pbind_lift [simp]:
  "pbind (lift_res (Inr x)) k = k x" "pbind (lift_res (Inl e)) k = Fail e"
  by (simp_all add: lift_res_def)

lemma pbind_assoc: "pbind (pbind p k) h = pbind p (\<lambda>x. pbind (k x) h)"
  by (induction p) simp_all

lemma pbind_Return [simp]: "pbind p Return = p"
  by (induction p) simp_all

text \<open>A loop of a circuit over a vector.\<close>

primrec pfold :: "('a \<Rightarrow> 's \<Rightarrow> ('f, 's) portal) \<Rightarrow> 'a list \<Rightarrow> 's \<Rightarrow> ('f, 's) portal" where
  "pfold f [] s = Return s"
| "pfold f (x # xs) s = pbind (f x s) (pfold f xs)"

text \<open>How often a program sets a wire, at most.\<close>

primrec sets_at_most :: "('f, 'a) portal \<Rightarrow> nat \<Rightarrow> bool" where
  "sets_at_most (Return x) = (\<lambda>k. True)"
| "sets_at_most (Fail e) = (\<lambda>k. True)"
| "sets_at_most (Get n c) = (\<lambda>k. \<forall>v. sets_at_most (c v) k)"
| "sets_at_most (Set n v c) = (\<lambda>k. 0 < k \<and> sets_at_most c (k - 1))"

lemma sets_at_most_mono: "sets_at_most p i \<Longrightarrow> sets_at_most p (i + l)"
proof (induction p arbitrary: i)
  case (Set n v p)
  then obtain i' where "i = Suc i'" "sets_at_most p i'" by (cases i) auto
  with Set.IH [of i'] show ?case by simp
qed simp_all

lemma sets_at_most_bind:
  "sets_at_most p k \<Longrightarrow> \<forall>x. sets_at_most (q x) j \<Longrightarrow> sets_at_most (pbind p q) (k + j)"
proof (induction p arbitrary: k)
  case (Return x)
  then have "sets_at_most (q x) (j + k)" by (blast intro: sets_at_most_mono)
  then show ?case by (simp add: add.commute)
next
  case (Set n v p)
  then obtain k' where "k = Suc k'" "sets_at_most p k'" by (cases k) auto
  with Set.IH [of k'] Set.prems(2) show ?case by simp
qed simp_all

lemma sets_at_most_simps [simp]:
  "sets_at_most (lift_res r) k" "sets_at_most (portal_get n) k" "sets_at_most (portal_set n v) 1"
  by (cases r; simp add: lift_res_def) (simp_all add: portal_get_def portal_set_def)

lemma sets_at_most_lift_bind: "\<forall>x. sets_at_most (q x) j \<Longrightarrow> sets_at_most (pbind (lift_res r) q) j"
  by (cases r) (simp_all add: lift_res_def)

lemma sets_at_most_get_bind: "\<forall>x. sets_at_most (q x) j \<Longrightarrow> sets_at_most (pbind (portal_get n) q) j"
  by (simp add: portal_get_def)

lemma sets_at_most_set_bind: "sets_at_most (q ()) j \<Longrightarrow> sets_at_most (pbind (portal_set n v) q) (Suc j)"
  by (simp add: portal_set_def)

lemma sets_at_most_pfold:
  "\<forall>x s. sets_at_most (f x s) k \<Longrightarrow> sets_at_most (pfold f xs s) (k * length xs)"
proof (induction xs arbitrary: s)
  case (Cons x xs)
  then have "sets_at_most (pbind (f x s) (pfold f xs)) (k + k * length xs)"
    by (intro sets_at_most_bind) auto
  then show ?case by simp
qed simp

text \<open>How often a program gets or sets a wire, at most.\<close>

primrec accesses_at_most :: "('f, 'a) portal \<Rightarrow> nat \<Rightarrow> bool" where
  "accesses_at_most (Return x) = (\<lambda>k. True)"
| "accesses_at_most (Fail e) = (\<lambda>k. True)"
| "accesses_at_most (Get n c) = (\<lambda>k. 0 < k \<and> (\<forall>v. accesses_at_most (c v) (k - 1)))"
| "accesses_at_most (Set n v c) = (\<lambda>k. 0 < k \<and> accesses_at_most c (k - 1))"

lemma accesses_at_most_mono: "accesses_at_most p i \<Longrightarrow> i \<le> j \<Longrightarrow> accesses_at_most p j"
proof (induction p arbitrary: i j)
  case (Get n c)
  from Get.prems have "\<forall>v. accesses_at_most (c v) (i - 1)" "i - 1 \<le> j - 1" "0 < j" by auto
  with Get.IH show ?case by (simp, blast)
next
  case (Set n v p)
  from Set.prems have "accesses_at_most p (i - 1)" "i - 1 \<le> j - 1" "0 < j" by auto
  with Set.IH [of "i - 1" "j - 1"] show ?case by simp
qed simp_all

lemma accesses_at_most_bind:
  "accesses_at_most p k \<Longrightarrow> \<forall>x. accesses_at_most (q x) j \<Longrightarrow> accesses_at_most (pbind p q) (k + j)"
proof (induction p arbitrary: k)
  case (Return x)
  then have "accesses_at_most (q x) j" by simp
  then show ?case using accesses_at_most_mono [of "q x" j "k + j"] by simp
next
  case (Get n c)
  then obtain k' where k: "k = Suc k'" "\<forall>v. accesses_at_most (c v) k'" by (cases k) auto
  with Get.IH [of _ k'] Get.prems(2) show ?case by simp
next
  case (Set n v p)
  then obtain k' where "k = Suc k'" "accesses_at_most p k'" by (cases k) auto
  with Set.IH [of k'] Set.prems(2) show ?case by simp
qed simp_all

lemma accesses_at_most_simps [simp]:
  "accesses_at_most (lift_res r) k" "accesses_at_most (portal_get n) (Suc k)" "accesses_at_most (portal_set n v) (Suc k)"
  by (cases r; simp add: lift_res_def) (simp_all add: portal_get_def portal_set_def)

lemma accesses_at_most_pfold:
  "\<forall>x s. accesses_at_most (f x s) k \<Longrightarrow> accesses_at_most (pfold f xs s) (k * length xs)"
proof (induction xs arbitrary: s)
  case (Cons x xs)
  then have "accesses_at_most (pbind (f x s) (pfold f xs)) (k + k * length xs)"
    by (intro accesses_at_most_bind) auto
  then show ?case by simp
qed simp

section \<open>The abstract memory\<close>

text \<open>
  What a circuit may rely on: a map from wire names to values. In read-only memory a name is set at
  most once.
\<close>

primrec eval_portal ::
    "bool \<Rightarrow> ('f, 'a) portal \<Rightarrow> (string \<rightharpoonup> 'f) \<Rightarrow> failure + ('a \<times> (string \<rightharpoonup> 'f))" where
  "eval_portal rw (Return x) m = Inr (x, m)"
| "eval_portal rw (Fail e) m = Inl e"
| "eval_portal rw (Get n c) m =
     rbind (unwrap ''no such portal wire'' (m n)) (\<lambda>v. eval_portal rw (c v) m)"
| "eval_portal rw (Set n v c) m =
     rbind (ensure ''portal wire set twice'' (rw \<or> m n = None)) (\<lambda>_. eval_portal rw c (m(n \<mapsto> v)))"

lemma eval_portal_bind:
  "eval_portal rw (pbind p k) m =
     rbind (eval_portal rw p m) (\<lambda>(x, m'). eval_portal rw (k x) m')"
  by (induction p arbitrary: m) (simp_all add: rbind_assoc split_def)

lemma eval_portal_lift [simp]: "eval_portal rw (lift_res r) m = rbind r (\<lambda>x. Inr (x, m))"
  by (cases r) (simp_all add: lift_res_def)

lemma eval_portal_get [simp]:
  "eval_portal rw (portal_get n) m = rbind (unwrap ''no such portal wire'' (m n)) (\<lambda>v. Inr (v, m))"
  by (simp add: portal_get_def)

lemma eval_portal_set [simp]:
  "eval_portal rw (portal_set n v) m =
     rbind (ensure ''portal wire set twice'' (rw \<or> m n = None)) (\<lambda>_. Inr ((), m(n \<mapsto> v)))"
  by (simp add: portal_set_def)

text \<open>A ROM program reads the same values when the memory may also be rewritten.\<close>

lemma eval_portal_rw_mono:
  "eval_portal False p m = Inr r \<Longrightarrow> eval_portal rw p m = Inr r"
proof (induction p arbitrary: m)
  case (Get n c)
  then show ?case by (auto simp: res_simps)
next
  case (Set n v p)
  then show ?case by (auto simp: res_simps)
qed simp_all

text \<open>ROM programs only extend the memory.\<close>

lemma eval_portal_rom_extends:
  "eval_portal False p m = Inr (x, m') \<Longrightarrow> m \<subseteq>\<^sub>m m'"
proof (induction p arbitrary: m)
  case (Get n c)
  then show ?case by (auto simp: res_simps)
next
  case (Set n v p)
  then have "m(n \<mapsto> v) \<subseteq>\<^sub>m m'" "m n = None" by (auto simp: res_simps)
  moreover have "m \<subseteq>\<^sub>m m(n \<mapsto> v)" using \<open>m n = None\<close> by (auto simp: map_le_def)
  ultimately show ?case using map_le_trans by blast
qed simp_all

section \<open>Subtraces\<close>

text \<open>\<open>subtraces.last_mut().expect(..).push(entry)\<close>\<close>

definition push_last :: "'e \<Rightarrow> 'e list list \<Rightarrow> failure + 'e list list" where
  "push_last e trs =
     (if trs = [] then Inl (Panic ''must run start_subtrace() before using SetupPortalManager'')
      else Inr (butlast trs @ [last trs @ [e]]))"

lemma push_last_snoc [simp]: "push_last e (trs @ [tr]) = Inr (trs @ [tr @ [e]])"
  by (simp add: push_last_def)

lemma push_last_Inr_iff [res_simps]:
  "push_last e trs = Inr trs' \<longleftrightarrow> trs \<noteq> [] \<and> trs' = butlast trs @ [last trs @ [e]]"
  by (auto simp: push_last_def)

lemma concat_push_last: "trs \<noteq> [] \<Longrightarrow> concat (butlast trs @ [last trs @ [e]]) = concat trs @ [e]"
  by (cases trs rule: rev_cases) simp_all

lemma set_concat_push_last:
  "trs \<noteq> [] \<Longrightarrow> set (concat (butlast trs @ [last trs @ [e]])) = insert e (set (concat trs))"
  by (cases trs rule: rev_cases) simp_all

section \<open>The interface of a setup manager\<close>

locale portal_manager =
  fixes pget :: "string \<Rightarrow> 's \<Rightarrow> failure + ('f \<times> 's)"
    and pset :: "string \<Rightarrow> 'f \<Rightarrow> 's \<Rightarrow> failure + 's"
    and store :: "'s \<Rightarrow> string \<Rightarrow> 'f option"
    and ready :: "'s \<Rightarrow> bool"
    and rewritable :: bool
  assumes get_hit: "ready s \<Longrightarrow> store s n = Some v \<Longrightarrow>
      \<exists>s'. pget n s = Inr (v, s') \<and> ready s' \<and> store s' = store s"
    and get_miss: "ready s \<Longrightarrow> store s n = None \<Longrightarrow> \<exists>e. pget n s = Inl e"
    and set_hit: "ready s \<Longrightarrow> rewritable \<or> store s n = None \<Longrightarrow>
      \<exists>s'. pset n v s = Inr s' \<and> ready s' \<and> store s' = (store s)(n \<mapsto> v)"
    and set_dup: "ready s \<Longrightarrow> \<not> rewritable \<Longrightarrow> store s n \<noteq> None \<Longrightarrow> \<exists>e. pset n v s = Inl e"
begin

text \<open>The manager implements the abstract memory, on successes and on failures.\<close>

lemma run_refines:
  assumes "ready s"
  shows "case run_portal pget pset p s of
           Inl e \<Rightarrow> \<exists>e'. eval_portal rewritable p (store s) = Inl e'
         | Inr (x, s') \<Rightarrow> eval_portal rewritable p (store s) = Inr (x, store s') \<and> ready s'"
  using assms
proof (induction p arbitrary: s)
  case (Get n c)
  show ?case
  proof (cases "store s n")
    case None
    with get_miss [OF Get.prems] obtain e where "pget n s = Inl e" by blast
    with None show ?thesis by simp
  next
    case (Some v)
    with get_hit [OF Get.prems] obtain s' where
      "pget n s = Inr (v, s')" "ready s'" "store s' = store s" by blast
    with Get.IH [of "c v" s'] Some show ?thesis by (auto split: sum.splits)
  qed
next
  case (Set n v p)
  show ?case
  proof (cases "rewritable \<or> store s n = None")
    case True
    with set_hit [OF Set.prems] obtain s' where
      "pset n v s = Inr s'" "ready s'" "store s' = (store s)(n \<mapsto> v)" by blast
    with Set.IH [of s'] True show ?thesis by (auto split: sum.splits)
  next
    case False
    with set_dup [OF Set.prems, of n v] show ?thesis by auto
  qed
qed simp_all

lemma run_succeeds:
  assumes "ready s" and "eval_portal rewritable p (store s) = Inr (x, m)"
  obtains s' where "run_portal pget pset p s = Inr (x, s')" "store s' = m" "ready s'"
  using run_refines [OF assms(1), of p] assms(2)
  by (auto split: sum.splits)

lemma get_after_set:
  assumes "ready s" and "rewritable \<or> store s n = None"
  shows "\<exists>s' s''. pset n v s = Inr s' \<and> pget n s' = Inr (v, s'')"
  using set_hit [OF assms] get_hit by (metis fun_upd_same)

end


section \<open>The interface between recording and replaying\<close>

text \<open>
  A setup manager logs one entry per operation; a prover's manager that is loaded with those entries
  answers the same operations with the same values, one entry at a time. \<open>after k r\<close> is the
  replay state after \<open>k\<close> operations.
\<close>

locale replay =
  fixes sget :: "string \<Rightarrow> 's \<Rightarrow> failure + ('f \<times> 's)"
    and sset :: "string \<Rightarrow> 'f \<Rightarrow> 's \<Rightarrow> failure + 's"
    and subtraces :: "'s \<Rightarrow> 'e list list"
    and val :: "'e \<Rightarrow> 'f"
    and rget :: "string \<Rightarrow> 'r \<Rightarrow> failure + ('f \<times> 'r)"
    and rset :: "string \<Rightarrow> 'f \<Rightarrow> 'r \<Rightarrow> failure + 'r"
    and loaded :: "'e list \<Rightarrow> 'r \<Rightarrow> bool"
    and after :: "nat \<Rightarrow> 'r \<Rightarrow> 'r"
  assumes sget_logs: "sget n s = Inr (v, s') \<Longrightarrow> subtraces s = trs @ [tr] \<Longrightarrow>
      \<exists>e. subtraces s' = trs @ [tr @ [e]] \<and> val e = v"
    and sset_logs: "sset n v s = Inr s' \<Longrightarrow> subtraces s = trs @ [tr] \<Longrightarrow>
      \<exists>e. subtraces s' = trs @ [tr @ [e]] \<and> val e = v"
    and rget_loaded: "loaded (e # tr) r \<Longrightarrow> rget n r = Inr (val e, after 1 r)"
    and rset_loaded: "loaded (e # tr) r \<Longrightarrow> rset n (val e) r = Inr (after 1 r)"
    and loaded_after: "loaded (e # tr) r \<Longrightarrow> loaded tr (after 1 r)"
    and after_0: "after 0 r = r"
    and after_add: "after j (after k r) = after (k + j) r"
begin

text \<open>
  The replay of a recorded run: a prover loaded with the entries that the setup run appended
  returns what the setup run returned.
\<close>

lemma replay_matches_setup:
  assumes "run_portal sget sset p s = Inr (x, s')" and "subtraces s = trs @ [tr0]"
  shows "\<exists>tr. subtraces s' = trs @ [tr0 @ tr] \<and>
     (\<forall>r. loaded tr r \<longrightarrow> run_portal rget rset p r = Inr (x, after (length tr) r))"
  using assms
proof (induction p arbitrary: s tr0)
  case (Return y)
  then show ?case by (simp add: after_0)
next
  case (Fail e)
  then show ?case by simp
next
  case (Get n c)
  then obtain v s1 where op: "sget n s = Inr (v, s1)" "run_portal sget sset (c v) s1 = Inr (x, s')"
    by (auto simp: res_simps)
  obtain e where e: "subtraces s1 = trs @ [tr0 @ [e]]" "val e = v"
    using sget_logs [OF op(1) Get.prems(2)] by blast
  obtain tr where tr: "subtraces s' = trs @ [(tr0 @ [e]) @ tr]"
    "\<And>r. loaded tr r \<Longrightarrow> run_portal rget rset (c v) r = Inr (x, after (length tr) r)"
    using Get.IH [OF _ op(2) e(1)] by blast
  show ?case
    using tr e(2) rget_loaded [of e tr] loaded_after [of e tr]
    by (intro exI [of _ "e # tr"]) (auto simp: after_add)
next
  case (Set n v p)
  then obtain s1 where op: "sset n v s = Inr s1" "run_portal sget sset p s1 = Inr (x, s')"
    by (auto simp: res_simps)
  obtain e where e: "subtraces s1 = trs @ [tr0 @ [e]]" "val e = v"
    using sset_logs [OF op(1) Set.prems(2)] by blast
  obtain tr where tr: "subtraces s' = trs @ [(tr0 @ [e]) @ tr]"
    "\<And>r. loaded tr r \<Longrightarrow> run_portal rget rset p r = Inr (x, after (length tr) r)"
    using Set.IH [OF op(2) e(1)] by blast
  show ?case
    using tr e(2) rset_loaded [of e tr] loaded_after [of e tr]
    by (intro exI [of _ "e # tr"]) (auto simp: after_add)
qed

end


section \<open>Recording all subcircuits\<close>

text \<open>
  The native run by which a circuit produces its trace: for every subcircuit a new subtrace is
  started and the subcircuit's constraints are generated with the setup manager. The constraints'
  truth is collected, although the coordinator ignores it.
\<close>

fun setup_run ::
    "('s \<Rightarrow> 's) \<Rightarrow> (string \<Rightarrow> 's \<Rightarrow> failure + ('f \<times> 's)) \<Rightarrow> (string \<Rightarrow> 'f \<Rightarrow> 's \<Rightarrow> failure + 's)
      \<Rightarrow> ('f, bool) portal list \<Rightarrow> 's \<Rightarrow> failure + (bool \<times> 's)" where
  "setup_run start sg ss [] s = Inr (True, s)"
| "setup_run start sg ss (p # ps) s =
     rbind (run_portal sg ss p (start s)) (\<lambda>(ok, s1).
     rbind (setup_run start sg ss ps s1) (\<lambda>(ok', s2). Inr (ok \<and> ok', s2)))"

lemma setup_run_invariant:
  assumes "setup_run start sg ss ps s = Inr (ok, s')" and "P s"
    and "\<And>(p :: ('f, bool) portal) s x s'. P s \<Longrightarrow> run_portal sg ss p (start s) = Inr (x, s') \<Longrightarrow> P s'"
  shows "P s'"
  using assms(1,2)
proof (induction ps arbitrary: s ok)
  case (Cons p ps)
  then obtain ok1 s1 ok2 where "run_portal sg ss p (start s) = Inr (ok1, s1)"
    "setup_run start sg ss ps s1 = Inr (ok2, s')" by (auto simp: res_simps)
  with Cons.IH [of s1 ok2] Cons.prems(2) assms(3) show ?case by blast
qed simp

locale recording = replay +
  fixes start :: "'b \<Rightarrow> 'b"
  assumes start_subtraces: "subtraces (start s) = subtraces s @ [[]]"
begin

text \<open>The subtrace recorded for each subcircuit replays that subcircuit.\<close>

lemma setup_run_replay:
  assumes "setup_run start sget sset ps s = Inr (ok, s')"
  shows "\<exists>trs oks. subtraces s' = subtraces s @ trs \<and> length trs = length ps
     \<and> length oks = length ps \<and> (ok \<longleftrightarrow> (\<forall>b \<in> set oks. b))
     \<and> (\<forall>i < length ps. \<forall>r. loaded (trs ! i) r \<longrightarrow>
          run_portal rget rset (ps ! i) r = Inr (oks ! i, after (length (trs ! i)) r))"
  using assms
proof (induction ps arbitrary: s ok)
  case (Cons p ps)
  then obtain ok1 s1 ok2 where run: "run_portal sget sset p (start s) = Inr (ok1, s1)"
    "setup_run start sget sset ps s1 = Inr (ok2, s')" "ok = (ok1 \<and> ok2)"
    by (auto simp: res_simps)
  obtain tr where tr: "subtraces s1 = subtraces s @ [tr]"
    "\<And>r. loaded tr r \<Longrightarrow> run_portal rget rset p r = Inr (ok1, after (length tr) r)"
    using replay_matches_setup [OF run(1) start_subtraces] by auto
  from Cons.IH [OF run(2)] obtain trs oks where IH: "subtraces s' = subtraces s1 @ trs" "length trs = length ps"
    "length oks = length ps" "ok2 \<longleftrightarrow> (\<forall>b \<in> set oks. b)"
    "\<And>i r. i < length ps \<Longrightarrow> loaded (trs ! i) r \<Longrightarrow>
        run_portal rget rset (ps ! i) r = Inr (oks ! i, after (length (trs ! i)) r)"
    by blast
  show ?case
  proof (intro exI [of _ "tr # trs"] exI [of _ "ok1 # oks"] conjI allI impI)
    fix i r assume "i < length (p # ps)" "loaded ((tr # trs) ! i) r"
    then show "run_portal rget rset ((p # ps) ! i) r
        = Inr ((ok1 # oks) ! i, after (length ((tr # trs) ! i)) r)"
      using tr(2) IH(5) by (cases i) auto
  qed (use run(3) tr(1) IH in auto)
qed simp

end

end
