(* ===== verification/Rom_Portal.thy ===== *)
theory Rom_Portal
  imports Portal
begin

text \<open>
  Read-only portal wires, \<open>distributed-prover/src/portal_manager/rom_portal_manager.rs\<close>: the
  manager with which the coordinator records the trace of a full run, and the manager with which a
  subcircuit prover replays its subtraces, updates the running evaluations and checks the
  address-ordered trace step by step.
\<close>

section \<open>The setup manager\<close>

record 'f setup_rom =
  sr_subtraces :: "'f rom_entry list list"
  sr_next_var_addr :: u64
  sr_var_map :: "string \<rightharpoonup> 'f rom_entry"

definition setup_rom_new :: "'f setup_rom" where
  "setup_rom_new = \<lparr>sr_subtraces = [], sr_next_var_addr = 1, sr_var_map = Map.empty\<rparr>"

definition setup_rom_start_subtrace :: "'f setup_rom \<Rightarrow> 'f setup_rom" where
  "setup_rom_start_subtrace s = s\<lparr>sr_subtraces := sr_subtraces s @ [[]]\<rparr>"

definition setup_rom_get :: "string \<Rightarrow> 'f setup_rom \<Rightarrow> failure + ('f \<times> 'f setup_rom)" where
  "setup_rom_get name s =
     rbind (unwrap (''cannot get portal wire '' @ name) (sr_var_map s name)) (\<lambda>entry.
     rbind (push_last entry (sr_subtraces s)) (\<lambda>trs.
       Inr (rom_val entry, s\<lparr>sr_subtraces := trs\<rparr>)))"

definition setup_rom_set :: "string \<Rightarrow> 'f \<Rightarrow> 'f setup_rom \<Rightarrow> failure + 'f setup_rom" where
  "setup_rom_set name v s =
     rbind (ensure (''cannot set portal wire more than once; wire '' @ name) (sr_var_map s name = None)) (\<lambda>_.
     let entry = \<lparr>rom_addr = sr_next_var_addr s, rom_val = v\<rparr> in
     rbind (push_last entry (sr_subtraces s)) (\<lambda>trs.
       Inr (s\<lparr>sr_next_var_addr := sr_next_var_addr s + 1,
              sr_var_map := (sr_var_map s)(name \<mapsto> entry), sr_subtraces := trs\<rparr>)))"

definition setup_rom_running_evals :: "'f setup_rom \<Rightarrow> failure + 'f running_evaluation_var" where
  "setup_rom_running_evals s = Inl (Panic ''not implemented'')"

definition setup_rom_store :: "'f setup_rom \<Rightarrow> string \<rightharpoonup> 'f" where
  "setup_rom_store s n = map_option rom_val (sr_var_map s n)"

definition setup_rom_ready :: "'f setup_rom \<Rightarrow> bool" where
  "setup_rom_ready s \<longleftrightarrow> sr_subtraces s \<noteq> []"

interpretation rom_pm: portal_manager setup_rom_get setup_rom_set setup_rom_store setup_rom_ready False
proof unfold_locales
  fix s :: "'f setup_rom" and n and v
  assume "setup_rom_ready s" "setup_rom_store s n = Some v"
  then show "\<exists>s'. setup_rom_get n s = Inr (v, s') \<and> setup_rom_ready s' \<and> setup_rom_store s' = setup_rom_store s"
    by (auto simp: setup_rom_get_def setup_rom_store_def setup_rom_ready_def push_last_def fun_eq_iff)
next
  fix s :: "'f setup_rom" and n
  assume "setup_rom_store s n = None"
  then show "\<exists>e. setup_rom_get n s = Inl e"
    by (auto simp: setup_rom_get_def setup_rom_store_def)
next
  fix s :: "'f setup_rom" and n and v
  assume "setup_rom_ready s" "False \<or> setup_rom_store s n = None"
  then show "\<exists>s'. setup_rom_set n v s = Inr s' \<and> setup_rom_ready s'
      \<and> setup_rom_store s' = (setup_rom_store s)(n \<mapsto> v)"
    by (auto simp: setup_rom_set_def setup_rom_store_def setup_rom_ready_def push_last_def fun_eq_iff Let_def)
next
  fix s :: "'f setup_rom" and n and v
  assume "setup_rom_store s n \<noteq> None"
  then show "\<exists>e. setup_rom_set n v s = Inl e"
    by (auto simp: setup_rom_set_def setup_rom_store_def)
qed

text \<open>
  What the recorded trace satisfies as long as fewer than \<open>2 ^ 64 - 1\<close> wires are set: the
  addresses in use are \<open>1 .. k\<close>, an address determines its entry, and exactly the entries of
  the map occur in the trace.
\<close>

definition setup_rom_inv :: "'f setup_rom \<Rightarrow> bool" where
  "setup_rom_inv s \<longleftrightarrow>
     finite (dom (sr_var_map s)) \<and> sr_next_var_addr s = word_of_nat (card (dom (sr_var_map s)) + 1)
     \<and> ran (sr_var_map s) = set (concat (sr_subtraces s))
     \<and> (card (dom (sr_var_map s)) < 2 ^ 64 - 1 \<longrightarrow>
          (\<lambda>e. unat (rom_addr e)) ` ran (sr_var_map s) = {1..card (dom (sr_var_map s))}
          \<and> inj_on (\<lambda>e. unat (rom_addr e)) (ran (sr_var_map s)))"

lemma setup_rom_inv_new [simp]: "setup_rom_inv setup_rom_new"
  by (simp add: setup_rom_inv_def setup_rom_new_def)

lemma setup_rom_inv_cong:
  "sr_var_map s' = sr_var_map s \<Longrightarrow> sr_next_var_addr s' = sr_next_var_addr s
    \<Longrightarrow> set (concat (sr_subtraces s')) = set (concat (sr_subtraces s)) \<Longrightarrow> setup_rom_inv s' = setup_rom_inv s"
  by (simp only: setup_rom_inv_def)

lemma setup_rom_inv_start [simp]: "setup_rom_inv (setup_rom_start_subtrace s) = setup_rom_inv s"
  by (rule setup_rom_inv_cong) (simp_all add: setup_rom_start_subtrace_def)

lemma setup_rom_inv_get:
  assumes "setup_rom_inv s" and "setup_rom_get n s = Inr (v, s')"
  shows "setup_rom_inv s'"
proof -
  from assms(2) obtain e where e: "sr_var_map s n = Some e" "sr_subtraces s \<noteq> []"
    "s' = s\<lparr>sr_subtraces := butlast (sr_subtraces s) @ [last (sr_subtraces s) @ [e]]\<rparr>"
    by (auto simp: setup_rom_get_def res_simps)
  have "e \<in> set (concat (sr_subtraces s))"
    using assms(1) e(1) by (metis ranI setup_rom_inv_def)
  then have "set (concat (sr_subtraces s')) = set (concat (sr_subtraces s))"
    using e(3) set_concat_push_last [OF e(2), of e] by (simp add: insert_absorb)
  then have "setup_rom_inv s' = setup_rom_inv s"
    by (intro setup_rom_inv_cong) (simp_all add: e(3))
  with assms(1) show ?thesis by simp
qed

lemma setup_rom_inv_set:
  assumes "setup_rom_inv s" and "setup_rom_set n v s = Inr s'"
  shows "setup_rom_inv s'"
proof -
  define k where "k = card (dom (sr_var_map s))"
  define e where "e = \<lparr>rom_addr = sr_next_var_addr s, rom_val = v\<rparr>"
  from assms(2) have s': "sr_var_map s n = None" "sr_subtraces s \<noteq> []"
    "sr_var_map s' = (sr_var_map s)(n \<mapsto> e)" "sr_next_var_addr s' = sr_next_var_addr s + 1"
    "sr_subtraces s' = butlast (sr_subtraces s) @ [last (sr_subtraces s) @ [e]]"
    by (auto simp: setup_rom_set_def res_simps e_def Let_def)
  from assms(1) have inv: "finite (dom (sr_var_map s))" "sr_next_var_addr s = word_of_nat (k + 1)"
    "ran (sr_var_map s) = set (concat (sr_subtraces s))"
    "k < 2 ^ 64 - 1 \<longrightarrow> (\<lambda>e. unat (rom_addr e)) ` ran (sr_var_map s) = {1..k}
        \<and> inj_on (\<lambda>e. unat (rom_addr e)) (ran (sr_var_map s))"
    by (auto simp: setup_rom_inv_def k_def)
  have card: "card (dom (sr_var_map s')) = Suc k"
    using s' inv(1) by (simp add: k_def domIff)
  have ran: "ran (sr_var_map s') = insert e (ran (sr_var_map s))"
    using s' by (simp add: ran_map_upd)
  have trace: "ran (sr_var_map s') = set (concat (sr_subtraces s'))"
    by (simp only: ran inv(3) s'(5) set_concat_push_last [OF s'(2)])
  have addr: "unat (rom_addr e) = Suc k" if "Suc k < 2 ^ 64 - 1"
    using that inv(2) by (simp add: e_def unat_of_nat del: of_nat_Suc of_nat_add)
  have "(\<lambda>e. unat (rom_addr e)) ` ran (sr_var_map s') = {1..Suc k}
      \<and> inj_on (\<lambda>e. unat (rom_addr e)) (ran (sr_var_map s'))" if lt: "Suc k < 2 ^ 64 - 1"
  proof -
    from lt inv(4) have img: "(\<lambda>e. unat (rom_addr e)) ` ran (sr_var_map s) = {1..k}"
      "inj_on (\<lambda>e. unat (rom_addr e)) (ran (sr_var_map s))" by auto
    have "Suc k \<notin> (\<lambda>e. unat (rom_addr e)) ` (ran (sr_var_map s) - {e})"
    proof
      assume "Suc k \<in> (\<lambda>e. unat (rom_addr e)) ` (ran (sr_var_map s) - {e})"
      then have "Suc k \<in> {1..k}" using img(1) by blast
      then show False by simp
    qed
    with img addr [OF lt] show ?thesis by (simp add: ran atLeastAtMostSuc_conv)
  qed
  with s' inv(1,2) card trace show ?thesis
    by (auto simp: setup_rom_inv_def k_def)
qed

lemma setup_rom_inv_run:
  "run_portal setup_rom_get setup_rom_set p s = Inr (x, s') \<Longrightarrow> setup_rom_inv s \<Longrightarrow> setup_rom_inv s'"
  by (erule run_portal_invariant) (blast intro: setup_rom_inv_get setup_rom_inv_set)+

text \<open>A run creates at most as many wires as its program sets.\<close>

lemma setup_rom_size:
  assumes "run_portal setup_rom_get setup_rom_set p s = Inr (x, s')" and "sets_at_most p k" and "finite (dom (sr_var_map s))"
  shows "finite (dom (sr_var_map s')) \<and> card (dom (sr_var_map s')) \<le> card (dom (sr_var_map s)) + k"
  using assms
proof (induction p arbitrary: s k)
  case (Get n c)
  then obtain v s1 where g: "setup_rom_get n s = Inr (v, s1)" "run_portal setup_rom_get setup_rom_set (c v) s1 = Inr (x, s')"
    by (auto simp: res_simps)
  then have "sr_var_map s1 = sr_var_map s" by (auto simp: setup_rom_get_def res_simps)
  moreover have "sets_at_most (c v) k" using Get.prems(2) by simp
  ultimately show ?case using Get.IH [OF _ g(2), of k] Get.prems(3) by simp
next
  case (Set n v p)
  then obtain s1 where g: "setup_rom_set n v s = Inr s1" "run_portal setup_rom_get setup_rom_set p s1 = Inr (x, s')"
    by (auto simp: res_simps)
  then obtain e where "sr_var_map s1 = (sr_var_map s)(n \<mapsto> e)" by (auto simp: setup_rom_set_def Let_def res_simps)
  then have e: "dom (sr_var_map s1) = insert n (dom (sr_var_map s))" by simp
  have "card (insert n (dom (sr_var_map s))) \<le> Suc (card (dom (sr_var_map s)))" by (rule card_insert_le_m1) simp_all
  with Set.IH [OF g(2), of "k - 1"] Set.prems(2,3) show ?case by (auto simp: e)
qed simp_all


section \<open>The prover's manager\<close>

record 'f rom_prover =
  rp_time :: "'f rom_entry_var list"
  rp_addr :: "'f rom_entry_var list"
  rp_evals :: "'f rom_evals_var"
  rp_next :: nat
  rp_sat :: bool

text \<open>\<open>rp_sat\<close> collects the truth of the constraints enforced so far.\<close>

definition rom_prover_get :: "string \<Rightarrow> 'f::field rom_prover \<Rightarrow> failure + ('f \<times> 'f rom_prover)" where
  "rom_prover_get name s =
     rbind (unwrap ''ran out of time-ordered subtrace entries'' (vget (rp_time s) (rp_next s))) (\<lambda>current_time_entry.
     rbind (unwrap ''ran out of addr-ordered subtrace entries'' (vget (rp_addr s) (rp_next s))) (\<lambda>current_addr_entry.
     rbind (rom_update_time_ordered_var current_time_entry (rp_evals s)) (\<lambda>evals.
     rbind (unwrap ''called `Option::unwrap()` on a `None` value'' (vget (rp_addr s) (rp_next s + 1))) (\<lambda>next_addr_entry.
     let is_addr_same = (romv_addr next_addr_entry = romv_addr current_addr_entry);
         is_addr_increasing = (romv_addr next_addr_entry = romv_addr current_addr_entry + 1);
         sat = (rp_sat s \<and> (is_addr_same \<or> is_addr_increasing)
                \<and> (is_addr_same \<longrightarrow> romv_val current_addr_entry = romv_val next_addr_entry))
     in rbind (rom_update_addr_ordered_var next_addr_entry evals) (\<lambda>evals'.
        Inr (romv_val current_time_entry,
             s\<lparr>rp_sat := sat, rp_next := rp_next s + 1, rp_evals := evals'\<rparr>))))))"

definition rom_prover_set :: "string \<Rightarrow> 'f::field \<Rightarrow> 'f rom_prover \<Rightarrow> failure + 'f rom_prover" where
  "rom_prover_set name v s =
     rbind (rom_prover_get name s) (\<lambda>(trace_val, s'). Inr (s'\<lparr>rp_sat := rp_sat s' \<and> v = trace_val\<rparr>))"

definition rom_prover_running_evals :: "'f rom_prover \<Rightarrow> 'f running_evaluation_var" where
  "rom_prover_running_evals s = RomEvalVar (rp_evals s)"

fun as_rom_entry_var :: "'f transcript_entry_var \<Rightarrow> failure + 'f rom_entry_var" where
  "as_rom_entry_var (RomEntryVar e) = Inr e"
| "as_rom_entry_var (RamEntryVar e) = Inl (Panic ''cannot create a ROM portal manager from RAM transcript entries'')"

fun as_rom_evals_var :: "'f running_evaluation_var \<Rightarrow> failure + 'f rom_evals_var" where
  "as_rom_evals_var (RomEvalVar e) = Inr e"
| "as_rom_evals_var (RamEvalVar e) = Inl (Panic ''cannot create a RAM portal manager from ROM running evals'')"

definition rom_prover_new ::
    "'f transcript_entry_var list \<Rightarrow> 'f transcript_entry_var list \<Rightarrow> 'f running_evaluation_var
      \<Rightarrow> failure + 'f rom_prover" where
  "rom_prover_new time_tr addr_tr evals =
     rbind (rmap as_rom_entry_var time_tr) (\<lambda>ts.
     rbind (rmap as_rom_entry_var addr_tr) (\<lambda>as.
     rbind (as_rom_evals_var evals) (\<lambda>ev.
       Inr \<lparr>rp_time = ts, rp_addr = as, rp_evals = ev, rp_next = 0, rp_sat = True\<rparr>)))"

section \<open>What a replay checks\<close>

definition rom_step_ok :: "'f::field rom_entry_var \<Rightarrow> 'f rom_entry_var \<Rightarrow> bool" where
  "rom_step_ok cur nxt \<longleftrightarrow>
     (romv_addr nxt = romv_addr cur \<and> romv_val cur = romv_val nxt) \<or> romv_addr nxt = romv_addr cur + 1"

definition rom_chain :: "'f::field rom_entry_var list \<Rightarrow> bool" where
  "rom_chain as = successively rom_step_ok as"

definition rom_var_repr :: "'f::field \<Rightarrow> 'f rom_entry_var \<Rightarrow> 'f" where
  "rom_var_repr c v = romv_val v + c * romv_addr v"

text \<open>The state after \<open>k\<close> further operations.\<close>

definition rom_prover_after :: "nat \<Rightarrow> 'f::field rom_prover \<Rightarrow> 'f rom_prover" where
  "rom_prover_after k s =
     (case romv_challenges (rp_evals s) of None \<Rightarrow> s | Some (c, t) \<Rightarrow>
        s\<lparr>rp_next := rp_next s + k,
          rp_sat := rp_sat s \<and> rom_chain (take (k + 1) (drop (rp_next s) (rp_addr s))),
          rp_evals := (rp_evals s)
            \<lparr>romv_time_eval := romv_time_eval (rp_evals s)
                * linear_prod t (map (rom_var_repr c) (take k (drop (rp_next s) (rp_time s)))),
             romv_addr_eval := romv_addr_eval (rp_evals s)
                * linear_prod t (map (rom_var_repr c) (take k (drop (rp_next s + 1) (rp_addr s))))\<rparr>\<rparr>)"

lemma rom_step_ok_iff:
  "rom_step_ok cur nxt \<longleftrightarrow>
     (romv_addr nxt = romv_addr cur \<or> romv_addr nxt = romv_addr cur + 1)
     \<and> (romv_addr nxt = romv_addr cur \<longrightarrow> romv_val cur = romv_val nxt)"
  by (auto simp: rom_step_ok_def)

lemma rom_chain_simps [simp]: "rom_chain []" "rom_chain [a]"
  by (simp_all add: rom_chain_def)

lemma rom_chain_Cons [simp]: "rom_chain (a # b # as) \<longleftrightarrow> rom_step_ok a b \<and> rom_chain (b # as)"
  by (simp add: rom_chain_def)

lemma rom_var_repr_vec: "rom_var_repr c v = rom_vec_repr c (rom_to_constraint_field v)"
  by (simp add: rom_var_repr_def rom_vec_repr_def rom_to_constraint_field_def)

lemma rom_update_time_var_eq:
  "romv_challenges ev = Some (c, t) \<Longrightarrow> rom_update_time_ordered_var e ev
     = Inr (ev\<lparr>romv_time_eval := romv_time_eval ev * (t - rom_var_repr c e)\<rparr>)"
  by (simp add: rom_update_time_ordered_var_def rom_var_repr_def)

lemma rom_update_addr_var_eq:
  "romv_challenges ev = Some (c, t) \<Longrightarrow> rom_update_addr_ordered_var e ev
     = Inr (ev\<lparr>romv_addr_eval := romv_addr_eval ev * (t - rom_var_repr c e)\<rparr>)"
  by (simp add: rom_update_addr_ordered_var_def rom_var_repr_def)

lemma rom_prover_get_eq:
  assumes "romv_challenges (rp_evals s) = Some (c, t)"
    and "rp_next s < length (rp_time s)" and "rp_next s + 1 < length (rp_addr s)"
  shows "rom_prover_get n s = Inr (romv_val (rp_time s ! rp_next s), rom_prover_after 1 s)"
proof -
  have "take 2 (drop (rp_next s) (rp_addr s)) = [rp_addr s ! rp_next s, rp_addr s ! (rp_next s + 1)]"
    using assms(3) by (simp add: Cons_nth_drop_Suc [symmetric] numeral_2_eq_2)
  moreover have "take 1 (drop (rp_next s) (rp_time s)) = [rp_time s ! rp_next s]"
    using assms(2) by (simp add: Cons_nth_drop_Suc [symmetric])
  moreover have "take 1 (drop (rp_next s + 1) (rp_addr s)) = [rp_addr s ! (rp_next s + 1)]"
    using assms(3) by (simp add: Cons_nth_drop_Suc [symmetric])
  ultimately show ?thesis
    using assms
    by (simp add: rom_prover_get_def rom_prover_after_def rom_update_time_var_eq rom_update_addr_var_eq
        Let_def rom_step_ok_iff numeral_2_eq_2)
qed

lemma rom_prover_get_InrD:
  assumes "rom_prover_get n s = Inr (v, s')"
  shows "romv_challenges (rp_evals s) \<noteq> None \<and> rp_next s < length (rp_time s) \<and> rp_next s + 1 < length (rp_addr s)"
  using assms
  by (auto simp: rom_prover_get_def res_simps rom_update_time_ordered_var_def Let_def)


lemma rom_prover_after_sel [simp]:
  "rp_time (rom_prover_after k s) = rp_time s" "rp_addr (rom_prover_after k s) = rp_addr s"
  "romv_challenges (rp_evals (rom_prover_after k s)) = romv_challenges (rp_evals s)"
  by (simp_all add: rom_prover_after_def split: option.splits)

lemma rp_next_after: "romv_challenges (rp_evals s) \<noteq> None \<Longrightarrow> rp_next (rom_prover_after k s) = rp_next s + k"
  by (auto simp: rom_prover_after_def split: option.splits)

lemma rom_prover_after_add:
  "rom_prover_after j (rom_prover_after k s) = rom_prover_after (k + j) s"
proof (cases "romv_challenges (rp_evals s)")
  case None
  then show ?thesis by (simp add: rom_prover_after_def)
next
  case (Some ch)
  obtain c t where ch: "ch = (c, t)" by (cases ch)
  have "rom_chain (take (k + j + 1) (drop (rp_next s) (rp_addr s)))
     \<longleftrightarrow> rom_chain (take (k + 1) (drop (rp_next s) (rp_addr s)))
        \<and> rom_chain (take (j + 1) (drop (rp_next s + k) (rp_addr s)))"
    using successively_take_add [of rom_step_ok k j "drop (rp_next s) (rp_addr s)"]
    by (simp add: rom_chain_def add.commute)
  with Some ch show ?thesis
    by (simp add: rom_prover_after_def linear_prod_take_drop_add add.assoc mult.assoc)
qed

lemma rom_prover_after_0 [simp]: "rom_prover_after 0 s = s"
  by (cases "drop (rp_next s) (rp_addr s)")
    (auto simp: rom_prover_after_def split: option.splits)

text \<open>
  Whatever program is run and whatever it assigns, a successful replay leaves the state after some
  number of operations, with at most the \<open>set\<close> constraints added.
\<close>

lemma rom_prover_get_after:
  assumes "rom_prover_get n s = Inr (v, s')"
  shows "s' = rom_prover_after 1 s \<and> romv_challenges (rp_evals s) \<noteq> None
    \<and> rp_next s + 1 \<le> length (rp_time s) \<and> rp_next s + 1 < length (rp_addr s)
    \<and> v = romv_val (rp_time s ! rp_next s)"
proof -
  from rom_prover_get_InrD [OF assms] obtain c t where
    "romv_challenges (rp_evals s) = Some (c, t)" "rp_next s < length (rp_time s)" "rp_next s + 1 < length (rp_addr s)"
    by auto
  with rom_prover_get_eq [OF this, of n] assms show ?thesis by auto
qed

lemma rom_prover_after_conj:
  "romv_challenges (rp_evals s) \<noteq> None \<Longrightarrow> rom_prover_after j (s\<lparr>rp_sat := rp_sat s \<and> b\<rparr>)
     = (rom_prover_after j s)\<lparr>rp_sat := rp_sat (rom_prover_after j s) \<and> b\<rparr>"
  by (auto simp: rom_prover_after_def conj_ac split: option.splits)

definition rom_replayed :: "'f::field rom_prover \<Rightarrow> nat \<Rightarrow> bool \<Rightarrow> 'f rom_prover" where
  "rom_replayed s k b = (rom_prover_after k s)\<lparr>rp_sat := rp_sat (rom_prover_after k s) \<and> b\<rparr>"

definition rom_in_range :: "'f::field rom_prover \<Rightarrow> nat \<Rightarrow> bool" where
  "rom_in_range s k \<longleftrightarrow> k = 0 \<or> romv_challenges (rp_evals s) \<noteq> None
     \<and> rp_next s + k \<le> length (rp_time s) \<and> rp_next s + k < length (rp_addr s)"

lemma rom_replayed_0 [simp]: "rom_replayed s 0 True = s"
  by (simp add: rom_replayed_def)

lemma rom_replayed_get:
  assumes "rom_in_range s k" and "rom_prover_get n (rom_replayed s k b) = Inr (v, s')"
  shows "s' = rom_replayed s (Suc k) b \<and> rom_in_range s (Suc k) \<and> v = romv_val (rp_time s ! (rp_next s + k))"
proof -
  let ?s = "rom_replayed s k b"
  have g: "s' = rom_prover_after 1 ?s" "romv_challenges (rp_evals ?s) \<noteq> None"
    "rp_next ?s + 1 \<le> length (rp_time ?s)" "rp_next ?s + 1 < length (rp_addr ?s)"
    "v = romv_val (rp_time ?s ! rp_next ?s)"
    using rom_prover_get_after [OF assms(2)] by auto
  have ch: "romv_challenges (rp_evals s) \<noteq> None"
    using g(2) by (simp add: rom_replayed_def)
  then have nx: "rp_next ?s = rp_next s + k"
    by (simp add: rom_replayed_def rp_next_after)
  have "rom_prover_after 1 ?s = rom_replayed s (Suc k) b"
    using ch rom_prover_after_conj [of "rom_prover_after k s" 1 b]
    by (simp add: rom_replayed_def rom_prover_after_add)
  with g ch nx show ?thesis by (simp add: rom_in_range_def rom_replayed_def)
qed

text \<open>
  Whatever program is run and whatever it assigns, a successful replay leaves the state after some
  number of operations, with at most the \<open>set\<close> constraints added.
\<close>

lemma rom_replay_shape:
  assumes "run_portal rom_prover_get rom_prover_set p s = Inr (x, s')"
  shows "\<exists>k b. s' = rom_replayed s k b \<and> rom_in_range s k"
  using assms
proof (rule run_portal_invariant [where P = "\<lambda>s'. \<exists>k b. s' = rom_replayed s k b \<and> rom_in_range s k"])
  show "\<exists>k b. s = rom_replayed s k b \<and> rom_in_range s k"
    by (rule exI [of _ 0], rule exI [of _ True]) (simp add: rom_in_range_def)
next
  fix n s1 v s2
  assume "\<exists>k b. s1 = rom_replayed s k b \<and> rom_in_range s k" "rom_prover_get n s1 = Inr (v, s2)"
  then show "\<exists>k b. s2 = rom_replayed s k b \<and> rom_in_range s k"
    using rom_replayed_get by blast
next
  fix n v s1 s2
  assume "\<exists>k b. s1 = rom_replayed s k b \<and> rom_in_range s k" and set: "rom_prover_set n v s1 = Inr s2"
  then obtain k b where kb: "s1 = rom_replayed s k b" "rom_in_range s k" by blast
  from set obtain u s3 where u: "rom_prover_get n s1 = Inr (u, s3)" "s2 = s3\<lparr>rp_sat := rp_sat s3 \<and> v = u\<rparr>"
    by (auto simp: rom_prover_set_def res_simps)
  with rom_replayed_get [OF kb(2), of n b u s3] kb(1)
  have "s3 = rom_replayed s (Suc k) b" "rom_in_range s (Suc k)" by auto
  with u(2) have "s2 = rom_replayed s (Suc k) (b \<and> v = u)" by (simp add: rom_replayed_def)
  with \<open>rom_in_range s (Suc k)\<close> show "\<exists>k b. s2 = rom_replayed s k b \<and> rom_in_range s k" by blast
qed


section \<open>Soundness of the replay\<close>

lemma rom_chain_reach:
  assumes "rom_chain as" and "i \<le> j" and "j < length as"
  shows "\<exists>d \<le> j - i. romv_addr (as ! j) = romv_addr (as ! i) + of_nat d
            \<and> (d = 0 \<longrightarrow> romv_val (as ! j) = romv_val (as ! i))"
  using assms(2,3)
proof (induction j rule: dec_induct)
  case base
  then show ?case by (intro exI [of _ 0]) simp
next
  case (step j)
  then obtain d where d: "d \<le> j - i" "romv_addr (as ! j) = romv_addr (as ! i) + of_nat d"
    "d = 0 \<longrightarrow> romv_val (as ! j) = romv_val (as ! i)" by auto
  have "as = take j as @ as ! j # as ! Suc j # drop (Suc (Suc j)) as"
    using step.prems by (simp add: Cons_nth_drop_Suc)
  then have "rom_step_ok (as ! j) (as ! Suc j)"
    using assms(1) unfolding rom_chain_def by (metis successively.simps(3) successively_append_iff)
  then show ?case
  proof (cases "romv_addr (as ! Suc j) = romv_addr (as ! j)")
    case True
    with \<open>rom_step_ok _ _\<close> d show ?thesis by (intro exI [of _ d]) (auto simp: rom_step_ok_def)
  next
    case False
    with \<open>rom_step_ok _ _\<close> d step.hyps show ?thesis
      by (intro exI [of _ "Suc d"]) (auto simp: rom_step_ok_def)
  qed
qed

text \<open>An accepted address-ordered trace determines the value of every address.\<close>

lemma rom_chain_consistent:
  fixes as :: "'f::field rom_entry_var list"
  assumes "rom_chain as" and "char_above TYPE('f) (length as - 1)"
    and "e1 \<in> set as" and "e2 \<in> set as" and "romv_addr e1 = romv_addr e2"
  shows "romv_val e1 = romv_val e2"
proof -
  obtain i j where ij: "i < length as" "as ! i = e1" "j < length as" "as ! j = e2"
    using assms(3,4) by (auto simp: in_set_conv_nth)
  have key: "romv_val (as ! b) = romv_val (as ! a)"
    if ab: "a \<le> b" "b < length as" "romv_addr (as ! a) = romv_addr (as ! b)" for a b
  proof -
    obtain d where d: "d \<le> b - a" "romv_addr (as ! b) = romv_addr (as ! a) + of_nat d"
      "d = 0 \<longrightarrow> romv_val (as ! b) = romv_val (as ! a)"
      using rom_chain_reach [OF assms(1) ab(1,2)] by blast
    with ab have "of_nat d = (0 :: 'f)" by simp
    moreover have "d \<le> length as - 1" using d(1) ab(2) by linarith
    ultimately show ?thesis using char_above_zero [OF assms(2)] d(3) by blast
  qed
  show ?thesis
    using key [of i j] key [of j i] ij assms(5) by (metis linear)
qed

text \<open>
  The verdict on a whole trace replayed by one manager: the program runs to its end, consumes the
  trace, all constraints hold and the two running evaluations agree.
\<close>

definition rom_accepts ::
    "('f::field, 'a) portal \<Rightarrow> 'f rom_entry_var list \<Rightarrow> 'f rom_entry_var list \<Rightarrow> 'f \<times> 'f \<Rightarrow> bool" where
  "rom_accepts p time_tr addr_tr ch =
     (case rbind (rom_prover_new (map RomEntryVar time_tr) (map RomEntryVar addr_tr)
                   (RomEvalVar \<lparr>romv_time_eval = 1, romv_addr_eval = 1, romv_challenges = Some ch\<rparr>))
             (run_portal rom_prover_get rom_prover_set p) of
        Inl e \<Rightarrow> False
      | Inr (x, s) \<Rightarrow> rp_next s = length time_tr \<and> rp_sat s
          \<and> romv_time_eval (rp_evals s) = romv_addr_eval (rp_evals s))"

lemma rmap_as_rom [simp]: "rmap as_rom_entry_var (map RomEntryVar ts) = Inr ts"
  by (induction ts) simp_all

lemma rom_prover_new_eq:
  "rom_prover_new (map RomEntryVar ts) (map RomEntryVar as) (RomEvalVar ev)
     = Inr \<lparr>rp_time = ts, rp_addr = as, rp_evals = ev, rp_next = 0, rp_sat = True\<rparr>"
  by (simp add: rom_prover_new_def)

lemma rom_accepts_D:
  assumes "rom_accepts p ts as (c, t)" and "length as = length ts + 1"
  shows "rom_chain as \<and> linear_prod t (map (rom_var_repr c) ts) = linear_prod t (map (rom_var_repr c) (tl as))"
proof -
  define s where "s = \<lparr>rp_time = ts, rp_addr = as,
    rp_evals = \<lparr>romv_time_eval = 1, romv_addr_eval = 1, romv_challenges = Some (c, t)\<rparr>, rp_next = 0, rp_sat = True\<rparr>"
  from assms(1) obtain x s' where s': "run_portal rom_prover_get rom_prover_set p s = Inr (x, s')"
    "rp_next s' = length ts" "rp_sat s'" "romv_time_eval (rp_evals s') = romv_addr_eval (rp_evals s')"
    by (auto simp: rom_accepts_def rom_prover_new_def s_def split: sum.splits)
  obtain k b where kb: "s' = rom_replayed s k b" "rom_in_range s k"
    using rom_replay_shape [OF s'(1)] by blast
  have "k = length ts" using kb s'(2) by (simp add: rom_replayed_def rp_next_after s_def)
  with kb(1) s'(3,4) assms(2) show ?thesis
    by (simp add: rom_replayed_def rom_prover_after_def s_def drop_Suc)
qed

text \<open>
  C13: Memory soundness of read-only portals within one replay, that is for the subtraces of one
  subcircuit. Whatever the circuit does and whatever the prover puts into the two traces, if two entries of
  the time-ordered trace give one address two values, then at most \<open>2 n |C|\<close> of the \<open>|C| ^ 2\<close> challenge
  pairs let the replay be accepted. The field must tell the numbers up to \<open>n\<close> apart. Addresses are those
  of the trace: the prover's manager does not look at the names of the portals.
\<close>

theorem rom_memory_sound:
  fixes C :: "'f::field set" and prog :: "'f \<times> 'f \<Rightarrow> ('f, 'a) portal"
  assumes "finite C" and "length addr_tr = length time_tr + 1"
    and "char_above TYPE('f) (length time_tr)"
    and "ea \<in> set time_tr" and "eb \<in> set time_tr"
    and "romv_addr ea = romv_addr eb" and "romv_val ea \<noteq> romv_val eb"
  shows "card {(c, t). c \<in> C \<and> t \<in> C \<and> rom_accepts (prog (c, t)) time_tr addr_tr (c, t)}
           \<le> 2 * length time_tr * card C" (is "card ?A \<le> _")
proof (cases "mset (map rom_to_constraint_field time_tr) = mset (map rom_to_constraint_field (tl addr_tr))")
  case True
  have "set addr_tr \<supseteq> set (tl addr_tr)" by (cases addr_tr) auto
  moreover have inj: "inj rom_to_constraint_field"
    by (auto simp: inj_def rom_to_constraint_field_def)
  ultimately have "ea \<in> set addr_tr" "eb \<in> set addr_tr"
    using True assms(4,5)
    by (metis (no_types, lifting) inj_image_eq_iff list.set_map mset_eq_setD subsetD)+
  then have "\<not> rom_chain addr_tr"
    using rom_chain_consistent [of addr_tr ea eb] assms by auto
  then have empty: "?A = {}" using rom_accepts_D [OF _ assms(2)] by auto
  show ?thesis unfolding empty by simp
next
  case False
  have "finite {(c, t). c \<in> C \<and> t \<in> C \<and> Q c t}" for Q
    by (rule finite_subset [of _ "C \<times> C"]) (use assms(1) in auto)
  then have "card ?A \<le> card {(c, t). c \<in> C \<and> t \<in> C \<and>
      linear_prod t (map (rom_vec_repr c) (map rom_to_constraint_field time_tr))
        = linear_prod t (map (rom_vec_repr c) (map rom_to_constraint_field (tl addr_tr)))}"
    by (rule card_mono) (auto dest!: rom_accepts_D [OF _ assms(2)] simp: rom_var_repr_vec [abs_def] o_def)
  also have "\<dots> \<le> length (map rom_to_constraint_field time_tr) * 1 * card C
       + length (map rom_to_constraint_field time_tr) * card C"
    by (rule compressed_product_bound [OF assms(1,1) False])
      (use assms(2) in \<open>auto intro!: rom_vec_collisions simp: rom_to_constraint_field_def simp del: One_nat_def\<close>)
  finally show ?thesis by (simp add: algebra_simps)
qed

theorem rom_memory_sound_witness:
  "card {(c, t). c \<in> {3 :: rat, 5} \<and> t \<in> {3, 5} \<and>
     rom_accepts (Set ''x'' 7 (Get ''x'' Return)) [\<lparr>romv_val = 7, romv_addr = 1\<rparr>, \<lparr>romv_val = 8, romv_addr = 1\<rparr>]
       [\<lparr>romv_val = 0, romv_addr = 0\<rparr>, \<lparr>romv_val = 7, romv_addr = 1\<rparr>, \<lparr>romv_val = 7, romv_addr = 1\<rparr>] (c, t)}
   \<le> 2 * length [\<lparr>romv_val = 7 :: rat, romv_addr = 1\<rparr>, \<lparr>romv_val = 8, romv_addr = 1\<rparr>] * card {3 :: rat, 5}"
  by (rule rom_memory_sound [where ea = "\<lparr>romv_val = 7, romv_addr = 1\<rparr>" and eb = "\<lparr>romv_val = 8, romv_addr = 1\<rparr>"])
    simp_all


section \<open>Completeness of the replay\<close>

text \<open>What one setup operation appends to the current subtrace, and what it returns.\<close>

lemma setup_rom_get_trace:
  assumes "setup_rom_get n s = Inr (v, s')" and "sr_subtraces s = trs @ [tr]"
  shows "\<exists>e. sr_subtraces s' = trs @ [tr @ [e]] \<and> rom_val e = v"
  using assms by (auto simp: setup_rom_get_def res_simps)

lemma setup_rom_set_trace:
  assumes "setup_rom_set n v s = Inr s'" and "sr_subtraces s = trs @ [tr]"
  shows "\<exists>e. sr_subtraces s' = trs @ [tr @ [e]] \<and> rom_val e = v"
  using assms by (auto simp: setup_rom_set_def res_simps Let_def)

text \<open>A prover state whose unread time-ordered entries begin with the given subtrace.\<close>

definition rom_loaded :: "'f::field rom_entry list \<Rightarrow> 'f rom_prover \<Rightarrow> bool" where
  "rom_loaded tr r \<longleftrightarrow> romv_challenges (rp_evals r) \<noteq> None
     \<and> take (length tr) (drop (rp_next r) (rp_time r)) = map rom_entry_new_variable tr
     \<and> rp_next r + length tr < length (rp_addr r)"

lemma rom_loaded_Cons:
  assumes "rom_loaded (e # tr) r"
  shows "rom_prover_get n r = Inr (rom_val e, rom_prover_after 1 r) \<and> rom_loaded tr (rom_prover_after 1 r)"
proof -
  from assms obtain c t where ch: "romv_challenges (rp_evals r) = Some (c, t)" by (auto simp: rom_loaded_def)
  from assms obtain rest where rest: "drop (rp_next r) (rp_time r) = rom_entry_new_variable e # rest"
    "take (length tr) rest = map rom_entry_new_variable tr"
    by (cases "drop (rp_next r) (rp_time r)") (auto simp: rom_loaded_def)
  have lt: "rp_next r < length (rp_time r)"
    using rest(1) by (metis drop_all leI list.distinct(1))
  have "rp_time r ! rp_next r = rom_entry_new_variable e"
    using rest(1) lt by (metis hd_drop_conv_nth list.sel(1))
  moreover have "drop (rp_next r + 1) (rp_time r) = rest"
    using rest(1) by (metis drop_drop drop_0 drop_Suc_Cons One_nat_def add.commute)
  ultimately show ?thesis
    using assms rom_prover_get_eq [OF ch lt] rest(2) ch
    by (simp add: rom_loaded_def rom_entry_new_variable_def rp_next_after)
qed

lemma rom_loaded_Cons_set:
  assumes "rom_loaded (e # tr) r"
  shows "rom_prover_set n (rom_val e) r = Inr (rom_prover_after 1 r) \<and> rom_loaded tr (rom_prover_after 1 r)"
  using rom_loaded_Cons [OF assms, of n] by (simp add: rom_prover_set_def)

interpretation rom_replay: replay setup_rom_get setup_rom_set sr_subtraces rom_val
    rom_prover_get rom_prover_set rom_loaded rom_prover_after
  by (unfold_locales, simp_all add: setup_rom_get_trace setup_rom_set_trace rom_loaded_Cons
      rom_loaded_Cons_set rom_prover_after_add) (metis One_nat_def rom_loaded_Cons)

text \<open>Sorting the recorded trace by address yields a chain.\<close>

lemma rom_sorted_chain:
  fixes s :: "'f::field setup_rom"
  assumes "setup_rom_inv s" and "card (dom (sr_var_map s)) < 2 ^ 64 - 1"
  shows "rom_chain (map rom_entry_new_variable (rom_padding # sort_key rom_addr (concat (sr_subtraces s))))"
proof -
  define es where "es = sort_key rom_addr (concat (sr_subtraces s))"
  have inv: "(\<lambda>e. unat (rom_addr e)) ` set es = {1..card (dom (sr_var_map s))}"
    "inj_on (\<lambda>e. unat (rom_addr e)) (set es)"
    using assms by (auto simp: setup_rom_inv_def es_def)
  have "sorted (map rom_addr es)" by (simp add: es_def)
  then have "sorted (map (\<lambda>e. unat (rom_addr e)) es)"
    by (simp add: sorted_map word_le_nat_alt)
  moreover have "set (map (\<lambda>e. unat (rom_addr e)) es) = {1..card (dom (sr_var_map s))}"
    using inv(1) by simp
  ultimately have "successively (\<lambda>a b. b = a \<or> b = Suc a) (0 # map (\<lambda>e. unat (rom_addr e)) es)"
    by (rule sorted_covering_steps)
  then have steps: "successively (\<lambda>a b. unat (rom_addr b) = unat (rom_addr a) \<or> unat (rom_addr b) = Suc (unat (rom_addr a)))
      (rom_padding # es)"
    using successively_map [of "\<lambda>a b. b = a \<or> b = Suc a" "\<lambda>e. unat (rom_addr e)" "rom_padding # es"]
    by (simp add: rom_padding_def)
  have nz: "unat (rom_addr e) \<noteq> 0" if "e \<in> set es" for e
    using inv(1) that by (metis (no_types, lifting) atLeastAtMost_iff imageI not_one_le_zero)
  have "successively (\<lambda>a b. rom_step_ok (rom_entry_new_variable a) (rom_entry_new_variable b)) (rom_padding # es)"
    using steps
  proof (rule successively_mono)
    fix a b assume ab: "a \<in> set (rom_padding # es)" "b \<in> set (rom_padding # es)"
      "unat (rom_addr b) = unat (rom_addr a) \<or> unat (rom_addr b) = Suc (unat (rom_addr a))"
    show "rom_step_ok (rom_entry_new_variable a) (rom_entry_new_variable b)"
    proof (cases "unat (rom_addr b) = unat (rom_addr a)")
      case True
      have "a = b"
        using ab(1,2) True nz [of a] nz [of b] inj_onD [OF inv(2), of a b]
        by (auto simp: rom_padding_def)
      then show ?thesis by (simp add: rom_step_ok_def)
    next
      case False
      with ab(3) have "of_nat (unat (rom_addr b)) = (of_nat (Suc (unat (rom_addr a))) :: 'f)" by simp
      then show ?thesis
        by (simp add: rom_step_ok_def rom_entry_new_variable_def add.commute del: of_nat_unat)
    qed
  qed
  then show ?thesis
    by (simp only: rom_chain_def successively_map es_def)
qed


lemma rom_var_repr_new [simp]: "rom_var_repr c (rom_entry_new_variable e) = rom_entry_repr c e"
  by (simp add: rom_var_repr_def rom_entry_repr_def rom_entry_new_variable_def)

text \<open>
  Completeness of read-only portals. Record a run of any circuit with the setup manager,
  sort the trace by address and put the padding entry in front: the prover that replays the circuit
  over these traces is accepted under every challenge pair.
\<close>

theorem rom_honest_prover_accepted:
  fixes p :: "('f::field, 'a) portal"
  assumes "run_portal setup_rom_get setup_rom_set p (setup_rom_start_subtrace setup_rom_new) = Inr (x, s)"
    and "card (dom (sr_var_map s)) < 2 ^ 64 - 1"
  shows "rom_accepts p (map rom_entry_new_variable (concat (sr_subtraces s)))
           (map rom_entry_new_variable (rom_padding # sort_key rom_addr (concat (sr_subtraces s)))) ch"
proof -
  obtain c t where ch: "ch = (c, t)" by (cases ch)
  have "sr_subtraces (setup_rom_start_subtrace setup_rom_new :: 'f setup_rom) = [] @ [[]]"
    by (simp add: setup_rom_start_subtrace_def setup_rom_new_def)
  from rom_replay.replay_matches_setup [OF assms(1) this] obtain tr where tr: "sr_subtraces s = [tr]"
    "\<And>r. rom_loaded tr r \<Longrightarrow> run_portal rom_prover_get rom_prover_set p r = Inr (x, rom_prover_after (length tr) r)"
    by auto
  define as where "as = map rom_entry_new_variable (rom_padding # sort_key rom_addr tr)"
  define r where "r = \<lparr>rp_time = map rom_entry_new_variable tr, rp_addr = as,
    rp_evals = \<lparr>romv_time_eval = 1, romv_addr_eval = 1, romv_challenges = Some (c, t)\<rparr>, rp_next = 0, rp_sat = True\<rparr>"
  have "rom_loaded tr r" by (simp add: rom_loaded_def r_def as_def)
  from tr(2) [OF this] have run: "run_portal rom_prover_get rom_prover_set p r = Inr (x, rom_prover_after (length tr) r)" .
  have "setup_rom_inv s"
    using setup_rom_inv_run [OF assms(1)] by simp
  from rom_sorted_chain [OF this assms(2)] have "rom_chain as" by (simp add: as_def tr(1))
  moreover have "linear_prod t (map (rom_entry_repr c) tr) = linear_prod t (map (rom_entry_repr c) (sort_key rom_addr tr))"
    by (rule linear_prod_perm) simp
  ultimately have "rom_accepts p (map rom_entry_new_variable tr) as (c, t)"
    unfolding rom_accepts_def rom_prover_new_eq r_def [symmetric]
    using run by (simp add: rom_prover_after_def r_def as_def o_def)
  then show ?thesis by (simp add: tr(1) as_def ch)
qed

theorem rom_honest_prover_accepted_witness:
  "rom_accepts (Set ''x'' 7 (Get ''x'' Return))
     (map rom_entry_new_variable [\<lparr>rom_addr = 1, rom_val = 7 :: rat\<rparr>, \<lparr>rom_addr = 1, rom_val = 7\<rparr>])
     (map rom_entry_new_variable (rom_padding # [\<lparr>rom_addr = 1, rom_val = 7\<rparr>, \<lparr>rom_addr = 1, rom_val = 7\<rparr>])) (3, 11)"
  using rom_honest_prover_accepted
    [of "Set ''x'' (7 :: rat) (Get ''x'' Return)" 7
        "\<lparr>sr_subtraces = [[\<lparr>rom_addr = 1, rom_val = 7\<rparr>, \<lparr>rom_addr = 1, rom_val = 7\<rparr>]],
          sr_next_var_addr = 2, sr_var_map = [''x'' \<mapsto> \<lparr>rom_addr = 1, rom_val = 7\<rparr>]\<rparr>" "(3, 11)"]
  by (simp add: setup_rom_start_subtrace_def setup_rom_new_def setup_rom_set_def setup_rom_get_def push_last_def Let_def)

end
