(* ===== verification/Ram_Portal.thy ===== *)
theory Ram_Portal
  imports Portal "HOL-Library.Product_Lexorder"
begin

text \<open>
  Read-write portal wires, \<open>distributed-prover/src/portal_manager/ram_portal_manager.rs\<close>: the
  address manager, the setup manager that records a timestamped trace, and the manager with which
  a subcircuit prover replays its subtraces and checks the address-ordered trace.
\<close>

section \<open>Addresses and the setup manager\<close>

record address_manager =
  am_addresses :: "string \<rightharpoonup> u64"
  am_current :: u64

definition address_manager_new :: address_manager where
  "address_manager_new = \<lparr>am_addresses = Map.empty, am_current = 1\<rparr>"

definition name_to_addr :: "string \<Rightarrow> address_manager \<Rightarrow> u64 \<times> address_manager" where
  "name_to_addr name am =
     (case am_addresses am name of
        Some address \<Rightarrow> (address, am)
      | None \<Rightarrow> let address = am_current am in
          (address, \<lparr>am_addresses = (am_addresses am)(name \<mapsto> address), am_current = am_current am + 1\<rparr>))"

record 'f setup_ram =
  sm_subtraces :: "'f ram_entry list list"
  sm_address :: address_manager
  sm_time :: unsigned32
  sm_var_map :: "string \<rightharpoonup> 'f"

definition setup_ram_new :: "'f setup_ram" where
  "setup_ram_new = \<lparr>sm_subtraces = [], sm_address = address_manager_new,
     sm_time = \<lparr>bits = replicate 32 False\<rparr>, sm_var_map = Map.empty\<rparr>"

definition setup_ram_start_subtrace :: "'f setup_ram \<Rightarrow> 'f setup_ram" where
  "setup_ram_start_subtrace s = s\<lparr>sm_subtraces := sm_subtraces s @ [[]]\<rparr>"

definition setup_ram_get :: "string \<Rightarrow> 'f setup_ram \<Rightarrow> failure + ('f \<times> 'f setup_ram)" where
  "setup_ram_get name s =
     rbind (unwrap (''cannot get portal wire '' @ name) (sm_var_map s name)) (\<lambda>v.
     let (addr, am) = name_to_addr name (sm_address s) in
     rbind (push_last \<lparr>ram_addr = addr, ram_val = v, ram_i = sm_time s, ram_read = True\<rparr> (sm_subtraces s)) (\<lambda>trs.
       Inr (v, s\<lparr>sm_subtraces := trs, sm_address := am, sm_time := increment_inplace (sm_time s)\<rparr>)))"

definition setup_ram_set :: "string \<Rightarrow> 'f \<Rightarrow> 'f setup_ram \<Rightarrow> failure + 'f setup_ram" where
  "setup_ram_set name v s =
     (let (addr, am) = name_to_addr name (sm_address s);
          entry = \<lparr>ram_addr = addr, ram_val = v, ram_i = sm_time s, ram_read = False\<rparr>
      in rbind (push_last entry (sm_subtraces s)) (\<lambda>trs.
           Inr (s\<lparr>sm_var_map := (sm_var_map s)(name \<mapsto> v), sm_address := am,
                  sm_time := increment_inplace (sm_time s), sm_subtraces := trs\<rparr>)))"

definition setup_ram_running_evals :: "'f setup_ram \<Rightarrow> failure + 'f running_evaluation_var" where
  "setup_ram_running_evals s = Inl (Panic ''not implemented'')"

definition setup_ram_ready :: "'f setup_ram \<Rightarrow> bool" where
  "setup_ram_ready s \<longleftrightarrow> sm_subtraces s \<noteq> []"

interpretation ram_pm: portal_manager setup_ram_get setup_ram_set sm_var_map setup_ram_ready True
proof unfold_locales
  fix s :: "'f setup_ram" and n and v
  assume "setup_ram_ready s" "sm_var_map s n = Some v"
  then show "\<exists>s'. setup_ram_get n s = Inr (v, s') \<and> setup_ram_ready s' \<and> sm_var_map s' = sm_var_map s"
    by (cases "name_to_addr n (sm_address s)")
      (auto simp: setup_ram_get_def setup_ram_ready_def push_last_def)
next
  fix s :: "'f setup_ram" and n
  assume "sm_var_map s n = None"
  then show "\<exists>e. setup_ram_get n s = Inl e"
    by (auto simp: setup_ram_get_def)
next
  fix s :: "'f setup_ram" and n and v
  assume "setup_ram_ready s"
  then show "\<exists>s'. setup_ram_set n v s = Inr s' \<and> setup_ram_ready s' \<and> sm_var_map s' = (sm_var_map s)(n \<mapsto> v)"
    by (cases "name_to_addr n (sm_address s)")
      (auto simp: setup_ram_set_def setup_ram_ready_def push_last_def)
qed simp

section \<open>The prover's manager\<close>

text \<open>
  \<open>rmp_carry k\<close> is the value the prover's witness gives to the carry that the \<open>k\<close>-th
  increment of a timestamp starts with; an honest prover sets it to \<open>True\<close>.
\<close>

record 'f ram_prover =
  rmp_time :: "'f ram_entry_var list"
  rmp_addr :: "'f ram_entry_var list"
  rmp_evals :: "'f ram_evals_var"
  rmp_next :: nat
  rmp_carry :: "nat \<Rightarrow> bool"
  rmp_sat :: bool

text \<open>The constraints between two neighbours of the address-ordered trace.\<close>

definition ram_addr_step :: "'f::field ram_entry_var \<Rightarrow> 'f ram_entry_var \<Rightarrow> bool" where
  "ram_addr_step current_addr_entry next_addr_entry =
     (let is_addr_same = (ramv_addr next_addr_entry = ramv_addr current_addr_entry);
          is_addr_increasing = (ramv_addr next_addr_entry = ramv_addr current_addr_entry + 1);
          addr_same_and_next_is_read = (is_addr_same \<and> ramv_read next_addr_entry = True)
      in (is_addr_same \<or> is_addr_increasing)
         \<and> (is_addr_increasing \<longrightarrow> ramv_read next_addr_entry = False)
         \<and> (addr_same_and_next_is_read \<longrightarrow> ramv_val next_addr_entry = ramv_val current_addr_entry)
         \<and> (is_addr_same \<longrightarrow> is_greater_than (ramv_i next_addr_entry) (ramv_i current_addr_entry) = True))"

text \<open>The constraint between two neighbours of the time-ordered trace.\<close>

definition ram_time_step :: "bool \<Rightarrow> 'f ram_entry_var \<Rightarrow> 'f ram_entry_var \<Rightarrow> failure + bool" where
  "ram_time_step carry current_time_entry next_time_entry =
     (let t = increment_inplace_var carry (ramv_i current_time_entry)
      in u32_enforce_equal t (ramv_i next_time_entry))"

definition ram_prover_get :: "string \<Rightarrow> 'f::field ram_prover \<Rightarrow> failure + ('f \<times> 'f ram_prover)" where
  "ram_prover_get name s =
     rbind (unwrap ''ran out of time-ordered subtrace entries'' (vget (rmp_time s) (rmp_next s))) (\<lambda>current_time_entry.
     rbind (unwrap ''ran out of addr-ordered subtrace entries'' (vget (rmp_addr s) (rmp_next s + 1))) (\<lambda>current_addr_entry.
     rbind (ram_update_time_ordered_var current_time_entry (rmp_evals s)) (\<lambda>evals.
     rbind (ram_update_addr_ordered_var current_addr_entry evals) (\<lambda>evals'.
     let sat = (case vget (rmp_addr s) (rmp_next s + 2) of
                  None \<Rightarrow> rmp_sat s
                | Some next_addr_entry \<Rightarrow> rmp_sat s \<and> ram_addr_step current_addr_entry next_addr_entry)
     in rbind (if rmp_next s < length (rmp_time s) - 1 then
                 rbind (unwrap ''called `Option::unwrap()` on a `None` value'' (vget (rmp_time s) (rmp_next s + 1)))
                   (\<lambda>next_time_entry. ram_time_step (rmp_carry s (rmp_next s)) current_time_entry next_time_entry)
               else Inr True) (\<lambda>time_ok.
        Inr (ramv_val current_time_entry,
             s\<lparr>rmp_sat := sat \<and> time_ok, rmp_next := rmp_next s + 1, rmp_evals := evals'\<rparr>))))))"

definition ram_prover_set :: "string \<Rightarrow> 'f::field \<Rightarrow> 'f ram_prover \<Rightarrow> failure + 'f ram_prover" where
  "ram_prover_set name v s =
     rbind (ram_prover_get name s) (\<lambda>(trace_val, s'). Inr (s'\<lparr>rmp_sat := rmp_sat s' \<and> v = trace_val\<rparr>))"

definition ram_prover_running_evals :: "'f ram_prover \<Rightarrow> 'f running_evaluation_var" where
  "ram_prover_running_evals s = RamEvalVar (rmp_evals s)"

fun as_ram_entry_var :: "'f transcript_entry_var \<Rightarrow> failure + 'f ram_entry_var" where
  "as_ram_entry_var (RamEntryVar e) = Inr e"
| "as_ram_entry_var (RomEntryVar e) = Inl (Panic ''cannot create a RAM portal manager from ROM transcript entries'')"

fun as_ram_evals_var :: "'f running_evaluation_var \<Rightarrow> failure + 'f ram_evals_var" where
  "as_ram_evals_var (RamEvalVar e) = Inr e"
| "as_ram_evals_var (RomEvalVar e) = Inl (Panic ''cannot create a RAM portal manager from ROM running evals'')"

definition ram_prover_new ::
    "(nat \<Rightarrow> bool) \<Rightarrow> 'f transcript_entry_var list \<Rightarrow> 'f transcript_entry_var list
      \<Rightarrow> 'f running_evaluation_var \<Rightarrow> failure + 'f ram_prover" where
  "ram_prover_new carry time_tr addr_tr evals =
     rbind (rmap as_ram_entry_var time_tr) (\<lambda>ts.
     rbind (rmap as_ram_entry_var addr_tr) (\<lambda>as.
     rbind (as_ram_evals_var evals) (\<lambda>ev.
       Inr \<lparr>rmp_time = ts, rmp_addr = as, rmp_evals = ev, rmp_next = 0, rmp_carry = carry, rmp_sat = True\<rparr>)))"

section \<open>Consistent memories\<close>

text \<open>
  The operations on one address, in order, behave like a cell: the first one writes, and a read
  returns the value of the operation before it. A trace is consistent if this holds of every address.
\<close>

definition cell_ok :: "('e \<Rightarrow> bool) \<Rightarrow> ('e \<Rightarrow> 'v) \<Rightarrow> 'e list \<Rightarrow> bool" where
  "cell_ok rd vl es \<longleftrightarrow> (es \<noteq> [] \<longrightarrow> \<not> rd (hd es)) \<and> successively (\<lambda>e e'. rd e' \<longrightarrow> vl e' = vl e) es"

definition mem_consistent :: "('e \<Rightarrow> 'a) \<Rightarrow> ('e \<Rightarrow> bool) \<Rightarrow> ('e \<Rightarrow> 'v) \<Rightarrow> 'e list \<Rightarrow> bool" where
  "mem_consistent ad rd vl es \<longleftrightarrow> (\<forall>a \<in> ad ` set es. cell_ok rd vl (filter (\<lambda>e. ad e = a) es))"

lemma cell_ok_Nil [simp]: "cell_ok rd vl []"
  by (simp add: cell_ok_def)

lemma mem_consistent_iff: "mem_consistent ad rd vl es \<longleftrightarrow> (\<forall>a. cell_ok rd vl (filter (\<lambda>e. ad e = a) es))"
proof -
  have "cell_ok rd vl (filter (\<lambda>e. ad e = a) es)" if "a \<notin> ad ` set es" for a
  proof -
    have "filter (\<lambda>e. ad e = a) es = []" using that by (auto simp: filter_empty_conv)
    then show ?thesis by simp
  qed
  then show ?thesis unfolding mem_consistent_def by blast
qed

text \<open>In terms of the whole trace: a read returns the value last written to its address.\<close>

definition last_written :: "('e \<Rightarrow> 'a) \<Rightarrow> ('e \<Rightarrow> bool) \<Rightarrow> ('e \<Rightarrow> 'v) \<Rightarrow> 'e list \<Rightarrow> 'a \<Rightarrow> 'v option" where
  "last_written ad rd vl es a =
     (let ws = filter (\<lambda>e. ad e = a \<and> \<not> rd e) es in if ws = [] then None else Some (vl (last ws)))"

lemma cell_ok_snoc:
  "cell_ok rd vl (es @ [e]) \<longleftrightarrow> cell_ok rd vl es \<and> (rd e \<longrightarrow> es \<noteq> [] \<and> vl e = vl (last es))"
  by (cases es rule: rev_cases) (auto simp: cell_ok_def successively_append_iff hd_append)

lemma cell_ok_append: "cell_ok rd vl (es @ fs) \<Longrightarrow> cell_ok rd vl es"
  by (cases "es = []") (auto simp: cell_ok_def successively_append_iff)

lemma cell_last_written:
  "cell_ok rd vl es \<Longrightarrow> es \<noteq> [] \<Longrightarrow> filter (\<lambda>e. \<not> rd e) es \<noteq> [] \<and> vl (last (filter (\<lambda>e. \<not> rd e) es)) = vl (last es)"
proof (induction es rule: rev_induct)
  case (snoc e es)
  then show ?case by (cases "rd e") (auto simp: cell_ok_snoc)
qed simp

lemma mem_consistent_read:
  assumes "mem_consistent ad rd vl es" and "i < length es" and "rd (es ! i)"
  shows "last_written ad rd vl (take i es) (ad (es ! i)) = Some (vl (es ! i))"
proof -
  let ?a = "ad (es ! i)"
  let ?f = "filter (\<lambda>e. ad e = ?a)"
  have "es = (take i es @ [es ! i]) @ drop (Suc i) es"
    using assms(2) by (simp add: id_take_nth_drop)
  from arg_cong [OF this, of ?f] have "?f es = (?f (take i es) @ [es ! i]) @ ?f (drop (Suc i) es)"
    by (simp only: filter_append filter.simps if_True refl)
  moreover have "cell_ok rd vl (?f es)" using assms(1) by (simp add: mem_consistent_iff)
  ultimately have "cell_ok rd vl (?f (take i es) @ [es ! i])"
    using cell_ok_append by metis
  with assms(3) have "cell_ok rd vl (?f (take i es))" "?f (take i es) \<noteq> []"
    "vl (es ! i) = vl (last (?f (take i es)))"
    by (simp_all add: cell_ok_snoc)
  with cell_last_written [of rd vl "?f (take i es)"] show ?thesis
    by (simp add: last_written_def Let_def conj_commute)
qed


section \<open>What a replay checks\<close>

definition ram_wf_var :: "'f ram_entry_var \<Rightarrow> bool" where
  "ram_wf_var e \<longleftrightarrow> length (var_bits (ramv_i e)) = 32"

definition stamp :: "'f ram_entry_var \<Rightarrow> nat" where
  "stamp e = bits_val (var_bits (ramv_i e))"

definition ram_chain :: "'f::field ram_entry_var list \<Rightarrow> bool" where
  "ram_chain as = successively ram_addr_step as"

definition ram_time_ok :: "bool \<Rightarrow> 'f ram_entry_var \<Rightarrow> 'f ram_entry_var \<Rightarrow> bool" where
  "ram_time_ok carry cur nxt \<longleftrightarrow> var_bits (ramv_i nxt) = increment_bits_var carry (var_bits (ramv_i cur))"

definition ram_time_range :: "(nat \<Rightarrow> bool) \<Rightarrow> 'f ram_entry_var list \<Rightarrow> nat \<Rightarrow> nat \<Rightarrow> bool" where
  "ram_time_range carry ts i k \<longleftrightarrow>
     (\<forall>j \<in> {i..<i + k}. j + 1 < length ts \<longrightarrow> ram_time_ok (carry j) (ts ! j) (ts ! (j + 1)))"

definition ram_var_repr :: "'f::field \<Rightarrow> 'f \<Rightarrow> 'f \<Rightarrow> 'f ram_entry_var \<Rightarrow> 'f" where
  "ram_var_repr c1 c2 c3 v = ramv_val v + c1 * ramv_addr v + c2 * of_nat (stamp v) + c3 * of_bool (ramv_read v)"

definition ram_wf_prover :: "'f ram_prover \<Rightarrow> bool" where
  "ram_wf_prover s \<longleftrightarrow> (\<forall>e \<in> set (rmp_time s) \<union> set (rmp_addr s). ram_wf_var e)"

definition ram_prover_after :: "nat \<Rightarrow> 'f::field ram_prover \<Rightarrow> 'f ram_prover" where
  "ram_prover_after k s =
     (case ramv_challenges (rmp_evals s) of None \<Rightarrow> s | Some (c1, c2, c3, t) \<Rightarrow>
        s\<lparr>rmp_next := rmp_next s + k,
          rmp_sat := rmp_sat s \<and> ram_chain (take (k + 1) (drop (rmp_next s + 1) (rmp_addr s)))
            \<and> ram_time_range (rmp_carry s) (rmp_time s) (rmp_next s) k,
          rmp_evals := (rmp_evals s)
            \<lparr>ramv_time_eval := ramv_time_eval (rmp_evals s)
                * linear_prod t (map (ram_var_repr c1 c2 c3) (take k (drop (rmp_next s) (rmp_time s)))),
             ramv_addr_eval := ramv_addr_eval (rmp_evals s)
                * linear_prod t (map (ram_var_repr c1 c2 c3) (take k (drop (rmp_next s + 1) (rmp_addr s))))\<rparr>\<rparr>)"

lemma ram_chain_simps [simp]:
  "ram_chain []" "ram_chain [a]" "ram_chain (a # b # as) \<longleftrightarrow> ram_addr_step a b \<and> ram_chain (b # as)"
  by (simp_all add: ram_chain_def)

lemma ram_addr_step_iff:
  assumes "ram_wf_var a" and "ram_wf_var b"
  shows "ram_addr_step a b \<longleftrightarrow>
     (ramv_addr b = ramv_addr a \<and> (ramv_read b \<longrightarrow> ramv_val b = ramv_val a) \<and> stamp a < stamp b)
     \<or> (ramv_addr b = ramv_addr a + 1 \<and> \<not> ramv_read b)"
  using assms is_greater_than_iff [of "ramv_i b" "ramv_i a"]
  by (auto simp: ram_addr_step_def Let_def ram_wf_var_def stamp_def)

lemma ram_time_step_eq:
  assumes "ram_wf_var a" and "ram_wf_var b"
  shows "ram_time_step carry a b = Inr (ram_time_ok carry a b)"
  using assms u32_enforce_equal_eq [of "increment_inplace_var carry (ramv_i a)" "ramv_i b"]
  by (auto simp: ram_time_step_def ram_time_ok_def Let_def ram_wf_var_def increment_inplace_var_def)

lemma ram_update_time_var_eq:
  "ramv_challenges ev = Some (c1, c2, c3, t) \<Longrightarrow> ram_update_time_ordered_var e ev
     = Inr (ev\<lparr>ramv_time_eval := ramv_time_eval ev * (t - ram_var_repr c1 c2 c3 e)\<rparr>)"
  by (simp add: ram_update_time_ordered_var_def ram_var_repr_def stamp_def)

lemma ram_update_addr_var_eq:
  "ramv_challenges ev = Some (c1, c2, c3, t) \<Longrightarrow> ram_update_addr_ordered_var e ev
     = Inr (ev\<lparr>ramv_addr_eval := ramv_addr_eval ev * (t - ram_var_repr c1 c2 c3 e)\<rparr>)"
  by (simp add: ram_update_addr_ordered_var_def ram_var_repr_def stamp_def)

lemma ram_time_range_0 [simp]: "ram_time_range carry ts i 0"
  by (simp add: ram_time_range_def)

lemma ram_time_range_1:
  "ram_time_range carry ts i 1 \<longleftrightarrow> (i + 1 < length ts \<longrightarrow> ram_time_ok (carry i) (ts ! i) (ts ! (i + 1)))"
  by (auto simp: ram_time_range_def)

lemma ram_time_range_add:
  "ram_time_range carry ts i (k + j) \<longleftrightarrow> ram_time_range carry ts i k \<and> ram_time_range carry ts (i + k) j"
proof -
  have "{i..<i + (k + j)} = {i..<i + k} \<union> {i + k..<i + k + j}" by auto
  then show ?thesis by (auto simp: ram_time_range_def)
qed

lemma ram_prover_get_eq:
  assumes "ramv_challenges (rmp_evals s) = Some (c1, c2, c3, t)" and "ram_wf_prover s"
    and "rmp_next s < length (rmp_time s)" and "rmp_next s + 1 < length (rmp_addr s)"
  shows "ram_prover_get n s = Inr (ramv_val (rmp_time s ! rmp_next s), ram_prover_after 1 s)"
proof -
  let ?i = "rmp_next s"
  have chain: "ram_chain (take 2 (drop (?i + 1) (rmp_addr s)))
      \<longleftrightarrow> (?i + 2 < length (rmp_addr s) \<longrightarrow> ram_addr_step (rmp_addr s ! (?i + 1)) (rmp_addr s ! (?i + 2)))"
  proof (cases "?i + 2 < length (rmp_addr s)")
    case True
    then have "drop (?i + 1) (rmp_addr s) = rmp_addr s ! (?i + 1) # rmp_addr s ! (?i + 2) # drop (?i + 3) (rmp_addr s)"
      by (simp add: Cons_nth_drop_Suc numeral_eq_Suc)
    with True show ?thesis by (simp add: numeral_2_eq_2)
  next
    case False
    with assms(4) have "drop (?i + 1) (rmp_addr s) = [rmp_addr s ! (?i + 1)]"
      by (simp add: Cons_nth_drop_Suc [symmetric])
    with False show ?thesis by simp
  qed
  have "take 1 (drop ?i (rmp_time s)) = [rmp_time s ! ?i]"
    "take 1 (drop (?i + 1) (rmp_addr s)) = [rmp_addr s ! (?i + 1)]"
    using assms(3,4) by (simp_all add: Cons_nth_drop_Suc [symmetric])
  moreover have "ram_wf_var (rmp_time s ! j)" if "j < length (rmp_time s)" for j
    using that assms(2) by (simp add: ram_wf_prover_def)
  ultimately show ?thesis
    using assms chain
    by (auto simp: ram_prover_get_def ram_prover_after_def ram_update_time_var_eq ram_update_addr_var_eq
        ram_time_step_eq ram_time_range_1 [simplified] vget_def Let_def numeral_2_eq_2)
qed

lemma ram_prover_get_InrD:
  assumes "ram_prover_get n s = Inr (v, s')"
  shows "ramv_challenges (rmp_evals s) \<noteq> None \<and> rmp_next s < length (rmp_time s) \<and> rmp_next s + 1 < length (rmp_addr s)"
  using assms
  by (auto simp: ram_prover_get_def res_simps ram_update_time_ordered_var_def Let_def)

lemma ram_prover_after_sel [simp]:
  "rmp_time (ram_prover_after k s) = rmp_time s" "rmp_addr (ram_prover_after k s) = rmp_addr s"
  "ramv_challenges (rmp_evals (ram_prover_after k s)) = ramv_challenges (rmp_evals s)"
  "ram_wf_prover (ram_prover_after k s) = ram_wf_prover s"
  by (simp_all add: ram_prover_after_def ram_wf_prover_def split: option.splits)

lemma rmp_next_after: "ramv_challenges (rmp_evals s) \<noteq> None \<Longrightarrow> rmp_next (ram_prover_after k s) = rmp_next s + k"
  by (auto simp: ram_prover_after_def split: option.splits)


lemma ram_prover_after_0 [simp]: "ram_prover_after 0 s = s"
  by (cases "drop (rmp_next s + 1) (rmp_addr s)")
    (auto simp: ram_prover_after_def split: option.splits)

lemma ram_prover_after_add:
  "ram_prover_after j (ram_prover_after k s) = ram_prover_after (k + j) s"
proof (cases "ramv_challenges (rmp_evals s)")
  case None
  then show ?thesis by (simp add: ram_prover_after_def)
next
  case (Some ch)
  obtain c1 c2 c3 t where ch: "ch = (c1, c2, c3, t)" by (cases ch)
  have "ram_chain (take (k + j + 1) (drop (rmp_next s + 1) (rmp_addr s)))
     \<longleftrightarrow> ram_chain (take (k + 1) (drop (rmp_next s + 1) (rmp_addr s)))
        \<and> ram_chain (take (j + 1) (drop (rmp_next s + k + 1) (rmp_addr s)))"
    using successively_take_add [of ram_addr_step k j "drop (rmp_next s + 1) (rmp_addr s)"]
    by (simp add: ram_chain_def add.commute)
  with Some ch show ?thesis
    by (intro ram_prover.equality)
      (auto simp: ram_prover_after_def linear_prod_take_drop_add ram_time_range_add add.assoc mult.assoc)
qed

lemma ram_prover_get_after:
  assumes "ram_prover_get n s = Inr (v, s')" and "ram_wf_prover s"
  shows "s' = ram_prover_after 1 s \<and> ramv_challenges (rmp_evals s) \<noteq> None
    \<and> rmp_next s + 1 \<le> length (rmp_time s) \<and> rmp_next s + 1 < length (rmp_addr s)
    \<and> v = ramv_val (rmp_time s ! rmp_next s)"
proof -
  from ram_prover_get_InrD [OF assms(1)] obtain c1 c2 c3 t where
    "ramv_challenges (rmp_evals s) = Some (c1, c2, c3, t)" "rmp_next s < length (rmp_time s)"
    "rmp_next s + 1 < length (rmp_addr s)" by auto
  with ram_prover_get_eq [OF this(1) assms(2) this(2,3), of n] assms show ?thesis by auto
qed

lemma ram_prover_after_conj:
  "ramv_challenges (rmp_evals s) \<noteq> None \<Longrightarrow> ram_prover_after j (s\<lparr>rmp_sat := rmp_sat s \<and> b\<rparr>)
     = (ram_prover_after j s)\<lparr>rmp_sat := rmp_sat (ram_prover_after j s) \<and> b\<rparr>"
  by (auto simp: ram_prover_after_def conj_ac split: option.splits)

definition ram_replayed :: "'f::field ram_prover \<Rightarrow> nat \<Rightarrow> bool \<Rightarrow> 'f ram_prover" where
  "ram_replayed s k b = (ram_prover_after k s)\<lparr>rmp_sat := rmp_sat (ram_prover_after k s) \<and> b\<rparr>"

definition ram_in_range :: "'f::field ram_prover \<Rightarrow> nat \<Rightarrow> bool" where
  "ram_in_range s k \<longleftrightarrow> k = 0 \<or> ramv_challenges (rmp_evals s) \<noteq> None
     \<and> rmp_next s + k \<le> length (rmp_time s) \<and> rmp_next s + k < length (rmp_addr s)"

lemma ram_replayed_0 [simp]: "ram_replayed s 0 True = s"
  by (simp add: ram_replayed_def)

lemma ram_wf_replayed [simp]: "ram_wf_prover (ram_replayed s k b) = ram_wf_prover s"
  by (simp add: ram_replayed_def ram_wf_prover_def)

lemma ram_replayed_get:
  assumes "ram_in_range s k" and "ram_prover_get n (ram_replayed s k b) = Inr (v, s')" and "ram_wf_prover s"
  shows "s' = ram_replayed s (Suc k) b \<and> ram_in_range s (Suc k) \<and> v = ramv_val (rmp_time s ! (rmp_next s + k))"
proof -
  let ?s = "ram_replayed s k b"
  have g: "s' = ram_prover_after 1 ?s" "ramv_challenges (rmp_evals ?s) \<noteq> None"
    "rmp_next ?s + 1 \<le> length (rmp_time ?s)" "rmp_next ?s + 1 < length (rmp_addr ?s)"
    "v = ramv_val (rmp_time ?s ! rmp_next ?s)"
    using ram_prover_get_after [OF assms(2)] assms(3) by auto
  have ch: "ramv_challenges (rmp_evals s) \<noteq> None"
    using g(2) by (simp add: ram_replayed_def)
  then have nx: "rmp_next ?s = rmp_next s + k"
    by (simp add: ram_replayed_def rmp_next_after)
  have "ram_prover_after 1 ?s = ram_replayed s (Suc k) b"
    using ch ram_prover_after_conj [of "ram_prover_after k s" 1 b]
    by (simp add: ram_replayed_def ram_prover_after_add)
  with g ch nx show ?thesis by (simp add: ram_in_range_def ram_replayed_def)
qed

lemma ram_replay_shape:
  assumes "run_portal ram_prover_get ram_prover_set p s = Inr (x, s')" and "ram_wf_prover s"
  shows "\<exists>k b. s' = ram_replayed s k b \<and> ram_in_range s k"
  using assms(1)
proof (rule run_portal_invariant [where P = "\<lambda>s'. \<exists>k b. s' = ram_replayed s k b \<and> ram_in_range s k"])
  show "\<exists>k b. s = ram_replayed s k b \<and> ram_in_range s k"
    by (rule exI [of _ 0], rule exI [of _ True]) (simp add: ram_in_range_def)
next
  fix n s1 v s2
  assume "\<exists>k b. s1 = ram_replayed s k b \<and> ram_in_range s k" "ram_prover_get n s1 = Inr (v, s2)"
  then show "\<exists>k b. s2 = ram_replayed s k b \<and> ram_in_range s k"
    using ram_replayed_get assms(2) by blast
next
  fix n v s1 s2
  assume "\<exists>k b. s1 = ram_replayed s k b \<and> ram_in_range s k" and set: "ram_prover_set n v s1 = Inr s2"
  then obtain k b where kb: "s1 = ram_replayed s k b" "ram_in_range s k" by blast
  from set obtain u s3 where u: "ram_prover_get n s1 = Inr (u, s3)" "s2 = s3\<lparr>rmp_sat := rmp_sat s3 \<and> v = u\<rparr>"
    by (auto simp: ram_prover_set_def res_simps)
  with ram_replayed_get [OF kb(2), of n b u s3] kb(1) assms(2)
  have "s3 = ram_replayed s (Suc k) b" "ram_in_range s (Suc k)" by auto
  with u(2) have "s2 = ram_replayed s (Suc k) (b \<and> v = u)" by (simp add: ram_replayed_def)
  with \<open>ram_in_range s (Suc k)\<close> show "\<exists>k b. s2 = ram_replayed s k b \<and> ram_in_range s k" by blast
qed

section \<open>From accepted traces to a consistent memory\<close>

lemma ram_chain_reach:
  assumes "ram_chain (x # xs)" and "\<forall>e \<in> set (x # xs). ram_wf_var e" and "y \<in> set xs"
  shows "\<exists>d \<le> length xs. ramv_addr y = ramv_addr x + of_nat d"
  using assms
proof (induction xs arbitrary: x)
  case (Cons z zs)
  have step: "ramv_addr z = ramv_addr x \<or> ramv_addr z = ramv_addr x + 1"
    using Cons.prems by (auto simp: ram_addr_step_iff)
  show ?case
  proof (cases "y = z")
    case True
    from step show ?thesis
    proof
      assume "ramv_addr z = ramv_addr x"
      with True show ?thesis by (intro exI [of _ 0]) simp
    next
      assume "ramv_addr z = ramv_addr x + 1"
      with True show ?thesis by (intro exI [of _ 1]) simp
    qed
  next
    case False
    with Cons.prems(3) have "y \<in> set zs" by simp
    with Cons.IH [of z] Cons.prems(1,2) obtain d where d: "d \<le> length zs" "ramv_addr y = ramv_addr z + of_nat d"
      by auto
    from step show ?thesis
    proof
      assume "ramv_addr z = ramv_addr x"
      with d show ?thesis by (intro exI [of _ d]) simp
    next
      assume "ramv_addr z = ramv_addr x + 1"
      with d show ?thesis by (intro exI [of _ "Suc d"]) simp
    qed
  qed
qed simp

text \<open>
  In an accepted address-ordered trace the entries of one address stand together, with increasing
  timestamps, reads repeat the value before them, and every address but the first begins with a write.
\<close>

definition ram_cell_step :: "'f ram_entry_var \<Rightarrow> 'f ram_entry_var \<Rightarrow> bool" where
  "ram_cell_step e e' \<longleftrightarrow> (ramv_read e' \<longrightarrow> ramv_val e' = ramv_val e) \<and> stamp e < stamp e'"

lemma ram_chain_cells:
  fixes as :: "'f::field ram_entry_var list"
  assumes "ram_chain as" and "\<forall>e \<in> set as. ram_wf_var e" and "char_above TYPE('f) (length as)"
  shows "successively ram_cell_step (filter (\<lambda>e. ramv_addr e = a) as)
     \<and> (as \<noteq> [] \<and> a \<noteq> ramv_addr (hd as) \<and> filter (\<lambda>e. ramv_addr e = a) as \<noteq> []
          \<longrightarrow> \<not> ramv_read (hd (filter (\<lambda>e. ramv_addr e = a) as)))"
  using assms
proof (induction as)
  case (Cons x xs)
  let ?f = "filter (\<lambda>e. ramv_addr e = a)"
  have ca: "char_above TYPE('f) (length xs)"
    using Cons.prems(3) by (auto simp: char_above_def)
  show ?case
  proof (cases xs)
    case Nil
    then show ?thesis by simp
  next
    case (Cons y ys)
    have step: "ram_addr_step x y" "ram_chain xs" "ram_wf_var x" "ram_wf_var y" "\<forall>e \<in> set xs. ram_wf_var e"
      using Cons.prems Cons by auto
    have IH: "successively ram_cell_step (?f xs)"
      "a \<noteq> ramv_addr y \<Longrightarrow> ?f xs \<noteq> [] \<Longrightarrow> \<not> ramv_read (hd (?f xs))"
      using Cons.IH [OF step(2,5) ca] Cons by auto
    show ?thesis
    proof (cases "a = ramv_addr x")
      case False
      have "\<not> ramv_read (hd (?f xs))" if "?f xs \<noteq> []"
      proof (cases "a = ramv_addr y")
        case True
        with False step have "\<not> ramv_read y" by (auto simp: ram_addr_step_iff)
        with True Cons show ?thesis by simp
      next
        case False
        with IH(2) that show ?thesis by blast
      qed
      with False IH(1) show ?thesis by simp
    next
      case True
      show ?thesis
      proof (cases "ramv_addr y = ramv_addr x")
        case same: True
        with step have "ram_cell_step x y" by (auto simp: ram_addr_step_iff ram_cell_step_def)
        with True same IH(1) Cons show ?thesis by simp
      next
        case False
        with step have inc: "ramv_addr y = ramv_addr x + 1" by (auto simp: ram_addr_step_iff)
        have "?f xs = []"
        proof -
          have "ramv_addr z \<noteq> ramv_addr x" if z: "z \<in> set xs" for z
          proof (cases "z = y")
            case True
            then show ?thesis using False by simp
          next
            case False
            with z Cons have "z \<in> set ys" by simp
            then obtain d where d: "d \<le> length ys" "ramv_addr z = ramv_addr y + of_nat d"
              using ram_chain_reach [of y ys z] step(2,5) Cons by auto
            have "of_nat (Suc d) \<noteq> (0 :: 'f)"
              using char_above_zero [OF Cons.prems(3), of "Suc d"] d(1) Cons by simp
            with d(2) inc show ?thesis by (simp add: add.assoc)
          qed
          with True show ?thesis by (auto simp: filter_empty_conv)
        qed
        with True show ?thesis by simp
      qed
    qed
  qed
qed simp


lemma bits_val_increment_var:
  "bits_val (increment_bits_var c bs) = (bits_val bs + of_bool c) mod 2 ^ length bs"
  using bits_val_increment [of c bs] bits_val_less [of bs] by (cases c) simp_all

text \<open>
  Without wrap-around the timestamps of the time-ordered trace never decrease, whatever carries the
  prover picks.
\<close>

lemma ram_time_sorted:
  assumes "ram_time_range carry ts 0 (length ts)" and "\<forall>e \<in> set ts. ram_wf_var e"
    and "ts \<noteq> []" and "stamp (hd ts) + length ts \<le> 2 ^ 32"
  shows "sorted (map stamp ts)"
proof -
  have next_stamp: "stamp (ts ! Suc j) = (stamp (ts ! j) + of_bool (carry j)) mod 2 ^ 32" if "Suc j < length ts" for j
  proof -
    have "ram_time_ok (carry j) (ts ! j) (ts ! Suc j)" and "ram_wf_var (ts ! j)"
      using that assms(1,2) by (auto simp: ram_time_range_def)
    then show ?thesis by (simp add: ram_time_ok_def stamp_def bits_val_increment_var ram_wf_var_def)
  qed
  have bound: "stamp (ts ! j) \<le> stamp (hd ts) + j" if "j < length ts" for j
    using that
  proof (induction j)
    case 0
    then show ?case using assms(3) by (simp add: hd_conv_nth)
  next
    case (Suc j)
    have "stamp (ts ! Suc j) \<le> stamp (ts ! j) + of_bool (carry j)"
      using next_stamp [OF Suc.prems] by simp
    also have "\<dots> \<le> stamp (hd ts) + Suc j" using Suc by simp
    finally show ?case .
  qed
  have "stamp (ts ! j) \<le> stamp (ts ! Suc j)" if "Suc j < length ts" for j
  proof -
    have "stamp (ts ! j) + of_bool (carry j) < 2 ^ 32"
      using bound [of j] that assms(4) by (cases "carry j") auto
    then show ?thesis using next_stamp [OF that] by simp
  qed
  then show ?thesis by (auto simp: sorted_iff_nth_Suc)
qed

lemma ram_cells_distinct:
  assumes "successively ram_cell_step fs"
  shows "sorted (map stamp fs) \<and> inj_on stamp (set fs)"
proof -
  have "successively (\<lambda>e e'. stamp e < stamp e') fs"
    using assms by (rule successively_mono) (simp add: ram_cell_step_def)
  then have st: "sorted_wrt (\<lambda>e e'. stamp e < stamp e') fs"
    by (subst (asm) successively_conv_sorted_wrt) (auto simp: transp_def)
  then have "sorted_wrt (<) (map stamp fs)" by (simp add: sorted_wrt_map)
  then show ?thesis by (auto simp: strict_sorted_iff distinct_map)
qed

lemma ram_sound_core:
  fixes as :: "'f::field ram_entry_var list"
  assumes chain: "ram_chain as" and wf: "\<forall>e \<in> set as. ram_wf_var e" and char: "char_above TYPE('f) (length as)"
    and perm: "mset ts = mset as" and sorted: "sorted (map stamp ts)" and first: "\<not> ramv_read (hd as)"
  shows "mem_consistent ramv_addr ramv_read ramv_val ts"
  unfolding mem_consistent_iff
proof
  fix a
  let ?f = "filter (\<lambda>e :: 'f ram_entry_var. ramv_addr e = a)"
  have cells: "successively ram_cell_step (?f as)"
    "as \<noteq> [] \<Longrightarrow> a \<noteq> ramv_addr (hd as) \<Longrightarrow> ?f as \<noteq> [] \<Longrightarrow> \<not> ramv_read (hd (?f as))"
    using ram_chain_cells [OF chain wf char, of a] by auto
  have "mset (?f ts) = mset (?f as)" using perm by (metis mset_filter)
  moreover have "sorted (map stamp (?f ts))" using sorted by (rule sorted_filter)
  moreover have "sorted (map stamp (?f as))" "inj_on stamp (set (?f as))"
    using ram_cells_distinct [OF cells(1)] by auto
  ultimately have eq: "?f ts = ?f as"
    by (metis sort_key_inj_key_eq)
  have "\<not> ramv_read (hd (?f as))" if ne: "?f as \<noteq> []"
  proof (cases "a = ramv_addr (hd as)")
    case True
    with ne first show ?thesis by (cases as) auto
  next
    case False
    with ne cells(2) show ?thesis by (cases as) auto
  qed
  moreover have "successively (\<lambda>e e'. ramv_read e' \<longrightarrow> ramv_val e' = ramv_val e) (?f as)"
    using cells(1) by (rule successively_mono) (simp add: ram_cell_step_def)
  ultimately show "cell_ok ramv_read ramv_val (?f ts)"
    by (simp add: cell_ok_def eq)
qed

section \<open>Soundness of the replay\<close>

definition ram_accepts ::
    "('f::field, 'a) portal \<Rightarrow> (nat \<Rightarrow> bool) \<Rightarrow> 'f ram_entry_var list \<Rightarrow> 'f ram_entry_var list
      \<Rightarrow> 'f \<times> 'f \<times> 'f \<times> 'f \<Rightarrow> bool" where
  "ram_accepts p carry time_tr addr_tr ch =
     (case rbind (ram_prover_new carry (map RamEntryVar time_tr) (map RamEntryVar addr_tr)
                   (RamEvalVar \<lparr>ramv_time_eval = 1, ramv_addr_eval = 1, ramv_challenges = Some ch\<rparr>))
             (run_portal ram_prover_get ram_prover_set p) of
        Inl e \<Rightarrow> False
      | Inr (x, s) \<Rightarrow> rmp_next s = length time_tr \<and> rmp_sat s
          \<and> ramv_time_eval (rmp_evals s) = ramv_addr_eval (rmp_evals s))"

lemma rmap_as_ram [simp]: "rmap as_ram_entry_var (map RamEntryVar ts) = Inr ts"
  by (induction ts) simp_all

lemma ram_prover_new_eq:
  "ram_prover_new carry (map RamEntryVar ts) (map RamEntryVar as) (RamEvalVar ev)
     = Inr \<lparr>rmp_time = ts, rmp_addr = as, rmp_evals = ev, rmp_next = 0, rmp_carry = carry, rmp_sat = True\<rparr>"
  by (simp add: ram_prover_new_def)

lemma ram_accepts_D:
  assumes "ram_accepts p carry ts as (c1, c2, c3, t)" and "length as = length ts + 1"
    and "\<forall>e \<in> set ts \<union> set as. ram_wf_var e"
  shows "ram_chain (tl as) \<and> ram_time_range carry ts 0 (length ts)
    \<and> linear_prod t (map (ram_var_repr c1 c2 c3) ts) = linear_prod t (map (ram_var_repr c1 c2 c3) (tl as))"
proof -
  define s where "s = \<lparr>rmp_time = ts, rmp_addr = as,
    rmp_evals = \<lparr>ramv_time_eval = 1, ramv_addr_eval = 1, ramv_challenges = Some (c1, c2, c3, t)\<rparr>,
    rmp_next = 0, rmp_carry = carry, rmp_sat = True\<rparr>"
  have wf: "ram_wf_prover s" using assms(3) by (simp add: ram_wf_prover_def s_def)
  from assms(1) obtain x s' where s': "run_portal ram_prover_get ram_prover_set p s = Inr (x, s')"
    "rmp_next s' = length ts" "rmp_sat s'" "ramv_time_eval (rmp_evals s') = ramv_addr_eval (rmp_evals s')"
    by (auto simp: ram_accepts_def ram_prover_new_eq s_def split: sum.splits)
  obtain k b where kb: "s' = ram_replayed s k b" "ram_in_range s k"
    using ram_replay_shape [OF s'(1) wf] by blast
  have "k = length ts" using kb s'(2) by (simp add: ram_replayed_def rmp_next_after s_def)
  with kb(1) s'(3,4) assms(2) show ?thesis
    by (simp add: ram_replayed_def ram_prover_after_def s_def drop_Suc)
qed

lemma ram_var_repr_vec:
  "ram_var_repr c1 c2 c3 v = ram_vec_repr (c1, c2, c3) (ram_to_constraint_field v)"
  by (simp add: ram_var_repr_def ram_vec_repr_def ram_to_constraint_field_def to_fpvar_def stamp_def)

lemma ram_constraint_field_inj:
  fixes ts :: "'f::field ram_entry_var list"
  assumes "char_above TYPE('f) (2 ^ 32)" and "\<forall>e \<in> set ts \<union> set us. ram_wf_var e"
    and "mset (map ram_to_constraint_field ts) = mset (map ram_to_constraint_field us)"
  shows "mset ts = mset us"
proof -
  have "inj_on ram_to_constraint_field {e :: 'f ram_entry_var. ram_wf_var e}"
  proof (rule inj_onI, clarify)
    fix e e' :: "'f ram_entry_var"
    assume wf: "ram_wf_var e" "ram_wf_var e'" and eq: "ram_to_constraint_field e = ram_to_constraint_field e'"
    let ?b = "\<lambda>e. bits_val (var_bits (ramv_i e))"
    have "?b e \<le> 2 ^ 32" "?b e' \<le> 2 ^ 32"
      using bits_val_less [of "var_bits (ramv_i e)"] bits_val_less [of "var_bits (ramv_i e')"] wf
      by (simp_all add: ram_wf_var_def)
    moreover have "of_nat (?b e) = (of_nat (?b e') :: 'f)"
      using eq by (simp add: ram_to_constraint_field_def to_fpvar_def)
    ultimately have "?b e = ?b e'" using char_above_inj [OF assms(1)] by blast
    then have "ramv_i e = ramv_i e'"
      using wf by (auto simp: ram_wf_var_def bits_val_inj intro: unsigned32_var.equality)
    with eq show "e = e'"
      by (intro ram_entry_var.equality) (auto simp: ram_to_constraint_field_def split: if_splits)
  qed
  then have inv: "inv_into {e :: 'f ram_entry_var. ram_wf_var e} ram_to_constraint_field (ram_to_constraint_field e) = e"
    if "ram_wf_var e" for e :: "'f ram_entry_var"
    using that by (simp add: inv_into_f_f)
  let ?g = "inv_into {e :: 'f ram_entry_var. ram_wf_var e} ram_to_constraint_field"
  have "mset (map ?g (map ram_to_constraint_field ts)) = mset (map ?g (map ram_to_constraint_field us))"
    using assms(3) by (metis mset_map)
  moreover have "map ?g (map ram_to_constraint_field ts) = ts" "map ?g (map ram_to_constraint_field us) = us"
    using assms(2) inv by (simp_all add: map_idI)
  ultimately show ?thesis by (simp only:)
qed


text \<open>
  C3: Memory soundness of read-write portals within one replay, that is for the subtraces of one
  subcircuit. Three things are assumed that the constraints of the replay do not enforce: the first entry
  of the address-ordered trace after the prepended one is a write (see \<open>ram_first_read_unchecked\<close>), the
  timestamps do not wrap around at \<open>2 ^ 32\<close>, and the characteristic of the field is above \<open>2 ^ 32\<close>. If
  then the time-ordered trace is not consistent, that is some read does not return the value most recently
  written to its address, at most \<open>2 n |C| ^ 3\<close> of the \<open>|C| ^ 4\<close> challenge tuples let the
  replay be accepted, whatever the circuit does and whatever carries the prover assigns. Addresses are
  those of the trace: the prover's manager does not look at the names of the portals.
\<close>

theorem ram_memory_sound:
  fixes C :: "'f::field set" and prog :: "'f \<times> 'f \<times> 'f \<times> 'f \<Rightarrow> ('f, 'a) portal"
  assumes "finite C" and "length addr_tr = length time_tr + 1"
    and "\<forall>e \<in> set time_tr \<union> set addr_tr. ram_wf_var e" and "char_above TYPE('f) (2 ^ 32)"
    and "stamp (hd time_tr) + length time_tr \<le> 2 ^ 32" and "\<not> ramv_read (addr_tr ! 1)"
    and "\<not> mem_consistent ramv_addr ramv_read ramv_val time_tr"
  shows "card {((c1, c2, c3), t). (c1, c2, c3) \<in> C \<times> C \<times> C \<and> t \<in> C
            \<and> ram_accepts (prog (c1, c2, c3, t)) (carry (c1, c2, c3, t)) time_tr addr_tr (c1, c2, c3, t)}
         \<le> 2 * length time_tr * card C ^ 3" (is "card ?A \<le> _")
proof (cases "mset (map ram_to_constraint_field time_tr) = mset (map ram_to_constraint_field (tl addr_tr))")
  case True
  have sub: "set (tl addr_tr) \<subseteq> set addr_tr" by (cases addr_tr) auto
  have perm: "mset time_tr = mset (tl addr_tr)"
    by (rule ram_constraint_field_inj [OF assms(4) _ True]) (use assms(3) sub in auto)
  have ne: "time_tr \<noteq> []" using assms(7) by (auto simp: mem_consistent_def)
  have "length (tl addr_tr) \<le> 2 ^ 32" using assms(2,5) by simp
  with assms(4) have char: "char_above TYPE('f) (length (tl addr_tr))" by (rule char_above_mono)
  have "hd (tl addr_tr) = addr_tr ! 1"
    using assms(2) ne by (cases addr_tr; cases "tl addr_tr") auto
  with assms(6) have first: "\<not> ramv_read (hd (tl addr_tr))" by simp
  have "mem_consistent ramv_addr ramv_read ramv_val time_tr"
    if acc: "ram_accepts p cr time_tr addr_tr (c1, c2, c3, t)" for p :: "('f, 'a) portal" and cr c1 c2 c3 t
  proof -
    from ram_accepts_D [OF acc assms(2,3)]
    have "ram_chain (tl addr_tr)" "ram_time_range cr time_tr 0 (length time_tr)" by auto
    moreover have "sorted (map stamp time_tr)"
      using ram_time_sorted [OF calculation(2) _ ne assms(5)] assms(3) by simp
    ultimately show ?thesis
      using ram_sound_core [OF _ _ char perm _ first] assms(3) sub by blast
  qed
  with assms(7) have empty: "?A = {}" by auto
  show ?thesis unfolding empty by simp
next
  case False
  let ?B = "{(c, t). c \<in> C \<times> C \<times> C \<and> t \<in> C \<and>
      linear_prod t (map (ram_vec_repr c) (map ram_to_constraint_field time_tr))
        = linear_prod t (map (ram_vec_repr c) (map ram_to_constraint_field (tl addr_tr)))}"
  have "finite ?B"
    by (rule finite_subset [of _ "(C \<times> C \<times> C) \<times> C"]) (use assms(1) in auto)
  moreover have "?A \<subseteq> ?B"
    by (auto dest!: ram_accepts_D [OF _ assms(2,3)] simp: ram_var_repr_vec [abs_def] o_def)
  ultimately have "card ?A \<le> card ?B" by (rule card_mono)
  also have "card ?B \<le> length (map ram_to_constraint_field time_tr) * (card C * card C) * card C
        + length (map ram_to_constraint_field time_tr) * card (C \<times> C \<times> C)"
    by (rule compressed_product_bound [OF _ assms(1) False])
      (use assms(1,2) in \<open>auto intro!: ram_vec_collisions simp: ram_to_constraint_field_def\<close>)
  finally show ?thesis
    by (simp add: card_cartesian_product power3_eq_cube algebra_simps)
qed

theorem ram_memory_sound_witness:
  "card {((c1, c2, c3), t). (c1, c2, c3) \<in> {3 :: rat, 5} \<times> {3, 5} \<times> {3, 5} \<and> t \<in> {3, 5}
      \<and> ram_accepts (Set ''x'' 7 (Get ''x'' Return)) (\<lambda>_. True)
          [\<lparr>ramv_addr = 1, ramv_val = 7, ramv_i = \<lparr>var_bits = replicate 32 False\<rparr>, ramv_read = False\<rparr>,
           \<lparr>ramv_addr = 1, ramv_val = 8, ramv_i = \<lparr>var_bits = True # replicate 31 False\<rparr>, ramv_read = True\<rparr>]
          [\<lparr>ramv_addr = 0, ramv_val = 0, ramv_i = \<lparr>var_bits = replicate 32 False\<rparr>, ramv_read = False\<rparr>,
           \<lparr>ramv_addr = 1, ramv_val = 7, ramv_i = \<lparr>var_bits = replicate 32 False\<rparr>, ramv_read = False\<rparr>,
           \<lparr>ramv_addr = 1, ramv_val = 7, ramv_i = \<lparr>var_bits = True # replicate 31 False\<rparr>, ramv_read = True\<rparr>]
          (c1, c2, c3, t)}
    \<le> 2 * length [(0::nat), 1] * card {3 :: rat, 5} ^ 3"
proof -
  let ?ts = "[\<lparr>ramv_addr = 1, ramv_val = 7, ramv_i = \<lparr>var_bits = replicate 32 False\<rparr>, ramv_read = False\<rparr>,
       \<lparr>ramv_addr = 1, ramv_val = 8 :: rat, ramv_i = \<lparr>var_bits = True # replicate 31 False\<rparr>, ramv_read = True\<rparr>]"
  let ?as = "[\<lparr>ramv_addr = 0, ramv_val = 0 :: rat, ramv_i = \<lparr>var_bits = replicate 32 False\<rparr>, ramv_read = False\<rparr>,
       \<lparr>ramv_addr = 1, ramv_val = 7, ramv_i = \<lparr>var_bits = replicate 32 False\<rparr>, ramv_read = False\<rparr>,
       \<lparr>ramv_addr = 1, ramv_val = 7, ramv_i = \<lparr>var_bits = True # replicate 31 False\<rparr>, ramv_read = True\<rparr>]"
  have "length [(0::nat), 1] = length ?ts" by simp
  then show ?thesis
    by (simp only:) (rule ram_memory_sound [where time_tr = ?ts and addr_tr = ?as];
      simp add: ram_wf_var_def stamp_def mem_consistent_def cell_ok_def)
qed

text \<open>
  The condition on the first entry cannot be dropped, and no constraint enforces it: a read of an
  address that was never written, with any value and any address, is accepted under every challenge.
  The entry that is prepended to the address-ordered trace is not compared with the entry after it.
\<close>

theorem ram_first_read_unchecked:
  fixes v :: "'f::field"
  shows "ram_accepts (Get n Return) carry
           [\<lparr>ramv_addr = a, ramv_val = v, ramv_i = i, ramv_read = True\<rparr>]
           [e, \<lparr>ramv_addr = a, ramv_val = v, ramv_i = i, ramv_read = True\<rparr>] ch
         \<and> \<not> mem_consistent ramv_addr ramv_read ramv_val
             [\<lparr>ramv_addr = a, ramv_val = v, ramv_i = i, ramv_read = True\<rparr>]"
  by (cases ch)
    (simp add: ram_accepts_def ram_prover_new_def ram_prover_get_def vget_def Let_def
      ram_update_time_var_eq ram_update_addr_var_eq mem_consistent_def cell_ok_def)


section \<open>The recorded trace\<close>

text \<open>
  Addresses \<open>A\<close>, current values \<open>M\<close> and trace: addresses are distinct, and on each one the
  trace is a well-behaved cell that ends with the current value.
\<close>

definition ram_cells :: "(string \<rightharpoonup> u64) \<Rightarrow> (string \<rightharpoonup> 'f) \<Rightarrow> 'f ram_entry list \<Rightarrow> bool" where
  "ram_cells A M es \<longleftrightarrow> inj_on A (dom A) \<and> ram_addr ` set es \<subseteq> ran A \<and> dom M \<subseteq> dom A
     \<and> (\<forall>n a. A n = Some a \<longrightarrow> filter (\<lambda>e. ram_addr e = a) es \<noteq> []
          \<and> cell_ok ram_read ram_val (filter (\<lambda>e. ram_addr e = a) es)
          \<and> M n = Some (ram_val (last (filter (\<lambda>e. ram_addr e = a) es))))"

lemma ram_cells_old:
  assumes "ram_cells A M es" and "A n = Some (ram_addr e)" and "ram_read e \<longrightarrow> M n = Some (ram_val e)"
  shows "ram_cells A (M(n \<mapsto> ram_val e)) (es @ [e])"
proof -
  have other: "A m \<noteq> Some (ram_addr e)" if "m \<noteq> n" for m
    using assms(1,2) that by (auto simp: ram_cells_def dest!: inj_onD [of A "dom A" m n])
  show ?thesis
    using assms other
    by (auto simp: ram_cells_def cell_ok_snoc ran_def)
qed

lemma ram_cells_new:
  assumes "ram_cells A M es" and "A n = None" and "ram_addr e \<notin> ran A" and "\<not> ram_read e"
  shows "ram_cells (A(n \<mapsto> ram_addr e)) (M(n \<mapsto> ram_val e)) (es @ [e])"
proof -
  have "A m \<noteq> Some (ram_addr e)" for m using assms(3) by (auto simp: ran_def)
  moreover have "inj_on (A(n \<mapsto> ram_addr e)) (dom (A(n \<mapsto> ram_addr e)))"
    using assms(1,2) calculation by (auto simp: ram_cells_def inj_on_def)
  moreover have "filter (\<lambda>x. ram_addr x = ram_addr e) es = []"
    using assms(1,3) by (auto simp: ram_cells_def filter_empty_conv)
  ultimately show ?thesis
    using assms
    by (auto simp: ram_cells_def cell_ok_def ran_map_upd)
qed

definition ram_stamped :: "'f ram_entry list \<Rightarrow> bool" where
  "ram_stamped es \<longleftrightarrow>
     (\<forall>j < length es. u32_wf (ram_i (es ! j)) \<and> representation (ram_i (es ! j)) = word_of_nat j)"

lemma ram_stamped_snoc:
  "ram_stamped (es @ [e]) \<longleftrightarrow>
     ram_stamped es \<and> u32_wf (ram_i e) \<and> representation (ram_i e) = word_of_nat (length es)"
  by (auto simp: ram_stamped_def nth_append less_Suc_eq)

definition setup_ram_inv :: "'f setup_ram \<Rightarrow> bool" where
  "setup_ram_inv s \<longleftrightarrow>
     (let A = am_addresses (sm_address s); K = card (dom A); es = concat (sm_subtraces s) in
      finite (dom A) \<and> dom (sm_var_map s) \<subseteq> dom A \<and> am_current (sm_address s) = word_of_nat (K + 1)
      \<and> u32_wf (sm_time s) \<and> representation (sm_time s) = word_of_nat (length es) \<and> ram_stamped es
      \<and> (K < 2 ^ 64 - 1 \<longrightarrow> unat ` ran A = {1..K} \<and> ram_cells A (sm_var_map s) es))"

lemma setup_ram_inv_new [simp]: "setup_ram_inv setup_ram_new"
proof -
  have "u32_wf (\<lparr>bits = replicate 32 False\<rparr>)" "representation (\<lparr>bits = replicate 32 False\<rparr>) = 0"
    using representation_word [of u32_default] by (simp_all add: u32_default_def u32_wf_def)
  then show ?thesis
    by (simp add: setup_ram_inv_def setup_ram_new_def address_manager_new_def ram_cells_def ram_stamped_def)
qed

lemma setup_ram_inv_start [simp]: "setup_ram_inv (setup_ram_start_subtrace s) = setup_ram_inv s"
  by (simp add: setup_ram_inv_def setup_ram_start_subtrace_def)

text \<open>Both operations append one entry for the name's address; a read repeats the current value.\<close>

definition setup_ram_log :: "string \<Rightarrow> 'f \<Rightarrow> bool \<Rightarrow> 'f setup_ram \<Rightarrow> 'f setup_ram" where
  "setup_ram_log name v rd s =
     (let (addr, am) = name_to_addr name (sm_address s) in
      s\<lparr>sm_subtraces := butlast (sm_subtraces s) @ [last (sm_subtraces s)
             @ [\<lparr>ram_addr = addr, ram_val = v, ram_i = sm_time s, ram_read = rd\<rparr>]],
        sm_address := am, sm_time := increment_inplace (sm_time s), sm_var_map := (sm_var_map s)(name \<mapsto> v)\<rparr>)"

lemma setup_ram_get_log:
  "setup_ram_get n s = Inr (v, s') \<longleftrightarrow>
     sm_var_map s n = Some v \<and> sm_subtraces s \<noteq> [] \<and> s' = setup_ram_log n v True s"
  by (cases "name_to_addr n (sm_address s)")
    (auto simp: setup_ram_get_def setup_ram_log_def res_simps fun_upd_idem)

lemma setup_ram_set_log:
  "setup_ram_set n v s = Inr s' \<longleftrightarrow> sm_subtraces s \<noteq> [] \<and> s' = setup_ram_log n v False s"
  by (cases "name_to_addr n (sm_address s)")
    (auto simp: setup_ram_set_def setup_ram_log_def res_simps)

lemma setup_ram_inv_log:
  assumes inv: "setup_ram_inv s" and ne: "sm_subtraces s \<noteq> []" and rd: "rd \<longrightarrow> sm_var_map s n = Some v"
  shows "setup_ram_inv (setup_ram_log n v rd s)"
proof -
  define A where "A = am_addresses (sm_address s)"
  define K where "K = card (dom A)"
  define es where "es = concat (sm_subtraces s)"
  have dom: "dom (sm_var_map s) \<subseteq> dom A"
    using inv by (simp add: setup_ram_inv_def Let_def A_def)
  have I: "finite (dom A)" "am_current (sm_address s) = word_of_nat (K + 1)" "u32_wf (sm_time s)"
    "representation (sm_time s) = word_of_nat (length es)" "ram_stamped es"
    "K < 2 ^ 64 - 1 \<Longrightarrow> unat ` ran A = {1..K} \<and> ram_cells A (sm_var_map s) es"
    using inv by (auto simp: setup_ram_inv_def Let_def A_def K_def es_def)
  define e where "e = \<lparr>ram_addr = fst (name_to_addr n (sm_address s)), ram_val = v, ram_i = sm_time s, ram_read = rd\<rparr>"
  let ?s = "setup_ram_log n v rd s"
  have s': "concat (sm_subtraces ?s) = es @ [e]" "sm_address ?s = snd (name_to_addr n (sm_address s))"
    "sm_time ?s = increment_inplace (sm_time s)" "sm_var_map ?s = (sm_var_map s)(n \<mapsto> v)"
    using concat_push_last [OF ne] by (simp_all add: setup_ram_log_def e_def es_def split_def Let_def)
  have time: "u32_wf (sm_time ?s)" "representation (sm_time ?s) = word_of_nat (length (es @ [e]))" "ram_stamped (es @ [e])"
    using I(3,4,5) by (simp_all add: s'(3) representation_increment ram_stamped_snoc e_def add.commute)
  show ?thesis
  proof (cases "A n")
    case (Some a)
    then have am: "snd (name_to_addr n (sm_address s)) = sm_address s" "ram_addr e = a"
      by (simp_all add: name_to_addr_def A_def e_def)
    have "ram_cells A ((sm_var_map s)(n \<mapsto> v)) (es @ [e])" if "K < 2 ^ 64 - 1"
      using ram_cells_old [of A "sm_var_map s" es n e] I(6) [OF that] Some am(2) rd by (simp add: e_def)
    with I am s' time show ?thesis
      using dom Some by (auto simp: setup_ram_inv_def Let_def A_def [symmetric] K_def)
  next
    case None
    then have am: "snd (name_to_addr n (sm_address s))
        = \<lparr>am_addresses = A(n \<mapsto> word_of_nat (K + 1)), am_current = word_of_nat (K + 1) + 1\<rparr>"
      "ram_addr e = word_of_nat (K + 1)"
      using I(2) by (simp_all add: name_to_addr_def A_def e_def Let_def)
    have card: "card (dom (A(n \<mapsto> (word_of_nat (K + 1) :: u64)))) = Suc K"
      using None I(1) by (simp add: K_def domIff)
    have "\<not> rd" using rd dom None by (auto simp: A_def)
    have "unat ` ran (A(n \<mapsto> word_of_nat (K + 1))) = {1..Suc K}
        \<and> ram_cells (A(n \<mapsto> word_of_nat (K + 1))) ((sm_var_map s)(n \<mapsto> v)) (es @ [e])" if lt: "Suc K < 2 ^ 64 - 1"
    proof -
      have old: "unat ` ran A = {1..K}" "ram_cells A (sm_var_map s) es" using I(6) lt by auto
      have un: "unat (word_of_nat (K + 1) :: u64) = Suc K" using lt by (simp add: unat_of_nat del: of_nat_Suc of_nat_add)
      then have "word_of_nat (K + 1) \<notin> ran A" using old(1) by (metis atLeastAtMost_iff imageI not_less_eq_eq order_refl)
      with ram_cells_new [OF old(2) None, of e] am(2) \<open>\<not> rd\<close> old(1) un None show ?thesis
        by (auto simp: e_def ran_map_upd)
    qed
    with I am s' time card show ?thesis
      using dom by (auto simp: setup_ram_inv_def Let_def)
  qed
qed


text \<open>There are at most as many addresses as entries.\<close>

definition setup_ram_addresses_ok :: "'f setup_ram \<Rightarrow> bool" where
  "setup_ram_addresses_ok s \<longleftrightarrow>
     finite (dom (am_addresses (sm_address s))) \<and> card (dom (am_addresses (sm_address s))) \<le> length (concat (sm_subtraces s))"

lemma setup_ram_addresses_new [simp]: "setup_ram_addresses_ok setup_ram_new"
  by (simp add: setup_ram_addresses_ok_def setup_ram_new_def address_manager_new_def)

lemma setup_ram_addresses_start [simp]: "setup_ram_addresses_ok (setup_ram_start_subtrace s) = setup_ram_addresses_ok s"
  by (simp add: setup_ram_addresses_ok_def setup_ram_start_subtrace_def)

lemma length_setup_ram_log:
  assumes "sm_subtraces s \<noteq> []"
  shows "length (concat (sm_subtraces (setup_ram_log n v rd s))) = Suc (length (concat (sm_subtraces s)))"
proof -
  obtain e where "sm_subtraces (setup_ram_log n v rd s) = butlast (sm_subtraces s) @ [last (sm_subtraces s) @ [e]]"
    by (simp add: setup_ram_log_def split_def Let_def)
  then show ?thesis
    by (simp only: concat_push_last [OF assms] length_append list.size add_Suc_right add_0_right)
qed

lemma setup_ram_log_nonempty: "sm_subtraces (setup_ram_log n v rd s) \<noteq> []"
  by (simp add: setup_ram_log_def split_def Let_def)

lemma setup_ram_addresses_log:
  assumes "setup_ram_addresses_ok s" "sm_subtraces s \<noteq> []"
  shows "setup_ram_addresses_ok (setup_ram_log n v rd s)"
proof -
  let ?A = "am_addresses (sm_address s)"
  have "dom (am_addresses (sm_address (setup_ram_log n v rd s))) \<subseteq> insert n (dom ?A)"
    by (auto simp: setup_ram_log_def name_to_addr_def Let_def split: option.splits if_splits)
  moreover have fin: "finite (insert n (dom ?A))" using assms(1) by (simp add: setup_ram_addresses_ok_def)
  ultimately have "finite (dom (am_addresses (sm_address (setup_ram_log n v rd s))))"
    "card (dom (am_addresses (sm_address (setup_ram_log n v rd s)))) \<le> card (insert n (dom ?A))"
    by (auto intro: finite_subset card_mono)
  moreover have "card (insert n (dom ?A)) \<le> Suc (card (dom ?A))" by (rule card_insert_le_m1) simp_all
  ultimately show ?thesis
    using assms(1) by (simp add: setup_ram_addresses_ok_def length_setup_ram_log [OF assms(2)] del: length_concat)
qed

lemma setup_ram_addresses_run:
  "run_portal setup_ram_get setup_ram_set p s = Inr (x, s') \<Longrightarrow> setup_ram_addresses_ok s \<Longrightarrow> setup_ram_addresses_ok s'"
  by (erule run_portal_invariant) (auto simp: setup_ram_get_log setup_ram_set_log intro: setup_ram_addresses_log)

lemma setup_ram_size:
  "run_portal setup_ram_get setup_ram_set p s = Inr (x, s') \<Longrightarrow> accesses_at_most p k \<Longrightarrow>
     length (concat (sm_subtraces s')) \<le> length (concat (sm_subtraces s)) + k"
proof (induction p arbitrary: s k)
  case (Get n c)
  then obtain v s1 where g: "setup_ram_get n s = Inr (v, s1)" "run_portal setup_ram_get setup_ram_set (c v) s1 = Inr (x, s')"
    by (auto simp: res_simps)
  have "accesses_at_most (c v) (k - 1)" "0 < k" using Get.prems(2) by simp_all
  with Get.IH [OF _ g(2)] g(1) show ?case
    by (fastforce simp: setup_ram_get_log length_setup_ram_log simp del: length_concat)
next
  case (Set n v p)
  then obtain s1 where g: "setup_ram_set n v s = Inr s1" "run_portal setup_ram_get setup_ram_set p s1 = Inr (x, s')"
    by (auto simp: res_simps)
  have "accesses_at_most p (k - 1)" "0 < k" using Set.prems(2) by simp_all
  with Set.IH [OF g(2)] g(1) show ?case
    by (fastforce simp: setup_ram_set_log length_setup_ram_log simp del: length_concat)
qed simp_all

lemma setup_ram_inv_run:
  "run_portal setup_ram_get setup_ram_set p s = Inr (x, s') \<Longrightarrow> setup_ram_inv s \<Longrightarrow> setup_ram_inv s'"
  by (erule run_portal_invariant) (auto simp: setup_ram_get_log setup_ram_set_log intro: setup_ram_inv_log)

text \<open>\<open>flat_trace.sort_by_key(|entry| (entry.addr(), entry.timestamp()))\<close>\<close>

definition ram_sort_key :: "'f ram_entry \<Rightarrow> u64 \<times> u32" where
  "ram_sort_key e = (ram_addr e, representation (ram_i e))"

lemma ram_stamps_distinct:
  assumes "ram_stamped es" and "length es \<le> 2 ^ 32"
  shows "distinct (map (\<lambda>e. representation (ram_i e)) es) \<and> inj_on (\<lambda>e. representation (ram_i e)) (set es)
    \<and> sorted (map (\<lambda>e. representation (ram_i e)) es)"
proof -
  have nth: "unat (representation (ram_i (es ! j))) = j" if "j < length es" for j
    using that assms by (simp add: ram_stamped_def unat_of_nat)
  have "distinct (map (\<lambda>e. representation (ram_i e)) es)"
    by (auto simp: distinct_conv_nth) (metis nth)
  moreover have "sorted (map (\<lambda>e. representation (ram_i e)) es)"
    by (auto simp: sorted_iff_nth_Suc word_le_nat_alt nth)
  ultimately show ?thesis by (simp add: distinct_map)
qed

lemma ram_sorted_cells:
  assumes "ram_stamped es" and "length es \<le> 2 ^ 32"
  shows "filter (\<lambda>e. ram_addr e = a) (sort_key ram_sort_key es) = filter (\<lambda>e. ram_addr e = a) es"
proof -
  let ?t = "\<lambda>e. representation (ram_i e)"
  let ?f = "filter (\<lambda>e. ram_addr e = a)"
  have "sorted (map ram_sort_key (?f (sort_key ram_sort_key es)))"
    by (rule sorted_filter) simp
  then have "sorted (map ?t (?f (sort_key ram_sort_key es)))"
    unfolding sorted_map
    by (rule sorted_wrt_mono_rel [rotated]) (auto simp: ram_sort_key_def)
  moreover have "sorted (map ?t (?f es))"
    using ram_stamps_distinct [OF assms] by (blast intro: sorted_filter)
  moreover have "mset (?f (sort_key ram_sort_key es)) = mset (?f es)"
    by (simp add: mset_filter)
  moreover have "inj_on ?t (set (?f es))"
    using ram_stamps_distinct [OF assms] by (auto intro: inj_on_subset)
  ultimately show ?thesis by (metis sort_key_inj_key_eq)
qed

lemma ram_sorted_chain:
  fixes s :: "'f::field setup_ram"
  assumes "setup_ram_inv s" and "card (dom (am_addresses (sm_address s))) < 2 ^ 64 - 1"
    and "length (concat (sm_subtraces s)) \<le> 2 ^ 32"
  shows "ram_chain (map ram_entry_new_variable (sort_key ram_sort_key (concat (sm_subtraces s))))"
proof -
  define es where "es = concat (sm_subtraces s)"
  define A where "A = am_addresses (sm_address s)"
  define as where "as = sort_key ram_sort_key es"
  have I: "unat ` ran A = {1..card (dom A)}" "ram_cells A (sm_var_map s) es" "ram_stamped es"
    using assms(1,2) by (auto simp: setup_ram_inv_def Let_def A_def es_def)
  have len: "length es \<le> 2 ^ 32" using assms(3) by (simp add: es_def)
  have cell: "filter (\<lambda>e. ram_addr e = a) as = filter (\<lambda>e. ram_addr e = a) es" for a
    unfolding as_def by (rule ram_sorted_cells [OF I(3) len])
  have ran: "ram_addr ` set es = ran A"
    using I(2) by (auto simp: ram_cells_def ran_def filter_empty_conv) (metis imageI)
  have sorted: "sorted (map ram_sort_key as)" by (simp add: as_def)
  have addr_sorted: "sorted (map (\<lambda>e. unat (ram_addr e)) as)"
    using sorted unfolding sorted_map
    by (rule sorted_wrt_mono_rel [rotated]) (auto simp: ram_sort_key_def word_le_nat_alt word_less_nat_alt)
  have "set (map (\<lambda>e. unat (ram_addr e)) as) = {1..card (dom A)}"
    using ran I(1) by (simp add: as_def image_image [symmetric])
  with addr_sorted have "successively (\<lambda>a b. b = a \<or> b = Suc a) (0 # map (\<lambda>e. unat (ram_addr e)) as)"
    by (rule sorted_covering_steps)
  then have "successively (\<lambda>a b. b = a \<or> b = Suc a) (map (\<lambda>e. unat (ram_addr e)) as)"
    by (cases "as = []") (simp_all add: successively_Cons)
  then have steps: "successively (\<lambda>a b. unat (ram_addr b) = unat (ram_addr a) \<or> unat (ram_addr b) = Suc (unat (ram_addr a))) as"
    by (simp add: successively_map)
  have wf: "u32_wf (ram_i e)" if "e \<in> set as" for e
    using that I(3) by (auto simp: as_def ram_stamped_def in_set_conv_nth)
  have "successively (\<lambda>a b. ram_addr_step (ram_entry_new_variable a) (ram_entry_new_variable b)) as"
  proof (rule successivelyI)
    fix us e e' vs assume as: "as = us @ e # e' # vs"
    have cells: "cell_ok ram_read ram_val (filter (\<lambda>x. ram_addr x = a) as)" for a
    proof (cases "a \<in> ran A")
      case True
      then show ?thesis using I(2) cell by (auto simp: ram_cells_def ran_def)
    next
      case False
      then have "filter (\<lambda>x. ram_addr x = a) es = []" using ran by (auto simp: filter_empty_conv)
      then show ?thesis by (simp add: cell)
    qed
    have mem: "e \<in> set as" "e' \<in> set as" using as by auto
    have vwf: "ram_wf_var (ram_entry_new_variable e)" "ram_wf_var (ram_entry_new_variable e')"
      using wf [OF mem(1)] wf [OF mem(2)] by (simp_all add: ram_wf_var_def ram_entry_new_variable_def u32_wf_def)
    have stamps: "stamp (ram_entry_new_variable x) = unat (representation (ram_i x))" if "x \<in> set as" for x
      using wf [OF that] by (simp add: stamp_def ram_entry_new_variable_def representation_eq)
    from successivelyD [of _ us e e' vs] steps as
    consider "ram_addr e' = ram_addr e" | "unat (ram_addr e') = Suc (unat (ram_addr e))"
      by (metis (mono_tags, lifting) word_unat_eq_iff)
    then show "ram_addr_step (ram_entry_new_variable e) (ram_entry_new_variable e')"
    proof cases
      case 1
      have "cell_ok ram_read ram_val (filter (\<lambda>x. ram_addr x = ram_addr e) us @ e # e' # filter (\<lambda>x. ram_addr x = ram_addr e) vs)"
        using cells [of "ram_addr e"] 1 by (simp add: as)
      then have val: "ram_read e' \<longrightarrow> ram_val e' = ram_val e"
        unfolding cell_ok_def by (blast dest: successivelyD)
      have "ram_sort_key e \<le> ram_sort_key e'" using sorted by (simp add: as sorted_append)
      then have "representation (ram_i e) \<le> representation (ram_i e')" using 1 by (simp add: ram_sort_key_def)
      moreover have "representation (ram_i e) \<noteq> representation (ram_i e')"
      proof
        assume eq: "representation (ram_i e) = representation (ram_i e')"
        have d: "distinct (map (\<lambda>e. representation (ram_i e)) as)"
          using ram_stamps_distinct [OF I(3) len] mset_eq_imp_distinct_iff
          by (metis (mono_tags, lifting) as_def mset_map mset_sort)
        with eq show False by (simp add: as)
      qed
      ultimately have "stamp (ram_entry_new_variable e) < stamp (ram_entry_new_variable e')"
        by (simp add: stamps mem word_less_nat_alt word_le_nat_alt less_le word_unat_eq_iff)
      with 1 val show ?thesis
        by (subst ram_addr_step_iff [OF vwf]) (simp add: ram_entry_new_variable_def)
    next
      case 2
      have "ram_addr x \<noteq> ram_addr e'" if "x \<in> set us" for x
      proof -
        have "unat (ram_addr x) \<le> unat (ram_addr e)" using addr_sorted that by (auto simp: as sorted_append)
        with 2 show ?thesis by auto
      qed
      then have "filter (\<lambda>x. ram_addr x = ram_addr e') as = e' # filter (\<lambda>x. ram_addr x = ram_addr e') vs"
        using 2 by (auto simp: as filter_empty_conv)
      with cells [of "ram_addr e'"] have "\<not> ram_read e'" by (simp add: cell_ok_def)
      moreover have "of_nat (unat (ram_addr e')) = (of_nat (Suc (unat (ram_addr e))) :: 'f)" using 2 by simp
      ultimately show ?thesis
        by (subst ram_addr_step_iff [OF vwf]) (simp add: ram_entry_new_variable_def add.commute del: of_nat_unat)
    qed
  qed
  then show ?thesis
    by (simp only: ram_chain_def successively_map as_def es_def)
qed


section \<open>Completeness of the replay\<close>

lemma setup_ram_log_trace:
  assumes "sm_subtraces s = trs @ [tr]"
  shows "\<exists>e. sm_subtraces (setup_ram_log n v rd s) = trs @ [tr @ [e]] \<and> ram_val e = v"
  using assms by (cases "name_to_addr n (sm_address s)") (auto simp: setup_ram_log_def)

definition ram_loaded :: "'f::field ram_entry list \<Rightarrow> 'f ram_prover \<Rightarrow> bool" where
  "ram_loaded tr r \<longleftrightarrow> ramv_challenges (rmp_evals r) \<noteq> None \<and> ram_wf_prover r
     \<and> take (length tr) (drop (rmp_next r) (rmp_time r)) = map ram_entry_new_variable tr
     \<and> rmp_next r + length tr < length (rmp_addr r)"

lemma ram_loaded_Cons:
  assumes "ram_loaded (e # tr) r"
  shows "ram_prover_get n r = Inr (ram_val e, ram_prover_after 1 r)
    \<and> ram_prover_set n (ram_val e) r = Inr (ram_prover_after 1 r) \<and> ram_loaded tr (ram_prover_after 1 r)"
proof -
  from assms obtain c1 c2 c3 t where ch: "ramv_challenges (rmp_evals r) = Some (c1, c2, c3, t)"
    by (auto simp: ram_loaded_def)
  have wf: "ram_wf_prover r" using assms by (simp add: ram_loaded_def)
  from assms obtain rest where rest: "drop (rmp_next r) (rmp_time r) = ram_entry_new_variable e # rest"
    "take (length tr) rest = map ram_entry_new_variable tr"
    by (cases "drop (rmp_next r) (rmp_time r)") (auto simp: ram_loaded_def)
  have lt: "rmp_next r < length (rmp_time r)"
    using rest(1) by (metis drop_all leI list.distinct(1))
  have nth: "rmp_time r ! rmp_next r = ram_entry_new_variable e"
    using rest(1) lt by (metis hd_drop_conv_nth list.sel(1))
  have "drop (rmp_next r + 1) (rmp_time r) = rest"
    using rest(1) by (metis drop_drop drop_0 drop_Suc_Cons One_nat_def add.commute)
  moreover have "ram_prover_get n r = Inr (ram_val e, ram_prover_after 1 r)" for n
    using ram_prover_get_eq [OF ch wf lt, of n] assms nth by (simp add: ram_loaded_def ram_entry_new_variable_def)
  ultimately show ?thesis
    using assms rest(2) ch by (simp add: ram_loaded_def rmp_next_after ram_prover_set_def)
qed

interpretation ram_replay: replay setup_ram_get setup_ram_set sm_subtraces ram_val
    ram_prover_get ram_prover_set ram_loaded ram_prover_after
proof unfold_locales
  fix n and s :: "'f setup_ram" and v s' trs tr
  assume "setup_ram_get n s = Inr (v, s')" "sm_subtraces s = trs @ [tr]"
  then show "\<exists>e. sm_subtraces s' = trs @ [tr @ [e]] \<and> ram_val e = v"
    by (simp add: setup_ram_get_log setup_ram_log_trace)
next
  fix n v and s :: "'f setup_ram" and s' trs tr
  assume "setup_ram_set n v s = Inr s'" "sm_subtraces s = trs @ [tr]"
  then show "\<exists>e. sm_subtraces s' = trs @ [tr @ [e]] \<and> ram_val e = v"
    by (simp add: setup_ram_set_log setup_ram_log_trace)
qed (use ram_loaded_Cons in \<open>auto simp: ram_prover_after_add\<close>)

lemma ram_stamped_time_range:
  assumes "ram_stamped es"
  shows "ram_time_range (\<lambda>_. True) (map ram_entry_new_variable es) 0 (length es)"
proof -
  have "bits (ram_i (es ! Suc j)) = increment_bits True (bits (ram_i (es ! j)))" if "Suc j < length es" for j
  proof -
    let ?u = "ram_i (es ! j)" and ?v = "ram_i (es ! Suc j)"
    have "u32_wf ?u" "u32_wf ?v" "representation ?v = representation (increment_inplace ?u)"
      using assms that by (simp_all add: ram_stamped_def representation_increment add.commute)
    then have "?v = increment_inplace ?u" by (simp add: representation_inj)
    then show ?thesis by (simp add: increment_inplace_def)
  qed
  then show ?thesis
    by (auto simp: ram_time_range_def ram_time_ok_def ram_entry_new_variable_def)
qed

lemma ram_var_repr_new: "u32_wf (ram_i e) \<Longrightarrow> ram_var_repr c1 c2 c3 (ram_entry_new_variable e) = ram_entry_repr c1 c2 c3 e"
  by (simp add: ram_var_repr_def ram_entry_repr_def ram_entry_new_variable_def stamp_def representation_eq)

text \<open>
  Completeness of read-write portals. Record a run of any circuit with the setup manager, at most
  \<open>2 ^ 32\<close> operations long, sort the trace by address and timestamp and put the padding entry in
  front: the replay with honest carries is accepted under every challenge.
\<close>

theorem ram_honest_prover_accepted:
  fixes p :: "('f::field, 'a) portal"
  assumes "run_portal setup_ram_get setup_ram_set p (setup_ram_start_subtrace setup_ram_new) = Inr (x, s)"
    and "card (dom (am_addresses (sm_address s))) < 2 ^ 64 - 1" and "length (concat (sm_subtraces s)) \<le> 2 ^ 32"
  shows "ram_accepts p (\<lambda>_. True) (map ram_entry_new_variable (concat (sm_subtraces s)))
           (map ram_entry_new_variable (ram_padding # sort_key ram_sort_key (concat (sm_subtraces s)))) ch"
proof -
  obtain c1 c2 c3 t where ch: "ch = (c1, c2, c3, t)" by (cases ch)
  have "sm_subtraces (setup_ram_start_subtrace setup_ram_new :: 'f setup_ram) = [] @ [[]]"
    by (simp add: setup_ram_start_subtrace_def setup_ram_new_def)
  from ram_replay.replay_matches_setup [OF assms(1) this] obtain tr where tr: "sm_subtraces s = [tr]"
    "\<And>r. ram_loaded tr r \<Longrightarrow> run_portal ram_prover_get ram_prover_set p r = Inr (x, ram_prover_after (length tr) r)"
    by auto
  have inv: "setup_ram_inv s" using setup_ram_inv_run [OF assms(1)] by simp
  then have stamped: "ram_stamped tr" by (simp add: setup_ram_inv_def Let_def tr(1))
  then have wf: "u32_wf (ram_i e)" if "e \<in> set tr" for e
    using that by (auto simp: ram_stamped_def in_set_conv_nth)
  define as where "as = map ram_entry_new_variable (ram_padding # sort_key ram_sort_key tr)"
  define r where "r = \<lparr>rmp_time = map ram_entry_new_variable tr, rmp_addr = as,
    rmp_evals = \<lparr>ramv_time_eval = 1, ramv_addr_eval = 1, ramv_challenges = Some (c1, c2, c3, t)\<rparr>,
    rmp_next = 0, rmp_carry = (\<lambda>_. True), rmp_sat = True\<rparr>"
  have "ram_wf_prover r"
    using wf by (auto simp: ram_wf_prover_def r_def as_def ram_wf_var_def ram_entry_new_variable_def
        ram_padding_def u32_wf_def u32_default_def)
  then have "ram_loaded tr r" by (simp add: ram_loaded_def r_def as_def)
  from tr(2) [OF this] have run: "run_portal ram_prover_get ram_prover_set p r = Inr (x, ram_prover_after (length tr) r)" .
  from ram_sorted_chain [OF inv assms(2,3)]
  have "ram_chain (map ram_entry_new_variable (sort_key ram_sort_key tr))" by (simp add: tr(1))
  moreover have "map (ram_var_repr c1 c2 c3) (map ram_entry_new_variable es) = map (ram_entry_repr c1 c2 c3) es"
    if "set es = set tr" for es using wf that by (auto simp: ram_var_repr_new)
  then have "linear_prod t (map (ram_var_repr c1 c2 c3) (map ram_entry_new_variable tr))
      = linear_prod t (map (ram_var_repr c1 c2 c3) (map ram_entry_new_variable (sort_key ram_sort_key tr)))"
    by (simp only: set_sort) (rule linear_prod_perm, simp)
  ultimately have "ram_accepts p (\<lambda>_. True) (map ram_entry_new_variable tr) as (c1, c2, c3, t)"
    unfolding ram_accepts_def ram_prover_new_eq r_def [symmetric]
    using run ram_stamped_time_range [OF stamped]
    by (simp add: ram_prover_after_def r_def as_def)
  then show ?thesis by (simp add: tr(1) as_def ch)
qed


theorem ram_honest_prover_accepted_witness:
  "\<exists>s. run_portal setup_ram_get setup_ram_set (Set ''x'' 7 (Set ''x'' 8 (Get ''x'' Return)))
         (setup_ram_start_subtrace setup_ram_new) = Inr (8 :: rat, s)
     \<and> ram_accepts (Set ''x'' 7 (Set ''x'' 8 (Get ''x'' Return))) (\<lambda>_. True)
         (map ram_entry_new_variable (concat (sm_subtraces s)))
         (map ram_entry_new_variable (ram_padding # sort_key ram_sort_key (concat (sm_subtraces s)))) (3, 5, 7, 11)"
proof -
  define t0 where "t0 = \<lparr>bits = replicate 32 False\<rparr>"
  define s :: "rat setup_ram" where "s = \<lparr>sm_subtraces =
      [[\<lparr>ram_addr = 1, ram_val = 7, ram_i = t0, ram_read = False\<rparr>,
        \<lparr>ram_addr = 1, ram_val = 8, ram_i = increment_inplace t0, ram_read = False\<rparr>,
        \<lparr>ram_addr = 1, ram_val = 8, ram_i = increment_inplace (increment_inplace t0), ram_read = True\<rparr>]],
      sm_address = \<lparr>am_addresses = [''x'' \<mapsto> 1], am_current = 2\<rparr>,
      sm_time = increment_inplace (increment_inplace (increment_inplace t0)), sm_var_map = [''x'' \<mapsto> 8]\<rparr>"
  have run: "run_portal setup_ram_get setup_ram_set (Set ''x'' 7 (Set ''x'' 8 (Get ''x'' Return)))
      (setup_ram_start_subtrace setup_ram_new) = Inr (8, s)"
    by (simp add: setup_ram_start_subtrace_def setup_ram_new_def setup_ram_set_def setup_ram_get_def
        push_last_def name_to_addr_def address_manager_new_def s_def t0_def)
  moreover have "card (dom (am_addresses (sm_address s))) < 2 ^ 64 - 1" "length (concat (sm_subtraces s)) \<le> 2 ^ 32"
    by (simp_all add: s_def)
  ultimately show ?thesis using ram_honest_prover_accepted [OF run] by blast
qed

end
