(* ===== verification/Util.thy ===== *)
theory Util
  imports Prelude
begin

text \<open>
  The helper functions of \<open>distributed-prover/src/util.rs\<close> (\<open>log2\<close>) and
  \<open>distributed-prover/src/vkd/util.rs\<close> (\<open>split\<close>), with the facts their callers rely on:
  \<open>log2\<close> is the floor of the binary logarithm of a 64-bit \<open>usize\<close> below \<open>2 ^ 63\<close>, \<open>split\<close> cuts a vector
  into consecutive pieces. A \<open>usize\<close> is a \<open>nat\<close>.
\<close>

section \<open>log2\<close>

text \<open>
  A \<open>usize\<close> has 64 bits: shifting it by 64 panics. (A build without overflow checks masks the shift
  amount, finds \<open>x\<close> again and never leaves the loop.)
\<close>

function log2_loop :: "nat \<Rightarrow> nat \<Rightarrow> failure + nat" where
  "log2_loop x k =
     (if 64 \<le> k then Inl (Panic ''attempt to shift right with overflow'')
      else if 0 < x div 2 ^ k then log2_loop x (k + 1) else Inr k)"
  by pat_completeness auto
termination
  by (relation "measure (\<lambda>(x, k). 64 - k)") auto

declare log2_loop.simps [simp del]

definition log2 :: "nat \<Rightarrow> failure + nat" where
  "log2 x = (if x = 0 then Inr 0 else rbind (log2_loop x 0) (\<lambda>k. usub k 1))"

text \<open>From a shift amount that leaves something, the loop goes on to the first one that leaves nothing, if the width has one.\<close>

lemma log2_loop_next: "k < 64 \<Longrightarrow> 2 ^ k \<le> x \<Longrightarrow> log2_loop x k = log2_loop x (Suc k)"
  by (subst log2_loop.simps) (simp add: div_greater_zero_iff)

lemma log2_loop_found: "k < 64 \<Longrightarrow> x < 2 ^ k \<Longrightarrow> log2_loop x k = Inr k"
  by (subst log2_loop.simps) simp

lemma log2_loop_upto: "2 ^ j \<le> x \<Longrightarrow> j < 64 \<Longrightarrow> log2_loop x 0 = log2_loop x (Suc j)"
proof (induction j)
  case (Suc j)
  then have "2 ^ j \<le> x" by simp
  with Suc show ?case using log2_loop_next [of "Suc j" x] by simp
qed (use log2_loop_next [of 0 x] in simp)

lemma log2_unique:
  assumes "2 ^ k \<le> x" and "x < 2 ^ Suc k" and "k < 63"
  shows "log2 x = Inr k"
proof -
  have "x \<noteq> 0" using assms(1) by (metis not_one_le_zero one_le_numeral one_le_power order_trans)
  then show ?thesis
    using assms log2_loop_upto [of k x] log2_loop_found [of "Suc k" x] by (simp add: log2_def)
qed

lemma log2_power [simp]: "k < 63 \<Longrightarrow> log2 (2 ^ k) = Inr k"
  by (rule log2_unique) simp_all

lemma log2_zero [simp]: "log2 0 = Inr 0"
  by (simp add: log2_def)

lemma log2_overflow: "2 ^ 63 \<le> x \<Longrightarrow> log2 x = Inl (Panic ''attempt to shift right with overflow'')"
proof -
  assume "2 ^ 63 \<le> x"
  then have "x \<noteq> 0" and "log2_loop x 0 = log2_loop x 64" using log2_loop_upto [of 63 x] by auto
  then show ?thesis by (simp add: log2_def log2_loop.simps [of x 64])
qed

text \<open>The logarithm of a number below \<open>2 ^ n\<close>.\<close>

lemma power_bracket: "0 < x \<Longrightarrow> x < 2 ^ n \<Longrightarrow> \<exists>k < n. 2 ^ k \<le> x \<and> x < (2 :: nat) ^ Suc k"
proof (induction n)
  case (Suc n)
  then show ?case by (cases "x < 2 ^ n") (auto intro: less_SucI)
qed simp

section \<open>split\<close>

text \<open>\<open>slice::split_at\<close> panics past the end.\<close>

definition split_at :: "nat \<Rightarrow> 'a list \<Rightarrow> failure + 'a list list" where
  "split_at n xs = (if n \<le> length xs then Inr [take n xs, drop n xs] else Inl (Panic ''mid > len''))"

function split_loop :: "nat \<Rightarrow> nat \<Rightarrow> 'a list list \<Rightarrow> failure + 'a list list" where
  "split_loop split_factor len res =
     (if split_factor \<le> 1 then Inr res
      else rbind (rmap (split_at (len div 2)) res)
             (\<lambda>temp. split_loop (split_factor div 2) (len div 2) (concat temp)))"
  by pat_completeness auto
termination
  by (relation "measure fst") auto

declare split_loop.simps [simp del]

definition split :: "'a list \<Rightarrow> nat \<Rightarrow> failure + 'a list list" where
  "split vector split_factor =
     (if split_factor \<notin> {2, 4, 8, 16} then Inl InvalidParameter
      else split_loop split_factor (length vector) [vector])"

text \<open>Every piece keeps at least \<open>len\<close> elements, so no \<open>split_at\<close> of the loop can panic.\<close>

lemma split_loop_ok:
  assumes "\<forall>v \<in> set res. len \<le> length v" and "split_factor = 2 ^ k"
  shows "\<exists>out. split_loop split_factor len res = Inr out
           \<and> concat out = concat res \<and> length out = split_factor * length res
           \<and> (\<forall>v \<in> set out. len div split_factor \<le> length v)"
  using assms
proof (induction k arbitrary: split_factor len res)
  case 0
  then show ?case by (subst split_loop.simps) simp
next
  case (Suc k)
  let ?temp = "map (\<lambda>v. [take (len div 2) v, drop (len div 2) v]) res"
  have step: "rmap (split_at (len div 2)) res = Inr ?temp"
    by (rule rmap_total) (use Suc.prems in \<open>force simp: split_at_def\<close>)
  have conc: "concat (concat ?temp) = concat res"
    by (induction res) simp_all
  have len: "length (concat ?temp) = 2 * length res"
    by (induction res) simp_all
  have big: "\<forall>v \<in> set (concat ?temp). len div 2 \<le> length v"
    using Suc.prems by fastforce
  from Suc.IH [OF big refl] obtain out where
    out: "split_loop (2 ^ k) (len div 2) (concat ?temp) = Inr out"
      "concat out = concat (concat ?temp)" "length out = 2 ^ k * length (concat ?temp)"
      "\<forall>v \<in> set out. len div 2 div 2 ^ k \<le> length v" by blast
  moreover have "\<not> split_factor \<le> 1"
    using Suc.prems(2) one_le_power [of "2::nat" k] by (simp del: one_le_power; linarith)
  moreover have "split_loop split_factor len res = Inr out"
    if "\<not> split_factor \<le> 1" using that out Suc.prems by (subst split_loop.simps) (simp add: step)
  ultimately show ?case
    using conc len Suc.prems by (simp add: div_mult2_eq)
qed

lemma sum_list_lower_eq:
  assumes "\<forall>v \<in> set xs. m \<le> v" and "sum_list xs = m * length xs"
  shows "\<forall>v \<in> set xs. v = (m :: nat)"
  using assms
proof (induction xs)
  case (Cons x xs)
  have "m * length xs \<le> sum_list xs"
    using Cons.prems(1) by (induction xs) auto
  with Cons show ?case by auto
qed simp

lemma split_ok:
  assumes "split_factor \<in> {2, 4, 8, 16}"
  shows "\<exists>out. split xs split_factor = Inr out \<and> concat out = xs \<and> length out = split_factor
           \<and> (split_factor dvd length xs \<longrightarrow> (\<forall>v \<in> set out. length v = length xs div split_factor))"
proof -
  from assms obtain k where k: "split_factor = 2 ^ k"
    by (auto intro: that [of 1] that [of 2] that [of 3] that [of 4])
  from split_loop_ok [of "[xs]" "length xs" split_factor k] k obtain out where
    out: "split_loop split_factor (length xs) [xs] = Inr out" "concat out = xs"
      "length out = split_factor" "\<forall>v \<in> set out. length xs div split_factor \<le> length v"
    by auto
  have "\<forall>v \<in> set out. length v = length xs div split_factor" if "split_factor dvd length xs"
  proof -
    have "sum_list (map length out) = length xs"
      using out(2) by (metis length_concat)
    then have "sum_list (map length out) = (length xs div split_factor) * length (map length out)"
      using that out(3) by simp
    with sum_list_lower_eq [of "map length out" "length xs div split_factor"] out(4)
    show ?thesis by simp
  qed
  with out assms show ?thesis by (simp add: split_def)
qed

lemma split_nth:
  assumes "split xs f = Inr out" and "f dvd length xs" and "i < f"
  shows "out ! i = take (length xs div f) (drop (i * (length xs div f)) xs)"
proof -
  have f: "f \<in> {2, 4, 8, 16}"
    using assms(1) by (auto simp: split_def split: if_splits)
  with split_ok [OF f, of xs] assms have out: "concat out = xs" "length out = f"
    "\<forall>v \<in> set out. length v = length xs div f" by auto
  define m where "m = length xs div f"
  have "out ! i = take m (drop (i * m) (concat out))"
    if "i < length out" "\<forall>v \<in> set out. length v = m" for i
    using that
  proof (induction out arbitrary: i)
    case (Cons v vs)
    then show ?case by (cases i) (auto simp: algebra_simps)
  qed simp
  with out assms show ?thesis by (simp add: m_def)
qed

section \<open>What the helpers compute\<close>

text \<open>
  C40: On a \<open>usize\<close> below \<open>2 ^ 63\<close> the loop of \<open>log2\<close> ends with the floor of the binary logarithm, and
  with \<open>0\<close> on \<open>0\<close>. From \<open>2 ^ 63\<close> on it reaches the shift by 64 and panics.
\<close>

theorem log2_is_floor_log:
  "if x = 0 then log2 x = Inr 0
   else if x < 2 ^ 63 then \<exists>k < 63. log2 x = Inr k \<and> 2 ^ k \<le> x \<and> x < 2 ^ Suc k
   else log2 x = Inl (Panic ''attempt to shift right with overflow'')"
proof (cases "x = 0 \<or> 2 ^ 63 \<le> x")
  case False
  then obtain k where "k < 63" "2 ^ k \<le> x" "x < 2 ^ Suc k" using power_bracket [of x 63] by auto
  then show ?thesis using False log2_unique [of k x] by auto
qed (use log2_overflow [of x] in auto)

text \<open>
  For the supported factors \<open>split\<close> returns that many pieces whose concatenation is the input,
  and when the factor divides the length, piece \<open>i\<close> is the \<open>i\<close>-th window of the equal length.
\<close>

theorem split_windows:
  assumes "split_factor \<in> {2, 4, 8, 16}"
  shows "\<exists>out. split xs split_factor = Inr out \<and> concat out = xs \<and> length out = split_factor
     \<and> (split_factor dvd length xs \<longrightarrow> (\<forall>i < split_factor.
          out ! i = take (length xs div split_factor) (drop (i * (length xs div split_factor)) xs)))"
proof -
  from split_ok [OF assms, of xs] obtain out where "split xs split_factor = Inr out"
    "concat out = xs" "length out = split_factor" by blast
  with split_nth [OF this(1)] show ?thesis by blast
qed

theorem split_windows_witness:
  "\<exists>out. split [1, 2, 3, 4 :: nat] 2 = Inr out \<and> out ! 0 = [1, 2] \<and> out ! 1 = [3, 4]"
proof -
  have div: "(2 :: nat) dvd length [1, 2, 3, 4 :: nat]" "length [1, 2, 3, 4 :: nat] div 2 = 2" by simp_all
  obtain out where out: "split [1, 2, 3, 4 :: nat] 2 = Inr out"
    "\<forall>i < 2. out ! i = take 2 (drop (i * 2) [1, 2, 3, 4])"
    using split_windows [of 2 "[1, 2, 3, 4 :: nat]"] unfolding div(2) using div(1) by blast
  from out(2) [rule_format, of 0] out(2) [rule_format, of 1] out(1) show ?thesis by simp
qed

end
