(* ===== verification/Circuit.thy ===== *)
theory Circuit
  imports Rom_Portal Ram_Portal Util
begin

text \<open>
  The trait \<open>CircuitWithPortals\<close> of \<open>distributed-prover/src/lib.rs\<close>, as a record of
  operations on a type of circuits, and the choice of the prover's portal manager by memory type.
  \<open>op_generate\<close> is \<open>generate_constraints\<close>: a portal program that returns whether the
  constraints it enforced hold.
\<close>

record ('f, 'c, 'p) circuit_ops =
  op_mem_type :: mem_type
  op_get_params :: "'c \<Rightarrow> 'p"
  op_portal_subtraces :: "'c \<Rightarrow> failure + 'f transcript_entry list list"
  op_num_subcircuits :: "'c \<Rightarrow> nat"
  op_unique_subcircuits :: "'c \<Rightarrow> failure + nat list"
  op_representative :: "'c \<Rightarrow> nat \<Rightarrow> failure + nat"
  op_new :: "'p \<Rightarrow> failure + 'c"
  op_get_witnesses :: "'c \<Rightarrow> nat \<Rightarrow> failure + u8 list"
  op_set_witnesses :: "nat \<Rightarrow> u8 list \<Rightarrow> 'c \<Rightarrow> failure + 'c"
  op_generate :: "'c \<Rightarrow> nat \<Rightarrow> ('f, bool) portal"

section \<open>The prover's manager of a memory type\<close>

datatype 'f prover_pm = RomPm "'f rom_prover" | RamPm "'f ram_prover"

fun prover_pm_new ::
    "mem_type \<Rightarrow> (nat \<Rightarrow> bool) \<Rightarrow> 'f transcript_entry_var list \<Rightarrow> 'f transcript_entry_var list
      \<Rightarrow> 'f running_evaluation_var \<Rightarrow> failure + 'f prover_pm" where
  "prover_pm_new Rom carry time_tr addr_tr evals = result_map RomPm (rom_prover_new time_tr addr_tr evals)"
| "prover_pm_new Ram carry time_tr addr_tr evals = result_map RamPm (ram_prover_new carry time_tr addr_tr evals)"

fun prover_pm_get :: "string \<Rightarrow> 'f::field prover_pm \<Rightarrow> failure + ('f \<times> 'f prover_pm)" where
  "prover_pm_get n (RomPm s) = result_map (\<lambda>(v, s'). (v, RomPm s')) (rom_prover_get n s)"
| "prover_pm_get n (RamPm s) = result_map (\<lambda>(v, s'). (v, RamPm s')) (ram_prover_get n s)"

fun prover_pm_set :: "string \<Rightarrow> 'f::field \<Rightarrow> 'f prover_pm \<Rightarrow> failure + 'f prover_pm" where
  "prover_pm_set n v (RomPm s) = result_map RomPm (rom_prover_set n v s)"
| "prover_pm_set n v (RamPm s) = result_map RamPm (ram_prover_set n v s)"

fun prover_pm_running_evals :: "'f prover_pm \<Rightarrow> 'f running_evaluation_var" where
  "prover_pm_running_evals (RomPm s) = rom_prover_running_evals s"
| "prover_pm_running_evals (RamPm s) = ram_prover_running_evals s"

fun prover_pm_sat :: "'f prover_pm \<Rightarrow> bool" where
  "prover_pm_sat (RomPm s) = rp_sat s"
| "prover_pm_sat (RamPm s) = rmp_sat s"

lemma run_prover_pm_rom:
  "run_portal prover_pm_get prover_pm_set p (RomPm s)
     = result_map (\<lambda>(x, s'). (x, RomPm s')) (run_portal rom_prover_get rom_prover_set p s)"
proof (induction p arbitrary: s)
  case (Get n c)
  then show ?case by (cases "rom_prover_get n s") (auto simp: split_def)
next
  case (Set n v p)
  then show ?case by (cases "rom_prover_set n v s") auto
qed simp_all

lemma run_prover_pm_ram:
  "run_portal prover_pm_get prover_pm_set p (RamPm s)
     = result_map (\<lambda>(x, s'). (x, RamPm s')) (run_portal ram_prover_get ram_prover_set p s)"
proof (induction p arbitrary: s)
  case (Get n c)
  then show ?case by (cases "ram_prover_get n s") (auto simp: split_def)
next
  case (Set n v p)
  then show ?case by (cases "ram_prover_set n v s") auto
qed simp_all

section \<open>Recording all subcircuits\<close>

definition rom_setup_run :: "('f, bool) portal list \<Rightarrow> 'f setup_rom \<Rightarrow> failure + (bool \<times> 'f setup_rom)" where
  "rom_setup_run = setup_run setup_rom_start_subtrace setup_rom_get setup_rom_set"

definition ram_setup_run :: "('f, bool) portal list \<Rightarrow> 'f setup_ram \<Rightarrow> failure + (bool \<times> 'f setup_ram)" where
  "ram_setup_run = setup_run setup_ram_start_subtrace setup_ram_get setup_ram_set"

interpretation rom_recording: recording setup_rom_get setup_rom_set sr_subtraces rom_val
    rom_prover_get rom_prover_set rom_loaded rom_prover_after setup_rom_start_subtrace
  by unfold_locales (simp add: setup_rom_start_subtrace_def)

interpretation ram_recording: recording setup_ram_get setup_ram_set sm_subtraces ram_val
    ram_prover_get ram_prover_set ram_loaded ram_prover_after setup_ram_start_subtrace
  by unfold_locales (simp add: setup_ram_start_subtrace_def)

lemma rom_setup_run_inv:
  "rom_setup_run ps s = Inr (ok, s') \<Longrightarrow> setup_rom_inv s \<Longrightarrow> setup_rom_inv s'"
  unfolding rom_setup_run_def
  by (erule setup_run_invariant) (auto dest: setup_rom_inv_run)

lemma ram_setup_run_inv:
  "ram_setup_run ps s = Inr (ok, s') \<Longrightarrow> setup_ram_inv s \<Longrightarrow> setup_ram_inv s'"
  unfolding ram_setup_run_def
  by (erule setup_run_invariant) (auto dest: setup_ram_inv_run)

text \<open>
  The recorded run of all subcircuits is the evaluation of their programs on one abstract memory;
  it creates at most as many wires as the programs set.
\<close>

fun eval_run :: "bool \<Rightarrow> ('f, bool) portal list \<Rightarrow> (string \<rightharpoonup> 'f) \<Rightarrow> failure + bool \<times> (string \<rightharpoonup> 'f)" where
  "eval_run rw [] m = Inr (True, m)"
| "eval_run rw (p # ps) m =
     rbind (eval_portal rw p m) (\<lambda>(ok, m). rbind (eval_run rw ps m) (\<lambda>(ok', m). Inr (ok \<and> ok', m)))"

lemma eval_run_append:
  "eval_run rw (ps @ qs) m =
     rbind (eval_run rw ps m) (\<lambda>(b, m). rbind (eval_run rw qs m) (\<lambda>(ok, m). Inr (b \<and> ok, m)))"
  by (induction ps arbitrary: m) (simp_all add: rbind_assoc split_def conj_assoc rbind_def split: sum.split)

lemma rom_setup_run_eval:
  "case rom_setup_run ps s of
     Inl _ \<Rightarrow> \<exists>e. eval_run False ps (setup_rom_store s) = Inl e
   | Inr (ok, s') \<Rightarrow> eval_run False ps (setup_rom_store s) = Inr (ok, setup_rom_store s')"
proof (induction ps arbitrary: s)
  case Nil
  then show ?case by (simp add: rom_setup_run_def)
next
  case (Cons p ps)
  let ?s = "setup_rom_start_subtrace s"
  have store: "setup_rom_store ?s = setup_rom_store s" "setup_rom_ready ?s"
    by (simp_all add: setup_rom_store_def setup_rom_start_subtrace_def setup_rom_ready_def fun_eq_iff)
  note run = rom_pm.run_refines [OF store(2), of p, unfolded store(1)]
  show ?case
  proof (cases "run_portal setup_rom_get setup_rom_set p ?s")
    case (Inl e)
    with run show ?thesis by (auto simp: rom_setup_run_def)
  next
    case (Inr r)
    then obtain b s1 where "run_portal setup_rom_get setup_rom_set p ?s = Inr (b, s1)" by (cases r) auto
    with run Cons.IH [of s1] show ?thesis by (auto simp: rom_setup_run_def split: sum.splits)
  qed
qed

lemma setup_rom_store_new [simp]: "setup_rom_store setup_rom_new = Map.empty"
  by (simp add: setup_rom_store_def setup_rom_new_def fun_eq_iff)

lemma rom_setup_run_size:
  "list_all2 sets_at_most ps ks \<Longrightarrow> rom_setup_run ps s = Inr (ok, s') \<Longrightarrow> finite (dom (sr_var_map s)) \<Longrightarrow>
     card (dom (sr_var_map s')) \<le> card (dom (sr_var_map s)) + sum_list ks"
proof (induction ps ks arbitrary: s ok rule: list_all2_induct)
  case Nil
  then show ?case by (simp add: rom_setup_run_def)
next
  case (Cons p ps k ks)
  have start: "sr_var_map (setup_rom_start_subtrace s) = sr_var_map s" by (simp add: setup_rom_start_subtrace_def)
  from Cons.prems(1) obtain b s1 ok' where
    r: "run_portal setup_rom_get setup_rom_set p (setup_rom_start_subtrace s) = Inr (b, s1)"
    "rom_setup_run ps s1 = Inr (ok', s')"
    by (auto simp: rom_setup_run_def res_simps)
  from setup_rom_size [OF r(1) Cons.hyps(1)] start Cons.prems(2) Cons.IH [OF r(2)] show ?case by simp
qed

text \<open>A wire in the final memory has an entry in the trace.\<close>

lemma rom_setup_run_nonempty:
  assumes "rom_setup_run ps setup_rom_new = Inr (ok, s)" and "setup_rom_store s n \<noteq> None"
  shows "concat (sr_subtraces s) \<noteq> []"
proof -
  obtain e where "sr_var_map s n = Some e" using assms(2) by (auto simp: setup_rom_store_def)
  then have "e \<in> ran (sr_var_map s)" by (rule ranI)
  moreover have "setup_rom_inv s" using rom_setup_run_inv [OF assms(1)] by simp
  ultimately have "e \<in> set (concat (sr_subtraces s))" by (simp only: setup_rom_inv_def)
  then show ?thesis by (metis empty_iff empty_set)
qed

text \<open>The same for read-write portals. Every access adds one entry and at most one address.\<close>

lemma ram_setup_run_eval:
  "case ram_setup_run ps s of
     Inl _ \<Rightarrow> \<exists>e. eval_run True ps (sm_var_map s) = Inl e
   | Inr (ok, s') \<Rightarrow> eval_run True ps (sm_var_map s) = Inr (ok, sm_var_map s')"
proof (induction ps arbitrary: s)
  case Nil
  then show ?case by (simp add: ram_setup_run_def)
next
  case (Cons p ps)
  let ?s = "setup_ram_start_subtrace s"
  have store: "sm_var_map ?s = sm_var_map s" "setup_ram_ready ?s"
    by (simp_all add: setup_ram_start_subtrace_def setup_ram_ready_def)
  note run = ram_pm.run_refines [OF store(2), of p, unfolded store(1)]
  show ?case
  proof (cases "run_portal setup_ram_get setup_ram_set p ?s")
    case (Inl e)
    with run show ?thesis by (auto simp: ram_setup_run_def)
  next
    case (Inr r)
    then obtain b s1 where "run_portal setup_ram_get setup_ram_set p ?s = Inr (b, s1)" by (cases r) auto
    with run Cons.IH [of s1] show ?thesis by (auto simp: ram_setup_run_def split: sum.splits)
  qed
qed

lemma ram_setup_run_addresses:
  "ram_setup_run ps s = Inr (ok, s') \<Longrightarrow> setup_ram_addresses_ok s \<Longrightarrow> setup_ram_addresses_ok s'"
  unfolding ram_setup_run_def
  by (erule setup_run_invariant) (auto dest: setup_ram_addresses_run)

lemma ram_setup_run_size:
  "list_all2 accesses_at_most ps ks \<Longrightarrow> ram_setup_run ps s = Inr (ok, s') \<Longrightarrow>
     length (concat (sm_subtraces s')) \<le> length (concat (sm_subtraces s)) + sum_list ks"
proof (induction ps ks arbitrary: s ok rule: list_all2_induct)
  case Nil
  then show ?case by (simp add: ram_setup_run_def)
next
  case (Cons p ps k ks)
  have start: "concat (sm_subtraces (setup_ram_start_subtrace s)) = concat (sm_subtraces s)"
    by (simp add: setup_ram_start_subtrace_def)
  from Cons.prems obtain b s1 ok' where
    r: "run_portal setup_ram_get setup_ram_set p (setup_ram_start_subtrace s) = Inr (b, s1)"
    "ram_setup_run ps s1 = Inr (ok', s')"
    by (auto simp: ram_setup_run_def res_simps)
  from setup_ram_size [OF r(1) Cons.hyps(1)] start Cons.IH [OF r(2)] show ?case by simp
qed

lemma ram_setup_run_nonempty:
  assumes "ram_setup_run ps setup_ram_new = Inr (ok, s)" and "sm_var_map s n \<noteq> None"
  shows "concat (sm_subtraces s) \<noteq> []"
proof
  assume "concat (sm_subtraces s) = []"
  moreover have "setup_ram_addresses_ok s" "setup_ram_inv s"
    using ram_setup_run_addresses [OF assms(1)] ram_setup_run_inv [OF assms(1)] by simp_all
  ultimately have "dom (sm_var_map s) = {}"
    unfolding setup_ram_addresses_ok_def setup_ram_inv_def Let_def by (simp del: concat_eq_Nil_conv dom_eq_empty_conv)
  with assms(2) show False by simp
qed

text \<open>Programs that differ only in their result record the same trace.\<close>

lemma setup_run_forget:
  assumes "list_all2 (\<lambda>p q. pbind p (\<lambda>_. Return True) = q) ps qs"
    and "setup_run start sg ss ps s = Inr (ok, s')"
  shows "setup_run start sg ss qs s = Inr (True, s')"
  using assms
proof (induction ps qs arbitrary: s ok rule: list_all2_induct)
  case (Cons p ps q qs)
  then obtain b s1 ok' where r: "run_portal sg ss p (start s) = Inr (b, s1)" "setup_run start sg ss ps s1 = Inr (ok', s')"
    by (auto simp: res_simps)
  have "run_portal sg ss q (start s) = Inr (True, s1)"
    using Cons.hyps(1) r(1) run_portal_bind [of sg ss p "\<lambda>_. Return True"] by auto
  with Cons.IH [OF r(2)] show ?case by simp
qed simp

end
