(* ===== verification/Exec_Tree.thy ===== *)
theory Exec_Tree
  imports Transcript "HOL-Library.Product_Lexorder"
begin

text \<open>
  The execution tree: its leaves (\<open>distributed-prover/src/eval_tree.rs\<close>), the address sort of the
  subtraces and the tree construction (\<open>sort_subtraces_by_addr\<close> and \<open>generate_exec_tree\<close> of
  \<open>distributed-prover/src/coordinator.rs\<close>). The Merkle tree library is a parameter.
\<close>

section \<open>Leaves\<close>

record 'f exec_leaf =
  leaf_evals :: "'f running_evaluation"
  leaf_last :: "'f transcript_entry"

definition leaf_default :: "'f::field exec_leaf" where
  "leaf_default = \<lparr>leaf_evals = eval_default Rom, leaf_last = entry_padding Rom\<rparr>"

definition leaf_padding :: "mem_type \<Rightarrow> 'f::field exec_leaf" where
  "leaf_padding mem_type = \<lparr>leaf_evals = eval_default mem_type, leaf_last = entry_padding mem_type\<rparr>"

definition leaf_to_field_elements :: "'f::field exec_leaf \<Rightarrow> 'f list" where
  "leaf_to_field_elements l =
     concat [[time_ordered_eval (leaf_evals l)], [addr_ordered_eval (leaf_evals l)],
             entry_to_field_elements (leaf_last l)]"

record 'f exec_leaf_var =
  leafv_evals :: "'f running_evaluation_var"
  leafv_last :: "'f transcript_entry_var"

definition leaf_to_constraint_field :: "'f::field exec_leaf_var \<Rightarrow> 'f list" where
  "leaf_to_constraint_field l =
     concat [[time_ordered_eval_var (leafv_evals l)], [addr_ordered_eval_var (leafv_evals l)],
             entry_to_constraint_field (leafv_last l)]"

definition leaf_new_variable :: "'f::field exec_leaf \<Rightarrow> 'f exec_leaf_var" where
  "leaf_new_variable l =
     \<lparr>leafv_evals = eval_new_variable (leaf_evals l), leafv_last = entry_new_variable (leaf_last l)\<rparr>"

definition leaf_var_value :: "('f \<Rightarrow> nat) \<Rightarrow> 'f exec_leaf_var \<Rightarrow> failure + 'f exec_leaf" where
  "leaf_var_value repr l =
     rbind (entry_var_value repr (leafv_last l)) (\<lambda>e.
       Inr \<lparr>leaf_evals = eval_var_value (leafv_evals l), leaf_last = e\<rparr>)"

definition leaf_var_to_bytes :: "('f \<Rightarrow> u8 list) \<Rightarrow> 'f exec_leaf_var \<Rightarrow> failure + u8 list" where
  "leaf_var_to_bytes fp_bytes l =
     rbind (entry_var_to_bytes fp_bytes (leafv_last l)) (\<lambda>bs.
       Inr (concat [eval_var_to_bytes fp_bytes (leafv_evals l), bs]))"

section \<open>The Merkle tree library\<close>

text \<open>
  \<open>MerkleTree::new\<close>, \<open>root\<close>, \<open>generate_proof\<close> and the gadget \<open>verify_membership\<close> of the
  library, with the hash parameters fixed, and the digest a fresh prover starts with.
\<close>

record ('f, 'tree, 'dig, 'path) merkle_lib =
  mt_new :: "'f list list \<Rightarrow> 'tree option"
  mt_root :: "'tree \<Rightarrow> 'dig"
  mt_proof :: "'tree \<Rightarrow> nat \<Rightarrow> 'path option"
  mt_verify :: "'path \<Rightarrow> 'dig \<Rightarrow> 'f list \<Rightarrow> bool"
  mt_default_path :: "nat \<Rightarrow> 'path"
  mt_default_root :: 'dig

text \<open>Every leaf of a tree has a proof, and it verifies.\<close>

definition merkle_complete :: "('f, 'tree, 'dig, 'path) merkle_lib \<Rightarrow> bool" where
  "merkle_complete ml \<longleftrightarrow>
     (\<forall>leaves t i. mt_new ml leaves = Some t \<longrightarrow> i < length leaves \<longrightarrow>
        (\<exists>p. mt_proof ml t i = Some p \<and> mt_verify ml p (mt_root ml t) (leaves ! i)))"

section \<open>Sorting the subtraces\<close>

definition sort_subtraces_by_addr :: "'f transcript_entry list list \<Rightarrow> failure + 'f transcript_entry list list" where
  "sort_subtraces_by_addr time_ordered_subtraces =
     (let flat_trace = concat time_ordered_subtraces in
      rbind (vindex flat_trace 0) (\<lambda>first.
        let sorted_trace = (case first of
              RomEntry _ \<Rightarrow> sort_key entry_addr flat_trace
            | RamEntry _ \<Rightarrow> sort_key (\<lambda>e. (entry_addr e, entry_timestamp e)) flat_trace)
        in Inr (cut_by (map length time_ordered_subtraces) sorted_trace)))"

section \<open>Building the tree\<close>

definition absorb_entries ::
    "'f::field transcript_entry \<times> 'f transcript_entry \<Rightarrow> 'f running_evaluation \<times> 'f transcript_entry
      \<Rightarrow> failure + 'f running_evaluation \<times> 'f transcript_entry" where
  "absorb_entries es acc =
     (case es of (time_entry, addr_entry) \<Rightarrow> case acc of (evals, last_subtrace_entry) \<Rightarrow>
        rbind (eval_update_time_ordered time_entry evals) (\<lambda>evals1.
        rbind (eval_update_addr_ordered addr_entry evals1) (\<lambda>evals2. Inr (evals2, addr_entry))))"

fun exec_leaves ::
    "('f::field transcript_entry list \<times> 'f transcript_entry list) list
      \<Rightarrow> 'f running_evaluation \<Rightarrow> 'f transcript_entry \<Rightarrow> failure + 'f exec_leaf list" where
  "exec_leaves [] evals last_subtrace_entry = Inr []"
| "exec_leaves ((time_st, addr_st) # rest) evals last_subtrace_entry =
     rbind (rfold absorb_entries (zip time_st addr_st) (evals, last_subtrace_entry)) (\<lambda>(evals', last').
     rbind (exec_leaves rest evals' last') (\<lambda>leaves.
       Inr (\<lparr>leaf_evals = evals', leaf_last = last'\<rparr> # leaves)))"

definition generate_exec_tree ::
    "(u8 list \<Rightarrow> u8 list) \<Rightarrow> ('com \<Rightarrow> u8 list) \<Rightarrow> ('f::field, 'tree, 'dig, 'path) merkle_lib \<Rightarrow> mem_type \<Rightarrow> 'com
      \<Rightarrow> 'f transcript_entry list list \<Rightarrow> 'f transcript_entry list list \<Rightarrow> failure + 'tree \<times> 'f exec_leaf list" where
  "generate_exec_tree sha256 serialize ml mem_type super_com time_sts addr_sts =
     rbind (exec_leaves (zip time_sts addr_sts) (eval_new sha256 serialize mem_type super_com)
              (entry_padding mem_type)) (\<lambda>leaves.
     rbind (unwrap ''MerkleTree::new'' (mt_new ml (map leaf_to_field_elements leaves))) (\<lambda>tree.
       Inr (tree, leaves)))"

section \<open>Leaf variables\<close>

text \<open>An allocated leaf hashes like the native one.\<close>

lemma entry_constraint_field_new:
  "(case e of RamEntry w \<Rightarrow> u32_wf (ram_i w) | RomEntry r \<Rightarrow> True) \<Longrightarrow>
     entry_to_constraint_field (entry_new_variable e) = entry_to_field_elements e"
  by (cases e) (simp_all add: rom_to_constraint_field_def rom_to_field_elements_def rom_entry_new_variable_def
      ram_to_constraint_field_def ram_to_field_elements_def ram_entry_new_variable_def as_field_elem_eq to_fpvar_def)

lemma eval_new_variable_evals [simp]:
  "time_ordered_eval_var (eval_new_variable ev) = time_ordered_eval ev"
  "addr_ordered_eval_var (eval_new_variable ev) = addr_ordered_eval ev"
  by (cases ev; simp add: rom_evals_new_variable_def ram_evals_new_variable_def)+

definition entry_wf :: "'f transcript_entry \<Rightarrow> bool" where
  "entry_wf e \<longleftrightarrow> (case e of RamEntry w \<Rightarrow> u32_wf (ram_i w) | RomEntry r \<Rightarrow> True)"

lemma leaf_constraint_field_new:
  "entry_wf (leaf_last l) \<Longrightarrow> leaf_to_constraint_field (leaf_new_variable l) = leaf_to_field_elements l"
  by (simp add: leaf_to_constraint_field_def leaf_new_variable_def leaf_to_field_elements_def
      entry_constraint_field_new entry_wf_def)

section \<open>What sorting and tree building compute\<close>

lemma sort_subtraces_by_addr_eq:
  assumes "sort_subtraces_by_addr sts = Inr out"
  shows "concat out = (case hd (concat sts) of
            RomEntry _ \<Rightarrow> sort_key entry_addr (concat sts)
          | RamEntry _ \<Rightarrow> sort_key (\<lambda>e. (entry_addr e, entry_timestamp e)) (concat sts))
     \<and> map length out = map length sts \<and> concat sts \<noteq> []"
proof -
  let ?f = "\<lambda>first. (case first of RomEntry _ \<Rightarrow> sort_key entry_addr (concat sts)
          | RamEntry _ \<Rightarrow> sort_key (\<lambda>e. (entry_addr e, entry_timestamp e)) (concat sts))"
  from assms have ne: "concat sts \<noteq> []" and out: "out = cut_by (map length sts) (?f (concat sts ! 0))"
    by (auto simp: sort_subtraces_by_addr_def Let_def res_simps)
  have "sum_list (map length sts) = length (?f (concat sts ! 0))"
    by (simp add: length_concat split: transcript_entry.split)
  then have "concat out = ?f (concat sts ! 0)" "map length out = map length sts"
    unfolding out by (simp_all add: concat_cut_by map_length_cut_by)
  with ne show ?thesis by (simp add: hd_conv_nth)
qed

lemma sort_subtraces_by_addr_perm:
  assumes "sort_subtraces_by_addr sts = Inr out"
  shows "map length out = map length sts \<and> mset (concat out) = mset (concat sts)"
  using sort_subtraces_by_addr_eq [OF assms] by (auto split: transcript_entry.splits)

text \<open>
  The address sort. The sorted subtraces have the sizes of the time-ordered ones, contain the
  same entries overall, and their concatenation is ordered by address; the call panics exactly on an
  empty trace.
\<close>

theorem sort_subtraces_by_addr_sorts:
  "(case sort_subtraces_by_addr sts of
      Inl e \<Rightarrow> concat sts = []
    | Inr out \<Rightarrow> concat sts \<noteq> [] \<and> map length out = map length sts \<and> mset (concat out) = mset (concat sts)
        \<and> sorted (map entry_addr (concat out)))"
proof (cases "sort_subtraces_by_addr sts")
  case (Inl e)
  have "concat sts = []"
  proof (rule ccontr)
    assume "concat sts \<noteq> []"
    with Inl show False by (simp add: sort_subtraces_by_addr_def Let_def)
  qed
  with Inl show ?thesis by simp
next
  case (Inr out)
  have "sorted (map entry_addr (sort_key (\<lambda>e. (entry_addr e, entry_timestamp e)) es))" for es :: "'a transcript_entry list"
  proof -
    have "sorted (map (\<lambda>e. (entry_addr e, entry_timestamp e)) (sort_key (\<lambda>e. (entry_addr e, entry_timestamp e)) es))"
      by simp
    then show ?thesis
      unfolding sorted_map by (rule sorted_wrt_mono_rel [rotated]) auto
  qed
  with sort_subtraces_by_addr_eq [OF Inr] Inr show ?thesis
    by (auto split: transcript_entry.splits)
qed


section \<open>The leaves in closed form\<close>

fun eval_put :: "'f \<Rightarrow> 'f \<Rightarrow> 'f running_evaluation \<Rightarrow> 'f running_evaluation" where
  "eval_put t a (RomEval ev) = RomEval (ev\<lparr>rom_time_eval := t, rom_addr_eval := a\<rparr>)"
| "eval_put t a (RamEval ev) = RamEval (ev\<lparr>ram_time_eval := t, ram_addr_eval := a\<rparr>)"

lemma eval_put_simps [simp]:
  "time_ordered_eval (eval_put t a ev) = t" "addr_ordered_eval (eval_put t a ev) = a"
  "eval_kind (eval_put t a ev) = eval_kind ev" "has_challenges (eval_put t a ev) = has_challenges ev"
  "eval_challenges (eval_put t a ev) = eval_challenges ev"
  "eval_put t a (eval_put t' a' ev) = eval_put t a ev"
  by (cases ev; simp)+

lemma eval_repr_put [simp]: "eval_repr (eval_put t a ev) = eval_repr ev"
proof
  fix e show "eval_repr (eval_put t a ev) e = eval_repr ev e" by (cases ev; cases e) simp_all
qed

lemma eval_update_put:
  assumes "entry_kind e = eval_kind ev" and "has_challenges ev"
  shows "eval_update_time_ordered e ev = Inr (eval_put (time_ordered_eval ev * eval_repr ev e) (addr_ordered_eval ev) ev)"
    and "eval_update_addr_ordered e ev = Inr (eval_put (time_ordered_eval ev) (addr_ordered_eval ev * eval_repr ev e) ev)"
  using assms by (cases e; cases ev; auto simp: eval_update_eqs)+

definition chunk_prod :: "'f::field running_evaluation \<Rightarrow> 'f transcript_entry list \<Rightarrow> 'f" where
  "chunk_prod ev es = prod_list (map (eval_repr ev) es)"

lemma chunk_prod_simps [simp]:
  "chunk_prod ev [] = 1" "chunk_prod ev (e # es) = eval_repr ev e * chunk_prod ev es"
  "chunk_prod ev (es @ fs) = chunk_prod ev es * chunk_prod ev fs"
  "chunk_prod (eval_put t a ev) es = chunk_prod ev es"
  by (simp_all add: chunk_prod_def)

lemma chunk_prod_perm: "mset es = mset fs \<Longrightarrow> chunk_prod ev es = chunk_prod ev fs"
  unfolding chunk_prod_def by (metis mset_map prod_mset_prod_list)

lemma absorb_fold:
  assumes "length ts = length as" and "\<forall>e \<in> set ts \<union> set as. entry_kind e = eval_kind ev" and "has_challenges ev"
  shows "rfold absorb_entries (zip ts as) (ev, l)
     = Inr (eval_put (time_ordered_eval ev * chunk_prod ev ts) (addr_ordered_eval ev * chunk_prod ev as) ev, last (l # as))"
  using assms
proof (induction ts as arbitrary: ev l rule: list_induct2)
  case Nil
  then show ?case by (cases ev) simp_all
next
  case (Cons t ts a as)
  let ?ev = "eval_put (time_ordered_eval ev * eval_repr ev t) (addr_ordered_eval ev * eval_repr ev a) ev"
  have "absorb_entries (t, a) (ev, l) = Inr (?ev, a)"
    using Cons.prems by (simp add: absorb_entries_def eval_update_put)
  with Cons.IH [of ?ev a] Cons.prems show ?case by (simp add: mult.assoc)
qed

definition chunk_leaf ::
    "'f::field running_evaluation \<Rightarrow> 'f transcript_entry \<Rightarrow> 'f transcript_entry list \<Rightarrow> 'f transcript_entry list \<Rightarrow> 'f exec_leaf" where
  "chunk_leaf ev l ts as =
     \<lparr>leaf_evals = eval_put (time_ordered_eval ev * chunk_prod ev ts) (addr_ordered_eval ev * chunk_prod ev as) ev,
      leaf_last = last (l # as)\<rparr>"

lemma exec_leaves_closed:
  assumes "\<forall>(ts, as) \<in> set cks. length ts = length as \<and> (\<forall>e \<in> set ts \<union> set as. entry_kind e = eval_kind ev)"
    and "has_challenges ev"
  shows "exec_leaves cks ev l = Inr (map (\<lambda>i. chunk_leaf ev l (concat (map fst (take (Suc i) cks)))
            (concat (map snd (take (Suc i) cks)))) [0..<length cks])"
  using assms
proof (induction cks arbitrary: ev l)
  case Nil
  then show ?case by simp
next
  case (Cons c cks)
  obtain ts as where c: "c = (ts, as)" by (cases c)
  let ?ev = "eval_put (time_ordered_eval ev * chunk_prod ev ts) (addr_ordered_eval ev * chunk_prod ev as) ev"
  have abs: "rfold absorb_entries (zip ts as) (ev, l) = Inr (?ev, last (l # as))"
    using Cons.prems c by (intro absorb_fold) auto
  have IH: "exec_leaves cks ?ev (last (l # as)) = Inr (map (\<lambda>i. chunk_leaf ?ev (last (l # as))
      (concat (map fst (take (Suc i) cks))) (concat (map snd (take (Suc i) cks)))) [0..<length cks])"
    using Cons.prems c by (intro Cons.IH) auto
  have shift: "chunk_leaf ?ev (last (l # as)) us vs = chunk_leaf ev l (ts @ us) (as @ vs)" for us vs
    by (simp add: chunk_leaf_def mult.assoc last_append)
  have "[0..<length (c # cks)] = 0 # map Suc [0..<length cks]"
    by (simp add: upt_conv_Cons map_Suc_upt del: upt_Suc)
  moreover have "chunk_leaf ev l ts as = \<lparr>leaf_evals = ?ev, leaf_last = last (l # as)\<rparr>"
    by (simp add: chunk_leaf_def)
  ultimately show ?case
    using abs IH by (simp add: c shift o_def del: upt_Suc last.simps)
qed

end
