(* ===== verification/Subcircuit.thy ===== *)
theory Subcircuit
  imports Circuit Exec_Tree
begin

text \<open>
  The circuit that proves one subcircuit, \<open>distributed-prover/src/subcircuit_circuit.rs\<close>: stage 0
  witnesses the two subtraces, stage 1 takes the current leaf of the execution tree, runs the
  subcircuit against a prover's portal manager and shows that the resulting leaf is in the tree.
\<close>

section \<open>Definitions\<close>

record ('f, 'c, 'dig, 'path) subcircuit =
  sp_idx :: nat
  sp_circ :: "'c option"
  sp_time :: "'f transcript_entry list"
  sp_addr :: "'f transcript_entry list"
  sp_time_var :: "'f transcript_entry_var list"
  sp_addr_var :: "'f transcript_entry_var list"
  sp_cur_leaf :: "'f exec_leaf"
  sp_path :: 'path
  sp_challenges :: "'f list"
  sp_root :: 'dig

definition subcircuit_new ::
    "('f::field, 'c, 'p) circuit_ops \<Rightarrow> ('f, 'tree, 'dig, 'path) merkle_lib \<Rightarrow> nat
      \<Rightarrow> failure + ('f, 'c, 'dig, 'path) subcircuit" where
  "subcircuit_new ops ml num_subcircuits =
     rbind (rbind (log2 num_subcircuits) (\<lambda>l. usub l 1)) (\<lambda>auth_path_len.
       let challenges_len = (case op_mem_type ops of Rom \<Rightarrow> 2 | Ram \<Rightarrow> 4) in
       Inr \<lparr>sp_idx = 0, sp_circ = None, sp_time = [], sp_addr = [], sp_time_var = [], sp_addr_var = [],
            sp_cur_leaf = leaf_padding (op_mem_type ops), sp_path = mt_default_path ml auth_path_len,
            sp_challenges = replicate challenges_len 0, sp_root = mt_default_root ml\<rparr>)"

text \<open>Stage 0.\<close>

definition subcircuit_stage0 ::
    "('f::field, 'c, 'dig, 'path) subcircuit \<Rightarrow> ('f, 'c, 'dig, 'path) subcircuit" where
  "subcircuit_stage0 sp =
     sp\<lparr>sp_time_var := map entry_new_variable (sp_time sp), sp_addr_var := map entry_new_variable (sp_addr sp)\<rparr>"

text \<open>
  Stage 1. The result is the truth of all enforced constraints; \<open>carry\<close> stands for the witnesses
  of the timestamp increments.
\<close>

definition subcircuit_stage1 ::
    "('f::field, 'c, 'p) circuit_ops \<Rightarrow> ('f, 'tree, 'dig, 'path) merkle_lib \<Rightarrow> (nat \<Rightarrow> bool)
      \<Rightarrow> ('f, 'c, 'dig, 'path) subcircuit \<Rightarrow> failure + bool" where
  "subcircuit_stage1 ops ml carry sp =
     (let cur_leaf_var = leaf_new_variable (sp_cur_leaf sp) in
      rbind (if sp_idx sp = 0 then
               rbind (entry_is_padding (leafv_last cur_leaf_var)) (\<lambda>pad.
                 Inr (time_ordered_eval_var (leafv_evals cur_leaf_var) = 1
                      \<and> addr_ordered_eval_var (leafv_evals cur_leaf_var) = 1 \<and> pad = True))
             else Inr True) (\<lambda>first_ok.
      rbind (set_challenges (sp_challenges sp) (leafv_evals cur_leaf_var)) (\<lambda>running_evals_var.
      let full_addr_ordered_subtrace = leafv_last cur_leaf_var # sp_addr_var sp;
          last_subtrace_entry = last full_addr_ordered_subtrace in
      rbind (prover_pm_new (op_mem_type ops) carry (sp_time_var sp) full_addr_ordered_subtrace running_evals_var) (\<lambda>pm.
      rbind (unwrap ''must provide circuit for stage 1 computation'' (sp_circ sp)) (\<lambda>circ.
      rbind (run_portal prover_pm_get prover_pm_set (op_generate ops circ (sp_idx sp)) pm) (\<lambda>(circ_ok, pm').
      let next_leaf = \<lparr>leafv_evals = prover_pm_running_evals pm', leafv_last = last_subtrace_entry\<rparr>;
          member_ok = mt_verify ml (sp_path sp) (sp_root sp) (leaf_to_constraint_field next_leaf) in
      rbind (usub (op_num_subcircuits ops circ) 1) (\<lambda>last_idx.
      let final_ok = (sp_idx sp = last_idx \<longrightarrow>
            time_ordered_eval_var (leafv_evals next_leaf) = addr_ordered_eval_var (leafv_evals next_leaf))
      in Inr (first_ok \<and> prover_pm_sat pm' \<and> circ_ok \<and> member_ok \<and> final_ok))))))))"

definition subcircuit_generate ::
    "('f::field, 'c, 'p) circuit_ops \<Rightarrow> ('f, 'tree, 'dig, 'path) merkle_lib \<Rightarrow> (nat \<Rightarrow> bool) \<Rightarrow> nat
      \<Rightarrow> ('f, 'c, 'dig, 'path) subcircuit \<Rightarrow> failure + (('f, 'c, 'dig, 'path) subcircuit \<times> bool)" where
  "subcircuit_generate ops ml carry stage sp =
     (if stage = 0 then Inr (subcircuit_stage0 sp, True)
      else if stage > 1 then Inl (Panic ''there are only two stages in the subcircuit prover'')
      else rbind (subcircuit_stage1 ops ml carry sp) (\<lambda>ok. Inr (sp, ok)))"

definition total_num_stages :: nat where
  "total_num_stages = 2"

end
