(* ===== verification/Coordinator.thy ===== *)
theory Coordinator
  imports Subcircuit
begin

text \<open>
  The coordinator, \<open>distributed-prover/src/coordinator.rs\<close>: it traces the whole circuit, asks the
  workers for stage 0 commitments, builds the execution tree from the commitment to the commitments,
  asks for stage 1 proofs and aggregates them. Groth16 key generation, the inner-pairing commitment and
  the aggregation are parameters.
\<close>

section \<open>Key generation\<close>

definition gen_pk_circuit ::
    "('f::field, 'c, 'p) circuit_ops \<Rightarrow> ('f, 'tree, 'dig, 'path) merkle_lib \<Rightarrow> 'c
      \<Rightarrow> 'f transcript_entry list list \<Rightarrow> nat \<Rightarrow> failure + ('f, 'c, 'dig, 'path) subcircuit" where
  "gen_pk_circuit ops ml circ time_ordered_subtraces subcircuit_idx =
     rbind (vindex time_ordered_subtraces subcircuit_idx) (\<lambda>subtrace.
     rbind (subcircuit_new ops ml (op_num_subcircuits ops circ)) (\<lambda>subcirc.
       Inr (subcirc\<lparr>sp_idx := subcircuit_idx, sp_circ := Some circ,
                    sp_time := subtrace, sp_addr := subtrace\<rparr>)))"

section \<open>Stage 0\<close>

record ('f, 'p) coordinator0 =
  c0_time :: "'f transcript_entry list list"
  c0_addr :: "'f transcript_entry list list"
  c0_witnesses :: "u8 list list"
  c0_params :: 'p

record 'f stage0_request =
  r0_idx :: nat
  r0_time :: "'f transcript_entry list"
  r0_addr :: "'f transcript_entry list"

record ('com, 'seed) stage0_response =
  s0_idx :: nat
  s0_com :: 'com
  s0_seed :: 'seed

record 'proof stage1_response =
  s1_idx :: nat
  s1_proof :: 'proof

definition stage0_request_empty :: "'f stage0_request" where
  "stage0_request_empty = \<lparr>r0_idx = 0, r0_time = [], r0_addr = []\<rparr>"

definition coordinator0_new :: "('f, 'c, 'p) circuit_ops \<Rightarrow> 'c \<Rightarrow> failure + ('f, 'p) coordinator0" where
  "coordinator0_new ops circ =
     rbind (rmap (op_get_witnesses ops circ) [0..<op_num_subcircuits ops circ]) (\<lambda>all_serialized_witnesses.
     rbind (op_portal_subtraces ops circ) (\<lambda>time_ordered_subtraces.
     rbind (sort_subtraces_by_addr time_ordered_subtraces) (\<lambda>addr_ordered_subtraces.
       Inr \<lparr>c0_time = time_ordered_subtraces, c0_addr = addr_ordered_subtraces,
            c0_witnesses = all_serialized_witnesses, c0_params = op_get_params ops circ\<rparr>)))"

definition gen_request0 :: "('f, 'p) coordinator0 \<Rightarrow> nat \<Rightarrow> failure + 'f stage0_request" where
  "gen_request0 st subcircuit_idx =
     rbind (unwrap ''called `Option::unwrap()` on a `None` value'' (vget (c0_time st) subcircuit_idx)) (\<lambda>t.
     rbind (unwrap ''called `Option::unwrap()` on a `None` value'' (vget (c0_addr st) subcircuit_idx)) (\<lambda>a.
       Inr \<lparr>r0_idx = subcircuit_idx, r0_time = t, r0_addr = a\<rparr>))"

text \<open>
  The manual serialisation of a borrowed request. The serialisers of its fields are parameters; the
  owned request derives a deserialiser that reads the fields in declaration order.
\<close>

definition ser_request0 ::
    "(nat \<Rightarrow> u8 list) \<Rightarrow> ('f transcript_entry list \<Rightarrow> u8 list) \<Rightarrow> 'f stage0_request \<Rightarrow> u8 list" where
  "ser_request0 ser_usize ser_trace r = ser_usize (r0_idx r) @ ser_trace (r0_time r) @ ser_trace (r0_addr r)"

definition ser_request0_size ::
    "(nat \<Rightarrow> nat) \<Rightarrow> ('f transcript_entry list \<Rightarrow> nat) \<Rightarrow> 'f stage0_request \<Rightarrow> nat" where
  "ser_request0_size sz_usize sz_trace r = sz_usize (r0_idx r) + sz_trace (r0_time r) + sz_trace (r0_addr r)"

section \<open>Stage 1\<close>

record ('f, 'p, 'com, 'seed, 'scom, 'dig, 'path) coordinator1 =
  c1_time :: "'f transcript_entry list list"
  c1_addr :: "'f transcript_entry list list"
  c1_witnesses :: "u8 list list"
  c1_params :: 'p
  c1_coms :: "'com list"
  c1_seeds :: "'seed list"
  c1_super_com :: 'scom
  c1_leaves :: "'f exec_leaf list"
  c1_root :: 'dig
  c1_paths :: "'path list"

record ('f, 'p, 'dig, 'path) stage1_request =
  r1_idx :: nat
  r1_cur_leaf :: "'f exec_leaf"
  r1_path :: 'path
  r1_root :: 'dig
  r1_witnesses :: "u8 list"
  r1_params :: 'p

record ('f, 'scom) agg_state =
  ag_public_inputs :: "'f list"
  ag_super_com :: 'scom

definition coordinator1_new ::
    "(u8 list \<Rightarrow> u8 list) \<Rightarrow> ('scom \<Rightarrow> u8 list) \<Rightarrow> ('f::field, 'tree, 'dig, 'path) merkle_lib \<Rightarrow> mem_type
      \<Rightarrow> 'f transcript_entry list list \<Rightarrow> 'f transcript_entry list list \<Rightarrow> u8 list list \<Rightarrow> 'p
      \<Rightarrow> 'com list \<Rightarrow> 'seed list \<Rightarrow> 'scom \<Rightarrow> failure + ('f, 'p, 'com, 'seed, 'scom, 'dig, 'path) coordinator1" where
  "coordinator1_new sha256 serialize ml mt time_sts addr_sts wits params coms seeds super_com =
     rbind (generate_exec_tree sha256 serialize ml mt super_com time_sts addr_sts) (\<lambda>(exec_tree, tree_leaves).
     let num_subcircuits = length time_sts in
     rbind (rmap (\<lambda>i. unwrap ''invalid subcircuit idx'' (mt_proof ml exec_tree i)) [0..<num_subcircuits]) (\<lambda>paths.
       Inr \<lparr>c1_time = time_sts, c1_addr = addr_sts, c1_witnesses = wits, c1_params = params,
            c1_coms = coms, c1_seeds = seeds, c1_super_com = super_com, c1_leaves = tree_leaves,
            c1_root = mt_root ml exec_tree, c1_paths = paths\<rparr>))"

definition process_stage0_responses ::
    "(u8 list \<Rightarrow> u8 list) \<Rightarrow> ('scom \<Rightarrow> u8 list) \<Rightarrow> ('f::field, 'tree, 'dig, 'path) merkle_lib \<Rightarrow> mem_type
      \<Rightarrow> ('com list \<Rightarrow> failure + 'scom) \<Rightarrow> ('com, 'seed) stage0_response list \<Rightarrow> ('f, 'p) coordinator0
      \<Rightarrow> failure + ('f, 'p, 'com, 'seed, 'scom, 'dig, 'path) coordinator1" where
  "process_stage0_responses sha256 serialize ml mt commit_left responses st =
     (let buf = sort_key s0_idx responses;
          coms = map s0_com buf;
          com_seeds = map s0_seed buf
      in rbind (unwrap_res ''commit_only_left'' (commit_left coms)) (\<lambda>super_com.
         coordinator1_new sha256 serialize ml mt (c0_time st) (c0_addr st) (c0_witnesses st) (c0_params st)
           coms com_seeds super_com))"

definition gen_request1 ::
    "mem_type \<Rightarrow> ('f::field, 'p, 'com, 'seed, 'scom, 'dig, 'path) coordinator1 \<Rightarrow> nat
      \<Rightarrow> failure + ('f, 'p, 'dig, 'path) stage1_request" where
  "gen_request1 mt st subcircuit_idx =
     rbind (if subcircuit_idx > 0 then
              unwrap ''called `Option::unwrap()` on a `None` value'' (vget (c1_leaves st) (subcircuit_idx - 1))
            else
              (let leaf = leaf_padding mt in
               rbind (vindex (c1_leaves st) 0) (\<lambda>l0.
               rbind (copy_challenges_from (leaf_evals l0) (leaf_evals leaf)) (\<lambda>ev.
                 Inr (leaf\<lparr>leaf_evals := ev\<rparr>))))) (\<lambda>cur_leaf.
     rbind (vindex (c1_paths st) subcircuit_idx) (\<lambda>path.
     rbind (unwrap ''called `Option::unwrap()` on a `None` value'' (vget (c1_witnesses st) subcircuit_idx)) (\<lambda>wit.
       Inr \<lparr>r1_idx = subcircuit_idx, r1_cur_leaf = cur_leaf, r1_path = path, r1_root = c1_root st,
            r1_witnesses = wit, r1_params = c1_params st\<rparr>)))"

definition into_agg_state ::
    "('dig \<Rightarrow> 'f list) \<Rightarrow> ('f, 'p, 'com, 'seed, 'scom, 'dig, 'path) coordinator1 \<Rightarrow> failure + ('f, 'scom) agg_state" where
  "into_agg_state root_elems st =
     rbind (vindex (c1_leaves st) 0) (\<lambda>l0.
     rbind (eval_challenges (leaf_evals l0)) (\<lambda>chals.
       Inr \<lparr>ag_public_inputs = concat [chals, root_elems (c1_root st)], ag_super_com = c1_super_com st\<rparr>))"

definition gen_agg_proof ::
    "('scom \<Rightarrow> 'proof list \<Rightarrow> 'f list \<Rightarrow> 'agg) \<Rightarrow> ('f, 'scom) agg_state \<Rightarrow> 'proof stage1_response list \<Rightarrow> 'agg" where
  "gen_agg_proof agg_subcircuit_proofs ag resps =
     (let buf = sort_key s1_idx resps;
          g16_proofs = map s1_proof buf
      in agg_subcircuit_proofs (ag_super_com ag) g16_proofs (ag_public_inputs ag))"

definition ser_request1 ::
    "(nat \<Rightarrow> u8 list) \<Rightarrow> ('f exec_leaf \<Rightarrow> u8 list) \<Rightarrow> ('path \<Rightarrow> u8 list) \<Rightarrow> ('dig \<Rightarrow> u8 list) \<Rightarrow> (u8 list \<Rightarrow> u8 list)
      \<Rightarrow> ('p \<Rightarrow> u8 list) \<Rightarrow> ('f, 'p, 'dig, 'path) stage1_request \<Rightarrow> u8 list" where
  "ser_request1 ser_usize ser_leaf ser_path ser_root ser_bytes ser_params r =
     ser_usize (r1_idx r) @ ser_leaf (r1_cur_leaf r) @ ser_path (r1_path r) @ ser_root (r1_root r)
       @ ser_bytes (r1_witnesses r) @ ser_params (r1_params r)"

section \<open>Responses may arrive in any order\<close>

lemma sort_key_perm:
  assumes "mset xs = mset ys" and "distinct (map f xs)"
  shows "sort_key f xs = sort_key f ys"
proof (rule sort_key_inj_key_eq)
  show "mset xs = mset (sort_key f ys)" using assms(1) by simp
  show "inj_on f (set xs)" using assms(2) by (simp add: distinct_map)
qed simp

text \<open>
  The coordinator does not depend on the order in which workers answer: stage 0 responses and
  stage 1 responses with distinct subcircuit indices may be permuted without changing the stage 1
  state or the aggregated proof.
\<close>

theorem responses_order_irrelevant:
  assumes "mset rs0 = mset rs0'" and "distinct (map s0_idx rs0)"
    and "mset rs1 = mset rs1'" and "distinct (map s1_idx rs1)"
  shows "process_stage0_responses sha256 serialize ml mt commit_left rs0 st0
           = process_stage0_responses sha256 serialize ml mt commit_left rs0' st0
       \<and> gen_agg_proof agg ag rs1 = gen_agg_proof agg ag rs1'"
  using sort_key_perm [OF assms(1,2)] sort_key_perm [OF assms(3,4)]
  by (simp add: process_stage0_responses_def gen_agg_proof_def)

theorem responses_order_irrelevant_witness:
  "gen_agg_proof (\<lambda>c ps xs. ps) \<lparr>ag_public_inputs = [1 :: rat], ag_super_com = ()\<rparr>
       [\<lparr>s1_idx = 1, s1_proof = ''b''\<rparr>, \<lparr>s1_idx = 0, s1_proof = ''a''\<rparr>]
     = gen_agg_proof (\<lambda>c ps xs. ps) \<lparr>ag_public_inputs = [1 :: rat], ag_super_com = ()\<rparr>
       [\<lparr>s1_idx = 0, s1_proof = ''a''\<rparr>, \<lparr>s1_idx = 1, s1_proof = ''b''\<rparr>]"
  using responses_order_irrelevant
    [where ?rs0.0 = "[] :: (nat, nat) stage0_response list" and rs0' = "[]"
      and ?rs1.0 = "[\<lparr>s1_idx = 1, s1_proof = ''b''\<rparr>, \<lparr>s1_idx = 0, s1_proof = ''a''\<rparr>]"
      and rs1' = "[\<lparr>s1_idx = 0, s1_proof = ''a''\<rparr>, \<lparr>s1_idx = 1, s1_proof = ''b''\<rparr>]"
      and agg = "\<lambda>c ps xs. ps" and ag = "\<lparr>ag_public_inputs = [1 :: rat], ag_super_com = ()\<rparr>"]
  by simp

end
