(* ===== verification/Worker.thy ===== *)
theory Worker
  imports Coordinator
begin

text \<open>
  The worker, \<open>distributed-prover/src/worker.rs\<close>: it answers a stage 0 request with a commitment
  to the subtraces and a stage 1 request with a proof. The commitment and the proof of the commitment
  builder (\<open>Groth16.builder_commit\<close>, \<open>Groth16.builder_prove\<close>) are the parameters \<open>commit\<close>, which sees
  the seed and the synthesised stage 0, and \<open>prove\<close>, which sees the synthesised stage 1. Both may fail,
  with an error that the worker unwraps or with a panic of their own. The randomness of the proof, fresh
  for every request, belongs to \<open>prove\<close>: no other part of the worker reads it.
\<close>

definition process_stage0_request_get_cb ::
    "('f::field, 'c, 'p) circuit_ops \<Rightarrow> ('f, 'tree, 'dig, 'path) merkle_lib
      \<Rightarrow> ('seed \<Rightarrow> ('f, 'c, 'dig, 'path) subcircuit \<Rightarrow> failure + 'com \<times> 'rand) \<Rightarrow> 'seed \<Rightarrow> 'f stage0_request
      \<Rightarrow> failure + (('com, 'seed) stage0_response \<times> ('f, 'c, 'dig, 'path) subcircuit)" where
  "process_stage0_request_get_cb ops ml commit com_seed req =
     (let num_subcircuits = 2 in
      rbind (subcircuit_new ops ml num_subcircuits) (\<lambda>prover.
      let prover' = prover\<lparr>sp_idx := r0_idx req, sp_time := r0_time req, sp_addr := r0_addr req\<rparr> in
      rbind (subcircuit_generate ops ml (\<lambda>_. True) 0 prover') (\<lambda>(cb, ok).
      rbind (unwrap_res ''failed to commit to subtrace'' (commit com_seed cb)) (\<lambda>(com, rand).
      Inr (\<lparr>s0_idx = r0_idx req, s0_com = com, s0_seed = com_seed\<rparr>, cb)))))"

definition process_stage0_request ::
    "('f::field, 'c, 'p) circuit_ops \<Rightarrow> ('f, 'tree, 'dig, 'path) merkle_lib
      \<Rightarrow> ('seed \<Rightarrow> ('f, 'c, 'dig, 'path) subcircuit \<Rightarrow> failure + 'com \<times> 'rand) \<Rightarrow> 'seed \<Rightarrow> 'f stage0_request
      \<Rightarrow> failure + ('com, 'seed) stage0_response" where
  "process_stage0_request ops ml commit com_seed req =
     result_map fst (process_stage0_request_get_cb ops ml commit com_seed req)"

text \<open>Besides the response, the truth of the stage 1 constraints is returned.\<close>

definition process_stage1_request_with_cb ::
    "('f::field, 'c, 'p) circuit_ops \<Rightarrow> ('f, 'tree, 'dig, 'path) merkle_lib
      \<Rightarrow> (('f, 'c, 'dig, 'path) subcircuit \<Rightarrow> 'com list \<Rightarrow> 'rand list \<Rightarrow> failure + 'proof)
      \<Rightarrow> ('f, 'c, 'dig, 'path) subcircuit \<Rightarrow> 'com \<Rightarrow> 'rand \<Rightarrow> ('f, 'p, 'dig, 'path) stage1_request
      \<Rightarrow> failure + ('proof stage1_response \<times> bool)" where
  "process_stage1_request_with_cb ops ml prove cb com rand req =
     rbind (eval_challenges (leaf_evals (r1_cur_leaf req))) (\<lambda>challenges.
     rbind (ensure ''cb.circuit.subcircuit_idx == subcircuit_idx'' (sp_idx cb = r1_idx req)) (\<lambda>_.
     rbind (rbind (op_new ops (r1_params req)) (op_set_witnesses ops (r1_idx req) (r1_witnesses req))) (\<lambda>underlying_circuit.
     let cb' = cb\<lparr>sp_circ := Some underlying_circuit, sp_cur_leaf := r1_cur_leaf req, sp_path := r1_path req,
                  sp_root := r1_root req, sp_challenges := challenges\<rparr> in
     rbind (subcircuit_generate ops ml (\<lambda>_. True) 1 cb') (\<lambda>(cb'', ok).
     rbind (unwrap_res unwrap_err_msg (prove cb'' [com] [rand])) (\<lambda>proof.
       Inr (\<lparr>s1_idx = r1_idx req, s1_proof = proof\<rparr>, ok))))))"

definition process_stage1_request ::
    "('f::field, 'c, 'p) circuit_ops \<Rightarrow> ('f, 'tree, 'dig, 'path) merkle_lib
      \<Rightarrow> ('seed \<Rightarrow> ('f, 'c, 'dig, 'path) subcircuit \<Rightarrow> failure + 'com \<times> 'rand)
      \<Rightarrow> (('f, 'c, 'dig, 'path) subcircuit \<Rightarrow> 'com list \<Rightarrow> 'rand list \<Rightarrow> failure + 'proof)
      \<Rightarrow> 'f stage0_request \<Rightarrow> ('com, 'seed) stage0_response \<Rightarrow> ('f, 'p, 'dig, 'path) stage1_request
      \<Rightarrow> failure + ('proof stage1_response \<times> bool)" where
  "process_stage1_request ops ml commit prove req0 resp0 req1 =
     (let fake_auth_path_len = 2 in
      rbind (subcircuit_new ops ml fake_auth_path_len) (\<lambda>circ.
      let circ' = circ\<lparr>sp_idx := r0_idx req0, sp_time := r0_time req0, sp_addr := r0_addr req0\<rparr> in
      rbind (subcircuit_generate ops ml (\<lambda>_. True) 0 circ') (\<lambda>(cb, ok).
      rbind (unwrap_res unwrap_err_msg (commit (s0_seed resp0) cb)) (\<lambda>(com, rand).
      process_stage1_request_with_cb ops ml prove cb com rand req1))))"

section \<open>What the worker proves\<close>

text \<open>The prover a worker commits with, and the one it ends up with, given the two requests and the circuit it filled in.\<close>

definition committed_prover ::
    "('f::field, 'c, 'p) circuit_ops \<Rightarrow> ('f, 'tree, 'dig, 'path) merkle_lib \<Rightarrow> 'f stage0_request \<Rightarrow> ('f, 'c, 'dig, 'path) subcircuit" where
  "committed_prover ops ml req0 =
     \<lparr>sp_idx = r0_idx req0, sp_circ = None, sp_time = r0_time req0, sp_addr = r0_addr req0,
      sp_time_var = map entry_new_variable (r0_time req0), sp_addr_var = map entry_new_variable (r0_addr req0),
      sp_cur_leaf = leaf_padding (op_mem_type ops), sp_path = mt_default_path ml 0,
      sp_challenges = replicate (case op_mem_type ops of Rom \<Rightarrow> 2 | Ram \<Rightarrow> 4) 0, sp_root = mt_default_root ml\<rparr>"

definition worker_prover ::
    "'f::field stage0_request \<Rightarrow> ('f, 'p, 'dig, 'path) stage1_request \<Rightarrow> 'c \<Rightarrow> 'f list \<Rightarrow> ('f, 'c, 'dig, 'path) subcircuit" where
  "worker_prover req0 req1 circ chals =
     \<lparr>sp_idx = r0_idx req0, sp_circ = Some circ, sp_time = r0_time req0, sp_addr = r0_addr req0,
      sp_time_var = map entry_new_variable (r0_time req0), sp_addr_var = map entry_new_variable (r0_addr req0),
      sp_cur_leaf = r1_cur_leaf req1, sp_path = r1_path req1, sp_challenges = chals, sp_root = r1_root req1\<rparr>"

lemma log2_2 [simp]: "log2 2 = Inr 1"
  using log2_power [of 1] by simp

lemma committed_prover_eq:
  "rbind (subcircuit_new ops ml 2) (\<lambda>prover. subcircuit_generate ops ml carry 0
      (prover\<lparr>sp_idx := r0_idx req0, sp_time := r0_time req0, sp_addr := r0_addr req0\<rparr>))
     = Inr (committed_prover ops ml req0, True)"
  by (simp add: subcircuit_new_def subcircuit_generate_def subcircuit_stage0_def committed_prover_def Let_def)

text \<open>The two requests, with the commitment and the proof left to the library.\<close>

lemma process_stage0_request_get_cb_eq:
  "process_stage0_request_get_cb ops ml commit seed req =
     rbind (unwrap_res ''failed to commit to subtrace'' (commit seed (committed_prover ops ml req))) (\<lambda>(com, rand).
       Inr (\<lparr>s0_idx = r0_idx req, s0_com = com, s0_seed = seed\<rparr>, committed_prover ops ml req))"
  using committed_prover_eq [of ops ml "\<lambda>_. True" req]
  by (auto simp: process_stage0_request_get_cb_def Let_def rbind_Inr_iff)

lemma process_stage1_request_commits:
  "process_stage1_request ops ml commit prove req0 resp0 req1 =
     rbind (unwrap_res unwrap_err_msg (commit (s0_seed resp0) (committed_prover ops ml req0))) (\<lambda>(com, rand).
       process_stage1_request_with_cb ops ml prove (committed_prover ops ml req0) com rand req1)"
  using committed_prover_eq [of ops ml "\<lambda>_. True" req0]
  by (auto simp: process_stage1_request_def Let_def rbind_Inr_iff)

lemma process_stage1_request_with_cb_eq:
  assumes "eval_challenges (leaf_evals (r1_cur_leaf req1)) = Inr chals" and "r0_idx req0 = r1_idx req1"
    and "rbind (op_new ops (r1_params req1)) (op_set_witnesses ops (r1_idx req1) (r1_witnesses req1)) = Inr circ"
  shows "process_stage1_request_with_cb ops ml prove (committed_prover ops ml req0) com rand req1 =
     rbind (subcircuit_stage1 ops ml (\<lambda>_. True) (worker_prover req0 req1 circ chals)) (\<lambda>ok.
     rbind (unwrap_res unwrap_err_msg (prove (worker_prover req0 req1 circ chals) [com] [rand])) (\<lambda>proof.
       Inr (\<lparr>s1_idx = r1_idx req1, s1_proof = proof\<rparr>, ok)))"
proof -
  let ?w = "worker_prover req0 req1 circ chals"
  have "(committed_prover ops ml req0)\<lparr>sp_circ := Some circ, sp_cur_leaf := r1_cur_leaf req1, sp_path := r1_path req1,
      sp_root := r1_root req1, sp_challenges := chals\<rparr> = ?w"
    by (simp add: committed_prover_def worker_prover_def)
  moreover have "sp_idx (committed_prover ops ml req0) = r1_idx req1" by (simp add: committed_prover_def assms(2))
  ultimately show ?thesis
    using assms by (cases "subcircuit_stage1 ops ml (\<lambda>_. True) ?w")
      (simp_all add: process_stage1_request_with_cb_def subcircuit_generate_def Let_def)
qed

text \<open>Where committing and proving do not fail, the worker's answer depends on the constraints only.\<close>

lemma process_stage1_request_eq:
  assumes "eval_challenges (leaf_evals (r1_cur_leaf req1)) = Inr chals" and "r0_idx req0 = r1_idx req1"
    and "rbind (op_new ops (r1_params req1)) (op_set_witnesses ops (r1_idx req1) (r1_witnesses req1)) = Inr circ"
  shows "result_map snd (process_stage1_request ops ml (\<lambda>seed cb. Inr (commit seed cb)) (\<lambda>cb coms rands. Inr (prove cb coms rands)) req0 resp0 req1)
     = subcircuit_stage1 ops ml (\<lambda>_. True) (worker_prover req0 req1 circ chals)"
  by (cases "subcircuit_stage1 ops ml (\<lambda>_. True) (worker_prover req0 req1 circ chals)"; cases "commit (s0_seed resp0) (committed_prover ops ml req0)")
    (simp_all add: process_stage1_request_commits process_stage1_request_with_cb_eq [OF assms])

end
