(* ===== verification/Protocol.thy ===== *)
theory Protocol
  imports Worker
begin

text \<open>
  The protocol as a whole: coordinator, execution tree, workers and subcircuit circuits together. An
  honest run satisfies every subcircuit's constraints, for read-only and for read-write portals.
\<close>

section \<open>Stage 1 of one honest subcircuit\<close>

lemma chunk_prod_rom:
  "rom_challenges ev = Some (c, t) \<Longrightarrow>
     chunk_prod (RomEval ev) (map RomEntry es) = linear_prod t (map (rom_entry_repr c) es)"
  by (induction es) simp_all

lemma chunk_prod_ram:
  "ram_challenges ev = Some (c1, c2, c3, t) \<Longrightarrow>
     chunk_prod (RamEval ev) (map RamEntry es) = linear_prod t (map (ram_entry_repr c1 c2 c3) es)"
  by (induction es) simp_all

lemma map_rom_entry_new [simp]:
  "map entry_new_variable (map RomEntry es) = map RomEntryVar (map rom_entry_new_variable es)"
  by simp

lemma map_ram_entry_new [simp]:
  "map entry_new_variable (map RamEntry es) = map RamEntryVar (map ram_entry_new_variable es)"
  by simp

lemma rom_addr_new: "romv_addr (rom_entry_new_variable l) = of_nat (unat (rom_addr l))"
  by (simp add: rom_entry_new_variable_def)

lemma rom_stage1:
  fixes ev :: "'f::field rom_evals"
  assumes mt: "op_mem_type ops = Rom" and ev: "rom_challenges ev = Some (c, t)"
    and len: "length ts = length as" and n: "0 < op_num_subcircuits ops circ"
    and run: "\<And>r. rom_loaded ts r \<Longrightarrow> run_portal rom_prover_get rom_prover_set (op_generate ops circ i) r
                = Inr (ok, rom_prover_after (length ts) r)"
    and sp: "sp_idx sp = i" "sp_circ sp = Some circ" "sp_time_var sp = map entry_new_variable (map RomEntry ts)"
      "sp_addr_var sp = map entry_new_variable (map RomEntry as)" "sp_challenges sp = [c, t]"
      "sp_cur_leaf sp = \<lparr>leaf_evals = RomEval ev, leaf_last = RomEntry l\<rparr>"
  shows "subcircuit_stage1 ops ml carry sp = Inr
     ((i = 0 \<longrightarrow> rom_time_eval ev = 1 \<and> rom_addr_eval ev = 1 \<and> (of_nat (unat (rom_addr l)) :: 'f) = 0)
      \<and> rom_chain (map rom_entry_new_variable (l # as)) \<and> ok
      \<and> mt_verify ml (sp_path sp) (sp_root sp)
          (leaf_to_field_elements (chunk_leaf (RomEval ev) (RomEntry l) (map RomEntry ts) (map RomEntry as)))
      \<and> (i = op_num_subcircuits ops circ - 1 \<longrightarrow>
           rom_time_eval ev * chunk_prod (RomEval ev) (map RomEntry ts)
             = rom_addr_eval ev * chunk_prod (RomEval ev) (map RomEntry as)))"
proof -
  define r where "r = \<lparr>rp_time = map rom_entry_new_variable ts, rp_addr = map rom_entry_new_variable (l # as),
    rp_evals = \<lparr>romv_time_eval = rom_time_eval ev, romv_addr_eval = rom_addr_eval ev, romv_challenges = Some (c, t)\<rparr>,
    rp_next = 0, rp_sat = True\<rparr>"
  have "rom_loaded ts r" by (simp add: rom_loaded_def r_def len)
  note run = run [OF this]
  have after: "rom_prover_after (length ts) r = r\<lparr>rp_next := length ts,
      rp_sat := rom_chain (map rom_entry_new_variable (l # as)),
      rp_evals := \<lparr>romv_time_eval = rom_time_eval ev * chunk_prod (RomEval ev) (map RomEntry ts),
        romv_addr_eval = rom_addr_eval ev * chunk_prod (RomEval ev) (map RomEntry as), romv_challenges = Some (c, t)\<rparr>\<rparr>"
    by (simp add: rom_prover_after_def r_def len chunk_prod_rom [OF ev] o_def)
  have pm: "prover_pm_new Rom carry (sp_time_var sp) (RomEntryVar (rom_entry_new_variable l) # sp_addr_var sp)
      (RomEvalVar (rp_evals r)) = Inr (RomPm r)"
    using rom_prover_new_eq [of "map rom_entry_new_variable ts" "map rom_entry_new_variable (l # as)"]
    by (simp only: sp map_rom_entry_new prover_pm_new.simps list.map) (simp add: r_def)
  have last: "last (RomEntryVar (rom_entry_new_variable l) # sp_addr_var sp) = entry_new_variable (last (RomEntry l # map RomEntry as))"
    using last_map [of "RomEntry l # map RomEntry as" entry_new_variable] by (simp add: sp)
  have leaf: "leaf_to_constraint_field \<lparr>leafv_evals = RomEvalVar
        \<lparr>romv_time_eval = rom_time_eval ev * chunk_prod (RomEval ev) (map RomEntry ts),
         romv_addr_eval = rom_addr_eval ev * chunk_prod (RomEval ev) (map RomEntry as), romv_challenges = Some (c, t)\<rparr>,
        leafv_last = entry_new_variable (last (RomEntry l # map RomEntry as))\<rparr>
      = leaf_to_field_elements (chunk_leaf (RomEval ev) (RomEntry l) (map RomEntry ts) (map RomEntry as))"
  proof -
    have "\<exists>x. last (RomEntry l # map RomEntry as) = RomEntry x" by (induction as rule: rev_induct) auto
    then have "entry_to_constraint_field (entry_new_variable (last (RomEntry l # map RomEntry as)))
        = entry_to_field_elements (last (RomEntry l # map RomEntry as))"
      by (auto simp: entry_constraint_field_new simp del: entry_new_variable.simps last.simps)
    then show ?thesis
      by (simp add: leaf_to_constraint_field_def leaf_to_field_elements_def chunk_leaf_def del: last.simps)
  qed
  have evals: "\<lparr>romv_time_eval = rom_time_eval ev, romv_addr_eval = rom_addr_eval ev, romv_challenges = Some (c, t)\<rparr> = rp_evals r"
    by (simp add: r_def)
  show ?thesis
    using n run pm
    by (simp add: subcircuit_stage1_def Let_def mt sp(1,2,5,6) leaf_new_variable_def rom_evals_new_variable_def
        run_prover_pm_rom evals after last leaf rom_prover_running_evals_def rom_is_padding_def result_and_def
        rom_addr_new del: last.simps)
qed


section \<open>What an honest coordinator sends\<close>

lemma chunk_leaf_step:
  "chunk_leaf (leaf_evals (chunk_leaf ev l ts as)) (leaf_last (chunk_leaf ev l ts as)) us vs
     = chunk_leaf ev l (ts @ us) (as @ vs)"
  by (simp add: chunk_leaf_def mult.assoc last_append)

lemma eval_new_facts [simp]:
  "eval_kind (eval_new sha256 ser mt com) = mt" "has_challenges (eval_new sha256 ser mt com)"
  "time_ordered_eval (eval_new sha256 ser mt com) = 1" "addr_ordered_eval (eval_new sha256 ser mt com) = 1"
  by (cases mt; simp add: rom_evals_new_def ram_evals_new_def Let_def)+

lemma padding_leaf_request:
  "copy_challenges_from (eval_put t a (eval_new sha256 ser mt com)) (leaf_evals (leaf_padding mt))
     = Inr (leaf_evals (chunk_leaf (eval_new sha256 ser mt com) l [] []))"
  by (cases mt) (simp_all add: leaf_padding_def chunk_leaf_def rom_evals_new_def ram_evals_new_def
      rom_evals_default_def ram_evals_default_def Let_def)

lemma honest_request:
  fixes time_sts addr_sts :: "'f::field transcript_entry list list"
  assumes c1: "coordinator1_new sha256 ser ml mt time_sts addr_sts wits params coms seeds super_com = Inr st1"
    and req: "gen_request1 mt st1 i = Inr req" and i: "i < length time_sts"
    and kinds: "\<forall>e \<in> set (concat time_sts) \<union> set (concat addr_sts). entry_kind e = mt"
    and lens: "map length addr_sts = map length time_sts" and ml: "merkle_complete ml"
  defines "ev0 \<equiv> eval_new sha256 ser mt super_com"
  shows "r1_idx req = i \<and> r1_witnesses req = wits ! i \<and> i < length wits \<and> r1_params req = params
     \<and> r1_cur_leaf req = chunk_leaf ev0 (entry_padding mt) (concat (take i time_sts)) (concat (take i addr_sts))
     \<and> mt_verify ml (r1_path req) (r1_root req) (leaf_to_field_elements
          (chunk_leaf ev0 (entry_padding mt) (concat (take (Suc i) time_sts)) (concat (take (Suc i) addr_sts))))"
proof -
  let ?z = "zip time_sts addr_sts"
  let ?leaf = "\<lambda>i. chunk_leaf ev0 (entry_padding mt) (concat (take i time_sts)) (concat (take i addr_sts))"
  have len: "length addr_sts = length time_sts" using lens by (metis length_map)
  have tk: "concat (map fst (take k ?z)) = concat (take k time_sts)" "concat (map snd (take k ?z)) = concat (take k addr_sts)" for k
    using len by (simp_all add: take_zip)
  have ok: "\<forall>(ts, as) \<in> set ?z. length ts = length as \<and> (\<forall>e \<in> set ts \<union> set as. entry_kind e = eval_kind ev0)"
  proof (clarify)
    fix ts as assume mem: "(ts, as) \<in> set ?z"
    then obtain j where j: "j < length time_sts" "ts = time_sts ! j" "as = addr_sts ! j"
      using len by (auto simp: in_set_zip)
    then have "length ts = length as" using lens len by (metis nth_map)
    moreover have "set ts \<subseteq> set (concat time_sts)" "set as \<subseteq> set (concat addr_sts)"
      using set_zip_leftD [OF mem] set_zip_rightD [OF mem] by auto
    ultimately show "length ts = length as \<and> (\<forall>e \<in> set ts \<union> set as. entry_kind e = eval_kind ev0)"
      using kinds by (auto simp: ev0_def)
  qed
  have "has_challenges ev0" by (simp add: ev0_def)
  from exec_leaves_closed [OF ok this] have leaves:
    "exec_leaves ?z ev0 (entry_padding mt) = Inr (map (\<lambda>i. ?leaf (Suc i)) [0..<length time_sts])"
    by (simp add: tk len del: upt_Suc)
  from c1 obtain tree paths where tree: "mt_new ml (map leaf_to_field_elements (map (\<lambda>i. ?leaf (Suc i)) [0..<length time_sts])) = Some tree"
    and paths: "rmap (\<lambda>i. unwrap ''invalid subcircuit idx'' (mt_proof ml tree i)) [0..<length time_sts] = Inr paths"
    and st1: "st1 = \<lparr>c1_time = time_sts, c1_addr = addr_sts, c1_witnesses = wits, c1_params = params,
            c1_coms = coms, c1_seeds = seeds, c1_super_com = super_com,
            c1_leaves = map (\<lambda>i. ?leaf (Suc i)) [0..<length time_sts], c1_root = mt_root ml tree, c1_paths = paths\<rparr>"
    using leaves by (auto simp: coordinator1_new_def generate_exec_tree_def res_simps Let_def ev0_def)
  have path: "mt_proof ml tree i = Some (paths ! i)" "length paths = length time_sts"
    using rmap_Inr_nth [OF paths] i by (auto simp: res_simps)
  have "mt_verify ml (paths ! i) (mt_root ml tree) (leaf_to_field_elements (?leaf (Suc i)))"
  proof -
    have "i < length (map leaf_to_field_elements (map (\<lambda>i. ?leaf (Suc i)) [0..<length time_sts]))" using i by simp
    with ml tree obtain p where "mt_proof ml tree i = Some p"
      "mt_verify ml p (mt_root ml tree) (map leaf_to_field_elements (map (\<lambda>i. ?leaf (Suc i)) [0..<length time_sts]) ! i)"
      unfolding merkle_complete_def by blast
    with path(1) i show ?thesis by simp
  qed
  moreover have "r1_cur_leaf req = ?leaf i"
  proof (cases i)
    case 0
    have "copy_challenges_from (leaf_evals (?leaf (Suc 0))) (leaf_evals (leaf_padding mt))
        = Inr (leaf_evals (chunk_leaf ev0 (entry_padding mt) [] []))"
      unfolding ev0_def chunk_leaf_def [of _ _ "concat (take (Suc 0) time_sts)"] exec_leaf.select_convs
      by (rule padding_leaf_request)
    with req 0 i show ?thesis
      by (auto simp: gen_request1_def st1 res_simps Let_def) (simp add: chunk_leaf_def leaf_padding_def)
  next
    case (Suc j)
    with req i show ?thesis by (auto simp: gen_request1_def st1 res_simps Let_def)
  qed
  ultimately show ?thesis
    using req i path(2) by (auto simp: gen_request1_def st1 res_simps Let_def)
qed


section \<open>Honest runs with read-only portals\<close>

lemma sort_key_map: "sort_key f (map g xs) = map g (sort_key (\<lambda>x. f (g x)) xs)"
proof -
  have "insort_key f (g x) (map g ys) = map g (insort_key (\<lambda>x. f (g x)) x ys)" for x ys
    by (induction ys) simp_all
  then show ?thesis by (induction xs) simp_all
qed

lemma cut_by_map: "cut_by ks (map f xs) = map (map f) (cut_by ks xs)"
  by (induction ks arbitrary: xs) (simp_all add: take_map drop_map)

lemma concat_map_map: "concat (map (map f) xss) = map f (concat xss)"
  by (induction xss) simp_all

lemma sort_subtraces_rom:
  "sort_subtraces_by_addr (map (map RomEntry) tss) = Inr addr_sts \<Longrightarrow>
     addr_sts = map (map RomEntry) (cut_by (map length tss) (sort_key rom_addr (concat tss)))"
  by (cases "concat tss = []")
    (auto simp: sort_subtraces_by_addr_def res_simps concat_map_map sort_key_map cut_by_map o_def Let_def
      simp del: concat_eq_Nil_conv)

lemma concat_take_nth_drop: "i < length xss \<Longrightarrow> concat xss = concat (take i xss) @ xss ! i @ concat (drop (Suc i) xss)"
  by (metis concat.simps(2) concat_append id_take_nth_drop)

lemma rom_chain_window:
  assumes "rom_chain (map f (x # concat xss))" and "i < length xss"
  shows "rom_chain (map f (last (x # concat (take i xss)) # xss ! i))"
proof -
  let ?p = "x # concat (take i xss)"
  have "x # concat xss = butlast ?p @ (last ?p # xss ! i) @ concat (drop (Suc i) xss)"
    using concat_take_nth_drop [OF assms(2)]
    by (metis append.assoc append_Cons append_Nil append_butlast_last_id list.distinct(1))
  then have "map f (x # concat xss) = map f (butlast ?p) @ map f (last ?p # xss ! i) @ map f (concat (drop (Suc i) xss))"
    by (metis map_append)
  with assms(1) show ?thesis by (simp only: rom_chain_def successively_append_iff)
qed

lemma setup_rom_new_subtraces [simp]: "sr_subtraces setup_rom_new = []"
  by (simp add: setup_rom_new_def)

lemma gen_request0_D:
  "gen_request0 st i = Inr req \<Longrightarrow> i < length (c0_time st) \<and> i < length (c0_addr st) \<and>
     r0_idx req = i \<and> r0_time req = c0_time st ! i \<and> r0_addr req = c0_addr st ! i"
  by (auto simp: gen_request0_def res_simps)

lemma coordinator0_D:
  assumes "coordinator0_new ops circ = Inr st0"
  shows "op_portal_subtraces ops circ = Inr (c0_time st0) \<and> sort_subtraces_by_addr (c0_time st0) = Inr (c0_addr st0)
    \<and> c0_params st0 = op_get_params ops circ \<and> length (c0_witnesses st0) = op_num_subcircuits ops circ
    \<and> (\<forall>i < op_num_subcircuits ops circ. op_get_witnesses ops circ i = Inr (c0_witnesses st0 ! i))"
  using assms by (auto simp: coordinator0_new_def res_simps dest!: rmap_Inr_nth)

lemma process_stage0_D:
  assumes "process_stage0_responses sha256 ser ml mt commit_left resps st0 = Inr st1"
  shows "\<exists>coms seeds super_com. coordinator1_new sha256 ser ml mt (c0_time st0) (c0_addr st0) (c0_witnesses st0)
           (c0_params st0) coms seeds super_com = Inr st1"
  using assms by (auto simp: process_stage0_responses_def res_simps Let_def)

lemma set_nth_concat: "i < length xss \<Longrightarrow> set (xss ! i) \<subseteq> set (concat xss)"
  by (auto intro: nth_mem)

lemma kinds_of_sorted:
  assumes "sort_subtraces_by_addr sts = Inr out" and "\<forall>e \<in> set (concat sts). entry_kind e = mt"
  shows "\<forall>e \<in> set (concat out). entry_kind e = mt"
  using sort_subtraces_by_addr_perm [OF assms(1)] assms(2) by (metis set_mset_mset)

text \<open>
  Building the tree and answering requests does not fail, as long as the Merkle tree library builds a
  tree of that many leaves.
\<close>

lemma coordinator1_total:
  assumes kinds: "\<forall>e \<in> set (concat time_sts) \<union> set (concat addr_sts). entry_kind e = mt"
    and lens: "map length addr_sts = map length time_sts" and ml: "merkle_complete ml"
    and new: "\<forall>ls. length ls = length time_sts \<longrightarrow> mt_new ml ls \<noteq> None" and wits: "length wits = length time_sts"
  shows "\<exists>st1. coordinator1_new sha256 ser ml mt time_sts addr_sts wits params coms seeds super_com = Inr st1
     \<and> (\<forall>i < length time_sts. \<exists>req. gen_request1 mt st1 i = Inr req)"
proof -
  let ?z = "zip time_sts addr_sts" and ?ev = "eval_new sha256 ser mt super_com"
  let ?leaf = "\<lambda>i. chunk_leaf ?ev (entry_padding mt) (concat (map fst (take (Suc i) ?z))) (concat (map snd (take (Suc i) ?z)))"
  have len: "length addr_sts = length time_sts" using lens by (metis length_map)
  have ok: "\<forall>(ts, as) \<in> set ?z. length ts = length as \<and> (\<forall>e \<in> set ts \<union> set as. entry_kind e = eval_kind ?ev)"
  proof (clarify)
    fix ts as assume mem: "(ts, as) \<in> set ?z"
    then obtain j where j: "j < length time_sts" "ts = time_sts ! j" "as = addr_sts ! j"
      using len by (auto simp: in_set_zip)
    then have "length ts = length as" using lens len by (metis nth_map)
    moreover have "set ts \<subseteq> set (concat time_sts)" "set as \<subseteq> set (concat addr_sts)"
      using j len set_nth_concat [of j time_sts] set_nth_concat [of j addr_sts] by simp_all
    ultimately show "length ts = length as \<and> (\<forall>e \<in> set ts \<union> set as. entry_kind e = eval_kind ?ev)"
      using kinds by auto
  qed
  have leaves: "exec_leaves ?z ?ev (entry_padding mt) = Inr (map ?leaf [0..<length time_sts])"
    using exec_leaves_closed [OF ok] len by (simp del: upt_Suc)
  have "mt_new ml (map leaf_to_field_elements (map ?leaf [0..<length time_sts])) \<noteq> None"
    by (rule new [rule_format]) simp
  then obtain tree where tree: "mt_new ml (map leaf_to_field_elements (map ?leaf [0..<length time_sts])) = Some tree"
    by blast
  have "unwrap ''invalid subcircuit idx'' (mt_proof ml tree i) = Inr (the (mt_proof ml tree i))" if "i < length time_sts" for i
  proof -
    have "i < length (map leaf_to_field_elements (map ?leaf [0..<length time_sts]))" using that by simp
    with ml tree obtain p where "mt_proof ml tree i = Some p" unfolding merkle_complete_def by blast
    then show ?thesis by simp
  qed
  then have paths: "rmap (\<lambda>i. unwrap ''invalid subcircuit idx'' (mt_proof ml tree i)) [0..<length time_sts]
      = Inr (map (\<lambda>i. the (mt_proof ml tree i)) [0..<length time_sts])"
    by (intro rmap_total) simp
  let ?st = "\<lparr>c1_time = time_sts, c1_addr = addr_sts, c1_witnesses = wits, c1_params = params,
     c1_coms = coms, c1_seeds = seeds, c1_super_com = super_com, c1_leaves = map ?leaf [0..<length time_sts],
     c1_root = mt_root ml tree, c1_paths = map (\<lambda>i. the (mt_proof ml tree i)) [0..<length time_sts]\<rparr>"
  have "coordinator1_new sha256 ser ml mt time_sts addr_sts wits params coms seeds super_com = Inr ?st"
    using leaves tree paths by (simp add: coordinator1_new_def generate_exec_tree_def Let_def)
  moreover have "\<exists>req. gen_request1 mt ?st i = Inr req" if i: "i < length time_sts" for i
  proof (cases i)
    case 0
    have "copy_challenges_from (leaf_evals (?leaf 0)) (leaf_evals (leaf_padding mt))
        = Inr (leaf_evals (chunk_leaf ?ev (entry_padding mt) [] []))"
      unfolding chunk_leaf_def [of _ _ "concat (map fst (take (Suc 0) ?z))"] exec_leaf.select_convs
      by (rule padding_leaf_request)
    with 0 i wits show ?thesis by (simp add: gen_request1_def Let_def)
  next
    case (Suc j)
    with i wits show ?thesis by (simp add: gen_request1_def Let_def)
  qed
  ultimately show ?thesis by blast
qed

lemma coordinator_runs:
  fixes ops :: "('f::field, 'c, 'p) circuit_ops"
  assumes traced: "op_portal_subtraces ops circ = Inr tss" "length tss = op_num_subcircuits ops circ" "concat tss \<noteq> []"
    and kinds: "\<forall>e \<in> set (concat tss). entry_kind e = mt"
    and wits: "\<forall>i < op_num_subcircuits ops circ. \<exists>w. op_get_witnesses ops circ i = Inr w"
    and ml: "merkle_complete ml" "\<forall>ls. length ls = op_num_subcircuits ops circ \<longrightarrow> mt_new ml ls \<noteq> None"
    and com: "commit_left (map s0_com (sort_key s0_idx resps)) = Inr super_com"
  shows "\<exists>st0 st1. coordinator0_new ops circ = Inr st0
     \<and> process_stage0_responses sha256 ser ml mt commit_left resps st0 = Inr st1
     \<and> (\<forall>i < op_num_subcircuits ops circ. (\<exists>req0. gen_request0 st0 i = Inr req0) \<and> (\<exists>req1. gen_request1 mt st1 i = Inr req1))"
proof -
  let ?n = "op_num_subcircuits ops circ"
  obtain w where w: "\<And>i. i < ?n \<Longrightarrow> op_get_witnesses ops circ i = Inr (w i)" using wits by metis
  have "rmap (op_get_witnesses ops circ) [0..<?n] = Inr (map w [0..<?n])" using w by (intro rmap_total) simp
  moreover obtain ass where ass: "sort_subtraces_by_addr tss = Inr ass"
    using traced(3) by (simp add: sort_subtraces_by_addr_def Let_def)
  ultimately have c0: "coordinator0_new ops circ = Inr \<lparr>c0_time = tss, c0_addr = ass, c0_witnesses = map w [0..<?n],
      c0_params = op_get_params ops circ\<rparr>" (is "_ = Inr ?st0")
    using traced(1) by (simp add: coordinator0_new_def)
  have lens: "map length ass = map length tss" using sort_subtraces_by_addr_perm [OF ass] by simp
  then have len: "length ass = ?n" using traced(2) by (metis length_map)
  have "\<forall>e \<in> set (concat tss) \<union> set (concat ass). entry_kind e = mt" using kinds kinds_of_sorted [OF ass kinds] by blast
  from coordinator1_total [OF this lens ml(1), of "map w [0..<?n]" sha256 ser "op_get_params ops circ"
        "map s0_com (sort_key s0_idx resps)" "map s0_seed (sort_key s0_idx resps)" super_com] ml(2) traced(2) obtain st1 where
    "coordinator1_new sha256 ser ml mt tss ass (map w [0..<?n]) (op_get_params ops circ)
       (map s0_com (sort_key s0_idx resps)) (map s0_seed (sort_key s0_idx resps)) super_com = Inr st1"
    "\<forall>i < ?n. \<exists>req. gen_request1 mt st1 i = Inr req" by auto
  moreover have "\<exists>req0. gen_request0 ?st0 i = Inr req0" if "i < ?n" for i
    using that traced(2) len by (simp add: gen_request0_def)
  ultimately show ?thesis using c0 com by (auto simp: process_stage0_responses_def)
qed

text \<open>
  The contract of a circuit with its own serialised witnesses: the circuit a worker builds from the
  parameters and the witnesses of subcircuit \<open>i\<close> generates the constraints of subcircuit \<open>i\<close>.
\<close>

definition witness_contract :: "('f, 'c, 'p) circuit_ops \<Rightarrow> 'c \<Rightarrow> nat \<Rightarrow> bool" where
  "witness_contract ops circ i \<longleftrightarrow>
     (case op_get_witnesses ops circ i of Inl e \<Rightarrow> False | Inr w \<Rightarrow>
        (case rbind (op_new ops (op_get_params ops circ)) (op_set_witnesses ops i w) of Inl e \<Rightarrow> False | Inr circ' \<Rightarrow>
           op_generate ops circ' i = op_generate ops circ i
           \<and> op_num_subcircuits ops circ' = op_num_subcircuits ops circ))"

text \<open>
  Everything the honest coordinator's messages amount to for the worker of subcircuit \<open>i\<close>,
  for either kind of memory.
\<close>

lemma honest_requests:
  fixes ops :: "('f::field, 'c, 'p) circuit_ops"
  assumes ml: "merkle_complete ml" and c0: "coordinator0_new ops circ = Inr st0"
    and req0: "gen_request0 st0 i = Inr req0"
    and c1: "process_stage0_responses sha256 ser ml mt commit_left resps st0 = Inr st1"
    and req1: "gen_request1 mt st1 i = Inr req1" and contract: "witness_contract ops circ i"
    and kinds: "\<forall>e \<in> set (concat (c0_time st0)). entry_kind e = mt"
    and n: "length (c0_time st0) = op_num_subcircuits ops circ"
  obtains ev circ' chals where
    "leaf_evals (r1_cur_leaf req1) = ev" "eval_kind ev = mt" "has_challenges ev" "eval_challenges ev = Inr chals"
    "leaf_last (r1_cur_leaf req1) = last (entry_padding mt # concat (take i (c0_addr st0)))"
    "mt_verify ml (r1_path req1) (r1_root req1) (leaf_to_field_elements
       (chunk_leaf ev (leaf_last (r1_cur_leaf req1)) (r0_time req0) (r0_addr req0)))"
    "i = 0 \<Longrightarrow> time_ordered_eval ev = 1 \<and> addr_ordered_eval ev = 1"
    "i = op_num_subcircuits ops circ - 1 \<Longrightarrow> time_ordered_eval ev * chunk_prod ev (r0_time req0)
       = addr_ordered_eval ev * chunk_prod ev (r0_addr req0)"
    "i < op_num_subcircuits ops circ" "r0_idx req0 = i"
    "r0_time req0 = c0_time st0 ! i" "r0_addr req0 = c0_addr st0 ! i"
    "op_generate ops circ' i = op_generate ops circ i" "op_num_subcircuits ops circ' = op_num_subcircuits ops circ"
    "r1_idx req1 = i" "rbind (op_new ops (r1_params req1)) (op_set_witnesses ops (r1_idx req1) (r1_witnesses req1)) = Inr circ'"
proof -
  let ?n = "op_num_subcircuits ops circ" and ?T = "c0_time st0" and ?A = "c0_addr st0"
  note st0 = coordinator0_D [OF c0] and r0 = gen_request0_D [OF req0]
  have sorted: "map length ?A = map length ?T" "mset (concat ?A) = mset (concat ?T)"
    using sort_subtraces_by_addr_perm st0 by blast+
  have i: "i < ?n" "i < length ?T" using r0 n by auto
  obtain coms seeds super_com where c1': "coordinator1_new sha256 ser ml mt ?T ?A (c0_witnesses st0)
      (c0_params st0) coms seeds super_com = Inr st1"
    using process_stage0_D [OF c1] by blast
  define ev0 where "ev0 = (eval_new sha256 ser mt super_com :: 'f running_evaluation)"
  define ev where "ev = leaf_evals (r1_cur_leaf req1)"
  have "\<forall>e \<in> set (concat ?T) \<union> set (concat ?A). entry_kind e = mt"
    using kinds kinds_of_sorted st0 by blast
  from honest_request [OF c1' req1 i(2) this sorted(1) ml, folded ev0_def]
  have R: "r1_idx req1 = i" "r1_witnesses req1 = c0_witnesses st0 ! i" "r1_params req1 = c0_params st0"
    "r1_cur_leaf req1 = chunk_leaf ev0 (entry_padding mt) (concat (take i ?T)) (concat (take i ?A))"
    "mt_verify ml (r1_path req1) (r1_root req1) (leaf_to_field_elements
        (chunk_leaf ev0 (entry_padding mt) (concat (take (Suc i) ?T)) (concat (take (Suc i) ?A))))" by auto
  have ev: "ev = eval_put (chunk_prod ev0 (concat (take i ?T))) (chunk_prod ev0 (concat (take i ?A))) ev0"
    by (simp add: ev_def R(4) chunk_leaf_def ev0_def)
  obtain chals where chals: "eval_challenges ev0 = Inr chals"
    by (cases mt) (auto simp: ev0_def rom_evals_new_def ram_evals_new_def Let_def)
  obtain circ' where circ': "rbind (op_new ops (op_get_params ops circ)) (op_set_witnesses ops i (c0_witnesses st0 ! i)) = Inr circ'"
    "op_generate ops circ' i = op_generate ops circ i" "op_num_subcircuits ops circ' = ?n"
    using contract st0 i(1) by (auto simp: witness_contract_def split: sum.splits)
  show thesis
  proof (rule that [of ev chals circ'])
    show "mt_verify ml (r1_path req1) (r1_root req1) (leaf_to_field_elements
       (chunk_leaf ev (leaf_last (r1_cur_leaf req1)) (r0_time req0) (r0_addr req0)))"
      using R(5) i(2) r0 chunk_leaf_step [of ev0 "entry_padding mt"]
      by (simp add: ev_def R(4) take_Suc_conv_app_nth)
    show "time_ordered_eval ev * chunk_prod ev (r0_time req0) = addr_ordered_eval ev * chunk_prod ev (r0_addr req0)"
      if "i = ?n - 1"
    proof -
      have "concat xss = concat (take i xss) @ xss ! i" if "length xss = ?n" for xss :: "'f transcript_entry list list"
        using concat_take_nth_drop [of i xss] i that \<open>i = ?n - 1\<close> by simp
      moreover have "length ?A = ?n" using sorted(1) n by (metis length_map)
      ultimately have "concat ?T = concat (take i ?T) @ ?T ! i" "concat ?A = concat (take i ?A) @ ?A ! i"
        using n by blast+
      with chunk_prod_perm [OF sorted(2), of ev0] show ?thesis
        using r0 by (simp add: ev)
    qed
    show "rbind (op_new ops (r1_params req1)) (op_set_witnesses ops (r1_idx req1) (r1_witnesses req1)) = Inr circ'"
      using R st0 circ'(1) by simp
  qed (use r0 i R(1,4) circ' chals in \<open>simp_all add: ev_def ev0_def chunk_leaf_def\<close>)
qed

text \<open>
  What an honest worker finds: it fills in a circuit that generates what the coordinator's does, and the stage 1
  constraints of its prover are satisfied.
\<close>

definition honest_worker where
  "honest_worker ops ml circ i req0 req1 \<longleftrightarrow> r0_idx req0 = i \<and> r1_idx req1 = i \<and> (\<exists>circ' chals.
     eval_challenges (leaf_evals (r1_cur_leaf req1)) = Inr chals
     \<and> rbind (op_new ops (r1_params req1)) (op_set_witnesses ops (r1_idx req1) (r1_witnesses req1)) = Inr circ'
     \<and> op_generate ops circ' i = op_generate ops circ i
     \<and> subcircuit_stage1 ops ml (\<lambda>_. True) (worker_prover req0 req1 circ' chals) = Inr True)"

lemma honest_worker_satisfied:
  assumes "honest_worker ops ml circ i req0 req1"
  shows "result_map snd (process_stage1_request ops ml (\<lambda>s cb. Inr (commit s cb)) (\<lambda>cb cs rs. Inr (prove cb cs rs)) req0 resp0 req1) = Inr True"
  using assms unfolding honest_worker_def by (elim conjE exE) (simp add: process_stage1_request_eq)

text \<open>With a commitment and a proof that may fail, nothing else does.\<close>

lemma honest_worker_answers:
  assumes "honest_worker ops ml circ i req0 req1"
  obtains circ' chals where "op_generate ops circ' i = op_generate ops circ i"
    "subcircuit_stage1 ops ml (\<lambda>_. True) (worker_prover req0 req1 circ' chals) = Inr True"
    "\<And>commit prove resp0. process_stage1_request ops ml commit prove req0 resp0 req1 =
       rbind (unwrap_res unwrap_err_msg (commit (s0_seed resp0) (committed_prover ops ml req0))) (\<lambda>(com, rand).
       rbind (unwrap_res unwrap_err_msg (prove (worker_prover req0 req1 circ' chals) [com] [rand])) (\<lambda>proof.
         Inr (\<lparr>s1_idx = i, s1_proof = proof\<rparr>, True)))"
proof -
  from assms obtain circ' chals where idx: "r0_idx req0 = r1_idx req1" "r1_idx req1 = i"
    and h: "eval_challenges (leaf_evals (r1_cur_leaf req1)) = Inr chals"
      "rbind (op_new ops (r1_params req1)) (op_set_witnesses ops (r1_idx req1) (r1_witnesses req1)) = Inr circ'"
    and gen: "op_generate ops circ' i = op_generate ops circ i"
    and sat: "subcircuit_stage1 ops ml (\<lambda>_. True) (worker_prover req0 req1 circ' chals) = Inr True"
    unfolding honest_worker_def by auto
  show thesis
    by (rule that [OF gen sat])
      (simp add: process_stage1_request_commits process_stage1_request_with_cb_eq [OF h(1) idx(1) h(2)] sat idx(2))
qed

lemma rom_honest_worker:
  fixes ops :: "('f::field, 'c, 'p) circuit_ops"
  assumes mt: "op_mem_type ops = Rom"
    and traced: "rom_setup_run (map (op_generate ops circ) [0..<op_num_subcircuits ops circ]) setup_rom_new = Inr (True, s)"
    and subtraces: "op_portal_subtraces ops circ = Inr (map (map RomEntry) (sr_subtraces s))"
    and cap: "card (dom (sr_var_map s)) < 2 ^ 64 - 1" and ml: "merkle_complete ml"
    and c0: "coordinator0_new ops circ = Inr st0" and req0: "gen_request0 st0 i = Inr req0"
    and c1: "process_stage0_responses sha256 ser ml Rom commit_left resps st0 = Inr st1"
    and req1: "gen_request1 Rom st1 i = Inr req1" and contract: "witness_contract ops circ i"
  shows "honest_worker ops ml circ i req0 req1"
proof -
  let ?n = "op_num_subcircuits ops circ"
  define tss where "tss = sr_subtraces s"
  define ass where "ass = cut_by (map length tss) (sort_key rom_addr (concat tss))"
  have time: "c0_time st0 = map (map RomEntry) tss"
    using coordinator0_D [OF c0] subtraces by (simp add: tss_def)
  have addr: "c0_addr st0 = map (map RomEntry) ass"
    using coordinator0_D [OF c0] time sort_subtraces_rom [of tss "c0_addr st0"] by (simp add: ass_def)
  have lens: "map length ass = map length tss" and flat: "concat ass = sort_key rom_addr (concat tss)"
    by (simp_all add: ass_def map_length_cut_by concat_cut_by length_concat)
  from rom_recording.setup_run_replay [OF traced [unfolded rom_setup_run_def]] obtain oks where
    n: "length tss = ?n" "length oks = ?n" "\<forall>b \<in> set oks. b" and
    replay: "\<And>j r. j < ?n \<Longrightarrow> rom_loaded (tss ! j) r \<Longrightarrow>
       run_portal rom_prover_get rom_prover_set (op_generate ops circ j) r
         = Inr (oks ! j, rom_prover_after (length (tss ! j)) r)"
    by (auto simp: tss_def)
  have kinds: "\<forall>e \<in> set (concat (c0_time st0)). entry_kind e = Rom" by (auto simp: time)
  have "length (c0_time st0) = ?n" by (simp add: time n)
  from honest_requests [OF ml c0 req0 c1 req1 contract kinds this] obtain ev' circ' chals where
    H: "leaf_evals (r1_cur_leaf req1) = ev'" "eval_kind ev' = Rom" "has_challenges ev'" "eval_challenges ev' = Inr chals"
    "leaf_last (r1_cur_leaf req1) = last (entry_padding Rom # concat (take i (c0_addr st0)))"
    "mt_verify ml (r1_path req1) (r1_root req1) (leaf_to_field_elements
       (chunk_leaf ev' (leaf_last (r1_cur_leaf req1)) (r0_time req0) (r0_addr req0)))"
    "i = 0 \<Longrightarrow> time_ordered_eval ev' = 1 \<and> addr_ordered_eval ev' = 1"
    "i = ?n - 1 \<Longrightarrow> time_ordered_eval ev' * chunk_prod ev' (r0_time req0)
       = addr_ordered_eval ev' * chunk_prod ev' (r0_addr req0)"
    "i < ?n" "r0_idx req0 = i" "r0_time req0 = c0_time st0 ! i" "r0_addr req0 = c0_addr st0 ! i"
    "op_generate ops circ' i = op_generate ops circ i" "op_num_subcircuits ops circ' = ?n"
    "r1_idx req1 = i" "rbind (op_new ops (r1_params req1)) (op_set_witnesses ops (r1_idx req1) (r1_witnesses req1)) = Inr circ'"
    by metis
  obtain ev c t where ev: "ev' = RomEval ev" "rom_challenges ev = Some (c, t)" "chals = [c, t]"
    using H(2-4) by (cases ev') auto
  have len_i: "length (tss ! i) = length (ass ! i)" "i < length ass"
    using lens H(9) n(1) by (metis length_map nth_map)+
  define l where "l = last (rom_padding # concat (take i ass))"
  have l: "leaf_last (r1_cur_leaf req1) = RomEntry l"
    using last_map [of "rom_padding # concat (take i ass)" RomEntry]
    by (simp add: H(5) l_def addr take_map concat_map_map)
  have "setup_rom_inv s" by (rule rom_setup_run_inv [OF traced]) simp
  from rom_sorted_chain [OF this cap] have "rom_chain (map rom_entry_new_variable (rom_padding # concat ass))"
    by (simp add: flat tss_def)
  from rom_chain_window [OF this len_i(2)] have chain: "rom_chain (map rom_entry_new_variable (l # ass ! i))"
    by (simp add: l_def)
  have run: "rom_loaded (tss ! i) r \<Longrightarrow> run_portal rom_prover_get rom_prover_set (op_generate ops circ' i) r
      = Inr (oks ! i, rom_prover_after (length (tss ! i)) r)" for r
    using replay [OF H(9)] H(13) by simp
  have leaf: "r1_cur_leaf req1 = \<lparr>leaf_evals = RomEval ev, leaf_last = RomEntry l\<rparr>"
    using H(1) ev(1) l by (intro exec_leaf.equality) simp_all
  have sub: "r0_time req0 = map RomEntry (tss ! i)" "r0_addr req0 = map RomEntry (ass ! i)"
    using H(9,11,12) time addr n(1) len_i(2) by simp_all
  have "oks ! i" using n(2,3) H(9) by (metis nth_mem)
  from rom_stage1 [OF mt ev(2) len_i(1) _ run, where sp = "worker_prover req0 req1 circ' [c, t]" and ml = ml
      and carry = "\<lambda>_. True" and l = l]
  have "subcircuit_stage1 ops ml (\<lambda>_. True) (worker_prover req0 req1 circ' [c, t]) = Inr True"
    using H(6-10,14) leaf sub ev \<open>oks ! i\<close> chain by (simp add: worker_prover_def) (simp add: l_def rom_padding_def)
  then show ?thesis
    unfolding honest_worker_def using H(1,4,10,13,15,16) ev(3) by (intro conjI exI [of _ circ'] exI [of _ chals]) simp_all
qed

text \<open>
  C16: End-to-end completeness for read-only portals. Let the coordinator trace a circuit whose
  constraints hold, sort the trace, collect commitments in any order, build the execution tree and send
  its requests: the stage 1 constraint system of every worker that receives them is satisfied.
\<close>

theorem rom_honest_run_satisfied:
  fixes ops :: "('f::field, 'c, 'p) circuit_ops"
  assumes mt: "op_mem_type ops = Rom"
    and traced: "rom_setup_run (map (op_generate ops circ) [0..<op_num_subcircuits ops circ]) setup_rom_new = Inr (True, s)"
    and subtraces: "op_portal_subtraces ops circ = Inr (map (map RomEntry) (sr_subtraces s))"
    and cap: "card (dom (sr_var_map s)) < 2 ^ 64 - 1" and ml: "merkle_complete ml"
    and c0: "coordinator0_new ops circ = Inr st0" and req0: "gen_request0 st0 i = Inr req0"
    and c1: "process_stage0_responses sha256 ser ml Rom commit_left resps st0 = Inr st1"
    and req1: "gen_request1 Rom st1 i = Inr req1" and contract: "witness_contract ops circ i"
  shows "result_map snd (process_stage1_request ops ml (\<lambda>s cb. Inr (commit s cb)) (\<lambda>cb cs rs. Inr (prove cb cs rs)) req0 resp0 req1) = Inr True"
  by (rule honest_worker_satisfied [OF rom_honest_worker [OF assms]])

section \<open>Honest runs with read-write portals\<close>

lemma ram_time_range_successively:
  "ram_time_range (\<lambda>_. True) xs 0 (length xs) \<longleftrightarrow> successively (ram_time_ok True) xs"
proof
  assume range: "ram_time_range (\<lambda>_. True) xs 0 (length xs)"
  show "successively (ram_time_ok True) xs"
  proof (rule successivelyI)
    fix us a b vs assume xs: "xs = us @ a # b # vs"
    then have "xs ! length us = a" "xs ! Suc (length us) = b" "Suc (length us) < length xs"
      by (simp_all add: nth_append)
    with range show "ram_time_ok True a b" by (force simp: ram_time_range_def)
  qed
next
  assume succ: "successively (ram_time_ok True) xs"
  have "ram_time_ok True (xs ! j) (xs ! Suc j)" if "Suc j < length xs" for j
  proof -
    have "xs = take j xs @ xs ! j # xs ! Suc j # drop (Suc (Suc j)) xs"
      using that by (simp add: Cons_nth_drop_Suc)
    with succ show ?thesis by (metis successivelyD)
  qed
  then show "ram_time_range (\<lambda>_. True) xs 0 (length xs)" by (auto simp: ram_time_range_def)
qed

lemma successively_window:
  assumes "successively P (map f (concat xss))" and "i < length xss"
  shows "successively P (map f (xss ! i))"
  using assms(1) by (simp add: concat_take_nth_drop [OF assms(2)] successively_append_iff)

lemma ram_read_new: "ramv_read (ram_entry_new_variable l) = ram_read l"
  by (simp add: ram_entry_new_variable_def)

lemma ram_stage1:
  fixes ev :: "'f::field ram_evals"
  assumes mt: "op_mem_type ops = Ram" and ev: "ram_challenges ev = Some (c1, c2, c3, t)"
    and len: "length ts = length as" and n: "0 < op_num_subcircuits ops circ"
    and wf: "\<forall>e \<in> set ts \<union> set (l # as). u32_wf (ram_i e)"
    and run: "\<And>r. ram_loaded ts r \<Longrightarrow> run_portal ram_prover_get ram_prover_set (op_generate ops circ i) r
                = Inr (ok, ram_prover_after (length ts) r)"
    and sp: "sp_idx sp = i" "sp_circ sp = Some circ" "sp_time_var sp = map entry_new_variable (map RamEntry ts)"
      "sp_addr_var sp = map entry_new_variable (map RamEntry as)" "sp_challenges sp = [c1, c2, c3, t]"
      "sp_cur_leaf sp = \<lparr>leaf_evals = RamEval ev, leaf_last = RamEntry l\<rparr>"
  shows "subcircuit_stage1 ops ml (\<lambda>_. True) sp = Inr
     ((i = 0 \<longrightarrow> ram_time_eval ev = 1 \<and> ram_addr_eval ev = 1 \<and> \<not> ram_read l)
      \<and> (ram_chain (map ram_entry_new_variable as) \<and> successively (ram_time_ok True) (map ram_entry_new_variable ts)) \<and> ok
      \<and> mt_verify ml (sp_path sp) (sp_root sp)
          (leaf_to_field_elements (chunk_leaf (RamEval ev) (RamEntry l) (map RamEntry ts) (map RamEntry as)))
      \<and> (i = op_num_subcircuits ops circ - 1 \<longrightarrow>
           ram_time_eval ev * chunk_prod (RamEval ev) (map RamEntry ts)
             = ram_addr_eval ev * chunk_prod (RamEval ev) (map RamEntry as)))"
proof -
  define r where "r = \<lparr>rmp_time = map ram_entry_new_variable ts, rmp_addr = map ram_entry_new_variable (l # as),
    rmp_evals = \<lparr>ramv_time_eval = ram_time_eval ev, ramv_addr_eval = ram_addr_eval ev, ramv_challenges = Some (c1, c2, c3, t)\<rparr>,
    rmp_next = 0, rmp_carry = (\<lambda>_. True), rmp_sat = True\<rparr>"
  have "ram_wf_prover r"
    using wf by (auto simp: ram_wf_prover_def r_def ram_wf_var_def ram_entry_new_variable_def u32_wf_def)
  then have "ram_loaded ts r" by (simp add: ram_loaded_def r_def len)
  note run = run [OF this]
  have reprs: "map (ram_var_repr c1 c2 c3) (map ram_entry_new_variable ts) = map (ram_entry_repr c1 c2 c3) ts"
    "map (ram_var_repr c1 c2 c3) (map ram_entry_new_variable as) = map (ram_entry_repr c1 c2 c3) as"
    using wf by (simp_all add: ram_var_repr_new)
  have after: "ram_prover_after (length ts) r = r\<lparr>rmp_next := length ts,
      rmp_sat := ram_chain (map ram_entry_new_variable as) \<and> successively (ram_time_ok True) (map ram_entry_new_variable ts),
      rmp_evals := \<lparr>ramv_time_eval = ram_time_eval ev * chunk_prod (RamEval ev) (map RamEntry ts),
        ramv_addr_eval = ram_addr_eval ev * chunk_prod (RamEval ev) (map RamEntry as), ramv_challenges = Some (c1, c2, c3, t)\<rparr>\<rparr>"
    using ram_time_range_successively [of "map ram_entry_new_variable ts"]
    by (simp add: ram_prover_after_def r_def len chunk_prod_ram [OF ev] reprs del: map_map)
  have pm: "prover_pm_new Ram (\<lambda>_. True) (sp_time_var sp) (RamEntryVar (ram_entry_new_variable l) # sp_addr_var sp)
      (RamEvalVar (rmp_evals r)) = Inr (RamPm r)"
    using ram_prover_new_eq [of "\<lambda>_. True" "map ram_entry_new_variable ts" "map ram_entry_new_variable (l # as)"]
    by (simp only: sp map_ram_entry_new prover_pm_new.simps list.map) (simp add: r_def)
  have last: "last (RamEntryVar (ram_entry_new_variable l) # sp_addr_var sp) = entry_new_variable (last (RamEntry l # map RamEntry as))"
    using last_map [of "RamEntry l # map RamEntry as" entry_new_variable] by (simp add: sp)
  have leaf: "leaf_to_constraint_field \<lparr>leafv_evals = RamEvalVar
        \<lparr>ramv_time_eval = ram_time_eval ev * chunk_prod (RamEval ev) (map RamEntry ts),
         ramv_addr_eval = ram_addr_eval ev * chunk_prod (RamEval ev) (map RamEntry as), ramv_challenges = Some (c1, c2, c3, t)\<rparr>,
        leafv_last = entry_new_variable (last (RamEntry l # map RamEntry as))\<rparr>
      = leaf_to_field_elements (chunk_leaf (RamEval ev) (RamEntry l) (map RamEntry ts) (map RamEntry as))"
  proof -
    have "last (RamEntry l # map RamEntry as) = RamEntry (last (l # as))"
      using last_map [of "l # as" RamEntry] by simp
    moreover have "u32_wf (ram_i (last (l # as)))"
      using wf last_in_set [of "l # as"] by blast
    ultimately have "entry_to_constraint_field (entry_new_variable (last (RamEntry l # map RamEntry as)))
        = entry_to_field_elements (last (RamEntry l # map RamEntry as))"
      by (simp only:) (rule entry_constraint_field_new, simp)
    then show ?thesis
      by (simp add: leaf_to_constraint_field_def leaf_to_field_elements_def chunk_leaf_def del: last.simps)
  qed
  have evals: "\<lparr>ramv_time_eval = ram_time_eval ev, ramv_addr_eval = ram_addr_eval ev, ramv_challenges = Some (c1, c2, c3, t)\<rparr> = rmp_evals r"
    by (simp add: r_def)
  show ?thesis
    using n run pm
    by (simp add: subcircuit_stage1_def Let_def mt sp(1,2,5,6) leaf_new_variable_def ram_evals_new_variable_def
        run_prover_pm_ram evals after last leaf ram_prover_running_evals_def ram_is_padding_def result_and_def
        ram_read_new del: last.simps)
qed


lemma sort_subtraces_ram:
  "sort_subtraces_by_addr (map (map RamEntry) tss) = Inr addr_sts \<Longrightarrow>
     addr_sts = map (map RamEntry) (cut_by (map length tss) (sort_key ram_sort_key (concat tss)))"
  by (cases "concat tss = []")
    (auto simp: sort_subtraces_by_addr_def res_simps concat_map_map sort_key_map cut_by_map o_def Let_def
      ram_sort_key_def [abs_def] simp del: concat_eq_Nil_conv)

lemma setup_ram_new_subtraces [simp]: "sm_subtraces setup_ram_new = []"
  by (simp add: setup_ram_new_def)

lemma ram_windows:
  fixes s :: "'f::field setup_ram"
  assumes inv: "setup_ram_inv s" and cap: "card (dom (am_addresses (sm_address s))) < 2 ^ 64 - 1"
      "length (concat (sm_subtraces s)) \<le> 2 ^ 32"
    and lens: "map length ass = map length (sm_subtraces s)"
    and flat: "concat ass = sort_key ram_sort_key (concat (sm_subtraces s))"
  shows "i < length ass \<Longrightarrow> ram_chain (map ram_entry_new_variable (ass ! i))"
    and "i < length (sm_subtraces s) \<Longrightarrow> successively (ram_time_ok True) (map ram_entry_new_variable (sm_subtraces s ! i))"
    and "i < length ass \<Longrightarrow> i < length (sm_subtraces s) \<Longrightarrow>
      \<forall>e \<in> set (sm_subtraces s ! i) \<union> set (last (ram_padding # concat (take i ass)) # ass ! i). u32_wf (ram_i e)"
proof -
  let ?tss = "sm_subtraces s"
  have stamped: "ram_stamped (concat ?tss)" using inv by (simp add: setup_ram_inv_def Let_def)
  have wf: "u32_wf (ram_i e)" if "e \<in> set (concat ?tss)" for e
    using that stamped by (auto simp: ram_stamped_def in_set_conv_nth simp del: set_concat)
  show "ram_chain (map ram_entry_new_variable (ass ! i))" if "i < length ass"
    using ram_sorted_chain [OF inv cap] successively_window [OF _ that, of ram_addr_step ram_entry_new_variable]
    by (simp add: ram_chain_def flat)
  show "successively (ram_time_ok True) (map ram_entry_new_variable (?tss ! i))" if "i < length ?tss"
  proof -
    have "successively (ram_time_ok True) (map ram_entry_new_variable (concat ?tss))"
      using ram_stamped_time_range [OF stamped] ram_time_range_successively by (metis length_map)
    then show ?thesis using successively_window that by blast
  qed
  show "\<forall>e \<in> set (?tss ! i) \<union> set (last (ram_padding # concat (take i ass)) # ass ! i). u32_wf (ram_i e)"
    if "i < length ass" "i < length ?tss"
  proof -
    have "set (concat ass) = set (concat ?tss)" by (simp only: flat set_sort)
    moreover have "set (concat (take i ass)) \<subseteq> set (concat ass)" using set_take_subset [of i ass] by fastforce
    moreover have "last (ram_padding # concat (take i ass)) \<in> set (ram_padding # concat (take i ass))"
      by (rule last_in_set) simp
    ultimately have "set (?tss ! i) \<union> set (last (ram_padding # concat (take i ass)) # ass ! i)
        \<subseteq> insert ram_padding (set (concat ?tss))"
      using set_nth_concat [OF that(1)] set_nth_concat [OF that(2)] unfolding list.set(2) by blast
    moreover have "u32_wf (ram_i ram_padding)" by (simp add: ram_padding_def u32_wf_def u32_default_def)
    ultimately show ?thesis using wf by blast
  qed
qed

lemma ram_honest_worker:
  fixes ops :: "('f::field, 'c, 'p) circuit_ops"
  assumes mt: "op_mem_type ops = Ram"
    and traced: "ram_setup_run (map (op_generate ops circ) [0..<op_num_subcircuits ops circ]) setup_ram_new = Inr (True, s)"
    and subtraces: "op_portal_subtraces ops circ = Inr (map (map RamEntry) (sm_subtraces s))"
    and cap: "card (dom (am_addresses (sm_address s))) < 2 ^ 64 - 1" "length (concat (sm_subtraces s)) \<le> 2 ^ 32"
    and ml: "merkle_complete ml"
    and c0: "coordinator0_new ops circ = Inr st0" and req0: "gen_request0 st0 i = Inr req0"
    and c1: "process_stage0_responses sha256 ser ml Ram commit_left resps st0 = Inr st1"
    and req1: "gen_request1 Ram st1 i = Inr req1" and contract: "witness_contract ops circ i"
  shows "honest_worker ops ml circ i req0 req1"
proof -
  let ?n = "op_num_subcircuits ops circ"
  define tss where "tss = sm_subtraces s"
  define ass where "ass = cut_by (map length tss) (sort_key ram_sort_key (concat tss))"
  have time: "c0_time st0 = map (map RamEntry) tss"
    using coordinator0_D [OF c0] subtraces by (simp add: tss_def)
  have addr: "c0_addr st0 = map (map RamEntry) ass"
    using coordinator0_D [OF c0] time sort_subtraces_ram [of tss "c0_addr st0"] by (simp add: ass_def)
  have lens: "map length ass = map length tss" and flat: "concat ass = sort_key ram_sort_key (concat tss)"
    by (simp_all add: ass_def map_length_cut_by concat_cut_by length_concat)
  from ram_recording.setup_run_replay [OF traced [unfolded ram_setup_run_def]] obtain oks where
    n: "length tss = ?n" "length oks = ?n" "\<forall>b \<in> set oks. b" and
    replay: "\<And>j r. j < ?n \<Longrightarrow> ram_loaded (tss ! j) r \<Longrightarrow>
       run_portal ram_prover_get ram_prover_set (op_generate ops circ j) r
         = Inr (oks ! j, ram_prover_after (length (tss ! j)) r)"
    by (auto simp: tss_def)
  have kinds: "\<forall>e \<in> set (concat (c0_time st0)). entry_kind e = Ram" by (auto simp: time)
  have "length (c0_time st0) = ?n" by (simp add: time n)
  from honest_requests [OF ml c0 req0 c1 req1 contract kinds this] obtain ev' circ' chals where
    H: "leaf_evals (r1_cur_leaf req1) = ev'" "eval_kind ev' = Ram" "has_challenges ev'" "eval_challenges ev' = Inr chals"
    "leaf_last (r1_cur_leaf req1) = last (entry_padding Ram # concat (take i (c0_addr st0)))"
    "mt_verify ml (r1_path req1) (r1_root req1) (leaf_to_field_elements
       (chunk_leaf ev' (leaf_last (r1_cur_leaf req1)) (r0_time req0) (r0_addr req0)))"
    "i = 0 \<Longrightarrow> time_ordered_eval ev' = 1 \<and> addr_ordered_eval ev' = 1"
    "i = ?n - 1 \<Longrightarrow> time_ordered_eval ev' * chunk_prod ev' (r0_time req0)
       = addr_ordered_eval ev' * chunk_prod ev' (r0_addr req0)"
    "i < ?n" "r0_idx req0 = i" "r0_time req0 = c0_time st0 ! i" "r0_addr req0 = c0_addr st0 ! i"
    "op_generate ops circ' i = op_generate ops circ i" "op_num_subcircuits ops circ' = ?n"
    "r1_idx req1 = i" "rbind (op_new ops (r1_params req1)) (op_set_witnesses ops (r1_idx req1) (r1_witnesses req1)) = Inr circ'"
    by metis
  obtain ev c1 c2 c3 t where ev: "ev' = RamEval ev" "ram_challenges ev = Some (c1, c2, c3, t)" "chals = [c1, c2, c3, t]"
    using H(2-4) by (cases ev') auto
  have len_i: "length (tss ! i) = length (ass ! i)" "i < length ass"
    using lens H(9) n(1) by (metis length_map nth_map)+
  define l where "l = last (ram_padding # concat (take i ass))"
  have l: "leaf_last (r1_cur_leaf req1) = RamEntry l"
    using last_map [of "ram_padding # concat (take i ass)" RamEntry]
    by (simp add: H(5) l_def addr take_map concat_map_map)
  have inv: "setup_ram_inv s" by (rule ram_setup_run_inv [OF traced]) simp
  note good = ram_windows [OF inv cap lens [unfolded tss_def] flat [unfolded tss_def], folded tss_def]
  have run: "ram_loaded (tss ! i) r \<Longrightarrow> run_portal ram_prover_get ram_prover_set (op_generate ops circ' i) r
      = Inr (oks ! i, ram_prover_after (length (tss ! i)) r)" for r
    using replay [OF H(9)] H(13) by simp
  have leaf: "r1_cur_leaf req1 = \<lparr>leaf_evals = RamEval ev, leaf_last = RamEntry l\<rparr>"
    using H(1) ev(1) l by (intro exec_leaf.equality) simp_all
  have sub: "r0_time req0 = map RamEntry (tss ! i)" "r0_addr req0 = map RamEntry (ass ! i)"
    using H(9,11,12) time addr n(1) len_i(2) by simp_all
  have "oks ! i" using n(2,3) H(9) by (metis nth_mem)
  from ram_stage1 [OF mt ev(2) len_i(1) _ good(3) [OF len_i(2)] run, where sp = "worker_prover req0 req1 circ' [c1, c2, c3, t]" and ml = ml]
  have "subcircuit_stage1 ops ml (\<lambda>_. True) (worker_prover req0 req1 circ' [c1, c2, c3, t]) = Inr True"
    using H(6-10,14) leaf sub ev \<open>oks ! i\<close> good(1,2) n(1) len_i(2)
    by (simp add: worker_prover_def l_def) (simp add: ram_padding_def)
  then show ?thesis
    unfolding honest_worker_def using H(1,4,10,13,15,16) ev(3) by (intro conjI exI [of _ circ'] exI [of _ chals]) simp_all
qed

text \<open>
  C11: End-to-end completeness for read-write portals, for traces of at most \<open>2 ^ 32\<close> operations:
  the stage 1 constraint system of every worker that receives the coordinator's requests is satisfied.
\<close>

theorem ram_honest_run_satisfied:
  fixes ops :: "('f::field, 'c, 'p) circuit_ops"
  assumes mt: "op_mem_type ops = Ram"
    and traced: "ram_setup_run (map (op_generate ops circ) [0..<op_num_subcircuits ops circ]) setup_ram_new = Inr (True, s)"
    and subtraces: "op_portal_subtraces ops circ = Inr (map (map RamEntry) (sm_subtraces s))"
    and cap: "card (dom (am_addresses (sm_address s))) < 2 ^ 64 - 1" "length (concat (sm_subtraces s)) \<le> 2 ^ 32"
    and ml: "merkle_complete ml"
    and c0: "coordinator0_new ops circ = Inr st0" and req0: "gen_request0 st0 i = Inr req0"
    and c1: "process_stage0_responses sha256 ser ml Ram commit_left resps st0 = Inr st1"
    and req1: "gen_request1 Ram st1 i = Inr req1" and contract: "witness_contract ops circ i"
  shows "result_map snd (process_stage1_request ops ml (\<lambda>s cb. Inr (commit s cb)) (\<lambda>cb cs rs. Inr (prove cb cs rs)) req0 resp0 req1) = Inr True"
  by (rule honest_worker_satisfied [OF ram_honest_worker [OF assms]])

section \<open>Whole runs\<close>

text \<open>
  From a traced circuit that serialises its witnesses, either memory type: the coordinator gets
  through both stages and every worker that answers its requests is satisfied.
\<close>

lemma contract_witnesses: "witness_contract ops circ i \<Longrightarrow> \<exists>w. op_get_witnesses ops circ i = Inr w"
  by (auto simp: witness_contract_def split: sum.splits)

lemma entry_kinds_of [simp]:
  "\<forall>e \<in> set (concat (map (map RomEntry) tss)). entry_kind e = Rom"
  "\<forall>e \<in> set (concat (map (map RamEntry) tss')). entry_kind e = Ram"
  by auto

lemma rom_protocol_run:
  fixes ops :: "('f::field, 'c, 'p) circuit_ops"
  assumes mt: "op_mem_type ops = Rom" and n: "op_num_subcircuits ops circ = n"
    and traced: "rom_setup_run (map (op_generate ops circ) [0..<n]) setup_rom_new = Inr (True, s)"
    and subtraces: "op_portal_subtraces ops circ = Inr (map (map RomEntry) (sr_subtraces s))"
    and cap: "card (dom (sr_var_map s)) < 2 ^ 64 - 1" "concat (sr_subtraces s) \<noteq> []"
    and contract: "\<forall>i < n. witness_contract ops circ i"
    and ml: "merkle_complete ml" "\<forall>ls. length ls = n \<longrightarrow> mt_new ml ls \<noteq> None"
    and com: "commit_left (map s0_com (sort_key s0_idx resps)) = Inr super_com"
  shows "\<exists>st0 st1. coordinator0_new ops circ = Inr st0
     \<and> process_stage0_responses sha256 ser ml Rom commit_left resps st0 = Inr st1
     \<and> (\<forall>i < n. \<exists>req0 req1. gen_request0 st0 i = Inr req0 \<and> gen_request1 Rom st1 i = Inr req1
           \<and> result_map snd (process_stage1_request ops ml (\<lambda>s cb. Inr (commit s cb)) (\<lambda>cb cs rs. Inr (prove cb cs rs)) req0 resp0 req1) = Inr True)"
proof -
  have len: "length (map (map RomEntry) (sr_subtraces s)) = op_num_subcircuits ops circ"
    using rom_recording.setup_run_replay [OF traced [unfolded rom_setup_run_def]] by (auto simp: n)
  have ne: "concat (map (map RomEntry) (sr_subtraces s)) \<noteq> []" using cap(2) by (simp only: concat_map_map) simp
  have wits: "\<forall>i < op_num_subcircuits ops circ. \<exists>w. op_get_witnesses ops circ i = Inr w"
    using contract contract_witnesses n by metis
  have new: "\<forall>ls. length ls = op_num_subcircuits ops circ \<longrightarrow> mt_new ml ls \<noteq> None" using ml(2) n by simp
  obtain st0 st1 where st: "coordinator0_new ops circ = Inr st0"
    "process_stage0_responses sha256 ser ml Rom commit_left resps st0 = Inr st1"
    "\<forall>i < op_num_subcircuits ops circ. (\<exists>req0. gen_request0 st0 i = Inr req0) \<and> (\<exists>req1. gen_request1 Rom st1 i = Inr req1)"
    using coordinator_runs [where commit_left = commit_left and resps = resps and ?sha256.0 = sha256 and ser = ser,
        OF subtraces len ne entry_kinds_of(1) wits ml(1) new com] by blast
  have "result_map snd (process_stage1_request ops ml (\<lambda>s cb. Inr (commit s cb)) (\<lambda>cb cs rs. Inr (prove cb cs rs)) req0 resp0 req1) = Inr True"
    if "i < n" "gen_request0 st0 i = Inr req0" "gen_request1 Rom st1 i = Inr req1" for i req0 req1
    using honest_worker_satisfied [OF rom_honest_worker [OF mt traced [folded n] subtraces cap(1) ml(1) st(1) that(2) st(2) that(3)]] contract that(1) by blast
  with st n show ?thesis by metis
qed

lemma ram_protocol_workers:
  fixes ops :: "('f::field, 'c, 'p) circuit_ops"
  assumes mt: "op_mem_type ops = Ram" and n: "op_num_subcircuits ops circ = n"
    and traced: "ram_setup_run (map (op_generate ops circ) [0..<n]) setup_ram_new = Inr (True, s)"
    and subtraces: "op_portal_subtraces ops circ = Inr (map (map RamEntry) (sm_subtraces s))"
    and cap: "length (concat (sm_subtraces s)) \<le> 2 ^ 32" "concat (sm_subtraces s) \<noteq> []"
    and contract: "\<forall>i < n. witness_contract ops circ i"
    and ml: "merkle_complete ml" "\<forall>ls. length ls = n \<longrightarrow> mt_new ml ls \<noteq> None"
    and com: "commit_left (map s0_com (sort_key s0_idx resps)) = Inr super_com"
  shows "\<exists>st0 st1. coordinator0_new ops circ = Inr st0
     \<and> process_stage0_responses sha256 ser ml Ram commit_left resps st0 = Inr st1
     \<and> (\<forall>i < n. \<exists>req0 req1. gen_request0 st0 i = Inr req0 \<and> gen_request1 Ram st1 i = Inr req1
           \<and> honest_worker ops ml circ i req0 req1)"
proof -
  have len: "length (map (map RamEntry) (sm_subtraces s)) = op_num_subcircuits ops circ"
    using ram_recording.setup_run_replay [OF traced [unfolded ram_setup_run_def]] by (auto simp: n)
  have ne: "concat (map (map RamEntry) (sm_subtraces s)) \<noteq> []" using cap(2) by (simp only: concat_map_map) simp
  have "setup_ram_addresses_ok s" using ram_setup_run_addresses [OF traced] by simp
  then have addresses: "card (dom (am_addresses (sm_address s))) < 2 ^ 64 - 1"
    using cap(1) unfolding setup_ram_addresses_ok_def by simp
  have wits: "\<forall>i < op_num_subcircuits ops circ. \<exists>w. op_get_witnesses ops circ i = Inr w"
    using contract contract_witnesses n by metis
  have new: "\<forall>ls. length ls = op_num_subcircuits ops circ \<longrightarrow> mt_new ml ls \<noteq> None" using ml(2) n by simp
  obtain st0 st1 where st: "coordinator0_new ops circ = Inr st0"
    "process_stage0_responses sha256 ser ml Ram commit_left resps st0 = Inr st1"
    "\<forall>i < op_num_subcircuits ops circ. (\<exists>req0. gen_request0 st0 i = Inr req0) \<and> (\<exists>req1. gen_request1 Ram st1 i = Inr req1)"
    using coordinator_runs [where commit_left = commit_left and resps = resps and ?sha256.0 = sha256 and ser = ser,
        OF subtraces len ne entry_kinds_of(2) wits ml(1) new com] by blast
  have "honest_worker ops ml circ i req0 req1"
    if "i < n" "gen_request0 st0 i = Inr req0" "gen_request1 Ram st1 i = Inr req1" for i req0 req1
    using ram_honest_worker [OF mt traced [folded n] subtraces addresses cap(1) ml(1) st(1) that(2) st(2) that(3)] contract that(1) by blast
  with st n show ?thesis by metis
qed

lemma ram_protocol_run:
  fixes ops :: "('f::field, 'c, 'p) circuit_ops"
  assumes mt: "op_mem_type ops = Ram" and n: "op_num_subcircuits ops circ = n"
    and traced: "ram_setup_run (map (op_generate ops circ) [0..<n]) setup_ram_new = Inr (True, s)"
    and subtraces: "op_portal_subtraces ops circ = Inr (map (map RamEntry) (sm_subtraces s))"
    and cap: "length (concat (sm_subtraces s)) \<le> 2 ^ 32" "concat (sm_subtraces s) \<noteq> []"
    and contract: "\<forall>i < n. witness_contract ops circ i"
    and ml: "merkle_complete ml" "\<forall>ls. length ls = n \<longrightarrow> mt_new ml ls \<noteq> None"
    and com: "commit_left (map s0_com (sort_key s0_idx resps)) = Inr super_com"
  shows "\<exists>st0 st1. coordinator0_new ops circ = Inr st0
     \<and> process_stage0_responses sha256 ser ml Ram commit_left resps st0 = Inr st1
     \<and> (\<forall>i < n. \<exists>req0 req1. gen_request0 st0 i = Inr req0 \<and> gen_request1 Ram st1 i = Inr req1
           \<and> result_map snd (process_stage1_request ops ml (\<lambda>s cb. Inr (commit s cb)) (\<lambda>cb cs rs. Inr (prove cb cs rs)) req0 resp0 req1) = Inr True)"
proof -
  obtain st0 st1 where st: "coordinator0_new ops circ = Inr st0"
    "process_stage0_responses sha256 ser ml Ram commit_left resps st0 = Inr st1"
    "\<forall>i < n. \<exists>req0 req1. gen_request0 st0 i = Inr req0 \<and> gen_request1 Ram st1 i = Inr req1 \<and> honest_worker ops ml circ i req0 req1"
    using ram_protocol_workers [where commit_left = commit_left and resps = resps and ?sha256.0 = sha256 and ser = ser,
        OF mt n traced subtraces cap contract ml com] by (elim exE conjE)
  then show ?thesis using honest_worker_satisfied by metis
qed

section \<open>A run of two subcircuits\<close>

text \<open>
  A small circuit, which sets a portal in its first subcircuit and reads it in the second, over a
  ``tree'' that is the list of its leaves. It shows that the two theorems apply.
\<close>

definition flat_merkle :: "(rat, rat list list, rat list list, nat) merkle_lib" where
  "flat_merkle = \<lparr>mt_new = Some, mt_root = (\<lambda>ls. ls), mt_proof = (\<lambda>ls i. if i < length ls then Some i else None),
     mt_verify = (\<lambda>i ls l. i < length ls \<and> ls ! i = l), mt_default_path = (\<lambda>n. n), mt_default_root = []\<rparr>"

fun pair_generate :: "nat \<Rightarrow> (rat, bool) portal" where
  "pair_generate 0 = Set ''x'' 5 (Return True)"
| "pair_generate (Suc i) = Get ''x'' (\<lambda>v. Return (v = 5))"

definition pair_ops :: "mem_type \<Rightarrow> rat transcript_entry list list \<Rightarrow> (rat, unit, unit) circuit_ops" where
  "pair_ops mt sts = \<lparr>op_mem_type = mt, op_get_params = (\<lambda>_. ()), op_portal_subtraces = (\<lambda>_. Inr sts),
     op_num_subcircuits = (\<lambda>_. 2), op_unique_subcircuits = (\<lambda>_. Inr [0, 1]), op_representative = (\<lambda>_. Inr),
     op_new = (\<lambda>_. Inr ()), op_get_witnesses = (\<lambda>_ _. Inr []), op_set_witnesses = (\<lambda>_ _ _. Inr ()),
     op_generate = (\<lambda>_. pair_generate)\<rparr>"

definition pair_rom_trace :: "rat rom_entry list list" where
  "pair_rom_trace = replicate 2 [\<lparr>rom_addr = 1, rom_val = 5\<rparr>]"

definition pair_ram_trace :: "rat ram_entry list list" where
  "pair_ram_trace = [[\<lparr>ram_addr = 1, ram_val = 5, ram_i = u32_default, ram_read = False\<rparr>],
     [\<lparr>ram_addr = 1, ram_val = 5, ram_i = increment_inplace u32_default, ram_read = True\<rparr>]]"

lemma flat_merkle_complete: "merkle_complete flat_merkle"
  by (simp add: merkle_complete_def flat_merkle_def)

lemma upt_0_2: "[0..<2] = [0, 1::nat]" by (simp add: upt_rec)

lemma pair_contract: "witness_contract (pair_ops mt sts) () i"
  by (simp add: witness_contract_def pair_ops_def)

lemma pair_rom_run:
  "rom_setup_run (map pair_generate [0..<2]) setup_rom_new
     = Inr (True, \<lparr>sr_subtraces = pair_rom_trace, sr_next_var_addr = 2, sr_var_map = [''x'' \<mapsto> \<lparr>rom_addr = 1, rom_val = 5\<rparr>]\<rparr>)"
  by (simp add: upt_0_2 rom_setup_run_def setup_rom_start_subtrace_def setup_rom_new_def setup_rom_set_def
      setup_rom_get_def push_last_def Let_def numeral_2_eq_2 pair_rom_trace_def)

lemma pair_ram_run:
  "ram_setup_run (map pair_generate [0..<2]) setup_ram_new
     = Inr (True, \<lparr>sm_subtraces = pair_ram_trace, sm_address = \<lparr>am_addresses = [''x'' \<mapsto> 1], am_current = 2\<rparr>,
                   sm_time = increment_inplace (increment_inplace u32_default), sm_var_map = [''x'' \<mapsto> 5]\<rparr>)"
  by (simp add: upt_0_2 ram_setup_run_def setup_ram_start_subtrace_def setup_ram_new_def setup_ram_set_def
      setup_ram_get_def push_last_def name_to_addr_def address_manager_new_def u32_default_def pair_ram_trace_def)

lemma pair_rom_messages:
  "\<exists>st0. coordinator0_new (pair_ops Rom (map (map RomEntry) pair_rom_trace)) () = Inr st0
     \<and> (\<exists>req0. gen_request0 st0 1 = Inr req0)
     \<and> (\<exists>st1. process_stage0_responses (\<lambda>_. [3]) (\<lambda>_. []) flat_merkle Rom (\<lambda>_. Inr ())
                 ([] :: (unit, unit) stage0_response list) st0 = Inr st1
          \<and> (\<exists>req1. gen_request1 Rom st1 1 = Inr req1))"
  by (simp add: pair_ops_def upt_0_2 coordinator0_new_def sort_subtraces_by_addr_def numeral_2_eq_2 gen_request0_def
      process_stage0_responses_def coordinator1_new_def generate_exec_tree_def rom_evals_new_def hash_challenge_def
      from_le_bytes_mod_order_def Let_def pair_rom_trace_def)
    (simp add: absorb_entries_def flat_merkle_def gen_request1_def rom_update_time_ordered_def rom_update_addr_ordered_def)

lemma pair_ram_messages:
  "\<exists>st0. coordinator0_new (pair_ops Ram (map (map RamEntry) pair_ram_trace)) () = Inr st0
     \<and> (\<exists>req0. gen_request0 st0 1 = Inr req0)
     \<and> (\<exists>st1. process_stage0_responses (\<lambda>_. [3]) (\<lambda>_. []) flat_merkle Ram (\<lambda>_. Inr ())
                 ([] :: (unit, unit) stage0_response list) st0 = Inr st1
          \<and> (\<exists>req1. gen_request1 Ram st1 1 = Inr req1))"
  by (simp add: pair_ops_def upt_0_2 coordinator0_new_def sort_subtraces_by_addr_def numeral_2_eq_2 gen_request0_def
      process_stage0_responses_def coordinator1_new_def generate_exec_tree_def ram_evals_new_def hash_challenge_def
      from_le_bytes_mod_order_def Let_def pair_ram_trace_def representation_increment)
    (simp add: absorb_entries_def flat_merkle_def gen_request1_def ram_update_time_ordered_def ram_update_addr_ordered_def)

theorem rom_honest_run_satisfied_witness:
  "\<exists>st0 st1 req0 req1. coordinator0_new (pair_ops Rom (map (map RomEntry) pair_rom_trace)) () = Inr st0
     \<and> gen_request0 st0 1 = Inr req0 \<and> gen_request1 Rom st1 1 = Inr req1
     \<and> process_stage0_responses (\<lambda>_. [3]) (\<lambda>_. []) flat_merkle Rom (\<lambda>_. Inr ())
         ([] :: (unit, unit) stage0_response list) st0 = Inr st1
     \<and> result_map snd (process_stage1_request (pair_ops Rom (map (map RomEntry) pair_rom_trace)) flat_merkle
         (\<lambda>s cb. Inr ((), ())) (\<lambda>cb cs rs. Inr ()) req0 \<lparr>s0_idx = 1, s0_com = (), s0_seed = ()\<rparr> req1) = Inr True"
proof -
  let ?ops = "pair_ops Rom (map (map RomEntry) pair_rom_trace)"
  from pair_rom_messages obtain st0 req0 st1 req1 where m: "coordinator0_new ?ops () = Inr st0" "gen_request0 st0 1 = Inr req0"
    "process_stage0_responses (\<lambda>_. [3]) (\<lambda>_. []) flat_merkle Rom (\<lambda>_. Inr ()) ([] :: (unit, unit) stage0_response list) st0 = Inr st1"
    "gen_request1 Rom st1 1 = Inr req1" by blast
  have run: "rom_setup_run (map (op_generate ?ops ()) [0..<op_num_subcircuits ?ops ()]) setup_rom_new
      = Inr (True, \<lparr>sr_subtraces = pair_rom_trace, sr_next_var_addr = 2, sr_var_map = [''x'' \<mapsto> \<lparr>rom_addr = 1, rom_val = 5\<rparr>]\<rparr>)"
    using pair_rom_run by (simp add: pair_ops_def)
  from rom_honest_run_satisfied [OF _ run _ _ flat_merkle_complete m(1,2,3,4) pair_contract,
      where commit = "\<lambda>s cb. ((), ())" and prove = "\<lambda>cb cs rs. ()" and ?resp0.0 = "\<lparr>s0_idx = 1, s0_com = (), s0_seed = ()\<rparr>"]
  have "result_map snd (process_stage1_request ?ops flat_merkle (\<lambda>s cb. Inr ((), ())) (\<lambda>cb cs rs. Inr ()) req0
      \<lparr>s0_idx = 1, s0_com = (), s0_seed = ()\<rparr> req1) = Inr True"
    by (simp add: pair_ops_def)
  with m show ?thesis by blast
qed

theorem ram_honest_run_satisfied_witness:
  "\<exists>st0 st1 req0 req1. coordinator0_new (pair_ops Ram (map (map RamEntry) pair_ram_trace)) () = Inr st0
     \<and> gen_request0 st0 1 = Inr req0 \<and> gen_request1 Ram st1 1 = Inr req1
     \<and> process_stage0_responses (\<lambda>_. [3]) (\<lambda>_. []) flat_merkle Ram (\<lambda>_. Inr ())
         ([] :: (unit, unit) stage0_response list) st0 = Inr st1
     \<and> result_map snd (process_stage1_request (pair_ops Ram (map (map RamEntry) pair_ram_trace)) flat_merkle
         (\<lambda>s cb. Inr ((), ())) (\<lambda>cb cs rs. Inr ()) req0 \<lparr>s0_idx = 1, s0_com = (), s0_seed = ()\<rparr> req1) = Inr True"
proof -
  let ?ops = "pair_ops Ram (map (map RamEntry) pair_ram_trace)"
  from pair_ram_messages obtain st0 req0 st1 req1 where m: "coordinator0_new ?ops () = Inr st0" "gen_request0 st0 1 = Inr req0"
    "process_stage0_responses (\<lambda>_. [3]) (\<lambda>_. []) flat_merkle Ram (\<lambda>_. Inr ()) ([] :: (unit, unit) stage0_response list) st0 = Inr st1"
    "gen_request1 Ram st1 1 = Inr req1" by blast
  define s where "s = \<lparr>sm_subtraces = pair_ram_trace, sm_address = \<lparr>am_addresses = [''x'' \<mapsto> 1], am_current = 2\<rparr>,
                   sm_time = increment_inplace (increment_inplace u32_default), sm_var_map = [''x'' \<mapsto> 5 :: rat]\<rparr>"
  have run: "ram_setup_run (map (op_generate ?ops ()) [0..<op_num_subcircuits ?ops ()]) setup_ram_new = Inr (True, s)"
    using pair_ram_run by (simp add: pair_ops_def s_def)
  from ram_honest_run_satisfied [OF _ run _ _ _ flat_merkle_complete m(1,2,3,4) pair_contract,
      where commit = "\<lambda>s cb. ((), ())" and prove = "\<lambda>cb cs rs. ()" and ?resp0.0 = "\<lparr>s0_idx = 1, s0_com = (), s0_seed = ()\<rparr>"]
  have "result_map snd (process_stage1_request ?ops flat_merkle (\<lambda>s cb. Inr ((), ())) (\<lambda>cb cs rs. Inr ()) req0
      \<lparr>s0_idx = 1, s0_com = (), s0_seed = ()\<rparr> req1) = Inr True"
    by (simp add: pair_ops_def s_def pair_ram_trace_def)
  with m show ?thesis by blast
qed

text \<open>
  C18: An honest coordinator never fails. If the circuit traces to one subtrace per subcircuit, of one
  memory type and not all empty, its witnesses serialise, the inner-pairing commitment succeeds and the
  Merkle tree library builds trees of that many leaves, then stage 0, the execution tree and every
  request of both stages are produced without a panic, whatever the workers answered.
\<close>

theorem honest_coordinator_never_fails:
  fixes ops :: "('f::field, 'c, 'p) circuit_ops"
  assumes "op_portal_subtraces ops circ = Inr tss" and "length tss = op_num_subcircuits ops circ" and "concat tss \<noteq> []"
    and "\<forall>e \<in> set (concat tss). entry_kind e = mt"
    and "\<forall>i < op_num_subcircuits ops circ. \<exists>w. op_get_witnesses ops circ i = Inr w"
    and "merkle_complete ml" and "\<forall>ls. length ls = op_num_subcircuits ops circ \<longrightarrow> mt_new ml ls \<noteq> None"
    and "commit_left (map s0_com (sort_key s0_idx resps)) = Inr super_com"
  shows "\<exists>st0 st1. coordinator0_new ops circ = Inr st0
     \<and> process_stage0_responses sha256 ser ml mt commit_left resps st0 = Inr st1
     \<and> (\<forall>i < op_num_subcircuits ops circ. (\<exists>req0. gen_request0 st0 i = Inr req0) \<and> (\<exists>req1. gen_request1 mt st1 i = Inr req1))"
  by (rule coordinator_runs [where commit_left = commit_left and resps = resps, OF assms])

theorem honest_coordinator_never_fails_witness:
  "\<exists>st0 st1 req0 req1. coordinator0_new (pair_ops Ram (map (map RamEntry) pair_ram_trace)) () = Inr st0
     \<and> process_stage0_responses (\<lambda>_. [3]) (\<lambda>_. []) flat_merkle Ram (\<lambda>_. Inr ())
          [\<lparr>s0_idx = 1, s0_com = (), s0_seed = ()\<rparr>, \<lparr>s0_idx = 0, s0_com = (), s0_seed = ()\<rparr>] st0 = Inr st1
     \<and> gen_request0 st0 1 = Inr req0 \<and> gen_request1 Ram st1 1 = Inr req1"
proof -
  let ?ops = "pair_ops Ram (map (map RamEntry) pair_ram_trace)"
  have ops: "op_portal_subtraces ?ops () = Inr (map (map RamEntry) pair_ram_trace)" "op_num_subcircuits ?ops () = 2"
    "\<forall>i < op_num_subcircuits ?ops (). \<exists>w. op_get_witnesses ?ops () i = Inr w"
    "length (map (map RamEntry) pair_ram_trace) = op_num_subcircuits ?ops ()"
    by (simp_all add: pair_ops_def pair_ram_trace_def)
  have tr: "concat (map (map RamEntry) pair_ram_trace) \<noteq> []"
    "\<forall>e \<in> set (concat (map (map RamEntry) pair_ram_trace)). entry_kind e = Ram"
    by (simp_all add: pair_ram_trace_def)
  have new: "\<forall>ls. length ls = op_num_subcircuits ?ops () \<longrightarrow> mt_new flat_merkle ls \<noteq> None" by (simp add: flat_merkle_def)
  from honest_coordinator_never_fails [where commit_left = "\<lambda>_. Inr ()" and super_com = "()"
      and resps = "[\<lparr>s0_idx = 1, s0_com = (), s0_seed = ()\<rparr>, \<lparr>s0_idx = 0, s0_com = (), s0_seed = ()\<rparr>]"
      and ?sha256.0 = "\<lambda>_. [3]" and ser = "\<lambda>_. []", OF ops(1,4) tr ops(3) flat_merkle_complete new refl]
  show ?thesis using ops(2) by (metis one_less_numeral_iff semiring_norm(76))
qed

end
