(* ===== verification/Vkd_Hash.thy ===== *)
theory Vkd_Hash
  imports Util Uint32 Transcript
begin

text \<open>
  The hash functions of the verifiable key directory, \<open>distributed-prover/src/vkd/hash.rs\<close>, and
  the digest conversions of \<open>distributed-prover/src/vkd/util.rs\<close>, natively and in the circuit.
  SHA-256, the Poseidon sponge and permutation, the byte encoding of field elements and the bit
  decomposition gadget belong to libraries and are the fields of a parameter.
\<close>

section \<open>The libraries\<close>

record 'f hash_lib =
  hl_sha256 :: "u8 list \<Rightarrow> u8 list"
  hl_sha256_gadget :: "u8 list \<Rightarrow> u8 list"
  hl_sponge :: "'f list \<Rightarrow> 'f"
  hl_crh_gadget :: "'f list \<Rightarrow> 'f"
  hl_two_to_one :: "'f \<Rightarrow> 'f \<Rightarrow> 'f"
  hl_two_to_one_gadget :: "'f \<Rightarrow> 'f \<Rightarrow> 'f"
  hl_sponge_bytes :: "'f \<Rightarrow> u8 list"
  hl_to_bytes :: "'f \<Rightarrow> u8 list"
  hl_to_bits_le :: "'f \<Rightarrow> bool list"

section \<open>Native hashes\<close>

datatype hash_type = Sha256 | Poseidon

definition inner_hash_size :: nat where
  "inner_hash_size = 27"

definition hash_type_const :: hash_type where
  "hash_type_const = Poseidon"

definition vkd_hash :: "'f::field hash_lib \<Rightarrow> u8 list \<Rightarrow> failure + u8 list" where
  "vkd_hash hl v =
     (if hash_type_const = Sha256 then Inr (hl_sha256 hl v)
      else let field_vector = map from_le_bytes_mod_order (chunks inner_hash_size v);
               squeezed_field_element = hl_sponge hl field_vector
           in slice_range 0 32 (hl_sponge_bytes hl squeezed_field_element))"

definition hash_leaf :: "'f::field hash_lib \<Rightarrow> u8 list \<Rightarrow> failure + u8 list" where
  "hash_leaf hl leaf =
     rbind (unwrap_res ''hash'' (vkd_hash hl leaf)) (\<lambda>h.
     rbind (slice_range 0 inner_hash_size h) (\<lambda>digest.
     array_from inner_hash_size digest))"

definition hash_inner_node :: "'f::field hash_lib \<Rightarrow> u8 list \<Rightarrow> u8 list \<Rightarrow> failure + u8 list" where
  "hash_inner_node hl left right =
     (if hash_type_const = Sha256 then
        rbind (slice_range 0 inner_hash_size (hl_sha256 hl (left @ right))) (array_from inner_hash_size)
      else
        let left_field_element = from_le_bytes_mod_order left;
            right_field_element = from_le_bytes_mod_order right;
            poseidon_output = hl_two_to_one hl left_field_element right_field_element
        in rbind (slice_range 0 inner_hash_size (hl_sponge_bytes hl poseidon_output)) (array_from inner_hash_size))"

section \<open>Digests as field elements\<close>

text \<open>A byte as its bits, least significant first (\<open>UInt8::to_bits_le\<close>).\<close>

definition byte_bits :: "u8 \<Rightarrow> bool list" where
  "byte_bits b = val_bits 8 (unat b)"

definition le_bits_to_fp_var :: "bool list \<Rightarrow> 'f::field" where
  "le_bits_to_fp_var bs = of_nat (bits_val bs)"

definition digest_to_fpvar :: "u8 list \<Rightarrow> 'f::field" where
  "digest_to_fpvar digest = le_bits_to_fp_var (concat (map byte_bits (take inner_hash_size digest)))"

definition fpvar_to_digest :: "'f::field hash_lib \<Rightarrow> 'f \<Rightarrow> failure + u8 list" where
  "fpvar_to_digest hl f = rmap from_bits_le (take inner_hash_size (chunks 8 (hl_to_bits_le hl f)))"

definition inner_hash_to_fpvar :: "u8 list \<Rightarrow> 'f::field" where
  "inner_hash_to_fpvar digest = from_le_bytes_mod_order digest"

section \<open>Hash gadgets\<close>

text \<open>
  The gadgets by the values of their outputs. With Poseidon, \<open>hash_inner_node_var\<close> allocates its
  truncated output as a fresh witness: the honest prover assigns the value below, no constraint
  ties it to the inputs.
\<close>

definition hash_var :: "'f::field hash_lib \<Rightarrow> u8 list \<Rightarrow> failure + u8 list" where
  "hash_var hl leaf =
     (if hash_type_const = Sha256 then array_from 32 (hl_sha256_gadget hl leaf)
      else
        rbind (vindex leaf 0) (\<lambda>_.
        let leaf_as_field_vector = map (\<lambda>chunk. le_bits_to_fp_var (concat (map byte_bits chunk))) (chunks inner_hash_size leaf);
            digest_field_value = hl_crh_gadget hl leaf_as_field_vector
        in rbind (slice_range 0 32 (hl_to_bytes hl digest_field_value)) (array_from 32)))"

definition hash_leaf_var :: "'f::field hash_lib \<Rightarrow> u8 list \<Rightarrow> failure + 'f" where
  "hash_leaf_var hl leaf =
     rbind (unwrap_res ''hash_var'' (hash_var hl leaf)) (\<lambda>digest.
     rbind (slice_range 0 inner_hash_size digest) (\<lambda>digest_var. Inr (digest_to_fpvar digest_var)))"

definition hash_inner_node_var :: "'f::field hash_lib \<Rightarrow> 'f \<Rightarrow> 'f \<Rightarrow> failure + 'f" where
  "hash_inner_node_var hl left_input right_input =
     (if hash_type_const = Sha256 then
        rbind (unwrap_res ''fpvar_to_digest'' (fpvar_to_digest hl left_input)) (\<lambda>left_input_bytes.
        rbind (unwrap_res ''fpvar_to_digest'' (fpvar_to_digest hl right_input)) (\<lambda>right_input_bytes.
        Inr (digest_to_fpvar (hl_sha256_gadget hl (left_input_bytes @ right_input_bytes)))))
      else
        let poseidon_digest = hl_two_to_one_gadget hl left_input right_input
        in rbind (slice_range 0 inner_hash_size (hl_sponge_bytes hl poseidon_digest)) (\<lambda>truncated.
             Inr (from_le_bytes_mod_order truncated)))"

section \<open>The gadgets compute the native hashes\<close>

text \<open>
  What the libraries promise: the gadgets compute the native functions, an element of the field has
  32 bytes, the gadget's bytes are the native ones, and small numbers decompose into their binary
  digits.
\<close>

definition hash_lib_ok :: "'f::field hash_lib \<Rightarrow> bool" where
  "hash_lib_ok hl \<longleftrightarrow>
     hl_sha256_gadget hl = hl_sha256 hl \<and> hl_crh_gadget hl = hl_sponge hl
     \<and> hl_two_to_one_gadget hl = hl_two_to_one hl
     \<and> (\<forall>x. length (hl_sponge_bytes hl x) = 32) \<and> hl_to_bytes hl = hl_sponge_bytes hl
     \<and> (\<forall>n < 2 ^ 216. \<exists>rest. hl_to_bits_le hl (of_nat n) = val_bits 216 n @ rest)"

lemma bits_val_byte_bits [simp]: "bits_val (byte_bits b) = unat b"
  by (simp add: byte_bits_def bits_val_val_bits)

lemma length_byte_bits [simp]: "length (byte_bits b) = 8"
  by (simp add: byte_bits_def)

lemma bits_val_concat_bytes: "bits_val (concat (map byte_bits bs)) = bytes_val bs"
  by (induction bs) (simp_all add: bits_val_append)

lemma length_concat_bytes [simp]: "length (concat (map byte_bits bs)) = 8 * length bs"
  by (induction bs) simp_all

lemma le_bits_bytes: "(le_bits_to_fp_var (concat (map byte_bits bs)) :: 'f::field) = from_le_bytes_mod_order bs"
  by (simp add: le_bits_to_fp_var_def from_le_bytes_mod_order_def bits_val_concat_bytes)

lemma digest_to_fpvar_eq:
  "length d \<le> inner_hash_size \<Longrightarrow> (digest_to_fpvar d :: 'f::field) = inner_hash_to_fpvar d"
  by (simp add: digest_to_fpvar_def le_bits_bytes inner_hash_to_fpvar_def)

lemma hash_type_not_sha [simp]: "hash_type_const \<noteq> Sha256"
  by (simp add: hash_type_const_def)

lemma vkd_hash_total: "hash_lib_ok hl \<Longrightarrow> \<exists>h. vkd_hash hl v = Inr h \<and> length h = 32"
  by (auto simp: vkd_hash_def hash_lib_ok_def Let_def slice_range_def)

lemma hash_var_eq: "hash_lib_ok hl \<Longrightarrow> v \<noteq> [] \<Longrightarrow> hash_var hl v = vkd_hash hl v"
  by (simp add: hash_var_def vkd_hash_def hash_lib_ok_def Let_def le_bits_bytes array_from_def)

lemma hash_leaf_length: "hash_leaf hl v = Inr h \<Longrightarrow> length h = inner_hash_size"
  by (auto simp: hash_leaf_def res_simps)

lemma hash_leaf_total: "hash_lib_ok hl \<Longrightarrow> \<exists>h. hash_leaf hl v = Inr h"
  using vkd_hash_total [of hl v] by (auto simp: hash_leaf_def array_from_def inner_hash_size_def)

lemma hash_inner_node_length: "hash_inner_node hl l r = Inr h \<Longrightarrow> length h = inner_hash_size"
  by (auto simp: hash_inner_node_def Let_def res_simps)

lemma hash_inner_node_total: "hash_lib_ok hl \<Longrightarrow> \<exists>h. hash_inner_node hl l r = Inr h"
  by (simp add: hash_inner_node_def Let_def hash_lib_ok_def array_from_def inner_hash_size_def)

lemma hash_leaf_var_eq:
  "hash_lib_ok hl \<Longrightarrow> v \<noteq> [] \<Longrightarrow> hash_leaf_var hl v = result_map inner_hash_to_fpvar (hash_leaf hl v)"
  using vkd_hash_total [of hl v]
  by (auto simp: hash_leaf_var_def hash_leaf_def hash_var_eq array_from_def inner_hash_size_def digest_to_fpvar_eq)

lemma hash_inner_node_var_eq:
  "hash_lib_ok hl \<Longrightarrow> hash_inner_node_var hl (inner_hash_to_fpvar l) (inner_hash_to_fpvar r)
     = result_map inner_hash_to_fpvar (hash_inner_node hl l r)"
  by (simp add: hash_inner_node_var_def hash_inner_node_def Let_def hash_lib_ok_def array_from_def
      inner_hash_size_def inner_hash_to_fpvar_def)

text \<open>A field element made of a digest is taken back to the digest, and tells digests apart.\<close>

lemma inner_hash_bits:
  assumes "hash_lib_ok hl" and "length d \<le> 27" and "k \<le> 8 * length d"
  shows "take k (hl_to_bits_le hl (inner_hash_to_fpvar d)) = take k (concat (map byte_bits d))"
proof -
  have "(256 :: nat) ^ length d \<le> 256 ^ 27" using assms(2) by (rule power_increasing) simp
  then have less: "bytes_val d < 2 ^ 216" using bytes_val_less [of d] by simp
  with assms(1) obtain rest where "hl_to_bits_le hl (of_nat (bytes_val d)) = val_bits 216 (bytes_val d) @ rest"
    by (auto simp: hash_lib_ok_def)
  moreover have "take k (val_bits 216 (bytes_val d)) = val_bits k (bytes_val d)"
    using assms(2,3) by (intro take_val_bits) simp
  moreover have "val_bits k (bytes_val d) = take k (concat (map byte_bits d))"
    using take_val_bits [OF assms(3), of "bytes_val d"]
      val_bits_bits_val [of "concat (map byte_bits d)" "8 * length d"]
    by (simp add: bits_val_concat_bytes)
  ultimately show ?thesis
    using assms(2,3) by (simp add: inner_hash_to_fpvar_def from_le_bytes_mod_order_def)
qed

lemma inner_hash_to_fpvar_inj:
  assumes "char_above TYPE('f::field) (2 ^ 216)" and "length d = inner_hash_size" "length d' = inner_hash_size"
  shows "(inner_hash_to_fpvar d :: 'f) = inner_hash_to_fpvar d' \<longleftrightarrow> d = d'"
proof -
  have "bytes_val d < 2 ^ 216" "bytes_val d' < 2 ^ 216"
    using bytes_val_less [of d] bytes_val_less [of d'] assms(2,3) by (simp_all add: inner_hash_size_def)
  then have "(of_nat (bytes_val d) :: 'f) = of_nat (bytes_val d') \<longleftrightarrow> bytes_val d = bytes_val d'"
    using char_above_inj [OF assms(1)] by simp
  then show ?thesis
    using bytes_val_inj [of d d'] assms(2,3) by (simp add: inner_hash_to_fpvar_def from_le_bytes_mod_order_def)
qed

lemma rmap_from_bits_bytes:
  "rmap from_bits_le (take (length d) (chunks 8 (concat (map byte_bits d) @ rest))) = Inr d"
proof (induction d)
  case (Cons b d)
  have "chunks 8 (concat (map byte_bits (b # d)) @ rest) = byte_bits b # chunks 8 (concat (map byte_bits d) @ rest)"
    using chunks_append_exact [of 8 "byte_bits b"] by simp
  with Cons show ?case by (simp add: from_bits_le_def)
qed simp

lemma fpvar_to_digest_eq:
  assumes "hash_lib_ok hl" and "length d = inner_hash_size"
  shows "fpvar_to_digest hl (inner_hash_to_fpvar d) = Inr d"
proof -
  let ?bits = "hl_to_bits_le hl (inner_hash_to_fpvar d)"
  have "take 216 ?bits = concat (map byte_bits d)"
    using inner_hash_bits [OF assms(1), of d 216] assms(2) by (simp add: inner_hash_size_def)
  then have "?bits = concat (map byte_bits d) @ drop 216 ?bits" by (metis append_take_drop_id)
  then show ?thesis
    using rmap_from_bits_bytes [of d "drop 216 ?bits"] assms(2) by (simp add: fpvar_to_digest_def)
qed

text \<open>
  Digests and field elements correspond, and the hash gadgets compute the native hashes: a
  truncated digest read into the field and back is unchanged, the leaf gadget yields the element of
  the native leaf hash, and the inner gadget maps the elements of two digests to the element of
  their native parent.
\<close>

theorem vkd_hash_gadgets_match:
  fixes hl :: "'f::field hash_lib"
  assumes "hash_lib_ok hl" and "v \<noteq> []" and "length l = inner_hash_size"
  shows "fpvar_to_digest hl (digest_to_fpvar l) = Inr l
    \<and> hash_var hl v = vkd_hash hl v
    \<and> (\<exists>h. hash_leaf hl v = Inr h \<and> length h = inner_hash_size \<and> hash_leaf_var hl v = Inr (inner_hash_to_fpvar h))
    \<and> (\<exists>p. hash_inner_node hl l r = Inr p \<and> length p = inner_hash_size
          \<and> hash_inner_node_var hl (inner_hash_to_fpvar l) (inner_hash_to_fpvar r) = Inr (inner_hash_to_fpvar p))"
proof -
  obtain h p where h: "hash_leaf hl v = Inr h" and p: "hash_inner_node hl l r = Inr p"
    using hash_leaf_total [OF assms(1)] hash_inner_node_total [OF assms(1)] by blast
  show ?thesis
    using hash_leaf_var_eq [OF assms(1,2)] hash_inner_node_var_eq [OF assms(1), of l r] hash_leaf_length [OF h]
      hash_inner_node_length [OF p] fpvar_to_digest_eq [OF assms(1,3)] digest_to_fpvar_eq [of l, where 'f = 'f]
    by (simp add: h p assms(3) hash_var_eq [OF assms(1,2)])
qed

text \<open>A small instance of the libraries over the rationals.\<close>

definition toy_hash_lib :: "rat hash_lib" where
  "toy_hash_lib = \<lparr>hl_sha256 = (\<lambda>v. replicate 32 0), hl_sha256_gadget = (\<lambda>v. replicate 32 0),
     hl_sponge = sum_list, hl_crh_gadget = sum_list, hl_two_to_one = (\<lambda>l r. l + 2 * r),
     hl_two_to_one_gadget = (\<lambda>l r. l + 2 * r),
     hl_sponge_bytes = (\<lambda>x. val_bytes 32 (nat \<lfloor>x\<rfloor>)), hl_to_bytes = (\<lambda>x. val_bytes 32 (nat \<lfloor>x\<rfloor>)),
     hl_to_bits_le = (\<lambda>x. val_bits 255 (nat \<lfloor>x\<rfloor>))\<rparr>"

lemma val_bits_prefix: "j \<le> k \<Longrightarrow> \<exists>rest. val_bits k n = val_bits j n @ rest"
  by (metis append_take_drop_id take_val_bits)

lemma toy_hash_lib_ok: "hash_lib_ok toy_hash_lib"
proof -
  have "\<exists>rest. hl_to_bits_le toy_hash_lib (of_nat n) = val_bits 216 n @ rest" for n
    using val_bits_prefix [of 216 255 n] by (simp only: toy_hash_lib_def hash_lib.select_convs floor_of_nat nat_int)
  then show ?thesis by (simp add: hash_lib_ok_def) (simp add: toy_hash_lib_def)
qed

theorem vkd_hash_gadgets_match_witness:
  "fpvar_to_digest toy_hash_lib (digest_to_fpvar (replicate 27 7)) = Inr (replicate 27 7)"
  using vkd_hash_gadgets_match [of toy_hash_lib "[1]" "replicate 27 7" "[]", THEN conjunct1]
  by (simp add: toy_hash_lib_ok inner_hash_size_def)

end
