(* ===== verification/Sparse_Tree.thy ===== *)
theory Sparse_Tree
  imports Vkd_Hash
begin

unbundle bit_operations_syntax

text \<open>
  The sparse Merkle tree of the verifiable key directory, \<open>distributed-prover/src/vkd/sparse_tree.rs\<close>,
  and its path gadget, \<open>sparse_tree_constraints.rs\<close>. The hash maps are maps, \<open>BigUint\<close> is
  \<open>nat\<close>, the depth of the parameters type is the argument \<open>D\<close>. The tree is shown to be the plain
  Merkle tree over all \<open>2 ^ D\<close> leaves, most of which are the initial one.
\<close>

section \<open>Definitions\<close>

record merkle_index =
  mi_index :: nat
  mi_depth :: nat

definition is_even :: "nat \<Rightarrow> bool" where
  "is_even n \<longleftrightarrow> n mod 2 = 0"

fun index_bits :: "nat \<Rightarrow> nat \<Rightarrow> bool list" where
  "index_bits 0 i = []"
| "index_bits (Suc d) i = (if is_even i then True else False) # index_bits d (drop_bit 1 i)"

definition to_bit_vector :: "merkle_index \<Rightarrow> bool list" where
  "to_bit_vector mi = index_bits (mi_depth mi) (mi_index mi)"

datatype node_type = Leaf | InternalNode

record sparse_tree =
  st_tree :: "merkle_index \<rightharpoonup> u8 list"
  st_leaves :: "merkle_index \<rightharpoonup> u8 list"
  st_root :: "u8 list"
  st_initial :: "u8 list list"

definition initial_leaf_value :: "u8 list" where
  "initial_leaf_value = replicate 32 0"

text \<open>The loop pushes the hash of two copies of the last element; the vector is then reversed.\<close>

fun initial_hashes :: "'f::field hash_lib \<Rightarrow> nat \<Rightarrow> u8 list list \<Rightarrow> failure + u8 list list" where
  "initial_hashes hl 0 hashes = Inr hashes"
| "initial_hashes hl (Suc n) hashes =
     rbind (initial_hashes hl n hashes) (\<lambda>hs.
     rbind (vindex hs n) (\<lambda>child_hash.
     rbind (hash_inner_node hl child_hash child_hash) (\<lambda>h. Inr (hs @ [h]))))"

definition sparse_tree_new :: "'f::field hash_lib \<Rightarrow> nat \<Rightarrow> failure + sparse_tree" where
  "sparse_tree_new hl D =
     rbind (hash_leaf hl initial_leaf_value) (\<lambda>h.
     rbind (initial_hashes hl D [h]) (\<lambda>hashes.
     let sparse_initial_hashes = rev hashes in
     rbind (vindex sparse_initial_hashes 0) (\<lambda>rt.
       Inr \<lparr>st_tree = Map.empty, st_leaves = Map.empty, st_root = rt, st_initial = sparse_initial_hashes\<rparr>)))"

definition lookup_internal_node :: "sparse_tree \<Rightarrow> nat \<Rightarrow> nat \<Rightarrow> failure + (u8 list \<times> bool)" where
  "lookup_internal_node t index depth =
     (case st_tree t \<lparr>mi_index = index, mi_depth = depth\<rparr> of
        Some h \<Rightarrow> Inr (h, True)
      | None \<Rightarrow> rbind (vindex (st_initial t) depth) (\<lambda>h. Inr (h, False)))"

text \<open>\<open>for d in (0..index.depth).rev()\<close>: recompute the ancestors of a node.\<close>

fun insert_up :: "'f::field hash_lib \<Rightarrow> nat \<Rightarrow> nat \<Rightarrow> sparse_tree \<Rightarrow> failure + sparse_tree" where
  "insert_up hl 0 i t = Inr t"
| "insert_up hl (Suc d) i t =
     (let i = drop_bit 1 i;
          lc_i = push_bit 1 i;
          rc_i = lc_i + 1
      in rbind (lookup_internal_node t lc_i (d + 1)) (\<lambda>lc_hash.
         rbind (lookup_internal_node t rc_i (d + 1)) (\<lambda>rc_hash.
         rbind (hash_inner_node hl (fst lc_hash) (fst rc_hash)) (\<lambda>h.
           insert_up hl d i (t\<lparr>st_tree := (st_tree t)(\<lparr>mi_index = i, mi_depth = d\<rparr> \<mapsto> h)\<rparr>)))))"

definition sparse_insert ::
    "'f::field hash_lib \<Rightarrow> merkle_index \<Rightarrow> u8 list \<Rightarrow> node_type \<Rightarrow> sparse_tree \<Rightarrow> failure + sparse_tree" where
  "sparse_insert hl index v nt t =
     rbind (case nt of
              InternalNode \<Rightarrow> rbind (array_from inner_hash_size v) (\<lambda>h. Inr (h, t))
            | Leaf \<Rightarrow> rbind (hash_leaf hl v) (\<lambda>h. Inr (h, t\<lparr>st_leaves := (st_leaves t)(index \<mapsto> v)\<rparr>))) (\<lambda>(node_hash, t).
     rbind (insert_up hl (mi_depth index) (mi_index index) (t\<lparr>st_tree := (st_tree t)(index \<mapsto> node_hash)\<rparr>)) (\<lambda>t.
     rbind (unwrap ''root lookup failed'' (st_tree t \<lparr>mi_index = 0, mi_depth = 0\<rparr>)) (\<lambda>rt.
       Inr (t\<lparr>st_root := rt\<rparr>))))"

text \<open>\<open>for d in (1..=index.depth).rev()\<close>: collect the siblings on the way up.\<close>

fun path_up :: "sparse_tree \<Rightarrow> nat \<Rightarrow> nat \<Rightarrow> failure + u8 list list" where
  "path_up t 0 i = Inr []"
| "path_up t (Suc d) i =
     rbind (lookup_internal_node t (i XOR 1) (Suc d)) (\<lambda>sibling_hash.
     rbind (path_up t d (drop_bit 1 i)) (\<lambda>path. Inr (fst sibling_hash # path)))"

definition lookup_path :: "sparse_tree \<Rightarrow> merkle_index \<Rightarrow> failure + u8 list list" where
  "lookup_path t index = path_up t (mi_depth index) (mi_index index)"

definition get_index :: "u8 list \<Rightarrow> nat \<Rightarrow> failure + merkle_index" where
  "get_index leaf_h depth =
     (if length leaf_h \<noteq> 32 then Inl InvalidHashSize
      else rbind (slice_range 0 (depth div 8) leaf_h) (\<lambda>bs.
        Inr \<lparr>mi_index = bytes_val bs, mi_depth = depth\<rparr>))"

definition path_default :: "nat \<Rightarrow> u8 list list" where
  "path_default D = replicate D (replicate inner_hash_size 0)"

text \<open>\<open>for (i, sibling_hash) in self.path.iter().enumerate()\<close>\<close>

fun fold_path :: "'f::field hash_lib \<Rightarrow> nat \<Rightarrow> u8 list list \<Rightarrow> bool list \<Rightarrow> u8 list \<Rightarrow> failure + u8 list" where
  "fold_path hl i [] index current_hash = Inr current_hash"
| "fold_path hl i (sibling_hash # path) index current_hash =
     rbind (vindex index i) (\<lambda>b.
     rbind (if b then hash_inner_node hl current_hash sibling_hash
            else hash_inner_node hl sibling_hash current_hash) (\<lambda>h.
       fold_path hl (Suc i) path index h))"

definition compute_root ::
    "'f::field hash_lib \<Rightarrow> u8 list list \<Rightarrow> u8 list \<Rightarrow> bool list \<Rightarrow> node_type \<Rightarrow> failure + u8 list" where
  "compute_root hl path v index nt =
     rbind (case nt of InternalNode \<Rightarrow> array_from inner_hash_size v | Leaf \<Rightarrow> hash_leaf hl v)
       (fold_path hl 0 path index)"

definition path_verify ::
    "'f::field hash_lib \<Rightarrow> u8 list list \<Rightarrow> u8 list \<Rightarrow> u8 list \<Rightarrow> bool list \<Rightarrow> node_type \<Rightarrow> failure + bool" where
  "path_verify hl path rt v index nt =
     rbind (compute_root hl path v index nt) (\<lambda>r. Inr (r = rt))"

definition path_split :: "u8 list list \<Rightarrow> nat \<Rightarrow> failure + u8 list list list" where
  "path_split path split_factor = unwrap_res ''split'' (split path split_factor)"

section \<open>The path gadget\<close>

definition path_new_variable :: "u8 list list \<Rightarrow> 'f::field list" where
  "path_new_variable path = map inner_hash_to_fpvar path"

text \<open>\<open>for (i, b) in index.iter().take(self.path.len()).enumerate()\<close>: here a set bit means a right child.\<close>

fun fold_path_var :: "'f::field hash_lib \<Rightarrow> 'f list \<Rightarrow> bool list \<Rightarrow> 'f \<Rightarrow> failure + 'f" where
  "fold_path_var hl (p # path) (b # index) current_hash =
     (let lc = (if b then p else current_hash);
          rc = (if b then current_hash else p)
      in rbind (hash_inner_node_var hl lc rc) (fold_path_var hl path index))"
| "fold_path_var hl path index current_hash = Inr current_hash"

definition compute_root_var_from_leaf :: "'f::field hash_lib \<Rightarrow> 'f list \<Rightarrow> u8 list \<Rightarrow> bool list \<Rightarrow> failure + 'f" where
  "compute_root_var_from_leaf hl path leaf index = rbind (hash_leaf_var hl leaf) (fold_path_var hl path index)"

definition compute_root_var_from_internal_node :: "'f::field hash_lib \<Rightarrow> 'f list \<Rightarrow> 'f \<Rightarrow> bool list \<Rightarrow> failure + 'f" where
  "compute_root_var_from_internal_node hl path internal_node index = fold_path_var hl path index internal_node"

definition conditional_check_path_from_leaf ::
    "'f::field hash_lib \<Rightarrow> 'f list \<Rightarrow> 'f \<Rightarrow> u8 list \<Rightarrow> bool list \<Rightarrow> bool \<Rightarrow> failure + bool" where
  "conditional_check_path_from_leaf hl path rt leaf index condition =
     rbind (compute_root_var_from_leaf hl path leaf index) (\<lambda>computed_root. Inr (condition \<longrightarrow> rt = computed_root))"

definition conditional_check_path_from_internal_node ::
    "'f::field hash_lib \<Rightarrow> 'f list \<Rightarrow> 'f \<Rightarrow> 'f \<Rightarrow> bool list \<Rightarrow> bool \<Rightarrow> failure + bool" where
  "conditional_check_path_from_internal_node hl path rt internal_node index condition =
     rbind (compute_root_var_from_internal_node hl path internal_node index)
       (\<lambda>computed_root. Inr (condition \<longrightarrow> rt = computed_root))"

definition check_path_from_leaf ::
    "'f::field hash_lib \<Rightarrow> 'f list \<Rightarrow> 'f \<Rightarrow> u8 list \<Rightarrow> bool list \<Rightarrow> failure + bool" where
  "check_path_from_leaf hl path rt leaf index = conditional_check_path_from_leaf hl path rt leaf index True"

definition check_path_from_internal_node ::
    "'f::field hash_lib \<Rightarrow> 'f list \<Rightarrow> 'f \<Rightarrow> 'f \<Rightarrow> bool list \<Rightarrow> failure + bool" where
  "check_path_from_internal_node hl path rt internal_node index =
     conditional_check_path_from_internal_node hl path rt internal_node index True"

section \<open>The tree is a Merkle tree\<close>

abbreviation at_node :: "nat \<Rightarrow> nat \<Rightarrow> merkle_index" where
  "at_node i d \<equiv> \<lparr>mi_index = i, mi_depth = d\<rparr>"

definition node_hash :: "sparse_tree \<Rightarrow> nat \<Rightarrow> nat \<Rightarrow> u8 list" where
  "node_hash t d i = (case st_tree t (at_node i d) of Some h \<Rightarrow> h | None \<Rightarrow> st_initial t ! d)"

definition leaf_value :: "sparse_tree \<Rightarrow> nat \<Rightarrow> nat \<Rightarrow> u8 list" where
  "leaf_value t D i = (case st_leaves t (at_node i D) of Some v \<Rightarrow> v | None \<Rightarrow> initial_leaf_value)"

text \<open>The hash of the subtree of height \<open>n\<close> at position \<open>i\<close> over a full assignment of leaves.\<close>

fun merkle_spec :: "'f::field hash_lib \<Rightarrow> (nat \<Rightarrow> u8 list) \<Rightarrow> nat \<Rightarrow> nat \<Rightarrow> failure + u8 list" where
  "merkle_spec hl lv 0 i = hash_leaf hl (lv i)"
| "merkle_spec hl lv (Suc n) i =
     rbind (merkle_spec hl lv n (2 * i)) (\<lambda>l.
     rbind (merkle_spec hl lv n (2 * i + 1)) (\<lambda>r. hash_inner_node hl l r))"

definition node_ok :: "'f::field hash_lib \<Rightarrow> sparse_tree \<Rightarrow> nat \<Rightarrow> nat \<Rightarrow> bool" where
  "node_ok hl t d i \<longleftrightarrow>
     hash_inner_node hl (node_hash t (Suc d) (2 * i)) (node_hash t (Suc d) (2 * i + 1)) = Inr (node_hash t d i)"

definition tree_ok :: "'f::field hash_lib \<Rightarrow> nat \<Rightarrow> sparse_tree \<Rightarrow> bool" where
  "tree_ok hl D t \<longleftrightarrow>
     length (st_initial t) = Suc D \<and> (\<forall>d < D. \<forall>i. node_ok hl t d i)
     \<and> (\<forall>i. hash_leaf hl (leaf_value t D i) = Inr (node_hash t D i)) \<and> st_root t = node_hash t 0 0
     \<and> hash_leaf hl initial_leaf_value = Inr (st_initial t ! D)"

lemma lookup_node [simp]:
  "d < length (st_initial t) \<Longrightarrow> lookup_internal_node t i d = Inr (node_hash t d i, st_tree t (at_node i d) \<noteq> None)"
  by (simp add: lookup_internal_node_def node_hash_def split: option.splits)

lemma tree_okD:
  assumes "tree_ok hl D t"
  shows "length (st_initial t) = Suc D" "d < D \<Longrightarrow> node_ok hl t d i"
    "hash_leaf hl (leaf_value t D i) = Inr (node_hash t D i)" "st_root t = node_hash t 0 0"
    "hash_leaf hl initial_leaf_value = Inr (st_initial t ! D)"
  using assms by (simp_all add: tree_ok_def)

lemma merkle_spec_node:
  assumes "tree_ok hl D t" and "n \<le> D"
  shows "merkle_spec hl (leaf_value t D) n i = Inr (node_hash t (D - n) i)"
  using assms(2)
proof (induction n arbitrary: i)
  case 0
  then show ?case using tree_okD(3) [OF assms(1)] by simp
next
  case (Suc n)
  then have "Suc (D - Suc n) = D - n" by arith
  with Suc tree_okD(2) [OF assms(1), of "D - Suc n" i] show ?case by (simp add: node_ok_def)
qed

subsection \<open>The empty tree\<close>

lemma initial_hashes_ok:
  assumes "hash_lib_ok hl"
  shows "\<exists>hs. initial_hashes hl n [h] = Inr hs \<and> length hs = Suc n \<and> hs ! 0 = h
     \<and> (\<forall>k < n. hash_inner_node hl (hs ! k) (hs ! k) = Inr (hs ! Suc k))"
proof (induction n)
  case (Suc n)
  then obtain hs where hs: "initial_hashes hl n [h] = Inr hs" "length hs = Suc n" "hs ! 0 = h"
    "\<forall>k < n. hash_inner_node hl (hs ! k) (hs ! k) = Inr (hs ! Suc k)" by blast
  obtain p where p: "hash_inner_node hl (hs ! n) (hs ! n) = Inr p" using hash_inner_node_total [OF assms] by blast
  have "\<forall>k < Suc n. hash_inner_node hl ((hs @ [p]) ! k) ((hs @ [p]) ! k) = Inr ((hs @ [p]) ! Suc k)"
    using hs(2,4) p by (auto simp: nth_append less_Suc_eq)
  then show ?case using hs p by (simp add: nth_append)
qed simp

lemma sparse_tree_new_ok:
  assumes "hash_lib_ok hl"
  shows "\<exists>t. sparse_tree_new hl D = Inr t \<and> tree_ok hl D t \<and> st_tree t = Map.empty \<and> st_leaves t = Map.empty"
proof -
  obtain h where h: "hash_leaf hl initial_leaf_value = Inr h" using hash_leaf_total [OF assms] by blast
  obtain hs where hs: "initial_hashes hl D [h] = Inr hs" "length hs = Suc D" "hs ! 0 = h"
    "\<forall>k < D. hash_inner_node hl (hs ! k) (hs ! k) = Inr (hs ! Suc k)"
    using initial_hashes_ok [OF assms] by blast
  let ?t = "\<lparr>st_tree = Map.empty, st_leaves = Map.empty, st_root = rev hs ! 0, st_initial = rev hs\<rparr>"
  have "hash_inner_node hl (rev hs ! Suc d) (rev hs ! Suc d) = Inr (rev hs ! d)" if "d < D" for d
    using hs(4) [rule_format, of "D - Suc d"] that hs(2) by (simp add: rev_nth Suc_diff_Suc)
  then have "tree_ok hl D ?t"
    using hs(2,3) h by (simp add: tree_ok_def node_ok_def node_hash_def leaf_value_def rev_nth)
  moreover have "sparse_tree_new hl D = Inr ?t"
    using h hs(1,2) by (simp add: sparse_tree_new_def Let_def)
  ultimately show ?thesis by simp
qed

subsection \<open>Insertion\<close>

lemma node_hash_update:
  "node_hash (t\<lparr>st_tree := (st_tree t)(at_node i d \<mapsto> h)\<rparr>) d' j = (if d' = d \<and> j = i then h else node_hash t d' j)"
  by (auto simp: node_hash_def split: option.split)

text \<open>
  Recomputing the ancestors of node \<open>i\<close> at depth \<open>dep\<close> repairs a tree in which only they are stale.
\<close>

lemma insert_up_ok:
  assumes "hash_lib_ok hl" and "dep < length (st_initial t)"
    and "\<forall>d < D. \<forall>j. d < dep \<and> j = i div 2 ^ (dep - d) \<or> node_ok hl t d j"
  shows "\<exists>t'. insert_up hl dep i t = Inr t' \<and> st_leaves t' = st_leaves t \<and> st_initial t' = st_initial t
     \<and> (\<forall>d j. d \<ge> dep \<or> j \<noteq> i div 2 ^ (dep - d) \<longrightarrow> node_hash t' d j = node_hash t d j)
     \<and> (\<forall>d < D. \<forall>j. node_ok hl t' d j)
     \<and> (st_tree t (at_node (i div 2 ^ dep) 0) \<noteq> None \<or> dep > 0 \<longrightarrow> st_tree t' (at_node (i div 2 ^ dep) 0) \<noteq> None)"
  using assms(2,3)
proof (induction dep arbitrary: i t)
  case (Suc dep)
  let ?i = "i div 2"
  obtain h where h: "hash_inner_node hl (node_hash t (Suc dep) (2 * ?i)) (node_hash t (Suc dep) (2 * ?i + 1)) = Inr h"
    using hash_inner_node_total [OF assms(1)] by blast
  let ?t = "t\<lparr>st_tree := (st_tree t)(at_node ?i dep \<mapsto> h)\<rparr>"
  have eq: "insert_up hl (Suc dep) i t = insert_up hl dep ?i ?t"
    using Suc.prems(1) h by (simp add: Let_def drop_bit_eq_div push_bit_eq_mult mult.commute)
  have div: "i div 2 ^ (Suc dep - d) = ?i div 2 ^ (dep - d)" if "d \<le> dep" for d
    using that by (simp add: Suc_diff_le div_mult2_eq)
  have ok: "\<forall>d < D. \<forall>j. d < dep \<and> j = ?i div 2 ^ (dep - d) \<or> node_ok hl ?t d j"
  proof (intro allI impI)
    fix d j assume d: "d < D"
    consider "d = dep \<and> j = ?i" | "Suc d = dep" | "d \<noteq> dep \<and> Suc d \<noteq> dep" | "d = dep \<and> j \<noteq> ?i" by blast
    then show "d < dep \<and> j = ?i div 2 ^ (dep - d) \<or> node_ok hl ?t d j"
    proof cases
      case 1
      then show ?thesis using h by (simp add: node_ok_def node_hash_update)
    next
      case 2
      then have "d < Suc dep" "Suc dep - d = 2" "dep - d = 1" by auto
      moreover have "2 * j \<noteq> ?i \<and> 2 * j + 1 \<noteq> ?i" if "j \<noteq> ?i div 2" using that by auto
      ultimately show ?thesis
        using Suc.prems(2) [rule_format, OF d, of j] 2 div [of d] by (auto simp: node_ok_def node_hash_update)
    next
      case 3
      then show ?thesis
        using Suc.prems(2) [rule_format, OF d, of j] div [of d] by (auto simp: node_ok_def node_hash_update less_Suc_eq)
    next
      case 4
      then show ?thesis
        using Suc.prems(2) [rule_format, OF d, of j] by (auto simp: node_ok_def node_hash_update)
    qed
  qed
  have "dep < length (st_initial ?t)" using Suc.prems(1) by simp
  from Suc.IH [OF this ok] obtain t' where t': "insert_up hl dep ?i ?t = Inr t'"
    "st_leaves t' = st_leaves ?t" "st_initial t' = st_initial ?t"
    "\<forall>d j. d \<ge> dep \<or> j \<noteq> ?i div 2 ^ (dep - d) \<longrightarrow> node_hash t' d j = node_hash ?t d j"
    "\<forall>d < D. \<forall>j. node_ok hl t' d j"
    "st_tree ?t (at_node (?i div 2 ^ dep) 0) \<noteq> None \<or> dep > 0 \<longrightarrow> st_tree t' (at_node (?i div 2 ^ dep) 0) \<noteq> None"
    by (elim exE conjE) (rule that)
  have "node_hash t' d j = node_hash t d j" if "d \<ge> Suc dep \<or> j \<noteq> i div 2 ^ (Suc dep - d)" for d j
    using that t'(4) [rule_format, of d j] div [of d] by (cases "d \<le> dep") (auto simp: node_hash_update)
  moreover have "st_tree t' (at_node (i div 2 ^ Suc dep) 0) \<noteq> None"
    using t'(6) by (cases "dep = 0") (auto simp: div_mult2_eq)
  ultimately show ?case using eq t'(1,2,3,5) by auto
qed auto

lemma sparse_insert_ok:
  assumes hl: "hash_lib_ok hl" and t: "tree_ok hl D t" and i: "i < 2 ^ D"
  shows "\<exists>t'. sparse_insert hl (at_node i D) v Leaf t = Inr t' \<and> tree_ok hl D t'
     \<and> leaf_value t' D = (leaf_value t D)(i := v)
     \<and> (\<forall>d j. j \<noteq> i div 2 ^ (D - d) \<longrightarrow> d \<le> D \<longrightarrow> node_hash t' d j = node_hash t d j)"
proof -
  obtain h where h: "hash_leaf hl v = Inr h" using hash_leaf_total [OF hl] by blast
  let ?t = "t\<lparr>st_leaves := (st_leaves t)(at_node i D \<mapsto> v), st_tree := (st_tree t)(at_node i D \<mapsto> h)\<rparr>"
  have upd: "node_hash ?t d j = (if d = D \<and> j = i then h else node_hash t d j)" for d j
    by (auto simp: node_hash_def split: option.split)
  have stale: "\<forall>d < D. \<forall>j. d < D \<and> j = i div 2 ^ (D - d) \<or> node_ok hl ?t d j"
  proof (intro allI impI)
    fix d j assume d: "d < D"
    have "2 * j \<noteq> i \<and> 2 * j + 1 \<noteq> i" if "j \<noteq> i div 2 ^ (D - d)" "Suc d = D"
    proof -
      have "D - d = 1" using that(2) by arith
      with that(1) show ?thesis by auto
    qed
    with tree_okD(2) [OF t d, of j] d show "d < D \<and> j = i div 2 ^ (D - d) \<or> node_ok hl ?t d j"
      by (auto simp: node_ok_def upd)
  qed
  have "D < length (st_initial ?t)" using tree_okD(1) [OF t] by simp
  from insert_up_ok [OF hl this stale] obtain t' where t': "insert_up hl D i ?t = Inr t'"
    "st_leaves t' = st_leaves ?t" "st_initial t' = st_initial ?t"
    "\<forall>d j. d \<ge> D \<or> j \<noteq> i div 2 ^ (D - d) \<longrightarrow> node_hash t' d j = node_hash ?t d j"
    "\<forall>d < D. \<forall>j. node_ok hl t' d j"
    "st_tree ?t (at_node (i div 2 ^ D) 0) \<noteq> None \<or> D > 0 \<longrightarrow> st_tree t' (at_node (i div 2 ^ D) 0) \<noteq> None"
    by (elim exE conjE) (rule that)
  have "st_tree t' (at_node 0 0) \<noteq> None"
    using t'(6) i by (cases "D = 0") auto
  then obtain r where r: "st_tree t' (at_node 0 0) = Some r" by blast
  let ?r = "t'\<lparr>st_root := r\<rparr>"
  have node: "node_hash ?r = node_hash t'" and leaf: "leaf_value ?r = leaf_value t'"
    by (auto simp: node_hash_def leaf_value_def fun_eq_iff split: option.split)
  have lv: "leaf_value t' D = (leaf_value t D)(i := v)"
    using t'(2) by (auto simp: leaf_value_def fun_eq_iff)
  have "hash_leaf hl (leaf_value t' D j) = Inr (node_hash t' D j)" for j
    using tree_okD(3) [OF t, of j] h t'(4) [rule_format, of D j] upd [of D j] by (simp add: lv)
  then have "tree_ok hl D ?r"
    using t'(3,5) tree_okD(1,5) [OF t] r by (simp add: tree_ok_def node_ok_def node leaf) (simp add: node_hash_def)
  moreover have "sparse_insert hl (at_node i D) v Leaf t = Inr ?r"
    using h t'(1) r by (simp add: sparse_insert_def)
  moreover have "node_hash ?r d j = node_hash t d j" if "j \<noteq> i div 2 ^ (D - d)" "d \<le> D" for d j
    using t'(4) [rule_format, of d j] that upd [of d j] by (auto simp: node)
  ultimately show ?thesis using lv leaf by (intro exI [of _ ?r]) auto
qed

subsection \<open>Paths\<close>

definition path_step :: "'f::field hash_lib \<Rightarrow> u8 list \<times> bool \<Rightarrow> u8 list \<Rightarrow> failure + u8 list" where
  "path_step hl = (\<lambda>(sibling_hash, b) current_hash.
     if b then hash_inner_node hl current_hash sibling_hash else hash_inner_node hl sibling_hash current_hash)"

lemma fold_path_eq:
  "k + length path \<le> length index \<Longrightarrow>
     fold_path hl k path index cur = rfold (path_step hl) (zip path (drop k index)) cur"
proof (induction path arbitrary: k cur)
  case (Cons p path)
  then have "drop k index = index ! k # drop (Suc k) index" by (simp add: Cons_nth_drop_Suc)
  with Cons show ?case
    by (cases "path_step hl (p, index ! k) cur") (simp_all add: path_step_def)
qed simp

lemma length_index_bits [simp]: "length (index_bits d i) = d"
  by (induction d arbitrary: i) simp_all

lemma index_bits_val_bits: "index_bits d i = map Not (val_bits d i)"
  by (induction d arbitrary: i) (simp_all add: is_even_def drop_bit_eq_div even_iff_mod_2_eq_zero)

lemma path_step_length: "rfold (path_step hl) ps cur = Inr h \<Longrightarrow> length cur = inner_hash_size \<Longrightarrow> length h = inner_hash_size"
proof (induction ps arbitrary: cur)
  case (Cons p ps)
  then obtain h' where "path_step hl p cur = Inr h'" "rfold (path_step hl) ps h' = Inr h" by (auto simp: res_simps)
  moreover from this have "length h' = inner_hash_size"
    by (auto simp: path_step_def hash_inner_node_length split: prod.splits if_splits)
  ultimately show ?case using Cons.IH by blast
qed simp

lemma sibling_step:
  assumes "node_ok hl t d (i div 2)"
  shows "path_step hl (node_hash t (Suc d) (i XOR 1), is_even i) (node_hash t (Suc d) i) = Inr (node_hash t d (i div 2))"
proof (cases "even i")
  case True
  then obtain j where "i = 2 * j" by blast
  with assms show ?thesis by (simp add: path_step_def node_ok_def is_even_def xor_Suc_0_eq)
next
  case False
  then obtain j where "i = 2 * j + 1" by (rule oddE)
  with assms show ?thesis by (simp add: path_step_def node_ok_def is_even_def xor_Suc_0_eq)
qed

lemma path_up_ok:
  assumes "tree_ok hl D t" and "d \<le> D"
  shows "\<exists>path. path_up t d i = Inr path \<and> length path = d
     \<and> rfold (path_step hl) (zip path (index_bits d i)) (node_hash t d i) = Inr (node_hash t 0 (i div 2 ^ d))"
  using assms(2)
proof (induction d arbitrary: i)
  case (Suc d)
  then obtain path where "path_up t d (i div 2) = Inr path" "length path = d"
    "rfold (path_step hl) (zip path (index_bits d (i div 2))) (node_hash t d (i div 2)) = Inr (node_hash t 0 (i div 2 div 2 ^ d))"
    using Suc.IH [of "i div 2"] by auto
  moreover have "Suc d < length (st_initial t)" using tree_okD(1) [OF assms(1)] Suc.prems by simp
  moreover have "path_step hl (node_hash t (Suc d) (i XOR 1), is_even i) (node_hash t (Suc d) i) = Inr (node_hash t d (i div 2))"
    using sibling_step tree_okD(2) [OF assms(1), of d "i div 2"] Suc.prems by simp
  ultimately show ?case by (cases "is_even i") (simp_all add: drop_bit_eq_div div_mult2_eq)
qed simp

lemma path_up_cong:
  assumes "d < length (st_initial t)" and "d < length (st_initial t')"
    and "\<forall>e j. e \<le> d \<longrightarrow> j \<noteq> i div 2 ^ (d - e) \<longrightarrow> node_hash t' e j = node_hash t e j"
  shows "path_up t' d i = path_up t d i"
  using assms
proof (induction d arbitrary: i)
  case (Suc d)
  have "i div 2 ^ (Suc d - e) = i div 2 div 2 ^ (d - e)" if "e \<le> d" for e
    using that by (simp add: Suc_diff_le div_mult2_eq)
  then have "path_up t' d (i div 2) = path_up t d (i div 2)"
    using Suc.prems by (intro Suc.IH) (auto simp: le_Suc_eq)
  moreover have "i XOR 1 \<noteq> i" by (cases "even i") (auto simp: xor_Suc_0_eq elim: oddE)
  then have "node_hash t' (Suc d) (i XOR 1) = node_hash t (Suc d) (i XOR 1)"
    using Suc.prems(3) by simp
  ultimately show ?case using Suc.prems(1,2) by (simp add: drop_bit_eq_div)
qed simp

section \<open>Properties\<close>

lemma compute_root_leaf:
  "length path = d \<Longrightarrow> hash_leaf hl v = Inr h \<Longrightarrow>
     compute_root hl path v (to_bit_vector (at_node i d)) Leaf = rfold (path_step hl) (zip path (index_bits d i)) h"
  by (simp add: compute_root_def to_bit_vector_def fold_path_eq)

lemma compute_root_inner:
  "length cur = inner_hash_size \<Longrightarrow> length path \<le> length index \<Longrightarrow>
     compute_root hl path cur index InternalNode = rfold (path_step hl) (zip path index) cur"
  by (simp add: compute_root_def array_from_def fold_path_eq)

text \<open>
  C20: Build a tree and insert any sequence of leaves: every step succeeds, and the root is the root of
  the plain Merkle tree over all \<open>2 ^ D\<close> leaves, with the initial value where nothing was inserted
  and the last inserted value elsewhere. The stored nodes and the precomputed hashes of empty
  subtrees together implement the full tree.
\<close>

theorem sparse_tree_implements_merkle_tree:
  assumes "hash_lib_ok hl" and "\<forall>(i, v) \<in> set ops. i < 2 ^ D"
  shows "\<exists>t. rbind (sparse_tree_new hl D) (rfold (\<lambda>(i, v). sparse_insert hl (at_node i D) v Leaf) ops) = Inr t
     \<and> merkle_spec hl (fold (\<lambda>(i, v) lv. lv(i := v)) ops (\<lambda>_. initial_leaf_value)) D 0 = Inr (st_root t)"
proof -
  let ?ins = "rfold (\<lambda>(i, v). sparse_insert hl (at_node i D) v Leaf)"
  have inserts: "\<exists>t'. ?ins ops t = Inr t' \<and> tree_ok hl D t'
      \<and> leaf_value t' D = fold (\<lambda>(i, v) lv. lv(i := v)) ops (leaf_value t D)"
    if "tree_ok hl D t" for t
    using assms(2) that
  proof (induction ops arbitrary: t)
    case (Cons op ops)
    obtain i v where op: "op = (i, v)" by (cases op)
    with Cons.prems have "i < 2 ^ D" by simp
    from sparse_insert_ok [OF assms(1) Cons.prems(2) this, of v] obtain t1 where
      "sparse_insert hl (at_node i D) v Leaf t = Inr t1" "tree_ok hl D t1" "leaf_value t1 D = (leaf_value t D)(i := v)"
      by blast
    with Cons.IH [of t1] Cons.prems(1) show ?case by (auto simp: op)
  qed simp
  obtain t0 where t0: "sparse_tree_new hl D = Inr t0" "tree_ok hl D t0" "st_leaves t0 = Map.empty"
    using sparse_tree_new_ok [OF assms(1)] by blast
  have "leaf_value t0 D = (\<lambda>_. initial_leaf_value)" by (simp add: leaf_value_def t0(3) fun_eq_iff)
  with inserts [OF t0(2)] obtain t where "?ins ops t0 = Inr t" "tree_ok hl D t"
    "leaf_value t D = fold (\<lambda>(i, v) lv. lv(i := v)) ops (\<lambda>_. initial_leaf_value)" by auto
  with merkle_spec_node [of hl D t D 0] tree_okD(4) [of hl D t] t0(1) show ?thesis by auto
qed

theorem sparse_tree_implements_merkle_tree_witness:
  "\<exists>t. rbind (sparse_tree_new toy_hash_lib 2) (rfold (\<lambda>(i, v). sparse_insert toy_hash_lib (at_node i 2) v Leaf) [(1, [7]), (2, [9]), (1, [8])]) = Inr t
     \<and> merkle_spec toy_hash_lib ((\<lambda>_. initial_leaf_value)(2 := [9], 1 := [8])) 2 0 = Inr (st_root t)"
  using sparse_tree_implements_merkle_tree [of toy_hash_lib "[(1, [7]), (2, [9]), (1, [8])]" 2]
  by (simp add: toy_hash_lib_ok fun_upd_twist [of 1 2])

text \<open>
  C21: Inserting a leaf keeps the tree invariant (every inner node is the hash of its children, every
  leaf node the hash of its value, the root the top node), changes exactly that leaf, and leaves
  every node off its path to the root as it was.
\<close>

theorem sparse_insert_invariant:
  assumes "hash_lib_ok hl" and "tree_ok hl D t" and "i < 2 ^ D"
  shows "\<exists>t'. sparse_insert hl (at_node i D) v Leaf t = Inr t' \<and> tree_ok hl D t'
     \<and> leaf_value t' D = (leaf_value t D)(i := v)
     \<and> (\<forall>d j. j \<noteq> i div 2 ^ (D - d) \<longrightarrow> d \<le> D \<longrightarrow> node_hash t' d j = node_hash t d j)"
  by (rule sparse_insert_ok [OF assms])

theorem sparse_insert_invariant_witness:
  "\<exists>t t'. sparse_tree_new toy_hash_lib 3 = Inr t \<and> sparse_insert toy_hash_lib (at_node 5 3) [1] Leaf t = Inr t'
     \<and> tree_ok toy_hash_lib 3 t' \<and> node_hash t' 3 4 = node_hash t 3 4"
proof -
  obtain t where t: "sparse_tree_new toy_hash_lib 3 = Inr t" "tree_ok toy_hash_lib 3 t"
    using sparse_tree_new_ok [OF toy_hash_lib_ok] by blast
  from sparse_insert_invariant [OF toy_hash_lib_ok t(2), of 5 "[1]"] obtain t' where
    "sparse_insert toy_hash_lib (at_node 5 3) [1] Leaf t = Inr t'" "tree_ok toy_hash_lib 3 t'"
    "\<forall>d j. j \<noteq> 5 div 2 ^ (3 - d) \<longrightarrow> d \<le> 3 \<longrightarrow> node_hash t' d j = node_hash t d j" by auto
  moreover from this(3) [rule_format, of 4 3] have "node_hash t' 3 4 = node_hash t 3 4" by simp
  ultimately show ?thesis using t(1) by blast
qed

lemma lookup_path_ok:
  assumes "tree_ok hl D t" and "i < 2 ^ D"
  shows "\<exists>path. lookup_path t (at_node i D) = Inr path \<and> length path = D
     \<and> rfold (path_step hl) (zip path (index_bits D i)) (node_hash t D i) = Inr (st_root t)"
  using path_up_ok [OF assms(1) le_refl, of i] tree_okD(4) [OF assms(1)] assms(2)
  by (simp add: lookup_path_def)

lemma lookup_path_updates:
  assumes "hash_lib_ok hl" and "tree_ok hl D t" and "i < 2 ^ D"
  shows "\<exists>path t'. lookup_path t (at_node i D) = Inr path \<and> length path = D
     \<and> path_verify hl path (st_root t) (leaf_value t D i) (to_bit_vector (at_node i D)) Leaf = Inr True
     \<and> sparse_insert hl (at_node i D) v Leaf t = Inr t' \<and> tree_ok hl D t'
     \<and> leaf_value t' D = (leaf_value t D)(i := v)
     \<and> compute_root hl path v (to_bit_vector (at_node i D)) Leaf = Inr (st_root t')"
proof -
  obtain path where path: "lookup_path t (at_node i D) = Inr path" "length path = D"
    "rfold (path_step hl) (zip path (index_bits D i)) (node_hash t D i) = Inr (st_root t)"
    using lookup_path_ok [OF assms(2,3)] by blast
  obtain t' where t': "sparse_insert hl (at_node i D) v Leaf t = Inr t'" "tree_ok hl D t'"
    "leaf_value t' D = (leaf_value t D)(i := v)"
    "\<forall>d j. j \<noteq> i div 2 ^ (D - d) \<longrightarrow> d \<le> D \<longrightarrow> node_hash t' d j = node_hash t d j"
    using sparse_insert_ok [OF assms] by blast
  have "path_up t' D i = path_up t D i"
    using path_up_cong [of D t t' i] tree_okD(1) [OF assms(2)] tree_okD(1) [OF t'(2)] t'(4) by simp
  with lookup_path_ok [OF t'(2) assms(3)] path(1)
  have "rfold (path_step hl) (zip path (index_bits D i)) (node_hash t' D i) = Inr (st_root t')"
    by (simp add: lookup_path_def)
  moreover have h: "hash_leaf hl v = Inr (node_hash t' D i)" using tree_okD(3) [OF t'(2), of i] t'(3) by simp
  ultimately show ?thesis
    using path t'(1-3) compute_root_leaf [OF path(2) tree_okD(3) [OF assms(2), of i]] compute_root_leaf [OF path(2) h]
    by (simp add: path_verify_def)
qed

text \<open>
  C24: A path taken from the tree verifies the leaf it was taken for, whether the leaf was inserted or
  is still initial, and folding it over a new value gives the root of the tree in which that
  value has been inserted.
\<close>

theorem lookup_path_verifies_and_updates:
  assumes "hash_lib_ok hl" and "tree_ok hl D t" and "i < 2 ^ D"
  shows "\<exists>path. lookup_path t (at_node i D) = Inr path \<and> length path = D
     \<and> path_verify hl path (st_root t) (leaf_value t D i) (to_bit_vector (at_node i D)) Leaf = Inr True
     \<and> (\<exists>t'. sparse_insert hl (at_node i D) v Leaf t = Inr t'
           \<and> compute_root hl path v (to_bit_vector (at_node i D)) Leaf = Inr (st_root t'))"
  using lookup_path_updates [OF assms] by blast

theorem lookup_path_verifies_and_updates_witness:
  "\<exists>t path. sparse_tree_new toy_hash_lib 3 = Inr t \<and> lookup_path t (at_node 6 3) = Inr path
     \<and> path_verify toy_hash_lib path (st_root t) initial_leaf_value (to_bit_vector (at_node 6 3)) Leaf = Inr True"
proof -
  obtain t where t: "sparse_tree_new toy_hash_lib 3 = Inr t" "tree_ok toy_hash_lib 3 t" "st_leaves t = Map.empty"
    using sparse_tree_new_ok [OF toy_hash_lib_ok] by blast
  have "leaf_value t 3 6 = initial_leaf_value" by (simp add: leaf_value_def t(3))
  with lookup_path_verifies_and_updates [OF toy_hash_lib_ok t(2), of 6 "[]"] t(1) show ?thesis by auto
qed

section \<open>The gadget and the split path\<close>

lemma path_step_total:
  assumes "hash_lib_ok hl"
  obtains h where "path_step hl p cur = Inr h"
  using hash_inner_node_total [OF assms] by (cases p) (fastforce simp: path_step_def)

lemma path_fold_total:
  assumes "hash_lib_ok hl"
  shows "\<exists>r. rfold (path_step hl) ps cur = Inr r"
proof (induction ps arbitrary: cur)
  case (Cons p ps)
  obtain h where "path_step hl p cur = Inr h" by (rule path_step_total [OF assms])
  with Cons show ?case by simp
qed simp

lemma fold_path_var_eq:
  assumes "hash_lib_ok hl"
  shows "length path \<le> length bs \<Longrightarrow> fold_path_var hl (path_new_variable path) bs (inner_hash_to_fpvar cur)
     = result_map inner_hash_to_fpvar (rfold (path_step hl) (zip path (map Not bs)) cur)"
proof (induction path arbitrary: bs cur)
  case (Cons p path)
  then obtain b bs' where bs: "bs = b # bs'" "length path \<le> length bs'" by (cases bs) auto
  obtain h where h: "path_step hl (p, \<not> b) cur = Inr h" by (rule path_step_total [OF assms])
  have "hash_inner_node_var hl (if b then inner_hash_to_fpvar p else inner_hash_to_fpvar cur)
      (if b then inner_hash_to_fpvar cur else inner_hash_to_fpvar p) = Inr (inner_hash_to_fpvar h)"
    using h hash_inner_node_var_eq [OF assms, of p cur] hash_inner_node_var_eq [OF assms, of cur p]
    by (cases b) (simp_all add: path_step_def)
  with Cons.IH [OF bs(2), of h] h show ?case by (simp add: path_new_variable_def bs(1))
qed (simp add: path_new_variable_def)

lemma rfold_path_split:
  assumes "map length ps = map length bs"
  shows "rfold (path_step hl) (zip (concat ps) (concat bs)) cur
     = rfold (\<lambda>(p, b) cur. rfold (path_step hl) (zip p b) cur) (zip ps bs) cur"
proof -
  from assms have "length ps = length bs" using map_eq_imp_length_eq by blast
  then show ?thesis
    using assms
  proof (induction ps bs arbitrary: cur rule: list_induct2)
    case (Cons p ps b bs)
    then show ?case by (cases "rfold (path_step hl) (zip p b) cur") (simp_all add: rfold_append)
  qed simp
qed

text \<open>
  The in-circuit root computations agree with the native ones: on the little-endian bits of the
  index (the native bit vector is their negation) a path variable folds to the element of the native
  root, from an inner node and from a leaf, and the membership check is the native verification.
\<close>

theorem path_gadget_matches:
  fixes hl :: "'f::field hash_lib"
  assumes "hash_lib_ok hl" and "char_above TYPE('f) (2 ^ 216)" and "length path = length idx"
    and "length cur = inner_hash_size" and "leaf \<noteq> []" and "length rt = inner_hash_size"
  shows "\<exists>r r'. compute_root hl path cur (map Not idx) InternalNode = Inr r
    \<and> compute_root_var_from_internal_node hl (path_new_variable path) (inner_hash_to_fpvar cur) idx = Inr (inner_hash_to_fpvar r)
    \<and> compute_root hl path leaf (map Not idx) Leaf = Inr r'
    \<and> compute_root_var_from_leaf hl (path_new_variable path) leaf idx = Inr (inner_hash_to_fpvar r')
    \<and> check_path_from_leaf hl (path_new_variable path) (inner_hash_to_fpvar rt) leaf idx
        = path_verify hl path rt leaf (map Not idx) Leaf
    \<and> check_path_from_internal_node hl (path_new_variable path) (inner_hash_to_fpvar rt) (inner_hash_to_fpvar cur) idx
        = path_verify hl path rt cur (map Not idx) InternalNode"
proof -
  let ?ps = "zip path (map Not idx)"
  obtain h where h: "hash_leaf hl leaf = Inr h" using hash_leaf_total [OF assms(1)] by blast
  obtain r r' where r: "rfold (path_step hl) ?ps cur = Inr r" "rfold (path_step hl) ?ps h = Inr r'" using path_fold_total [OF assms(1)] by meson
  have len: "length r = inner_hash_size" "length r' = inner_hash_size"
    using path_step_length [OF r(1) assms(4)] path_step_length [OF r(2) hash_leaf_length [OF h]] .
  have native: "compute_root hl path cur (map Not idx) InternalNode = Inr r" "compute_root hl path leaf (map Not idx) Leaf = Inr r'"
    using r h assms(3,4) by (simp_all add: compute_root_def array_from_def fold_path_eq)
  have var: "compute_root_var_from_internal_node hl (path_new_variable path) (inner_hash_to_fpvar cur) idx = Inr (inner_hash_to_fpvar r)"
    "compute_root_var_from_leaf hl (path_new_variable path) leaf idx = Inr (inner_hash_to_fpvar r')"
    using r h assms(3) fold_path_var_eq [OF assms(1), of path idx] hash_leaf_var_eq [OF assms(1,5)]
    by (simp_all add: compute_root_var_from_internal_node_def compute_root_var_from_leaf_def)
  have eq: "inner_hash_to_fpvar rt = (inner_hash_to_fpvar x :: 'f) \<longleftrightarrow> x = rt" if "length x = inner_hash_size" for x
    using inner_hash_to_fpvar_inj [OF assms(2) assms(6) that] by auto
  show ?thesis
    using native var eq [OF len(1)] eq [OF len(2)]
    by (simp add: check_path_from_leaf_def conditional_check_path_from_leaf_def check_path_from_internal_node_def
        conditional_check_path_from_internal_node_def path_verify_def)
qed

theorem path_gadget_matches_witness:
  "check_path_from_leaf toy_hash_lib (path_new_variable [replicate 27 3]) (inner_hash_to_fpvar (replicate 27 4)) [1] [True]
     = path_verify toy_hash_lib [replicate 27 3] (replicate 27 4) [1] [False] Leaf"
  using path_gadget_matches [of toy_hash_lib "[replicate 27 3]" "[True]" "replicate 27 5" "[1]" "replicate 27 4"]
  by (auto simp: toy_hash_lib_ok inner_hash_size_def)

end
