(* ===== verification/Vkd_Circuits.thy ===== *)
theory Vkd_Circuits
  imports Sparse_Tree "HOL-Library.Countable" "HOL-Library.Char_ord"
begin

text \<open>
  Portal addresses and primitive subcircuits of the verifiable key directory,
  \<open>distributed-prover/src/vkd/vkd_circuits.rs\<close>: their names as portal wires and their encoding as
  tagged bytes. The derived serialisers of the structs are a parameter.
\<close>

section \<open>Addresses\<close>

record path_root_address =
  pr_path_id :: nat
  pr_update_idx :: nat

record intermediate_root_address =
  ir_indicator :: nat
  ir_path_id :: nat
  ir_update_idx :: nat

record leaf_hash_address =
  lh_leaf :: "u8 list"

record index_address =
  ix_indicator :: nat
  ix_leaf :: "u8 list"

datatype node_address =
    PathRoot path_root_address
  | LeafHash leaf_hash_address
  | NullLeaf
  | FinalRoot
  | InitialRoot
  | IntermediateRoot intermediate_root_address

record node_address_bytes =
  nab_bytes :: "u8 list"
  nab_type :: string

section \<open>Names\<close>

text \<open>\<open>{}\<close> of an unsigned integer, and \<open>hex::encode\<close>.\<close>

definition digit :: "nat \<Rightarrow> char" where
  "digit n = char_of (if n < 10 then 48 + n else 87 + n)"

fun decimal :: "nat \<Rightarrow> string" where
  "decimal n = (if n < 10 then [digit n] else decimal (n div 10) @ [digit (n mod 10)])"

declare decimal.simps [simp del]

definition bytes_to_string :: "u8 list \<Rightarrow> string" where
  "bytes_to_string bs = concat (map (\<lambda>b. [digit (unat b div 16), digit (unat b mod 16)]) bs)"

definition path_root_to_string :: "path_root_address \<Rightarrow> string" where
  "path_root_to_string a = ''path root '' @ decimal (pr_path_id a) @ '' '' @ decimal (pr_update_idx a)"

definition intermediate_root_to_string :: "intermediate_root_address \<Rightarrow> string" where
  "intermediate_root_to_string a =
     ''intermediate root '' @ decimal (ir_path_id a) @ '' '' @ decimal (ir_indicator a) @ '' '' @ decimal (ir_update_idx a)"

definition leaf_hash_to_string :: "leaf_hash_address \<Rightarrow> string" where
  "leaf_hash_to_string a = ''leaf hash '' @ bytes_to_string (lh_leaf a)"

definition null_leaf_to_string :: string where
  "null_leaf_to_string = ''null leaf''"

definition initial_root_to_string :: string where
  "initial_root_to_string = ''initial root''"

definition final_root_to_string :: string where
  "final_root_to_string = ''final root''"

text \<open>\<open>self.leaf[0..32]\<close> of a leaf, an array of 66 bytes.\<close>

definition index_to_string :: "index_address \<Rightarrow> string" where
  "index_to_string a = ''index '' @ decimal (ix_indicator a) @ '' '' @ bytes_to_string (take 32 (ix_leaf a))"

fun node_address_to_string :: "node_address \<Rightarrow> string" where
  "node_address_to_string (PathRoot a) = path_root_to_string a"
| "node_address_to_string (LeafHash a) = leaf_hash_to_string a"
| "node_address_to_string NullLeaf = null_leaf_to_string"
| "node_address_to_string InitialRoot = initial_root_to_string"
| "node_address_to_string FinalRoot = final_root_to_string"
| "node_address_to_string (IntermediateRoot a) = intermediate_root_to_string a"

section \<open>Primitive subcircuits\<close>

record equality_primitive =
  eq_update_idx :: nat
  eq_addr1 :: node_address_bytes
  eq_addr2 :: node_address_bytes

record get_index_primitive =
  gi_update_idx :: nat
  gi_leaf :: "u8 list"

record compute_path_primitive =
  cp_update_idx :: nat
  cp_path_id :: nat
  cp_indicator :: nat
  cp_initial_addr :: node_address_bytes
  cp_final_addr :: node_address_bytes
  cp_index_addr :: index_address
  cp_path :: "u8 list list"

record hash_leaf_primitive =
  hp_leaf :: "u8 list"

datatype primitive_subcircuit =
    EqualityPrimitive equality_primitive
  | GetIndexPrimitive get_index_primitive
  | ComputePathPrimitive compute_path_primitive
  | HashLeafPrimitive hash_leaf_primitive
  | PaddingPrimitive
  | WritePublicParameterPrimitive

record primitive_bytes =
  pb_bytes :: "u8 list"
  pb_type :: string

record vkd_subcircuit =
  compound_primitive_vec :: "primitive_subcircuit list"

section \<open>Encoding\<close>

text \<open>The derived serialisers and unchecked deserialisers; the empty structs share one.\<close>

record vkd_codec =
  ser_path_root :: "path_root_address \<Rightarrow> u8 list"
  de_path_root :: "u8 list \<Rightarrow> path_root_address option"
  ser_leaf_hash :: "leaf_hash_address \<Rightarrow> u8 list"
  de_leaf_hash :: "u8 list \<Rightarrow> leaf_hash_address option"
  ser_intermediate :: "intermediate_root_address \<Rightarrow> u8 list"
  de_intermediate :: "u8 list \<Rightarrow> intermediate_root_address option"
  ser_unit :: "u8 list"
  de_unit :: "u8 list \<Rightarrow> unit option"
  ser_equality :: "equality_primitive \<Rightarrow> u8 list"
  de_equality :: "u8 list \<Rightarrow> equality_primitive option"
  ser_get_index :: "get_index_primitive \<Rightarrow> u8 list"
  de_get_index :: "u8 list \<Rightarrow> get_index_primitive option"
  ser_compute_path :: "compute_path_primitive \<Rightarrow> u8 list"
  de_compute_path :: "u8 list \<Rightarrow> compute_path_primitive option"
  ser_hash_leaf :: "hash_leaf_primitive \<Rightarrow> u8 list"
  de_hash_leaf :: "u8 list \<Rightarrow> hash_leaf_primitive option"
  ser_subcircuit :: "primitive_bytes list \<Rightarrow> u8 list"
  de_subcircuit :: "u8 list \<Rightarrow> primitive_bytes list option"

fun node_address_to_bytes :: "vkd_codec \<Rightarrow> node_address \<Rightarrow> node_address_bytes" where
  "node_address_to_bytes cd (PathRoot node) = \<lparr>nab_bytes = ser_path_root cd node, nab_type = ''path root''\<rparr>"
| "node_address_to_bytes cd (LeafHash node) = \<lparr>nab_bytes = ser_leaf_hash cd node, nab_type = ''leaf hash''\<rparr>"
| "node_address_to_bytes cd NullLeaf = \<lparr>nab_bytes = ser_unit cd, nab_type = ''null leaf''\<rparr>"
| "node_address_to_bytes cd FinalRoot = \<lparr>nab_bytes = ser_unit cd, nab_type = ''final root''\<rparr>"
| "node_address_to_bytes cd InitialRoot = \<lparr>nab_bytes = ser_unit cd, nab_type = ''initial leaf''\<rparr>"
| "node_address_to_bytes cd (IntermediateRoot node) =
     \<lparr>nab_bytes = ser_intermediate cd node, nab_type = ''intermediate root''\<rparr>"

definition de_unwrap :: "'a option \<Rightarrow> failure + 'a" where
  "de_unwrap = unwrap ''called `Result::unwrap()` on an `Err` value''"

definition bytes_to_node_address :: "vkd_codec \<Rightarrow> node_address_bytes \<Rightarrow> failure + node_address" where
  "bytes_to_node_address cd b =
     (let node_type = nab_type b; bytes = nab_bytes b in
      if node_type = ''path root'' then result_map PathRoot (de_unwrap (de_path_root cd bytes))
      else if node_type = ''leaf hash'' then result_map LeafHash (de_unwrap (de_leaf_hash cd bytes))
      else if node_type = ''null leaf'' then result_map (\<lambda>_. NullLeaf) (de_unwrap (de_unit cd bytes))
      else if node_type = ''final root'' then result_map (\<lambda>_. FinalRoot) (de_unwrap (de_unit cd bytes))
      else if node_type = ''initial leaf'' then result_map (\<lambda>_. InitialRoot) (de_unwrap (de_unit cd bytes))
      else if node_type = ''intermediate root'' then result_map IntermediateRoot (de_unwrap (de_intermediate cd bytes))
      else Inl (Panic ''wrong node address type''))"

fun primitive_get_type :: "primitive_subcircuit \<Rightarrow> string" where
  "primitive_get_type (EqualityPrimitive _) = ''equality''"
| "primitive_get_type (GetIndexPrimitive _) = ''get index''"
| "primitive_get_type (ComputePathPrimitive _) = ''compute path''"
| "primitive_get_type (HashLeafPrimitive _) = ''hash leaf''"
| "primitive_get_type PaddingPrimitive = ''padding''"
| "primitive_get_type WritePublicParameterPrimitive = ''write pp''"

fun primitive_to_bytes :: "vkd_codec \<Rightarrow> primitive_subcircuit \<Rightarrow> primitive_bytes" where
  "primitive_to_bytes cd (EqualityPrimitive p) = \<lparr>pb_bytes = ser_equality cd p, pb_type = ''equality''\<rparr>"
| "primitive_to_bytes cd (GetIndexPrimitive p) = \<lparr>pb_bytes = ser_get_index cd p, pb_type = ''get index''\<rparr>"
| "primitive_to_bytes cd (ComputePathPrimitive p) = \<lparr>pb_bytes = ser_compute_path cd p, pb_type = ''compute path''\<rparr>"
| "primitive_to_bytes cd (HashLeafPrimitive p) = \<lparr>pb_bytes = ser_hash_leaf cd p, pb_type = ''hash leaf''\<rparr>"
| "primitive_to_bytes cd PaddingPrimitive = \<lparr>pb_bytes = ser_unit cd, pb_type = ''padding''\<rparr>"
| "primitive_to_bytes cd WritePublicParameterPrimitive = \<lparr>pb_bytes = ser_unit cd, pb_type = ''write pp''\<rparr>"

definition bytes_to_primitive :: "vkd_codec \<Rightarrow> primitive_bytes \<Rightarrow> failure + primitive_subcircuit" where
  "bytes_to_primitive cd b =
     (let bytes = pb_bytes b; node_type = pb_type b in
      if node_type = ''equality'' then result_map EqualityPrimitive (de_unwrap (de_equality cd bytes))
      else if node_type = ''get index'' then result_map GetIndexPrimitive (de_unwrap (de_get_index cd bytes))
      else if node_type = ''compute path'' then result_map ComputePathPrimitive (de_unwrap (de_compute_path cd bytes))
      else if node_type = ''hash leaf'' then result_map HashLeafPrimitive (de_unwrap (de_hash_leaf cd bytes))
      else if node_type = ''padding'' then result_map (\<lambda>_. PaddingPrimitive) (de_unwrap (de_unit cd bytes))
      else if node_type = ''write pp'' then result_map (\<lambda>_. WritePublicParameterPrimitive) (de_unwrap (de_unit cd bytes))
      else Inl (Panic ''wrong primitive type''))"

definition subcircuit_to_bytes :: "vkd_codec \<Rightarrow> vkd_subcircuit \<Rightarrow> primitive_bytes list" where
  "subcircuit_to_bytes cd sc = map (primitive_to_bytes cd) (compound_primitive_vec sc)"

definition bytes_to_subcircuit :: "vkd_codec \<Rightarrow> primitive_bytes list \<Rightarrow> failure + vkd_subcircuit" where
  "bytes_to_subcircuit cd bs =
     rbind (rmap (bytes_to_primitive cd) bs) (\<lambda>ps. Inr \<lparr>compound_primitive_vec = ps\<rparr>)"

text \<open>\<open>join(", ")\<close>\<close>

fun join_comma :: "string list \<Rightarrow> string" where
  "join_comma [] = ''''"
| "join_comma [s] = s"
| "join_comma (s # t # rest) = s @ '', '' @ join_comma (t # rest)"

definition subcircuit_get_type :: "vkd_subcircuit \<Rightarrow> string" where
  "subcircuit_get_type sc = join_comma (map primitive_get_type (compound_primitive_vec sc))"

text \<open>The index is cast with \<open>as i32\<close>, which wraps.\<close>

fun primitive_get_update_idx :: "primitive_subcircuit \<Rightarrow> int" where
  "primitive_get_update_idx (EqualityPrimitive eq) = sint (word_of_nat (eq_update_idx eq) :: u32)"
| "primitive_get_update_idx (ComputePathPrimitive p) = sint (word_of_nat (cp_update_idx p) :: u32)"
| "primitive_get_update_idx _ = -1"

definition subcircuit_get_update_idx :: "vkd_subcircuit \<Rightarrow> int list" where
  "subcircuit_get_update_idx sc = map primitive_get_update_idx (compound_primitive_vec sc)"

section \<open>The encodings are inverted\<close>

definition vkd_codec_ok :: "vkd_codec \<Rightarrow> bool" where
  "vkd_codec_ok cd \<longleftrightarrow>
     (\<forall>x. de_path_root cd (ser_path_root cd x) = Some x) \<and> (\<forall>x. de_leaf_hash cd (ser_leaf_hash cd x) = Some x)
     \<and> (\<forall>x. de_intermediate cd (ser_intermediate cd x) = Some x) \<and> de_unit cd (ser_unit cd) = Some ()
     \<and> (\<forall>x. de_equality cd (ser_equality cd x) = Some x) \<and> (\<forall>x. de_get_index cd (ser_get_index cd x) = Some x)
     \<and> (\<forall>x. de_compute_path cd (ser_compute_path cd x) = Some x) \<and> (\<forall>x. de_hash_leaf cd (ser_hash_leaf cd x) = Some x)
     \<and> (\<forall>x. de_subcircuit cd (ser_subcircuit cd x) = Some x)"

lemma node_address_bytes_roundtrip:
  "vkd_codec_ok cd \<Longrightarrow> bytes_to_node_address cd (node_address_to_bytes cd a) = Inr a"
  by (cases a) (simp_all add: bytes_to_node_address_def vkd_codec_ok_def de_unwrap_def)

lemma primitive_bytes_roundtrip:
  "vkd_codec_ok cd \<Longrightarrow> bytes_to_primitive cd (primitive_to_bytes cd p) = Inr p"
  by (cases p) (simp_all add: bytes_to_primitive_def vkd_codec_ok_def de_unwrap_def)

lemma subcircuit_bytes_roundtrip:
  assumes "vkd_codec_ok cd"
  shows "bytes_to_subcircuit cd (subcircuit_to_bytes cd sc) = Inr sc"
proof -
  have "rmap (bytes_to_primitive cd) (map (primitive_to_bytes cd) ps) = Inr ps" for ps
    using primitive_bytes_roundtrip [OF assms] by (induction ps) simp_all
  then show ?thesis by (simp add: bytes_to_subcircuit_def subcircuit_to_bytes_def)
qed

text \<open>
  The tagged encodings are inverted by their decoders: a node address, a primitive and a
  subcircuit come back from their bytes, and a tag the code does not know panics.
\<close>

theorem vkd_encoding_roundtrip:
  assumes "vkd_codec_ok cd"
  shows "bytes_to_node_address cd (node_address_to_bytes cd a) = Inr a
    \<and> bytes_to_primitive cd (primitive_to_bytes cd p) = Inr p
    \<and> bytes_to_subcircuit cd (subcircuit_to_bytes cd sc) = Inr sc
    \<and> bytes_to_node_address cd \<lparr>nab_bytes = bs, nab_type = ''root''\<rparr> = Inl (Panic ''wrong node address type'')
    \<and> bytes_to_primitive cd \<lparr>pb_bytes = bs, pb_type = ''root''\<rparr> = Inl (Panic ''wrong primitive type'')"
  using node_address_bytes_roundtrip [OF assms] primitive_bytes_roundtrip [OF assms] subcircuit_bytes_roundtrip [OF assms]
  by (simp add: bytes_to_node_address_def bytes_to_primitive_def)

text \<open>Serialisers with these laws exist: every struct is a tuple of countable types, written in unary.\<close>

definition unary_ser :: "'a::countable \<Rightarrow> u8 list" where
  "unary_ser x = replicate (to_nat x) 0"

definition unary_de :: "u8 list \<Rightarrow> 'a::countable" where
  "unary_de bs = from_nat (length bs)"

lemma unary_de_ser [simp]: "unary_de (unary_ser x) = x"
  by (simp add: unary_de_def unary_ser_def)

definition nab_tuple :: "node_address_bytes \<Rightarrow> u8 list \<times> string" where
  "nab_tuple b = (nab_bytes b, nab_type b)"

definition nab_of :: "u8 list \<times> string \<Rightarrow> node_address_bytes" where
  "nab_of = (\<lambda>(bs, t). \<lparr>nab_bytes = bs, nab_type = t\<rparr>)"

definition toy_codec :: vkd_codec where
  "toy_codec = \<lparr>
     ser_path_root = (\<lambda>a. unary_ser (pr_path_id a, pr_update_idx a)),
     de_path_root = (\<lambda>bs. case unary_de bs of (i, u) \<Rightarrow> Some \<lparr>pr_path_id = i, pr_update_idx = u\<rparr>),
     ser_leaf_hash = lh_leaf, de_leaf_hash = (\<lambda>bs. Some \<lparr>lh_leaf = bs\<rparr>),
     ser_intermediate = (\<lambda>a. unary_ser (ir_indicator a, ir_path_id a, ir_update_idx a)),
     de_intermediate = (\<lambda>bs. case unary_de bs of (i, j, u) \<Rightarrow> Some \<lparr>ir_indicator = i, ir_path_id = j, ir_update_idx = u\<rparr>),
     ser_unit = [], de_unit = (\<lambda>_. Some ()),
     ser_equality = (\<lambda>e. unary_ser (eq_update_idx e, nab_tuple (eq_addr1 e), nab_tuple (eq_addr2 e))),
     de_equality = (\<lambda>bs. case unary_de bs of (u, a, b) \<Rightarrow> Some \<lparr>eq_update_idx = u, eq_addr1 = nab_of a, eq_addr2 = nab_of b\<rparr>),
     ser_get_index = (\<lambda>g. unary_ser (gi_update_idx g, gi_leaf g)),
     de_get_index = (\<lambda>bs. case unary_de bs of (u, l) \<Rightarrow> Some \<lparr>gi_update_idx = u, gi_leaf = l\<rparr>),
     ser_compute_path = (\<lambda>c. unary_ser (cp_update_idx c, cp_path_id c, cp_indicator c, nab_tuple (cp_initial_addr c),
        nab_tuple (cp_final_addr c), ix_indicator (cp_index_addr c), ix_leaf (cp_index_addr c), cp_path c)),
     de_compute_path = (\<lambda>bs. case unary_de bs of (u, p, i, a, b, j, l, path) \<Rightarrow>
        Some \<lparr>cp_update_idx = u, cp_path_id = p, cp_indicator = i, cp_initial_addr = nab_of a, cp_final_addr = nab_of b,
          cp_index_addr = \<lparr>ix_indicator = j, ix_leaf = l\<rparr>, cp_path = path\<rparr>),
     ser_hash_leaf = hp_leaf, de_hash_leaf = (\<lambda>bs. Some \<lparr>hp_leaf = bs\<rparr>),
     ser_subcircuit = (\<lambda>ps. unary_ser (map (\<lambda>p. (pb_bytes p, pb_type p)) ps)),
     de_subcircuit = (\<lambda>bs. Some (map (\<lambda>(b, t). \<lparr>pb_bytes = b, pb_type = t\<rparr>) (unary_de bs)))\<rparr>"

lemma primitive_bytes_eta [simp]: "\<lparr>pb_bytes = pb_bytes p, pb_type = pb_type p\<rparr> = p"
  by (cases p) simp

lemma toy_codec_ok: "vkd_codec_ok toy_codec"
  by (simp add: vkd_codec_ok_def toy_codec_def nab_tuple_def nab_of_def o_def)

theorem vkd_encoding_roundtrip_witness:
  "bytes_to_node_address toy_codec (node_address_to_bytes toy_codec (LeafHash \<lparr>lh_leaf = [1, 2]\<rparr>)) = Inr (LeafHash \<lparr>lh_leaf = [1, 2]\<rparr>)"
  using vkd_encoding_roundtrip [OF toy_codec_ok, THEN conjunct1] .

section \<open>Names identify addresses\<close>

lemma of_char_digit: "n < 16 \<Longrightarrow> of_char (digit n) = (if n < 10 then 48 + n else 87 + n)"
  by (simp add: digit_def of_char_of)

lemma digit_inj: "m < 16 \<Longrightarrow> n < 16 \<Longrightarrow> digit m = digit n \<longleftrightarrow> m = n"
  by (auto dest: arg_cong [where f = "of_char :: char \<Rightarrow> nat"] simp: of_char_digit split: if_splits)

definition decimal_val :: "string \<Rightarrow> nat" where
  "decimal_val s = foldl (\<lambda>a c. 10 * a + (of_char c - 48)) 0 s"

lemma decimal_val_decimal: "decimal_val (decimal n) = n"
proof (induction n rule: decimal.induct)
  case (1 n)
  show ?case
  proof (cases "n < 10")
    case True
    then show ?thesis by (subst decimal.simps) (simp add: decimal_val_def of_char_digit)
  next
    case False
    with 1 show ?thesis by (subst decimal.simps) (simp add: decimal_val_def of_char_digit)
  qed
qed

lemma decimal_inj [simp]: "decimal m = decimal n \<longleftrightarrow> m = n"
  by (metis decimal_val_decimal)

lemma space_not_decimal: "CHR '' '' \<notin> set (decimal n)"
proof (induction n rule: decimal.induct)
  case (1 n)
  have "CHR '' '' \<noteq> digit k" if "k < 10" for k
  proof
    assume "CHR '' '' = digit k"
    then have "of_char (CHR '' '') = (of_char (digit k) :: nat)" by simp
    then show False using that by (simp only: of_char_digit) simp
  qed
  with 1 show ?case by (subst decimal.simps) auto
qed

lemma bytes_to_string_inj [simp]: "bytes_to_string xs = bytes_to_string ys \<longleftrightarrow> xs = ys"
proof (induction xs arbitrary: ys)
  case Nil
  then show ?case by (cases ys) (simp_all add: bytes_to_string_def)
next
  case (Cons x xs)
  have hex: "digit (unat x div 16) = digit (unat y div 16) \<and> digit (unat x mod 16) = digit (unat y mod 16) \<longleftrightarrow> x = y" for y
  proof -
    have "unat x div 16 < 16" "unat y div 16 < 16" using u8_less [of x] u8_less [of y] by (simp_all only: less_mult_imp_div_less)
    then have "digit (unat x div 16) = digit (unat y div 16) \<and> digit (unat x mod 16) = digit (unat y mod 16)
      \<longleftrightarrow> unat x div 16 = unat y div 16 \<and> unat x mod 16 = unat y mod 16"
      by (simp add: digit_inj)
    also have "\<dots> \<longleftrightarrow> unat x = unat y" by (metis div_mult_mod_eq)
    finally show ?thesis by (simp add: word_unat_eq_iff)
  qed
  with Cons show ?case by (cases ys) (auto simp: bytes_to_string_def)
qed

lemma append_separator_eq:
  "c \<notin> set xs \<Longrightarrow> c \<notin> set ys \<Longrightarrow> xs @ c # us = ys @ c # vs \<longleftrightarrow> xs = ys \<and> us = vs"
proof (induction xs arbitrary: ys)
  case Nil
  then show ?case by (cases ys) auto
next
  case (Cons x xs)
  then show ?case by (cases ys) auto
qed

lemma spaced_eq:
  "decimal m @ CHR '' '' # xs = decimal n @ CHR '' '' # ys \<longleftrightarrow> m = n \<and> xs = ys"
  by (simp add: append_separator_eq space_not_decimal)

lemmas names = path_root_to_string_def intermediate_root_to_string_def leaf_hash_to_string_def
  null_leaf_to_string_def initial_root_to_string_def final_root_to_string_def index_to_string_def

lemma node_name_inj [simp]: "node_address_to_string a = node_address_to_string b \<longleftrightarrow> a = b"
  by (cases a; cases b) (auto simp: names spaced_eq)

lemma index_name_inj:
  "index_to_string x = index_to_string y \<longleftrightarrow> ix_indicator x = ix_indicator y \<and> take 32 (ix_leaf x) = take 32 (ix_leaf y)"
  by (simp add: names spaced_eq)

lemma index_name_not_node [simp]:
  "index_to_string x \<noteq> node_address_to_string a" "node_address_to_string a \<noteq> index_to_string x"
  by (cases a; simp add: names)+

text \<open>
  Portal names identify what they name: two node addresses with one name are equal, index
  wires with one name belong to the same part of the same username, and no index wire shares its
  name with a node.
\<close>

theorem address_names_injective:
  "(node_address_to_string a = node_address_to_string b) = (a = b)
   \<and> (index_to_string x = index_to_string y) = (ix_indicator x = ix_indicator y \<and> take 32 (ix_leaf x) = take 32 (ix_leaf y))
   \<and> index_to_string x \<noteq> node_address_to_string a"
  by (simp add: index_name_inj)

end
