(* ===== verification/Vkd.thy ===== *)
theory Vkd
  imports Vkd_Circuits
begin

text \<open>
  The verifiable key directory, \<open>distributed-prover/src/vkd/vkd.rs\<close>: a directory is a sparse Merkle
  tree of (username, counter, key) leaves; updates and appends come with paths, are verified
  natively, and are compiled to primitive subcircuits. Counters are 16-bit words and wrap.
\<close>

section \<open>Data\<close>

definition default_leaf :: "u8 list" where
  "default_leaf = replicate 66 0"

definition vkd_depth :: nat where
  "vkd_depth = 128"

definition split_factor_const :: nat where
  "split_factor_const = 4"

definition path_length :: nat where
  "path_length = vkd_depth div split_factor_const"

record vkd_update =
  vu_username :: "u8 list"
  vu_counter :: u16
  vu_key1 :: "u8 list"
  vu_path :: "u8 list list"
  vu_key2 :: "u8 list"

record vkd_append =
  va_username :: "u8 list"
  va_key :: "u8 list"
  va_path :: "u8 list list"

datatype update = Update vkd_update | Append vkd_append

definition vkd_update_default :: vkd_update where
  "vkd_update_default = \<lparr>vu_username = replicate 32 0, vu_counter = 0, vu_key1 = replicate 32 0,
     vu_path = path_default vkd_depth, vu_key2 = replicate 32 0\<rparr>"

record vkd_params =
  vp_log_num_subcircuits :: nat
  vp_null_leaf :: "u8 list"

record vkd_circuit =
  vc_initial_root :: "u8 list"
  vc_params :: vkd_params
  vc_final_root :: "u8 list"
  vc_update :: "update list"
  vc_subcircuits :: "vkd_subcircuit list"

definition u16_le_bytes :: "u16 \<Rightarrow> u8 list" where
  "u16_le_bytes c = val_bytes 2 (unat c)"

definition vkd_concat :: "u8 list \<Rightarrow> u8 list \<Rightarrow> u16 \<Rightarrow> u8 list" where
  "vkd_concat username key counter = (username @ u16_le_bytes counter) @ key"

section \<open>Native verification\<close>

text \<open>The tree index of a user.\<close>

definition user_index :: "'f::field hash_lib \<Rightarrow> u8 list \<Rightarrow> failure + merkle_index" where
  "user_index hl username =
     rbind (unwrap_res ''hash'' (vkd_hash hl username)) (\<lambda>leaf_h.
     unwrap_res ''get_index'' (get_index leaf_h vkd_depth))"

fun verify_update :: "'f::field hash_lib \<Rightarrow> u8 list \<Rightarrow> update \<Rightarrow> bool \<times> u8 list \<Rightarrow> failure + bool \<times> u8 list" where
  "verify_update hl pp (Update op) (res, rt) =
     rbind (user_index hl (vu_username op)) (\<lambda>index.
     rbind (unwrap_res ''verify'' (path_verify hl (vu_path op) rt
        (vkd_concat (vu_username op) (vu_key1 op) (vu_counter op)) (to_bit_vector index) Leaf)) (\<lambda>ok.
     rbind (unwrap_res ''compute_root'' (compute_root hl (vu_path op)
        (vkd_concat (vu_username op) (vu_key2 op) (vu_counter op + 1)) (to_bit_vector index) Leaf)) (\<lambda>rt'.
       Inr (res \<and> ok, rt'))))"
| "verify_update hl pp (Append op) (res, rt) =
     rbind (user_index hl (va_username op)) (\<lambda>index.
     rbind (unwrap_res ''verify'' (path_verify hl (va_path op) rt pp (to_bit_vector index) InternalNode)) (\<lambda>ok.
     rbind (unwrap_res ''compute_root'' (compute_root hl (va_path op)
        (vkd_concat (va_username op) (va_key op) 0) (to_bit_vector index) Leaf)) (\<lambda>rt'.
       Inr (res \<and> ok, rt'))))"

definition vkd_verify :: "'f::field hash_lib \<Rightarrow> vkd_circuit \<Rightarrow> u8 list \<Rightarrow> failure + bool" where
  "vkd_verify hl vc pp =
     rbind (rfold (verify_update hl pp) (vc_update vc) (True, vc_initial_root vc)) (\<lambda>(res, rt).
       Inr ((rt = vc_final_root vc) \<and> res))"

fun count_appends_updates :: "update list \<Rightarrow> nat \<times> nat" where
  "count_appends_updates us =
     fold (\<lambda>u (append_count, update_count). case u of
        Update _ \<Rightarrow> (append_count, update_count + 1)
      | Append _ \<Rightarrow> (append_count + 1, update_count)) us (0, 0)"

section \<open>Compilation to subcircuits\<close>

definition get_previous_root_from_update_idx :: "nat \<Rightarrow> update list \<Rightarrow> failure + node_address" where
  "get_previous_root_from_update_idx update_idx updates =
     (if update_idx = 0 then Inr InitialRoot
      else rbind (vindex updates (update_idx - 1)) (\<lambda>u. case u of
          Update _ \<Rightarrow> Inr (PathRoot \<lparr>pr_path_id = 1, pr_update_idx = update_idx - 1\<rparr>)
        | Append _ \<Rightarrow> Inr (PathRoot \<lparr>pr_path_id = 1, pr_update_idx = update_idx - 1\<rparr>)))"

definition get_node_addresses :: "nat \<Rightarrow> nat \<Rightarrow> node_address \<Rightarrow> (node_address \<times> node_address) list" where
  "get_node_addresses update_idx path_id initial_node =
     map (\<lambda>i. let ir = \<lambda>j. IntermediateRoot \<lparr>ir_indicator = j, ir_path_id = path_id, ir_update_idx = update_idx\<rparr> in
        if i = 0 then (initial_node, ir i)
        else if i = split_factor_const - 1 then
          (ir (i - 1), PathRoot \<lparr>pr_path_id = path_id, pr_update_idx = update_idx\<rparr>)
        else (ir (i - 1), ir i)) [0..<split_factor_const]"

text \<open>The primitive of the \<open>i\<close>-th part of a path, as each loop body builds it.\<close>

definition compute_path_primitive ::
    "vkd_codec \<Rightarrow> nat \<Rightarrow> nat \<Rightarrow> node_address \<Rightarrow> u8 list \<Rightarrow> u8 list list \<Rightarrow> nat \<Rightarrow> failure + primitive_subcircuit" where
  "compute_path_primitive cd update_idx path_id initial_node index_leaf path i =
     (let node_vector = get_node_addresses update_idx path_id initial_node in
      rbind (unwrap_res ''split'' (path_split path split_factor_const)) (\<lambda>parts.
      rbind (vindex node_vector i) (\<lambda>nodes.
      rbind (array_from 66 index_leaf) (\<lambda>leaf.
      rbind (vindex parts i) (\<lambda>part.
        Inr (ComputePathPrimitive \<lparr>cp_update_idx = update_idx, cp_path_id = path_id, cp_indicator = i,
          cp_initial_addr = node_address_to_bytes cd (fst nodes), cp_final_addr = node_address_to_bytes cd (snd nodes),
          cp_index_addr = \<lparr>ix_indicator = i, ix_leaf = leaf\<rparr>, cp_path = part\<rparr>))))))"

definition single :: "primitive_subcircuit \<Rightarrow> vkd_subcircuit" where
  "single p = \<lparr>compound_primitive_vec = [p]\<rparr>"

definition update_subcircuits :: "vkd_codec \<Rightarrow> update list \<Rightarrow> nat \<Rightarrow> vkd_update \<Rightarrow> failure + vkd_subcircuit list" where
  "update_subcircuits cd updates update_idx u =
     (let leaf1 = vkd_concat (vu_username u) (vu_key1 u) (vu_counter u);
          leaf2 = vkd_concat (vu_username u) (vu_key2 u) (vu_counter u + 1) in
      rbind (array_from 66 leaf1) (\<lambda>l1.
      rbind (rmap (compute_path_primitive cd update_idx 0 (LeafHash \<lparr>lh_leaf = l1\<rparr>) leaf1 (vu_path u)) [0..<split_factor_const]) (\<lambda>first.
      rbind (get_previous_root_from_update_idx update_idx updates) (\<lambda>prev.
      let eq = EqualityPrimitive \<lparr>eq_update_idx = update_idx,
            eq_addr1 = node_address_to_bytes cd (PathRoot \<lparr>pr_path_id = 0, pr_update_idx = update_idx\<rparr>),
            eq_addr2 = node_address_to_bytes cd prev\<rparr> in
      rbind (array_from 66 leaf2) (\<lambda>l2.
      rbind (rmap (compute_path_primitive cd update_idx 1 (LeafHash \<lparr>lh_leaf = l2\<rparr>) leaf1 (vu_path u)) [0..<split_factor_const]) (\<lambda>second.
        Inr (map single first @ [\<lparr>compound_primitive_vec = [eq, HashLeafPrimitive \<lparr>hp_leaf = l2\<rparr>, second ! 0]\<rparr>]
               @ map single (tl second))))))))"

definition append_subcircuits :: "vkd_codec \<Rightarrow> update list \<Rightarrow> nat \<Rightarrow> vkd_append \<Rightarrow> failure + vkd_subcircuit list" where
  "append_subcircuits cd updates update_idx u =
     (let leaf = vkd_concat (va_username u) (va_key u) 0 in
      rbind (array_from 66 leaf) (\<lambda>l.
      rbind (rmap (compute_path_primitive cd update_idx 0 NullLeaf leaf (va_path u)) [0..<split_factor_const]) (\<lambda>first.
      rbind (get_previous_root_from_update_idx update_idx updates) (\<lambda>prev.
      let eq = EqualityPrimitive \<lparr>eq_update_idx = update_idx,
            eq_addr1 = node_address_to_bytes cd (PathRoot \<lparr>pr_path_id = 0, pr_update_idx = update_idx\<rparr>),
            eq_addr2 = node_address_to_bytes cd prev\<rparr> in
      rbind (rmap (compute_path_primitive cd update_idx 1 (LeafHash \<lparr>lh_leaf = l\<rparr>) leaf (va_path u)) [0..<split_factor_const]) (\<lambda>second.
        Inr ([\<lparr>compound_primitive_vec = [HashLeafPrimitive \<lparr>hp_leaf = l\<rparr>,
                 GetIndexPrimitive \<lparr>gi_update_idx = update_idx, gi_leaf = l\<rparr>, first ! 0]\<rparr>]
             @ map single (take (split_factor_const - 2) (drop 1 first))
             @ [\<lparr>compound_primitive_vec = [first ! (split_factor_const - 1), eq]\<rparr>]
             @ map single second))))))"

fun one_update_subcircuits :: "vkd_codec \<Rightarrow> update list \<Rightarrow> nat \<times> update \<Rightarrow> failure + vkd_subcircuit list" where
  "one_update_subcircuits cd updates (update_idx, Update u) = update_subcircuits cd updates update_idx u"
| "one_update_subcircuits cd updates (update_idx, Append u) = append_subcircuits cd updates update_idx u"

definition vkd_update_to_subcircuit :: "vkd_codec \<Rightarrow> update list \<Rightarrow> failure + vkd_subcircuit list" where
  "vkd_update_to_subcircuit cd updates =
     rbind (rmap (one_update_subcircuits cd updates) (enumerate 0 updates)) (\<lambda>body.
     rbind (usub (length updates) 1) (\<lambda>last_idx.
     rbind (get_previous_root_from_update_idx (length updates) updates) (\<lambda>prev.
       Inr (replicate 6 (single PaddingPrimitive) @ [single WritePublicParameterPrimitive] @ concat body
            @ [single (EqualityPrimitive \<lparr>eq_update_idx = last_idx,
                 eq_addr1 = node_address_to_bytes cd FinalRoot, eq_addr2 = node_address_to_bytes cd prev\<rparr>)]))))"

section \<open>The directory the experiments use\<close>

record vkd_state =
  vs_users :: "u8 list \<rightharpoonup> u16 \<times> u8 list"
  vs_tree :: sparse_tree
  vs_updates :: "update list"

definition vkd_random_step ::
    "'f::field hash_lib \<Rightarrow> nat \<Rightarrow> u8 list \<Rightarrow> nat \<Rightarrow> vkd_state \<Rightarrow> failure + vkd_state" where
  "vkd_random_step hl num_of_updates username i st =
     (if i < num_of_updates then
        rbind (unwrap ''called `Option::unwrap()` on a `None` value'' (vs_users st username)) (\<lambda>(counter, key1).
        rbind (user_index hl username) (\<lambda>index.
        rbind (unwrap_res ''lookup_path'' (lookup_path (vs_tree st) index)) (\<lambda>path.
        let key2 = replicate 32 (word_of_nat (i mod 256));
            new_counter = counter + 1;
            users = (vs_users st)(username \<mapsto> (new_counter, key2)) in
        rbind (unwrap_res ''insertion panic'' (sparse_insert hl index (vkd_concat username key2 new_counter) Leaf (vs_tree st))) (\<lambda>tree.
          Inr \<lparr>vs_users = users, vs_tree = tree, vs_updates = vs_updates st @
            [Update \<lparr>vu_username = username, vu_counter = counter, vu_key1 = key1, vu_path = path, vu_key2 = key2\<rparr>]\<rparr>))))
      else Inr st)"

definition usize_shl :: "nat \<Rightarrow> failure + nat" where
  "usize_shl k = (if k < 64 then Inr (2 ^ k) else Inl (Panic ''attempt to shift left with overflow''))"

definition vkd_random :: "'f::field hash_lib \<Rightarrow> vkd_codec \<Rightarrow> vkd_params \<Rightarrow> failure + vkd_circuit" where
  "vkd_random hl cd params =
     rbind (unwrap_res ''new'' (sparse_tree_new hl vkd_depth)) (\<lambda>tree.
     let genesis = replicate 32 0;
         users = [genesis \<mapsto> (0, replicate 32 0)];
         temp = vkd_concat genesis (replicate 32 0) 0 in
     rbind (user_index hl genesis) (\<lambda>index.
     rbind (unwrap_res ''insertion panic'' (sparse_insert hl index temp Leaf tree)) (\<lambda>tree.
     let initial_root = st_root tree in
     rbind (usize_shl (vp_log_num_subcircuits params)) (\<lambda>n.
     rbind (usub n 8) (\<lambda>n8.
     rbind (usub (n8 div 8) 1) (\<lambda>num_of_updates.
     let num_of_appends = 0;
         username = replicate 32 8;
         key = replicate 32 0;
         users = users(username \<mapsto> (0, key)) in
     rbind (user_index hl username) (\<lambda>index.
     rbind (unwrap_res ''lookup_path'' (lookup_path tree index)) (\<lambda>path.
     rbind (unwrap_res ''insertion panic'' (sparse_insert hl index (vkd_concat username key 0) Leaf tree)) (\<lambda>tree.
     rbind (rfold (vkd_random_step hl num_of_updates username) [0..<num_of_updates + num_of_appends]
        \<lparr>vs_users = users, vs_tree = tree,
         vs_updates = [Append \<lparr>va_username = username, va_key = key, va_path = path\<rparr>]\<rparr>) (\<lambda>st.
     rbind (vkd_update_to_subcircuit cd (vs_updates st)) (\<lambda>subcircuits.
       Inr \<lparr>vc_initial_root = initial_root, vc_params = params, vc_final_root = st_root (vs_tree st),
            vc_update = vs_updates st, vc_subcircuits = subcircuits\<rparr>)))))))))))"

section \<open>What the compilation produces\<close>

definition part :: "'a list \<Rightarrow> nat \<Rightarrow> 'a list" where
  "part path i = take (length path div 4) (drop (i * (length path div 4)) path)"

definition prev_root :: "nat \<Rightarrow> node_address" where
  "prev_root i = (if i = 0 then InitialRoot else PathRoot \<lparr>pr_path_id = 1, pr_update_idx = i - 1\<rparr>)"

abbreviation mid_root :: "nat \<Rightarrow> nat \<Rightarrow> nat \<Rightarrow> node_address" where
  "mid_root u p i \<equiv> IntermediateRoot \<lparr>ir_indicator = i, ir_path_id = p, ir_update_idx = u\<rparr>"

abbreviation path_root :: "nat \<Rightarrow> nat \<Rightarrow> node_address" where
  "path_root u p \<equiv> PathRoot \<lparr>pr_path_id = p, pr_update_idx = u\<rparr>"

definition step_nodes :: "nat \<Rightarrow> nat \<Rightarrow> node_address \<Rightarrow> nat \<Rightarrow> node_address \<times> node_address" where
  "step_nodes u p start i =
     (if i = 0 then start else mid_root u p (i - 1), if i = 3 then path_root u p else mid_root u p i)"

definition path_prim :: "vkd_codec \<Rightarrow> nat \<Rightarrow> nat \<Rightarrow> node_address \<Rightarrow> u8 list \<Rightarrow> u8 list list \<Rightarrow> nat \<Rightarrow> primitive_subcircuit" where
  "path_prim cd u p start leaf path i = ComputePathPrimitive \<lparr>cp_update_idx = u, cp_path_id = p, cp_indicator = i,
     cp_initial_addr = node_address_to_bytes cd (fst (step_nodes u p start i)),
     cp_final_addr = node_address_to_bytes cd (snd (step_nodes u p start i)),
     cp_index_addr = \<lparr>ix_indicator = i, ix_leaf = leaf\<rparr>, cp_path = part path i\<rparr>"

definition equality_prim :: "vkd_codec \<Rightarrow> nat \<Rightarrow> node_address \<Rightarrow> node_address \<Rightarrow> primitive_subcircuit" where
  "equality_prim cd u a b = EqualityPrimitive \<lparr>eq_update_idx = u, eq_addr1 = node_address_to_bytes cd a,
     eq_addr2 = node_address_to_bytes cd b\<rparr>"

fun update_wf :: "update \<Rightarrow> bool" where
  "update_wf (Update u) \<longleftrightarrow> length (vu_username u) = 32 \<and> length (vu_key1 u) = 32 \<and> length (vu_key2 u) = 32
     \<and> 4 dvd length (vu_path u)"
| "update_wf (Append u) \<longleftrightarrow> length (va_username u) = 32 \<and> length (va_key u) = 32 \<and> 4 dvd length (va_path u)"

definition old_leaf :: "vkd_update \<Rightarrow> u8 list" where
  "old_leaf u = vkd_concat (vu_username u) (vu_key1 u) (vu_counter u)"

definition new_leaf :: "vkd_update \<Rightarrow> u8 list" where
  "new_leaf u = vkd_concat (vu_username u) (vu_key2 u) (vu_counter u + 1)"

definition append_leaf :: "vkd_append \<Rightarrow> u8 list" where
  "append_leaf u = vkd_concat (va_username u) (va_key u) 0"

fun update_prims :: "vkd_codec \<Rightarrow> nat \<Rightarrow> update \<Rightarrow> primitive_subcircuit list list" where
  "update_prims cd i (Update u) =
     map (\<lambda>k. [path_prim cd i 0 (LeafHash \<lparr>lh_leaf = old_leaf u\<rparr>) (old_leaf u) (vu_path u) k]) [0, 1, 2, 3]
     @ [[equality_prim cd i (path_root i 0) (prev_root i), HashLeafPrimitive \<lparr>hp_leaf = new_leaf u\<rparr>,
         path_prim cd i 1 (LeafHash \<lparr>lh_leaf = new_leaf u\<rparr>) (old_leaf u) (vu_path u) 0]]
     @ map (\<lambda>k. [path_prim cd i 1 (LeafHash \<lparr>lh_leaf = new_leaf u\<rparr>) (old_leaf u) (vu_path u) k]) [1, 2, 3]"
| "update_prims cd i (Append u) =
     [[HashLeafPrimitive \<lparr>hp_leaf = append_leaf u\<rparr>, GetIndexPrimitive \<lparr>gi_update_idx = i, gi_leaf = append_leaf u\<rparr>,
       path_prim cd i 0 NullLeaf (append_leaf u) (va_path u) 0]]
     @ map (\<lambda>k. [path_prim cd i 0 NullLeaf (append_leaf u) (va_path u) k]) [1, 2]
     @ [[path_prim cd i 0 NullLeaf (append_leaf u) (va_path u) 3, equality_prim cd i (path_root i 0) (prev_root i)]]
     @ map (\<lambda>k. [path_prim cd i 1 (LeafHash \<lparr>lh_leaf = append_leaf u\<rparr>) (append_leaf u) (va_path u) k]) [0, 1, 2, 3]"

definition compiled :: "vkd_codec \<Rightarrow> update list \<Rightarrow> primitive_subcircuit list list" where
  "compiled cd updates = replicate 6 [PaddingPrimitive] @ [[WritePublicParameterPrimitive]]
     @ concat (map (\<lambda>(i, u). update_prims cd i u) (enumerate 0 updates))
     @ [[equality_prim cd (length updates - 1) FinalRoot (prev_root (length updates))]]"

lemma length_vkd_concat [simp]: "length (vkd_concat u k c) = length u + length k + 2"
  by (simp add: vkd_concat_def u16_le_bytes_def)

lemma upt_0_4: "[0..<4] = [0, 1, 2, 3 :: nat]"
  by (simp add: upt_rec)

lemma compute_path_primitive_eq:
  assumes "length leaf = 66" and "4 dvd length path" and "i < 4"
  shows "compute_path_primitive cd u p start leaf path i = Inr (path_prim cd u p start leaf path i)"
proof -
  obtain out where out: "split path 4 = Inr out" "length out = 4" using split_ok [of 4 path] by auto
  have "out ! i = part path i" using split_nth [OF out(1) assms(2,3)] by (simp add: part_def)
  moreover have "get_node_addresses u p start ! i = step_nodes u p start i"
    using assms(3) by (simp add: get_node_addresses_def split_factor_const_def step_nodes_def)
  moreover have "length (get_node_addresses u p start) = 4"
    by (simp add: get_node_addresses_def split_factor_const_def)
  ultimately show ?thesis
    using assms(1,3) out by (simp add: compute_path_primitive_def path_split_def split_factor_const_def array_from_def path_prim_def)
qed

lemma compute_path_primitives_eq:
  assumes "length leaf = 66" and "4 dvd length path"
  shows "rmap (compute_path_primitive cd u p start leaf path) [0..<split_factor_const]
     = Inr (map (path_prim cd u p start leaf path) [0, 1, 2, 3])"
  using compute_path_primitive_eq [OF assms] by (simp add: split_factor_const_def upt_0_4)

lemma get_previous_root_eq:
  "i \<le> length updates \<Longrightarrow> get_previous_root_from_update_idx i updates = Inr (prev_root i)"
  by (simp add: get_previous_root_from_update_idx_def prev_root_def split: update.splits)

lemma one_update_eq:
  assumes "update_wf u" and "i < length updates"
  shows "one_update_subcircuits cd updates (i, u) = Inr (map (\<lambda>ps. \<lparr>compound_primitive_vec = ps\<rparr>) (update_prims cd i u))"
proof (cases u)
  case (Update x)
  then show ?thesis
    using assms get_previous_root_eq [of i updates] compute_path_primitives_eq
    by (simp add: update_subcircuits_def old_leaf_def [symmetric] new_leaf_def [symmetric] array_from_def Let_def
        single_def equality_prim_def) (simp add: old_leaf_def new_leaf_def)
next
  case (Append x)
  then show ?thesis
    using assms get_previous_root_eq [of i updates] compute_path_primitives_eq
    by (simp add: append_subcircuits_def append_leaf_def [symmetric] array_from_def Let_def
        single_def equality_prim_def split_factor_const_def) (simp add: append_leaf_def)
qed

lemma vkd_update_to_subcircuit_eq:
  assumes "\<forall>u \<in> set updates. update_wf u" and "updates \<noteq> []"
  shows "vkd_update_to_subcircuit cd updates = Inr (map (\<lambda>ps. \<lparr>compound_primitive_vec = ps\<rparr>) (compiled cd updates))"
proof -
  let ?mk = "\<lambda>ps. \<lparr>compound_primitive_vec = ps\<rparr>"
  have "rmap (one_update_subcircuits cd updates) (enumerate 0 updates)
      = Inr (map (\<lambda>(i, u). map ?mk (update_prims cd i u)) (enumerate 0 updates))"
    using assms(1) one_update_eq
    by (intro rmap_total) (auto simp: in_set_enumerate_eq)
  moreover have "concat (map (\<lambda>(i, u). map ?mk (update_prims cd i u)) xs) = map ?mk (concat (map (\<lambda>(i, u). update_prims cd i u) xs))" for xs
    by (induction xs) auto
  moreover have "1 \<le> length updates" using assms(2) by (cases updates) simp_all
  ultimately show ?thesis
    using get_previous_root_eq [of "length updates" updates]
    by (simp add: vkd_update_to_subcircuit_def compiled_def single_def equality_prim_def)
qed

lemma length_update_prims: "length (update_prims cd i u) = 8"
  by (cases u) simp_all

lemma length_compiled: "length (compiled cd updates) = 8 * length updates + 8"
proof -
  have "length (concat (map (\<lambda>(i, u). update_prims cd i u) xs)) = 8 * length xs" for xs
    by (induction xs) (auto simp: length_update_prims)
  then show ?thesis by (simp add: compiled_def)
qed

text \<open>
  C26: A non-empty list of well-formed updates compiles to \<open>8\<close> subcircuits per update and \<open>8\<close> more (six
  of padding, one that writes the public parameters, one that checks the final root), and every
  subcircuit is of one of the seven kinds that \<open>representative_subcircuit\<close> knows.
\<close>

theorem vkd_compile_shape:
  assumes "\<forall>u \<in> set updates. update_wf u" and "updates \<noteq> []"
  shows "\<exists>sc. vkd_update_to_subcircuit cd updates = Inr sc \<and> length sc = 8 * length updates + 8
     \<and> (\<forall>s \<in> set sc. subcircuit_get_type s \<in> {''padding'', ''write pp'', ''hash leaf, get index, compute path'',
          ''compute path'', ''compute path, equality'', ''equality, hash leaf, compute path'', ''equality''})"
proof -
  let ?K = "{''padding'', ''write pp'', ''hash leaf, get index, compute path'',
          ''compute path'', ''compute path, equality'', ''equality, hash leaf, compute path'', ''equality''}"
  have "\<forall>ps \<in> set (update_prims cd i u). subcircuit_get_type \<lparr>compound_primitive_vec = ps\<rparr> \<in> ?K" for i u
    by (cases u) (simp_all add: subcircuit_get_type_def path_prim_def equality_prim_def)
  then have "\<forall>ps \<in> set (compiled cd updates). subcircuit_get_type \<lparr>compound_primitive_vec = ps\<rparr> \<in> ?K"
    by (auto simp: compiled_def) (simp_all add: subcircuit_get_type_def equality_prim_def)
  then show ?thesis
    by (simp add: vkd_update_to_subcircuit_eq [OF assms] length_compiled)
qed

section \<open>Honest directories verify\<close>

lemma user_index_ok:
  assumes "hash_lib_ok hl"
  shows "\<exists>i. user_index hl u = Inr (at_node i vkd_depth) \<and> i < 2 ^ vkd_depth"
proof -
  obtain h where h: "vkd_hash hl u = Inr h" "length h = 32" using vkd_hash_total [OF assms] by blast
  have "bytes_val (take 16 h) < 256 ^ length (take 16 h)" by (rule bytes_val_less)
  then have "bytes_val (take 16 h) < 2 ^ 128" using h(2) by simp
  then show ?thesis using h by (simp add: user_index_def get_index_def vkd_depth_def)
qed

text \<open>One honest step: a path looked up in the tree before the new leaf is inserted.\<close>

lemma honest_path:
  assumes "hash_lib_ok hl" and "tree_ok hl vkd_depth t" and "i < 2 ^ vkd_depth"
  obtains path t' where "lookup_path t (at_node i vkd_depth) = Inr path" "length path = vkd_depth"
    "path_verify hl path (st_root t) (leaf_value t vkd_depth i) (to_bit_vector (at_node i vkd_depth)) Leaf = Inr True"
    "path_verify hl path (st_root t) (node_hash t vkd_depth i) (to_bit_vector (at_node i vkd_depth)) InternalNode = Inr True"
    "sparse_insert hl (at_node i vkd_depth) v Leaf t = Inr t'" "tree_ok hl vkd_depth t'"
    "leaf_value t' vkd_depth = (leaf_value t vkd_depth)(i := v)"
    "compute_root hl path v (to_bit_vector (at_node i vkd_depth)) Leaf = Inr (st_root t')"
proof -
  from lookup_path_ok [OF assms(2,3)] obtain path where path: "lookup_path t (at_node i vkd_depth) = Inr path"
    "length path = vkd_depth" "rfold (path_step hl) (zip path (index_bits vkd_depth i)) (node_hash t vkd_depth i) = Inr (st_root t)"
    by blast
  have "length (node_hash t vkd_depth i) = inner_hash_size"
    using tree_okD(3) [OF assms(2)] by (rule hash_leaf_length)
  then have "path_verify hl path (st_root t) (node_hash t vkd_depth i) (to_bit_vector (at_node i vkd_depth)) InternalNode = Inr True"
    using path(2,3) by (simp add: path_verify_def compute_root_inner to_bit_vector_def)
  with lookup_path_updates [OF assms, of v] path(1,2) that show thesis by auto
qed

definition random_inv :: "'f::field hash_lib \<Rightarrow> u8 list \<Rightarrow> u8 list \<Rightarrow> u8 list \<Rightarrow> nat \<Rightarrow> vkd_state \<Rightarrow> bool" where
  "random_inv hl pp r0 username i st \<longleftrightarrow>
     tree_ok hl vkd_depth (vs_tree st)
     \<and> (\<exists>c k. vs_users st username = Some (c, k) \<and> length k = 32 \<and> leaf_value (vs_tree st) vkd_depth i = vkd_concat username k c)
     \<and> rfold (verify_update hl pp) (vs_updates st) (True, r0) = Inr (True, st_root (vs_tree st))
     \<and> (\<forall>u \<in> set (vs_updates st). update_wf u)"

lemma dvd_4_depth [simp]: "4 dvd vkd_depth"
  by (simp add: vkd_depth_def)

lemma vkd_random_step_ok:
  assumes hl: "hash_lib_ok hl" and inv: "random_inv hl pp r0 username i st" and j: "j < n"
    and idx: "user_index hl username = Inr (at_node i vkd_depth)" "i < 2 ^ vkd_depth" and len: "length username = 32"
  shows "\<exists>st'. vkd_random_step hl n username j st = Inr st' \<and> random_inv hl pp r0 username i st'
     \<and> length (vs_updates st') = Suc (length (vs_updates st))"
proof -
  from inv obtain c k where st: "tree_ok hl vkd_depth (vs_tree st)" "vs_users st username = Some (c, k)" "length k = 32"
    "leaf_value (vs_tree st) vkd_depth i = vkd_concat username k c"
    "rfold (verify_update hl pp) (vs_updates st) (True, r0) = Inr (True, st_root (vs_tree st))"
    "\<forall>u \<in> set (vs_updates st). update_wf u"
    by (auto simp: random_inv_def)
  define key2 :: "u8 list" where "key2 = replicate 32 (word_of_nat (j mod 256))"
  obtain path t' where p: "lookup_path (vs_tree st) (at_node i vkd_depth) = Inr path" "length path = vkd_depth"
    "path_verify hl path (st_root (vs_tree st)) (vkd_concat username k c) (to_bit_vector (at_node i vkd_depth)) Leaf = Inr True"
    "sparse_insert hl (at_node i vkd_depth) (vkd_concat username key2 (c + 1)) Leaf (vs_tree st) = Inr t'" "tree_ok hl vkd_depth t'"
    "leaf_value t' vkd_depth = (leaf_value (vs_tree st) vkd_depth)(i := vkd_concat username key2 (c + 1))"
    "compute_root hl path (vkd_concat username key2 (c + 1)) (to_bit_vector (at_node i vkd_depth)) Leaf = Inr (st_root t')"
    using honest_path [OF hl st(1) idx(2), of "vkd_concat username key2 (c + 1)"] st(4) by metis
  let ?u = "Update \<lparr>vu_username = username, vu_counter = c, vu_key1 = k, vu_path = path, vu_key2 = key2\<rparr>"
  let ?st = "\<lparr>vs_users = (vs_users st)(username \<mapsto> (c + 1, key2)), vs_tree = t', vs_updates = vs_updates st @ [?u]\<rparr>"
  have "vkd_random_step hl n username j st = Inr ?st"
    using j st(2) idx(1) p(1,4) by (simp add: vkd_random_step_def key2_def Let_def)
  moreover have "verify_update hl pp ?u (True, st_root (vs_tree st)) = Inr (True, st_root t')"
    using p(3,7) idx(1) by simp
  then have "random_inv hl pp r0 username i ?st"
    using st(3,5,6) p(2,5,6) len by (simp add: random_inv_def rfold_append key2_def)
  ultimately show ?thesis by (intro exI [of _ ?st]) simp
qed

lemma vkd_random_loop:
  assumes "hash_lib_ok hl" and "user_index hl username = Inr (at_node i vkd_depth)" "i < 2 ^ vkd_depth"
    and "length username = 32"
  shows "random_inv hl pp r0 username i st \<Longrightarrow> \<forall>j \<in> set js. j < n \<Longrightarrow>
     \<exists>st'. rfold (vkd_random_step hl n username) js st = Inr st' \<and> random_inv hl pp r0 username i st'
       \<and> length (vs_updates st') = length (vs_updates st) + length js"
proof (induction js arbitrary: st)
  case (Cons j js)
  then obtain st1 where "vkd_random_step hl n username j st = Inr st1" "random_inv hl pp r0 username i st1"
    "length (vs_updates st1) = Suc (length (vs_updates st))"
    using vkd_random_step_ok [OF assms(1) Cons.prems(1) _ assms(2-4), of j n] by auto
  with Cons.IH [of st1] Cons.prems(2) show ?case by auto
qed simp

abbreviation genesis_name :: "u8 list" where
  "genesis_name \<equiv> replicate 32 0"

abbreviation random_name :: "u8 list" where
  "random_name \<equiv> replicate 32 8"

text \<open>The genesis leaf and the append with which every generated directory starts.\<close>

lemma vkd_random_start:
  assumes hl: "hash_lib_ok hl" and distinct: "user_index hl random_name \<noteq> user_index hl genesis_name"
    and pp: "hash_leaf hl initial_leaf_value = Inr pp"
  obtains g i t0 t1 t2 path where
    "user_index hl genesis_name = Inr (at_node g vkd_depth)" "user_index hl random_name = Inr (at_node i vkd_depth)"
    "i < 2 ^ vkd_depth" "sparse_tree_new hl vkd_depth = Inr t0"
    "sparse_insert hl (at_node g vkd_depth) (vkd_concat genesis_name genesis_name 0) Leaf t0 = Inr t1"
    "lookup_path t1 (at_node i vkd_depth) = Inr path"
    "sparse_insert hl (at_node i vkd_depth) (vkd_concat random_name genesis_name 0) Leaf t1 = Inr t2"
    "random_inv hl pp (st_root t1) random_name i
       \<lparr>vs_users = [genesis_name \<mapsto> (0, genesis_name), random_name \<mapsto> (0, genesis_name)], vs_tree = t2,
        vs_updates = [Append \<lparr>va_username = random_name, va_key = genesis_name, va_path = path\<rparr>]\<rparr>"
    "tree_ok hl vkd_depth t1"
proof -
  obtain g i where g: "user_index hl genesis_name = Inr (at_node g vkd_depth)" "g < 2 ^ vkd_depth"
    and i: "user_index hl random_name = Inr (at_node i vkd_depth)" "i < 2 ^ vkd_depth"
    using user_index_ok [OF hl] by meson
  have "i \<noteq> g" using distinct g(1) i(1) by auto
  obtain t0 where t0: "sparse_tree_new hl vkd_depth = Inr t0" "tree_ok hl vkd_depth t0" "st_leaves t0 = Map.empty"
    using sparse_tree_new_ok [OF hl] by blast
  obtain t1 where t1: "sparse_insert hl (at_node g vkd_depth) (vkd_concat genesis_name genesis_name 0) Leaf t0 = Inr t1"
    "tree_ok hl vkd_depth t1"
    "leaf_value t1 vkd_depth = (leaf_value t0 vkd_depth)(g := vkd_concat genesis_name genesis_name 0)"
    using sparse_insert_ok [OF hl t0(2) g(2)] by blast
  have "leaf_value t1 vkd_depth i = initial_leaf_value"
    using t1(3) \<open>i \<noteq> g\<close> t0(3) by (simp add: leaf_value_def)
  then have "node_hash t1 vkd_depth i = pp" using tree_okD(3) [OF t1(2), of i] pp by simp
  with honest_path [OF hl t1(2) i(2), of "vkd_concat random_name genesis_name 0"] obtain path t2 where
    p: "lookup_path t1 (at_node i vkd_depth) = Inr path" "length path = vkd_depth"
    "path_verify hl path (st_root t1) pp (to_bit_vector (at_node i vkd_depth)) InternalNode = Inr True"
    "sparse_insert hl (at_node i vkd_depth) (vkd_concat random_name genesis_name 0) Leaf t1 = Inr t2" "tree_ok hl vkd_depth t2"
    "leaf_value t2 vkd_depth = (leaf_value t1 vkd_depth)(i := vkd_concat random_name genesis_name 0)"
    "compute_root hl path (vkd_concat random_name genesis_name 0) (to_bit_vector (at_node i vkd_depth)) Leaf = Inr (st_root t2)"
    by metis
  then have "random_inv hl pp (st_root t1) random_name i
       \<lparr>vs_users = [genesis_name \<mapsto> (0, genesis_name), random_name \<mapsto> (0, genesis_name)], vs_tree = t2,
        vs_updates = [Append \<lparr>va_username = random_name, va_key = genesis_name, va_path = path\<rparr>]\<rparr>"
    using i(1) by (simp add: random_inv_def)
  then show thesis using t1(2) by (rule that [OF g(1) i t0(1) t1(1) p(1,4)])
qed

lemma directory_size:
  assumes "4 \<le> n"
  shows "8 \<le> (2 :: nat) ^ n" "1 \<le> ((2 :: nat) ^ n - 8) div 8" "8 * Suc ((2 ^ n - 8) div 8 - 1) + 8 = 2 ^ n"
proof -
  define m :: nat where "m = 2 ^ (n - 4)"
  have "(2 :: nat) ^ n = 16 * m" using assms power_add [of "2 :: nat" 4 "n - 4"] by (simp add: m_def)
  moreover have "1 \<le> m" by (simp add: m_def)
  moreover from this have "(16 * m - 8) div 8 = 2 * m - 1" by presburger
  ultimately show "8 \<le> (2 :: nat) ^ n" "1 \<le> ((2 :: nat) ^ n - 8) div 8" "8 * Suc ((2 ^ n - 8) div 8 - 1) + 8 = 2 ^ n"
    by simp_all
qed

abbreviation random_start :: "sparse_tree \<Rightarrow> u8 list list \<Rightarrow> vkd_state" where
  "random_start t path \<equiv>
     \<lparr>vs_users = [genesis_name \<mapsto> (0, genesis_name), random_name \<mapsto> (0, genesis_name)], vs_tree = t,
      vs_updates = [Append \<lparr>va_username = random_name, va_key = genesis_name, va_path = path\<rparr>]\<rparr>"

text \<open>The run of \<open>random\<close>, with the state of its loop.\<close>

lemma vkd_random_runs:
  fixes hl :: "'f::field hash_lib"
  assumes hl: "hash_lib_ok hl" and size: "4 \<le> vp_log_num_subcircuits params" "vp_log_num_subcircuits params < 64"
    and distinct: "user_index hl random_name \<noteq> user_index hl genesis_name"
    and pp: "hash_leaf hl initial_leaf_value = Inr pp"
  obtains k i t1 t2 path st where
    "8 * k + 16 = 2 ^ vp_log_num_subcircuits params" "random_inv hl pp (st_root t1) random_name i (random_start t2 path)"
    "lookup_path t1 (at_node i vkd_depth) = Inr path" "tree_ok hl vkd_depth t1"
    "rfold (vkd_random_step hl k random_name) [0..<k] (random_start t2 path) = Inr st"
    "random_inv hl pp (st_root t1) random_name i st" "length (vs_updates st) = Suc k"
    "vkd_random hl cd params = Inr \<lparr>vc_initial_root = st_root t1, vc_params = params, vc_final_root = st_root (vs_tree st),
       vc_update = vs_updates st, vc_subcircuits = map (\<lambda>ps. \<lparr>compound_primitive_vec = ps\<rparr>) (compiled cd (vs_updates st))\<rparr>"
    "vkd_update_to_subcircuit cd (vs_updates st)
       = Inr (map (\<lambda>ps. \<lparr>compound_primitive_vec = ps\<rparr>) (compiled cd (vs_updates st)))"
proof -
  let ?n = "vp_log_num_subcircuits params"
  define k where "k = (2 ^ ?n - 8) div 8 - (1 :: nat)"
  obtain g i t0 t1 t2 path where s:
    "user_index hl genesis_name = Inr (at_node g vkd_depth)" "user_index hl random_name = Inr (at_node i vkd_depth)"
    "i < 2 ^ vkd_depth" "sparse_tree_new hl vkd_depth = Inr t0"
    "sparse_insert hl (at_node g vkd_depth) (vkd_concat genesis_name genesis_name 0) Leaf t0 = Inr t1"
    "lookup_path t1 (at_node i vkd_depth) = Inr path"
    "sparse_insert hl (at_node i vkd_depth) (vkd_concat random_name genesis_name 0) Leaf t1 = Inr t2"
    "random_inv hl pp (st_root t1) random_name i (random_start t2 path)" "tree_ok hl vkd_depth t1"
    by (rule vkd_random_start [OF hl distinct pp])
  from vkd_random_loop [OF hl s(2,3) _ s(8), of "[0..<k]" k] obtain st where
    st: "rfold (vkd_random_step hl k random_name) [0..<k] (random_start t2 path) = Inr st"
      "random_inv hl pp (st_root t1) random_name i st" "length (vs_updates st) = Suc k" by auto
  then have compile: "vkd_update_to_subcircuit cd (vs_updates st)
      = Inr (map (\<lambda>ps. \<lparr>compound_primitive_vec = ps\<rparr>) (compiled cd (vs_updates st)))"
    by (intro vkd_update_to_subcircuit_eq) (auto simp: random_inv_def)
  have "8 * k + 16 = 2 ^ ?n" using directory_size(3) [OF size(1)] by (simp add: k_def)
  moreover have "vkd_random hl cd params = Inr \<lparr>vc_initial_root = st_root t1, vc_params = params,
      vc_final_root = st_root (vs_tree st), vc_update = vs_updates st,
      vc_subcircuits = map (\<lambda>ps. \<lparr>compound_primitive_vec = ps\<rparr>) (compiled cd (vs_updates st))\<rparr>"
    using s(1,2,4-7) size(2) directory_size(1,2) [OF size(1)] st(1) compile
    by (simp add: vkd_random_def Let_def usize_shl_def k_def)
  ultimately show thesis using that [OF _ s(8,6,9) st _ compile] by blast
qed

text \<open>
  The directory that the experiments generate verifies: for every size exponent from \<open>4\<close> on, and
  if the hashes of the two usernames lead to different leaves, building it succeeds, its updates are
  accepted by the native verification against the hash of the empty leaf, and it compiles to exactly
  \<open>2 ^ log_num_subcircuits\<close> subcircuits.
\<close>

theorem vkd_random_verifies:
  fixes hl :: "'f::field hash_lib"
  assumes hl: "hash_lib_ok hl" and size: "4 \<le> vp_log_num_subcircuits params" "vp_log_num_subcircuits params < 64"
    and distinct: "user_index hl (replicate 32 8) \<noteq> user_index hl (replicate 32 0)"
    and pp: "hash_leaf hl initial_leaf_value = Inr pp"
  shows "\<exists>vc. vkd_random hl cd params = Inr vc \<and> vkd_verify hl vc pp = Inr True
     \<and> length (vc_subcircuits vc) = 2 ^ vp_log_num_subcircuits params"
proof -
  obtain k i st and t1 :: sparse_tree where
    r: "8 * k + 16 = 2 ^ vp_log_num_subcircuits params" "random_inv hl pp (st_root t1) random_name i st"
    "length (vs_updates st) = Suc k"
    "vkd_random hl cd params = Inr \<lparr>vc_initial_root = st_root t1, vc_params = params, vc_final_root = st_root (vs_tree st),
       vc_update = vs_updates st, vc_subcircuits = map (\<lambda>ps. \<lparr>compound_primitive_vec = ps\<rparr>) (compiled cd (vs_updates st))\<rparr>"
    by (rule vkd_random_runs [OF hl size distinct pp, of cd]) (rule that)
  then show ?thesis by (simp add: vkd_verify_def random_inv_def length_compiled)
qed

text \<open>
  Smaller size exponents panic: \<open>((1 << log_num_subcircuits) - 8) / 8 - 1\<close> underflows below \<open>4\<close>.
\<close>

theorem vkd_random_small_panics:
  assumes "hash_lib_ok hl" and "vp_log_num_subcircuits params < 4"
  shows "vkd_random hl cd params = Inl (Panic ''attempt to subtract with overflow'')"
proof -
  obtain g where g: "user_index hl (replicate 32 0) = Inr (at_node g vkd_depth)" "g < 2 ^ vkd_depth"
    using user_index_ok [OF assms(1)] by meson
  obtain t0 where t0: "sparse_tree_new hl vkd_depth = Inr t0" "tree_ok hl vkd_depth t0"
    using sparse_tree_new_ok [OF assms(1)] by blast
  obtain t1 where t1: "sparse_insert hl (at_node g vkd_depth) (vkd_concat (replicate 32 0) (replicate 32 0) 0) Leaf t0 = Inr t1"
    using sparse_insert_ok [OF assms(1) t0(2) g(2)] by blast
  have "vp_log_num_subcircuits params \<in> {0, 1, 2, 3}" using assms(2) by auto
  then show ?thesis
    using g(1) t0(1) t1 by (auto simp: vkd_random_def Let_def usize_shl_def)
qed

section \<open>Instances\<close>

text \<open>With the small hash library the two usernames do lead to different leaves.\<close>

lemma toy_user_index:
  assumes "length u = 32"
  shows "user_index toy_hash_lib u = Inr (at_node ((bytes_val (take 27 u) + bytes_val (drop 27 u)) mod 2 ^ 128) vkd_depth)"
proof -
  have "chunks 27 u = [take 27 u, drop 27 u]"
    using chunks_append_exact [of 27 "take 27 u" "drop 27 u"] assms chunks_unfold [of 27 "drop 27 u"] by simp
  then have "hl_sponge toy_hash_lib (map from_le_bytes_mod_order (chunks inner_hash_size u))
      = of_nat (bytes_val (take 27 u) + bytes_val (drop 27 u))" (is "_ = of_nat ?n")
    by (simp add: toy_hash_lib_def inner_hash_size_def from_le_bytes_mod_order_def)
  moreover have "hl_sponge_bytes toy_hash_lib (of_nat m) = val_bytes 32 m" for m
    by (simp only: toy_hash_lib_def hash_lib.select_convs floor_of_nat nat_int)
  ultimately have h: "vkd_hash toy_hash_lib u = Inr (val_bytes 32 ?n)"
    by (simp add: vkd_hash_def Let_def del: of_nat_add)
  have "bytes_val (val_bytes 32 ?n) = bytes_val (take 16 (val_bytes 32 ?n)) + 256 ^ 16 * bytes_val (drop 16 (val_bytes 32 ?n))"
    using bytes_val_append [of "take 16 (val_bytes 32 ?n)" "drop 16 (val_bytes 32 ?n)"] by simp
  moreover have "bytes_val (take 16 (val_bytes 32 ?n)) < 256 ^ length (take 16 (val_bytes 32 ?n))" by (rule bytes_val_less)
  ultimately have "bytes_val (take 16 (val_bytes 32 ?n)) = (?n mod 256 ^ 32) mod 256 ^ 16"
    by (simp add: bytes_val_val_bytes)
  also have "\<dots> = ?n mod 2 ^ 128" by (simp add: mod_mod_cancel)
  finally show ?thesis using h by (simp add: user_index_def get_index_def vkd_depth_def)
qed

lemma toy_names_distinct: "user_index toy_hash_lib (replicate 32 8) \<noteq> user_index toy_hash_lib (replicate 32 0)"
proof
  assume eq: "user_index toy_hash_lib (replicate 32 8) = user_index toy_hash_lib (replicate 32 0)"
  have zero: "bytes_val (replicate n 0) = 0" for n by (induction n) simp_all
  have eight: "replicate 27 (8 :: u8) = 8 # replicate 26 8" "replicate 5 (8 :: u8) = 8 # replicate 4 8"
    using replicate_Suc [of 26 "8 :: u8"] replicate_Suc [of 4 "8 :: u8"] by simp_all
  define c where "c = bytes_val (replicate 26 8) + bytes_val (replicate 4 8)"
  have "(16 + 256 * c) mod 2 ^ 128 = 0"
    using eq by (simp add: toy_user_index zero eight c_def distrib_left)
  then have "2 ^ 128 dvd 16 + 256 * c" by (rule mod_0_imp_dvd)
  moreover have "(256 :: nat) dvd 2 ^ 128" by simp
  ultimately have "256 dvd 16 + 256 * c" by (metis dvd_trans)
  then show False by (simp add: dvd_add_left_iff)
qed

theorem vkd_compile_shape_witness:
  "\<exists>sc. vkd_update_to_subcircuit toy_codec
       [Append \<lparr>va_username = replicate 32 1, va_key = replicate 32 2, va_path = replicate 128 (replicate 27 0)\<rparr>] = Inr sc
     \<and> length sc = 16"
  using vkd_compile_shape
    [of "[Append \<lparr>va_username = replicate 32 1, va_key = replicate 32 2, va_path = replicate 128 (replicate 27 0)\<rparr>]" toy_codec]
  by auto

theorem vkd_random_verifies_witness:
  "\<exists>pp vc. hash_leaf toy_hash_lib initial_leaf_value = Inr pp
     \<and> vkd_random toy_hash_lib toy_codec \<lparr>vp_log_num_subcircuits = 5, vp_null_leaf = pp\<rparr> = Inr vc
     \<and> vkd_verify toy_hash_lib vc pp = Inr True \<and> length (vc_subcircuits vc) = 32"
proof -
  obtain pp where pp: "hash_leaf toy_hash_lib initial_leaf_value = Inr pp"
    using hash_leaf_total [OF toy_hash_lib_ok] by blast
  from vkd_random_verifies [OF toy_hash_lib_ok _ _ toy_names_distinct pp,
      of "\<lparr>vp_log_num_subcircuits = 5, vp_null_leaf = pp\<rparr>" toy_codec] pp
  show ?thesis by simp
qed

theorem vkd_random_small_panics_witness:
  "vkd_random toy_hash_lib toy_codec \<lparr>vp_log_num_subcircuits = 3, vp_null_leaf = []\<rparr>
     = Inl (Panic ''attempt to subtract with overflow'')"
  by (rule vkd_random_small_panics) (simp_all add: toy_hash_lib_ok)

end
