(* ===== verification/Vkd_Constraints.thy ===== *)
theory Vkd_Constraints
  imports Vkd Circuit
begin

text \<open>
  The key directory as a circuit with portals, \<open>distributed-prover/src/vkd/vkd_constraints.rs\<close>:
  the constraints of a subcircuit as a portal program, the native run that produces the same portal
  trace without the hash gadgets, the witnesses a worker receives, and the cache of circuits.
\<close>

section \<open>The circuit cache\<close>

type_synonym vkd_cache = "vkd_params \<rightharpoonup> vkd_circuit"

definition vkd_cache_new :: vkd_cache where
  "vkd_cache_new = Map.empty"

definition vkd_get_or_init ::
    "'f::field hash_lib \<Rightarrow> vkd_codec \<Rightarrow> vkd_params \<Rightarrow> vkd_cache \<Rightarrow> failure + (vkd_circuit \<times> vkd_cache)" where
  "vkd_get_or_init hl cd params circuits =
     (case circuits params of
        Some c \<Rightarrow> Inr (c, circuits)
      | None \<Rightarrow> rbind (vkd_random hl cd params) (\<lambda>c. Inr (c, circuits(params \<mapsto> c))))"

section \<open>Constraints\<close>

text \<open>The index gadget and its native counterpart, which also yields the split bit vector.\<close>

definition fpvar_to_boolean_index :: "'f::field hash_lib \<Rightarrow> 'f \<Rightarrow> failure + bool list" where
  "fpvar_to_boolean_index hl fpvar = slice_range 0 path_length (hl_to_bits_le hl fpvar)"

definition hash_leaf_to_split_index :: "u8 list \<Rightarrow> nat \<Rightarrow> failure + ('f::field list \<times> bool list list)" where
  "hash_leaf_to_split_index leaf_hash split_factor =
     rbind (unwrap_res ''get_index'' (get_index leaf_hash vkd_depth)) (\<lambda>mi.
     let index = to_bit_vector mi in
     rbind (unwrap_res ''split'' (split index split_factor)) (\<lambda>split_index.
     rbind (slice_range 0 (vkd_depth div 8) leaf_hash) (\<lambda>fixed_size_array.
     rbind (unwrap_res ''split'' (split fixed_size_array split_factor)) (\<lambda>split_leaf_hash.
     rbind (rmap (\<lambda>i. rbind (vindex split_leaf_hash i) (\<lambda>piece.
         rbind (slice_range 0 (path_length div 8) piece) (\<lambda>bs. Inr (from_le_bytes_mod_order bs)))) [0..<split_factor]) (\<lambda>fps.
       Inr (fps, split_index))))))"

fun primitive_constraints ::
    "'f::field hash_lib \<Rightarrow> vkd_codec \<Rightarrow> vkd_circuit \<Rightarrow> primitive_subcircuit \<Rightarrow> ('f, bool) portal" where
  "primitive_constraints hl cd vc (EqualityPrimitive eq) =
     pbind (lift_res (bytes_to_node_address cd (eq_addr1 eq))) (\<lambda>addr1.
     pbind (lift_res (bytes_to_node_address cd (eq_addr2 eq))) (\<lambda>addr2.
     pbind (portal_get (node_address_to_string addr1)) (\<lambda>value1.
     pbind (portal_get (node_address_to_string addr2)) (\<lambda>value2. Return (value1 = value2)))))"
| "primitive_constraints hl cd vc (GetIndexPrimitive ind) =
     pbind (lift_res (slice_range 0 32 (gi_leaf ind))) (\<lambda>leaf_var.
     pbind (lift_res (unwrap_res ''hash_var'' (hash_var hl leaf_var))) (\<lambda>hash.
     pbind (lift_res (slice_range 0 vkd_depth (concat (map byte_bits hash)))) (\<lambda>sub_hash.
     pbind (lift_res (unwrap_res ''split'' (split sub_hash split_factor_const))) (\<lambda>bool_vec.
     pfold (\<lambda>i ok.
         pbind (lift_res (vindex bool_vec i)) (\<lambda>bs.
         pbind (portal_set (index_to_string \<lparr>ix_indicator = i, ix_leaf = gi_leaf ind\<rparr>) (le_bits_to_fp_var bs)) (\<lambda>_. Return ok)))
       [0..<split_factor_const] True))))"
| "primitive_constraints hl cd vc (ComputePathPrimitive p) =
     pbind (lift_res (bytes_to_node_address cd (cp_initial_addr p))) (\<lambda>initial_value_addr.
     pbind (portal_get (node_address_to_string initial_value_addr)) (\<lambda>initial_node.
     pbind (portal_get (index_to_string (cp_index_addr p))) (\<lambda>index_fpvar.
     pbind (lift_res (unwrap_res ''index'' (fpvar_to_boolean_index hl index_fpvar))) (\<lambda>index.
     pbind (lift_res (unwrap_res ''compute_root'' (compute_root_var_from_internal_node hl (path_new_variable (cp_path p)) initial_node index))) (\<lambda>rt.
     pbind (lift_res (bytes_to_node_address cd (cp_final_addr p))) (\<lambda>final_value_addr.
     pbind (portal_set (node_address_to_string final_value_addr) rt) (\<lambda>_. Return True)))))))"
| "primitive_constraints hl cd vc (HashLeafPrimitive h) =
     pbind (lift_res (unwrap_res ''hash_leaf_var'' (hash_leaf_var hl (hp_leaf h)))) (\<lambda>hash.
     pbind (portal_set (leaf_hash_to_string \<lparr>lh_leaf = hp_leaf h\<rparr>) hash) (\<lambda>_. Return True))"
| "primitive_constraints hl cd vc WritePublicParameterPrimitive =
     pbind (portal_set initial_root_to_string (digest_to_fpvar (vc_initial_root vc))) (\<lambda>_.
     pbind (portal_set final_root_to_string (digest_to_fpvar (vc_final_root vc))) (\<lambda>_.
     pbind (portal_set null_leaf_to_string (digest_to_fpvar (vp_null_leaf (vc_params vc)))) (\<lambda>_. Return True)))"
| "primitive_constraints hl cd vc PaddingPrimitive = Return True"

text \<open>The result is the truth of the constraints of all primitives.\<close>

definition prims_constraints ::
    "'f::field hash_lib \<Rightarrow> vkd_codec \<Rightarrow> vkd_circuit \<Rightarrow> primitive_subcircuit list \<Rightarrow> ('f, bool) portal" where
  "prims_constraints hl cd vc ps =
     pfold (\<lambda>p ok. pbind (primitive_constraints hl cd vc p) (\<lambda>b. Return (ok \<and> b))) ps True"

definition vkd_generate_constraints ::
    "'f::field hash_lib \<Rightarrow> vkd_codec \<Rightarrow> vkd_circuit \<Rightarrow> nat \<Rightarrow> ('f, bool) portal" where
  "vkd_generate_constraints hl cd vc subcircuit_idx =
     pbind (lift_res (vindex (vc_subcircuits vc) subcircuit_idx)) (\<lambda>subcircuit.
       prims_constraints hl cd vc (compound_primitive_vec subcircuit))"

section \<open>The native portal trace\<close>

record 'f vkd_memory =
  vm_index :: "string \<rightharpoonup> bool list"
  vm_inner :: "string \<rightharpoonup> u8 list"
  vm_pm :: "'f setup_rom"

definition pm_get :: "string \<Rightarrow> 'f vkd_memory \<Rightarrow> failure + 'f vkd_memory" where
  "pm_get n m = rbind (setup_rom_get n (vm_pm m)) (\<lambda>(_, pm). Inr (m\<lparr>vm_pm := pm\<rparr>))"

definition pm_set :: "string \<Rightarrow> 'f \<Rightarrow> 'f vkd_memory \<Rightarrow> failure + 'f vkd_memory" where
  "pm_set n v m = rbind (setup_rom_set n v (vm_pm m)) (\<lambda>pm. Inr (m\<lparr>vm_pm := pm\<rparr>))"

text \<open>Remember an inner node natively and set its wire.\<close>

definition set_node :: "string \<Rightarrow> u8 list \<Rightarrow> 'f::field vkd_memory \<Rightarrow> failure + 'f vkd_memory" where
  "set_node addr h m = pm_set addr (digest_to_fpvar h) (m\<lparr>vm_inner := (vm_inner m)(addr \<mapsto> h)\<rparr>)"

fun primitive_trace ::
    "'f::field hash_lib \<Rightarrow> vkd_codec \<Rightarrow> vkd_circuit \<Rightarrow> primitive_subcircuit \<Rightarrow> 'f vkd_memory \<Rightarrow> failure + 'f vkd_memory" where
  "primitive_trace hl cd vc WritePublicParameterPrimitive m =
     rbind (set_node initial_root_to_string (vc_initial_root vc) m) (\<lambda>m.
     rbind (set_node final_root_to_string (vc_final_root vc) m) (\<lambda>m.
       set_node null_leaf_to_string (vp_null_leaf (vc_params vc)) m))"
| "primitive_trace hl cd vc (EqualityPrimitive eq) m =
     rbind (bytes_to_node_address cd (eq_addr1 eq)) (\<lambda>addr1.
     rbind (bytes_to_node_address cd (eq_addr2 eq)) (\<lambda>addr2.
     rbind (pm_get (node_address_to_string addr1) m) (pm_get (node_address_to_string addr2))))"
| "primitive_trace hl cd vc (GetIndexPrimitive ind) m =
     rbind (slice_range 0 32 (gi_leaf ind)) (\<lambda>username.
     rbind (unwrap_res ''hash'' (vkd_hash hl username)) (\<lambda>leaf_h.
     rbind (hash_leaf_to_split_index leaf_h split_factor_const) (\<lambda>index_vector.
     rfold (\<lambda>i m.
         let addr = index_to_string \<lparr>ix_indicator = i, ix_leaf = gi_leaf ind\<rparr> in
         rbind (vindex (snd index_vector) i) (\<lambda>bs.
         rbind (vindex (fst index_vector) i) (\<lambda>v.
           pm_set addr v (m\<lparr>vm_index := (vm_index m)(addr \<mapsto> bs)\<rparr>))))
       [0..<split_factor_const] m)))"
| "primitive_trace hl cd vc (ComputePathPrimitive p) m =
     rbind (bytes_to_node_address cd (cp_initial_addr p)) (\<lambda>initial_value_addr.
     rbind (unwrap ''called `Option::unwrap()` on a `None` value'' (vm_index m (index_to_string (cp_index_addr p)))) (\<lambda>index.
     rbind (unwrap ''called `Option::unwrap()` on a `None` value'' (vm_inner m (node_address_to_string initial_value_addr))) (\<lambda>initial_value.
     rbind (pm_get (node_address_to_string initial_value_addr) m) (\<lambda>m.
     rbind (pm_get (index_to_string (cp_index_addr p)) m) (\<lambda>m.
     rbind (unwrap_res ''compute_root'' (compute_root hl (cp_path p) initial_value index InternalNode)) (\<lambda>rt.
     rbind (bytes_to_node_address cd (cp_final_addr p)) (\<lambda>final_value_addr.
       set_node (node_address_to_string final_value_addr) rt m)))))))"
| "primitive_trace hl cd vc (HashLeafPrimitive h) m =
     rbind (unwrap_res ''hash_leaf'' (hash_leaf hl (hp_leaf h))) (\<lambda>leaf_h.
       set_node (leaf_hash_to_string \<lparr>lh_leaf = hp_leaf h\<rparr>) leaf_h m)"
| "primitive_trace hl cd vc PaddingPrimitive m = Inr m"

definition subcircuit_trace ::
    "'f::field hash_lib \<Rightarrow> vkd_codec \<Rightarrow> vkd_circuit \<Rightarrow> vkd_subcircuit \<Rightarrow> 'f vkd_memory \<Rightarrow> failure + 'f vkd_memory" where
  "subcircuit_trace hl cd vc subcircuit m =
     rfold (primitive_trace hl cd vc) (compound_primitive_vec subcircuit) (m\<lparr>vm_pm := setup_rom_start_subtrace (vm_pm m)\<rparr>)"

definition vkd_get_portal_subtraces ::
    "'f::field hash_lib \<Rightarrow> vkd_codec \<Rightarrow> vkd_circuit \<Rightarrow> failure + 'f transcript_entry list list" where
  "vkd_get_portal_subtraces hl cd vc =
     rbind (vkd_update_to_subcircuit cd (vc_update vc)) (\<lambda>subcircuits.
     rbind (rfold (subcircuit_trace hl cd vc) subcircuits
        \<lparr>vm_index = Map.empty, vm_inner = Map.empty, vm_pm = setup_rom_new\<rparr>) (\<lambda>m.
       Inr (map (map RomEntry) (sr_subtraces (vm_pm m)))))"

section \<open>The circuit\<close>

definition vkd_num_subcircuits :: "vkd_circuit \<Rightarrow> nat" where
  "vkd_num_subcircuits vc = 2 ^ vp_log_num_subcircuits (vc_params vc)"

definition vkd_unique_subcircuits :: "vkd_circuit \<Rightarrow> nat list" where
  "vkd_unique_subcircuits vc = [0, 6, 7, 8, 10, 19, vkd_num_subcircuits vc - 1]"

definition vkd_representative_subcircuit :: "vkd_circuit \<Rightarrow> nat \<Rightarrow> failure + nat" where
  "vkd_representative_subcircuit vc subcircuit_idx =
     rbind (vindex (vc_subcircuits vc) subcircuit_idx) (\<lambda>sc.
     let t = subcircuit_get_type sc in
     if t = ''padding'' then Inr 0
     else if t = ''write pp'' then Inr 6
     else if t = ''hash leaf, get index, compute path'' then Inr 7
     else if t = ''compute path'' then Inr 8
     else if t = ''compute path, equality'' then Inr 10
     else if t = ''equality, hash leaf, compute path'' then Inr 19
     else if t = ''equality'' then Inr (vkd_num_subcircuits vc - 1)
     else Inl (Panic ''shouldn't be here''))"

definition vkd_get_serialized_witnesses :: "vkd_codec \<Rightarrow> vkd_circuit \<Rightarrow> nat \<Rightarrow> failure + u8 list" where
  "vkd_get_serialized_witnesses cd vc subcircuit_idx =
     rbind (vindex (vc_subcircuits vc) subcircuit_idx) (\<lambda>sc. Inr (ser_subcircuit cd (subcircuit_to_bytes cd sc)))"

definition vkd_set_serialized_witnesses :: "vkd_codec \<Rightarrow> nat \<Rightarrow> u8 list \<Rightarrow> vkd_circuit \<Rightarrow> failure + vkd_circuit" where
  "vkd_set_serialized_witnesses cd subcircuit_idx bytes vc =
     rbind (de_unwrap (de_subcircuit cd bytes)) (\<lambda>subcircuit_byte.
     rbind (bytes_to_subcircuit cd subcircuit_byte) (\<lambda>sc.
     rbind (vindex (vc_subcircuits vc) subcircuit_idx) (\<lambda>_.
       Inr (vc\<lparr>vc_subcircuits := (vc_subcircuits vc)[subcircuit_idx := sc]\<rparr>))))"

text \<open>\<open>new\<close> reads the cache, which holds what \<open>random\<close> returns (shown below), hence is \<open>random\<close> itself.\<close>

definition vkd_ops :: "'f::field hash_lib \<Rightarrow> vkd_codec \<Rightarrow> ('f, vkd_circuit, vkd_params) circuit_ops" where
  "vkd_ops hl cd = \<lparr>op_mem_type = Rom, op_get_params = vc_params, op_portal_subtraces = vkd_get_portal_subtraces hl cd,
     op_num_subcircuits = vkd_num_subcircuits, op_unique_subcircuits = (\<lambda>vc. Inr (vkd_unique_subcircuits vc)),
     op_representative = vkd_representative_subcircuit, op_new = vkd_random hl cd,
     op_get_witnesses = vkd_get_serialized_witnesses cd, op_set_witnesses = vkd_set_serialized_witnesses cd,
     op_generate = vkd_generate_constraints hl cd\<rparr>"

section \<open>The parts of an index\<close>

text \<open>The bits of a hash that select the path, least significant first.\<close>

definition hash_bits :: "u8 list \<Rightarrow> bool list" where
  "hash_bits h = concat (map byte_bits (take 16 h))"

lemma part_map: "part (map f xs) i = map f (part xs i)"
  by (simp add: part_def take_map drop_map)

lemma length_part: "length (part xs i) \<le> length xs div 4"
  by (simp add: part_def)

lemma length_part_eq: "i < 4 \<Longrightarrow> 4 dvd length xs \<Longrightarrow> length (part xs i) = length xs div 4"
proof -
  assume "i < 4" "4 dvd length xs"
  then obtain k where k: "length xs = 4 * k" by blast
  have "Suc i * k \<le> 4 * k" using \<open>i < 4\<close> by (intro mult_le_mono1) simp
  then have "k \<le> 4 * k - i * k" unfolding mult_Suc by linarith
  then have "min (4 * k - i * k) k = k" by (simp only: min.absorb2)
  with k show "length (part xs i) = length xs div 4" by (simp add: part_def)
qed

lemma split_parts:
  assumes "4 dvd length xs"
  shows "split xs 4 = Inr (map (part xs) [0, 1, 2, 3])"
proof -
  obtain out where out: "split xs 4 = Inr out" "length out = 4" using split_ok [of 4 xs] by auto
  have "out = map (part xs) [0..<4]"
    using split_nth [OF out(1) assms] out(2) by (intro nth_equalityI) (simp_all add: part_def)
  with out(1) show ?thesis by (simp add: upt_0_4)
qed

lemma concat_bits_window:
  "concat (map byte_bits (take k (drop j bs))) = take (8 * k) (drop (8 * j) (concat (map byte_bits bs)))"
proof (induction bs arbitrary: j k)
  case (Cons b bs)
  show ?case
  proof (cases j)
    case 0
    with Cons.IH [of "k - 1" 0] show ?thesis by (cases k) simp_all
  next
    case (Suc j')
    with Cons.IH [of k j'] show ?thesis by simp
  qed
qed simp

lemma part_bits: "length bs = 16 \<Longrightarrow> part (concat (map byte_bits bs)) i = concat (map byte_bits (part bs i))"
  by (simp add: part_def concat_bits_window mult.commute)

lemma length_hash_bits: "length h = 32 \<Longrightarrow> length (hash_bits h) = 128"
  by (simp add: hash_bits_def)

lemma hash_bits_slice:
  "length h = 32 \<Longrightarrow> slice_range 0 vkd_depth (concat (map byte_bits h)) = Inr (hash_bits h)"
  using concat_bits_window [of 16 0 h] by (simp add: hash_bits_def vkd_depth_def)

lemma index_bits_hash: "length h = 32 \<Longrightarrow> index_bits 128 (bytes_val (take 16 h)) = map Not (hash_bits h)"
  using val_bits_bits_val [OF length_hash_bits, of h]
  by (simp add: index_bits_val_bits hash_bits_def bits_val_concat_bytes)

lemma hash_leaf_to_split_index_eq:
  assumes "length h = 32"
  shows "(hash_leaf_to_split_index h split_factor_const :: failure + ('f::field list \<times> bool list list)) = Inr
     (map (\<lambda>i. le_bits_to_fp_var (part (hash_bits h) i)) [0, 1, 2, 3], map (\<lambda>i. map Not (part (hash_bits h) i)) [0, 1, 2, 3])"
proof -
  let ?bs = "take 16 h"
  have len: "length ?bs = 16" "\<And>i. i < 4 \<Longrightarrow> length (part ?bs i) = 4"
    using assms by (simp_all add: length_part_eq)
  have fp: "(from_le_bytes_mod_order (part ?bs i) :: 'f) = le_bits_to_fp_var (part (hash_bits h) i)" for i
    using len(1) by (simp add: hash_bits_def part_bits le_bits_bytes)
  have "rmap (\<lambda>i. rbind (vindex (map (part ?bs) [0, 1, 2, 3]) i) (\<lambda>piece.
         rbind (slice_range 0 (path_length div 8) piece) (\<lambda>bs. Inr (from_le_bytes_mod_order bs :: 'f)))) [0..<4]
      = Inr (map (\<lambda>i. le_bits_to_fp_var (part (hash_bits h) i)) [0, 1, 2, 3])"
    using len(2) by (simp add: upt_0_4 path_length_def vkd_depth_def split_factor_const_def fp)
  moreover have "get_index h vkd_depth = Inr (at_node (bytes_val ?bs) 128)"
    using assms by (simp add: get_index_def vkd_depth_def)
  ultimately show ?thesis
    using assms split_parts [of "map Not (hash_bits h)"] split_parts [of ?bs]
    by (simp add: hash_leaf_to_split_index_def to_bit_vector_def index_bits_hash length_hash_bits split_factor_const_def
        part_map vkd_depth_def)
qed

text \<open>An index wire is taken back to the bits it was made of.\<close>

lemma fpvar_to_boolean_index_eq:
  assumes "hash_lib_ok hl" and "length bs = path_length"
  shows "fpvar_to_boolean_index hl (le_bits_to_fp_var bs) = Inr bs"
proof -
  have "bits_val bs < 2 ^ 32" using bits_val_less [of bs] assms(2) by (simp add: path_length_def vkd_depth_def split_factor_const_def)
  also have "(2 :: nat) ^ 32 \<le> 2 ^ 216" by (rule power_increasing) simp_all
  finally obtain rest where r: "hl_to_bits_le hl (of_nat (bits_val bs)) = val_bits 216 (bits_val bs) @ rest"
    using assms(1) by (auto simp: hash_lib_ok_def)
  have "take path_length (val_bits 216 (bits_val bs)) = bs"
    using take_val_bits [of path_length 216 "bits_val bs"] val_bits_bits_val [OF assms(2)]
    by (simp add: path_length_def vkd_depth_def split_factor_const_def)
  then show ?thesis
    using r by (simp add: fpvar_to_boolean_index_def le_bits_to_fp_var_def path_length_def vkd_depth_def split_factor_const_def)
qed

section \<open>The native trace is the trace of the constraints\<close>

text \<open>The native memories hold what the portal manager's wires hold.\<close>

definition memory_agrees :: "'f::field vkd_memory \<Rightarrow> bool" where
  "memory_agrees m \<longleftrightarrow>
     (\<forall>a. setup_rom_store (vm_pm m) (node_address_to_string a)
          = map_option inner_hash_to_fpvar (vm_inner m (node_address_to_string a)))
     \<and> (\<forall>a h. vm_inner m (node_address_to_string a) = Some h \<longrightarrow> length h = inner_hash_size)
     \<and> (\<forall>x. setup_rom_store (vm_pm m) (index_to_string x)
          = map_option (\<lambda>bs. le_bits_to_fp_var (map Not bs)) (vm_index m (index_to_string x)))
     \<and> (\<forall>x bs. vm_index m (index_to_string x) = Some bs \<longrightarrow> length bs = path_length)"

definition agree :: "failure + 'f::field vkd_memory \<Rightarrow> failure + ('a \<times> 'f setup_rom) \<Rightarrow> bool" where
  "agree t c \<longleftrightarrow> (case t of
       Inl _ \<Rightarrow> \<exists>e. c = Inl e
     | Inr m \<Rightarrow> (\<exists>x. c = Inr (x, vm_pm m)) \<and> memory_agrees m \<and> setup_rom_ready (vm_pm m))"

lemma agree_simps [simp]:
  "agree (Inl e) (Inl e')"
  "agree (Inr m) (Inr (x, s)) \<longleftrightarrow> s = vm_pm m \<and> memory_agrees m \<and> setup_rom_ready (vm_pm m)"
  "\<not> agree (Inl e) (Inr r)" "\<not> agree (Inr m) (Inl e')"
  by (auto simp: agree_def)

lemma agree_bind:
  assumes "agree t c"
    and "\<And>m x. memory_agrees m \<Longrightarrow> setup_rom_ready (vm_pm m) \<Longrightarrow> agree (k m) (k' x (vm_pm m))"
  shows "agree (rbind t k) (rbind c (\<lambda>(x, s). k' x s))"
proof (cases t)
  case (Inl e)
  with assms(1) obtain e' where "c = Inl e'" by (auto simp: agree_def)
  with Inl show ?thesis by simp
next
  case (Inr m)
  with assms(1) obtain x where "c = Inr (x, vm_pm m)" "memory_agrees m" "setup_rom_ready (vm_pm m)"
    by (auto simp: agree_def)
  with assms(2) [of m x] Inr show ?thesis by simp
qed

lemma agree_pure:
  "(\<And>y. r = Inr y \<Longrightarrow> agree (k y) (k' y)) \<Longrightarrow> agree (rbind r k) (rbind r k')"
  by (cases r) simp_all

lemma memory_agreesD:
  assumes "memory_agrees m"
  shows "setup_rom_store (vm_pm m) (node_address_to_string a)
      = map_option inner_hash_to_fpvar (vm_inner m (node_address_to_string a))"
    "vm_inner m (node_address_to_string a) = Some h \<Longrightarrow> length h = inner_hash_size"
    "setup_rom_store (vm_pm m) (index_to_string x)
      = map_option (\<lambda>bs. le_bits_to_fp_var (map Not bs)) (vm_index m (index_to_string x))"
    "vm_index m (index_to_string x) = Some bs \<Longrightarrow> length bs = path_length"
  using assms by (simp_all add: memory_agrees_def)

text \<open>Reading a wire leaves the memories as they are.\<close>

lemma pm_get_agrees:
  assumes "memory_agrees m" and "setup_rom_ready (vm_pm m)" and "setup_rom_store (vm_pm m) n = Some v"
  shows "\<exists>m'. pm_get n m = Inr m' \<and> setup_rom_get n (vm_pm m) = Inr (v, vm_pm m') \<and> memory_agrees m'
     \<and> setup_rom_ready (vm_pm m') \<and> setup_rom_store (vm_pm m') = setup_rom_store (vm_pm m)"
proof -
  obtain s where s: "setup_rom_get n (vm_pm m) = Inr (v, s)" "setup_rom_ready s" "setup_rom_store s = setup_rom_store (vm_pm m)"
    using rom_pm.get_hit [OF assms(2,3)] by blast
  then show ?thesis
    using assms(1) by (intro exI [of _ "m\<lparr>vm_pm := s\<rparr>"]) (simp add: pm_get_def memory_agrees_def)
qed

lemma pm_get_fails:
  assumes "setup_rom_ready (vm_pm m)" and "setup_rom_store (vm_pm m) n = None"
  obtains e where "pm_get n m = Inl e" "setup_rom_get n (vm_pm m) = Inl e"
  using rom_pm.get_miss [OF assms] by (auto simp: pm_get_def)

lemma set_wire_agrees:
  assumes "setup_rom_ready (vm_pm m)"
    and "\<And>s. setup_rom_ready s \<Longrightarrow> setup_rom_store s = (setup_rom_store (vm_pm m))(n \<mapsto> v) \<Longrightarrow> memory_agrees (m'\<lparr>vm_pm := s\<rparr>)"
    and "vm_pm m' = vm_pm m"
  shows "agree (pm_set n v m') (rbind (setup_rom_set n v (vm_pm m)) (\<lambda>s. Inr (x, s)))"
proof (cases "setup_rom_store (vm_pm m) n")
  case None
  then obtain s where "setup_rom_set n v (vm_pm m) = Inr s" "setup_rom_ready s"
    "setup_rom_store s = (setup_rom_store (vm_pm m))(n \<mapsto> v)"
    using rom_pm.set_hit [OF assms(1), of n v] by blast
  with assms(2,3) show ?thesis by (simp add: pm_set_def)
next
  case (Some w)
  then obtain e where "setup_rom_set n v (vm_pm m) = Inl e" using rom_pm.set_dup [OF assms(1), of n v] by auto
  with assms(3) show ?thesis by (simp add: pm_set_def)
qed

lemma set_node_agrees:
  assumes "memory_agrees m" and "setup_rom_ready (vm_pm m)" and "length h = inner_hash_size"
  shows "agree (set_node (node_address_to_string a) h m)
     (run_portal setup_rom_get setup_rom_set (portal_set (node_address_to_string a) (inner_hash_to_fpvar h)) (vm_pm m))"
  unfolding set_node_def portal_set_def run_portal.simps
proof (subst digest_to_fpvar_eq, goal_cases)
  case 2
  show ?case
    by (rule set_wire_agrees) (use assms in \<open>simp_all add: memory_agrees_def\<close>)
qed (simp add: assms(3))

lemma set_index_agrees:
  assumes "memory_agrees m" and "setup_rom_ready (vm_pm m)" and "length bs = path_length"
  shows "agree (pm_set (index_to_string x) (le_bits_to_fp_var bs) (m\<lparr>vm_index := (vm_index m)(index_to_string x \<mapsto> map Not bs)\<rparr>))
     (run_portal setup_rom_get setup_rom_set (portal_set (index_to_string x) (le_bits_to_fp_var bs)) (vm_pm m))"
  unfolding portal_set_def run_portal.simps
  by (rule set_wire_agrees) (use assms in \<open>simp_all add: memory_agrees_def o_def\<close>)

lemma get_agrees:
  assumes "memory_agrees m" and "setup_rom_ready (vm_pm m)"
  shows "agree (pm_get n m) (setup_rom_get n (vm_pm m))"
proof (cases "setup_rom_store (vm_pm m) n")
  case None
  from pm_get_fails [OF assms(2) this] obtain e where "pm_get n m = Inl e" "setup_rom_get n (vm_pm m) = Inl e" .
  then show ?thesis by simp
next
  case (Some v)
  obtain m' where "pm_get n m = Inr m'" "setup_rom_get n (vm_pm m) = Inr (v, vm_pm m')"
    "memory_agrees m'" "setup_rom_ready (vm_pm m')" using pm_get_agrees [OF assms Some] by blast
  then show ?thesis by simp
qed

abbreviation setup_portal :: "('f, 'a) portal \<Rightarrow> 'f setup_rom \<Rightarrow> failure + ('a \<times> 'f setup_rom)" where
  "setup_portal \<equiv> run_portal setup_rom_get setup_rom_set"

lemma setup_portal_get: "setup_portal (pbind (portal_get n) k) s = rbind (setup_rom_get n s) (\<lambda>(v, s'). setup_portal (k v) s')"
  by (simp add: portal_get_def)

lemma agree_lift:
  "(\<And>y. r = Inr y \<Longrightarrow> agree (k y) (setup_portal (k' y) s)) \<Longrightarrow>
     agree (rbind r k) (setup_portal (pbind (lift_res r) k') s)"
  by (cases r) simp_all

lemma agree_get:
  assumes "memory_agrees m" and "setup_rom_ready (vm_pm m)"
    and "\<And>m' v. memory_agrees m' \<Longrightarrow> setup_rom_ready (vm_pm m') \<Longrightarrow> agree (k m') (setup_portal (k' v) (vm_pm m'))"
  shows "agree (rbind (pm_get n m) k) (setup_portal (pbind (portal_get n) k') (vm_pm m))"
  unfolding setup_portal_get by (rule agree_bind) (use assms get_agrees in blast)+

lemma agree_then:
  assumes "agree t (setup_portal p s)"
    and "\<And>m x. memory_agrees m \<Longrightarrow> setup_rom_ready (vm_pm m) \<Longrightarrow> agree (k m) (setup_portal (k' x) (vm_pm m))"
  shows "agree (rbind t k) (setup_portal (pbind p k') s)"
  unfolding run_portal_bind by (rule agree_bind) (use assms in blast)+

lemma agree_Return: "agree t (setup_portal p s) \<Longrightarrow> agree t (setup_portal (pbind p (\<lambda>_. Return x)) s)"
  using agree_then [of t p s Inr "\<lambda>_. Return x"] by (cases t) (simp_all add: agree_def)

lemma agree_fold:
  assumes "\<And>x m ok. x \<in> set xs \<Longrightarrow> memory_agrees m \<Longrightarrow> setup_rom_ready (vm_pm m) \<Longrightarrow>
      agree (f x m) (setup_portal (g x ok) (vm_pm m))"
    and "memory_agrees m" and "setup_rom_ready (vm_pm m)"
  shows "agree (rfold f xs m) (setup_portal (pfold g xs ok) (vm_pm m))"
  using assms
proof (induction xs arbitrary: m ok)
  case (Cons x xs)
  have "agree (f x m) (setup_portal (g x ok) (vm_pm m))" using Cons.prems by simp
  then have "agree (rbind (f x m) (rfold f xs)) (setup_portal (pbind (g x ok) (pfold g xs)) (vm_pm m))"
    by (rule agree_then) (use Cons in simp)
  then show ?case by simp
qed simp

fun primitive_wf :: "primitive_subcircuit \<Rightarrow> bool" where
  "primitive_wf (GetIndexPrimitive ind) \<longleftrightarrow> 32 \<le> length (gi_leaf ind)"
| "primitive_wf (HashLeafPrimitive h) \<longleftrightarrow> hp_leaf h \<noteq> []"
| "primitive_wf (ComputePathPrimitive p) \<longleftrightarrow> length (cp_path p) \<le> path_length"
| "primitive_wf _ \<longleftrightarrow> True"

definition roots_wf :: "vkd_circuit \<Rightarrow> bool" where
  "roots_wf vc \<longleftrightarrow> length (vc_initial_root vc) = inner_hash_size \<and> length (vc_final_root vc) = inner_hash_size
     \<and> length (vp_null_leaf (vc_params vc)) = inner_hash_size"

lemma hash_var_total:
  assumes "hash_lib_ok hl" and "v \<noteq> []"
  obtains h where "vkd_hash hl v = Inr h" "hash_var hl v = Inr h" "length h = 32"
  using vkd_hash_total [OF assms(1), of v] hash_var_eq [OF assms] that by auto

lemma vindex_four: "i \<in> set [0, 1, 2, 3] \<Longrightarrow> vindex (map f [0, 1, 2, 3]) i = Inr (f i)"
  by auto

text \<open>The index wires of a user, natively and in the circuit.\<close>

lemma get_index_agrees:
  assumes "hash_lib_ok hl" and "primitive_wf (GetIndexPrimitive ind)" and "memory_agrees m" "setup_rom_ready (vm_pm m)"
  shows "agree (primitive_trace hl cd vc (GetIndexPrimitive ind) m)
     (setup_portal (primitive_constraints hl cd vc (GetIndexPrimitive ind)) (vm_pm m))"
proof -
  let ?u = "take 32 (gi_leaf ind)"
  have "?u \<noteq> []" using assms(2) by auto
  then obtain h where h: "vkd_hash hl ?u = Inr h" "hash_var hl ?u = Inr h" "length h = 32"
    by (rule hash_var_total [OF assms(1)])
  let ?addr = "\<lambda>i. index_to_string \<lparr>ix_indicator = i, ix_leaf = gi_leaf ind\<rparr>"
  let ?p = "part (hash_bits h)"
  have len: "length (?p i) = path_length" if "i \<in> {0, 1, 2, 3}" for i
    using that h(3) by (auto simp: length_part_eq length_hash_bits path_length_def vkd_depth_def split_factor_const_def)
  define F where "F = (\<lambda>i (m :: 'a vkd_memory). let addr = ?addr i in
         rbind (vindex (map (\<lambda>i. map Not (?p i)) [0, 1, 2, 3]) i) (\<lambda>bs.
         rbind (vindex (map (\<lambda>i. le_bits_to_fp_var (?p i)) [0, 1, 2, 3]) i) (\<lambda>v.
           pm_set addr v (m\<lparr>vm_index := (vm_index m)(addr \<mapsto> bs)\<rparr>))))"
  define G :: "nat \<Rightarrow> bool \<Rightarrow> ('a, bool) portal" where
    "G = (\<lambda>i ok. pbind (lift_res (vindex (map ?p [0, 1, 2, 3]) i)) (\<lambda>bs.
          pbind (portal_set (?addr i) (le_bits_to_fp_var bs)) (\<lambda>_. Return ok)))"
  have "agree (F i m) (setup_portal (G i ok) (vm_pm m))"
    if i: "i \<in> set [0, 1, 2, 3]" and m: "memory_agrees m" "setup_rom_ready (vm_pm m)" for i ok m
  proof -
    have "length (?p i) = path_length" using len i by simp
    from agree_Return [OF set_index_agrees [OF m this]] show ?thesis
      by (simp only: F_def G_def Let_def vindex_four [OF i] rbind_simps pbind_lift)
  qed
  then have "agree (rfold F [0, 1, 2, 3] m) (setup_portal (pfold G [0, 1, 2, 3] True) (vm_pm m))"
    using assms(3,4) by (rule agree_fold)
  moreover have "primitive_trace hl cd vc (GetIndexPrimitive ind) m = rfold F [0, 1, 2, 3] m"
    using assms(2) h hash_leaf_to_split_index_eq [OF h(3), where 'f = 'a]
    by (simp only: primitive_trace.simps slice_range_0 primitive_wf.simps rbind_simps unwrap_res_Inr F_def snd_conv fst_conv)
      (simp only: split_factor_const_def upt_0_4)
  moreover have "primitive_constraints hl cd vc (GetIndexPrimitive ind) = pfold G [0, 1, 2, 3] True"
    using assms(2) h hash_bits_slice [OF h(3)] split_parts [of "hash_bits h"] length_hash_bits [OF h(3)]
    by (simp add: split_factor_const_def upt_0_4 G_def del: pfold.simps list.map)
  ultimately show ?thesis by (simp only:)
qed

text \<open>One part of a path, natively and in the circuit.\<close>

lemma compute_path_part:
  assumes "hash_lib_ok hl" and "length h = inner_hash_size" and "length path \<le> length idx"
  obtains r where "compute_root hl path h idx InternalNode = Inr r" "length r = inner_hash_size"
    "compute_root_var_from_internal_node hl (path_new_variable path) (inner_hash_to_fpvar h :: 'f::field) (map Not idx)
      = Inr (inner_hash_to_fpvar r)"
proof -
  obtain r where r: "rfold (path_step hl) (zip path idx) h = Inr r" using path_fold_total [OF assms(1)] by blast
  show thesis
  proof (rule that)
    show "compute_root hl path h idx InternalNode = Inr r" using r assms by (simp add: compute_root_inner)
    show "length r = inner_hash_size" using r assms(2) by (rule path_step_length)
    show "compute_root_var_from_internal_node hl (path_new_variable path) (inner_hash_to_fpvar h :: 'f) (map Not idx)
      = Inr (inner_hash_to_fpvar r)"
      using r assms(3) fold_path_var_eq [OF assms(1), of path "map Not idx" h]
      by (simp add: compute_root_var_from_internal_node_def o_def)
  qed
qed

lemma compute_path_agrees:
  assumes hl: "hash_lib_ok hl" and wf: "length (cp_path p) \<le> path_length" and m: "memory_agrees m" "setup_rom_ready (vm_pm m)"
  shows "agree (primitive_trace hl cd vc (ComputePathPrimitive p) m)
     (setup_portal (primitive_constraints hl cd vc (ComputePathPrimitive p)) (vm_pm m))"
  unfolding primitive_trace.simps primitive_constraints.simps
proof (rule agree_lift)
  fix a assume "bytes_to_node_address cd (cp_initial_addr p) = Inr a"
  let ?n = "node_address_to_string a" and ?x = "index_to_string (cp_index_addr p)"
  consider "vm_inner m ?n = None \<or> vm_index m ?x = None" | h idx where "vm_inner m ?n = Some h" "vm_index m ?x = Some idx"
    by (cases "vm_inner m ?n"; cases "vm_index m ?x") simp_all
  then show "agree (rbind (unwrap ''called `Option::unwrap()` on a `None` value'' (vm_index m ?x)) (\<lambda>index.
     rbind (unwrap ''called `Option::unwrap()` on a `None` value'' (vm_inner m ?n)) (\<lambda>initial_value.
     rbind (pm_get ?n m) (\<lambda>m. rbind (pm_get ?x m) (\<lambda>m.
     rbind (unwrap_res ''compute_root'' (compute_root hl (cp_path p) initial_value index InternalNode)) (\<lambda>rt.
     rbind (bytes_to_node_address cd (cp_final_addr p)) (\<lambda>final_value_addr.
       set_node (node_address_to_string final_value_addr) rt m)))))))
    (setup_portal (pbind (portal_get ?n) (\<lambda>initial_node. pbind (portal_get ?x) (\<lambda>index_fpvar.
     pbind (lift_res (unwrap_res ''index'' (fpvar_to_boolean_index hl index_fpvar))) (\<lambda>index.
     pbind (lift_res (unwrap_res ''compute_root'' (compute_root_var_from_internal_node hl (path_new_variable (cp_path p)) initial_node index))) (\<lambda>rt.
     pbind (lift_res (bytes_to_node_address cd (cp_final_addr p))) (\<lambda>final_value_addr.
     pbind (portal_set (node_address_to_string final_value_addr) rt) (\<lambda>_. Return True))))))) (vm_pm m))"
    (is "agree ?t (setup_portal ?p (vm_pm m))")
  proof cases
    case 1
    then have miss: "setup_rom_store (vm_pm m) ?n = None \<or> setup_rom_store (vm_pm m) ?x = None"
      using memory_agreesD [OF m(1)] by auto
    then obtain e where "setup_portal ?p (vm_pm m) = Inl e"
    proof (cases "setup_rom_store (vm_pm m) ?n")
      case None
      from pm_get_fails [OF m(2) this] obtain e where "setup_rom_get ?n (vm_pm m) = Inl e" .
      then show ?thesis using that by (simp add: portal_get_def)
    next
      case (Some v)
      obtain m1 :: "'a vkd_memory" where m1: "setup_rom_get ?n (vm_pm m) = Inr (v, vm_pm m1)"
        "setup_rom_ready (vm_pm m1)" "setup_rom_store (vm_pm m1) = setup_rom_store (vm_pm m)"
        using pm_get_agrees [OF m Some] by blast
      with Some miss have "setup_rom_store (vm_pm m1) ?x = None" by simp
      from pm_get_fails [OF m1(2) this] obtain e where "setup_rom_get ?x (vm_pm m1) = Inl e" .
      then show ?thesis using that m1(1) by (simp add: portal_get_def)
    qed
    moreover from 1 obtain e' where "?t = Inl e'" by (cases "vm_index m ?x") auto
    ultimately show ?thesis by simp
  next
    case (2 h idx)
    have h: "length h = inner_hash_size" "length idx = path_length"
      using memory_agreesD [OF m(1)] 2 by auto
    have store: "setup_rom_store (vm_pm m) ?n = Some (inner_hash_to_fpvar h)"
      "setup_rom_store (vm_pm m) ?x = Some (le_bits_to_fp_var (map Not idx))"
      using memory_agreesD(1,3) [OF m(1)] 2 by simp_all
    obtain m1 where m1: "pm_get ?n m = Inr m1"
      "setup_rom_get ?n (vm_pm m) = Inr (inner_hash_to_fpvar h, vm_pm m1)" "memory_agrees m1" "setup_rom_ready (vm_pm m1)"
      "setup_rom_store (vm_pm m1) = setup_rom_store (vm_pm m)"
      using pm_get_agrees [OF m store(1)] by blast
    have x: "setup_rom_store (vm_pm m1) ?x = Some (le_bits_to_fp_var (map Not idx))" using m1(5) store(2) by simp
    obtain m2 where m2: "pm_get ?x m1 = Inr m2"
      "setup_rom_get ?x (vm_pm m1) = Inr (le_bits_to_fp_var (map Not idx), vm_pm m2)" "memory_agrees m2" "setup_rom_ready (vm_pm m2)"
      using pm_get_agrees [OF m1(3,4) x] by blast
    have index: "fpvar_to_boolean_index hl (le_bits_to_fp_var (map Not idx)) = Inr (map Not idx)"
      using h(2) by (intro fpvar_to_boolean_index_eq [OF hl]) simp
    have "length (cp_path p) \<le> length idx" using wf h(2) by simp
    from compute_path_part [OF hl h(1) this] obtain r where r: "compute_root hl (cp_path p) h idx InternalNode = Inr r"
      "length r = inner_hash_size" "compute_root_var_from_internal_node hl (path_new_variable (cp_path p))
         (inner_hash_to_fpvar h :: 'a) (map Not idx) = Inr (inner_hash_to_fpvar r)" .
    have "agree (rbind (bytes_to_node_address cd (cp_final_addr p)) (\<lambda>a. set_node (node_address_to_string a) r m2))
      (setup_portal (pbind (lift_res (bytes_to_node_address cd (cp_final_addr p))) (\<lambda>a.
         pbind (portal_set (node_address_to_string a) (inner_hash_to_fpvar r)) (\<lambda>_. Return True))) (vm_pm m2))"
      by (rule agree_lift, rule agree_Return, rule set_node_agrees [OF m2(3,4) r(2)])
    then show ?thesis
      using 2 m1(1,2) m2(1,2) index r(1,3) by (simp add: setup_portal_get)
  qed
qed

lemma primitive_agrees:
  assumes hl: "hash_lib_ok hl" and wf: "primitive_wf p" and vc: "roots_wf vc" and m: "memory_agrees m" "setup_rom_ready (vm_pm m)"
  shows "agree (primitive_trace hl cd vc p m) (setup_portal (primitive_constraints hl cd vc p) (vm_pm m))"
proof (cases p)
  case (EqualityPrimitive eq)
  show ?thesis
    unfolding EqualityPrimitive primitive_trace.simps primitive_constraints.simps
  proof (intro agree_lift)
    fix a b
    let ?a = "node_address_to_string a" and ?b = "node_address_to_string b"
    have "agree (rbind (pm_get ?a m) (\<lambda>m. rbind (pm_get ?b m) Inr))
       (setup_portal (pbind (portal_get ?a) (\<lambda>v1. pbind (portal_get ?b) (\<lambda>v2. Return (v1 = v2)))) (vm_pm m))"
      by (intro agree_get m) simp_all
    moreover have "rbind (pm_get ?a m) (\<lambda>m. rbind (pm_get ?b m) Inr) = rbind (pm_get ?a m) (pm_get ?b)"
      by (intro rbind_cong refl) (simp add: rbind_def split: sum.split)
    ultimately show "agree (rbind (pm_get ?a m) (pm_get ?b))
       (setup_portal (pbind (portal_get ?a) (\<lambda>v1. pbind (portal_get ?b) (\<lambda>v2. Return (v1 = v2)))) (vm_pm m))" by simp
  qed
next
  case (GetIndexPrimitive ind)
  then show ?thesis using get_index_agrees [OF hl _ m] wf by blast
next
  case (ComputePathPrimitive c)
  then show ?thesis using compute_path_agrees [OF hl _ m] wf by simp
next
  case (HashLeafPrimitive h)
  obtain d where d: "hash_leaf hl (hp_leaf h) = Inr d" using hash_leaf_total [OF hl] by blast
  have "hash_leaf_var hl (hp_leaf h) = Inr (inner_hash_to_fpvar d :: 'a)"
    using d wf HashLeafPrimitive hash_leaf_var_eq [OF hl, of "hp_leaf h"] by simp
  then show ?thesis
    using d agree_Return [OF set_node_agrees [OF m hash_leaf_length [OF d], of "LeafHash \<lparr>lh_leaf = hp_leaf h\<rparr>"]]
    by (simp add: HashLeafPrimitive)
next
  case PaddingPrimitive
  then show ?thesis using m by simp
next
  case WritePublicParameterPrimitive
  note names = node_address_to_string.simps(3-5) [symmetric]
  have "agree (rbind (set_node (node_address_to_string InitialRoot) (vc_initial_root vc) m) (\<lambda>m.
       rbind (set_node (node_address_to_string FinalRoot) (vc_final_root vc) m) (\<lambda>m.
       set_node (node_address_to_string NullLeaf) (vp_null_leaf (vc_params vc)) m)))
     (setup_portal (pbind (portal_set (node_address_to_string InitialRoot) (inner_hash_to_fpvar (vc_initial_root vc))) (\<lambda>_.
       pbind (portal_set (node_address_to_string FinalRoot) (inner_hash_to_fpvar (vc_final_root vc))) (\<lambda>_.
       pbind (portal_set (node_address_to_string NullLeaf) (inner_hash_to_fpvar (vp_null_leaf (vc_params vc)))) (\<lambda>_. Return True)))) (vm_pm m))"
    by (intro agree_then agree_Return set_node_agrees m) (use vc in \<open>simp_all add: roots_wf_def\<close>)
  then show ?thesis
    using vc by (simp add: WritePublicParameterPrimitive names digest_to_fpvar_eq roots_wf_def
        del: node_address_to_string.simps)
qed

subsection \<open>All subcircuits\<close>

fun update_path :: "update \<Rightarrow> u8 list list" where
  "update_path (Update u) = vu_path u"
| "update_path (Append u) = va_path u"

text \<open>A circuit as \<open>random\<close> makes it: digests of the right size, full paths, compiled subcircuits.\<close>

definition circuit_wf :: "vkd_codec \<Rightarrow> vkd_circuit \<Rightarrow> bool" where
  "circuit_wf cd vc \<longleftrightarrow> roots_wf vc \<and> vc_update vc \<noteq> []
     \<and> (\<forall>u \<in> set (vc_update vc). update_wf u \<and> length (update_path u) = vkd_depth)
     \<and> vkd_update_to_subcircuit cd (vc_update vc) = Inr (vc_subcircuits vc)"

lemma circuit_wf_subcircuits:
  "circuit_wf cd vc \<Longrightarrow> vc_subcircuits vc = map (\<lambda>ps. \<lparr>compound_primitive_vec = ps\<rparr>) (compiled cd (vc_update vc))"
  using vkd_update_to_subcircuit_eq [of "vc_update vc" cd] by (simp add: circuit_wf_def)

lemma path_prim_wf: "length path = vkd_depth \<Longrightarrow> primitive_wf (path_prim cd u k start leaf path i)"
  using length_part [of path i] by (simp add: path_prim_def path_length_def split_factor_const_def)

lemma update_prims_wf:
  assumes "update_wf u" and "length (update_path u) = vkd_depth" and "ps \<in> set (update_prims cd i u)" and "p \<in> set ps"
  shows "primitive_wf p"
proof (cases u)
  case (Update x)
  then have "new_leaf x \<noteq> []" using assms(1) by (auto simp: new_leaf_def vkd_concat_def)
  with assms Update show ?thesis by (auto simp: path_prim_wf equality_prim_def)
next
  case (Append x)
  then have "length (append_leaf x) = 66" using assms(1) by (simp add: append_leaf_def)
  moreover from this have "append_leaf x \<noteq> []" by auto
  ultimately show ?thesis using assms Append by (auto simp: path_prim_wf equality_prim_def)
qed

lemma compiled_wf:
  assumes "\<forall>u \<in> set us. update_wf u \<and> length (update_path u) = vkd_depth" and "ps \<in> set (compiled cd us)" and "p \<in> set ps"
  shows "primitive_wf p"
proof -
  consider "ps = [PaddingPrimitive]" | "ps = [WritePublicParameterPrimitive]"
    | i u where "(i, u) \<in> set (enumerate 0 us)" "ps \<in> set (update_prims cd i u)"
    | a b n where "ps = [equality_prim cd n a b]"
    using assms(2) by (auto simp: compiled_def)
  then show ?thesis
  proof cases
    case (3 i u)
    then have "u \<in> set us" by (auto simp: in_set_enumerate_eq)
    with assms(1,3) update_prims_wf [OF _ _ 3(2)] show ?thesis by blast
  qed (use assms(3) in \<open>auto simp: equality_prim_def\<close>)
qed

lemma generate_constraints_all:
  "map (vkd_generate_constraints hl cd vc) [0..<length (vc_subcircuits vc)]
     = map (\<lambda>sc. prims_constraints hl cd vc (compound_primitive_vec sc)) (vc_subcircuits vc)"
  by (rule nth_equalityI) (simp_all add: vkd_generate_constraints_def)

lemma prims_agree:
  assumes "hash_lib_ok hl" and "roots_wf vc" and "\<forall>p \<in> set ps. primitive_wf p"
    and "memory_agrees m" and "setup_rom_ready (vm_pm m)"
  shows "agree (rfold (primitive_trace hl cd vc) ps m) (setup_portal (prims_constraints hl cd vc ps) (vm_pm m))"
  unfolding prims_constraints_def
proof (rule agree_fold)
  fix p ok and m :: "'a vkd_memory"
  assume p: "p \<in> set ps" and m: "memory_agrees m" "setup_rom_ready (vm_pm m)"
  then have "agree (primitive_trace hl cd vc p m) (setup_portal (primitive_constraints hl cd vc p) (vm_pm m))"
    using primitive_agrees [OF assms(1) _ assms(2) m] assms(3) by blast
  then have "agree (rbind (primitive_trace hl cd vc p m) Inr)
      (setup_portal (pbind (primitive_constraints hl cd vc p) (\<lambda>b. Return (ok \<and> b))) (vm_pm m))"
    by (rule agree_then) simp
  then show "agree (primitive_trace hl cd vc p m)
      (setup_portal (pbind (primitive_constraints hl cd vc p) (\<lambda>b. Return (ok \<and> b))) (vm_pm m))"
    by (cases "primitive_trace hl cd vc p m") simp_all
qed (use assms(4,5) in simp_all)

lemma subcircuits_agree:
  assumes hl: "hash_lib_ok hl" and vc: "roots_wf vc"
  shows "\<forall>sc \<in> set scs. \<forall>p \<in> set (compound_primitive_vec sc). primitive_wf p \<Longrightarrow> memory_agrees m \<Longrightarrow>
     (case rfold (subcircuit_trace hl cd vc) scs m of
        Inl _ \<Rightarrow> \<exists>e. rom_setup_run (map (\<lambda>sc. prims_constraints hl cd vc (compound_primitive_vec sc)) scs) (vm_pm m) = Inl e
      | Inr m' \<Rightarrow> \<exists>ok. rom_setup_run (map (\<lambda>sc. prims_constraints hl cd vc (compound_primitive_vec sc)) scs) (vm_pm m)
          = Inr (ok, vm_pm m'))"
proof (induction scs arbitrary: m)
  case Nil
  then show ?case by (auto simp: rom_setup_run_def)
next
  case (Cons sc scs)
  let ?m = "m\<lparr>vm_pm := setup_rom_start_subtrace (vm_pm m)\<rparr>"
  have start: "memory_agrees ?m" "setup_rom_ready (vm_pm ?m)"
    using Cons.prems(2)
    by (simp_all add: memory_agrees_def setup_rom_store_def setup_rom_start_subtrace_def setup_rom_ready_def)
  have "agree (subcircuit_trace hl cd vc sc m)
      (setup_portal (prims_constraints hl cd vc (compound_primitive_vec sc)) (setup_rom_start_subtrace (vm_pm m)))"
    using prims_agree [OF hl vc _ start, of "compound_primitive_vec sc" cd] Cons.prems(1)
    by (simp add: subcircuit_trace_def)
  then consider e e' where "subcircuit_trace hl cd vc sc m = Inl e"
      "setup_portal (prims_constraints hl cd vc (compound_primitive_vec sc)) (setup_rom_start_subtrace (vm_pm m)) = Inl e'"
    | m1 ok where "subcircuit_trace hl cd vc sc m = Inr m1" "memory_agrees m1"
      "setup_portal (prims_constraints hl cd vc (compound_primitive_vec sc)) (setup_rom_start_subtrace (vm_pm m)) = Inr (ok, vm_pm m1)"
    by (auto simp: agree_def split: sum.splits)
  then show ?case
  proof cases
    case 1
    then show ?thesis by (simp add: rom_setup_run_def)
  next
    case (2 m1 ok)
    with Cons.IH [OF _ 2(2)] Cons.prems(1) show ?thesis
      by (auto simp: rom_setup_run_def split: sum.splits)
  qed
qed

lemma native_trace_agrees:
  assumes "hash_lib_ok hl" and "circuit_wf cd vc"
  shows "case vkd_get_portal_subtraces hl cd vc of
       Inl _ \<Rightarrow> \<exists>e. rom_setup_run (map (vkd_generate_constraints hl cd vc) [0..<length (vc_subcircuits vc)]) setup_rom_new = Inl e
     | Inr trs \<Rightarrow> \<exists>ok s. rom_setup_run (map (vkd_generate_constraints hl cd vc) [0..<length (vc_subcircuits vc)]) setup_rom_new
           = Inr (ok, s) \<and> trs = map (map RomEntry) (sr_subtraces s)"
proof -
  let ?m = "\<lparr>vm_index = Map.empty, vm_inner = Map.empty, vm_pm = setup_rom_new\<rparr>"
  have m: "memory_agrees ?m" by (simp add: memory_agrees_def setup_rom_store_def setup_rom_new_def)
  have "\<forall>sc \<in> set (vc_subcircuits vc). \<forall>p \<in> set (compound_primitive_vec sc). primitive_wf p"
    using compiled_wf [of "vc_update vc"] assms(2) circuit_wf_subcircuits [OF assms(2)] by (auto simp: circuit_wf_def)
  with subcircuits_agree [OF assms(1) _ this m, of vc cd] assms(2) show ?thesis
    by (auto simp: vkd_get_portal_subtraces_def generate_constraints_all circuit_wf_def split: sum.splits)
qed

text \<open>
  C19: The native run and the circuit produce the same portal trace. For a well-formed circuit, either
  both \<open>get_portal_subtraces\<close> and generating the constraints of all subcircuits with the recording
  manager fail, or both succeed and record exactly the same subtraces, entry by entry: hashing
  outside the circuit is a faithful replacement of the hash gadgets.
\<close>

theorem vkd_native_trace_matches:
  assumes "hash_lib_ok hl" and "circuit_wf cd vc"
  shows "case vkd_get_portal_subtraces hl cd vc of
       Inl _ \<Rightarrow> \<exists>e. rom_setup_run (map (vkd_generate_constraints hl cd vc) [0..<length (vc_subcircuits vc)]) setup_rom_new = Inl e
     | Inr trs \<Rightarrow> \<exists>ok s. rom_setup_run (map (vkd_generate_constraints hl cd vc) [0..<length (vc_subcircuits vc)]) setup_rom_new
           = Inr (ok, s) \<and> trs = map (map RomEntry) (sr_subtraces s)"
  by (rule native_trace_agrees [OF assms])

section \<open>The cache, the witnesses and the representatives\<close>

definition cache_ok :: "'f::field hash_lib \<Rightarrow> vkd_codec \<Rightarrow> vkd_cache \<Rightarrow> bool" where
  "cache_ok hl cd c \<longleftrightarrow> (\<forall>params vc. c params = Some vc \<longrightarrow> vkd_random hl cd params = Inr vc)"

lemma get_or_init_fst:
  "cache_ok hl cd c \<Longrightarrow> result_map fst (vkd_get_or_init hl cd params c) = vkd_random hl cd params"
  by (cases "c params"; cases "vkd_random hl cd params") (simp_all add: vkd_get_or_init_def cache_ok_def)

lemma get_or_init_keeps:
  assumes "cache_ok hl cd c" and "vkd_get_or_init hl cd params c = Inr (vc, c')"
  shows "cache_ok hl cd c'"
proof (cases "c params")
  case None
  with assms(2) have "vkd_random hl cd params = Inr vc" "c' = c(params \<mapsto> vc)"
    by (auto simp: vkd_get_or_init_def res_simps)
  with assms(1) show ?thesis by (simp add: cache_ok_def)
next
  case (Some x)
  with assms show ?thesis by (simp add: vkd_get_or_init_def)
qed

text \<open>
  The global circuit cache is transparent: after any sequence of earlier requests, with any
  parameters, a request returns exactly what \<open>random\<close> returns for its own parameters.
\<close>

theorem vkd_cache_transparent:
  assumes "rfold (\<lambda>p c. result_map snd (vkd_get_or_init hl cd p c)) ps vkd_cache_new = Inr c"
  shows "result_map fst (vkd_get_or_init hl cd params c) = vkd_random hl cd params"
proof -
  have "cache_ok hl cd c"
  proof (rule rfold_invariant [OF assms])
    show "cache_ok hl cd vkd_cache_new" by (simp add: cache_ok_def vkd_cache_new_def)
    show "cache_ok hl cd s'" if s: "cache_ok hl cd s" "result_map snd (vkd_get_or_init hl cd p s) = Inr s'" for p s s'
    proof -
      obtain vc where "vkd_get_or_init hl cd p s = Inr (vc, s')"
        using s(2) by (cases "vkd_get_or_init hl cd p s") auto
      then show ?thesis by (rule get_or_init_keeps [OF s(1)])
    qed
  qed
  then show ?thesis by (rule get_or_init_fst)
qed

lemma witnesses_restore:
  assumes "vkd_codec_ok cd" and "i < length (vc_subcircuits vc)" and "i < length (vc_subcircuits vc')"
    and "vc_initial_root vc' = vc_initial_root vc" "vc_final_root vc' = vc_final_root vc"
      "vp_null_leaf (vc_params vc') = vp_null_leaf (vc_params vc)"
  shows "\<exists>w vc''. vkd_get_serialized_witnesses cd vc i = Inr w \<and> vkd_set_serialized_witnesses cd i w vc' = Inr vc''
     \<and> vc_subcircuits vc'' ! i = vc_subcircuits vc ! i
     \<and> vkd_generate_constraints hl cd vc'' i = vkd_generate_constraints hl cd vc i"
proof -
  let ?vc = "vc'\<lparr>vc_subcircuits := (vc_subcircuits vc')[i := vc_subcircuits vc ! i]\<rparr>"
  let ?w = "ser_subcircuit cd (subcircuit_to_bytes cd (vc_subcircuits vc ! i))"
  have "vkd_get_serialized_witnesses cd vc i = Inr ?w" using assms(2) by (simp add: vkd_get_serialized_witnesses_def)
  moreover have "de_subcircuit cd ?w = Some (subcircuit_to_bytes cd (vc_subcircuits vc ! i))"
    using assms(1) by (simp add: vkd_codec_ok_def)
  then have "vkd_set_serialized_witnesses cd i ?w vc' = Inr ?vc"
    using assms(3) subcircuit_bytes_roundtrip [OF assms(1)] by (simp add: vkd_set_serialized_witnesses_def de_unwrap_def)
  moreover have "primitive_constraints hl cd ?vc p = primitive_constraints hl cd vc p" for p
    using assms(4-6) by (cases p) simp_all
  then have "prims_constraints hl cd ?vc ps = prims_constraints hl cd vc ps" for ps
    by (simp add: prims_constraints_def)
  then have "vkd_generate_constraints hl cd ?vc i = vkd_generate_constraints hl cd vc i"
    using assms(2,3) by (simp add: vkd_generate_constraints_def)
  ultimately show ?thesis using assms(3) by simp
qed

text \<open>
  C27: A worker that starts from any circuit with the same roots and null leaf and installs the
  serialised witnesses of subcircuit \<open>i\<close> generates the constraints that the coordinator traced
  for \<open>i\<close>.
\<close>

theorem vkd_witnesses_roundtrip:
  assumes "vkd_codec_ok cd" and "i < length (vc_subcircuits vc)" and "i < length (vc_subcircuits vc')"
    and "vc_initial_root vc' = vc_initial_root vc" "vc_final_root vc' = vc_final_root vc"
      "vp_null_leaf (vc_params vc') = vp_null_leaf (vc_params vc)"
  shows "\<exists>w vc''. vkd_get_serialized_witnesses cd vc i = Inr w \<and> vkd_set_serialized_witnesses cd i w vc' = Inr vc''
     \<and> vc_subcircuits vc'' ! i = vc_subcircuits vc ! i
     \<and> vkd_generate_constraints hl cd vc'' i = vkd_generate_constraints hl cd vc i"
  by (rule witnesses_restore [OF assms])

lemma subcircuit_get_type_known:
  assumes "circuit_wf cd vc" and "i < length (vc_subcircuits vc)"
  shows "subcircuit_get_type (vc_subcircuits vc ! i) \<in> {''padding'', ''write pp'', ''hash leaf, get index, compute path'',
     ''compute path'', ''compute path, equality'', ''equality, hash leaf, compute path'', ''equality''}"
proof -
  have "\<forall>ps \<in> set (update_prims cd j u). subcircuit_get_type \<lparr>compound_primitive_vec = ps\<rparr> \<in> {''padding'', ''write pp'',
     ''hash leaf, get index, compute path'', ''compute path'', ''compute path, equality'',
     ''equality, hash leaf, compute path'', ''equality''}" for j u
    by (cases u) (simp_all add: subcircuit_get_type_def path_prim_def equality_prim_def)
  then have "\<forall>ps \<in> set (compiled cd (vc_update vc)). subcircuit_get_type \<lparr>compound_primitive_vec = ps\<rparr> \<in> {''padding'',
     ''write pp'', ''hash leaf, get index, compute path'', ''compute path'', ''compute path, equality'',
     ''equality, hash leaf, compute path'', ''equality''}"
    by (auto simp: compiled_def) (simp_all add: subcircuit_get_type_def equality_prim_def)
  then show ?thesis using assms circuit_wf_subcircuits [OF assms(1)] by simp
qed

lemma drop_less_length: "i < length xs \<Longrightarrow> xs = take i xs @ xs ! i # drop (Suc i) xs"
  by (simp add: id_take_nth_drop)

text \<open>
  The representatives are right for a directory that starts with an append and an update: every
  subcircuit has one, it is among the unique subcircuits, it exists, and it consists of the same
  kinds of primitives in the same order.
\<close>

theorem vkd_representative_sound:
  assumes "circuit_wf cd vc" and "vc_update vc = Append a # Update u # us"
    and "length (vc_subcircuits vc) = vkd_num_subcircuits vc" and "i < vkd_num_subcircuits vc"
  shows "\<exists>r. vkd_representative_subcircuit vc i = Inr r \<and> r \<in> set (vkd_unique_subcircuits vc)
     \<and> r < vkd_num_subcircuits vc
     \<and> subcircuit_get_type (vc_subcircuits vc ! r) = subcircuit_get_type (vc_subcircuits vc ! i)"
proof -
  let ?n = "vkd_num_subcircuits vc" and ?t = "\<lambda>i. subcircuit_get_type (vc_subcircuits vc ! i)"
  let ?c = "compiled cd (vc_update vc)"
  have sc: "vc_subcircuits vc = map (\<lambda>ps. \<lparr>compound_primitive_vec = ps\<rparr>) ?c" by (rule circuit_wf_subcircuits [OF assms(1)])
  have n: "?n = 8 * length us + 24" "length ?c = ?n"
    using assms(2,3) sc length_compiled [of cd "vc_update vc"] by simp_all
  have "last ?c = [equality_prim cd (length (vc_update vc) - 1) FinalRoot (prev_root (length (vc_update vc)))]"
    by (simp add: compiled_def)
  then have last: "?c ! (?n - 1) = [equality_prim cd (length (vc_update vc) - 1) FinalRoot (prev_root (length (vc_update vc)))]"
    using n last_conv_nth [of ?c] by force
  have types: "?t 0 = ''padding''" "?t 6 = ''write pp''" "?t 7 = ''hash leaf, get index, compute path''" "?t 8 = ''compute path''"
    "?t 10 = ''compute path, equality''" "?t 19 = ''equality, hash leaf, compute path''"
    using n assms(2) by (simp_all add: sc) (simp_all add: compiled_def subcircuit_get_type_def path_prim_def equality_prim_def nth_append
        eval_nat_numeral)
  have eq: "?t (?n - 1) = ''equality''"
    using n last by (simp add: sc) (simp add: subcircuit_get_type_def equality_prim_def)
  have i: "i < length (vc_subcircuits vc)" using assms(3,4) by simp
  show ?thesis
    using subcircuit_get_type_known [OF assms(1) i]
    by (elim insertE emptyE)
      (use types eq n i in \<open>simp_all add: vkd_representative_subcircuit_def vkd_unique_subcircuits_def\<close>)
qed

text \<open>
  The directory of \<open>16\<close> subcircuits, which \<open>random\<close> can build, has no subcircuit \<open>19\<close>, yet
  \<open>19\<close> is among its unique subcircuits: generating constraints for it panics.
\<close>

theorem vkd_unique_out_of_range:
  assumes "vp_log_num_subcircuits (vc_params vc) = 4" and "length (vc_subcircuits vc) = vkd_num_subcircuits vc"
  shows "19 \<in> set (vkd_unique_subcircuits vc)
     \<and> vkd_generate_constraints hl cd vc 19 = Fail (Panic ''index out of bounds'')"
  using assms by (simp add: vkd_unique_subcircuits_def vkd_num_subcircuits_def vkd_generate_constraints_def vindex_def vget_def)

end
