(* ===== verification/Vkd_Semantics.thy ===== *)
theory Vkd_Semantics
  imports Vkd_Constraints Protocol
begin

text \<open>
  What the circuit of the key directory means: evaluated on the abstract portal memory, the
  constraints of a compiled list of updates run exactly when the updates form a history, and they
  hold exactly when the native verification accepts.
\<close>

section \<open>Primitives on the abstract memory\<close>

fun eval_prims ::
    "'f::field hash_lib \<Rightarrow> vkd_codec \<Rightarrow> vkd_circuit \<Rightarrow> primitive_subcircuit list \<Rightarrow> (string \<rightharpoonup> 'f)
      \<Rightarrow> failure + bool \<times> (string \<rightharpoonup> 'f)" where
  "eval_prims hl cd vc [] m = Inr (True, m)"
| "eval_prims hl cd vc (p # ps) m =
     rbind (eval_portal False (primitive_constraints hl cd vc p) m) (\<lambda>(b, m).
     rbind (eval_prims hl cd vc ps m) (\<lambda>(ok, m). Inr (b \<and> ok, m)))"

lemma eval_prims_append:
  "eval_prims hl cd vc (ps @ qs) m =
     rbind (eval_prims hl cd vc ps m) (\<lambda>(b, m). rbind (eval_prims hl cd vc qs m) (\<lambda>(ok, m). Inr (b \<and> ok, m)))"
  by (induction ps arbitrary: m) (simp_all add: rbind_assoc split_def conj_assoc rbind_def split: sum.split)

lemma eval_prims_constraints:
  "eval_portal False (pfold (\<lambda>p ok. pbind (primitive_constraints hl cd vc p) (\<lambda>b. Return (ok \<and> b))) ps ok) m
     = rbind (eval_prims hl cd vc ps m) (\<lambda>(b, m). Inr (ok \<and> b, m))"
proof (induction ps arbitrary: ok m)
  case (Cons p ps)
  then show ?case
    by (cases "eval_portal False (primitive_constraints hl cd vc p) m")
      (auto simp: eval_portal_bind rbind_def split: sum.split)
qed simp

text \<open>The recorded run of all subcircuits is the evaluation of all their primitives.\<close>

lemma setup_run_eval:
  "case rom_setup_run (map (prims_constraints hl cd vc) pss) s of
     Inl _ \<Rightarrow> \<exists>e. eval_prims hl cd vc (concat pss) (setup_rom_store s) = Inl e
   | Inr (ok, s') \<Rightarrow> eval_prims hl cd vc (concat pss) (setup_rom_store s) = Inr (ok, setup_rom_store s')"
proof -
  have one: "eval_portal False (prims_constraints hl cd vc ps) m = eval_prims hl cd vc ps m" for ps m
    by (simp add: prims_constraints_def eval_prims_constraints) (simp add: rbind_def split: sum.split)
  have "eval_run False (map (prims_constraints hl cd vc) pss) m = eval_prims hl cd vc (concat pss) m" for m
    by (induction pss arbitrary: m) (simp_all add: one eval_prims_append)
  from this [of "setup_rom_store s"] rom_setup_run_eval [of "map (prims_constraints hl cd vc) pss" s]
  show ?thesis by (simp only:)
qed

section \<open>Digests and roots\<close>

definition leaf_digest :: "'f::field hash_lib \<Rightarrow> u8 list \<Rightarrow> u8 list" where
  "leaf_digest hl l = (case hash_leaf hl l of Inr d \<Rightarrow> d | Inl _ \<Rightarrow> [])"

definition user_bits :: "'f::field hash_lib \<Rightarrow> u8 list \<Rightarrow> bool list" where
  "user_bits hl u = (case vkd_hash hl u of Inr h \<Rightarrow> hash_bits h | Inl _ \<Rightarrow> [])"

definition fold_root :: "'f::field hash_lib \<Rightarrow> u8 list list \<Rightarrow> bool list \<Rightarrow> u8 list \<Rightarrow> u8 list" where
  "fold_root hl path bs start =
     (case rfold (path_step hl) (zip path (map Not bs)) start of Inr r \<Rightarrow> r | Inl _ \<Rightarrow> [])"

lemma hash_leaf_digest:
  "hash_lib_ok hl \<Longrightarrow> hash_leaf hl l = Inr (leaf_digest hl l)" "hash_lib_ok hl \<Longrightarrow> length (leaf_digest hl l) = inner_hash_size"
  using hash_leaf_total [of hl l] hash_leaf_length [of hl l] by (auto simp: leaf_digest_def)

lemma user_bits_hash:
  assumes "hash_lib_ok hl"
  obtains h where "vkd_hash hl u = Inr h" "length h = 32" "user_bits hl u = hash_bits h"
  using vkd_hash_total [OF assms, of u] that by (auto simp: user_bits_def)

lemma length_user_bits: "hash_lib_ok hl \<Longrightarrow> length (user_bits hl u) = 128"
  using user_bits_hash [of hl u] length_hash_bits by metis

lemma user_index_bits:
  assumes "hash_lib_ok hl"
  obtains mi where "user_index hl u = Inr mi" "to_bit_vector mi = map Not (user_bits hl u)"
proof -
  obtain h where "vkd_hash hl u = Inr h" "length h = 32" "user_bits hl u = hash_bits h"
    by (rule user_bits_hash [OF assms])
  then show thesis
    by (intro that [of "at_node (bytes_val (take 16 h)) 128"])
      (simp_all add: user_index_def get_index_def vkd_depth_def to_bit_vector_def index_bits_hash)
qed

lemma fold_root:
  assumes "hash_lib_ok hl"
  shows "rfold (path_step hl) (zip path (map Not bs)) start = Inr (fold_root hl path bs start)"
    "length start = inner_hash_size \<Longrightarrow> length (fold_root hl path bs start) = inner_hash_size"
proof -
  show eq: "rfold (path_step hl) (zip path (map Not bs)) start = Inr (fold_root hl path bs start)"
    using path_fold_total [OF assms, of "zip path (map Not bs)" start] by (auto simp: fold_root_def)
  show "length start = inner_hash_size \<Longrightarrow> length (fold_root hl path bs start) = inner_hash_size"
    using path_step_length [OF eq] .
qed

lemma fold_root_append:
  assumes "hash_lib_ok hl" and "length path = length bs"
  shows "fold_root hl (path @ path') (bs @ bs') start = fold_root hl path' bs' (fold_root hl path bs start)"
proof -
  have "rfold (path_step hl) (zip (path @ path') (map Not (bs @ bs'))) start
      = rfold (path_step hl) (zip path' (map Not bs')) (fold_root hl path bs start)"
    using fold_root(1) [OF assms(1), of path bs start] assms(2) by (simp add: rfold_append)
  then show ?thesis by (simp only: fold_root_def [of hl "path @ path'"] fold_root_def [of hl path'])
qed

lemma four_parts:
  assumes "4 dvd length xs"
  shows "part xs 0 @ part xs 1 @ part xs 2 @ part xs 3 = xs"
  using split_parts [OF assms] split_ok [of 4 xs] by auto

lemma fold_root_parts:
  assumes "hash_lib_ok hl" and "length path = 128" and "length bs = 128"
  shows "fold_root hl (part path 3) (part bs 3) (fold_root hl (part path 2) (part bs 2)
      (fold_root hl (part path 1) (part bs 1) (fold_root hl (part path 0) (part bs 0) start)))
    = fold_root hl path bs start"
proof -
  have len: "length (part path i) = length (part bs i)" if "i < 4" for i
    using assms(2,3) that by (simp add: length_part_eq)
  have "4 dvd length path" "4 dvd length bs" using assms(2,3) by simp_all
  then have "fold_root hl path bs start = fold_root hl (part path 0 @ part path 1 @ part path 2 @ part path 3)
      (part bs 0 @ part bs 1 @ part bs 2 @ part bs 3) start"
    by (simp only: four_parts)
  then show ?thesis using len by (simp add: fold_root_append [OF assms(1)])
qed

section \<open>Each primitive\<close>

abbreviation node_name :: "node_address \<Rightarrow> string" where
  "node_name \<equiv> node_address_to_string"

abbreviation part_name :: "u8 list \<Rightarrow> nat \<Rightarrow> string" where
  "part_name leaf j \<equiv> index_to_string \<lparr>ix_indicator = j, ix_leaf = leaf\<rparr>"

abbreviation leaf_name :: "u8 list \<Rightarrow> string" where
  "leaf_name l \<equiv> node_address_to_string (LeafHash \<lparr>lh_leaf = l\<rparr>)"

text \<open>Names as node names, so that \<open>node_name_inj\<close> tells them apart.\<close>

lemmas named_nodes = node_address_to_string.simps [symmetric]

declare node_address_to_string.simps [simp del]

lemma eval_equality:
  "vkd_codec_ok cd \<Longrightarrow> eval_portal False (primitive_constraints hl cd vc (equality_prim cd u a b)) m =
     rbind (unwrap ''no such portal wire'' (m (node_name a))) (\<lambda>v.
     rbind (unwrap ''no such portal wire'' (m (node_name b))) (\<lambda>w. Inr (v = w, m)))"
  by (simp add: equality_prim_def node_address_bytes_roundtrip eval_portal_bind rbind_assoc)

lemma eval_hash_leaf:
  assumes "hash_lib_ok hl" and "l \<noteq> []"
  shows "eval_portal False (primitive_constraints hl cd vc (HashLeafPrimitive \<lparr>hp_leaf = l\<rparr>)) m =
     (if m (leaf_name l) = None then Inr (True, m(leaf_name l \<mapsto> inner_hash_to_fpvar (leaf_digest hl l)))
      else Inl (Panic ''portal wire set twice''))"
  using hash_leaf_digest(1) [OF assms(1), of l]
  by (simp add: hash_leaf_var_eq [OF assms] eval_portal_bind ensure_def named_nodes)

lemma eval_get_index:
  assumes hl: "hash_lib_ok hl" and l: "32 \<le> length l"
  shows "eval_portal False (primitive_constraints hl cd vc (GetIndexPrimitive \<lparr>gi_update_idx = u, gi_leaf = l\<rparr>)) m =
     (if \<forall>j \<in> {0, 1, 2, 3}. m (part_name l j) = None
      then Inr (True, fold (\<lambda>j m. m(part_name l j \<mapsto> le_bits_to_fp_var (part (user_bits hl (take 32 l)) j))) [0, 1, 2, 3] m)
      else Inl (Panic ''portal wire set twice''))"
proof -
  obtain h where h: "vkd_hash hl (take 32 l) = Inr h" "length h = 32" "user_bits hl (take 32 l) = hash_bits h"
    by (rule user_bits_hash [OF hl])
  have "take 32 l \<noteq> []" using l by auto
  with h(1) have "hash_var hl (take 32 l) = Inr h" by (simp add: hash_var_eq [OF hl])
  then show ?thesis
    using h l hash_bits_slice [OF h(2)] split_parts [of "hash_bits h"] length_hash_bits [OF h(2)]
    by (simp add: split_factor_const_def upt_0_4 eval_portal_bind ensure_def index_name_inj)
qed

lemma eval_path_prim:
  assumes hl: "hash_lib_ok hl" and cd: "vkd_codec_ok cd"
    and start: "m (node_name (fst (step_nodes u p start k))) = Some (inner_hash_to_fpvar h)" "length h = inner_hash_size"
    and idx: "m (part_name leaf k) = Some (le_bits_to_fp_var bs)" "length bs = path_length"
    and path: "length (part path k) = path_length" and fresh: "m (node_name (snd (step_nodes u p start k))) = None"
  shows "eval_portal False (primitive_constraints hl cd vc (path_prim cd u p start leaf path k)) m
     = Inr (True, m(node_name (snd (step_nodes u p start k)) \<mapsto> inner_hash_to_fpvar (fold_root hl (part path k) bs h)))"
proof -
  have "compute_root_var_from_internal_node hl (path_new_variable (part path k)) (inner_hash_to_fpvar h) bs
      = Inr (inner_hash_to_fpvar (fold_root hl (part path k) bs h))"
    using fold_path_var_eq [OF hl, of "part path k" bs h] fold_root(1) [OF hl, of "part path k" bs h] idx(2) path
    by (simp add: compute_root_var_from_internal_node_def)
  then show ?thesis
    using start idx fresh fpvar_to_boolean_index_eq [OF hl idx(2)]
    by (simp add: path_prim_def node_address_bytes_roundtrip [OF cd] eval_portal_bind ensure_def)
qed

lemma eval_path_prim_stuck:
  assumes "vkd_codec_ok cd" and "m (node_name (fst (step_nodes u p start k))) = None"
  shows "eval_portal False (primitive_constraints hl cd vc (path_prim cd u p start leaf path k)) m
     = Inl (Panic ''no such portal wire'')"
  using assms(2) by (simp add: path_prim_def node_address_bytes_roundtrip [OF assms(1)] eval_portal_bind)

text \<open>The four parts of a path together compute its root.\<close>

definition path_prims ::
    "vkd_codec \<Rightarrow> nat \<Rightarrow> nat \<Rightarrow> node_address \<Rightarrow> u8 list \<Rightarrow> u8 list list \<Rightarrow> primitive_subcircuit list" where
  "path_prims cd u p start leaf path = map (path_prim cd u p start leaf path) [0, 1, 2, 3]"

lemma eval_path:
  assumes hl: "hash_lib_ok hl" and cd: "vkd_codec_ok cd" and path: "length path = 128" and bs: "length bs = 128"
    and start: "m (node_name start) = Some (inner_hash_to_fpvar h)" "length h = inner_hash_size"
    and idx: "\<forall>k < 4. m (part_name leaf k) = Some (le_bits_to_fp_var (part bs k))"
    and fresh: "\<forall>j. m (node_name (mid_root u p j)) = None" "m (node_name (path_root u p)) = None"
  shows "\<exists>m'. eval_prims hl cd vc (path_prims cd u p start leaf path) m = Inr (True, m')
     \<and> m' (node_name (path_root u p)) = Some (inner_hash_to_fpvar (fold_root hl path bs h))
     \<and> (\<forall>n. n \<noteq> node_name (path_root u p) \<longrightarrow> (\<forall>j. n \<noteq> node_name (mid_root u p j)) \<longrightarrow> m' n = m n)"
proof -
  have len: "length (part path k) = path_length" "length (part bs k) = path_length" if "k < 4" for k
    using that path bs by (simp_all add: length_part_eq path_length_def vkd_depth_def split_factor_const_def)
  define r1 where "r1 = fold_root hl (part path 0) (part bs 0) h"
  define r2 where "r2 = fold_root hl (part path 1) (part bs 1) r1"
  define r3 where "r3 = fold_root hl (part path 2) (part bs 2) r2"
  have r: "length r1 = inner_hash_size" "length r2 = inner_hash_size" "length r3 = inner_hash_size"
    using start(2) fold_root(2) [OF hl] by (simp_all add: r1_def r2_def r3_def)
  have r4: "fold_root hl (part path 3) (part bs 3) r3 = fold_root hl path bs h"
    using fold_root_parts [OF hl path bs] by (simp add: r1_def r2_def r3_def)
  let ?e = "inner_hash_to_fpvar"
  let ?m1 = "m(node_name (mid_root u p 0) \<mapsto> ?e r1)"
  let ?m2 = "?m1(node_name (mid_root u p 1) \<mapsto> ?e r2)"
  let ?m3 = "?m2(node_name (mid_root u p 2) \<mapsto> ?e r3)"
  let ?prim = "\<lambda>k. primitive_constraints hl cd vc (path_prim cd u p start leaf path k)"
  note eval = eval_path_prim [OF hl cd, where path = path and start = start and leaf = leaf and u = u and p = p]
  have "eval_portal False (?prim 0) m = Inr (True, ?m1)"
    using eval [where k = 0 and m = m and h = h and bs = "part bs 0"] start idx fresh len
    by (simp add: step_nodes_def r1_def)
  moreover have "eval_portal False (?prim 1) ?m1 = Inr (True, ?m2)"
    using eval [where k = 1 and m = ?m1 and h = r1 and bs = "part bs 1"] r idx fresh len
    by (simp add: step_nodes_def r2_def)
  moreover have "eval_portal False (?prim 2) ?m2 = Inr (True, ?m3)"
    using eval [where k = 2 and m = ?m2 and h = r2 and bs = "part bs 2"] r idx fresh len
    by (simp add: step_nodes_def r3_def)
  moreover have "eval_portal False (?prim 3) ?m3 = Inr (True, ?m3(node_name (path_root u p) \<mapsto> ?e (fold_root hl path bs h)))"
    using eval [where k = 3 and m = ?m3 and h = r3 and bs = "part bs 3"] r r4 idx fresh len
    by (simp add: step_nodes_def)
  ultimately show ?thesis by (simp add: path_prims_def)
qed

section \<open>One update\<close>

fun op_user :: "update \<Rightarrow> u8 list" where
  "op_user (Update u) = vu_username u"
| "op_user (Append u) = va_username u"

fun op_new_leaf :: "update \<Rightarrow> u8 list" where
  "op_new_leaf (Update u) = new_leaf u"
| "op_new_leaf (Append u) = append_leaf u"

fun op_old_digest :: "'f::field hash_lib \<Rightarrow> u8 list \<Rightarrow> update \<Rightarrow> u8 list" where
  "op_old_digest hl pp (Update u) = leaf_digest hl (old_leaf u)"
| "op_old_digest hl pp (Append u) = pp"

definition old_root :: "'f::field hash_lib \<Rightarrow> u8 list \<Rightarrow> update \<Rightarrow> u8 list" where
  "old_root hl pp op = fold_root hl (update_path op) (user_bits hl (op_user op)) (op_old_digest hl pp op)"

definition new_root :: "'f::field hash_lib \<Rightarrow> update \<Rightarrow> u8 list" where
  "new_root hl op = fold_root hl (update_path op) (user_bits hl (op_user op)) (leaf_digest hl (op_new_leaf op))"

lemma root_lengths:
  assumes "hash_lib_ok hl"
  shows "length pp = inner_hash_size \<Longrightarrow> length (old_root hl pp op) = inner_hash_size" "length (new_root hl op) = inner_hash_size"
  using hash_leaf_digest(2) [OF assms] by (cases op; simp add: old_root_def new_root_def fold_root(2) [OF assms])+

lemma verify_update_roots:
  assumes "hash_lib_ok hl" and "length (update_path op) = 128" and "length pp = inner_hash_size"
  shows "verify_update hl pp op (res, rt) = Inr (res \<and> old_root hl pp op = rt, new_root hl op)"
proof -
  obtain mi where mi: "user_index hl (op_user op) = Inr mi" "to_bit_vector mi = map Not (user_bits hl (op_user op))"
    by (rule user_index_bits [OF assms(1)])
  have len: "length (user_bits hl (op_user op)) = 128" by (rule length_user_bits [OF assms(1)])
  show ?thesis
    using mi len assms(2,3) hash_leaf_digest(1) [OF assms(1)] fold_root(1) [OF assms(1)]
    by (cases op) (simp_all add: path_verify_def compute_root_def array_from_def fold_path_eq old_root_def new_root_def
        old_leaf_def new_leaf_def append_leaf_def)
qed

text \<open>
  Leaves and users named so far. An update needs its old leaf and may not repeat its new one, a user
  is appended once.
\<close>

fun history_step :: "update \<Rightarrow> u8 list set \<times> u8 list set \<Rightarrow> (u8 list set \<times> u8 list set) option" where
  "history_step (Update u) (H, U) =
     (if old_leaf u \<in> H \<and> new_leaf u \<notin> H then Some (insert (new_leaf u) H, U) else None)"
| "history_step (Append u) (H, U) =
     (if va_username u \<notin> U then Some (insert (append_leaf u) H, insert (va_username u) U) else None)"

fun history :: "update list \<Rightarrow> u8 list set \<times> u8 list set \<Rightarrow> (u8 list set \<times> u8 list set) option" where
  "history [] s = Some s"
| "history (u # us) s = (case history_step u s of None \<Rightarrow> None | Some s' \<Rightarrow> history us s')"

definition memory_inv ::
    "'f::field hash_lib \<Rightarrow> vkd_circuit \<Rightarrow> nat \<Rightarrow> u8 list \<Rightarrow> u8 list set \<Rightarrow> u8 list set \<Rightarrow> (string \<rightharpoonup> 'f) \<Rightarrow> bool" where
  "memory_inv hl vc i rt H U m \<longleftrightarrow>
     (\<forall>l. m (leaf_name l) = (if l \<in> H then Some (inner_hash_to_fpvar (leaf_digest hl l)) else None))
     \<and> (\<forall>l j. m (part_name l j) =
          (if take 32 l \<in> U \<and> j < 4 then Some (le_bits_to_fp_var (part (user_bits hl (take 32 l)) j)) else None))
     \<and> m (node_name InitialRoot) = Some (inner_hash_to_fpvar (vc_initial_root vc))
     \<and> m (node_name FinalRoot) = Some (inner_hash_to_fpvar (vc_final_root vc))
     \<and> m (node_name NullLeaf) = Some (inner_hash_to_fpvar (vp_null_leaf (vc_params vc)))
     \<and> m (node_name (prev_root i)) = Some (inner_hash_to_fpvar rt) \<and> length rt = inner_hash_size
     \<and> (\<forall>u \<ge> i. \<forall>p. m (node_name (path_root u p)) = None \<and> (\<forall>j. m (node_name (mid_root u p j)) = None))"

lemma memory_invD:
  assumes "memory_inv hl vc i rt H U m"
  shows "m (leaf_name l) = (if l \<in> H then Some (inner_hash_to_fpvar (leaf_digest hl l)) else None)"
    "m (part_name l j) =
          (if take 32 l \<in> U \<and> j < 4 then Some (le_bits_to_fp_var (part (user_bits hl (take 32 l)) j)) else None)"
    "m (node_name NullLeaf) = Some (inner_hash_to_fpvar (vp_null_leaf (vc_params vc)))"
    "m (node_name (prev_root i)) = Some (inner_hash_to_fpvar rt)" "length rt = inner_hash_size"
    "m (node_name (path_root i p)) = None" "m (node_name (mid_root i p k)) = None"
    "m (node_name FinalRoot) = Some (inner_hash_to_fpvar (vc_final_root vc))"
  using assms by (simp_all add: memory_inv_def)

lemma memory_inv_leaf:
  assumes "memory_inv hl vc i rt H U m"
  shows "memory_inv hl vc i rt (insert l H) U (m(leaf_name l \<mapsto> inner_hash_to_fpvar (leaf_digest hl l)))"
  using assms by (auto simp: memory_inv_def prev_root_def)

lemma memory_inv_user:
  assumes "memory_inv hl vc i rt H U m"
  shows "memory_inv hl vc i rt H (insert (take 32 l) U)
     (fold (\<lambda>j m. m(part_name l j \<mapsto> le_bits_to_fp_var (part (user_bits hl (take 32 l)) j))) [0, 1, 2, 3] m)"
proof -
  have fold: "fold (\<lambda>j m. m(part_name l j \<mapsto> f j)) js m n = (if \<exists>j \<in> set js. n = part_name l j then Some (f (THE j. n = part_name l j)) else m n)"
    for f :: "nat \<Rightarrow> 'a" and js m n
    by (induction js arbitrary: m) (auto simp: index_name_inj)
  show ?thesis
    unfolding memory_inv_def fold using assms by (auto simp: memory_inv_def index_name_inj less_Suc_eq eval_nat_numeral)
qed

lemma memory_inv_next:
  assumes "memory_inv hl vc i rt H U m"
    and "\<And>n. (\<And>p. n \<noteq> node_name (path_root i p)) \<Longrightarrow> (\<And>p j. n \<noteq> node_name (mid_root i p j)) \<Longrightarrow> m' n = m n"
    and "m' (node_name (path_root i 1)) = Some (inner_hash_to_fpvar rt')" and "length rt' = inner_hash_size"
  shows "memory_inv hl vc (Suc i) rt' H U m'"
  using assms(1,3,4) by (simp add: memory_inv_def assms(2) prev_root_def)

lemma prev_root_new [simp]: "prev_root i \<noteq> path_root i p" "prev_root i \<noteq> mid_root i p j" "prev_root i \<noteq> LeafHash x"
  "prev_root i \<noteq> NullLeaf" "prev_root i \<noteq> FinalRoot"
  by (auto simp: prev_root_def)

lemma take_leaf:
  "length (vu_username u) = 32 \<Longrightarrow> take 32 (old_leaf u) = vu_username u"
  "length (vu_username u) = 32 \<Longrightarrow> take 32 (new_leaf u) = vu_username u"
  "length (va_username a) = 32 \<Longrightarrow> take 32 (append_leaf a) = va_username a"
  by (simp_all add: old_leaf_def new_leaf_def append_leaf_def vkd_concat_def)

lemma leaf_lengths [simp]:
  "update_wf (Update u) \<Longrightarrow> length (old_leaf u) = 66" "update_wf (Update u) \<Longrightarrow> length (new_leaf u) = 66"
  "update_wf (Append a) \<Longrightarrow> length (append_leaf a) = 66"
  by (simp_all add: old_leaf_def new_leaf_def append_leaf_def)

text \<open>The path of the old leaf and the comparison of its root with the previous one.\<close>

lemma eval_old_path:
  fixes hl :: "'f::field hash_lib"
  assumes hl: "hash_lib_ok hl" and cd: "vkd_codec_ok cd" and path: "length path = 128"
    and inv: "memory_inv hl vc i rt H U m" and user: "take 32 leaf \<in> U"
    and start: "m (node_name start) = Some (inner_hash_to_fpvar h)" "length h = inner_hash_size"
  shows "\<exists>m'. eval_prims hl cd vc (path_prims cd i 0 start leaf path @ [equality_prim cd i (path_root i 0) (prev_root i)]) m
       = Inr ((inner_hash_to_fpvar (fold_root hl path (user_bits hl (take 32 leaf)) h) :: 'f) = inner_hash_to_fpvar rt, m')
     \<and> (\<forall>n. n \<noteq> node_name (path_root i 0) \<longrightarrow> (\<forall>j. n \<noteq> node_name (mid_root i 0 j)) \<longrightarrow> m' n = m n)"
proof -
  let ?e = "inner_hash_to_fpvar :: u8 list \<Rightarrow> 'f" and ?bs = "user_bits hl (take 32 leaf)"
  have idx: "\<forall>k < 4. m (part_name leaf k) = Some (le_bits_to_fp_var (part ?bs k))"
    using memory_invD(2) [OF inv] user by simp
  have fresh: "\<forall>j. m (node_name (mid_root i 0 j)) = None" "m (node_name (path_root i 0)) = None"
    using memory_invD(6,7) [OF inv] by simp_all
  obtain m1 where m1: "eval_prims hl cd vc (path_prims cd i 0 start leaf path) m = Inr (True, m1)"
    "m1 (node_name (path_root i 0)) = Some (?e (fold_root hl path ?bs h))"
    "\<forall>n. n \<noteq> node_name (path_root i 0) \<longrightarrow> (\<forall>j. n \<noteq> node_name (mid_root i 0 j)) \<longrightarrow> m1 n = m n"
    using eval_path [OF hl cd path length_user_bits [OF hl] start idx fresh, of vc] by blast
  have "m1 (node_name (prev_root i)) = Some (?e rt)" using memory_invD(4) [OF inv] m1(3) by simp
  then have "eval_portal False (primitive_constraints hl cd vc (equality_prim cd i (path_root i 0) (prev_root i))) m1
      = Inr (?e (fold_root hl path ?bs h) = ?e rt, m1)"
    using m1(2) by (simp add: eval_equality [OF cd])
  then show ?thesis
    using m1(1,3) by (intro exI [of _ m1]) (simp add: eval_prims_append)
qed

text \<open>The path of the new leaf, once its hash is a wire.\<close>

lemma eval_new_path:
  fixes hl :: "'f::field hash_lib"
  assumes hl: "hash_lib_ok hl" and cd: "vkd_codec_ok cd" and path: "length path = 128"
    and inv: "memory_inv hl vc i rt H U m" and user: "take 32 leaf \<in> U" and l: "l \<in> H"
    and frame: "\<forall>n. n \<noteq> node_name (path_root i 0) \<longrightarrow> (\<forall>j. n \<noteq> node_name (mid_root i 0 j)) \<longrightarrow> m1 n = m n"
  shows "\<exists>m'. eval_prims hl cd vc (path_prims cd i 1 (LeafHash \<lparr>lh_leaf = l\<rparr>) leaf path) m1 = Inr (True, m')
     \<and> memory_inv hl vc (Suc i) (fold_root hl path (user_bits hl (take 32 leaf)) (leaf_digest hl l)) H U m'"
proof -
  let ?e = "inner_hash_to_fpvar :: u8 list \<Rightarrow> 'f" and ?bs = "user_bits hl (take 32 leaf)"
  have idx: "\<forall>k < 4. m1 (part_name leaf k) = Some (le_bits_to_fp_var (part ?bs k))"
    using memory_invD(2) [OF inv] user frame by simp
  have fresh: "\<forall>j. m1 (node_name (mid_root i 1 j)) = None" "m1 (node_name (path_root i 1)) = None"
    using memory_invD(6,7) [OF inv] frame by simp_all
  have start: "m1 (leaf_name l) = Some (?e (leaf_digest hl l))" using memory_invD(1) [OF inv] l frame by simp
  obtain m' where m': "eval_prims hl cd vc (path_prims cd i 1 (LeafHash \<lparr>lh_leaf = l\<rparr>) leaf path) m1 = Inr (True, m')"
    "m' (node_name (path_root i 1)) = Some (?e (fold_root hl path ?bs (leaf_digest hl l)))"
    "\<forall>n. n \<noteq> node_name (path_root i 1) \<longrightarrow> (\<forall>j. n \<noteq> node_name (mid_root i 1 j)) \<longrightarrow> m' n = m1 n"
    using eval_path [OF hl cd path length_user_bits [OF hl] start hash_leaf_digest(2) [OF hl] idx fresh, of vc] by blast
  have "memory_inv hl vc (Suc i) (fold_root hl path ?bs (leaf_digest hl l)) H U m'"
    by (rule memory_inv_next [where m' = m', OF inv _ m'(2) fold_root(2) [OF hl hash_leaf_digest(2) [OF hl]]])
      (simp add: m'(3) frame)
  with m'(1) show ?thesis by blast
qed

lemma update_prims_paths:
  "concat (update_prims cd i (Update u)) = (path_prims cd i 0 (LeafHash \<lparr>lh_leaf = old_leaf u\<rparr>) (old_leaf u) (vu_path u)
     @ [equality_prim cd i (path_root i 0) (prev_root i)]) @ [HashLeafPrimitive \<lparr>hp_leaf = new_leaf u\<rparr>]
     @ path_prims cd i 1 (LeafHash \<lparr>lh_leaf = new_leaf u\<rparr>) (old_leaf u) (vu_path u)"
  "concat (update_prims cd i (Append a)) = [HashLeafPrimitive \<lparr>hp_leaf = append_leaf a\<rparr>,
       GetIndexPrimitive \<lparr>gi_update_idx = i, gi_leaf = append_leaf a\<rparr>]
     @ (path_prims cd i 0 NullLeaf (append_leaf a) (va_path a) @ [equality_prim cd i (path_root i 0) (prev_root i)])
     @ path_prims cd i 1 (LeafHash \<lparr>lh_leaf = append_leaf a\<rparr>) (append_leaf a) (va_path a)"
  by (simp_all add: path_prims_def)

lemma eval_hash_new:
  assumes "hash_lib_ok hl" and "l \<noteq> []" and "m (leaf_name l) = None"
  shows "eval_portal False (primitive_constraints hl cd vc (HashLeafPrimitive \<lparr>hp_leaf = l\<rparr>)) m
     = Inr (True, m(leaf_name l \<mapsto> inner_hash_to_fpvar (leaf_digest hl l)))"
  using eval_hash_leaf [OF assms(1,2)] assms(3) by (simp only: if_P)

lemma eval_update:
  fixes hl :: "'f::field hash_lib"
  assumes hl: "hash_lib_ok hl" and cd: "vkd_codec_ok cd" and wf: "update_wf (Update u)" "length (vu_path u) = 128"
    and inv: "memory_inv hl vc i rt H U m" and mem: "old_leaf u \<in> H" and new: "new_leaf u \<notin> H" and user: "vu_username u \<in> U"
  shows "\<exists>m'. eval_prims hl cd vc (concat (update_prims cd i (Update u))) m
       = Inr ((inner_hash_to_fpvar (old_root hl pp (Update u)) :: 'f) = inner_hash_to_fpvar rt, m')
     \<and> memory_inv hl vc (Suc i) (new_root hl (Update u)) (insert (new_leaf u) H) U m'"
proof -
  let ?e = "inner_hash_to_fpvar :: u8 list \<Rightarrow> 'f" and ?l = "new_leaf u"
  have tl: "take 32 (old_leaf u) = vu_username u" using wf(1) by (simp add: take_leaf)
  have "length ?l = 66" using wf(1) by (rule leaf_lengths(2))
  then have ne: "?l \<noteq> []" by auto
  have user': "take 32 (old_leaf u) \<in> U" using user tl by simp
  have start: "m (leaf_name (old_leaf u)) = Some (?e (leaf_digest hl (old_leaf u)))"
    using memory_invD(1) [OF inv] mem by simp
  obtain m1 where m1: "eval_prims hl cd vc (path_prims cd i 0 (LeafHash \<lparr>lh_leaf = old_leaf u\<rparr>) (old_leaf u) (vu_path u)
      @ [equality_prim cd i (path_root i 0) (prev_root i)]) m = Inr (?e (old_root hl pp (Update u)) = ?e rt, m1)"
    "\<forall>n. n \<noteq> node_name (path_root i 0) \<longrightarrow> (\<forall>j. n \<noteq> node_name (mid_root i 0 j)) \<longrightarrow> m1 n = m n"
    using eval_old_path [OF hl cd wf(2) inv user' start hash_leaf_digest(2) [OF hl]] by (auto simp: old_root_def tl)
  have "m1 (leaf_name ?l) = None" using memory_invD(1) [OF inv] new m1(2) by simp
  note hash = eval_hash_new [where m = m1, OF hl ne this, of cd vc]
  have frame: "\<forall>n. n \<noteq> node_name (path_root i 0) \<longrightarrow> (\<forall>j. n \<noteq> node_name (mid_root i 0 j)) \<longrightarrow>
     (m1(leaf_name ?l \<mapsto> ?e (leaf_digest hl ?l))) n = (m(leaf_name ?l \<mapsto> ?e (leaf_digest hl ?l))) n"
    using m1(2) by simp
  obtain m2 where m2: "eval_prims hl cd vc (path_prims cd i 1 (LeafHash \<lparr>lh_leaf = ?l\<rparr>) (old_leaf u) (vu_path u))
      (m1(leaf_name ?l \<mapsto> ?e (leaf_digest hl ?l))) = Inr (True, m2)"
    "memory_inv hl vc (Suc i) (new_root hl (Update u)) (insert ?l H) U m2"
    using eval_new_path [where ?m1.0 = "m1(leaf_name ?l \<mapsto> ?e (leaf_digest hl ?l))",
        OF hl cd wf(2) memory_inv_leaf [OF inv] user' insertI1 frame] by (auto simp: new_root_def tl)
  have "eval_prims hl cd vc [HashLeafPrimitive \<lparr>hp_leaf = ?l\<rparr>] m1 = Inr (True, m1(leaf_name ?l \<mapsto> ?e (leaf_digest hl ?l)))"
    using hash by (simp only: eval_prims.simps rbind_simps prod.case simp_thms)
  with m1(1) m2 show ?thesis
    by (simp only: update_prims_paths eval_prims_append [of hl cd vc "[HashLeafPrimitive _]"]
        eval_prims_append [of hl cd vc "path_prims _ _ _ _ _ _ @ _"] rbind_simps prod.case) simp
qed

lemma eval_append:
  fixes hl :: "'f::field hash_lib"
  assumes hl: "hash_lib_ok hl" and cd: "vkd_codec_ok cd" and wf: "update_wf (Append u)" "length (va_path u) = 128"
    and pp: "vp_null_leaf (vc_params vc) = pp" "length pp = inner_hash_size"
    and inv: "memory_inv hl vc i rt H U m" and new: "append_leaf u \<notin> H" and user: "va_username u \<notin> U"
  shows "\<exists>m'. eval_prims hl cd vc (concat (update_prims cd i (Append u))) m
       = Inr ((inner_hash_to_fpvar (old_root hl pp (Append u)) :: 'f) = inner_hash_to_fpvar rt, m')
     \<and> memory_inv hl vc (Suc i) (new_root hl (Append u)) (insert (append_leaf u) H) (insert (va_username u) U) m'"
proof -
  let ?e = "inner_hash_to_fpvar :: u8 list \<Rightarrow> 'f" and ?l = "append_leaf u" and ?U = "insert (va_username u) U"
  have tl: "take 32 ?l = va_username u" using wf(1) by (simp add: take_leaf)
  have "length ?l = 66" using wf(1) by (rule leaf_lengths(3))
  then have ll: "32 \<le> length ?l" "?l \<noteq> []" by auto
  have user': "take 32 ?l \<in> ?U" by (simp add: tl)
  have "m (leaf_name ?l) = None" using memory_invD(1) [OF inv] new by simp
  note hash = eval_hash_new [where m = m, OF hl ll(2) this, of cd vc]
  let ?m1 = "m(leaf_name ?l \<mapsto> ?e (leaf_digest hl ?l))"
  define m2 where "m2 = fold (\<lambda>j m. m(part_name ?l j \<mapsto> le_bits_to_fp_var (part (user_bits hl (take 32 ?l)) j))) [0, 1, 2, 3] ?m1"
  have inv2: "memory_inv hl vc i rt (insert ?l H) ?U m2"
    using memory_inv_user [OF memory_inv_leaf [OF inv], of ?l ?l] by (simp only: tl m2_def)
  have "\<forall>j \<in> {0, 1, 2, 3}. ?m1 (part_name ?l j) = None" using memory_invD(2) [OF inv] user by (simp add: tl)
  then have index: "eval_portal False (primitive_constraints hl cd vc (GetIndexPrimitive \<lparr>gi_update_idx = i, gi_leaf = ?l\<rparr>)) ?m1
      = Inr (True, m2)" unfolding eval_get_index [OF hl ll(1)] m2_def by (rule if_P)
  have null: "m2 (node_name NullLeaf) = Some (?e pp)" using memory_invD(3) [OF inv2] pp(1) by simp
  obtain m3 where m3: "eval_prims hl cd vc (path_prims cd i 0 NullLeaf ?l (va_path u)
      @ [equality_prim cd i (path_root i 0) (prev_root i)]) m2 = Inr (?e (old_root hl pp (Append u)) = ?e rt, m3)"
    "\<forall>n. n \<noteq> node_name (path_root i 0) \<longrightarrow> (\<forall>j. n \<noteq> node_name (mid_root i 0 j)) \<longrightarrow> m3 n = m2 n"
    using eval_old_path [OF hl cd wf(2) inv2 user' null pp(2)] by (auto simp: old_root_def tl)
  obtain m4 where m4: "eval_prims hl cd vc (path_prims cd i 1 (LeafHash \<lparr>lh_leaf = ?l\<rparr>) ?l (va_path u)) m3 = Inr (True, m4)"
    "memory_inv hl vc (Suc i) (new_root hl (Append u)) (insert ?l H) ?U m4"
    using eval_new_path [OF hl cd wf(2) inv2 user' insertI1 m3(2)] by (auto simp: new_root_def tl)
  have "eval_prims hl cd vc [HashLeafPrimitive \<lparr>hp_leaf = ?l\<rparr>, GetIndexPrimitive \<lparr>gi_update_idx = i, gi_leaf = ?l\<rparr>] m
      = Inr (True, m2)"
    using hash index by (simp only: eval_prims.simps rbind_simps prod.case simp_thms)
  with m3(1) m4 show ?thesis
    by (simp only: update_prims_paths eval_prims_append [of hl cd vc "[HashLeafPrimitive _, GetIndexPrimitive _]"]
        eval_prims_append [of hl cd vc "path_prims _ _ _ _ _ _ @ _"] rbind_simps prod.case) simp
qed

text \<open>An update that is not in order with the history runs into a wire that is missing or set twice.\<close>

lemma eval_stuck:
  fixes hl :: "'f::field hash_lib"
  assumes hl: "hash_lib_ok hl" and cd: "vkd_codec_ok cd" and wf: "update_wf op" "length (update_path op) = 128"
    and inv: "memory_inv hl vc i rt H U m" and H: "\<forall>l \<in> H. take 32 l \<in> U" and stuck: "history_step op (H, U) = None"
  shows "\<exists>e. eval_prims hl cd vc (concat (update_prims cd i op)) m = Inl e"
proof (cases op)
  case (Update u)
  have tl: "take 32 (old_leaf u) = vu_username u" using wf(1) Update by (simp add: take_leaf)
  show ?thesis
  proof (cases "old_leaf u \<in> H")
    case False
    then have "m (node_name (fst (step_nodes i 0 (LeafHash \<lparr>lh_leaf = old_leaf u\<rparr>) 0))) = None"
      using memory_invD(1) [OF inv] by (simp add: step_nodes_def)
    from eval_path_prim_stuck [where m = m, OF cd this] show ?thesis
      by (simp add: Update del: primitive_constraints.simps)
  next
    case True
    then have new: "new_leaf u \<in> H" using stuck by (simp add: Update split: if_splits)
    have user: "take 32 (old_leaf u) \<in> U" using True H by blast
    have start: "m (leaf_name (old_leaf u)) = Some (inner_hash_to_fpvar (leaf_digest hl (old_leaf u)))"
      using memory_invD(1) [OF inv] True by simp
    have path: "length (vu_path u) = 128" using wf(2) Update by simp
    obtain b m1 where m1: "eval_prims hl cd vc (path_prims cd i 0 (LeafHash \<lparr>lh_leaf = old_leaf u\<rparr>) (old_leaf u) (vu_path u)
        @ [equality_prim cd i (path_root i 0) (prev_root i)]) m = Inr (b, m1)"
      "\<forall>n. n \<noteq> node_name (path_root i 0) \<longrightarrow> (\<forall>j. n \<noteq> node_name (mid_root i 0 j)) \<longrightarrow> m1 n = m n"
      using eval_old_path [OF hl cd path inv user start hash_leaf_digest(2) [OF hl]] by blast
    have "m1 (leaf_name (new_leaf u)) \<noteq> None" using memory_invD(1) [OF inv] new m1(2) by simp
    moreover have "length (new_leaf u) = 66" using wf(1) Update by simp
    then have "new_leaf u \<noteq> []" by auto
    ultimately have "eval_portal False (primitive_constraints hl cd vc (HashLeafPrimitive \<lparr>hp_leaf = new_leaf u\<rparr>)) m1
        = Inl (Panic ''portal wire set twice'')" using eval_hash_leaf [OF hl] by (simp only: if_not_P not_False_eq_True)
    then have "eval_prims hl cd vc [HashLeafPrimitive \<lparr>hp_leaf = new_leaf u\<rparr>] m1 = Inl (Panic ''portal wire set twice'')"
      by (simp only: eval_prims.simps rbind_simps)
    with m1(1) show ?thesis
      by (simp only: Update update_prims_paths eval_prims_append [of hl cd vc "[HashLeafPrimitive _]"]
          eval_prims_append [of hl cd vc "path_prims _ _ _ _ _ _ @ _"] rbind_simps prod.case) simp
  qed
next
  case (Append a)
  let ?l = "append_leaf a"
  have tl: "take 32 ?l = va_username a" using wf(1) Append by (simp add: take_leaf)
  have "length ?l = 66" using wf(1) Append by simp
  then have ll: "32 \<le> length ?l" "?l \<noteq> []" by auto
  have "take 32 ?l \<in> U" using stuck by (simp add: Append tl split: if_splits)
  then have part: "m (part_name ?l 0) \<noteq> None" using memory_invD(2) [OF inv] by simp
  consider e where "eval_portal False (primitive_constraints hl cd vc (HashLeafPrimitive \<lparr>hp_leaf = ?l\<rparr>)) m = Inl e"
    | m1 where "eval_portal False (primitive_constraints hl cd vc (HashLeafPrimitive \<lparr>hp_leaf = ?l\<rparr>)) m = Inr (True, m1)"
      "m1 (part_name ?l 0) = m (part_name ?l 0)"
    by (cases "m (leaf_name ?l) = None") (simp_all add: eval_hash_leaf [OF hl ll(2)] del: primitive_constraints.simps)
  then show ?thesis
  proof cases
    case 1
    then show ?thesis by (simp add: Append del: primitive_constraints.simps)
  next
    case (2 m1)
    with part have "eval_portal False (primitive_constraints hl cd vc (GetIndexPrimitive \<lparr>gi_update_idx = i, gi_leaf = ?l\<rparr>)) m1
        = Inl (Panic ''portal wire set twice'')"
      unfolding eval_get_index [OF hl ll(1)] by (intro if_not_P) simp
    with 2 show ?thesis by (simp add: Append del: primitive_constraints.simps)
  qed
qed

section \<open>All updates\<close>

lemma history_step_users:
  assumes "history_step op (H, U) = Some (H', U')" and "update_wf op" and "\<forall>l \<in> H. take 32 l \<in> U"
  shows "\<forall>l \<in> H'. take 32 l \<in> U'"
proof (cases op)
  case (Update u)
  then have "take 32 (old_leaf u) \<in> U" "take 32 (new_leaf u) = take 32 (old_leaf u)"
    using assms by (auto simp: take_leaf split: if_splits)
  with Update assms(1,3) show ?thesis by (auto split: if_splits)
next
  case (Append a)
  with assms show ?thesis by (auto simp: take_leaf split: if_splits)
qed

lemma eval_step:
  fixes hl :: "'f::field hash_lib"
  assumes hl: "hash_lib_ok hl" and cd: "vkd_codec_ok cd" and wf: "update_wf op" "length (update_path op) = 128"
    and pp: "vp_null_leaf (vc_params vc) = pp" "length pp = inner_hash_size"
    and inv: "memory_inv hl vc i rt H U m" and H: "\<forall>l \<in> H. take 32 l \<in> U"
    and step: "history_step op (H, U) = Some (H', U')"
  shows "\<exists>m'. eval_prims hl cd vc (concat (update_prims cd i op)) m
       = Inr ((inner_hash_to_fpvar (old_root hl pp op) :: 'f) = inner_hash_to_fpvar rt, m')
     \<and> memory_inv hl vc (Suc i) (new_root hl op) H' U' m'"
proof (cases op)
  case (Update u)
  then have u: "old_leaf u \<in> H" "new_leaf u \<notin> H" "H' = insert (new_leaf u) H" "U' = U" "length (vu_username u) = 32"
    using step wf(1) by (auto split: if_splits)
  then have "vu_username u \<in> U" using H take_leaf(1) by fastforce
  with eval_update [OF hl cd _ _ inv u(1,2)] u(3,4) wf Update show ?thesis by simp
next
  case (Append a)
  then have a: "va_username a \<notin> U" "H' = insert (append_leaf a) H" "U' = insert (va_username a) U" "length (va_username a) = 32"
    using step wf(1) by (auto split: if_splits)
  then have "append_leaf a \<notin> H" using H take_leaf(3) by fastforce
  with eval_append [OF hl cd _ _ pp inv _ a(1)] a(2,3) wf Append show ?thesis by simp
qed

lemma eval_updates:
  fixes hl :: "'f::field hash_lib"
  assumes hl: "hash_lib_ok hl" and cd: "vkd_codec_ok cd" and ch: "char_above TYPE('f) (2 ^ 216)"
    and pp: "vp_null_leaf (vc_params vc) = pp" "length pp = inner_hash_size"
  shows "\<forall>op \<in> set us. update_wf op \<and> length (update_path op) = 128 \<Longrightarrow> memory_inv hl vc i rt H U m \<Longrightarrow>
     \<forall>l \<in> H. take 32 l \<in> U \<Longrightarrow>
     (case history us (H, U) of
        None \<Rightarrow> \<exists>e. eval_prims hl cd vc (concat (concat (map (\<lambda>(i, u). update_prims cd i u) (enumerate i us)))) m = Inl e
      | Some _ \<Rightarrow> \<exists>ok m' rt' H' U'.
          eval_prims hl cd vc (concat (concat (map (\<lambda>(i, u). update_prims cd i u) (enumerate i us)))) m = Inr (ok, m')
          \<and> memory_inv hl vc (i + length us) rt' H' U' m'
          \<and> (\<forall>res. rfold (verify_update hl pp) us (res, rt) = Inr (res \<and> ok, rt')))"
proof (induction us arbitrary: i rt H U m)
  case Nil
  then show ?case by auto
next
  case (Cons op us)
  have wf: "update_wf op" "length (update_path op) = 128" using Cons.prems(1) by simp_all
  show ?case
  proof (cases "history_step op (H, U)")
    case None
    with eval_stuck [OF hl cd wf Cons.prems(2,3)] show ?thesis
      by (auto simp: eval_prims_append simp del: update_prims.simps)
  next
    case (Some s)
    obtain H1 U1 where s: "s = (H1, U1)" by (cases s)
    let ?b = "(inner_hash_to_fpvar (old_root hl pp op) :: 'f) = inner_hash_to_fpvar rt"
    obtain m1 where m1: "eval_prims hl cd vc (concat (update_prims cd i op)) m = Inr (?b, m1)"
      "memory_inv hl vc (Suc i) (new_root hl op) H1 U1 m1"
      using eval_step [OF hl cd wf pp Cons.prems(2,3)] Some s by blast
    have H1: "\<forall>l \<in> H1. take 32 l \<in> U1" using history_step_users Some s wf(1) Cons.prems(3) by blast
    have b: "?b \<longleftrightarrow> old_root hl pp op = rt"
      using inner_hash_to_fpvar_inj [OF ch root_lengths(1) [OF hl pp(2)] memory_invD(5) [OF Cons.prems(2)]] by blast
    have "\<forall>op \<in> set us. update_wf op \<and> length (update_path op) = 128" using Cons.prems(1) by simp
    note IH = Cons.IH [OF this m1(2) H1]
    have verify: "rfold (verify_update hl pp) (op # us) (res, rt)
        = rfold (verify_update hl pp) us (res \<and> ?b, new_root hl op)" for res
      using verify_update_roots [OF hl wf(2) pp(2), of res rt] b by simp
    show ?thesis
    proof (cases "history us s")
      case None
      with IH s Some m1(1) show ?thesis by (auto simp: eval_prims_append simp del: update_prims.simps)
    next
      case (Some s')
      then obtain ok m' rt' H' U' where
        r: "eval_prims hl cd vc (concat (concat (map (\<lambda>(i, u). update_prims cd i u) (enumerate (Suc i) us)))) m1 = Inr (ok, m')"
        "memory_inv hl vc (Suc i + length us) rt' H' U' m'"
        "\<And>res. rfold (verify_update hl pp) us (res, new_root hl op) = Inr (res \<and> ok, rt')"
        using IH s by auto
      have "eval_prims hl cd vc (concat (concat (map (\<lambda>(i, u). update_prims cd i u) (enumerate i (op # us))))) m = Inr (?b \<and> ok, m')"
        using m1(1) r(1) by (simp add: eval_prims_append del: update_prims.simps)
      moreover have "\<forall>res. rfold (verify_update hl pp) (op # us) (res, rt) = Inr (res \<and> ?b \<and> ok, rt')"
        using verify r(3) by simp
      moreover have "history (op # us) (H, U) = Some s'" using Some \<open>history_step op (H, U) = Some s\<close> by simp
      ultimately show ?thesis using r(2) by (simp del: rfold.simps concat.simps list.map enumerate_simps) blast
    qed
  qed
qed

definition public_wires :: "vkd_circuit \<Rightarrow> string \<rightharpoonup> 'f::field" where
  "public_wires vc = [node_name InitialRoot \<mapsto> inner_hash_to_fpvar (vc_initial_root vc),
     node_name FinalRoot \<mapsto> inner_hash_to_fpvar (vc_final_root vc),
     node_name NullLeaf \<mapsto> inner_hash_to_fpvar (vp_null_leaf (vc_params vc))]"

lemma eval_start:
  fixes hl :: "'f::field hash_lib"
  assumes "roots_wf vc"
  shows "eval_prims hl cd vc (replicate 6 PaddingPrimitive @ [WritePublicParameterPrimitive]) Map.empty = Inr (True, public_wires vc)"
    "memory_inv hl vc 0 (vc_initial_root vc) {} {} (public_wires vc)"
proof -
  have "eval_portal False (primitive_constraints hl cd vc WritePublicParameterPrimitive) Map.empty = Inr (True, public_wires vc)"
    using assms by (simp add: eval_portal_bind named_nodes digest_to_fpvar_eq roots_wf_def public_wires_def)
  then show "eval_prims hl cd vc (replicate 6 PaddingPrimitive @ [WritePublicParameterPrimitive]) Map.empty = Inr (True, public_wires vc)"
    by (simp add: eval_nat_numeral del: primitive_constraints.simps(5))
  show "memory_inv hl vc 0 (vc_initial_root vc) {} {} (public_wires vc)"
    using assms by (simp add: memory_inv_def public_wires_def prev_root_def roots_wf_def)
qed

lemma concat_compiled:
  "concat (compiled cd us) = (replicate 6 PaddingPrimitive @ [WritePublicParameterPrimitive])
     @ concat (concat (map (\<lambda>(i, u). update_prims cd i u) (enumerate 0 us)))
     @ [equality_prim cd (length us - 1) FinalRoot (prev_root (length us))]"
  by (simp add: compiled_def eval_nat_numeral)

text \<open>
  The whole circuit: it runs if the updates are a history, and then its constraints hold exactly when
  the native verification accepts.
\<close>

lemma eval_circuit:
  fixes hl :: "'f::field hash_lib"
  assumes hl: "hash_lib_ok hl" and cd: "vkd_codec_ok cd" and ch: "char_above TYPE('f) (2 ^ 216)" and vc: "circuit_wf cd vc"
  shows "case history (vc_update vc) ({}, {}) of
      None \<Rightarrow> \<exists>e. eval_prims hl cd vc (concat (compiled cd (vc_update vc))) Map.empty = Inl e
    | Some _ \<Rightarrow> \<exists>ok m. eval_prims hl cd vc (concat (compiled cd (vc_update vc))) Map.empty = Inr (ok, m)
        \<and> vkd_verify hl vc (vp_null_leaf (vc_params vc)) = Inr ok"
proof -
  let ?us = "vc_update vc" and ?pp = "vp_null_leaf (vc_params vc)"
  have wf: "roots_wf vc" "\<forall>op \<in> set ?us. update_wf op \<and> length (update_path op) = 128" "length ?pp = inner_hash_size"
    "length (vc_final_root vc) = inner_hash_size"
    using vc by (auto simp: circuit_wf_def roots_wf_def vkd_depth_def)
  note ev = eval_updates [OF hl cd ch refl wf(3,2) eval_start(2) [OF wf(1)]]
  show ?thesis
  proof (cases "history ?us ({}, {})")
    case None
    with ev obtain e where "eval_prims hl cd vc (concat (concat (map (\<lambda>(i, u). update_prims cd i u) (enumerate 0 ?us)))) (public_wires vc) = Inl e"
      by auto
    with None show ?thesis
      by (simp add: concat_compiled eval_prims_append [of hl cd vc "_ @ _"] eval_prims_append [of hl cd vc "concat _"]
          eval_start(1) [OF wf(1)] del: append_assoc)
  next
    case (Some s)
    with ev obtain ok m rt H U where
      r: "eval_prims hl cd vc (concat (concat (map (\<lambda>(i, u). update_prims cd i u) (enumerate 0 ?us)))) (public_wires vc) = Inr (ok, m)"
      "memory_inv hl vc (length ?us) rt H U m"
      "\<And>res. rfold (verify_update hl ?pp) ?us (res, vc_initial_root vc) = Inr (res \<and> ok, rt)"
      by auto
    have "eval_portal False (primitive_constraints hl cd vc (equality_prim cd (length ?us - 1) FinalRoot (prev_root (length ?us)))) m
        = Inr (rt = vc_final_root vc, m)"
      using memory_invD(4,5,8) [OF r(2)] inner_hash_to_fpvar_inj [OF ch wf(4), of rt] by (auto simp: eval_equality [OF cd])
    then have "eval_prims hl cd vc (concat (compiled cd ?us)) Map.empty = Inr (ok \<and> rt = vc_final_root vc, m)"
      using r(1) by (simp add: concat_compiled eval_prims_append [of hl cd vc "_ @ _"] eval_prims_append [of hl cd vc "concat _"]
          eval_start(1) [OF wf(1)] del: append_assoc primitive_constraints.simps)
    moreover have "vkd_verify hl vc ?pp = Inr (ok \<and> rt = vc_final_root vc)" using r(3) by (simp add: vkd_verify_def conj_commute)
    ultimately show ?thesis using Some by simp
  qed
qed

section \<open>The generated directory\<close>

lemma length_path_up: "path_up t d i = Inr path \<Longrightarrow> length path = d"
  by (induction t d i arbitrary: path rule: path_up.induct) (auto simp: res_simps)

lemma u16_le_bytes_inj: "u16_le_bytes c = u16_le_bytes c' \<longleftrightarrow> c = c'"
proof
  assume "u16_le_bytes c = u16_le_bytes c'"
  then have "bytes_val (u16_le_bytes c) = bytes_val (u16_le_bytes c')" by simp
  moreover have "unat (x :: u16) < 65536" for x
  proof -
    have "unat x < 2 ^ LENGTH(16)" by (rule unsigned_less)
    then show ?thesis by simp
  qed
  ultimately show "c = c'" by (simp add: u16_le_bytes_def bytes_val_val_bytes word_unat_eq_iff)
qed simp

lemma vkd_concat_inj:
  "length k = length k' \<Longrightarrow> vkd_concat u k c = vkd_concat u k' c' \<longleftrightarrow> k = k' \<and> c = c'"
  by (auto simp: vkd_concat_def u16_le_bytes_inj)

text \<open>The updates of the single user so far: his leaves carry the counters \<open>0 .. c\<close>.\<close>

definition random_history :: "u8 list \<Rightarrow> vkd_state \<Rightarrow> bool" where
  "random_history username st \<longleftrightarrow>
     (\<forall>u \<in> set (vs_updates st). update_wf u \<and> length (update_path u) = vkd_depth)
     \<and> (length (vs_updates st) \<le> 65536 \<longrightarrow> (\<exists>c k H. vs_users st username = Some (c, k) \<and> length k = 32
          \<and> history (vs_updates st) ({}, {}) = Some (H, {username}) \<and> Suc (unat c) = length (vs_updates st)
          \<and> vkd_concat username k c \<in> H
          \<and> (\<forall>l \<in> H. \<exists>c' k'. l = vkd_concat username k' c' \<and> length k' = 32 \<and> unat c' \<le> unat c)))"

lemma history_append:
  "history (us @ vs) s = (case history us s of None \<Rightarrow> None | Some s' \<Rightarrow> history vs s')"
  by (induction us arbitrary: s) (simp_all split: option.split)

lemma random_history_start:
  assumes "length path = vkd_depth"
  shows "random_history random_name (random_start t path)"
proof -
  have "append_leaf \<lparr>va_username = random_name, va_key = genesis_name, va_path = path\<rparr> = vkd_concat random_name genesis_name 0"
    by (simp add: append_leaf_def)
  moreover have "\<exists>c' k'. vkd_concat random_name genesis_name 0 = vkd_concat random_name k' c' \<and> length k' = 32
      \<and> unat (c' :: u16) = 0"
    by (intro exI [of _ 0] exI [of _ genesis_name]) simp
  ultimately show ?thesis using assms by (auto simp: random_history_def)
qed

lemma random_history_step:
  assumes h: "random_history username st" and step: "vkd_random_step hl n username j st = Inr st'"
    and j: "j < n" and len: "length username = 32" and k: "\<forall>c k. vs_users st username = Some (c, k) \<longrightarrow> length k = 32"
  shows "random_history username st' \<and> (\<forall>c k. vs_users st' username = Some (c, k) \<longrightarrow> length k = 32)
     \<and> length (vs_updates st') = Suc (length (vs_updates st))"
proof -
  define key2 :: "u8 list" where "key2 = replicate 32 (word_of_nat (j mod 256))"
  from step j obtain c k path tree where s: "vs_users st username = Some (c, k)"
    "\<exists>mi. user_index hl username = Inr mi \<and> lookup_path (vs_tree st) mi = Inr path"
    "st' = \<lparr>vs_users = (vs_users st)(username \<mapsto> (c + 1, key2)), vs_tree = tree, vs_updates = vs_updates st @
       [Update \<lparr>vu_username = username, vu_counter = c, vu_key1 = k, vu_path = path, vu_key2 = key2\<rparr>]\<rparr>"
    by (auto simp: vkd_random_step_def res_simps Let_def key2_def)
  let ?u = "\<lparr>vu_username = username, vu_counter = c, vu_key1 = k, vu_path = path, vu_key2 = key2\<rparr>"
  have path: "length path = vkd_depth"
  proof -
    obtain mi where mi: "user_index hl username = Inr mi" "lookup_path (vs_tree st) mi = Inr path" using s(2) by blast
    then have "mi_depth mi = vkd_depth" by (auto simp: user_index_def get_index_def res_simps split: if_splits)
    with length_path_up mi(2) show ?thesis by (auto simp: lookup_path_def)
  qed
  have k32: "length k = 32" using k s(1) by blast
  have wf: "update_wf (Update ?u)" using k32 len path by (simp add: key2_def)
  have hist: "\<exists>H. history (vs_updates st') ({}, {}) = Some (H, {username}) \<and> vkd_concat username key2 (c + 1) \<in> H
      \<and> Suc (unat (c + 1)) = length (vs_updates st')
      \<and> (\<forall>l \<in> H. \<exists>c' k'. l = vkd_concat username k' c' \<and> length k' = 32 \<and> unat c' \<le> unat (c + 1))"
    if cap: "length (vs_updates st') \<le> 65536"
  proof -
    have "length (vs_updates st) \<le> 65536" using cap s(3) by simp
    with h s(1) obtain H where H: "history (vs_updates st) ({}, {}) = Some (H, {username})"
      "Suc (unat c) = length (vs_updates st)" "vkd_concat username k c \<in> H"
      "\<And>l. l \<in> H \<Longrightarrow> \<exists>c' k'. l = vkd_concat username k' c' \<and> length k' = 32 \<and> unat c' \<le> unat c"
      by (auto simp: random_history_def)
    have "unat c + 1 < 65536" using H(2) cap s(3) by simp
    then have c1: "unat (c + 1) = unat c + 1" by (simp add: unat_word_ariths)
    have "vkd_concat username key2 (c + 1) \<notin> H"
    proof
      assume "vkd_concat username key2 (c + 1) \<in> H"
      then obtain c' k' where "vkd_concat username key2 (c + 1) = vkd_concat username k' c'" "length k' = 32" "unat c' \<le> unat c"
        using H(4) by blast
      then have "unat (c + 1) \<le> unat c" by (simp add: vkd_concat_inj key2_def)
      with c1 show False by simp
    qed
    then have "history (vs_updates st') ({}, {}) = Some (insert (vkd_concat username key2 (c + 1)) H, {username})"
      using H(1,3) s(3) by (simp add: history_append old_leaf_def new_leaf_def)
    moreover have "\<exists>c' k'. l = vkd_concat username k' c' \<and> length k' = 32 \<and> unat c' \<le> unat (c + 1)"
      if "l \<in> insert (vkd_concat username key2 (c + 1)) H" for l
    proof (cases "l = vkd_concat username key2 (c + 1)")
      case True
      then show ?thesis by (intro exI [of _ "c + 1"] exI [of _ key2]) (simp add: key2_def)
    next
      case False
      with that H(4) [of l] c1 show ?thesis by (metis insertE le_add1 le_trans)
    qed
    ultimately show ?thesis using H(2) c1 s(3) by auto
  qed
  show ?thesis
    using h wf path s(3) hist by (auto simp: random_history_def key2_def)
qed

lemma random_history_loop:
  assumes "rfold (vkd_random_step hl n username) js st = Inr st'" and "\<forall>j \<in> set js. j < n" and "length username = 32"
    and "random_history username st" and "\<forall>c k. vs_users st username = Some (c, k) \<longrightarrow> length k = 32"
  shows "random_history username st'"
proof -
  have "random_history username st' \<and> (\<forall>c k. vs_users st' username = Some (c, k) \<longrightarrow> length k = 32)"
    by (rule rfold_invariant [OF assms(1)]) (use assms random_history_step in blast)+
  then show ?thesis by simp
qed

lemma tree_root_length:
  assumes "tree_ok hl vkd_depth t"
  shows "length (st_root t) = inner_hash_size"
proof -
  have "node_ok hl t 0 0" using tree_okD(2) [OF assms] by (simp add: vkd_depth_def)
  then show ?thesis using tree_okD(4) [OF assms] hash_inner_node_length by (auto simp: node_ok_def)
qed

lemma vkd_random_circuit:
  fixes hl :: "'f::field hash_lib"
  assumes hl: "hash_lib_ok hl" and size: "4 \<le> vp_log_num_subcircuits params" "vp_log_num_subcircuits params < 20"
    and distinct: "user_index hl random_name \<noteq> user_index hl genesis_name"
    and pp: "hash_leaf hl initial_leaf_value = Inr (vp_null_leaf params)"
  obtains vc k where "vkd_random hl cd params = Inr vc" "circuit_wf cd vc" "vc_params vc = params"
    "length (vc_subcircuits vc) = vkd_num_subcircuits vc" "vkd_verify hl vc (vp_null_leaf params) = Inr True"
    "history (vc_update vc) ({}, {}) = Some k" "length (vc_update vc) \<le> 65536"
proof -
  let ?n = "vp_log_num_subcircuits params" and ?pp = "vp_null_leaf params"
  have size': "?n < 64" using size(2) by simp
  obtain k i t2 path st and t1 :: sparse_tree where r: "8 * k + 16 = 2 ^ ?n"
    "random_inv hl ?pp (st_root t1) random_name i (random_start t2 path)"
    "lookup_path t1 (at_node i vkd_depth) = Inr path" "tree_ok hl vkd_depth t1"
    "rfold (vkd_random_step hl k random_name) [0..<k] (random_start t2 path) = Inr st"
    "random_inv hl ?pp (st_root t1) random_name i st" "length (vs_updates st) = Suc k"
    "vkd_random hl cd params = Inr \<lparr>vc_initial_root = st_root t1, vc_params = params, vc_final_root = st_root (vs_tree st),
       vc_update = vs_updates st, vc_subcircuits = map (\<lambda>ps. \<lparr>compound_primitive_vec = ps\<rparr>) (compiled cd (vs_updates st))\<rparr>"
    "vkd_update_to_subcircuit cd (vs_updates st)
       = Inr (map (\<lambda>ps. \<lparr>compound_primitive_vec = ps\<rparr>) (compiled cd (vs_updates st)))"
    by (rule vkd_random_runs [OF hl size(1) size' distinct pp, of cd]) (rule that)
  have "length path = vkd_depth" using length_path_up r(3) by (auto simp: lookup_path_def)
  then have "random_history random_name st"
    by (intro random_history_loop [OF r(5)] random_history_start) auto
  moreover have "(2 :: nat) ^ ?n \<le> 2 ^ 19" using size(2) by (intro power_increasing) simp_all
  then have len: "length (vs_updates st) \<le> 65536" using r(1,7) by simp
  ultimately obtain H where hist: "history (vs_updates st) ({}, {}) = Some (H, {random_name})"
    and wf: "\<forall>u \<in> set (vs_updates st). update_wf u \<and> length (update_path u) = vkd_depth"
    by (auto simp: random_history_def)
  have "length ?pp = inner_hash_size" using pp by (rule hash_leaf_length)
  moreover have "length (st_root (vs_tree st)) = inner_hash_size" "length (st_root t1) = inner_hash_size"
    using tree_root_length r(4,6) by (auto simp: random_inv_def)
  moreover have "vs_updates st \<noteq> []" using r(7) by auto
  ultimately show thesis
    using r(1,6,7,8,9) wf hist len
    by (intro that [of "\<lparr>vc_initial_root = st_root t1, vc_params = params, vc_final_root = st_root (vs_tree st),
       vc_update = vs_updates st, vc_subcircuits = map (\<lambda>ps. \<lparr>compound_primitive_vec = ps\<rparr>) (compiled cd (vs_updates st))\<rparr>"
          "(H, {random_name})"]) (simp_all add: circuit_wf_def roots_wf_def vkd_verify_def random_inv_def length_compiled vkd_num_subcircuits_def)
qed

lemma primitive_sets: "sets_at_most (primitive_constraints hl cd vc p) 4"
proof (cases p)
  case (GetIndexPrimitive ind)
  have "sets_at_most (pfold (\<lambda>i ok. pbind (lift_res (vindex bs i)) (\<lambda>bs.
      pbind (portal_set (part_name (gi_leaf ind) i) (le_bits_to_fp_var bs)) (\<lambda>_. Return ok))) [0..<4] True) (1 * length [0..<4])"
    (is "sets_at_most (pfold ?f _ _) _") for bs :: "bool list list"
    by (rule sets_at_most_pfold, intro allI, rule sets_at_most_lift_bind) (simp add: portal_set_def)
  then show ?thesis
    unfolding GetIndexPrimitive primitive_constraints.simps split_factor_const_def
    by (intro sets_at_most_lift_bind allI) simp
qed (auto intro!: sets_at_most_lift_bind sets_at_most_get_bind simp: portal_set_def)

lemma prims_sets: "sets_at_most (prims_constraints hl cd vc ps) (4 * length ps)"
  unfolding prims_constraints_def
proof (rule sets_at_most_pfold, intro allI)
  fix p ok
  show "sets_at_most (pbind (primitive_constraints hl cd vc p) (\<lambda>b. Return (ok \<and> b))) 4"
    using sets_at_most_bind [OF primitive_sets, of "\<lambda>b. Return (ok \<and> b)" 0] by simp
qed

lemma setup_run_size:
  assumes "rom_setup_run (map (prims_constraints hl cd vc) pss) s = Inr (ok, s')" and "finite (dom (sr_var_map s))"
  shows "card (dom (sr_var_map s')) \<le> card (dom (sr_var_map s)) + 4 * length (concat pss)"
proof -
  have "list_all2 sets_at_most (map (prims_constraints hl cd vc) pss) (map (\<lambda>ps. 4 * length ps) pss)"
    by (simp add: list_all2_map1 list_all2_map2 list_all2_same prims_sets)
  from rom_setup_run_size [OF this assms] show ?thesis by (simp add: length_concat sum_list_const_mult o_def)
qed

lemma length_concat_compiled: "length (concat (compiled cd us)) \<le> 11 * length us + 8"
proof -
  have one: "length (concat (update_prims cd i u)) \<le> 11" for i u by (cases u) simp_all
  have "length (concat (concat (map (\<lambda>(i, u). update_prims cd i u) xs))) \<le> 11 * length xs" for xs
  proof (induction xs)
    case (Cons x xs)
    with one [of "fst x" "snd x"] show ?case by (cases x) (simp del: update_prims.simps length_concat)
  qed simp
  from this [of "enumerate 0 us"] show ?thesis by (simp add: concat_compiled del: length_concat update_prims.simps)
qed

section \<open>Properties\<close>

lemma circuit_refines:
  fixes hl :: "'f::field hash_lib"
  assumes "hash_lib_ok hl" and "vkd_codec_ok cd" and "char_above TYPE('f) (2 ^ 216)" and "circuit_wf cd vc"
  shows "case history (vc_update vc) ({}, {}) of
      None \<Rightarrow> \<exists>e. rom_setup_run (map (vkd_generate_constraints hl cd vc) [0..<length (vc_subcircuits vc)]) setup_rom_new = Inl e
    | Some _ \<Rightarrow> \<exists>ok s. rom_setup_run (map (vkd_generate_constraints hl cd vc) [0..<length (vc_subcircuits vc)]) setup_rom_new
          = Inr (ok, s) \<and> vkd_verify hl vc (vp_null_leaf (vc_params vc)) = Inr ok"
proof -
  have store: "setup_rom_store (setup_rom_new :: 'f setup_rom) = Map.empty" by (simp add: setup_rom_store_def setup_rom_new_def fun_eq_iff)
  have gen: "map (vkd_generate_constraints hl cd vc) [0..<length (vc_subcircuits vc)]
      = map (prims_constraints hl cd vc) (compiled cd (vc_update vc))"
    by (simp only: generate_constraints_all) (simp add: circuit_wf_subcircuits [OF assms(4)])
  show ?thesis
    unfolding gen using eval_circuit [OF assms] setup_run_eval [of hl cd vc "compiled cd (vc_update vc)" "setup_rom_new"]
    by (auto simp: store split: option.splits sum.splits)
qed

text \<open>
  C2: The circuit refines the native verification of the directory. Generating the constraints of all
  subcircuits succeeds exactly when the updates form a history (no user is appended twice, an update
  starts from a leaf that was written, no leaf is written twice), and then all constraints hold if and
  only if \<open>verify\<close> accepts the updates from the initial to the final root.
\<close>

theorem vkd_circuit_refines_verification:
  fixes hl :: "'f::field hash_lib"
  assumes "hash_lib_ok hl" and "vkd_codec_ok cd" and "char_above TYPE('f) (2 ^ 216)" and "circuit_wf cd vc"
  shows "case history (vc_update vc) ({}, {}) of
      None \<Rightarrow> \<exists>e. rom_setup_run (map (vkd_generate_constraints hl cd vc) [0..<length (vc_subcircuits vc)]) setup_rom_new = Inl e
    | Some _ \<Rightarrow> \<exists>ok s. rom_setup_run (map (vkd_generate_constraints hl cd vc) [0..<length (vc_subcircuits vc)]) setup_rom_new
          = Inr (ok, s) \<and> vkd_verify hl vc (vp_null_leaf (vc_params vc)) = Inr ok"
  by (rule circuit_refines [OF assms])

section \<open>The directory proved by the distributed prover\<close>

lemma vkd_ops_simps [simp]:
  "op_mem_type (vkd_ops hl cd) = Rom" "op_generate (vkd_ops hl cd) = vkd_generate_constraints hl cd"
  "op_num_subcircuits (vkd_ops hl cd) = vkd_num_subcircuits" "op_portal_subtraces (vkd_ops hl cd) = vkd_get_portal_subtraces hl cd"
  "op_get_witnesses (vkd_ops hl cd) = vkd_get_serialized_witnesses cd"
  by (simp_all add: vkd_ops_def)

lemma vkd_witness_contract:
  fixes hl :: "'f::field hash_lib"
  assumes "vkd_codec_ok cd" and "vkd_random hl cd (vc_params vc) = Inr vc" and "i < length (vc_subcircuits vc)"
  shows "witness_contract (vkd_ops hl cd) vc i"
proof -
  obtain w vc' where w: "vkd_get_serialized_witnesses cd vc i = Inr w" "vkd_set_serialized_witnesses cd i w vc = Inr vc'"
    "vkd_generate_constraints hl cd vc' i = vkd_generate_constraints hl cd vc i"
    using witnesses_restore [OF assms(1,3,3) refl refl refl] by blast
  then have "vc_params vc' = vc_params vc" by (auto simp: vkd_set_serialized_witnesses_def res_simps)
  then show ?thesis using w assms(2) by (simp add: witness_contract_def vkd_ops_def vkd_num_subcircuits_def)
qed

lemma eval_portal_mono: "eval_portal False p m = Inr (x, m') \<Longrightarrow> m n = Some v \<Longrightarrow> m' n = Some v"
proof (induction p arbitrary: m)
  case (Get k c)
  then show ?case by (auto simp: res_simps)
next
  case (Set k w p)
  then have "m k = None" "eval_portal False p (m(k \<mapsto> w)) = Inr (x, m')" by (auto simp: res_simps)
  moreover from this Set.prems(2) have "(m(k \<mapsto> w)) n = Some v" by auto
  ultimately show ?case using Set.IH by blast
qed simp_all

lemma eval_prims_mono: "eval_prims hl cd vc ps m = Inr (ok, m') \<Longrightarrow> m n = Some v \<Longrightarrow> m' n = Some v"
proof (induction ps arbitrary: m ok)
  case (Cons p ps)
  then obtain b m1 ok' where head: "eval_portal False (primitive_constraints hl cd vc p) m = Inr (b, m1)"
    and rest: "eval_prims hl cd vc ps m1 = Inr (ok', m')"
    by (auto simp: res_simps)
  have "m1 n = Some v" using head Cons.prems(2) by (rule eval_portal_mono)
  with rest show ?case by (rule Cons.IH)
qed simp

lemma eval_keeps_root:
  assumes "eval_prims hl cd vc (concat (compiled cd us)) Map.empty = Inr (ok, m)" and "roots_wf vc"
  shows "m (node_name InitialRoot) \<noteq> None"
proof -
  let ?rest = "concat (concat (map (\<lambda>(i, u). update_prims cd i u) (enumerate 0 us)))
      @ [equality_prim cd (length us - 1) FinalRoot (prev_root (length us))]"
  have "rbind (eval_prims hl cd vc ?rest (public_wires vc)) (\<lambda>(ok, m). Inr (True \<and> ok, m)) = Inr (ok, m)"
    using assms(1) unfolding concat_compiled eval_prims_append [of hl cd vc "replicate _ _ @ _"] eval_start(1) [OF assms(2)]
    by (simp only: rbind_simps prod.case)
  then have "\<exists>b. eval_prims hl cd vc ?rest (public_wires vc) = Inr (b, m)"
    by (rule rbind_InrE) (simp split: prod.splits)
  moreover have "public_wires vc (node_name InitialRoot) \<noteq> None" by (simp add: public_wires_def)
  ultimately show ?thesis using eval_prims_mono by blast
qed

text \<open>
  The traced run of the generated directory: it succeeds, all constraints hold, the native trace is
  the recorded one, and the address space suffices.
\<close>

lemma vkd_random_traced:
  fixes hl :: "'f::field hash_lib"
  assumes hl: "hash_lib_ok hl" and cd: "vkd_codec_ok cd" and ch: "char_above TYPE('f) (2 ^ 216)"
    and size: "4 \<le> vp_log_num_subcircuits params" "vp_log_num_subcircuits params < 20"
    and distinct: "user_index hl random_name \<noteq> user_index hl genesis_name"
    and pp: "hash_leaf hl initial_leaf_value = Inr (vp_null_leaf params)"
  obtains vc s where "vkd_random hl cd params = Inr vc" "vc_params vc = params"
    "length (vc_subcircuits vc) = vkd_num_subcircuits vc"
    "rom_setup_run (map (vkd_generate_constraints hl cd vc) [0..<vkd_num_subcircuits vc]) setup_rom_new = Inr (True, s)"
    "vkd_get_portal_subtraces hl cd vc = Inr (map (map RomEntry) (sr_subtraces s))"
    "card (dom (sr_var_map s)) < 2 ^ 64 - 1" "concat (sr_subtraces s) \<noteq> []"
proof -
  obtain vc h where vc: "vkd_random hl cd params = Inr vc" "circuit_wf cd vc" "vc_params vc = params"
    "length (vc_subcircuits vc) = vkd_num_subcircuits vc" "vkd_verify hl vc (vp_null_leaf params) = Inr True"
    "history (vc_update vc) ({}, {}) = Some h" "length (vc_update vc) \<le> 65536"
    by (rule vkd_random_circuit [OF hl size distinct pp])
  let ?ps = "map (vkd_generate_constraints hl cd vc) [0..<length (vc_subcircuits vc)]"
  obtain s where s: "rom_setup_run ?ps setup_rom_new = Inr (True, s)"
    using circuit_refines [OF hl cd ch vc(2)] vc(3,5,6) by auto
  have trace: "vkd_get_portal_subtraces hl cd vc = Inr (map (map RomEntry) (sr_subtraces s))"
    using native_trace_agrees [OF hl vc(2)] s by (auto split: sum.splits)
  have gen: "?ps = map (prims_constraints hl cd vc) (compiled cd (vc_update vc))"
    by (simp only: generate_constraints_all) (simp add: circuit_wf_subcircuits [OF vc(2)])
  have "finite (dom (sr_var_map (setup_rom_new :: 'f setup_rom)))" "dom (sr_var_map (setup_rom_new :: 'f setup_rom)) = {}"
    by (simp_all add: setup_rom_new_def)
  with setup_run_size [OF s [unfolded gen]] have "card (dom (sr_var_map s)) \<le> 4 * length (concat (compiled cd (vc_update vc)))"
    by simp
  moreover have "length (concat (compiled cd (vc_update vc))) \<le> 11 * 65536 + 8"
    by (rule order_trans [OF length_concat_compiled]) (use vc(7) in simp)
  then have "4 * length (concat (compiled cd (vc_update vc))) < 2 ^ 64 - 1" by (simp del: length_concat)
  ultimately have cap: "card (dom (sr_var_map s)) < 2 ^ 64 - 1" by (rule le_less_trans)
  have "eval_prims hl cd vc (concat (compiled cd (vc_update vc))) Map.empty = Inr (True, setup_rom_store s)"
    using setup_run_eval [of hl cd vc "compiled cd (vc_update vc)" setup_rom_new] s gen by simp
  then have "setup_rom_store s (node_name InitialRoot) \<noteq> None" using eval_keeps_root vc(2) by (auto simp: circuit_wf_def)
  then have "concat (sr_subtraces s) \<noteq> []" by (rule rom_setup_run_nonempty [OF s])
  then show thesis using that vc(1,3,4) s trace cap by simp
qed

text \<open>
  C1: The key directory works end to end. Take the directory that \<open>random\<close> generates, for \<open>2 ^ 4\<close> up to
  \<open>2 ^ 19\<close> subcircuits: the coordinator traces it natively, collects any stage 0 responses, builds the
  execution tree and issues the requests of every subcircuit without failing, and each worker that
  answers them, starting from its own cached copy and the serialised witnesses, ends with a satisfied
  stage 1 constraint system.
\<close>

theorem vkd_end_to_end:
  fixes hl :: "'f::field hash_lib"
  assumes "hash_lib_ok hl" and "vkd_codec_ok cd" and "char_above TYPE('f) (2 ^ 216)"
    and "4 \<le> vp_log_num_subcircuits params" "vp_log_num_subcircuits params < 20"
    and "user_index hl (replicate 32 8) \<noteq> user_index hl (replicate 32 0)"
    and "hash_leaf hl initial_leaf_value = Inr (vp_null_leaf params)"
    and "merkle_complete ml" and "\<forall>ls. length ls = 2 ^ vp_log_num_subcircuits params \<longrightarrow> mt_new ml ls \<noteq> None"
    and "commit_left (map s0_com (sort_key s0_idx resps)) = Inr super_com"
  shows "\<exists>vc st0 st1. vkd_random hl cd params = Inr vc \<and> coordinator0_new (vkd_ops hl cd) vc = Inr st0
     \<and> process_stage0_responses sha256 ser ml Rom commit_left resps st0 = Inr st1
     \<and> (\<forall>i < 2 ^ vp_log_num_subcircuits params. \<exists>req0 req1.
           gen_request0 st0 i = Inr req0 \<and> gen_request1 Rom st1 i = Inr req1
           \<and> result_map snd (process_stage1_request (vkd_ops hl cd) ml (\<lambda>s cb. Inr (commit s cb)) (\<lambda>cb cs rs. Inr (prove cb cs rs)) req0 resp0 req1) = Inr True)"
proof -
  let ?ops = "vkd_ops hl cd" and ?n = "2 ^ vp_log_num_subcircuits params"
  obtain vc s where vc: "vkd_random hl cd params = Inr vc" "vc_params vc = params"
    "length (vc_subcircuits vc) = vkd_num_subcircuits vc"
    "rom_setup_run (map (vkd_generate_constraints hl cd vc) [0..<vkd_num_subcircuits vc]) setup_rom_new = Inr (True, s)"
    "vkd_get_portal_subtraces hl cd vc = Inr (map (map RomEntry) (sr_subtraces s))"
    "card (dom (sr_var_map s)) < 2 ^ 64 - 1" "concat (sr_subtraces s) \<noteq> []"
    by (rule vkd_random_traced [OF assms(1-7)])
  have n: "op_num_subcircuits ?ops vc = ?n" "vkd_num_subcircuits vc = ?n"
    using vc(2) by (simp_all add: vkd_num_subcircuits_def)
  have contract: "\<forall>i < ?n. witness_contract ?ops vc i"
    using vkd_witness_contract [OF assms(2), of hl vc] vc(1-3) n(2) by simp
  have run: "rom_setup_run (map (op_generate ?ops vc) [0..<?n]) setup_rom_new = Inr (True, s)" using vc(4) n(2) by simp
  have "op_mem_type ?ops = Rom" "op_portal_subtraces ?ops vc = Inr (map (map RomEntry) (sr_subtraces s))"
    using vc(5) by simp_all
  from rom_protocol_run [where commit_left = commit_left and resps = resps and ?sha256.0 = sha256 and ser = ser
      and commit = commit and prove = prove and ?resp0.0 = resp0,
      OF this(1) n(1) run this(2) vc(6,7) contract assms(8-10)] vc(1) show ?thesis by blast
qed

section \<open>Instances\<close>

text \<open>One append on a path of zeros, verified against its own roots.\<close>

definition toy_append :: vkd_append where
  "toy_append = \<lparr>va_username = replicate 32 1, va_key = replicate 32 2, va_path = replicate 128 (replicate 27 0)\<rparr>"

definition toy_vkd :: vkd_circuit where
  "toy_vkd = \<lparr>vc_initial_root = replicate 27 1, vc_params = \<lparr>vp_log_num_subcircuits = 4, vp_null_leaf = replicate 27 0\<rparr>,
     vc_final_root = replicate 27 2, vc_update = [Append toy_append],
     vc_subcircuits = map (\<lambda>ps. \<lparr>compound_primitive_vec = ps\<rparr>) (compiled toy_codec [Append toy_append])\<rparr>"

lemma toy_vkd_wf: "circuit_wf toy_codec toy_vkd"
proof -
  have "update_wf (Append toy_append)" "length (update_path (Append toy_append)) = vkd_depth"
    by (simp_all add: toy_append_def vkd_depth_def)
  then show ?thesis
    using vkd_update_to_subcircuit_eq [of "[Append toy_append]" toy_codec]
    by (simp add: circuit_wf_def toy_vkd_def roots_wf_def inner_hash_size_def)
qed

theorem vkd_circuit_refines_verification_witness:
  "\<exists>ok s. rom_setup_run (map (vkd_generate_constraints toy_hash_lib toy_codec toy_vkd) [0..<length (vc_subcircuits toy_vkd)])
       setup_rom_new = Inr (ok, s)
     \<and> vkd_verify toy_hash_lib toy_vkd (vp_null_leaf (vc_params toy_vkd)) = Inr ok"
proof -
  have "history (vc_update toy_vkd) ({}, {}) = Some ({append_leaf toy_append}, {va_username toy_append})"
    by (simp add: toy_vkd_def)
  with vkd_circuit_refines_verification [OF toy_hash_lib_ok toy_codec_ok char_above_char_0 toy_vkd_wf]
  show ?thesis by simp
qed

theorem vkd_native_trace_matches_witness:
  "\<exists>trs ok s. vkd_get_portal_subtraces toy_hash_lib toy_codec toy_vkd = Inr trs
     \<and> rom_setup_run (map (vkd_generate_constraints toy_hash_lib toy_codec toy_vkd) [0..<length (vc_subcircuits toy_vkd)])
         setup_rom_new = Inr (ok, s) \<and> trs = map (map RomEntry) (sr_subtraces s)"
proof -
  have "history (vc_update toy_vkd) ({}, {}) = Some ({append_leaf toy_append}, {va_username toy_append})"
    by (simp add: toy_vkd_def)
  with circuit_refines [OF toy_hash_lib_ok toy_codec_ok char_above_char_0 toy_vkd_wf] obtain ok s where
    "rom_setup_run (map (vkd_generate_constraints toy_hash_lib toy_codec toy_vkd) [0..<length (vc_subcircuits toy_vkd)])
       setup_rom_new = Inr (ok, s)" by auto
  with vkd_native_trace_matches [OF toy_hash_lib_ok toy_vkd_wf] show ?thesis
    by (auto split: sum.splits)
qed

theorem vkd_end_to_end_witness:
  "\<exists>pp vc st0 st1 req0 req1. vkd_random toy_hash_lib toy_codec \<lparr>vp_log_num_subcircuits = 5, vp_null_leaf = pp\<rparr> = Inr vc
     \<and> coordinator0_new (vkd_ops toy_hash_lib toy_codec) vc = Inr st0
     \<and> process_stage0_responses (\<lambda>_. [3]) (\<lambda>_. []) flat_merkle Rom (\<lambda>_. Inr ())
          ([] :: (unit, unit) stage0_response list) st0 = Inr st1
     \<and> gen_request0 st0 19 = Inr req0 \<and> gen_request1 Rom st1 19 = Inr req1
     \<and> result_map snd (process_stage1_request (vkd_ops toy_hash_lib toy_codec) flat_merkle (\<lambda>s cb. Inr ((), ()))
          (\<lambda>cb cs rs. Inr ()) req0 \<lparr>s0_idx = 19, s0_com = (), s0_seed = ()\<rparr> req1) = Inr True"
proof -
  obtain pp where pp: "hash_leaf toy_hash_lib initial_leaf_value = Inr pp"
    using hash_leaf_total [OF toy_hash_lib_ok] by blast
  let ?params = "\<lparr>vp_log_num_subcircuits = 5, vp_null_leaf = pp\<rparr>"
  have p: "4 \<le> vp_log_num_subcircuits ?params" "vp_log_num_subcircuits ?params < 20"
    "hash_leaf toy_hash_lib initial_leaf_value = Inr (vp_null_leaf ?params)" using pp by simp_all
  have new: "\<forall>ls. length ls = 2 ^ vp_log_num_subcircuits ?params \<longrightarrow> mt_new flat_merkle ls \<noteq> None" by (simp add: flat_merkle_def)
  from vkd_end_to_end [where commit_left = "\<lambda>_. Inr ()" and super_com = "()" and resps = "[] :: (unit, unit) stage0_response list"
      and ?sha256.0 = "\<lambda>_. [3]" and ser = "\<lambda>_. []" and commit = "\<lambda>s cb. ((), ())" and prove = "\<lambda>cb cs rs. ()"
      and ?resp0.0 = "\<lparr>s0_idx = 19, s0_com = (), s0_seed = ()\<rparr>",
      OF toy_hash_lib_ok toy_codec_ok char_above_char_0 p(1,2) toy_names_distinct p(3) flat_merkle_complete new refl]
  obtain vc st0 st1 where r: "vkd_random toy_hash_lib toy_codec ?params = Inr vc"
    "coordinator0_new (vkd_ops toy_hash_lib toy_codec) vc = Inr st0"
    "process_stage0_responses (\<lambda>_. [3]) (\<lambda>_. []) flat_merkle Rom (\<lambda>_. Inr ()) ([] :: (unit, unit) stage0_response list) st0 = Inr st1"
    "\<And>i. i < 2 ^ vp_log_num_subcircuits ?params \<Longrightarrow> \<exists>req0 req1. gen_request0 st0 i = Inr req0 \<and> gen_request1 Rom st1 i = Inr req1
       \<and> result_map snd (process_stage1_request (vkd_ops toy_hash_lib toy_codec) flat_merkle (\<lambda>s cb. Inr ((), ()))
          (\<lambda>cb cs rs. Inr ()) req0 \<lparr>s0_idx = 19, s0_com = (), s0_seed = ()\<rparr> req1) = Inr True"
    by auto
  from r(4) [of 19] r(1-3) show ?thesis by (simp del: power.simps) blast
qed

theorem vkd_cache_transparent_witness:
  "\<exists>c. rfold (\<lambda>p c. result_map snd (vkd_get_or_init toy_hash_lib toy_codec p c)) [] vkd_cache_new = Inr c
     \<and> result_map fst (vkd_get_or_init toy_hash_lib toy_codec \<lparr>vp_log_num_subcircuits = 3, vp_null_leaf = []\<rparr> c)
        = vkd_random toy_hash_lib toy_codec \<lparr>vp_log_num_subcircuits = 3, vp_null_leaf = []\<rparr>"
  using vkd_cache_transparent [of toy_hash_lib toy_codec "[]" vkd_cache_new] by simp

theorem vkd_witnesses_roundtrip_witness:
  "\<exists>w vc. vkd_get_serialized_witnesses toy_codec toy_vkd 7 = Inr w
     \<and> vkd_set_serialized_witnesses toy_codec 7 w (toy_vkd\<lparr>vc_subcircuits := replicate 16 (single PaddingPrimitive)\<rparr>) = Inr vc
     \<and> vkd_generate_constraints toy_hash_lib toy_codec vc 7 = vkd_generate_constraints toy_hash_lib toy_codec toy_vkd 7"
proof -
  have "7 < length (vc_subcircuits toy_vkd)" by (simp add: toy_vkd_def length_compiled)
  from vkd_witnesses_roundtrip [OF toy_codec_ok this, of "toy_vkd\<lparr>vc_subcircuits := replicate 16 (single PaddingPrimitive)\<rparr>" toy_hash_lib]
  show ?thesis by auto
qed

theorem vkd_unique_out_of_range_witness:
  "vkd_generate_constraints toy_hash_lib toy_codec toy_vkd 19 = Fail (Panic ''index out of bounds'')"
  using vkd_unique_out_of_range [of toy_vkd toy_hash_lib toy_codec]
  by (simp add: toy_vkd_def length_compiled vkd_num_subcircuits_def)

definition toy_vkd3 :: vkd_circuit where
  "toy_vkd3 = (let us = [Append toy_append, Update vkd_update_default, Update vkd_update_default] in
     \<lparr>vc_initial_root = replicate 27 1, vc_params = \<lparr>vp_log_num_subcircuits = 5, vp_null_leaf = replicate 27 0\<rparr>,
      vc_final_root = replicate 27 2, vc_update = us,
      vc_subcircuits = map (\<lambda>ps. \<lparr>compound_primitive_vec = ps\<rparr>) (compiled toy_codec us)\<rparr>)"

lemma toy_vkd3_wf: "circuit_wf toy_codec toy_vkd3"
proof -
  let ?us = "[Append toy_append, Update vkd_update_default, Update vkd_update_default]"
  have "\<forall>u \<in> set ?us. update_wf u \<and> length (update_path u) = vkd_depth"
    by (simp add: toy_append_def vkd_update_default_def path_default_def vkd_depth_def)
  then show ?thesis
    using vkd_update_to_subcircuit_eq [of ?us toy_codec]
    by (simp add: circuit_wf_def toy_vkd3_def roots_wf_def inner_hash_size_def Let_def)
qed

theorem vkd_representative_sound_witness:
  "\<exists>r. vkd_representative_subcircuit toy_vkd3 27 = Inr r \<and> r \<in> {0, 6, 7, 8, 10, 19, 31}
     \<and> subcircuit_get_type (vc_subcircuits toy_vkd3 ! r) = subcircuit_get_type (vc_subcircuits toy_vkd3 ! 27)"
proof -
  have num: "vkd_num_subcircuits toy_vkd3 = 32" by (simp add: toy_vkd3_def vkd_num_subcircuits_def Let_def)
  have v: "vc_update toy_vkd3 = [Append toy_append, Update vkd_update_default, Update vkd_update_default]"
    "length (vc_subcircuits toy_vkd3) = vkd_num_subcircuits toy_vkd3" "27 < vkd_num_subcircuits toy_vkd3"
    by (simp_all add: num) (simp_all add: toy_vkd3_def length_compiled Let_def)
  from vkd_representative_sound [OF toy_vkd3_wf v] show ?thesis
    by (simp add: vkd_unique_subcircuits_def num) blast
qed

end
