(* ===== verification/Tree_Math.thy ===== *)
theory Tree_Math
  imports Util
begin

text \<open>
  The tree arithmetic of \<open>distributed-prover/src/tree_hash_circuit.rs\<close>: nodes of a perfect binary
  tree are numbered from left to right (in-order), subcircuits level by level. Node numbers are
  32-bit words, as in the code; a shift by \<open>32\<close> or more is the panic of a checked build. The lemmas
  give the node of a subcircuit in closed form, for trees of at most \<open>2 ^ 30\<close> leaves.
\<close>

unbundle bit_operations_syntax

section \<open>Nodes\<close>

definition u32_shl :: "u32 \<Rightarrow> nat \<Rightarrow> failure + u32" where
  "u32_shl x k = (if k < 32 then Inr (push_bit k x) else Inl (Panic ''attempt to shift left with overflow''))"

definition trailing_ones :: "u32 \<Rightarrow> nat" where
  "trailing_ones w = length (takeWhile id (map (bit w) [0..<32]))"

definition level :: "u32 \<Rightarrow> nat" where
  "level node = trailing_ones node"

definition left_child :: "u32 \<Rightarrow> failure + u32" where
  "left_child node =
     (let k = level node in
      rbind (ensure ''cannot compute the child of a level-0 node'' (k \<noteq> 0)) (\<lambda>_.
      rbind (u32_shl 1 (k - 1)) (\<lambda>s. Inr (node XOR s))))"

definition right_child :: "u32 \<Rightarrow> failure + u32" where
  "right_child node =
     (let k = level node in
      rbind (ensure ''cannot compute the child of a level-0 node'' (k \<noteq> 0)) (\<lambda>_.
      rbind (u32_shl 3 (k - 1)) (\<lambda>s. Inr (node XOR s))))"

definition num_internal_nodes :: "nat \<Rightarrow> nat" where
  "num_internal_nodes num_leaves = (if num_leaves < 2 then 0 else 2 * (num_leaves - 1) + 1)"

definition root_idx :: "nat \<Rightarrow> failure + u32" where
  "root_idx num_leaves =
     (let w = num_internal_nodes num_leaves in rbind (log2 w) (\<lambda>l. rbind (u32_shl 1 l) (\<lambda>s. Inr (s - 1))))"

section \<open>The node of a subcircuit\<close>

text \<open>
  The two nested loops. \<open>Inr (Inl i)\<close> means that the loop has ended with the counter at \<open>i\<close>,
  \<open>Inr (Inr node)\<close> that it has returned early.
\<close>

fun upper_loop :: "nat \<Rightarrow> u32 \<Rightarrow> nat \<Rightarrow> u32 list \<Rightarrow> nat \<Rightarrow> failure + (nat + u32)" where
  "upper_loop lv ones subcircuit_idx [] i = Inr (Inl i)"
| "upper_loop lv ones subcircuit_idx (upper_half # us) i =
     rbind (u32_shl upper_half (lv + 1)) (\<lambda>s.
     let node_idx = s + ones in
     if i = subcircuit_idx then Inr (Inr node_idx) else upper_loop lv ones subcircuit_idx us (i + 1))"

fun level_loop :: "nat \<Rightarrow> nat \<Rightarrow> nat list \<Rightarrow> nat \<Rightarrow> failure + (nat + u32)" where
  "level_loop subcircuit_idx num_leaves [] i = Inr (Inl i)"
| "level_loop subcircuit_idx num_leaves (lv # lvs) i =
     rbind (rbind (log2 num_leaves) (\<lambda>l. usub l lv)) (\<lambda>upper_half_size.
     rbind (u32_shl 1 lv) (\<lambda>p.
     let ones = p - 1 in
     rbind (u32_shl 1 upper_half_size) (\<lambda>n.
     rbind (upper_loop lv ones subcircuit_idx (map word_of_nat [0..<unat n]) i) (\<lambda>r. case r of
         Inr node_idx \<Rightarrow> Inr (Inr node_idx)
       | Inl i \<Rightarrow> level_loop subcircuit_idx num_leaves lvs i))))"

definition subcircuit_idx_to_node_idx :: "nat \<Rightarrow> nat \<Rightarrow> failure + u32" where
  "subcircuit_idx_to_node_idx subcircuit_idx num_leaves =
     rbind (root_idx num_leaves) (\<lambda>rt.
     rbind (level_loop subcircuit_idx num_leaves [0..<level rt + 1] 0) (\<lambda>r. case r of
         Inr node_idx \<Rightarrow> Inr node_idx
       | Inl _ \<Rightarrow> Inl (Panic ''invalid subcircuit idx'')))"

section \<open>Closed forms\<close>

text \<open>The \<open>u\<close>-th node, from the left, of level \<open>l\<close>.\<close>

definition node_at :: "nat \<Rightarrow> nat \<Rightarrow> u32" where
  "node_at l u = word_of_nat (u * 2 ^ (l + 1) + (2 ^ l - 1))"

lemma bit_node_nat: "bit (u * 2 ^ (l + 1) + (2 ^ l - 1) :: nat) i \<longleftrightarrow> i < l \<or> (l < i \<and> bit u (i - (l + 1)))"
proof -
  have "(push_bit (l + 1) u AND mask l :: nat) = 0"
    by (rule bit_eqI) (auto simp: bit_and_iff bit_push_bit_iff bit_mask_iff)
  then have "(u * 2 ^ (l + 1) + (2 ^ l - 1) :: nat) = push_bit (l + 1) u OR mask l"
    by (simp only: push_bit_eq_mult mask_eq_exp_minus_1 flip: disjunctive_add_eq_or)
  then show ?thesis by (auto simp only: bit_or_iff bit_push_bit_iff bit_mask_iff possible_bit_nat)
qed

lemma bit_node_at: "bit (node_at l u) i \<longleftrightarrow> i < 32 \<and> (i < l \<or> (l < i \<and> bit u (i - (l + 1))))"
  unfolding node_at_def bit_of_nat_iff bit_node_nat by (simp only: possible_bit_word) simp

lemma level_node_at: "l < 32 \<Longrightarrow> level (node_at l u) = l"
proof -
  assume l: "l < 32"
  have upt: "[0..<32] = [0..<l] @ l # [Suc l..<32]"
    using upt_add_eq_append [of 0 l "32 - l"] upt_conv_Cons [of l 32] l by simp
  have "takeWhile id (map (bit (node_at l u)) [0..<32]) = map (bit (node_at l u)) [0..<l]"
    unfolding upt using l by (simp add: bit_node_at takeWhile_tail)
  then show ?thesis by (simp add: level_def trailing_ones_def)
qed

lemma node_at_child_bits:
  assumes "i < 32"
  shows "bit (node_at (Suc l) u) i \<noteq> (i = l) \<longleftrightarrow> bit (node_at l (2 * u)) i"
    and "bit (node_at (Suc l) u) i \<noteq> (i = l \<or> i = Suc l) \<longleftrightarrow> bit (node_at l (2 * u + 1)) i"
proof -
  have suc: "bit (2 * u) (Suc j) = bit u j" "bit (2 * u + 1) (Suc j) = bit u j" for j
    by (simp_all add: bit_Suc)
  consider "i < l" | "i = l" | "i = Suc l" | j where "i = Suc (Suc (l + j))"
    by (metis less_imp_Suc_add linorder_neqE_nat not_less_eq)
  then show "bit (node_at (Suc l) u) i \<noteq> (i = l) \<longleftrightarrow> bit (node_at l (2 * u)) i"
    "bit (node_at (Suc l) u) i \<noteq> (i = l \<or> i = Suc l) \<longleftrightarrow> bit (node_at l (2 * u + 1)) i"
    by (cases; use assms in \<open>simp add: bit_node_at bit_0 suc [simplified]\<close>)+
qed

lemma left_child_node_at:
  assumes "l < 31"
  shows "left_child (node_at (Suc l) u) = Inr (node_at l (2 * u))"
proof -
  have "node_at (Suc l) u XOR push_bit l 1 = node_at l (2 * u)"
  proof (rule bit_word_eqI)
    fix i assume "i < LENGTH(32)"
    then have i: "i < 32" by simp
    have "bit (push_bit l 1 :: u32) i \<longleftrightarrow> i = l" using i by (auto simp: bit_push_bit_iff bit_1_iff possible_bit_word simp del: push_bit_of_1)
    then show "bit (node_at (Suc l) u XOR push_bit l 1) i = bit (node_at l (2 * u)) i"
      using node_at_child_bits(1) [OF i] by (simp only: bit_xor_iff)
  qed
  with assms show ?thesis by (simp add: left_child_def level_node_at u32_shl_def)
qed

lemma right_child_node_at:
  assumes "l < 31"
  shows "right_child (node_at (Suc l) u) = Inr (node_at l (2 * u + 1))"
proof -
  have "node_at (Suc l) u XOR push_bit l 3 = node_at l (2 * u + 1)"
  proof (rule bit_word_eqI)
    fix i assume "i < LENGTH(32)"
    then have i: "i < 32" by simp
    have three: "(3 :: u32) = mask 2" by (simp add: mask_eq_exp_minus_1)
    have "bit (push_bit l 3 :: u32) i \<longleftrightarrow> i = l \<or> i = Suc l"
      using i unfolding three by (auto simp: bit_push_bit_iff bit_mask_iff)
    then show "bit (node_at (Suc l) u XOR push_bit l 3) i = bit (node_at l (2 * u + 1)) i"
      using node_at_child_bits(2) [OF i] by (simp only: bit_xor_iff)
  qed
  with assms show ?thesis by (simp add: right_child_def level_node_at u32_shl_def)
qed

lemma root_idx_power: "k \<le> 30 \<Longrightarrow> root_idx (2 ^ k) = Inr (node_at k 0)"
proof -
  assume k: "k \<le> 30"
  have "log2 (num_internal_nodes (2 ^ k)) = Inr k"
  proof (cases "k = 0")
    case False
    then have "2 \<le> (2 :: nat) ^ k" by (cases k) simp_all
    then show ?thesis using k by (intro log2_unique) (simp_all add: num_internal_nodes_def)
  qed (simp add: num_internal_nodes_def)
  moreover have "push_bit k 1 - 1 = node_at k 0"
    by (simp add: node_at_def push_bit_eq_mult of_nat_diff)
  ultimately show ?thesis using k by (simp add: root_idx_def u32_shl_def)
qed

section \<open>The order of the subcircuits\<close>

text \<open>The nodes of a tree of \<open>2 ^ k\<close> leaves as (level, position) pairs, level by level.\<close>

definition level_nodes :: "nat \<Rightarrow> nat \<Rightarrow> (nat \<times> nat) list" where
  "level_nodes k l = map (Pair l) [0..<2 ^ (k - l)]"

definition tree_nodes :: "nat \<Rightarrow> (nat \<times> nat) list" where
  "tree_nodes k = concat (map (level_nodes k) [0..<Suc k])"

abbreviation node_of :: "nat \<times> nat \<Rightarrow> u32" where
  "node_of n \<equiv> node_at (fst n) (snd n)"

lemma length_level_nodes [simp]: "length (level_nodes k l) = 2 ^ (k - l)"
  by (simp add: level_nodes_def)

lemma in_level_nodes [simp]: "n \<in> set (level_nodes k l) \<longleftrightarrow> fst n = l \<and> snd n < 2 ^ (k - l)"
  by (cases n) (auto simp: level_nodes_def)

lemma in_tree_nodes [simp]: "n \<in> set (tree_nodes k) \<longleftrightarrow> fst n \<le> k \<and> snd n < 2 ^ (k - fst n)"
  by (auto simp: tree_nodes_def less_Suc_eq_le simp del: upt_Suc)

lemma length_levels:
  "m \<le> Suc k \<Longrightarrow> length (concat (map (level_nodes k) [0..<m])) + 2 ^ (Suc k - m) = 2 ^ Suc k"
proof (induction m)
  case (Suc m)
  then have "Suc k - m = Suc (k - m)" by simp
  then have "(2 :: nat) ^ (Suc k - m) = 2 ^ (k - m) + 2 ^ (k - m)" by simp
  with Suc show ?case by simp
qed simp

lemma length_tree_nodes: "length (tree_nodes k) = 2 ^ Suc k - 1"
proof -
  have "length (tree_nodes k) + 1 = 2 ^ Suc k" using length_levels [of "Suc k" k] by (simp add: tree_nodes_def)
  then show ?thesis by simp
qed

lemma tree_nodes_nonempty [simp]: "tree_nodes k \<noteq> []"
proof -
  have "(k, 0) \<in> set (tree_nodes k)" by simp
  then show ?thesis by (metis empty_iff empty_set)
qed

lemma tree_nodes_parts: "tree_nodes k = level_nodes k 0 @ concat (map (level_nodes k) [1..<k]) @ (if k = 0 then [] else [(k, 0)])"
proof (cases k)
  case (Suc k')
  have "[0..<Suc k] = 0 # [1..<k] @ [k]" using Suc by (simp add: upt_conv_Cons)
  then show ?thesis using Suc by (simp add: tree_nodes_def level_nodes_def)
qed (simp add: tree_nodes_def)

lemma tree_nodes_leaf: "i < 2 ^ k \<Longrightarrow> tree_nodes k ! i = (0, i)"
  by (subst tree_nodes_parts) (simp add: nth_append, simp add: level_nodes_def)

lemma distinct_tree_nodes: "distinct (tree_nodes k)"
  unfolding tree_nodes_def
proof (rule distinct_concat)
  have "level_nodes k l \<noteq> []" for l by (metis length_level_nodes list.size(3) power_not_zero zero_neq_numeral)
  moreover have "hd (level_nodes k l) = (l, 0)" for l by (simp add: level_nodes_def hd_map)
  ultimately have "inj (level_nodes k)" by (metis fst_conv injI)
  from inj_on_subset [OF this subset_UNIV]
  show "distinct (map (level_nodes k) [0..<Suc k])" by (simp add: distinct_map del: upt_Suc)
qed (auto simp: level_nodes_def distinct_map inj_on_def)

lemma sorted_tree_nodes: "sorted (map fst (tree_nodes k))"
proof -
  have "sorted (map fst (concat (map (level_nodes k) [0..<m])))" for m
    by (induction m) (auto simp: sorted_append level_nodes_def sorted_map)
  then show ?thesis by (simp only: tree_nodes_def)
qed

text \<open>Children come before their parents.\<close>

lemma children_first:
  assumes "tree_nodes k = xs @ (Suc l, u) # ys"
  shows "(l, 2 * u) \<in> set xs" "(l, 2 * u + 1) \<in> set xs"
proof -
  have "(Suc l, u) \<in> set (tree_nodes k)" using assms by simp
  then have n: "l < k" "u < 2 ^ (k - Suc l)" by simp_all
  then have "k - l = Suc (k - Suc l)" by simp
  then have "(2 :: nat) ^ (k - l) = 2 * 2 ^ (k - Suc l)" by simp
  with n have "2 * u < 2 ^ (k - l)" "2 * u + 1 < 2 ^ (k - l)" by linarith+
  then have "(l, 2 * u) \<in> set (tree_nodes k)" "(l, 2 * u + 1) \<in> set (tree_nodes k)" using n by simp_all
  moreover have "Suc l \<le> fst n" if "n \<in> set ((Suc l, u) # ys)" for n
    using sorted_tree_nodes [of k] that unfolding assms by (auto simp: sorted_append)
  ultimately show "(l, 2 * u) \<in> set xs" "(l, 2 * u + 1) \<in> set xs"
    unfolding assms set_append using not_less_eq_eq by fastforce+
qed

lemma node_bound:
  assumes "n \<in> set (tree_nodes k)"
  shows "snd n * 2 ^ (fst n + 1) + (2 ^ fst n - 1) < 2 ^ Suc k - 1"
proof -
  have "Suc (snd n) * 2 ^ (fst n + 1) \<le> 2 ^ (k - fst n) * 2 ^ (fst n + 1)"
    using assms by (intro mult_right_mono) auto
  also have "\<dots> = 2 ^ Suc k" using assms by (simp flip: power_add)
  finally have "snd n * 2 ^ (fst n + 1) + 2 ^ (fst n + 1) \<le> 2 ^ Suc k" by simp
  moreover have "(2 :: nat) ^ (fst n + 1) = 2 ^ fst n + 2 ^ fst n" "0 < (2 :: nat) ^ fst n" by simp_all
  ultimately show ?thesis by linarith
qed

lemma unat_small: "m < 2 ^ 32 \<Longrightarrow> unat (word_of_nat m :: u32) = m"
  by (simp add: unsigned_of_nat take_bit_nat_eq_self)

lemma unat_node_of:
  assumes "n \<in> set (tree_nodes k)" and "k \<le> 30"
  shows "unat (node_of n) = snd n * 2 ^ (fst n + 1) + (2 ^ fst n - 1)"
proof -
  have "(2 :: nat) ^ Suc k \<le> 2 ^ 31" using assms(2) by (intro power_increasing) simp_all
  with node_bound [OF assms(1)] have "snd n * 2 ^ (fst n + 1) + (2 ^ fst n - 1) < 2 ^ 32" by simp
  then show ?thesis unfolding node_at_def by (rule unat_small)
qed

lemma node_of_inj:
  assumes "n \<in> set (tree_nodes k)" "n' \<in> set (tree_nodes k)" and "k \<le> 30"
  shows "node_of n = node_of n' \<longleftrightarrow> n = n'"
proof
  assume eq: "node_of n = node_of n'"
  then have "fst n = fst n'" using assms level_node_at by (metis in_tree_nodes le_less_trans order.trans numeral_less_iff le_less_trans semiring_norm(76) semiring_norm(78) semiring_norm(81))
  moreover have "snd n * 2 ^ (fst n + 1) + (2 ^ fst n - 1) = snd n' * 2 ^ (fst n' + 1) + (2 ^ fst n' - 1)"
    using eq unat_node_of [OF assms(1,3)] unat_node_of [OF assms(2,3)] by argo
  ultimately have "snd n * 2 ^ (fst n + 1) = snd n' * 2 ^ (fst n + 1)" by (simp only: add_right_cancel)
  then have "snd n = snd n'" by (simp only: mult_cancel2) simp
  with \<open>fst n = fst n'\<close> show "n = n'" by (simp add: prod_eq_iff)
qed simp

text \<open>The loops run through the nodes in this order.\<close>

lemma upper_loop_eq:
  "lv < 31 \<Longrightarrow> upper_loop lv ones s us i =
     (if i \<le> s \<and> s < i + length us then Inr (Inr (push_bit (lv + 1) (us ! (s - i)) + ones)) else Inr (Inl (i + length us)))"
proof (induction us arbitrary: i)
  case (Cons u us)
  have "s - i = Suc (s - Suc i)" if "Suc i \<le> s" using that by simp
  with Cons show ?case by (auto simp: u32_shl_def le_Suc_eq Suc_le_eq)
qed simp

lemma push_bit_node_at: "push_bit (l + 1) (word_of_nat u) + (push_bit l 1 - 1) = node_at l u"
proof -
  have "(word_of_nat (2 ^ l - 1) :: u32) = 2 ^ l - 1" by (simp add: of_nat_diff)
  then show ?thesis by (simp only: node_at_def of_nat_add of_nat_mult of_nat_power push_bit_eq_mult of_nat_numeral mult_1_left)
qed

lemma level_loop_eq:
  assumes "k \<le> 30"
  shows "\<forall>l \<in> set lvs. l \<le> k \<Longrightarrow> level_loop s (2 ^ k) lvs i =
     (let ns = concat (map (level_nodes k) lvs) in
      if i \<le> s \<and> s < i + length ns then Inr (Inr (node_of (ns ! (s - i)))) else Inr (Inl (i + length ns)))"
proof (induction lvs arbitrary: i)
  case (Cons l lvs)
  let ?us = "map word_of_nat [0..<2 ^ (k - l)] :: u32 list"
  have l: "l \<le> k" "l < 31" using Cons.prems assms by auto
  have n: "unat (push_bit (k - l) 1 :: u32) = 2 ^ (k - l)"
  proof -
    have "(2 :: nat) ^ (k - l) < 2 ^ 32" using assms by (intro power_strict_increasing) auto
    moreover have "(push_bit (k - l) 1 :: u32) = word_of_nat (2 ^ (k - l))" by (simp add: push_bit_eq_mult)
    ultimately show ?thesis by (simp only: unat_small)
  qed
  have up: "upper_loop l (push_bit l 1 - 1) s ?us i =
      (if i \<le> s \<and> s < i + 2 ^ (k - l) then Inr (Inr (node_at l (s - i))) else Inr (Inl (i + 2 ^ (k - l))))"
    by (simp only: upper_loop_eq [OF l(2)] length_map length_upt diff_zero) (auto simp del: of_nat_diff simp flip: push_bit_node_at)
  have step: "level_loop s (2 ^ k) (l # lvs) i =
      (if i \<le> s \<and> s < i + 2 ^ (k - l) then Inr (Inr (node_at l (s - i)))
       else level_loop s (2 ^ k) lvs (i + 2 ^ (k - l)))"
  proof -
    have "log2 (2 ^ k) = Inr k" "usub k l = Inr (k - l)" "u32_shl 1 l = Inr (push_bit l 1)" "u32_shl 1 (k - l) = Inr (push_bit (k - l) 1)"
      using l assms by (simp_all add: u32_shl_def)
    then show ?thesis by (simp only: level_loop.simps rbind_simps Let_def n up) simp
  qed
  have "i \<le> s \<Longrightarrow> s < i + 2 ^ (k - l) \<Longrightarrow> level_nodes k l ! (s - i) = (l, s - i)"
    by (simp add: level_nodes_def)
  then show ?case
    using Cons by (auto simp: step Let_def nth_append simp del: level_loop.simps)
qed simp

lemma node_idx_eq:
  assumes "k \<le> 30"
  shows "subcircuit_idx_to_node_idx s (2 ^ k) =
     (if s < length (tree_nodes k) then Inr (node_of (tree_nodes k ! s)) else Inl (Panic ''invalid subcircuit idx''))"
proof -
  have "level_loop s (2 ^ k) [0..<Suc k] 0 =
      (if s < length (tree_nodes k) then Inr (Inr (node_of (tree_nodes k ! s))) else Inr (Inl (length (tree_nodes k))))"
    using level_loop_eq [OF assms, of "[0..<Suc k]" s 0] by (simp add: tree_nodes_def Let_def less_Suc_eq_le del: upt_Suc)
  then show ?thesis
    using assms by (simp add: subcircuit_idx_to_node_idx_def root_idx_power level_node_at del: upt_Suc)
qed

text \<open>
  C22: Subcircuits and tree nodes correspond one to one, for trees of up to \<open>2 ^ 30\<close> leaves: every index
  below \<open>2 * num_leaves - 1\<close> has a node of its own, smaller than that bound, every other index
  panics, and the children of an inner node belong to earlier subcircuits: the levels are numbered from
  the leaves up to the root. (The comment above the function says from top to bottom.)
\<close>

theorem subcircuit_order:
  assumes "k \<le> 30"
  shows "(\<forall>i < 2 * 2 ^ k - 1. \<exists>w. subcircuit_idx_to_node_idx i (2 ^ k) = Inr w \<and> unat w < 2 * 2 ^ k - 1)
    \<and> (\<forall>i \<ge> 2 * 2 ^ k - 1. \<exists>e. subcircuit_idx_to_node_idx i (2 ^ k) = Inl e)
    \<and> (\<forall>i j w. subcircuit_idx_to_node_idx i (2 ^ k) = Inr w \<and> subcircuit_idx_to_node_idx j (2 ^ k) = Inr w \<longrightarrow> i = j)
    \<and> (\<forall>i w. subcircuit_idx_to_node_idx i (2 ^ k) = Inr w \<and> level w \<noteq> 0 \<longrightarrow>
         (\<exists>a < i. \<exists>b < i. left_child w = subcircuit_idx_to_node_idx a (2 ^ k)
             \<and> right_child w = subcircuit_idx_to_node_idx b (2 ^ k)))"
proof -
  let ?ns = "tree_nodes k" and ?idx = "\<lambda>i. subcircuit_idx_to_node_idx i (2 ^ k)"
  have len: "2 * 2 ^ k - 1 = length ?ns" by (simp add: length_tree_nodes)
  have idx: "?idx i = Inr w \<longleftrightarrow> i < length ?ns \<and> w = node_of (?ns ! i)" for i w
    using node_idx_eq [OF assms, of i] by auto
  have bound: "unat (node_of (?ns ! i)) < length ?ns" if "i < length ?ns" for i
    using node_bound [OF nth_mem [OF that]] unat_node_of [OF nth_mem [OF that] assms] by (simp add: length_tree_nodes)
  have inj: "i = j" if "i < length ?ns" "j < length ?ns" "node_of (?ns ! i) = node_of (?ns ! j)" for i j
    using node_of_inj [OF nth_mem [OF that(1)] nth_mem [OF that(2)] assms] that distinct_tree_nodes [of k]
    by (simp add: nth_eq_iff_index_eq)
  have children: "\<exists>a < i. \<exists>b < i. left_child w = ?idx a \<and> right_child w = ?idx b"
    if i: "i < length ?ns" and w: "w = node_of (?ns ! i)" "level w \<noteq> 0" for i w
  proof -
    have mem: "?ns ! i \<in> set ?ns" using i by (rule nth_mem)
    then have "fst (?ns ! i) < 32" using assms by simp
    then have "fst (?ns ! i) \<noteq> 0" using w level_node_at by metis
    then obtain l u where n: "?ns ! i = (Suc l, u)" by (metis not0_implies_Suc prod.collapse)
    have l: "l < 31" using mem n assms by simp
    have "?ns = take i ?ns @ (Suc l, u) # drop (Suc i) ?ns" using id_take_nth_drop [OF i] n by simp
    from children_first [OF this] obtain a b where ab: "a < i" "?ns ! a = (l, 2 * u)" "b < i" "?ns ! b = (l, 2 * u + 1)"
      using i by (auto simp: in_set_conv_nth)
    have "?idx a = Inr (node_at l (2 * u))" "?idx b = Inr (node_at l (2 * u + 1))" using ab i idx by auto
    then show ?thesis using ab(1,3) left_child_node_at [OF l] right_child_node_at [OF l] w(1) n
      by (intro exI [of _ a] exI [of _ b] conjI) simp_all
  qed
  have "\<exists>e. ?idx i = Inl e" if "length ?ns \<le> i" for i using node_idx_eq [OF assms, of i] that by simp
  then show ?thesis unfolding len using idx bound inj children by (intro conjI allI impI) auto
qed

theorem subcircuit_order_witness:
  "\<exists>a < 2. \<exists>b < 2. left_child 1 = subcircuit_idx_to_node_idx a 2 \<and> right_child 1 = subcircuit_idx_to_node_idx b 2"
proof -
  have two: "level 1 = 1" "node_at 1 0 = 1" "tree_nodes 1 = [(0, 0), (0, 1), (1, 0)]"
    using level_node_at [of 1 0] by (simp_all add: node_at_def tree_nodes_def level_nodes_def upt_rec)
  have "subcircuit_idx_to_node_idx 2 (2 ^ 1) = Inr 1" using node_idx_eq [of 1 2] two by simp
  then show ?thesis
    using subcircuit_order [of 1, THEN conjunct2, THEN conjunct2, THEN conjunct2, rule_format, of 2 1] two(1) by simp
qed

end
