(* ===== verification/Tree_Hash.thy ===== *)
theory Tree_Hash
  imports Protocol Vkd_Circuits Tree_Math
begin

text \<open>
  The Merkle tree circuit of \<open>distributed-prover/src/tree_hash_circuit.rs\<close>, the repository's
  benchmark with read-only portals: every node of a perfect binary tree is a subcircuit, which reads
  the hashes of its children through portals, iterates SHA-256 and sets its own portal; one more
  subcircuit pads the number to a power of two. SHA-256 and the field conversions are those of
  \<open>Vkd_Hash\<close>; the serialisation of leaves and of the root is a parameter.
\<close>

section \<open>Data\<close>

record tree_params =
  tp_num_leaves :: nat
  tp_num_sha_iters :: nat
  tp_num_portals :: nat

record tree_circuit =
  tc_leaves :: "u8 list list"
  tc_root_hash :: "u8 list"
  tc_params :: tree_params

record tree_codec =
  tcd_ser_leaf :: "u8 list \<Rightarrow> u8 list"
  tcd_de_leaf :: "u8 list \<Rightarrow> u8 list option"
  tcd_ser_hash :: "u8 list \<Rightarrow> u8 list"
  tcd_de_hash :: "u8 list \<Rightarrow> u8 list option"

definition empty_leaf :: "u8 list" where
  "empty_leaf = replicate 64 0"

definition input_digest :: "u8 list \<Rightarrow> 'f::field" where
  "input_digest digest = from_le_bytes_mod_order digest"

definition tree_wire :: "u32 \<Rightarrow> string" where
  "tree_wire node_idx = ''node '' @ decimal (unat node_idx) @ '' hash''"

abbreviation placeholder :: string where
  "placeholder \<equiv> ''placeholder''"

section \<open>Hashing\<close>

text \<open>The gadget, the closure of the native trace and the closure of \<open>calculate_root\<close>.\<close>

definition iterated_sha256_var :: "'f::field hash_lib \<Rightarrow> tree_params \<Rightarrow> u8 list \<Rightarrow> 'f" where
  "iterated_sha256_var hl params input =
     digest_to_fpvar ((hl_sha256_gadget hl ^^ tp_num_sha_iters params) input)"

definition iterated_sha256 :: "'f::field hash_lib \<Rightarrow> tree_params \<Rightarrow> u8 list \<Rightarrow> failure + u8 list" where
  "iterated_sha256 hl params input =
     (let digest = (hl_sha256 hl ^^ tp_num_sha_iters params) input in
      rbind (ensure ''copy_from_slice: source slice length does not match'' (length digest = 32)) (\<lambda>_. Inr digest))"

definition truncated_sha256 :: "'f::field hash_lib \<Rightarrow> tree_params \<Rightarrow> u8 list \<Rightarrow> failure + u8 list" where
  "truncated_sha256 hl params input =
     slice_range 0 inner_hash_size ((hl_sha256 hl ^^ tp_num_sha_iters params) input)"

section \<open>The native root\<close>

fun next_level :: "'f::field hash_lib \<Rightarrow> tree_params \<Rightarrow> u8 list list \<Rightarrow> failure + u8 list list" where
  "next_level hl params [] = Inr []"
| "next_level hl params [left] = Inl (Panic ''index out of bounds'')"
| "next_level hl params (left # right # rest) =
     rbind (slice_range 0 inner_hash_size left) (\<lambda>l.
     rbind (slice_range 0 inner_hash_size right) (\<lambda>r.
     rbind (truncated_sha256 hl params (l @ r)) (\<lambda>parent.
     rbind (next_level hl params rest) (\<lambda>ps. Inr (parent # ps)))))"

lemma length_next_level: "next_level hl params cur = Inr nxt \<Longrightarrow> length cur = 2 * length nxt"
  by (induction hl params cur arbitrary: nxt rule: next_level.induct) (auto simp: res_simps)

function root_loop :: "'f::field hash_lib \<Rightarrow> tree_params \<Rightarrow> u8 list list \<Rightarrow> failure + u8 list list" where
  "root_loop hl params cur_level =
     (if 1 < length cur_level then
        (case next_level hl params cur_level of Inl e \<Rightarrow> Inl e | Inr nxt \<Rightarrow> root_loop hl params nxt)
      else Inr cur_level)"
  by pat_completeness auto
termination
  by (relation "measure (\<lambda>(hl, params, cur). length cur)") (auto dest!: length_next_level)

declare root_loop.simps [simp del]

definition calculate_root :: "'f::field hash_lib \<Rightarrow> u8 list list \<Rightarrow> tree_params \<Rightarrow> failure + u8 list" where
  "calculate_root hl leaves params =
     rbind (rmap (truncated_sha256 hl params) leaves) (\<lambda>cur_level.
     rbind (root_loop hl params cur_level) (\<lambda>cur_level.
     rbind (vindex cur_level 0) (slice_range 0 inner_hash_size)))"

section \<open>The circuit\<close>

definition tree_num_subcircuits :: "tree_circuit \<Rightarrow> nat" where
  "tree_num_subcircuits tc = 2 * length (tc_leaves tc)"

definition tree_unique_subcircuits :: "tree_circuit \<Rightarrow> failure + nat list" where
  "tree_unique_subcircuits tc =
     (let n = tree_num_subcircuits tc in
      rbind (usub n 1) (\<lambda>a. rbind (usub n 2) (\<lambda>b. rbind (usub n 3) (\<lambda>c. Inr [0, 1, a, b, c]))))"

definition tree_representative :: "tree_circuit \<Rightarrow> nat \<Rightarrow> failure + nat" where
  "tree_representative tc subcircuit_idx =
     (let n = tree_num_subcircuits tc in
      if subcircuit_idx = 0 then Inr 0
      else if subcircuit_idx \<in> {1..<n div 2} then Inr 1
      else rbind (usub n 3) (\<lambda>n3.
        if subcircuit_idx \<in> {n div 2..n3} then Inr n3
        else if subcircuit_idx = n - 1 then Inr (n - 1)
        else if subcircuit_idx = n - 2 then Inr (n - 2)
        else Inl (Panic ''subcircuit index out of range'')))"

text \<open>\<open>rand\<close>, with the random leaves as an argument, and \<open>new\<close>.\<close>

definition tree_rand :: "'f::field hash_lib \<Rightarrow> u8 list list \<Rightarrow> tree_params \<Rightarrow> failure + tree_circuit" where
  "tree_rand hl leaves params =
     rbind (calculate_root hl leaves params) (\<lambda>root_hash.
       Inr \<lparr>tc_leaves = leaves, tc_root_hash = root_hash, tc_params = params\<rparr>)"

definition tree_new :: "tree_params \<Rightarrow> failure + tree_circuit" where
  "tree_new params =
     rbind (ensure ''cannot have 0 SHA256 iterations in test circuit'' (0 < tp_num_sha_iters params)) (\<lambda>_.
       Inr \<lparr>tc_leaves = replicate (tp_num_leaves params) empty_leaf,
            tc_root_hash = replicate inner_hash_size 0, tc_params = params\<rparr>)"

definition tree_get_witnesses :: "tree_codec \<Rightarrow> tree_circuit \<Rightarrow> nat \<Rightarrow> failure + u8 list" where
  "tree_get_witnesses cd tc subcircuit_idx =
     (let num_leaves = length (tc_leaves tc) in
      rbind (usub (tree_num_subcircuits tc) 1) (\<lambda>last_idx.
      if subcircuit_idx = last_idx then Inr []
      else
        rbind (subcircuit_idx_to_node_idx subcircuit_idx num_leaves) (\<lambda>node_idx.
        rbind (root_idx num_leaves) (\<lambda>rt.
        if level node_idx = 0 then
          rbind (unwrap ''called `Option::unwrap()` on a `None` value'' (vget (tc_leaves tc) (unat (node_idx div 2)))) (\<lambda>leaf.
            Inr (tcd_ser_leaf cd leaf))
        else if rt = node_idx then Inr (tcd_ser_hash cd (tc_root_hash tc))
        else Inr []))))"

definition tree_set_witnesses :: "tree_codec \<Rightarrow> nat \<Rightarrow> u8 list \<Rightarrow> tree_circuit \<Rightarrow> failure + tree_circuit" where
  "tree_set_witnesses cd subcircuit_idx bytes tc =
     (let num_leaves = length (tc_leaves tc) in
      rbind (usub (tree_num_subcircuits tc) 1) (\<lambda>last_idx.
      if subcircuit_idx = last_idx then Inr tc
      else
        rbind (subcircuit_idx_to_node_idx subcircuit_idx num_leaves) (\<lambda>node_idx.
        rbind (root_idx num_leaves) (\<lambda>rt.
        if level node_idx = 0 then
          let leaf_idx = unat (node_idx div 2) in
          rbind (de_unwrap (tcd_de_leaf cd bytes)) (\<lambda>leaf.
          rbind (vindex (tc_leaves tc) leaf_idx) (\<lambda>_.
            Inr (tc\<lparr>tc_leaves := (tc_leaves tc)[leaf_idx := leaf]\<rparr>)))
        else if rt = node_idx then
          rbind (de_unwrap (tcd_de_hash cd bytes)) (\<lambda>h. Inr (tc\<lparr>tc_root_hash := h\<rparr>))
        else Inr tc))))"

section \<open>Constraints\<close>

definition leaf_constraints :: "'f::field hash_lib \<Rightarrow> tree_circuit \<Rightarrow> u32 \<Rightarrow> ('f, bool) portal" where
  "leaf_constraints hl tc node_idx =
     (let leaf_idx = unat (node_idx div 2) in
      pbind (lift_res (vindex (tc_leaves tc) leaf_idx)) (\<lambda>leaf_var.
      let leaf_hash = iterated_sha256_var hl (tc_params tc) leaf_var in
      pbind (portal_set (tree_wire node_idx) leaf_hash) (\<lambda>_. Return True)))"

definition parent_constraints :: "'f::field hash_lib \<Rightarrow> tree_circuit \<Rightarrow> u32 \<Rightarrow> bool \<Rightarrow> ('f, bool) portal" where
  "parent_constraints hl tc node_idx is_root =
     pbind (lift_res (left_child node_idx)) (\<lambda>left.
     pbind (lift_res (right_child node_idx)) (\<lambda>right.
     pbind (portal_get (tree_wire left)) (\<lambda>left_child_hash.
     pbind (portal_get (tree_wire right)) (\<lambda>right_child_hash.
     pbind (lift_res (fpvar_to_digest hl left_child_hash)) (\<lambda>left_bytes.
     pbind (lift_res (fpvar_to_digest hl right_child_hash)) (\<lambda>right_bytes.
     let parent_hash = iterated_sha256_var hl (tc_params tc) (left_bytes @ right_bytes) in
     pbind (portal_set (tree_wire node_idx) parent_hash) (\<lambda>_.
       Return (is_root \<longrightarrow> parent_hash = input_digest (tc_root_hash tc)))))))))"

text \<open>Setting the placeholder wire once, and reading it \<open>num_portals_per_subcircuit - 1\<close> times.\<close>

definition dummy_ops :: "tree_params \<Rightarrow> 'a \<Rightarrow> ('f, 'a) portal" where
  "dummy_ops params x =
     pbind (lift_res (usub (tp_num_portals params) 1)) (\<lambda>n.
       pfold (\<lambda>_ x. pbind (portal_get placeholder) (\<lambda>_. Return x)) [0..<n] x)"

definition set_placeholder :: "nat \<Rightarrow> ('f::field, unit) portal" where
  "set_placeholder subcircuit_idx = (if subcircuit_idx = 0 then portal_set placeholder 0 else Return ())"

definition tree_generate :: "'f::field hash_lib \<Rightarrow> tree_circuit \<Rightarrow> nat \<Rightarrow> ('f, bool) portal" where
  "tree_generate hl tc subcircuit_idx =
     (let num_leaves = length (tc_leaves tc) in
      pbind (lift_res (usub (tree_num_subcircuits tc) 1)) (\<lambda>last_idx.
      pbind (if subcircuit_idx = last_idx then
               let _ = iterated_sha256_var hl (tc_params tc) empty_leaf :: 'f in Return True
             else
               pbind (lift_res (subcircuit_idx_to_node_idx subcircuit_idx num_leaves)) (\<lambda>node_idx.
               pbind (lift_res (root_idx num_leaves)) (\<lambda>rt.
               let is_leaf = level node_idx = 0; is_root = rt = node_idx in
               if is_leaf then leaf_constraints hl tc node_idx
               else parent_constraints hl tc node_idx is_root))) (\<lambda>ok.
      pbind (set_placeholder subcircuit_idx) (\<lambda>_.
      dummy_ops (tc_params tc) ok))))"

section \<open>The native portal trace\<close>

text \<open>
  The native trace makes its \<open>get\<close> and \<open>set\<close> calls on a setup manager, with hashes computed
  outside the circuit: a leaf, a parent, the padding subcircuit.
\<close>

definition native_leaf :: "'f::field hash_lib \<Rightarrow> tree_circuit \<Rightarrow> nat \<times> u8 list \<Rightarrow> ('f, bool) portal" where
  "native_leaf hl tc = (\<lambda>(subcircuit_idx, leaf).
     pbind (lift_res (iterated_sha256 hl (tc_params tc) leaf)) (\<lambda>leaf_hash.
     pbind (lift_res (subcircuit_idx_to_node_idx subcircuit_idx (length (tc_leaves tc)))) (\<lambda>node_idx.
     let leaf_hash_fpvar = digest_to_fpvar leaf_hash in
     pbind (portal_set (tree_wire node_idx) leaf_hash_fpvar) (\<lambda>_.
     pbind (set_placeholder subcircuit_idx) (\<lambda>_.
     dummy_ops (tc_params tc) True)))))"

definition native_parent :: "'f::field hash_lib \<Rightarrow> tree_circuit \<Rightarrow> nat \<Rightarrow> ('f, bool) portal" where
  "native_parent hl tc subcircuit_idx =
     pbind (lift_res (subcircuit_idx_to_node_idx subcircuit_idx (length (tc_leaves tc)))) (\<lambda>node_idx.
     pbind (lift_res (left_child node_idx)) (\<lambda>left.
     pbind (lift_res (right_child node_idx)) (\<lambda>right.
     pbind (portal_get (tree_wire left)) (\<lambda>left_child_fpvar.
     pbind (portal_get (tree_wire right)) (\<lambda>right_child_fpvar.
     pbind (lift_res (unwrap_res ''fpvar_to_digest'' (fpvar_to_digest hl left_child_fpvar))) (\<lambda>left_child.
     pbind (lift_res (unwrap_res ''fpvar_to_digest'' (fpvar_to_digest hl right_child_fpvar))) (\<lambda>right_child.
     pbind (lift_res (slice_range 0 inner_hash_size left_child)) (\<lambda>l.
     pbind (lift_res (slice_range 0 inner_hash_size right_child)) (\<lambda>r.
     pbind (lift_res (iterated_sha256 hl (tc_params tc) (l @ r))) (\<lambda>parent.
     let parent_hash_fpvar = digest_to_fpvar parent in
     pbind (portal_set (tree_wire node_idx) parent_hash_fpvar) (\<lambda>_.
     dummy_ops (tc_params tc) True)))))))))))"

definition tree_portal_subtraces :: "'f::field hash_lib \<Rightarrow> tree_circuit \<Rightarrow> failure + 'f transcript_entry list list" where
  "tree_portal_subtraces hl tc =
     (let num_leaves = length (tc_leaves tc); num_subcircuits = num_leaves * 2 in
      rbind (usub num_subcircuits 1) (\<lambda>last_idx.
      rbind (rom_setup_run
          (map (native_leaf hl tc) (enumerate 0 (tc_leaves tc))
           @ map (native_parent hl tc) [num_leaves..<last_idx]
           @ [dummy_ops (tc_params tc) True]) setup_rom_new) (\<lambda>(_, pm).
        Inr (map (map RomEntry) (sr_subtraces pm)))))"

definition tree_ops :: "'f::field hash_lib \<Rightarrow> tree_codec \<Rightarrow> ('f, tree_circuit, tree_params) circuit_ops" where
  "tree_ops hl cd = \<lparr>op_mem_type = Rom, op_get_params = tc_params, op_portal_subtraces = tree_portal_subtraces hl,
     op_num_subcircuits = tree_num_subcircuits, op_unique_subcircuits = tree_unique_subcircuits,
     op_representative = tree_representative, op_new = tree_new, op_get_witnesses = tree_get_witnesses cd,
     op_set_witnesses = tree_set_witnesses cd, op_generate = tree_generate hl\<rparr>"

end
