(* ===== verification/Tree_Correct.thy ===== *)
theory Tree_Correct
  imports Tree_Hash
begin

text \<open>
  What the Merkle tree circuit computes. The digest of a node is defined by recursion over the tree;
  \<open>calculate_root\<close> computes the digest of the root, the constraints give every portal the
  digest of its node and hold exactly when the root is the expected one, the native trace is the
  recorded one, and the distributed prover proves a generated tree.
\<close>

section \<open>Digests\<close>

text \<open>The further behaviour of the libraries: a SHA-256 digest has 32 bytes, a field element has at least 216 bits.\<close>

definition tree_hash_ok :: "'f::field hash_lib \<Rightarrow> bool" where
  "tree_hash_ok hl \<longleftrightarrow> hash_lib_ok hl \<and> (\<forall>v. length (hl_sha256 hl v) = 32) \<and> (\<forall>x. 216 \<le> length (hl_to_bits_le hl x))"

definition sha_digest :: "'f::field hash_lib \<Rightarrow> tree_params \<Rightarrow> u8 list \<Rightarrow> u8 list" where
  "sha_digest hl params v = take inner_hash_size ((hl_sha256 hl ^^ tp_num_sha_iters params) v)"

fun node_digest :: "'f::field hash_lib \<Rightarrow> tree_params \<Rightarrow> u8 list list \<Rightarrow> nat \<Rightarrow> nat \<Rightarrow> u8 list" where
  "node_digest hl params leaves 0 u = sha_digest hl params (leaves ! u)"
| "node_digest hl params leaves (Suc l) u =
     sha_digest hl params (node_digest hl params leaves l (2 * u) @ node_digest hl params leaves l (2 * u + 1))"

lemma length_iterated:
  "tree_hash_ok hl \<Longrightarrow> 0 < tp_num_sha_iters params \<Longrightarrow> length ((hl_sha256 hl ^^ tp_num_sha_iters params) v) = 32"
  by (cases "tp_num_sha_iters params") (simp_all add: tree_hash_ok_def)

lemma length_sha_digest:
  "tree_hash_ok hl \<Longrightarrow> 0 < tp_num_sha_iters params \<Longrightarrow> length (sha_digest hl params v) = inner_hash_size"
  by (simp add: sha_digest_def length_iterated inner_hash_size_def)

lemma length_node_digest:
  "tree_hash_ok hl \<Longrightarrow> 0 < tp_num_sha_iters params \<Longrightarrow> length (node_digest hl params leaves l u) = inner_hash_size"
  by (cases l) (simp_all add: length_sha_digest)

lemma truncated_sha256_eq:
  "tree_hash_ok hl \<Longrightarrow> 0 < tp_num_sha_iters params \<Longrightarrow> truncated_sha256 hl params v = Inr (sha_digest hl params v)"
  by (simp add: truncated_sha256_def sha_digest_def length_iterated inner_hash_size_def)

lemma iterated_sha256_eq:
  "tree_hash_ok hl \<Longrightarrow> 0 < tp_num_sha_iters params \<Longrightarrow>
     iterated_sha256 hl params v = Inr ((hl_sha256 hl ^^ tp_num_sha_iters params) v)"
  by (simp add: iterated_sha256_def length_iterated Let_def)

text \<open>The gadget and the native digests become the element of the truncated digest.\<close>

lemma iterated_sha256_var_eq:
  assumes "tree_hash_ok hl"
  shows "(iterated_sha256_var hl params v :: 'f::field) = inner_hash_to_fpvar (sha_digest hl params v)"
    and "(digest_to_fpvar ((hl_sha256 hl ^^ tp_num_sha_iters params) v) :: 'f) = inner_hash_to_fpvar (sha_digest hl params v)"
proof -
  show 2: "(digest_to_fpvar ((hl_sha256 hl ^^ tp_num_sha_iters params) v) :: 'f) = inner_hash_to_fpvar (sha_digest hl params v)"
    by (simp add: digest_to_fpvar_def sha_digest_def le_bits_bytes inner_hash_to_fpvar_def)
  have "hl_sha256_gadget hl = hl_sha256 hl" using assms by (simp add: tree_hash_ok_def hash_lib_ok_def)
  with 2 show "(iterated_sha256_var hl params v :: 'f) = inner_hash_to_fpvar (sha_digest hl params v)"
    by (simp add: iterated_sha256_var_def)
qed

lemma rmap_bytes_total: "8 * n \<le> length bs \<Longrightarrow> \<exists>d. rmap from_bits_le (take n (chunks 8 bs)) = Inr d \<and> length d = n"
proof (induction n arbitrary: bs)
  case (Suc n)
  then have "chunks 8 bs = take 8 bs # chunks 8 (drop 8 bs)"
    using chunks_append_exact [of 8 "take 8 bs" "drop 8 bs"] by simp
  moreover obtain d where "rmap from_bits_le (take n (chunks 8 (drop 8 bs))) = Inr d" "length d = n"
  proof -
    have "8 * n \<le> length (drop 8 bs)" using Suc.prems by simp
    from Suc.IH [OF this] that show ?thesis by blast
  qed
  moreover have "from_bits_le (take 8 bs) = Inr (word_of_nat (bits_val (take 8 bs)))"
    using Suc.prems by (simp add: from_bits_le_def)
  ultimately show ?case by simp
qed simp

lemma fpvar_to_digest_total:
  assumes "tree_hash_ok hl"
  obtains d where "fpvar_to_digest hl x = Inr d" "length d = inner_hash_size"
proof -
  have "8 * inner_hash_size \<le> length (hl_to_bits_le hl x)" using assms by (simp add: tree_hash_ok_def inner_hash_size_def)
  from rmap_bytes_total [OF this] that show thesis by (auto simp: fpvar_to_digest_def)
qed

section \<open>The native root\<close>

lemma next_level_eq:
  assumes "tree_hash_ok hl" "0 < tp_num_sha_iters params" and "\<And>u. length (f u) = inner_hash_size"
  shows "next_level hl params (map f [2 * a..<2 * (a + n)])
     = Inr (map (\<lambda>u. sha_digest hl params (f (2 * u) @ f (2 * u + 1))) [a..<a + n])"
proof (induction n arbitrary: a)
  case (Suc n)
  have "[2 * a..<2 * (a + Suc n)] = 2 * a # Suc (2 * a) # [2 * Suc a..<2 * (Suc a + n)]"
    by (simp add: upt_conv_Cons)
  moreover have "[a..<a + Suc n] = a # [Suc a..<Suc a + n]" by (simp add: upt_conv_Cons)
  ultimately show ?case
    using Suc.IH [of "Suc a"] truncated_sha256_eq [OF assms(1,2)] by (simp add: assms(3) del: upt_Suc)
qed simp

lemma root_loop_eq:
  assumes "tree_hash_ok hl" "0 < tp_num_sha_iters params" and "l \<le> k"
  shows "root_loop hl params (map (node_digest hl params leaves l) [0..<2 ^ (k - l)])
     = Inr [node_digest hl params leaves k 0]"
  using assms(3)
proof (induction l rule: inc_induct)
  case base
  show ?case by (subst root_loop.simps) simp
next
  case (step l)
  have two: "(2 :: nat) ^ (k - l) = 2 * (0 + 2 ^ (k - Suc l))"
    using step.hyps by (simp add: Suc_diff_Suc flip: power_Suc)
  have "next_level hl params (map (node_digest hl params leaves l) [0..<2 ^ (k - l)])
      = Inr (map (node_digest hl params leaves (Suc l)) [0..<2 ^ (k - Suc l)])"
    using next_level_eq [where f = "node_digest hl params leaves l" and a = 0 and n = "2 ^ (k - Suc l)",
        OF assms(1,2) length_node_digest [OF assms(1,2)]]
    by (simp only: two) simp
  moreover have "1 < (2 :: nat) ^ (k - l)" using step.hyps by (intro one_less_power) simp_all
  ultimately show ?case using step.IH by (subst root_loop.simps) (simp del: node_digest.simps)
qed

lemma calculate_root_eq:
  assumes "tree_hash_ok hl" "0 < tp_num_sha_iters params" and "length leaves = 2 ^ k"
  shows "calculate_root hl leaves params = Inr (node_digest hl params leaves k 0)"
proof -
  have "rmap (truncated_sha256 hl params) leaves = Inr (map (sha_digest hl params) leaves)"
    by (rule rmap_total) (rule truncated_sha256_eq [OF assms(1,2)])
  moreover have "map (sha_digest hl params) leaves = map (node_digest hl params leaves 0) [0..<2 ^ (k - 0)]"
    using assms(3) by (intro nth_equalityI) simp_all
  ultimately have "rmap (truncated_sha256 hl params) leaves = Inr (map (node_digest hl params leaves 0) [0..<2 ^ (k - 0)])"
    by (simp only:)
  then show ?thesis
    using root_loop_eq [OF assms(1,2), of 0 k leaves] length_node_digest [OF assms(1,2), of leaves k 0]
    by (simp add: calculate_root_def)
qed

section \<open>The programs of the nodes\<close>

abbreviation wire :: "nat \<times> nat \<Rightarrow> string" where
  "wire n \<equiv> tree_wire (node_of n)"

text \<open>The constraints of a node by its level and position.\<close>

fun node_constraints :: "'f::field hash_lib \<Rightarrow> tree_circuit \<Rightarrow> nat \<Rightarrow> nat \<times> nat \<Rightarrow> ('f, bool) portal" where
  "node_constraints hl tc k (0, u) =
     pbind (portal_set (wire (0, u)) (iterated_sha256_var hl (tc_params tc) (tc_leaves tc ! u))) (\<lambda>_. Return True)"
| "node_constraints hl tc k (Suc l, u) =
     pbind (portal_get (wire (l, 2 * u))) (\<lambda>left_child_hash.
     pbind (portal_get (wire (l, 2 * u + 1))) (\<lambda>right_child_hash.
     pbind (lift_res (fpvar_to_digest hl left_child_hash)) (\<lambda>left_bytes.
     pbind (lift_res (fpvar_to_digest hl right_child_hash)) (\<lambda>right_bytes.
     let parent_hash = iterated_sha256_var hl (tc_params tc) (left_bytes @ right_bytes) in
     pbind (portal_set (wire (Suc l, u)) parent_hash) (\<lambda>_.
       Return (Suc l = k \<longrightarrow> parent_hash = input_digest (tc_root_hash tc)))))))"

lemma leaf_of_node:
  assumes "(0, u) \<in> set (tree_nodes k)" and "k \<le> 30"
  shows "unat (node_at 0 u div 2) = u"
proof -
  have "unat (node_at 0 u) = u * 2" using unat_node_of [OF assms] by simp
  then show ?thesis by (simp add: unat_div)
qed

lemma is_root_iff:
  assumes "n \<in> set (tree_nodes k)" and "k \<le> 30"
  shows "node_at k 0 = node_of n \<longleftrightarrow> fst n = k"
proof -
  have "(k, 0) \<in> set (tree_nodes k)" by simp
  from node_of_inj [OF this assms] show ?thesis using assms(1) by (cases n) auto
qed

lemma tree_generate_node:
  assumes "length (tc_leaves tc) = 2 ^ k" "k \<le> 30" and i: "i < length (tree_nodes k)"
  shows "tree_generate hl tc i = pbind (node_constraints hl tc k (tree_nodes k ! i))
     (\<lambda>ok. pbind (set_placeholder i) (\<lambda>_. dummy_ops (tc_params tc) ok))"
proof -
  obtain l u where n: "tree_nodes k ! i = (l, u)" by fastforce
  then have mem: "(l, u) \<in> set (tree_nodes k)" using i by (metis nth_mem)
  then have b: "l \<le> k" "u < 2 ^ (k - l)" "l < 32" using assms(2) by auto
  have last: "usub (tree_num_subcircuits tc) 1 = Inr (length (tree_nodes k))"
    using assms(1) by (simp add: tree_num_subcircuits_def length_tree_nodes)
  have idx: "subcircuit_idx_to_node_idx i (2 ^ k) = Inr (node_at l u)" using node_idx_eq [OF assms(2), of i] i n by simp
  have "(if level (node_at l u) = 0 then leaf_constraints hl tc (node_at l u)
         else parent_constraints hl tc (node_at l u) (node_at k 0 = node_at l u)) = node_constraints hl tc k (l, u)"
  proof (cases l)
    case 0
    then have "u < length (tc_leaves tc)" using b assms(1) by simp
    then show ?thesis using 0 mem leaf_of_node [of u k] assms(2) by (simp add: leaf_constraints_def level_node_at)
  next
    case (Suc l')
    then have "l' < 31" using b(3) by simp
    with Suc is_root_iff [OF mem assms(2)] b(3) show ?thesis
      by (simp add: parent_constraints_def level_node_at left_child_node_at right_child_node_at)
  qed
  then show ?thesis
    using i assms(1) last idx n root_idx_power [OF assms(2)] by (simp add: tree_generate_def Let_def)
qed

lemma tree_generate_padding:
  assumes "length (tc_leaves tc) = 2 ^ k"
  shows "tree_generate hl tc (length (tree_nodes k)) = dummy_ops (tc_params tc) True"
proof -
  have "usub (tree_num_subcircuits tc) 1 = Inr (length (tree_nodes k))" "length (tree_nodes k) \<noteq> 0"
    using assms one_less_power [of "2 :: nat" "Suc k"] by (simp_all add: tree_num_subcircuits_def length_tree_nodes)
  then show ?thesis by (simp add: tree_generate_def Let_def set_placeholder_def)
qed

text \<open>The padding operations only read the placeholder.\<close>

lemma eval_dummy_ops:
  assumes "0 < tp_num_portals params" and "m placeholder = Some v"
  shows "eval_portal False (dummy_ops params x) m = Inr (x, m)"
proof -
  have "eval_portal False (pfold (\<lambda>_ x. pbind (portal_get placeholder) (\<lambda>_. Return x)) xs x) m = Inr (x, m)"
    for xs :: "nat list"
    by (induction xs) (simp_all add: eval_portal_bind assms(2))
  then show ?thesis using assms(1) by (simp add: dummy_ops_def)
qed

lemma dummy_ops_forget: "pbind (dummy_ops params x) (\<lambda>_. Return y) = dummy_ops params y"
proof -
  have "pbind (pfold (\<lambda>_ x. pbind (portal_get placeholder) (\<lambda>_. Return x)) xs x) (\<lambda>_. Return y)
      = pfold (\<lambda>_ x. pbind (portal_get placeholder) (\<lambda>_. Return x)) xs y" for xs :: "nat list"
    by (induction xs) (simp_all add: portal_get_def)
  then show ?thesis by (cases "usub (tp_num_portals params) 1") (simp_all add: dummy_ops_def)
qed

section \<open>The memory\<close>

text \<open>The nodes in \<open>S\<close> have been computed: their wires hold the elements of their digests.\<close>

definition tree_memory :: "'f::field hash_lib \<Rightarrow> tree_circuit \<Rightarrow> nat \<Rightarrow> (nat \<times> nat) set \<Rightarrow> (string \<rightharpoonup> 'f) \<Rightarrow> bool" where
  "tree_memory hl tc k S m \<longleftrightarrow>
     (\<forall>n \<in> set (tree_nodes k). m (wire n) = (if n \<in> S
          then Some (inner_hash_to_fpvar (node_digest hl (tc_params tc) (tc_leaves tc) (fst n) (snd n))) else None))
     \<and> m placeholder = (if S = {} then None else Some 0)"

lemma wire_inj: "n \<in> set (tree_nodes k) \<Longrightarrow> n' \<in> set (tree_nodes k) \<Longrightarrow> k \<le> 30 \<Longrightarrow> wire n = wire n' \<longleftrightarrow> n = n'"
  using node_of_inj [of n k n'] by (simp only: tree_wire_def append_same_eq same_append_eq decimal_inj word_unat_eq_iff)

lemma wire_not_placeholder [simp]: "tree_wire w \<noteq> placeholder" "placeholder \<noteq> tree_wire w"
  by (simp_all add: tree_wire_def)

lemma tree_memoryD:
  "tree_memory hl tc k S m \<Longrightarrow> n \<in> set (tree_nodes k) \<Longrightarrow> n \<in> S \<Longrightarrow>
     m (wire n) = Some (inner_hash_to_fpvar (node_digest hl (tc_params tc) (tc_leaves tc) (fst n) (snd n)))"
  "tree_memory hl tc k S m \<Longrightarrow> n \<in> set (tree_nodes k) \<Longrightarrow> n \<notin> S \<Longrightarrow> m (wire n) = None"
  by (simp_all add: tree_memory_def)

definition root_accepted :: "'f::field hash_lib \<Rightarrow> tree_circuit \<Rightarrow> nat \<Rightarrow> bool" where
  "root_accepted hl tc k \<longleftrightarrow>
     (inner_hash_to_fpvar (node_digest hl (tc_params tc) (tc_leaves tc) k 0) :: 'f) = input_digest (tc_root_hash tc)"

lemma less_exp_half: "u < 2 ^ j \<Longrightarrow> 2 * u + 1 < 2 * 2 ^ j" for u :: nat
  by linarith

lemma eval_node:
  fixes hl :: "'f::field hash_lib"
  assumes hl: "tree_hash_ok hl" "0 < tp_num_sha_iters (tc_params tc)" and k: "0 < k" "k \<le> 30"
    and m: "tree_memory hl tc k S m" and n: "n \<in> set (tree_nodes k)" "n \<notin> S"
    and children: "\<And>l u. n = (Suc l, u) \<Longrightarrow> (l, 2 * u) \<in> S \<and> (l, 2 * u + 1) \<in> S"
  shows "eval_portal False (node_constraints hl tc k n) m
     = Inr (fst n = k \<longrightarrow> root_accepted hl tc k, m(wire n \<mapsto>
         inner_hash_to_fpvar (node_digest hl (tc_params tc) (tc_leaves tc) (fst n) (snd n))))"
proof -
  consider u where "n = (0, u)" | l u where "n = (Suc l, u)" by (cases n; cases "fst n") auto
  then show ?thesis
  proof cases
    case (1 u)
    then show ?thesis using tree_memoryD(2) [OF m n] k by (simp add: eval_portal_bind iterated_sha256_var_eq [OF hl(1)])
  next
    case (2 l u)
    let ?D = "node_digest hl (tc_params tc) (tc_leaves tc)"
    have c: "(l, 2 * u) \<in> S" "(l, 2 * u + 1) \<in> S" using children 2 by auto
    have "l < k" "u < 2 ^ (k - Suc l)" using n(1) 2 by auto
    then have b: "2 * u + 1 < 2 ^ (k - l)" by (metis Suc_diff_Suc less_exp_half power_Suc)
    have w: "m (wire (l, 2 * u)) = Some (inner_hash_to_fpvar (?D l (2 * u)))"
      "m (wire (l, 2 * u + 1)) = Some (inner_hash_to_fpvar (?D l (2 * u + 1)))"
      using tree_memoryD(1) [OF m _ c(1)] tree_memoryD(1) [OF m _ c(2)] \<open>l < k\<close> b by auto
    have root: "Suc l = k \<Longrightarrow> u = 0" using \<open>u < 2 ^ (k - Suc l)\<close> by simp
    have d: "fpvar_to_digest hl (inner_hash_to_fpvar (?D l j)) = Inr (?D l j)" for j
      using fpvar_to_digest_eq hl length_node_digest by (metis tree_hash_ok_def)
    have free: "m (wire (Suc l, u)) = None" using tree_memoryD(2) [OF m n] 2 by simp
    show ?thesis
      using 2 w free root
      by (auto simp: eval_portal_bind d Let_def iterated_sha256_var_eq [OF hl(1)] root_accepted_def)
  qed
qed

section \<open>All subcircuits\<close>

lemma eval_subcircuit:
  fixes hl :: "'f::field hash_lib"
  assumes hl: "tree_hash_ok hl" "0 < tp_num_sha_iters (tc_params tc)" "0 < tp_num_portals (tc_params tc)"
    and len: "length (tc_leaves tc) = 2 ^ k" and k: "0 < k" "k \<le> 30"
    and i: "i < length (tree_nodes k)" and m: "tree_memory hl tc k (set (take i (tree_nodes k))) m"
  obtains m' where
    "eval_portal False (tree_generate hl tc i) m = Inr (fst (tree_nodes k ! i) = k \<longrightarrow> root_accepted hl tc k, m')"
    "tree_memory hl tc k (set (take (Suc i) (tree_nodes k))) m'"
proof -
  let ?n = "tree_nodes k ! i" and ?S = "set (take i (tree_nodes k))"
  let ?h = "inner_hash_to_fpvar (node_digest hl (tc_params tc) (tc_leaves tc) (fst ?n) (snd ?n)) :: 'f"
  have n: "?n \<in> set (tree_nodes k)" using i by (rule nth_mem)
  have split: "tree_nodes k = take i (tree_nodes k) @ ?n # drop (Suc i) (tree_nodes k)" using i by (rule id_take_nth_drop)
  then have "distinct (take i (tree_nodes k) @ ?n # drop (Suc i) (tree_nodes k))" using distinct_tree_nodes [of k] by simp
  then have fresh: "?n \<notin> ?S" by simp
  have children: "(l, 2 * u) \<in> ?S \<and> (l, 2 * u + 1) \<in> ?S" if "?n = (Suc l, u)" for l u
    using children_first [OF split [unfolded that]] by blast
  define m1 where "m1 = m(wire ?n \<mapsto> ?h)"
  define m2 where "m2 = (if i = 0 then m1(placeholder \<mapsto> 0) else m1)"
  have eval: "eval_portal False (node_constraints hl tc k ?n) m = Inr (fst ?n = k \<longrightarrow> root_accepted hl tc k, m1)"
    unfolding m1_def by (rule eval_node [OF hl(1,2) k m n fresh children])
  have S: "set (take (Suc i) (tree_nodes k)) = insert ?n ?S" "?S = {} \<longleftrightarrow> i = 0"
    using i by (auto simp: take_Suc_conv_app_nth)
  have ph: "m1 placeholder = (if i = 0 then None else Some 0)"
    using m S(2) by (simp add: tree_memory_def m1_def)
  then have set: "eval_portal False (set_placeholder i) m1 = Inr ((), m2)" by (simp add: set_placeholder_def m2_def)
  have "m2 placeholder = Some 0" using ph by (simp add: m2_def)
  with set eval hl(3) have "eval_portal False (tree_generate hl tc i) m = Inr (fst ?n = k \<longrightarrow> root_accepted hl tc k, m2)"
    using tree_generate_node [OF len k(2) i, of hl] by (simp add: eval_portal_bind eval_dummy_ops)
  moreover have "tree_memory hl tc k (set (take (Suc i) (tree_nodes k))) m2"
    unfolding tree_memory_def
  proof (intro conjI ballI)
    show "m2 placeholder = (if set (take (Suc i) (tree_nodes k)) = {} then None else Some 0)"
      using \<open>m2 placeholder = Some 0\<close> S(1) by simp
    fix n' assume n': "n' \<in> set (tree_nodes k)"
    have "m2 (wire n') = m1 (wire n')" by (simp add: m2_def)
    then show "m2 (wire n') = (if n' \<in> set (take (Suc i) (tree_nodes k))
        then Some (inner_hash_to_fpvar (node_digest hl (tc_params tc) (tc_leaves tc) (fst n') (snd n'))) else None)"
      using wire_inj [OF n' n k(2)] m n' by (auto simp: S(1) m1_def tree_memory_def)
  qed
  ultimately show thesis by (rule that)
qed

lemma last_tree_node:
  assumes "i < length (tree_nodes k)" and "0 < k"
  shows "fst (tree_nodes k ! i) = k \<longleftrightarrow> Suc i = length (tree_nodes k)"
proof -
  obtain pre where parts: "tree_nodes k = pre @ [(k, 0)]" "pre = level_nodes k 0 @ concat (map (level_nodes k) [1..<k])"
    using tree_nodes_parts [of k] assms(2) by simp
  have "fst n \<noteq> k" if "n \<in> set pre" for n using that assms(2) by (auto simp: parts(2))
  then have "i < length pre \<Longrightarrow> fst (pre ! i) \<noteq> k" by simp
  then show ?thesis using assms(1) by (cases "i < length pre") (auto simp: parts(1) nth_append less_Suc_eq)
qed

lemma eval_nodes:
  fixes hl :: "'f::field hash_lib"
  assumes hl: "tree_hash_ok hl" "0 < tp_num_sha_iters (tc_params tc)" "0 < tp_num_portals (tc_params tc)"
    and len: "length (tc_leaves tc) = 2 ^ k" and k: "0 < k" "k \<le> 30" and i: "i \<le> length (tree_nodes k)"
    and m: "tree_memory hl tc k (set (take i (tree_nodes k))) m"
  shows "\<exists>m'. eval_run False (map (tree_generate hl tc) [i..<length (tree_nodes k)]) m
       = Inr (i < length (tree_nodes k) \<longrightarrow> root_accepted hl tc k, m')
     \<and> tree_memory hl tc k (set (tree_nodes k)) m'"
  using i m
proof (induction i arbitrary: m rule: inc_induct)
  case (step i)
  let ?len = "length (tree_nodes k)"
  obtain m1 where m1: "eval_portal False (tree_generate hl tc i) m = Inr (fst (tree_nodes k ! i) = k \<longrightarrow> root_accepted hl tc k, m1)"
    "tree_memory hl tc k (set (take (Suc i) (tree_nodes k))) m1"
    by (rule eval_subcircuit [OF hl len k step.hyps(2) step.prems])
  obtain m' where "eval_run False (map (tree_generate hl tc) [Suc i..<?len]) m1 = Inr (Suc i < ?len \<longrightarrow> root_accepted hl tc k, m')"
    "tree_memory hl tc k (set (tree_nodes k)) m'"
    using step.IH [OF m1(2)] by blast
  moreover have "((fst (tree_nodes k ! i) = k \<longrightarrow> R) \<and> (Suc i < ?len \<longrightarrow> R)) \<longleftrightarrow> R" for R
    using last_tree_node [OF step.hyps(2) k(1)] step.hyps(2) by auto
  ultimately show ?case using m1(1) step.hyps(2) by (simp add: upt_conv_Cons)
qed simp

lemma root_accepted_iff:
  assumes "tree_hash_ok hl" "0 < tp_num_sha_iters (tc_params tc)" and "char_above TYPE('f::field) (2 ^ 216)"
    and "length (tc_root_hash tc) = inner_hash_size"
  shows "root_accepted (hl :: 'f hash_lib) tc k \<longleftrightarrow> tc_root_hash tc = node_digest hl (tc_params tc) (tc_leaves tc) k 0"
proof -
  have "(input_digest (tc_root_hash tc) :: 'f) = inner_hash_to_fpvar (tc_root_hash tc)"
    by (simp add: input_digest_def inner_hash_to_fpvar_def)
  then show ?thesis
    using inner_hash_to_fpvar_inj [OF assms(3) length_node_digest [OF assms(1,2)] assms(4)] by (auto simp: root_accepted_def)
qed

lemma num_subcircuits_nodes: "length (tc_leaves tc) = 2 ^ k \<Longrightarrow> tree_num_subcircuits tc = Suc (length (tree_nodes k))"
  using one_less_power [of "2 :: nat" "Suc k"] by (simp add: tree_num_subcircuits_def length_tree_nodes)

lemma eval_tree:
  fixes hl :: "'f::field hash_lib"
  assumes hl: "tree_hash_ok hl" "0 < tp_num_sha_iters (tc_params tc)" "0 < tp_num_portals (tc_params tc)"
    and len: "length (tc_leaves tc) = 2 ^ k" and k: "0 < k" "k \<le> 30"
  obtains m where "eval_run False (map (tree_generate hl tc) [0..<tree_num_subcircuits tc]) Map.empty = Inr (root_accepted hl tc k, m)"
    "m placeholder = Some 0"
proof -
  have "tree_memory hl tc k (set (take 0 (tree_nodes k))) Map.empty" by (simp add: tree_memory_def)
  from eval_nodes [OF hl len k le0 this] obtain m where
    m0: "eval_run False (map (tree_generate hl tc) [0..<length (tree_nodes k)]) Map.empty
      = Inr (0 < length (tree_nodes k) \<longrightarrow> root_accepted hl tc k, m)"
    "tree_memory hl tc k (set (tree_nodes k)) m"
    by blast
  have ne: "set (tree_nodes k) \<noteq> {}" "0 < length (tree_nodes k)" by simp_all
  with m0 have m: "eval_run False (map (tree_generate hl tc) [0..<length (tree_nodes k)]) Map.empty = Inr (root_accepted hl tc k, m)"
    and ph: "m placeholder = Some 0" by (simp_all only: tree_memory_def if_False simp_thms)
  have "eval_run False (map (tree_generate hl tc) [0..<tree_num_subcircuits tc]) Map.empty = Inr (root_accepted hl tc k, m)"
    using m eval_dummy_ops [where m = m and x = True, OF hl(3) ph] by (simp add: num_subcircuits_nodes [OF len] eval_run_append tree_generate_padding [OF len])
  with ph that show thesis by blast
qed

section \<open>The native trace\<close>

lemma pbind_forget_dummy:
  "pbind (pbind p (\<lambda>ok. pbind (set_placeholder i) (\<lambda>_. dummy_ops params ok))) (\<lambda>_. Return True)
     = pbind p (\<lambda>_. pbind (set_placeholder i) (\<lambda>_. dummy_ops params True))"
  by (simp add: pbind_assoc dummy_ops_forget)

lemma native_leaf_eq:
  fixes hl :: "'f::field hash_lib"
  assumes hl: "tree_hash_ok hl" "0 < tp_num_sha_iters (tc_params tc)" and len: "length (tc_leaves tc) = 2 ^ k" and k: "k \<le> 30"
    and i: "i < 2 ^ k"
  shows "pbind (tree_generate hl tc i) (\<lambda>_. Return True) = native_leaf hl tc (i, tc_leaves tc ! i)"
proof -
  have b: "i < length (tree_nodes k)" using i by (simp add: length_tree_nodes)
  have n: "tree_nodes k ! i = (0, i)" using i by (rule tree_nodes_leaf)
  show ?thesis
    unfolding tree_generate_node [OF len k b] pbind_forget_dummy
    using node_idx_eq [OF k, of i] b
    by (simp add: n native_leaf_def len iterated_sha256_eq [OF hl] iterated_sha256_var_eq [OF hl(1)] Let_def pbind_assoc)
qed

lemma native_parent_eq:
  fixes hl :: "'f::field hash_lib"
  assumes hl: "tree_hash_ok hl" "0 < tp_num_sha_iters (tc_params tc)" and len: "length (tc_leaves tc) = 2 ^ k" and k: "k \<le> 30"
    and i: "2 ^ k \<le> i" "i < length (tree_nodes k)"
  shows "pbind (tree_generate hl tc i) (\<lambda>_. Return True) = native_parent hl tc i"
proof -
  have "fst (tree_nodes k ! i) \<noteq> 0"
  proof
    assume 0: "fst (tree_nodes k ! i) = 0"
    let ?j = "snd (tree_nodes k ! i)"
    have "tree_nodes k ! i \<in> set (tree_nodes k)" using i(2) by (rule nth_mem)
    with 0 have "?j < 2 ^ k" by simp
    then have "tree_nodes k ! ?j = tree_nodes k ! i" using tree_nodes_leaf [of ?j k] 0 by (simp add: prod_eq_iff)
    moreover have "?j < length (tree_nodes k)" "?j \<noteq> i" using \<open>?j < 2 ^ k\<close> i by simp_all
    ultimately show False using distinct_tree_nodes [of k] i(2) by (simp add: nth_eq_iff_index_eq)
  qed
  then obtain l u where n: "tree_nodes k ! i = (Suc l, u)" by (metis not0_implies_Suc prod.collapse)
  then have "(Suc l, u) \<in> set (tree_nodes k)" using i(2) by (metis nth_mem)
  then have l: "l < 31" using k by simp
  have "\<forall>x. \<exists>d. fpvar_to_digest hl x = Inr d \<and> length d = inner_hash_size"
    using fpvar_to_digest_total [OF hl(1)] by blast
  then obtain d where d: "\<And>x. fpvar_to_digest hl x = Inr (d x)" "\<And>x. length (d x) = inner_hash_size"
    by metis
  have "i \<noteq> 0" using i(1) by (metis le_zero_eq power_not_zero zero_neq_numeral)
  then show ?thesis
    unfolding tree_generate_node [OF len k i(2)] pbind_forget_dummy
    using node_idx_eq [OF k, of i] i(2) l
    by (simp add: n native_parent_def len iterated_sha256_eq [OF hl] iterated_sha256_var_eq [OF hl(1)] Let_def pbind_assoc
        left_child_node_at right_child_node_at d set_placeholder_def)
qed

lemma native_programs:
  fixes hl :: "'f::field hash_lib"
  assumes hl: "tree_hash_ok hl" "0 < tp_num_sha_iters (tc_params tc)" and len: "length (tc_leaves tc) = 2 ^ k" and k: "k \<le> 30"
  shows "list_all2 (\<lambda>p q. pbind p (\<lambda>_. Return True) = q) (map (tree_generate hl tc) [0..<tree_num_subcircuits tc])
     (map (native_leaf hl tc) (enumerate 0 (tc_leaves tc))
      @ map (native_parent hl tc) [length (tc_leaves tc)..<length (tree_nodes k)] @ [dummy_ops (tc_params tc) True])"
proof -
  have b: "(2 :: nat) ^ k \<le> length (tree_nodes k)" by (simp add: length_tree_nodes)
  have split: "[0..<tree_num_subcircuits tc] = [0..<2 ^ k] @ [2 ^ k..<length (tree_nodes k)] @ [length (tree_nodes k)]"
    using b upt_add_eq_append [of 0 "2 ^ k" "length (tree_nodes k) - 2 ^ k"] by (simp add: num_subcircuits_nodes [OF len])
  have "list_all2 (\<lambda>p q. pbind p (\<lambda>_. Return True) = q) (map (tree_generate hl tc) [0..<2 ^ k])
      (map (native_leaf hl tc) (enumerate 0 (tc_leaves tc)))"
    using native_leaf_eq [OF assms] len by (auto simp: list_all2_conv_all_nth nth_enumerate_eq)
  moreover have "list_all2 (\<lambda>p q. pbind p (\<lambda>_. Return True) = q) (map (tree_generate hl tc) [2 ^ k..<length (tree_nodes k)])
      (map (native_parent hl tc) [2 ^ k..<length (tree_nodes k)])"
    using native_parent_eq [OF assms] by (auto simp: list_all2_conv_all_nth)
  ultimately show ?thesis
    unfolding split len map_append
    by (intro list_all2_appendI) (simp_all add: tree_generate_padding [OF len] dummy_ops_forget)
qed

section \<open>Properties\<close>

lemma tree_traced:
  fixes hl :: "'f::field hash_lib"
  assumes hl: "tree_hash_ok hl" "0 < tp_num_sha_iters (tc_params tc)" "0 < tp_num_portals (tc_params tc)"
    and len: "length (tc_leaves tc) = 2 ^ k" and k: "0 < k" "k \<le> 30"
  obtains s where
    "rom_setup_run (map (tree_generate hl tc) [0..<tree_num_subcircuits tc]) setup_rom_new = Inr (root_accepted hl tc k, s)"
    "tree_portal_subtraces hl tc = Inr (map (map RomEntry) (sr_subtraces s))"
    "setup_rom_store s placeholder = Some 0"
proof -
  obtain m where m: "eval_run False (map (tree_generate hl tc) [0..<tree_num_subcircuits tc]) Map.empty = Inr (root_accepted hl tc k, m)"
    "m placeholder = Some 0"
    by (rule eval_tree [OF assms])
  then obtain s where s: "rom_setup_run (map (tree_generate hl tc) [0..<tree_num_subcircuits tc]) setup_rom_new
      = Inr (root_accepted hl tc k, s)" "m = setup_rom_store s"
    using rom_setup_run_eval [of "map (tree_generate hl tc) [0..<tree_num_subcircuits tc]" setup_rom_new]
    by (auto split: sum.splits)
  note setup_run_forget [OF native_programs [OF hl(1,2) len k(2)] s(1) [unfolded rom_setup_run_def]]
  moreover have "usub (length (tc_leaves tc) * 2) 1 = Inr (length (tree_nodes k))"
    using len by (simp add: length_tree_nodes mult.commute)
  ultimately have "tree_portal_subtraces hl tc = Inr (map (map RomEntry) (sr_subtraces s))"
    by (simp add: tree_portal_subtraces_def rom_setup_run_def Let_def)
  with s m(2) that show thesis by blast
qed

text \<open>
  C10: The constraints of the Merkle tree circuit hold exactly when its root hash is the one that
  \<open>calculate_root\<close> computes from its leaves, for any tree of \<open>2\<close> to \<open>2 ^ 30\<close> leaves; the run over
  all subcircuits with the recording manager never fails, and \<open>get_portal_subtraces\<close>, which hashes
  outside the circuit, returns exactly the trace that this run records.
\<close>

theorem tree_circuit_computes_root:
  fixes hl :: "'f::field hash_lib"
  assumes "tree_hash_ok hl" and "char_above TYPE('f) (2 ^ 216)"
    and "0 < tp_num_sha_iters (tc_params tc)" "0 < tp_num_portals (tc_params tc)"
    and "length (tc_leaves tc) = 2 ^ k" and "0 < k" "k \<le> 30" and "length (tc_root_hash tc) = inner_hash_size"
  shows "\<exists>s rt. rom_setup_run (map (tree_generate hl tc) [0..<tree_num_subcircuits tc]) setup_rom_new = Inr (tc_root_hash tc = rt, s)
     \<and> calculate_root hl (tc_leaves tc) (tc_params tc) = Inr rt
     \<and> tree_portal_subtraces hl tc = Inr (map (map RomEntry) (sr_subtraces s))"
proof -
  obtain s where "rom_setup_run (map (tree_generate hl tc) [0..<tree_num_subcircuits tc]) setup_rom_new = Inr (root_accepted hl tc k, s)"
    "tree_portal_subtraces hl tc = Inr (map (map RomEntry) (sr_subtraces s))"
    using tree_traced [OF assms(1,3-7)] by blast
  then show ?thesis
    using root_accepted_iff [OF assms(1,3,2,8)] calculate_root_eq [OF assms(1,3,5)] by simp
qed

section \<open>The tree proved by the distributed prover\<close>

definition tree_codec_ok :: "tree_codec \<Rightarrow> bool" where
  "tree_codec_ok cd \<longleftrightarrow> (\<forall>v. tcd_de_leaf cd (tcd_ser_leaf cd v) = Some v) \<and> (\<forall>v. tcd_de_hash cd (tcd_ser_hash cd v) = Some v)"

lemma tree_ops_simps [simp]:
  "op_mem_type (tree_ops hl cd) = Rom" "op_generate (tree_ops hl cd) = tree_generate hl"
  "op_num_subcircuits (tree_ops hl cd) = tree_num_subcircuits" "op_portal_subtraces (tree_ops hl cd) = tree_portal_subtraces hl"
  "op_get_witnesses (tree_ops hl cd) = tree_get_witnesses cd" "op_set_witnesses (tree_ops hl cd) = tree_set_witnesses cd"
  "op_new (tree_ops hl cd) = tree_new" "op_get_params (tree_ops hl cd) = tc_params"
  by (simp_all add: tree_ops_def)

lemma sets_tree_generate: "sets_at_most (tree_generate (hl :: 'a::field hash_lib) tc i) 2"
proof -
  have dummy: "sets_at_most (dummy_ops params x :: ('a, bool) portal) 0" for params x
    unfolding dummy_ops_def
  proof (intro sets_at_most_lift_bind allI)
    fix n
    show "sets_at_most (pfold (\<lambda>_ x. pbind (portal_get placeholder) (\<lambda>_. Return x)) [0..<n] x :: ('a, bool) portal) 0"
      using sets_at_most_pfold [of "\<lambda>_ x. pbind (portal_get placeholder) (\<lambda>_. Return x) :: ('a, bool) portal" 0 "[0..<n]" x]
      by (simp add: portal_get_def)
  qed
  have tail: "sets_at_most (pbind (set_placeholder i) (\<lambda>_. dummy_ops (tc_params tc) ok) :: ('a, bool) portal) 1" for ok
  proof (cases "i = 0")
    case True
    then show ?thesis using dummy [of "tc_params tc" ok] by (simp add: set_placeholder_def portal_set_def)
  next
    case False
    then show ?thesis using sets_at_most_mono [where l = 1, OF dummy [of "tc_params tc" ok]] by (simp add: set_placeholder_def)
  qed
  have leaf: "sets_at_most (leaf_constraints hl tc w) 1" for w
    unfolding leaf_constraints_def Let_def
    by (intro sets_at_most_lift_bind allI) (simp add: portal_set_def)
  have parent: "sets_at_most (parent_constraints hl tc w b) 1" for w b
    unfolding parent_constraints_def Let_def
    by (intro sets_at_most_lift_bind sets_at_most_get_bind allI) (simp add: portal_set_def)
  have node: "sets_at_most (if b then Return True else pbind (lift_res r) (\<lambda>node_idx. pbind (lift_res rr) (\<lambda>rt.
      if level node_idx = 0 then leaf_constraints hl tc node_idx else parent_constraints hl tc node_idx (rt = node_idx)))) 1" for b r rr
  proof (cases b)
    case False
    show ?thesis unfolding if_not_P [OF False]
      by (intro sets_at_most_lift_bind allI) (simp add: leaf [unfolded One_nat_def] parent [unfolded One_nat_def])
  qed simp
  have two: "sets_at_most p 1 \<Longrightarrow> \<forall>x. sets_at_most (q x) 1 \<Longrightarrow> sets_at_most (pbind p q) 2" for p q
    using sets_at_most_bind [of p 1 q 1] by (simp add: numeral_2_eq_2)
  show ?thesis
    unfolding tree_generate_def Let_def
    by (intro sets_at_most_lift_bind allI two node tail)
qed

lemma tree_witness_contract:
  assumes cd: "tree_codec_ok cd" and iters: "0 < tp_num_sha_iters (tc_params tc)"
    and len: "length (tc_leaves tc) = 2 ^ k" "tp_num_leaves (tc_params tc) = 2 ^ k" and k: "k \<le> 30"
    and i: "i < tree_num_subcircuits tc"
  shows "witness_contract (tree_ops hl cd) tc i"
proof -
  let ?new = "\<lparr>tc_leaves = replicate (2 ^ k) empty_leaf, tc_root_hash = replicate inner_hash_size 0, tc_params = tc_params tc\<rparr>"
  have new: "tree_new (tc_params tc) = Inr ?new" using iters len(2) by (simp add: tree_new_def)
  have last: "usub (tree_num_subcircuits tc) 1 = Inr (length (tree_nodes k))" "tree_num_subcircuits ?new = tree_num_subcircuits tc"
    using len by (simp_all add: tree_num_subcircuits_def length_tree_nodes)
  show ?thesis
  proof (cases "i = length (tree_nodes k)")
    case True
    then have "tree_generate hl ?new i = tree_generate hl tc i"
      using tree_generate_padding [of tc k hl] tree_generate_padding [of ?new k hl] len(1) by simp
    then show ?thesis using True last new by (simp add: witness_contract_def tree_get_witnesses_def tree_set_witnesses_def Let_def)
  next
    case False
    then have b: "i < length (tree_nodes k)" using i len(1) by (simp add: num_subcircuits_nodes [of tc k])
    obtain l u where n: "tree_nodes k ! i = (l, u)" by fastforce
    then have mem: "(l, u) \<in> set (tree_nodes k)" using b by (metis nth_mem)
    then have lu: "l \<le> k" "u < 2 ^ (k - l)" "l < 32" using k by auto
    have idx: "subcircuit_idx_to_node_idx i (2 ^ k) = Inr (node_at l u)" using node_idx_eq [OF k, of i] b n by simp
    have rt: "node_at k 0 = node_at l u \<longleftrightarrow> l = k" using is_root_iff [OF mem k] by simp
    have lv: "level (node_at l u) = l" using lu(3) by (rule level_node_at)
    note gen = tree_generate_node [OF _ k b, of _ hl, unfolded n]
    have same: "tree_generate hl tc' i = tree_generate hl tc i"
      if "length (tc_leaves tc') = 2 ^ k" "tc_params tc' = tc_params tc" "l = 0 \<Longrightarrow> tc_leaves tc' ! u = tc_leaves tc ! u"
        "l \<noteq> 0 \<Longrightarrow> l = k \<Longrightarrow> tc_root_hash tc' = tc_root_hash tc" for tc'
      using gen [OF that(1)] gen [OF len(1)] that(2-4) by (cases l) (auto simp: Let_def)
    show ?thesis
    proof (cases "l = 0")
      case True
      then have u: "unat (node_at l u div 2) = u" "u < 2 ^ k" using leaf_of_node [of u k] mem k by auto
      let ?tc = "?new\<lparr>tc_leaves := (replicate (2 ^ k) empty_leaf)[u := tc_leaves tc ! u]\<rparr>"
      have "tree_generate hl ?tc i = tree_generate hl tc i" using True u by (intro same) simp_all
      then show ?thesis
        using False True last new idx rt lv u len root_idx_power [OF k] cd
        by (simp add: witness_contract_def tree_get_witnesses_def tree_set_witnesses_def tree_num_subcircuits_def
            tree_codec_ok_def de_unwrap_def Let_def)
    next
      case inner: False
      let ?tc = "if l = k then ?new\<lparr>tc_root_hash := tc_root_hash tc\<rparr> else ?new"
      have "tree_generate hl ?tc i = tree_generate hl tc i" using inner by (intro same) simp_all
      then show ?thesis
        using False inner last new idx rt lv len root_idx_power [OF k] cd
        by (auto simp: witness_contract_def tree_get_witnesses_def tree_set_witnesses_def tree_num_subcircuits_def
            tree_codec_ok_def de_unwrap_def Let_def)
    qed
  qed
qed

text \<open>
  C14: The Merkle tree benchmark works end to end: for random leaves, \<open>2\<close> to \<open>2 ^ 30\<close> of them, the
  circuit is generated and traced, the coordinator gets through both stages without failing, and every
  worker that answers its requests, starting from an empty circuit and the serialised witnesses, ends
  with a satisfied stage 1 constraint system.
\<close>

theorem tree_hash_end_to_end:
  fixes hl :: "'f::field hash_lib"
  assumes "tree_hash_ok hl" and "tree_codec_ok cd" and "char_above TYPE('f) (2 ^ 216)"
    and "0 < tp_num_sha_iters params" "0 < tp_num_portals params"
    and "tp_num_leaves params = 2 ^ k" and "length leaves = 2 ^ k" and "0 < k" "k \<le> 30"
    and "merkle_complete ml" and "\<forall>ls. length ls = 2 * 2 ^ k \<longrightarrow> mt_new ml ls \<noteq> None"
    and "commit_left (map s0_com (sort_key s0_idx resps)) = Inr super_com"
  shows "\<exists>tc st0 st1. tree_rand hl leaves params = Inr tc \<and> coordinator0_new (tree_ops hl cd) tc = Inr st0
     \<and> process_stage0_responses sha256 ser ml Rom commit_left resps st0 = Inr st1
     \<and> (\<forall>i < 2 * 2 ^ k. \<exists>req0 req1. gen_request0 st0 i = Inr req0 \<and> gen_request1 Rom st1 i = Inr req1
           \<and> result_map snd (process_stage1_request (tree_ops hl cd) ml (\<lambda>s cb. Inr (commit s cb)) (\<lambda>cb cs rs. Inr (prove cb cs rs)) req0 resp0 req1) = Inr True)"
proof -
  let ?ops = "tree_ops hl cd"
  define tc where "tc = \<lparr>tc_leaves = leaves, tc_root_hash = node_digest hl params leaves k 0, tc_params = params\<rparr>"
  have rand: "tree_rand hl leaves params = Inr tc"
    using calculate_root_eq [OF assms(1,4,7)] by (simp add: tree_rand_def tc_def)
  have tc: "tc_params tc = params" "tc_leaves tc = leaves" "length (tc_root_hash tc) = inner_hash_size"
    using length_node_digest [OF assms(1,4)] by (simp_all add: tc_def)
  have n: "op_num_subcircuits ?ops tc = 2 * 2 ^ k" "tree_num_subcircuits tc = 2 * 2 ^ k"
    using assms(7) by (simp_all add: tree_num_subcircuits_def tc)
  obtain s where s: "rom_setup_run (map (tree_generate hl tc) [0..<tree_num_subcircuits tc]) setup_rom_new = Inr (root_accepted hl tc k, s)"
    "tree_portal_subtraces hl tc = Inr (map (map RomEntry) (sr_subtraces s))" "setup_rom_store s placeholder = Some 0"
    using tree_traced [OF assms(1), of tc k] assms(4,5,7-9) tc by auto
  have acc: "root_accepted hl tc k"
    using root_accepted_iff [OF assms(1) _ assms(3) tc(3)] assms(4) by (simp add: tc) (simp add: tc_def)
  have run: "rom_setup_run (map (op_generate ?ops tc) [0..<2 * 2 ^ k]) setup_rom_new = Inr (True, s)"
    using s(1) acc n(2) by simp
  have "list_all2 sets_at_most (map (op_generate ?ops tc) [0..<2 * 2 ^ k]) (replicate (2 * 2 ^ k) 2)"
    by (simp add: list_all2_conv_all_nth sets_tree_generate)
  from rom_setup_run_size [OF this run] have "card (dom (sr_var_map s)) \<le> 4 * 2 ^ k"
    by (simp add: setup_rom_new_def sum_list_replicate)
  moreover have "(2 :: nat) ^ k \<le> 2 ^ 30" using assms(9) by (intro power_increasing) simp_all
  ultimately have cap: "card (dom (sr_var_map s)) < 2 ^ 64 - 1" by simp
  have ne: "concat (sr_subtraces s) \<noteq> []" using rom_setup_run_nonempty [OF run, of placeholder] s(3) by simp
  have contract: "\<forall>i < 2 * 2 ^ k. witness_contract ?ops tc i"
    using tree_witness_contract [OF assms(2), of tc k _ hl] assms(4,6,7,9) n(2) tc by simp
  have "op_mem_type ?ops = Rom" "op_portal_subtraces ?ops tc = Inr (map (map RomEntry) (sr_subtraces s))" using s(2) by simp_all
  from rom_protocol_run [where commit_left = commit_left and resps = resps and ?sha256.0 = sha256 and ser = ser
      and commit = commit and prove = prove and ?resp0.0 = resp0,
      OF this(1) n(1) run this(2) cap ne contract assms(10-12)] rand show ?thesis by blast
qed

section \<open>Instances\<close>

text \<open>A library whose digests depend on the input, and a tree of two leaves.\<close>

definition toy_sha256 :: "u8 list \<Rightarrow> u8 list" where
  "toy_sha256 v = take 32 (map (\<lambda>b. 3 * b + 1) v @ replicate 32 7)"

definition tree_toy_lib :: "rat hash_lib" where
  "tree_toy_lib = toy_hash_lib\<lparr>hl_sha256 := toy_sha256, hl_sha256_gadget := toy_sha256\<rparr>"

definition tree_toy_codec :: tree_codec where
  "tree_toy_codec = \<lparr>tcd_ser_leaf = (\<lambda>v. v), tcd_de_leaf = Some, tcd_ser_hash = (\<lambda>v. v), tcd_de_hash = Some\<rparr>"

definition tree_toy_params :: tree_params where
  "tree_toy_params = \<lparr>tp_num_leaves = 2, tp_num_sha_iters = 2, tp_num_portals = 3\<rparr>"

definition tree_toy :: tree_circuit where
  "tree_toy = \<lparr>tc_leaves = [replicate 64 1, replicate 64 2], tc_root_hash = replicate 27 0, tc_params = tree_toy_params\<rparr>"

lemma tree_toy_lib_ok: "tree_hash_ok tree_toy_lib"
proof -
  have "length (toy_sha256 v) = 32" for v by (simp add: toy_sha256_def min_def)
  moreover have "216 \<le> length (hl_to_bits_le toy_hash_lib x)" for x by (simp add: toy_hash_lib_def)
  ultimately show ?thesis using toy_hash_lib_ok by (simp add: tree_hash_ok_def hash_lib_ok_def tree_toy_lib_def)
qed

lemma tree_toy_codec_ok: "tree_codec_ok tree_toy_codec"
  by (simp add: tree_codec_ok_def tree_toy_codec_def)

theorem tree_circuit_computes_root_witness:
  "\<exists>s rt. rom_setup_run (map (tree_generate tree_toy_lib tree_toy) [0..<tree_num_subcircuits tree_toy]) setup_rom_new
       = Inr (tc_root_hash tree_toy = rt, s)
     \<and> calculate_root tree_toy_lib (tc_leaves tree_toy) (tc_params tree_toy) = Inr rt"
  using tree_circuit_computes_root [OF tree_toy_lib_ok char_above_char_0, of tree_toy 1]
  by (auto simp: tree_toy_def tree_toy_params_def inner_hash_size_def)

theorem tree_hash_end_to_end_witness:
  "\<exists>tc st0 st1 req0 req1. tree_rand tree_toy_lib [replicate 64 1, replicate 64 2] tree_toy_params = Inr tc
     \<and> coordinator0_new (tree_ops tree_toy_lib tree_toy_codec) tc = Inr st0
     \<and> process_stage0_responses (\<lambda>_. [3]) (\<lambda>_. []) flat_merkle Rom (\<lambda>_. Inr ()) [\<lparr>s0_idx = 0, s0_com = (), s0_seed = ()\<rparr>] st0 = Inr st1
     \<and> gen_request0 st0 2 = Inr req0 \<and> gen_request1 Rom st1 2 = Inr req1
     \<and> result_map snd (process_stage1_request (tree_ops tree_toy_lib tree_toy_codec) flat_merkle (\<lambda>s cb. Inr ((), ()))
          (\<lambda>cb cs rs. Inr ()) req0
          \<lparr>s0_idx = 2, s0_com = (), s0_seed = ()\<rparr> req1) = Inr True"
proof -
  have params: "0 < tp_num_sha_iters tree_toy_params" "0 < tp_num_portals tree_toy_params" "tp_num_leaves tree_toy_params = 2 ^ 1"
    by (simp_all add: tree_toy_params_def)
  have new: "\<forall>ls. length ls = 2 * 2 ^ 1 \<longrightarrow> mt_new flat_merkle ls \<noteq> None" by (simp add: flat_merkle_def)
  have len: "length [replicate 64 (1 :: u8), replicate 64 2] = 2 ^ 1" by simp
  from tree_hash_end_to_end [where commit_left = "\<lambda>_. Inr ()" and super_com = "()" and k = 1 and ?sha256.0 = "\<lambda>_. [3]" and ser = "\<lambda>_. []"
      and resps = "[\<lparr>s0_idx = 0, s0_com = (), s0_seed = ()\<rparr>]" and ?resp0.0 = "\<lparr>s0_idx = 2, s0_com = (), s0_seed = ()\<rparr>"
      and commit = "\<lambda>s cb. ((), ())" and prove = "\<lambda>cb cs rs. ()",
      OF tree_toy_lib_ok tree_toy_codec_ok char_above_char_0 params len _ _ flat_merkle_complete new refl]
  obtain tc st0 st1 where r: "tree_rand tree_toy_lib [replicate 64 1, replicate 64 2] tree_toy_params = Inr tc"
    "coordinator0_new (tree_ops tree_toy_lib tree_toy_codec) tc = Inr st0"
    "process_stage0_responses (\<lambda>_. [3]) (\<lambda>_. []) flat_merkle Rom (\<lambda>_. Inr ()) [\<lparr>s0_idx = 0, s0_com = (), s0_seed = ()\<rparr>] st0 = Inr st1"
    "\<And>i. i < 2 * 2 ^ 1 \<Longrightarrow> \<exists>req0 req1. gen_request0 st0 i = Inr req0 \<and> gen_request1 Rom st1 i = Inr req1
     \<and> result_map snd (process_stage1_request (tree_ops tree_toy_lib tree_toy_codec) flat_merkle (\<lambda>s cb. Inr ((), ()))
          (\<lambda>cb cs rs. Inr ()) req0 \<lparr>s0_idx = 2, s0_com = (), s0_seed = ()\<rparr> req1) = Inr True"
    by auto
  from r(1-3) r(4) [of 2] show ?thesis by auto
qed

end
