(* ===== verification/Groth16.thy ===== *)
theory Groth16
  imports Prelude
begin

text \<open>
  The commit-and-prove variant of Groth16 of \<open>cp-groth16\<close>: constraint systems that are synthesised
  in stages (\<open>constraint_synthesizer.rs\<close>), key generation (\<open>generator.rs\<close>), commitments to the
  witnesses of the early stages and proofs for the last one (\<open>committer.rs\<close>, \<open>prover.rs\<close>),
  and verification (\<open>verifier.rs\<close>). The pairing-friendly curve, the R1CS constraint system and
  its reduction to a quadratic arithmetic program are libraries and enter as parameters; random field
  elements are arguments. Affine, projective and prepared forms of a group element are one value.
\<close>

section \<open>The libraries\<close>

text \<open>A curve: the scalar multiplications of the two source groups, and the two halves of the pairing.\<close>

record ('f, 'g1, 'g2, 'gt, 'ml) pairing_lib =
  pl_smul1 :: "'f \<Rightarrow> 'g1 \<Rightarrow> 'g1"
  pl_smul2 :: "'f \<Rightarrow> 'g2 \<Rightarrow> 'g2"
  pl_pairing :: "'g1 \<Rightarrow> 'g2 \<Rightarrow> 'gt"
  pl_multi_miller_loop :: "'g1 list \<Rightarrow> 'g2 list \<Rightarrow> 'ml"
  pl_final_exponentiation :: "'ml \<Rightarrow> 'gt option"

datatype synthesis_mode = Setup | Prove

datatype optimization_goal = NoGoal | Constraints | Weight

text \<open>
  A constraint system, with the fields the program reads. In setup mode variables are counted and
  not assigned. The constraints themselves are opaque.
\<close>

record ('f, 'm) constraint_system =
  cs_mode :: synthesis_mode
  cs_goal :: optimization_goal
  cs_num_instance :: nat
  cs_num_witness :: nat
  cs_num_constraints :: nat
  cs_instance_assignment :: "'f list"
  cs_witness_assignment :: "'f list"
  cs_body :: 'm

record ('f, 'm) r1cs_lib =
  rl_new :: "('f, 'm) constraint_system"
  rl_finalize :: "('f, 'm) constraint_system \<Rightarrow> ('f, 'm) constraint_system"
  rl_is_satisfied :: "('f, 'm) constraint_system \<Rightarrow> failure + bool"
  rl_domain_exists :: "nat \<Rightarrow> bool"
  rl_instance_map :: "('f, 'm) constraint_system \<Rightarrow> 'f \<Rightarrow> failure + ('f list \<times> 'f list \<times> 'f list \<times> 'f \<times> nat \<times> nat)"
  rl_witness_map :: "('f, 'm) constraint_system \<Rightarrow> failure + 'f list"
  rl_h_query_scalars :: "nat \<Rightarrow> 'f \<Rightarrow> 'f \<Rightarrow> 'f \<Rightarrow> failure + 'f list"

section \<open>Multi-stage constraint systems\<close>

definition last_of :: "string \<Rightarrow> 'a list \<Rightarrow> failure + 'a" where
  "last_of msg xs = unwrap msg (if xs = [] then None else Some (last xs))"

abbreviation unwrap_none :: string where
  "unwrap_none \<equiv> ''called `Option::unwrap()` on a `None` value''"

record ('f, 'm) multi_stage_cs =
  ms_cs :: "('f, 'm) constraint_system"
  ms_ranges :: "(nat \<times> nat) list"

definition ms_new :: "('f, 'm) r1cs_lib \<Rightarrow> ('f, 'm) multi_stage_cs" where
  "ms_new rl = \<lparr>ms_cs = rl_new rl, ms_ranges = []\<rparr>"

definition ms_set_optimization_goal :: "optimization_goal \<Rightarrow> ('f, 'm) multi_stage_cs \<Rightarrow> ('f, 'm) multi_stage_cs" where
  "ms_set_optimization_goal goal ms = ms\<lparr>ms_cs := (ms_cs ms)\<lparr>cs_goal := goal\<rparr>\<rparr>"

definition ms_set_mode :: "synthesis_mode \<Rightarrow> ('f, 'm) multi_stage_cs \<Rightarrow> ('f, 'm) multi_stage_cs" where
  "ms_set_mode mode ms = ms\<lparr>ms_cs := (ms_cs ms)\<lparr>cs_mode := mode\<rparr>\<rparr>"

definition initialize_stage :: "('f, 'm) multi_stage_cs \<Rightarrow> ('f, 'm) multi_stage_cs" where
  "initialize_stage ms = (let start = cs_num_witness (ms_cs ms) in ms\<lparr>ms_ranges := ms_ranges ms @ [(start, start)]\<rparr>)"

definition finalize_stage :: "('f, 'm) multi_stage_cs \<Rightarrow> failure + ('f, 'm) multi_stage_cs" where
  "finalize_stage ms =
     (let stop = cs_num_witness (ms_cs ms) in
      rbind (last_of unwrap_none (ms_ranges ms)) (\<lambda>r.
        Inr (ms\<lparr>ms_ranges := butlast (ms_ranges ms) @ [(fst r, stop)]\<rparr>)))"

definition synthesize_with ::
    "(('f, 'm) constraint_system \<Rightarrow> failure + ('c \<times> ('f, 'm) constraint_system)) \<Rightarrow> ('f, 'm) multi_stage_cs
      \<Rightarrow> failure + ('c \<times> ('f, 'm) multi_stage_cs)" where
  "synthesize_with constraints ms =
     (let ms = initialize_stage ms in
      rbind (constraints (ms_cs ms)) (\<lambda>(c, cs).
      rbind (finalize_stage (ms\<lparr>ms_cs := cs\<rparr>)) (\<lambda>ms. Inr (c, ms))))"

definition ms_num_instance_variables :: "('f, 'm) multi_stage_cs \<Rightarrow> nat" where
  "ms_num_instance_variables ms = cs_num_instance (ms_cs ms)"

definition ms_num_witness_variables :: "('f, 'm) multi_stage_cs \<Rightarrow> nat" where
  "ms_num_witness_variables ms = cs_num_witness (ms_cs ms)"

definition ms_num_constraints :: "('f, 'm) multi_stage_cs \<Rightarrow> nat" where
  "ms_num_constraints ms = cs_num_constraints (ms_cs ms)"

definition current_stage_witness_assignment :: "('f, 'm) multi_stage_cs \<Rightarrow> failure + 'f list" where
  "current_stage_witness_assignment ms =
     rbind (last_of unwrap_none (ms_ranges ms)) (\<lambda>r.
       slice_range (fst r) (snd r) (cs_witness_assignment (ms_cs ms)))"

definition full_assignment :: "('f, 'm) multi_stage_cs \<Rightarrow> 'f list" where
  "full_assignment ms = cs_instance_assignment (ms_cs ms) @ cs_witness_assignment (ms_cs ms)"

definition ms_finalize :: "('f, 'm) r1cs_lib \<Rightarrow> ('f, 'm) multi_stage_cs \<Rightarrow> ('f, 'm) multi_stage_cs" where
  "ms_finalize rl ms = ms\<lparr>ms_cs := rl_finalize rl (ms_cs ms)\<rparr>"

definition ms_is_satisfied :: "('f, 'm) r1cs_lib \<Rightarrow> ('f, 'm) multi_stage_cs \<Rightarrow> failure + bool" where
  "ms_is_satisfied rl ms = rl_is_satisfied rl (ms_cs ms)"

text \<open>The trait of a circuit that is synthesised in stages.\<close>

record ('f, 'm, 'c) synthesizer =
  sy_total_num_stages :: "'c \<Rightarrow> nat"
  sy_generate_constraints :: "nat \<Rightarrow> 'c \<Rightarrow> ('f, 'm) multi_stage_cs \<Rightarrow> failure + ('c \<times> ('f, 'm) multi_stage_cs)"

definition last_stage :: "('f, 'm, 'c) synthesizer \<Rightarrow> 'c \<Rightarrow> failure + nat" where
  "last_stage sy c = usub (sy_total_num_stages sy c) 1"

section \<open>Keys, commitments and proofs\<close>

record ('g1, 'g2) verifying_key =
  vk_alpha_g :: 'g1
  vk_beta_h :: 'g2
  vk_gamma_h :: 'g2
  vk_last_delta_h :: 'g2
  vk_gamma_abc_g :: "'g1 list"
  vk_deltas_h :: "'g2 list"

record ('g1, 'g2, 'gt) prepared_verifying_key =
  pvk_vk :: "('g1, 'g2) verifying_key"
  pvk_alpha_beta_gt :: 'gt
  pvk_neg_gamma_h :: 'g2
  pvk_neg_deltas_h :: "'g2 list"

record 'g1 committer_key =
  ck_last_delta_g :: 'g1
  ck_deltas_abc_g :: "'g1 list list"

record ('g1, 'g2) proving_key =
  pk_vk :: "('g1, 'g2) verifying_key"
  pk_beta_g :: 'g1
  pk_a_g :: "'g1 list"
  pk_b_g :: "'g1 list"
  pk_b_h :: "'g2 list"
  pk_h_g :: "'g1 list"
  pk_ck :: "'g1 committer_key"
  pk_deltas_g :: "'g1 list"

record ('g1, 'g2) proof_without_comms =
  pw_a :: 'g1
  pw_b :: 'g2
  pw_c :: 'g1

record ('g1, 'g2) cp_proof =
  pr_a :: 'g1
  pr_b :: 'g2
  pr_c :: 'g1
  pr_ds :: "'g1 list"

definition pk_last_delta_g :: "('g1, 'g2) proving_key \<Rightarrow> failure + 'g1" where
  "pk_last_delta_g pk = last_of unwrap_none (pk_deltas_g pk)"

definition pk_last_delta_h :: "('g1, 'g2) proving_key \<Rightarrow> failure + 'g2" where
  "pk_last_delta_h pk = last_of unwrap_none (vk_deltas_h (pk_vk pk))"

definition pk_last_ck :: "('g1, 'g2) proving_key \<Rightarrow> failure + 'g1 list" where
  "pk_last_ck pk = last_of unwrap_none (ck_deltas_abc_g (pk_ck pk))"

section \<open>Multi-scalar multiplication\<close>

text \<open>
  \<open>msm\<close> refuses vectors of different lengths, \<open>msm_unchecked\<close> and \<open>msm_bigint\<close> stop at the
  shorter one; \<open>FixedBase::msm\<close> multiplies one base by many scalars.
\<close>

definition msm_sum :: "('f \<Rightarrow> 'g \<Rightarrow> 'g::ab_group_add) \<Rightarrow> 'g list \<Rightarrow> 'f list \<Rightarrow> 'g" where
  "msm_sum smul bases scalars = sum_list (map2 (\<lambda>b s. smul s b) bases scalars)"

definition msm :: "('f \<Rightarrow> 'g \<Rightarrow> 'g::ab_group_add) \<Rightarrow> 'g list \<Rightarrow> 'f list \<Rightarrow> 'g option" where
  "msm smul bases scalars = (if length bases = length scalars then Some (msm_sum smul bases scalars) else None)"

definition fixed_base_msm :: "('f \<Rightarrow> 'g \<Rightarrow> 'g) \<Rightarrow> 'g \<Rightarrow> 'f list \<Rightarrow> 'g list" where
  "fixed_base_msm smul base scalars = map (\<lambda>s. smul s base) scalars"

text \<open>The window table of \<open>FixedBase\<close> only depends on the number of scalars that are not zero.\<close>

definition count_non_zero :: "nat \<Rightarrow> 'f::zero list \<Rightarrow> failure + nat" where
  "count_non_zero n xs = rbind (rmap (vindex xs) [0..<n]) (\<lambda>vs. Inr (length (filter (\<lambda>v. v \<noteq> 0) vs)))"

definition field_inverse :: "'f::field \<Rightarrow> 'f option" where
  "field_inverse x = (if x = 0 then None else Some (inverse x))"

section \<open>Key generation\<close>

text \<open>The scalars \<open>(\<beta> a + \<alpha> b + c) / d\<close> of the variables in a range.\<close>

definition abc_scalars :: "'f::field \<Rightarrow> 'f \<Rightarrow> 'f \<Rightarrow> 'f list \<Rightarrow> 'f list \<Rightarrow> 'f list \<Rightarrow> 'f list" where
  "abc_scalars alpha beta dinv a b c = map (\<lambda>((x, y), z). (beta * x + alpha * y + z) * dinv) (zip (zip a b) c)"

definition delta_abc ::
    "'f::field \<Rightarrow> 'f \<Rightarrow> nat \<Rightarrow> 'f list \<Rightarrow> 'f list \<Rightarrow> 'f list \<Rightarrow> 'f \<times> nat \<times> nat \<Rightarrow> failure + 'f list" where
  "delta_abc alpha beta num_instance a b c = (\<lambda>(delta, (start, stop)).
     (let start = start + num_instance; stop = stop + num_instance in
      rbind (unwrap ''deltas should be non-zero'' (field_inverse delta)) (\<lambda>delta_inv.
      rbind (slice_range start stop a) (\<lambda>as.
      rbind (slice_range start stop b) (\<lambda>bs.
      rbind (slice_range start stop c) (\<lambda>cs.
      Inr (abc_scalars alpha beta delta_inv as bs cs)))))))"

definition generate_stages ::
    "('f, 'm, 'c) synthesizer \<Rightarrow> 'c \<Rightarrow> ('f, 'm) multi_stage_cs \<Rightarrow> failure + ('c \<times> ('f, 'm) multi_stage_cs)" where
  "generate_stages sy circuit ms =
     rfold (\<lambda>stage (c, ms). sy_generate_constraints sy stage c ms) [0..<sy_total_num_stages sy circuit] (circuit, ms)"

text \<open>The second half of \<open>generate_parameters\<close>: the group elements of the key.\<close>

definition assemble_proving_key ::
    "('f::field, 'g1::ab_group_add, 'g2::ab_group_add, 'gt, 'ml) pairing_lib \<Rightarrow> ('f, 'm) r1cs_lib
      \<Rightarrow> 'f \<Rightarrow> 'f \<Rightarrow> 'f \<Rightarrow> 'f list \<Rightarrow> 'g1 \<Rightarrow> 'g2 \<Rightarrow> 'f \<Rightarrow> 'f list \<Rightarrow> 'f list \<Rightarrow> 'f \<Rightarrow> nat \<Rightarrow> 'f list list \<Rightarrow> 'f list
      \<Rightarrow> failure + ('g1, 'g2) proving_key" where
  "assemble_proving_key pl rl alpha beta gamma deltas g h t a b zt m_raw deltas_abc gamma_abc =
     (let msm1 = fixed_base_msm (pl_smul1 pl) g; msm2 = fixed_base_msm (pl_smul2 pl) h in
      rbind (last_of ''we should have at least one witness.'' deltas) (\<lambda>last_delta.
      rbind (unwrap ''delta should not be zero'' (field_inverse last_delta)) (\<lambda>last_delta_inv.
      let b_h = msm2 b; deltas_g = msm1 deltas; deltas_h = msm2 deltas in
      rbind (last_of unwrap_none deltas_g) (\<lambda>last_delta_g.
      rbind (last_of unwrap_none deltas_h) (\<lambda>last_delta_h.
      rbind (usub m_raw 1) (\<lambda>m_minus_1.
      rbind (rl_h_query_scalars rl m_minus_1 t zt last_delta_inv) (\<lambda>hs.
      Inr \<lparr>pk_vk = \<lparr>vk_alpha_g = pl_smul1 pl alpha g, vk_beta_h = pl_smul2 pl beta h, vk_gamma_h = pl_smul2 pl gamma h,
                     vk_last_delta_h = last_delta_h, vk_gamma_abc_g = msm1 gamma_abc, vk_deltas_h = deltas_h\<rparr>,
           pk_beta_g = pl_smul1 pl beta g, pk_a_g = msm1 a, pk_b_g = msm1 b, pk_b_h = b_h, pk_h_g = msm1 hs,
           pk_ck = \<lparr>ck_last_delta_g = last_delta_g, ck_deltas_abc_g = map msm1 deltas_abc\<rparr>,
           pk_deltas_g = deltas_g\<rparr>)))))))"

text \<open>
  The random values drawn: \<open>alpha\<close>, \<open>beta\<close>, \<open>gamma\<close>, one \<open>d stage\<close> per stage, the generators \<open>g\<close>
  and \<open>h\<close> of the two groups, and the evaluation point \<open>t\<close>.
\<close>

definition generate_parameters ::
    "('f::field, 'g1::ab_group_add, 'g2::ab_group_add, 'gt, 'ml) pairing_lib \<Rightarrow> ('f, 'm) r1cs_lib \<Rightarrow> ('f, 'm, 'c) synthesizer \<Rightarrow> 'c
      \<Rightarrow> 'f \<Rightarrow> 'f \<Rightarrow> 'f \<Rightarrow> (nat \<Rightarrow> 'f) \<Rightarrow> 'g1 \<Rightarrow> 'g2 \<Rightarrow> 'f \<Rightarrow> failure + ('g1, 'g2) proving_key" where
  "generate_parameters pl rl sy circuit alpha beta gamma d g h t =
     (let deltas = map d [0..<sy_total_num_stages sy circuit];
          mscs = ms_set_mode Setup (ms_set_optimization_goal Constraints (ms_new rl)) in
      rbind (generate_stages sy circuit mscs) (\<lambda>(circuit, mscs).
      let mscs = ms_finalize rl mscs;
          domain_size = ms_num_constraints mscs + ms_num_instance_variables mscs in
      rbind (if rl_domain_exists rl domain_size then Inr () else Inl PolynomialDegreeTooLarge) (\<lambda>_.
      let num_instance = ms_num_instance_variables mscs in
      rbind (rl_instance_map rl (ms_cs mscs) t) (\<lambda>(a, b, c, zt, qap_num_variables, m_raw).
      rbind (count_non_zero qap_num_variables a) (\<lambda>non_zero_a.
      rbind (count_non_zero qap_num_variables b) (\<lambda>non_zero_b.
      rbind (rmap (delta_abc alpha beta num_instance a b c) (zip deltas (ms_ranges mscs))) (\<lambda>deltas_abc.
      rbind (case field_inverse gamma of None \<Rightarrow> Inl UnexpectedIdentity | Some i \<Rightarrow> Inr i) (\<lambda>gamma_inverse.
      rbind (slice_range 0 num_instance a) (\<lambda>a_pub.
      rbind (slice_range 0 num_instance b) (\<lambda>b_pub.
      rbind (slice_range 0 num_instance c) (\<lambda>c_pub.
      let gamma_abc = abc_scalars alpha beta gamma_inverse a_pub b_pub c_pub in
      assemble_proving_key pl rl alpha beta gamma deltas g h t a b zt m_raw deltas_abc gamma_abc)))))))))))"

section \<open>Proving the last stage\<close>

definition calculate_coeff ::
    "('f \<Rightarrow> 'g \<Rightarrow> 'g) \<Rightarrow> 'g::ab_group_add \<Rightarrow> 'g list \<Rightarrow> 'g \<Rightarrow> 'f list \<Rightarrow> failure + 'g" where
  "calculate_coeff smul initial query vk_param assignment =
     rbind (vindex query 0) (\<lambda>el.
     rbind (slice_range 1 (length query) query) (\<lambda>rest.
     let acc = msm_sum smul rest assignment in
     Inr (initial + el + acc + vk_param)))"

definition prove_last_stage ::
    "('f::field, 'g1::ab_group_add, 'g2::ab_group_add, 'gt, 'ml) pairing_lib \<Rightarrow> ('f, 'm) r1cs_lib \<Rightarrow> ('f, 'm, 'c) synthesizer
      \<Rightarrow> ('f, 'm) multi_stage_cs \<Rightarrow> 'c \<Rightarrow> ('g1, 'g2) proving_key \<Rightarrow> 'f \<Rightarrow> 'f \<Rightarrow> failure + ('g1, 'g2) proof_without_comms" where
  "prove_last_stage pl rl sy cs circuit pk r s =
     rbind (last_stage sy circuit) (\<lambda>stage.
     rbind (sy_generate_constraints sy stage circuit cs) (\<lambda>(circuit, cs).
     rbind (ms_is_satisfied rl cs) (\<lambda>ok.
     rbind (ensure ''assertion failed: cs.is_satisfied()?'' ok) (\<lambda>_.
     let cs = ms_finalize rl cs;
         assignment = drop 1 (full_assignment cs) in
     rbind (pk_last_delta_g pk) (\<lambda>last_delta_g.
     rbind (calculate_coeff (pl_smul1 pl) (pl_smul1 pl r last_delta_g) (pk_a_g pk) (vk_alpha_g (pk_vk pk)) assignment) (\<lambda>a_g.
     rbind (if r = 0 then Inr 0
            else calculate_coeff (pl_smul1 pl) (pl_smul1 pl s last_delta_g) (pk_b_g pk) (pk_beta_g pk) assignment) (\<lambda>b_g.
     rbind (pk_last_delta_h pk) (\<lambda>last_delta_h.
     rbind (calculate_coeff (pl_smul2 pl) (pl_smul2 pl s last_delta_h) (pk_b_h pk) (vk_beta_h (pk_vk pk)) assignment) (\<lambda>b_h.
     rbind (current_stage_witness_assignment cs) (\<lambda>current_witness.
     rbind (pk_last_ck pk) (\<lambda>last_ck.
     let l_aux_acc = (case msm (pl_smul1 pl) last_ck current_witness of None \<Rightarrow> 0 | Some l \<Rightarrow> l) in
     rbind (rl_witness_map rl (ms_cs cs)) (\<lambda>h.
     rbind (ensure ''assertion failed: h.len() == pk.h_g.len() + 1'' (length h = length (pk_h_g pk) + 1)) (\<lambda>_.
     rbind (slice_range 0 (length (pk_h_g pk)) h) (\<lambda>h_init.
     rbind (unwrap unwrap_none (msm (pl_smul1 pl) (pk_h_g pk) h_init)) (\<lambda>h_acc.
     let r_s_delta_g = pl_smul1 pl (r * s) last_delta_g;
         r_b_g = pl_smul1 pl r b_g;
         s_a_g = pl_smul1 pl s a_g in
     Inr \<lparr>pw_a = a_g, pw_b = b_h, pw_c = s_a_g + r_b_g - r_s_delta_g + l_aux_acc + h_acc\<rparr>)))))))))))))))"

definition prove_last_stage_without_zk ::
    "('f::field, 'g1::ab_group_add, 'g2::ab_group_add, 'gt, 'ml) pairing_lib \<Rightarrow> ('f, 'm) r1cs_lib \<Rightarrow> ('f, 'm, 'c) synthesizer
      \<Rightarrow> ('f, 'm) multi_stage_cs \<Rightarrow> 'c \<Rightarrow> ('g1, 'g2) proving_key \<Rightarrow> failure + ('g1, 'g2) proof_without_comms" where
  "prove_last_stage_without_zk pl rl sy cs circuit pk = prove_last_stage pl rl sy cs circuit pk 0 0"

text \<open>The zero-knowledge prover draws \<open>r\<close> and \<open>s\<close>.\<close>

definition prove_last_stage_with_zk ::
    "('f::field, 'g1::ab_group_add, 'g2::ab_group_add, 'gt, 'ml) pairing_lib \<Rightarrow> ('f, 'm) r1cs_lib \<Rightarrow> ('f, 'm, 'c) synthesizer
      \<Rightarrow> ('f, 'm) multi_stage_cs \<Rightarrow> 'c \<Rightarrow> ('g1, 'g2) proving_key \<Rightarrow> 'f \<times> 'f \<Rightarrow> failure + ('g1, 'g2) proof_without_comms" where
  "prove_last_stage_with_zk pl rl sy cs circuit pk rng = prove_last_stage pl rl sy cs circuit pk (fst rng) (snd rng)"

section \<open>Committing stage by stage\<close>

record ('f, 'm, 'c, 'g1, 'g2) commitment_builder =
  cb_cs :: "('f, 'm) multi_stage_cs"
  cb_circuit :: 'c
  cb_cur_stage :: nat
  cb_pk :: "('g1, 'g2) proving_key"

definition builder_new :: "('f, 'm) r1cs_lib \<Rightarrow> 'c \<Rightarrow> ('g1, 'g2) proving_key \<Rightarrow> ('f, 'm, 'c, 'g1, 'g2) commitment_builder" where
  "builder_new rl circuit pk =
     \<lparr>cb_cs = ms_set_optimization_goal Constraints (ms_new rl), cb_circuit = circuit, cb_cur_stage = 0, cb_pk = pk\<rparr>"

definition builder_commit ::
    "('f::field, 'g1::ab_group_add, 'g2::ab_group_add, 'gt, 'ml) pairing_lib \<Rightarrow> ('f, 'm) r1cs_lib \<Rightarrow> ('f, 'm, 'c) synthesizer
      \<Rightarrow> 'f \<Rightarrow> ('f, 'm, 'c, 'g1, 'g2) commitment_builder \<Rightarrow> failure + (('g1 \<times> 'f) \<times> ('f, 'm, 'c, 'g1, 'g2) commitment_builder)" where
  "builder_commit pl rl sy randomness cb =
     rbind (sy_generate_constraints sy (cb_cur_stage cb) (cb_circuit cb) (cb_cs cb)) (\<lambda>(circuit, cs).
     rbind (unwrap_res ''is_satisfied'' (ms_is_satisfied rl cs)) (\<lambda>ok.
     rbind (ensure ''assertion failed: self.cs.is_satisfied().unwrap()'' ok) (\<lambda>_.
     rbind (current_stage_witness_assignment cs) (\<lambda>current_witness.
     rbind (unwrap ''no more values left in committing key'' (vget (ck_deltas_abc_g (pk_ck (cb_pk cb))) (cb_cur_stage cb))) (\<lambda>current_ck.
     rbind (ensure ''assertion failed: current_witness.len() == current_ck.len()'' (length current_witness = length current_ck)) (\<lambda>_.
     rbind (unwrap unwrap_none (msm (pl_smul1 pl) current_ck current_witness)) (\<lambda>l.
     let commitment = l + pl_smul1 pl randomness (ck_last_delta_g (pk_ck (cb_pk cb))) in
     Inr ((commitment, randomness), cb\<lparr>cb_cs := cs, cb_circuit := circuit, cb_cur_stage := cb_cur_stage cb + 1\<rparr>))))))))"

definition builder_prove ::
    "('f::field, 'g1::ab_group_add, 'g2::ab_group_add, 'gt, 'ml) pairing_lib \<Rightarrow> ('f, 'm) r1cs_lib \<Rightarrow> ('f, 'm, 'c) synthesizer
      \<Rightarrow> 'g1 list \<Rightarrow> 'f list \<Rightarrow> 'f \<times> 'f \<Rightarrow> ('f, 'm, 'c, 'g1, 'g2) commitment_builder \<Rightarrow> failure + ('g1, 'g2) cp_proof" where
  "builder_prove pl rl sy comms comm_rands rng cb =
     rbind (prove_last_stage_with_zk pl rl sy (cb_cs cb) (cb_circuit cb) (cb_pk cb) rng) (\<lambda>p.
     rbind (ensure ''assertion failed: self.pk.deltas_g.len() == comm_rands.len() + 1''
       (length (pk_deltas_g (cb_pk cb)) = length comm_rands + 1)) (\<lambda>_.
     let kappas_etas_g1 = msm_sum (pl_smul1 pl) (pk_deltas_g (cb_pk cb)) comm_rands in
     Inr \<lparr>pr_a = pw_a p, pr_b = pw_b p, pr_c = pw_c p - kappas_etas_g1, pr_ds = comms\<rparr>))"

section \<open>Verification\<close>

definition prepare_verifying_key ::
    "('f, 'g1, 'g2::ab_group_add, 'gt, 'ml) pairing_lib \<Rightarrow> ('g1, 'g2) verifying_key \<Rightarrow> ('g1, 'g2, 'gt) prepared_verifying_key" where
  "prepare_verifying_key pl vk =
     \<lparr>pvk_vk = vk, pvk_alpha_beta_gt = pl_pairing pl (vk_alpha_g vk) (vk_beta_h vk), pvk_neg_gamma_h = - vk_gamma_h vk,
      pvk_neg_deltas_h = map uminus (vk_deltas_h vk)\<rparr>"

definition verify_proof_with_prepared_inputs ::
    "('f, 'g1, 'g2, 'gt, 'ml) pairing_lib \<Rightarrow> ('g1, 'g2, 'gt) prepared_verifying_key \<Rightarrow> ('g1, 'g2) cp_proof \<Rightarrow> 'g1 \<Rightarrow> failure + bool" where
  "verify_proof_with_prepared_inputs pl pvk pf prepared_inputs =
     (let lhs = pr_a pf # prepared_inputs # pr_ds pf @ [pr_c pf];
          rhs = pr_b pf # pvk_neg_gamma_h pvk # pvk_neg_deltas_h pvk in
      case pl_final_exponentiation pl (pl_multi_miller_loop pl lhs rhs) of
        None \<Rightarrow> Inl UnexpectedIdentity
      | Some test \<Rightarrow> Inr (test = pvk_alpha_beta_gt pvk))"

definition prepare_inputs ::
    "('f, 'g1::ab_group_add, 'g2, 'gt, 'ml) pairing_lib \<Rightarrow> ('g1, 'g2, 'gt) prepared_verifying_key \<Rightarrow> 'f list \<Rightarrow> failure + 'g1" where
  "prepare_inputs pl pvk public_inputs =
     (if length public_inputs + 1 \<noteq> length (vk_gamma_abc_g (pvk_vk pvk)) then Inl MalformedVerifyingKey
      else
        rbind (vindex (vk_gamma_abc_g (pvk_vk pvk)) 0) (\<lambda>g_ic.
        Inr (fold (\<lambda>(input, base) g_ic. g_ic + pl_smul1 pl input base)
          (zip public_inputs (drop 1 (vk_gamma_abc_g (pvk_vk pvk)))) g_ic)))"

definition verify_proof ::
    "('f, 'g1::ab_group_add, 'g2, 'gt, 'ml) pairing_lib \<Rightarrow> ('g1, 'g2, 'gt) prepared_verifying_key \<Rightarrow> ('g1, 'g2) cp_proof \<Rightarrow> 'f list \<Rightarrow> failure + bool" where
  "verify_proof pl vk pf public_inputs =
     rbind (prepare_inputs pl vk public_inputs) (\<lambda>prepared_inputs. verify_proof_with_prepared_inputs pl vk pf prepared_inputs)"

end
