(* ===== verification/Groth16_Correct.thy ===== *)
theory Groth16_Correct
  imports Groth16
begin

text \<open>
  Completeness of the commit-and-prove Groth16: for a circuit whose constraints are satisfied stage by
  stage, the commitments to the early stages and the proof of the last one are produced without an
  error, and the verifier accepts them with the public inputs of the run. The curve, the constraint
  system and the arithmetic program reduction are assumed to satisfy their documented laws.
\<close>

section \<open>Laws of the libraries\<close>

definition scalar_law :: "('f::field \<Rightarrow> 'g \<Rightarrow> 'g::ab_group_add) \<Rightarrow> bool" where
  "scalar_law smul \<longleftrightarrow>
     (\<forall>x y p. smul (x + y) p = smul x p + smul y p) \<and> (\<forall>x p q. smul x (p + q) = smul x p + smul x q)
     \<and> (\<forall>x y p. smul (x * y) p = smul x (smul y p)) \<and> (\<forall>p. smul 1 p = p)"

definition pairing_law ::
    "('f::field, 'g1::ab_group_add, 'g2::ab_group_add, 'gt::ab_group_add, 'ml) pairing_lib \<Rightarrow> bool" where
  "pairing_law pl \<longleftrightarrow>
     scalar_law (pl_smul1 pl) \<and> scalar_law (pl_smul2 pl)
     \<and> (\<forall>p p' q. pl_pairing pl (p + p') q = pl_pairing pl p q + pl_pairing pl p' q)
     \<and> (\<forall>p q q'. pl_pairing pl p (q + q') = pl_pairing pl p q + pl_pairing pl p q')
     \<and> (\<forall>x p q. pl_pairing pl (pl_smul1 pl x p) q = pl_pairing pl p (pl_smul2 pl x q))
     \<and> (\<forall>ps qs. length ps = length qs \<longrightarrow>
          pl_final_exponentiation pl (pl_multi_miller_loop pl ps qs) = Some (sum_list (map2 (pl_pairing pl) ps qs)))"

definition dot :: "'f::semiring_0 list \<Rightarrow> 'f list \<Rightarrow> 'f" where
  "dot xs ys = sum_list (map2 (*) xs ys)"

definition powers_scaled :: "nat \<Rightarrow> 'f::field \<Rightarrow> 'f \<Rightarrow> 'f \<Rightarrow> 'f list" where
  "powers_scaled n t zt dinv = map (\<lambda>i. zt * dinv * t ^ i) [0..<n]"

text \<open>
  The reduction to a quadratic arithmetic program: evaluated at \<open>t\<close>, the polynomials of a satisfied
  system of the same shape satisfy \<open>A B = C + zt h\<close>, with the quotient the witness map computes.
\<close>

definition assignment_of :: "('f, 'm) constraint_system \<Rightarrow> 'f list" where
  "assignment_of cs = cs_instance_assignment cs @ cs_witness_assignment cs"

definition same_shape :: "('f, 'm) constraint_system \<Rightarrow> ('f, 'm) constraint_system \<Rightarrow> bool" where
  "same_shape cs cs' \<longleftrightarrow> cs_num_instance cs = cs_num_instance cs' \<and> cs_num_witness cs = cs_num_witness cs'
     \<and> cs_num_constraints cs = cs_num_constraints cs' \<and> cs_body cs = cs_body cs'"

definition assigned :: "('f, 'm) constraint_system \<Rightarrow> bool" where
  "assigned cs \<longleftrightarrow> cs_mode cs = Prove \<and> length (cs_instance_assignment cs) = cs_num_instance cs
     \<and> length (cs_witness_assignment cs) = cs_num_witness cs"

text \<open>
  With the goal the program sets, fewest constraints, \<open>finalize\<close> rewrites the linear combinations and leaves the
  variables alone. (With the goal \<open>Weight\<close> it would add witnesses.)
\<close>

definition finalize_law :: "('f, 'm) r1cs_lib \<Rightarrow> bool" where
  "finalize_law rl \<longleftrightarrow> (\<forall>cs. cs_goal cs = Constraints \<longrightarrow> cs_num_instance (rl_finalize rl cs) = cs_num_instance cs
     \<and> cs_num_witness (rl_finalize rl cs) = cs_num_witness cs
     \<and> cs_instance_assignment (rl_finalize rl cs) = cs_instance_assignment cs
     \<and> cs_witness_assignment (rl_finalize rl cs) = cs_witness_assignment cs)"

definition qap_law :: "('f::field, 'm) r1cs_lib \<Rightarrow> bool" where
  "qap_law rl \<longleftrightarrow>
     (\<forall>cs t a b c zt n m. rl_instance_map rl cs t = Inr (a, b, c, zt, n, m) \<longrightarrow>
        length a = cs_num_instance cs + cs_num_witness cs \<and> length b = length a \<and> length c = length a)
     \<and> (\<forall>cs cs' t a b c zt n m. cs_goal cs = Constraints \<and> cs_goal cs' = Constraints
          \<and> rl_instance_map rl (rl_finalize rl cs) t = Inr (a, b, c, zt, n, m)
          \<and> same_shape (rl_finalize rl cs) (rl_finalize rl cs') \<and> assigned cs' \<and> rl_is_satisfied rl cs' = Inr True \<longrightarrow>
        (\<exists>h. rl_witness_map rl (rl_finalize rl cs') = Inr h \<and> length h = m \<and>
           dot a (assignment_of cs') * dot b (assignment_of cs')
             = dot c (assignment_of cs') + zt * dot (map (\<lambda>i. t ^ i) [0..<m - 1]) h))
     \<and> (\<forall>n t zt dinv. rl_h_query_scalars rl n t zt dinv = Inr (powers_scaled n t zt dinv))"

lemma qap_lengths:
  assumes "qap_law rl" "rl_instance_map rl cs t = Inr (a, b, c, zt, n, m)"
  shows "length a = cs_num_instance cs + cs_num_witness cs \<and> length b = length a \<and> length c = length a"
  using assms(1) [unfolded qap_law_def, THEN conjunct1, rule_format, OF assms(2)] .

lemma qap_satisfied:
  assumes "qap_law rl" "cs_goal cs = Constraints" "cs_goal cs' = Constraints"
    and "rl_instance_map rl (rl_finalize rl cs) t = Inr (a, b, c, zt, n, m)"
    and "same_shape (rl_finalize rl cs) (rl_finalize rl cs')" "assigned cs'" "rl_is_satisfied rl cs' = Inr True"
  obtains h where "rl_witness_map rl (rl_finalize rl cs') = Inr h" "length h = m"
    "dot a (assignment_of cs') * dot b (assignment_of cs')
      = dot c (assignment_of cs') + zt * dot (map (\<lambda>i. t ^ i) [0..<m - 1]) h"
  using assms(1) [unfolded qap_law_def, THEN conjunct2, THEN conjunct1, rule_format, of cs cs' t a b c zt n m] assms(2-7) that
  by blast

section \<open>Scalars and the groups\<close>

lemma scalar_lawD:
  assumes "scalar_law smul"
  shows scalar_add: "smul (x + y) p = smul x p + smul y p"
    and scalar_add_right: "smul x (p + q) = smul x p + smul x q"
    and scalar_mult: "smul x (smul y p) = smul (x * y) p"
    and scalar_one: "smul 1 p = p"
  using assms unfolding scalar_law_def by simp_all

lemma scalar_zero: "scalar_law smul \<Longrightarrow> smul 0 p = 0"
  using scalar_add [of smul 0 0 p] by simp

lemma scalar_zero_right: "scalar_law smul \<Longrightarrow> smul x 0 = 0"
  using scalar_add_right [of smul x 0 0] by simp

lemma scalar_minus: "scalar_law smul \<Longrightarrow> smul (- x) p = - smul x p"
  using scalar_add [of smul "- x" x p] by (simp add: scalar_zero eq_neg_iff_add_eq_0)

lemma scalar_diff: "scalar_law smul \<Longrightarrow> smul (x - y) p = smul x p - smul y p"
  using scalar_add [of smul x "- y" p] by (simp add: scalar_minus)

lemma dot_simps [simp]: "dot [] ys = 0" "dot xs [] = 0" "dot (x # xs) (y # ys) = x * y + dot xs ys"
  by (simp_all add: dot_def)

lemma dot_commute: "dot xs ys = dot ys (xs :: 'f::comm_semiring_0 list)"
proof (induction xs arbitrary: ys)
  case (Cons x xs)
  then show ?case by (cases ys) (simp_all add: mult.commute)
qed simp

lemma dot_append:
  "length xs = length ys \<Longrightarrow> dot (xs @ xs') (ys @ ys') = dot xs ys + dot xs' ys'"
  by (induction xs ys rule: list_induct2) (simp_all add: add.assoc)

lemma dot_take: "dot (take n xs) ys = dot (take n xs) (take n ys)"
proof (induction xs arbitrary: n ys)
  case (Cons x xs)
  show ?case
  proof (cases n)
    case (Suc k)
    then show ?thesis using Cons.IH [of k "tl ys"] by (cases ys) simp_all
  qed simp
qed simp

lemma dot_scale: "dot (map (\<lambda>x. x * k) xs) ys = k * dot xs (ys :: 'f::comm_semiring_0 list)"
proof (induction xs arbitrary: ys)
  case (Cons x xs)
  then show ?case by (cases ys) (simp_all add: algebra_simps)
qed simp

lemma msm_sum_fixed_base:
  assumes "scalar_law smul"
  shows "msm_sum smul (fixed_base_msm smul g xs) ys = smul (dot xs ys) g"
proof (induction xs arbitrary: ys)
  case Nil
  show ?case by (simp add: msm_sum_def fixed_base_msm_def scalar_zero [OF assms])
next
  case (Cons x xs)
  have "msm_sum smul (fixed_base_msm smul g (x # xs)) (y # zs) = smul y (smul x g) + msm_sum smul (fixed_base_msm smul g xs) zs"
    for y zs by (simp add: msm_sum_def fixed_base_msm_def)
  then show ?case
    using Cons.IH
    by (cases ys)
      (simp_all add: scalar_zero [OF assms] scalar_mult [OF assms] scalar_add [OF assms] mult.commute msm_sum_def)
qed

lemma length_fixed_base_msm [simp]: "length (fixed_base_msm smul g xs) = length xs"
  by (simp add: fixed_base_msm_def)

lemma msm_fixed_base:
  assumes "scalar_law smul" "length xs = length ys"
  shows "msm smul (fixed_base_msm smul g xs) ys = Some (smul (dot xs ys) g)"
  using assms by (simp add: msm_def msm_sum_fixed_base)

lemma calculate_coeff_eq:
  assumes "scalar_law smul" and "z = 1 # zs" and "xs \<noteq> []"
  shows "calculate_coeff smul (smul i g) (fixed_base_msm smul g xs) (smul p g) zs = Inr (smul (i + dot xs z + p) g)"
proof -
  obtain x xs' where xs: "xs = x # xs'" using assms(3) by (cases xs) auto
  have "slice_range 1 (length (fixed_base_msm smul g xs)) (fixed_base_msm smul g xs) = Inr (fixed_base_msm smul g xs')"
    by (simp add: xs slice_range_def fixed_base_msm_def)
  moreover have "vindex (fixed_base_msm smul g xs) 0 = Inr (smul x g)"
    by (simp add: xs fixed_base_msm_def)
  ultimately show ?thesis
    by (simp add: calculate_coeff_def msm_sum_fixed_base [OF assms(1)] assms(2) xs
        scalar_add [OF assms(1)] Let_def add_ac)
qed

section \<open>Consecutive ranges\<close>

definition slice_of :: "nat \<times> nat \<Rightarrow> 'a list \<Rightarrow> 'a list" where
  "slice_of r xs = take (snd r - fst r) (drop (fst r) xs)"

fun chain :: "nat \<Rightarrow> (nat \<times> nat) list \<Rightarrow> nat \<Rightarrow> bool" where
  "chain s [] e = (s = e)"
| "chain s (r # rs) e = (fst r = s \<and> s \<le> snd r \<and> chain (snd r) rs e)"

lemma chain_le: "chain s rs e \<Longrightarrow> s \<le> e"
  by (induction rs arbitrary: s) force+

lemma chain_append: "chain s (rs @ rs') e \<longleftrightarrow> (\<exists>m. chain s rs m \<and> chain m rs' e)"
  by (induction rs arbitrary: s) auto

lemma chain_bounds: "chain s rs e \<Longrightarrow> r \<in> set rs \<Longrightarrow> fst r \<le> snd r \<and> snd r \<le> e"
proof (induction rs arbitrary: s)
  case (Cons r' rs)
  then show ?case using chain_le [of "snd r'" rs e] by auto
qed simp

lemma length_slice_of: "snd r \<le> length xs \<Longrightarrow> length (slice_of r xs) = snd r - fst r"
  by (simp add: slice_of_def)

lemma slice_range_eq: "fst r \<le> snd r \<Longrightarrow> snd r \<le> length xs \<Longrightarrow> slice_range (fst r) (snd r) xs = Inr (slice_of r xs)"
  by (simp add: slice_range_def slice_of_def)

lemma dot_chain:
  assumes "chain s rs n" "length xs = n" "length ys = n"
  shows "dot (drop s xs) (drop s ys) = sum_list (map (\<lambda>r. dot (slice_of r xs) (slice_of r ys)) rs)"
  using assms(1)
proof (induction rs arbitrary: s)
  case Nil
  then show ?case by (simp add: assms)
next
  case (Cons r rs)
  have le: "s \<le> snd r" "snd r \<le> n" and fst: "fst r = s" and rest: "chain (snd r) rs n"
    using Cons.prems chain_le [of "snd r" rs n] by auto
  have split: "drop s zs = slice_of r zs @ drop (snd r) zs" if "length zs = n" for zs :: "'a list"
  proof -
    have "drop (snd r) zs = drop (snd r - s) (drop s zs)" using le(1) by simp
    then show ?thesis using append_take_drop_id [of "snd r - s" "drop s zs"] by (simp add: slice_of_def fst)
  qed
  have "length (slice_of r xs) = length (slice_of r ys)"
    using le by (simp add: length_slice_of assms)
  then have "dot (drop s xs) (drop s ys) = dot (slice_of r xs) (slice_of r ys) + dot (drop (snd r) xs) (drop (snd r) ys)"
    by (simp only: split [OF assms(2)] split [OF assms(3)] dot_append)
  then show ?case using Cons.IH [OF rest] by simp
qed

section \<open>The scalars of the keys\<close>

lemma abc_scalars_scale: "abc_scalars alpha beta k a b c = map (\<lambda>x. x * k) (abc_scalars alpha beta 1 a b c)"
  by (simp add: abc_scalars_def case_prod_unfold)

lemma slice_of_abc_scalars:
  "abc_scalars alpha beta k (slice_of r a) (slice_of r b) (slice_of r c) = slice_of r (abc_scalars alpha beta k a b c)"
  by (simp add: abc_scalars_def slice_of_def take_map drop_map take_zip drop_zip)

lemma take_abc_scalars:
  "abc_scalars alpha beta k (take n a) (take n b) (take n c) = take n (abc_scalars alpha beta k a b c)"
  by (simp add: abc_scalars_def take_map take_zip)

lemma length_abc_scalars:
  "length a = n \<Longrightarrow> length b = n \<Longrightarrow> length c = n \<Longrightarrow> length (abc_scalars alpha beta k a b c) = n"
  by (simp add: abc_scalars_def)

lemma dot_abc_scalars:
  assumes "length a = length z" "length b = length z" "length c = length z"
  shows "dot (abc_scalars alpha beta 1 a b c) z = beta * dot a z + alpha * dot b z + dot c z"
proof -
  have "length a = length b" "length b = length c" "length c = length z" using assms by simp_all
  then show ?thesis
    by (induction a b c z rule: list_induct4) (simp_all add: abc_scalars_def algebra_simps)
qed

lemma slice_of_shift: "slice_of (fst r + n, snd r + n) xs = slice_of r (drop n xs)"
  by (simp add: slice_of_def add.commute)

lemma delta_abc_eq:
  assumes "delta \<noteq> 0" "length b = length a" "length c = length a" "fst r \<le> snd r" "snd r + n \<le> length a"
  shows "delta_abc alpha beta n a b c (delta, r) = Inr (map (\<lambda>x. x * inverse delta) (slice_of r (drop n (abc_scalars alpha beta 1 a b c))))"
proof -
  obtain s e where r: "r = (s, e)" by (cases r)
  have "slice_range (s + n) (e + n) xs = Inr (slice_of (s + n, e + n) xs)" if "length xs = length a" for xs :: "'a list"
    using slice_range_eq [of "(s + n, e + n)" xs] assms(4,5) that by (simp add: r)
  then show ?thesis
    using assms(1-3) slice_of_shift [of r n "abc_scalars alpha beta 1 a b c"]
    by (simp add: delta_abc_def r field_inverse_def Let_def abc_scalars_scale [where k = "inverse delta"] slice_of_abc_scalars)
qed

lemma dot_powers_scaled: "dot (powers_scaled n t zt k) h = zt * k * dot (map (\<lambda>i. t ^ i) [0..<n]) h"
proof -
  have "powers_scaled n t zt k = map (\<lambda>x. x * (zt * k)) (map (\<lambda>i. t ^ i) [0..<n])"
    by (simp add: powers_scaled_def mult.commute)
  then show ?thesis by (simp only: dot_scale)
qed

section \<open>Runs of a circuit\<close>

text \<open>
  What \<open>synthesize_with\<close> promises of a stage: it appends one range, from the witness count before to
  the count after it, leaves the optimization goal alone, and in a proving run keeps the values assigned before.
\<close>

definition stage_extends :: "('f, 'm) multi_stage_cs \<Rightarrow> ('f, 'm) multi_stage_cs \<Rightarrow> bool" where
  "stage_extends ms ms' \<longleftrightarrow>
     ms_ranges ms' = ms_ranges ms @ [(cs_num_witness (ms_cs ms), cs_num_witness (ms_cs ms'))]
     \<and> cs_goal (ms_cs ms') = cs_goal (ms_cs ms)
     \<and> (assigned (ms_cs ms) \<longrightarrow> assigned (ms_cs ms') \<and>
         take (cs_num_witness (ms_cs ms)) (cs_witness_assignment (ms_cs ms')) = cs_witness_assignment (ms_cs ms))"

definition staged_synthesizer :: "('f, 'm, 'c) synthesizer \<Rightarrow> bool" where
  "staged_synthesizer sy \<longleftrightarrow> (\<forall>stage c ms c' ms'.
     sy_generate_constraints sy stage c ms = Inr (c', ms') \<longrightarrow>
       stage_extends ms ms' \<and> sy_total_num_stages sy c' = sy_total_num_stages sy c)"

lemma synthesize_with_extends:
  assumes "synthesize_with f ms = Inr (c, ms')"
    and "\<And>c cs'. f (ms_cs ms) = Inr (c, cs') \<Longrightarrow> assigned (ms_cs ms) \<Longrightarrow> assigned cs'
      \<and> (\<exists>w. cs_witness_assignment cs' = cs_witness_assignment (ms_cs ms) @ w)"
    and "\<And>c cs'. f (ms_cs ms) = Inr (c, cs') \<Longrightarrow> cs_goal cs' = cs_goal (ms_cs ms)"
  shows "stage_extends ms ms'"
proof -
  obtain cs' where f: "f (ms_cs ms) = Inr (c, cs')"
    and ms': "ms' = ms\<lparr>ms_cs := cs', ms_ranges := ms_ranges ms @ [(cs_num_witness (ms_cs ms), cs_num_witness cs')]\<rparr>"
    using assms(1)
    by (auto simp: synthesize_with_def initialize_stage_def finalize_stage_def last_of_def Let_def rbind_Inr_iff)
  show ?thesis
  proof (cases "assigned (ms_cs ms)")
    case True
    then have "cs_num_witness (ms_cs ms) = length (cs_witness_assignment (ms_cs ms))" by (simp add: assigned_def)
    with True assms(2) [OF f True] assms(3) [OF f] show ?thesis by (auto simp: stage_extends_def ms')
  qed (simp add: stage_extends_def ms' assms(3) [OF f])
qed

lemma generate_stages_goal:
  assumes "generate_stages sy circ ms = Inr (circ', ms')" "staged_synthesizer sy"
  shows "cs_goal (ms_cs ms') = cs_goal (ms_cs ms)"
proof -
  have "cs_goal (ms_cs ms') = cs_goal (ms_cs ms)"
    if "rfold (\<lambda>stage (c, ms). sy_generate_constraints sy stage c ms) xs (circ, ms) = Inr (circ', ms')" for xs circ ms
    using that
  proof (induction xs arbitrary: circ ms)
    case (Cons x xs)
    then obtain c1 ms1 where gen: "sy_generate_constraints sy x circ ms = Inr (c1, ms1)"
      and rest: "rfold (\<lambda>stage (c, ms). sy_generate_constraints sy stage c ms) xs (c1, ms1) = Inr (circ', ms')"
      by (auto simp: rbind_Inr_iff)
    have "stage_extends ms ms1" using assms(2) gen unfolding staged_synthesizer_def by blast
    then show ?case using Cons.IH [OF rest] by (simp add: stage_extends_def)
  qed simp
  then show ?thesis using assms(1) by (simp add: generate_stages_def)
qed

text \<open>
  A proving run without keys: before each stage the circuit may be filled in further (\<open>upd\<close>), after
  each stage its constraints hold.
\<close>

fun prover_run ::
    "('f, 'm) r1cs_lib \<Rightarrow> ('f, 'm, 'c) synthesizer \<Rightarrow> nat \<Rightarrow> ('c \<Rightarrow> 'c) list \<Rightarrow> 'c \<Rightarrow> ('f, 'm) multi_stage_cs
      \<Rightarrow> ('c \<times> ('f, 'm) multi_stage_cs) option" where
  "prover_run rl sy stage [] c ms = Some (c, ms)"
| "prover_run rl sy stage (upd # upds) c ms =
     (case sy_generate_constraints sy stage (upd c) ms of
        Inl _ \<Rightarrow> None
      | Inr (c', ms') \<Rightarrow> if ms_is_satisfied rl ms' = Inr True then prover_run rl sy (Suc stage) upds c' ms' else None)"

lemma prover_run_Cons:
  assumes "prover_run rl sy stage (upd # upds) c ms = Some r"
  obtains c' ms' where "sy_generate_constraints sy stage (upd c) ms = Inr (c', ms')"
    "ms_is_satisfied rl ms' = Inr True" "prover_run rl sy (Suc stage) upds c' ms' = Some r"
  using assms by (auto split: sum.splits prod.splits if_splits)

lemma prover_run_append:
  "prover_run rl sy stage (us @ vs) c ms = (case prover_run rl sy stage us c ms of None \<Rightarrow> None
     | Some (c', ms') \<Rightarrow> prover_run rl sy (stage + length us) vs c' ms')"
  by (induction us arbitrary: stage c ms) (simp_all split: sum.split prod.split option.split)

lemma prover_run_total_num_stages:
  assumes "prover_run rl sy stage upds c ms = Some (c', ms')" "staged_synthesizer sy"
    and "\<forall>u \<in> set upds. \<forall>c. sy_total_num_stages sy (u c) = sy_total_num_stages sy c"
  shows "sy_total_num_stages sy c' = sy_total_num_stages sy c"
  using assms(1,3)
proof (induction upds arbitrary: stage c ms)
  case (Cons upd upds)
  obtain c1 ms1 where gen: "sy_generate_constraints sy stage (upd c) ms = Inr (c1, ms1)"
    and rest: "prover_run rl sy (Suc stage) upds c1 ms1 = Some (c', ms')"
    by (rule prover_run_Cons [OF Cons.prems(1)])
  have "sy_total_num_stages sy c1 = sy_total_num_stages sy (upd c)"
    using assms(2) gen unfolding staged_synthesizer_def by blast
  with Cons.IH [OF rest] Cons.prems(2) show ?case by simp
qed simp

lemma prover_run_goal:
  assumes "prover_run rl sy stage upds c ms = Some (c', ms')" "staged_synthesizer sy"
  shows "cs_goal (ms_cs ms') = cs_goal (ms_cs ms)"
  using assms(1)
proof (induction upds arbitrary: stage c ms)
  case (Cons upd upds)
  obtain c1 ms1 where gen: "sy_generate_constraints sy stage (upd c) ms = Inr (c1, ms1)"
    and rest: "prover_run rl sy (Suc stage) upds c1 ms1 = Some (c', ms')"
    by (rule prover_run_Cons [OF Cons.prems(1)])
  have "stage_extends ms ms1" using assms(2) gen unfolding staged_synthesizer_def by blast
  then show ?case using Cons.IH [OF rest] by (simp add: stage_extends_def)
qed simp

lemma prover_run_extends:
  assumes "prover_run rl sy stage upds c ms = Some (c', ms')" "staged_synthesizer sy" "assigned (ms_cs ms)"
  shows "assigned (ms_cs ms')
    \<and> take (cs_num_witness (ms_cs ms)) (cs_witness_assignment (ms_cs ms')) = cs_witness_assignment (ms_cs ms)
    \<and> (\<exists>rs. ms_ranges ms' = ms_ranges ms @ rs \<and> length rs = length upds
          \<and> chain (cs_num_witness (ms_cs ms)) rs (cs_num_witness (ms_cs ms')))"
  using assms(1,3)
proof (induction upds arbitrary: stage c ms)
  case Nil
  then show ?case by (simp add: assigned_def)
next
  case (Cons upd upds)
  obtain c1 ms1 where gen: "sy_generate_constraints sy stage (upd c) ms = Inr (c1, ms1)"
    and rest: "prover_run rl sy (Suc stage) upds c1 ms1 = Some (c', ms')"
    by (rule prover_run_Cons [OF Cons.prems(1)])
  have ext: "stage_extends ms ms1" using assms(2) gen unfolding staged_synthesizer_def by blast
  then have as1: "assigned (ms_cs ms1)"
    and take1: "take (cs_num_witness (ms_cs ms)) (cs_witness_assignment (ms_cs ms1)) = cs_witness_assignment (ms_cs ms)"
    and ranges1: "ms_ranges ms1 = ms_ranges ms @ [(cs_num_witness (ms_cs ms), cs_num_witness (ms_cs ms1))]"
    using Cons.prems(2) unfolding stage_extends_def by simp_all
  have le: "cs_num_witness (ms_cs ms) \<le> cs_num_witness (ms_cs ms1)"
    using arg_cong [OF take1, of length] as1 Cons.prems(2) unfolding assigned_def by simp
  obtain rs where IH: "assigned (ms_cs ms')"
    "take (cs_num_witness (ms_cs ms1)) (cs_witness_assignment (ms_cs ms')) = cs_witness_assignment (ms_cs ms1)"
    "ms_ranges ms' = ms_ranges ms1 @ rs" "length rs = length upds"
    "chain (cs_num_witness (ms_cs ms1)) rs (cs_num_witness (ms_cs ms'))"
    using Cons.IH [OF rest as1] by blast
  have "take (cs_num_witness (ms_cs ms)) (cs_witness_assignment (ms_cs ms'))
      = take (cs_num_witness (ms_cs ms)) (take (cs_num_witness (ms_cs ms1)) (cs_witness_assignment (ms_cs ms')))"
    using le by (simp add: min_absorb1)
  then have "take (cs_num_witness (ms_cs ms)) (cs_witness_assignment (ms_cs ms')) = cs_witness_assignment (ms_cs ms)"
    by (simp only: IH(2) take1)
  moreover have "\<exists>rs'. ms_ranges ms' = ms_ranges ms @ rs' \<and> length rs' = length (upd # upds)
      \<and> chain (cs_num_witness (ms_cs ms)) rs' (cs_num_witness (ms_cs ms'))"
    using le IH(4,5)
    by (intro exI [of _ "(cs_num_witness (ms_cs ms), cs_num_witness (ms_cs ms1)) # rs"]) (simp add: IH(3) ranges1)
  ultimately show ?case using IH(1) by blast
qed

section \<open>Committing and proving\<close>

text \<open>The driver: before each commitment the circuit may be filled in further.\<close>

fun commit_all ::
    "('f::field, 'g1::ab_group_add, 'g2::ab_group_add, 'gt, 'ml) pairing_lib \<Rightarrow> ('f, 'm) r1cs_lib \<Rightarrow> ('f, 'm, 'c) synthesizer
      \<Rightarrow> (('c \<Rightarrow> 'c) \<times> 'f) list \<Rightarrow> ('f, 'm, 'c, 'g1, 'g2) commitment_builder
      \<Rightarrow> failure + (('g1 \<times> 'f) list \<times> ('f, 'm, 'c, 'g1, 'g2) commitment_builder)" where
  "commit_all pl rl sy [] cb = Inr ([], cb)"
| "commit_all pl rl sy ((upd, kappa) # us) cb =
     rbind (builder_commit pl rl sy kappa (cb\<lparr>cb_circuit := upd (cb_circuit cb)\<rparr>)) (\<lambda>(com, cb).
     rbind (commit_all pl rl sy us cb) (\<lambda>(coms, cb). Inr (com # coms, cb)))"

definition stage_commitment ::
    "('f::field, 'g1::ab_group_add, 'g2, 'gt, 'ml) pairing_lib \<Rightarrow> ('g1, 'g2) proving_key \<Rightarrow> ('f, 'm) multi_stage_cs \<Rightarrow> nat \<Rightarrow> 'f \<Rightarrow> 'g1 \<times> 'f" where
  "stage_commitment pl pk ms i kappa =
     (msm_sum (pl_smul1 pl) (ck_deltas_abc_g (pk_ck pk) ! i) (slice_of (ms_ranges ms ! i) (cs_witness_assignment (ms_cs ms)))
        + pl_smul1 pl kappa (ck_last_delta_g (pk_ck pk)), kappa)"

lemma slice_of_take: "snd r \<le> n \<Longrightarrow> slice_of r (take n xs) = slice_of r xs"
  by (cases "fst r \<le> snd r") (simp_all add: slice_of_def drop_take min_absorb1)

lemma stage_slice_assignment:
  assumes "stage_extends ms ms1" "assigned (ms_cs ms)"
  shows "current_stage_witness_assignment ms1
    = Inr (slice_of (cs_num_witness (ms_cs ms), cs_num_witness (ms_cs ms1)) (cs_witness_assignment (ms_cs ms1)))"
proof -
  have as1: "assigned (ms_cs ms1)"
    and take1: "take (cs_num_witness (ms_cs ms)) (cs_witness_assignment (ms_cs ms1)) = cs_witness_assignment (ms_cs ms)"
    and ranges: "ms_ranges ms1 = ms_ranges ms @ [(cs_num_witness (ms_cs ms), cs_num_witness (ms_cs ms1))]"
    using assms unfolding stage_extends_def by simp_all
  have "cs_num_witness (ms_cs ms) \<le> cs_num_witness (ms_cs ms1)"
    using arg_cong [OF take1, of length] as1 assms(2) unfolding assigned_def by simp
  then show ?thesis
    using as1 slice_range_eq [of "(cs_num_witness (ms_cs ms), cs_num_witness (ms_cs ms1))" "cs_witness_assignment (ms_cs ms1)"]
    by (simp add: current_stage_witness_assignment_def last_of_def ranges assigned_def)
qed

lemma commit_all_run:
  assumes "prover_run rl sy st upds c ms = Some (c', ms')" "staged_synthesizer sy" "assigned (ms_cs ms)"
    and "length kappas = length upds" "length (ms_ranges ms) = st"
    and "\<And>i. i < length upds \<Longrightarrow> st + i < length (ck_deltas_abc_g (pk_ck pk))
      \<and> length (ck_deltas_abc_g (pk_ck pk) ! (st + i)) = length (slice_of (ms_ranges ms' ! (st + i)) (cs_witness_assignment (ms_cs ms')))"
  shows "commit_all pl rl sy (zip upds kappas) \<lparr>cb_cs = ms, cb_circuit = c, cb_cur_stage = st, cb_pk = pk\<rparr>
    = Inr (map (\<lambda>i. stage_commitment pl pk ms' (st + i) (kappas ! i)) [0..<length upds],
        \<lparr>cb_cs = ms', cb_circuit = c', cb_cur_stage = st + length upds, cb_pk = pk\<rparr>)"
  using assms(1,3-6)
proof (induction upds arbitrary: st c ms kappas)
  case Nil
  then show ?case by simp
next
  case (Cons upd upds)
  obtain k ks where kappas: "kappas = k # ks" "length ks = length upds"
    using Cons.prems(3) by (cases kappas) auto
  obtain c1 ms1 where gen: "sy_generate_constraints sy st (upd c) ms = Inr (c1, ms1)"
    and sat: "ms_is_satisfied rl ms1 = Inr True"
    and rest: "prover_run rl sy (Suc st) upds c1 ms1 = Some (c', ms')"
    by (rule prover_run_Cons [OF Cons.prems(1)])
  have ext: "stage_extends ms ms1" using assms(2) gen unfolding staged_synthesizer_def by blast
  let ?r = "(cs_num_witness (ms_cs ms), cs_num_witness (ms_cs ms1))"
  have as1: "assigned (ms_cs ms1)" and ranges1: "ms_ranges ms1 = ms_ranges ms @ [?r]"
    using ext Cons.prems(2) unfolding stage_extends_def by simp_all
  obtain rs where ranges': "ms_ranges ms' = ms_ranges ms1 @ rs"
    and wit: "take (cs_num_witness (ms_cs ms1)) (cs_witness_assignment (ms_cs ms')) = cs_witness_assignment (ms_cs ms1)"
    using prover_run_extends [OF rest assms(2) as1] by blast
  have nth: "ms_ranges ms' ! st = ?r"
    using Cons.prems(4) by (simp add: ranges' ranges1 nth_append)
  have slice: "slice_of ?r (cs_witness_assignment (ms_cs ms1)) = slice_of ?r (cs_witness_assignment (ms_cs ms'))"
    using slice_of_take [of ?r "cs_num_witness (ms_cs ms1)" "cs_witness_assignment (ms_cs ms')"] wit by simp
  let ?D = "ck_deltas_abc_g (pk_ck pk)"
  have D: "st < length ?D" "length (?D ! st) = length (slice_of ?r (cs_witness_assignment (ms_cs ms')))"
    using Cons.prems(5) [of 0] by (simp_all add: nth)
  have commit: "builder_commit pl rl sy k \<lparr>cb_cs = ms, cb_circuit = upd c, cb_cur_stage = st, cb_pk = pk\<rparr>
      = Inr (stage_commitment pl pk ms' st k, \<lparr>cb_cs = ms1, cb_circuit = c1, cb_cur_stage = Suc st, cb_pk = pk\<rparr>)"
    using D
    by (simp add: builder_commit_def gen sat stage_slice_assignment [OF ext Cons.prems(2)] slice msm_def stage_commitment_def nth)
  have "commit_all pl rl sy (zip upds ks) \<lparr>cb_cs = ms1, cb_circuit = c1, cb_cur_stage = Suc st, cb_pk = pk\<rparr>
    = Inr (map (\<lambda>i. stage_commitment pl pk ms' (Suc st + i) (ks ! i)) [0..<length upds],
        \<lparr>cb_cs = ms', cb_circuit = c', cb_cur_stage = Suc st + length upds, cb_pk = pk\<rparr>)"
  proof (rule Cons.IH [OF rest as1 kappas(2)])
    show "length (ms_ranges ms1) = Suc st" using Cons.prems(4) by (simp add: ranges1)
    show "Suc st + i < length ?D \<and> length (?D ! (Suc st + i)) = length (slice_of (ms_ranges ms' ! (Suc st + i)) (cs_witness_assignment (ms_cs ms')))"
      if "i < length upds" for i using Cons.prems(5) [of "Suc i"] that by simp
  qed
  then show ?case
    by (simp add: kappas(1) commit upt_conv_Cons map_Suc_upt [symmetric] del: upt_Suc)
qed

section \<open>The generated key\<close>

definition setup_cs :: "('f, 'm) r1cs_lib \<Rightarrow> ('f, 'm) multi_stage_cs" where
  "setup_cs rl = ms_set_mode Setup (ms_set_optimization_goal Constraints (ms_new rl))"

definition honest_key ::
    "('f::field, 'g1::ab_group_add, 'g2::ab_group_add, 'gt, 'ml) pairing_lib \<Rightarrow> 'g1 \<Rightarrow> 'g2 \<Rightarrow> 'f \<Rightarrow> 'f \<Rightarrow> 'f \<Rightarrow> 'f list \<Rightarrow> (nat \<times> nat) list
      \<Rightarrow> nat \<Rightarrow> 'f list \<Rightarrow> 'f list \<Rightarrow> 'f list \<Rightarrow> 'f list \<Rightarrow> ('g1, 'g2) proving_key" where
  "honest_key pl g h alpha beta gamma deltas ranges ni a b c hs =
     (let f = abc_scalars alpha beta 1 a b c; m1 = fixed_base_msm (pl_smul1 pl) g; m2 = fixed_base_msm (pl_smul2 pl) h in
      \<lparr>pk_vk = \<lparr>vk_alpha_g = pl_smul1 pl alpha g, vk_beta_h = pl_smul2 pl beta h, vk_gamma_h = pl_smul2 pl gamma h,
                vk_last_delta_h = pl_smul2 pl (last deltas) h, vk_gamma_abc_g = m1 (map (\<lambda>x. x * inverse gamma) (take ni f)),
                vk_deltas_h = m2 deltas\<rparr>,
       pk_beta_g = pl_smul1 pl beta g, pk_a_g = m1 a, pk_b_g = m1 b, pk_b_h = m2 b, pk_h_g = m1 hs,
       pk_ck = \<lparr>ck_last_delta_g = pl_smul1 pl (last deltas) g,
                ck_deltas_abc_g = map m1 (map2 (\<lambda>d r. map (\<lambda>x. x * inverse d) (slice_of r (drop ni f))) deltas ranges)\<rparr>,
       pk_deltas_g = m1 deltas\<rparr>)"

lemma last_of_Inr_iff: "last_of msg xs = Inr y \<longleftrightarrow> xs \<noteq> [] \<and> y = last xs"
  by (auto simp: last_of_def)

lemma fixed_base_msm_Nil_iff [simp]: "fixed_base_msm smul g xs = [] \<longleftrightarrow> xs = []"
  by (simp add: fixed_base_msm_def)

lemma last_fixed_base_msm: "xs \<noteq> [] \<Longrightarrow> last (fixed_base_msm smul g xs) = smul (last xs) g"
  by (simp add: fixed_base_msm_def last_map)

lemma field_inverse_iff: "field_inverse x = Some y \<longleftrightarrow> x \<noteq> 0 \<and> y = inverse x"
  by (auto simp: field_inverse_def)

lemma case_field_inverse_iff:
  "(case field_inverse x of None \<Rightarrow> Inl e | Some i \<Rightarrow> Inr i) = Inr y \<longleftrightarrow> x \<noteq> 0 \<and> y = inverse x"
  by (auto simp: field_inverse_def)

lemma generate_parametersE:
  assumes "generate_parameters pl rl sy circ alpha beta gamma d g h t = Inr pk"
  obtains circ' ms a b c zt n m dabc hs deltas ni where
    "generate_stages sy circ (setup_cs rl) = Inr (circ', ms)"
    "deltas = map d [0..<sy_total_num_stages sy circ]" "deltas \<noteq> []" "last deltas \<noteq> 0" "gamma \<noteq> 0"
    "ni = cs_num_instance (rl_finalize rl (ms_cs ms))"
    "rl_instance_map rl (rl_finalize rl (ms_cs ms)) t = Inr (a, b, c, zt, n, m)"
    "rmap (delta_abc alpha beta ni a b c) (zip deltas (ms_ranges ms)) = Inr dabc"
    "rl_h_query_scalars rl (m - 1) t zt (inverse (last deltas)) = Inr hs" "1 \<le> m"
    "pk = \<lparr>pk_vk = \<lparr>vk_alpha_g = pl_smul1 pl alpha g, vk_beta_h = pl_smul2 pl beta h, vk_gamma_h = pl_smul2 pl gamma h,
            vk_last_delta_h = pl_smul2 pl (last deltas) h,
            vk_gamma_abc_g = fixed_base_msm (pl_smul1 pl) g (abc_scalars alpha beta (inverse gamma) (take ni a) (take ni b) (take ni c)),
            vk_deltas_h = fixed_base_msm (pl_smul2 pl) h deltas\<rparr>,
          pk_beta_g = pl_smul1 pl beta g, pk_a_g = fixed_base_msm (pl_smul1 pl) g a, pk_b_g = fixed_base_msm (pl_smul1 pl) g b,
          pk_b_h = fixed_base_msm (pl_smul2 pl) h b, pk_h_g = fixed_base_msm (pl_smul1 pl) g hs,
          pk_ck = \<lparr>ck_last_delta_g = pl_smul1 pl (last deltas) g, ck_deltas_abc_g = map (fixed_base_msm (pl_smul1 pl) g) dabc\<rparr>,
          pk_deltas_g = fixed_base_msm (pl_smul1 pl) g deltas\<rparr>"
proof -
  from assms obtain circ' ms where
    stages: "generate_stages sy circ (setup_cs rl) = Inr (circ', ms)"
    by (auto simp: generate_parameters_def Let_def rbind_Inr_iff setup_cs_def)
  let ?deltas = "map d [0..<sy_total_num_stages sy circ]"
  let ?ni = "cs_num_instance (rl_finalize rl (ms_cs ms))"
  note stages' = stages [unfolded setup_cs_def]
  from assms obtain a b c zt n m where
    map: "rl_instance_map rl (rl_finalize rl (ms_cs ms)) t = Inr (a, b, c, zt, n, m)"
    by (auto simp: generate_parameters_def Let_def rbind_Inr_iff stages' ms_finalize_def)
  from assms obtain dabc hs where
    "rmap (delta_abc alpha beta ?ni a b c) (zip ?deltas (ms_ranges ms)) = Inr dabc"
    "?deltas \<noteq> []" "last ?deltas \<noteq> 0" "gamma \<noteq> 0"
    "rl_h_query_scalars rl (m - 1) t zt (inverse (last ?deltas)) = Inr hs" "1 \<le> m"
    "pk = \<lparr>pk_vk = \<lparr>vk_alpha_g = pl_smul1 pl alpha g, vk_beta_h = pl_smul2 pl beta h, vk_gamma_h = pl_smul2 pl gamma h,
            vk_last_delta_h = pl_smul2 pl (last ?deltas) h,
            vk_gamma_abc_g = fixed_base_msm (pl_smul1 pl) g (abc_scalars alpha beta (inverse gamma) (take ?ni a) (take ?ni b) (take ?ni c)),
            vk_deltas_h = fixed_base_msm (pl_smul2 pl) h ?deltas\<rparr>,
          pk_beta_g = pl_smul1 pl beta g, pk_a_g = fixed_base_msm (pl_smul1 pl) g a, pk_b_g = fixed_base_msm (pl_smul1 pl) g b,
          pk_b_h = fixed_base_msm (pl_smul2 pl) h b, pk_h_g = fixed_base_msm (pl_smul1 pl) g hs,
          pk_ck = \<lparr>ck_last_delta_g = pl_smul1 pl (last ?deltas) g, ck_deltas_abc_g = map (fixed_base_msm (pl_smul1 pl) g) dabc\<rparr>,
          pk_deltas_g = fixed_base_msm (pl_smul1 pl) g ?deltas\<rparr>"
    by (auto simp: generate_parameters_def assemble_proving_key_def Let_def stages' ms_finalize_def ms_num_instance_variables_def rbind_Inr_iff
         map last_of_Inr_iff last_fixed_base_msm case_field_inverse_iff field_inverse_iff unwrap_Inr_iff
         slice_range_0_Inr_iff usub_def split: if_splits)
  with stages map that show ?thesis by blast
qed

lemma generate_parameters_honest:
  assumes "generate_parameters pl rl sy circ alpha beta gamma d g h t = Inr pk" "finalize_law rl" "qap_law rl"
    and "generate_stages sy circ (setup_cs rl) = Inr (circ', ms)"
    and "chain 0 (ms_ranges ms) (cs_num_witness (ms_cs ms))" "length (ms_ranges ms) = sy_total_num_stages sy circ"
    and goal: "cs_goal (ms_cs ms) = Constraints"
  obtains a b c zt n m deltas where
    "deltas = map d [0..<sy_total_num_stages sy circ]" "deltas \<noteq> []" "\<forall>x \<in> set deltas. x \<noteq> 0" "gamma \<noteq> 0" "1 \<le> m"
    "rl_instance_map rl (rl_finalize rl (ms_cs ms)) t = Inr (a, b, c, zt, n, m)"
    "length a = cs_num_instance (ms_cs ms) + cs_num_witness (ms_cs ms)" "length b = length a" "length c = length a"
    "pk = honest_key pl g h alpha beta gamma deltas (ms_ranges ms) (cs_num_instance (ms_cs ms)) a b c
       (powers_scaled (m - 1) t zt (inverse (last deltas)))"
proof -
  obtain circ2 ms2 a b c zt n m dabc hs deltas ni where
    stages: "generate_stages sy circ (setup_cs rl) = Inr (circ2, ms2)"
    and deltas: "deltas = map d [0..<sy_total_num_stages sy circ]" "deltas \<noteq> []" "last deltas \<noteq> 0" and gamma: "gamma \<noteq> 0"
    and ni: "ni = cs_num_instance (rl_finalize rl (ms_cs ms2))"
    and inst: "rl_instance_map rl (rl_finalize rl (ms_cs ms2)) t = Inr (a, b, c, zt, n, m)"
    and dabc: "rmap (delta_abc alpha beta ni a b c) (zip deltas (ms_ranges ms2)) = Inr dabc"
    and hs: "rl_h_query_scalars rl (m - 1) t zt (inverse (last deltas)) = Inr hs" and m: "1 \<le> m"
    and pk: "pk = \<lparr>pk_vk = \<lparr>vk_alpha_g = pl_smul1 pl alpha g, vk_beta_h = pl_smul2 pl beta h, vk_gamma_h = pl_smul2 pl gamma h,
            vk_last_delta_h = pl_smul2 pl (last deltas) h,
            vk_gamma_abc_g = fixed_base_msm (pl_smul1 pl) g (abc_scalars alpha beta (inverse gamma) (take ni a) (take ni b) (take ni c)),
            vk_deltas_h = fixed_base_msm (pl_smul2 pl) h deltas\<rparr>,
          pk_beta_g = pl_smul1 pl beta g, pk_a_g = fixed_base_msm (pl_smul1 pl) g a, pk_b_g = fixed_base_msm (pl_smul1 pl) g b,
          pk_b_h = fixed_base_msm (pl_smul2 pl) h b, pk_h_g = fixed_base_msm (pl_smul1 pl) g hs,
          pk_ck = \<lparr>ck_last_delta_g = pl_smul1 pl (last deltas) g, ck_deltas_abc_g = map (fixed_base_msm (pl_smul1 pl) g) dabc\<rparr>,
          pk_deltas_g = fixed_base_msm (pl_smul1 pl) g deltas\<rparr>"
    by (rule generate_parametersE [OF assms(1)])
  have ms2: "ms2 = ms" using stages assms(4) by simp
  have ni': "ni = cs_num_instance (ms_cs ms)" using assms(2) goal by (simp add: ni ms2 finalize_law_def)
  have lens: "length a = ni + cs_num_witness (ms_cs ms)" "length b = length a" "length c = length a"
  proof -
    have "length a = cs_num_instance (rl_finalize rl (ms_cs ms)) + cs_num_witness (rl_finalize rl (ms_cs ms)) \<and> length b = length a \<and> length c = length a"
      using qap_lengths [OF assms(3) inst] by (simp add: ms2)
    then show "length a = ni + cs_num_witness (ms_cs ms)" "length b = length a" "length c = length a"
      using assms(2) goal by (simp_all add: ni' finalize_law_def)
  qed
  have hs': "hs = powers_scaled (m - 1) t zt (inverse (last deltas))"
    using assms(3) hs unfolding qap_law_def by simp
  have len_d: "length deltas = length (ms_ranges ms)" by (simp add: deltas(1) assms(6))
  have nz: "x \<noteq> 0" if x: "x \<in> set deltas" for x
  proof
    assume "x = 0"
    obtain i where i: "i < length deltas" "deltas ! i = x" using x by (auto simp: in_set_conv_nth)
    have "delta_abc alpha beta ni a b c (zip deltas (ms_ranges ms) ! i) = Inr (dabc ! i)"
      using rmap_Inr_nth [OF dabc] i(1) len_d by (simp add: ms2)
    then show False using i \<open>x = 0\<close> len_d
      by (simp add: delta_abc_def field_inverse_def case_prod_unfold Let_def)
  qed
  have "rmap (delta_abc alpha beta ni a b c) (zip deltas (ms_ranges ms))
      = Inr (map (\<lambda>(d, r). map (\<lambda>x. x * inverse d) (slice_of r (drop ni (abc_scalars alpha beta 1 a b c)))) (zip deltas (ms_ranges ms)))"
  proof (rule rmap_total)
    fix dr assume in_zip: "dr \<in> set (zip deltas (ms_ranges ms))"
    define d where "d = fst dr"
    define r where "r = snd dr"
    have split: "dr = (d, r)" by (simp add: d_def r_def)
    have dr: "dr = (d, r)" "d \<in> set deltas" "r \<in> set (ms_ranges ms)"
      using split set_zip_leftD [OF in_zip [unfolded split]] set_zip_rightD [OF in_zip [unfolded split]] by simp_all
    have "fst r \<le> snd r" "snd r + ni \<le> length a"
      using chain_bounds [OF assms(5) dr(3)] lens(1) by auto
    then show "delta_abc alpha beta ni a b c dr
        = Inr (case dr of (d, r) \<Rightarrow> map (\<lambda>x. x * inverse d) (slice_of r (drop ni (abc_scalars alpha beta 1 a b c))))"
      using delta_abc_eq [OF nz [OF dr(2)] lens(2,3), of r ni alpha beta] by (simp add: dr(1))
  qed
  then have dabc': "dabc = map2 (\<lambda>d r. map (\<lambda>x. x * inverse d) (slice_of r (drop ni (abc_scalars alpha beta 1 a b c)))) deltas (ms_ranges ms)"
    using dabc by (simp add: ms2)
  have "abc_scalars alpha beta (inverse gamma) (take ni a) (take ni b) (take ni c)
      = map (\<lambda>x. x * inverse gamma) (take ni (abc_scalars alpha beta 1 a b c))"
    using abc_scalars_scale [of alpha beta "inverse gamma" "take ni a" "take ni b" "take ni c"] by (simp only: take_abc_scalars)
  then have "pk = honest_key pl g h alpha beta gamma deltas (ms_ranges ms) ni a b c (powers_scaled (m - 1) t zt (inverse (last deltas)))"
    unfolding pk honest_key_def Let_def dabc' hs' by (simp only:)
  then show ?thesis
    using that [OF deltas(1,2) _ gamma m inst [unfolded ms2]] lens nz ni' by blast
qed

section \<open>The verification equation\<close>

lemma dot_sum: "length xs = length ys \<Longrightarrow> dot xs ys = (\<Sum>i<length xs. xs ! i * ys ! i)"
  by (induction xs ys rule: list_induct2) (simp_all add: sum.lessThan_Suc_shift del: sum.lessThan_Suc)

lemma dot_commitments:
  fixes ds :: "'f::field list"
  assumes "\<forall>d \<in> set ds. d \<noteq> 0" "length ls = length ds" "length ks = length ds"
  shows "dot (map (\<lambda>i. inverse (ds ! i) * ls ! i + ks ! i * dl) [0..<length ds]) ds = sum_list ls + dl * dot ds ks"
proof -
  have "dot (map (\<lambda>i. inverse (ds ! i) * ls ! i + ks ! i * dl) [0..<length ds]) ds
      = (\<Sum>i<length ds. (inverse (ds ! i) * ls ! i + ks ! i * dl) * ds ! i)"
    by (simp add: dot_sum)
  also have "\<dots> = (\<Sum>i<length ds. ls ! i + dl * (ds ! i * ks ! i))"
  proof (rule sum.cong [OF refl])
    fix i assume "i \<in> {..<length ds}"
    then have "ds ! i \<noteq> 0" using assms(1) by simp
    then show "(inverse (ds ! i) * ls ! i + ks ! i * dl) * ds ! i = ls ! i + dl * (ds ! i * ks ! i)"
      by (simp add: field_simps)
  qed
  also have "\<dots> = sum_list ls + dl * dot ds ks"
    by (simp add: sum.distrib sum_distrib_left dot_sum assms sum_list_sum_nth atLeast0LessThan)
  finally show ?thesis .
qed

lemma groth16_equation:
  fixes A :: "'f::field"
  assumes "A * B = C + H" "beta * A + alpha * B + C = P + (L + l)" "gamma \<noteq> 0" "dl \<noteq> 0"
  shows "(r * dl + A + alpha) * (s * dl + B + beta)
    = alpha * beta + (inverse gamma * P) * gamma + (L + dl * K)
      + (s * (r * dl + A + alpha) + r * (s * dl + B + beta) - r * s * dl + inverse dl * l + inverse dl * H - K) * dl"
proof -
  have P: "(inverse gamma * P) * gamma = P" using assms(3) by (simp add: field_simps)
  have "(r * dl + A + alpha) * (s * dl + B + beta)
      = A * B + (beta * A + alpha * B) + alpha * beta + (s * (r * dl + A + alpha) + r * (s * dl + B + beta) - r * s * dl) * dl"
    by (simp add: algebra_simps)
  also have "A * B + (beta * A + alpha * B) = P + (L + l) + H"
  proof -
    have "A * B + (beta * A + alpha * B) = (beta * A + alpha * B + C) + H" by (simp add: assms(1) algebra_simps)
    then show ?thesis by (simp only: assms(2))
  qed
  finally show ?thesis
    unfolding P using assms(4) by (simp add: algebra_simps)
qed

section \<open>What the prover computes\<close>

lemma honest_key_simps:
  assumes "deltas \<noteq> []"
  shows "pk_last_delta_g (honest_key pl g h alpha beta gamma deltas ranges ni a b c hs) = Inr (pl_smul1 pl (last deltas) g)"
    and "pk_last_delta_h (honest_key pl g h alpha beta gamma deltas ranges ni a b c hs) = Inr (pl_smul2 pl (last deltas) h)"
  by (simp_all add: pk_last_delta_g_def pk_last_delta_h_def honest_key_def Let_def last_of_def last_fixed_base_msm assms)

lemma honest_key_last_ck:
  assumes "deltas \<noteq> []" "length ranges = length deltas"
  shows "pk_last_ck (honest_key pl g h alpha beta gamma deltas ranges ni a b c hs)
    = Inr (fixed_base_msm (pl_smul1 pl) g (map (\<lambda>x. x * inverse (last deltas)) (slice_of (last ranges) (drop ni (abc_scalars alpha beta 1 a b c)))))"
proof -
  have "zip deltas ranges \<noteq> []" "last (zip deltas ranges) = (last deltas, last ranges)"
    using assms by (cases ranges; simp add: last_zip)+
  then show ?thesis
    by (simp add: pk_last_ck_def honest_key_def Let_def last_of_def last_map)
qed

lemma prove_last_stage_honest:
  assumes laws: "scalar_law (pl_smul1 pl)" "scalar_law (pl_smul2 pl)" "finalize_law rl"
    and goal: "cs_goal (ms_cs ms) = Constraints"
    and gen: "last_stage sy circ = Inr stage" "sy_generate_constraints sy stage circ cs0 = Inr (circ', ms)" "ms_is_satisfied rl ms = Inr True"
    and key: "deltas \<noteq> []" "length ranges = length deltas" "a \<noteq> []" "b \<noteq> []" "ms_ranges ms = ranges"
    and z: "assignment_of (ms_cs ms) = 1 # zs"
    and chain: "chain 0 ranges (length (cs_witness_assignment (ms_cs ms)))"
      "length (drop ni (abc_scalars alpha beta 1 a b c)) = length (cs_witness_assignment (ms_cs ms))"
    and wm: "rl_witness_map rl (rl_finalize rl (ms_cs ms)) = Inr hq" "length hq = length hs + 1"
    and A: "A = r * last deltas + dot a (assignment_of (ms_cs ms)) + alpha"
    and B: "B = s * last deltas + dot b (assignment_of (ms_cs ms)) + beta"
    and l: "l = dot (slice_of (last ranges) (drop ni (abc_scalars alpha beta 1 a b c)))
                    (slice_of (last ranges) (cs_witness_assignment (ms_cs ms)))"
  shows "prove_last_stage pl rl sy cs0 circ (honest_key pl g h alpha beta gamma deltas ranges ni a b c hs) r s
    = Inr \<lparr>pw_a = pl_smul1 pl A g, pw_b = pl_smul2 pl B h,
           pw_c = pl_smul1 pl (s * A + r * B - r * s * last deltas + inverse (last deltas) * l + dot hs (take (length hs) hq)) g\<rparr>"
proof -
  let ?pk = "honest_key pl g h alpha beta gamma deltas ranges ni a b c hs"
  let ?w = "cs_witness_assignment (ms_cs ms)"
  let ?f = "drop ni (abc_scalars alpha beta 1 a b c)"
  note s1 = laws(1) and s2 = laws(2)
  have ranges: "ranges \<noteq> []" using key(1,2) by auto
  have bounds: "fst (last ranges) \<le> snd (last ranges)" "snd (last ranges) \<le> length ?w"
    using chain_bounds [OF chain(1), of "last ranges"] ranges by simp_all
  have assignment: "drop 1 (full_assignment (ms_finalize rl ms)) = zs"
    using z laws(3) goal by (simp add: full_assignment_def ms_finalize_def assignment_of_def finalize_law_def)
  have witness: "current_stage_witness_assignment (ms_finalize rl ms) = Inr (slice_of (last ranges) ?w)"
    using laws(3) goal slice_range_eq [OF bounds] ranges
    by (simp add: current_stage_witness_assignment_def ms_finalize_def finalize_law_def last_of_def key(5))
  have len: "length (slice_of (last ranges) ?f) = length (slice_of (last ranges) ?w)"
    using bounds chain(2) by (simp add: length_slice_of)
  have l_aux: "msm (pl_smul1 pl) (fixed_base_msm (pl_smul1 pl) g (map (\<lambda>x. x * inverse (last deltas)) (slice_of (last ranges) ?f)))
        (slice_of (last ranges) ?w) = Some (pl_smul1 pl (inverse (last deltas) * l) g)"
    using msm_fixed_base [OF s1, of "map (\<lambda>x. x * inverse (last deltas)) (slice_of (last ranges) ?f)" "slice_of (last ranges) ?w" g] len
    by (simp add: dot_scale l)
  have h_acc: "msm (pl_smul1 pl) (fixed_base_msm (pl_smul1 pl) g hs) (take (length hs) hq) = Some (pl_smul1 pl (dot hs (take (length hs) hq)) g)"
    by (rule msm_fixed_base [OF s1]) (simp add: wm(2))
  have sel: "pk_a_g ?pk = fixed_base_msm (pl_smul1 pl) g a" "pk_b_g ?pk = fixed_base_msm (pl_smul1 pl) g b"
    "pk_b_h ?pk = fixed_base_msm (pl_smul2 pl) h b" "pk_h_g ?pk = fixed_base_msm (pl_smul1 pl) g hs"
    "vk_alpha_g (pk_vk ?pk) = pl_smul1 pl alpha g" "vk_beta_h (pk_vk ?pk) = pl_smul2 pl beta h" "pk_beta_g ?pk = pl_smul1 pl beta g"
    by (simp_all add: honest_key_def Let_def)
  have coeff1: "calculate_coeff (pl_smul1 pl) (pl_smul1 pl i g) (fixed_base_msm (pl_smul1 pl) g xs) (pl_smul1 pl p g) zs
      = Inr (pl_smul1 pl (i + dot xs (assignment_of (ms_cs ms)) + p) g)" if "xs \<noteq> []" for i xs p
    using calculate_coeff_eq [OF s1 z that] .
  have coeff2: "calculate_coeff (pl_smul2 pl) (pl_smul2 pl i h) (fixed_base_msm (pl_smul2 pl) h xs) (pl_smul2 pl p h) zs
      = Inr (pl_smul2 pl (i + dot xs (assignment_of (ms_cs ms)) + p) h)" if "xs \<noteq> []" for i xs p
    using calculate_coeff_eq [OF s2 z that] .
  have b_g: "(if r = 0 then Inr 0
        else calculate_coeff (pl_smul1 pl) (pl_smul1 pl s (pl_smul1 pl (last deltas) g)) (pk_b_g ?pk) (pk_beta_g ?pk) zs)
      = Inr (if r = 0 then 0 else pl_smul1 pl B g)"
    by (simp add: sel scalar_mult [OF s1] coeff1 [OF key(4)] B)
  have r_b_g: "pl_smul1 pl r (if r = 0 then 0 else pl_smul1 pl B g) = pl_smul1 pl (r * B) g"
    by (simp add: scalar_mult [OF s1] scalar_zero [OF s1])
  have a_g: "calculate_coeff (pl_smul1 pl) (pl_smul1 pl r (pl_smul1 pl (last deltas) g)) (pk_a_g ?pk) (vk_alpha_g (pk_vk ?pk)) zs
      = Inr (pl_smul1 pl A g)"
    by (simp add: sel scalar_mult [OF s1] coeff1 [OF key(3)] A)
  have b_h: "calculate_coeff (pl_smul2 pl) (pl_smul2 pl s (pl_smul2 pl (last deltas) h)) (pk_b_h ?pk) (vk_beta_h (pk_vk ?pk)) zs
      = Inr (pl_smul2 pl B h)"
    by (simp add: sel scalar_mult [OF s2] coeff2 [OF key(4)] B)
  have fin: "ms_cs (ms_finalize rl ms) = rl_finalize rl (ms_cs ms)" by (simp add: ms_finalize_def)
  show ?thesis
    unfolding prove_last_stage_def gen rbind_simps prod.case ensure_simps Let_def assignment
      honest_key_simps [OF key(1)] a_g b_g b_h witness honest_key_last_ck [OF key(1,2)] fin wm(1) l_aux r_b_g
    by (simp add: sel wm(2) h_acc scalar_mult [OF s1] scalar_add [OF s1] scalar_diff [OF s1])
qed

section \<open>The verifier on scalars\<close>

lemma verify_honest:
  assumes law: "pairing_law pl"
    and vk: "vk_alpha_g vk = pl_smul1 pl alpha g" "vk_beta_h vk = pl_smul2 pl beta h" "vk_gamma_h vk = pl_smul2 pl gamma h"
      "vk_deltas_h vk = fixed_base_msm (pl_smul2 pl) h (ds @ [dl])"
    and len: "length xs = length ds"
    and eq: "A * B = alpha * beta + I * gamma + dot xs ds + C * dl"
  shows "verify_proof_with_prepared_inputs pl (prepare_verifying_key pl vk)
    \<lparr>pr_a = pl_smul1 pl A g, pr_b = pl_smul2 pl B h, pr_c = pl_smul1 pl C g, pr_ds = map (\<lambda>x. pl_smul1 pl x g) xs\<rparr> (pl_smul1 pl I g)
    = Inr True"
proof -
  have s1: "scalar_law (pl_smul1 pl)" using law by (simp add: pairing_law_def)
  have add1: "pl_pairing pl (p + p') q = pl_pairing pl p q + pl_pairing pl p' q"
    and add2: "pl_pairing pl p (q + q') = pl_pairing pl p q + pl_pairing pl p q'"
    and shift: "pl_pairing pl (pl_smul1 pl x p) q = pl_pairing pl p (pl_smul2 pl x q)" for p p' q q' x
    using law by (simp_all add: pairing_law_def)
  have zero2: "pl_pairing pl p 0 = 0" for p using add2 [of p 0 0] by simp
  have neg2: "pl_pairing pl p (- q) = - pl_pairing pl p q" for p q
    using add2 [of p "- q" q] by (simp add: zero2 eq_neg_iff_add_eq_0)
  define e where "e x = pl_pairing pl (pl_smul1 pl x g) h" for x
  have e_add: "e (x + y) = e x + e y" for x y
    by (simp add: e_def scalar_add [OF s1] add1)
  have e_zero: "e 0 = 0" using e_add [of 0 0] by simp
  have pair: "pl_pairing pl (pl_smul1 pl x g) (pl_smul2 pl y h) = e (x * y)" for x y
    by (simp add: e_def shift [symmetric] scalar_mult [OF s1] mult.commute)
  have pairs: "sum_list (map2 (pl_pairing pl) (map (\<lambda>x. pl_smul1 pl x g) us) (map uminus (fixed_base_msm (pl_smul2 pl) h vs))) = - e (dot us vs)"
    if "length us = length vs" for us vs
    using that
    by (induction us vs rule: list_induct2) (simp_all add: fixed_base_msm_def e_zero e_add neg2 pair)
  let ?lhs = "pl_smul1 pl A g # pl_smul1 pl I g # map (\<lambda>x. pl_smul1 pl x g) (xs @ [C])"
  let ?rhs = "pl_smul2 pl B h # - pl_smul2 pl gamma h # map uminus (fixed_base_msm (pl_smul2 pl) h (ds @ [dl]))"
  have "pl_final_exponentiation pl (pl_multi_miller_loop pl ?lhs ?rhs) = Some (sum_list (map2 (pl_pairing pl) ?lhs ?rhs))"
  proof -
    have "length ?lhs = length ?rhs" by (simp add: len)
    then show ?thesis using law unfolding pairing_law_def by blast
  qed
  moreover have "sum_list (map2 (pl_pairing pl) ?lhs ?rhs) = e (A * B) - e (I * gamma) - e (dot xs ds + C * dl)"
    using pairs [of "xs @ [C]" "ds @ [dl]"] by (simp add: len pair neg2 dot_append del: map_append)
  moreover have "e (A * B) = e (alpha * beta) + e (I * gamma) + e (dot xs ds + C * dl)"
    by (simp only: eq e_add add.assoc)
  ultimately show ?thesis
    by (simp add: verify_proof_with_prepared_inputs_def prepare_verifying_key_def vk pair Let_def)
qed

lemma prepare_inputs_eq:
  assumes "scalar_law (pl_smul1 pl)" "vk_gamma_abc_g (pvk_vk pvk) = fixed_base_msm (pl_smul1 pl) g gs" "length gs = length xs + 1"
  shows "prepare_inputs pl pvk xs = Inr (pl_smul1 pl (dot gs (1 # xs)) g)"
proof -
  obtain y ys where gs: "gs = y # ys" "length ys = length xs" using assms(3) by (cases gs) auto
  have "fold (\<lambda>(input, base) g_ic. g_ic + pl_smul1 pl input base) (zip xs bs) i = i + msm_sum (pl_smul1 pl) bs xs"
    if "length xs = length bs" for xs bs i
    using that
    by (induction xs bs arbitrary: i rule: list_induct2) (simp_all add: msm_sum_def add.assoc)
  moreover have "fixed_base_msm (pl_smul1 pl) g gs = pl_smul1 pl y g # fixed_base_msm (pl_smul1 pl) g ys"
    by (simp add: gs fixed_base_msm_def)
  ultimately show ?thesis
    using assms(3) by (simp add: prepare_inputs_def assms(2) gs msm_sum_fixed_base [OF assms(1)] scalar_add [OF assms(1)])
qed

section \<open>Completeness\<close>

text \<open>A satisfied run of the circuit in proving mode and the run in setup mode make the same system.\<close>

definition runs_agree :: "('f, 'm) r1cs_lib \<Rightarrow> ('f, 'm) multi_stage_cs \<Rightarrow> ('f, 'm) multi_stage_cs \<Rightarrow> bool" where
  "runs_agree rl ms ms' \<longleftrightarrow> ms_ranges ms = ms_ranges ms' \<and> same_shape (rl_finalize rl (ms_cs ms)) (rl_finalize rl (ms_cs ms'))"

lemma prover_run_snoc:
  assumes "prover_run rl sy st (us @ [u]) c ms = Some (c'', ms'')"
  obtains c' ms' where "prover_run rl sy st us c ms = Some (c', ms')"
    "sy_generate_constraints sy (st + length us) (u c') ms' = Inr (c'', ms'')" "ms_is_satisfied rl ms'' = Inr True"
  using assms by (auto simp: prover_run_append split: option.splits sum.splits prod.splits if_splits)

section \<open>The parts of a run\<close>

definition stage_sums :: "(nat \<times> nat) list \<Rightarrow> 'f::semiring_0 list \<Rightarrow> 'f list \<Rightarrow> 'f list" where
  "stage_sums ranges f w = map (\<lambda>r. dot (slice_of r f) (slice_of r w)) ranges"

definition commitment_scalars :: "'f::field list \<Rightarrow> 'f list \<Rightarrow> 'f list \<Rightarrow> 'f list" where
  "commitment_scalars deltas Ls kappas =
     map (\<lambda>i. inverse (deltas ! i) * Ls ! i + kappas ! i * last deltas) [0..<length kappas]"

lemma assignment_parts:
  assumes "chain 0 ranges (length w)" "length a = length x + length w" "length b = length a" "length c = length a"
  shows "beta * dot a (x @ w) + alpha * dot b (x @ w) + dot c (x @ w)
    = dot (take (length x) (abc_scalars alpha beta 1 a b c)) x
      + sum_list (stage_sums ranges (drop (length x) (abc_scalars alpha beta 1 a b c)) w)"
proof -
  let ?f = "abc_scalars alpha beta 1 a b c"
  have len: "length ?f = length x + length w" using assms by (simp add: length_abc_scalars)
  have "beta * dot a (x @ w) + alpha * dot b (x @ w) + dot c (x @ w) = dot ?f (x @ w)"
    using assms(2-4) by (simp add: dot_abc_scalars)
  also have "\<dots> = dot (take (length x) ?f @ drop (length x) ?f) (x @ w)" by simp
  also have "\<dots> = dot (take (length x) ?f) x + dot (drop (length x) ?f) w"
    by (rule dot_append) (simp add: len)
  also have "dot (drop (length x) ?f) w = sum_list (stage_sums ranges (drop (length x) ?f) w)"
    unfolding stage_sums_def by (rule dot_chain [OF assms(1), unfolded drop_0]) (simp_all add: len)
  finally show ?thesis .
qed

text \<open>The slices the early stages commit to are slices of the final assignment.\<close>

lemma stage_slices:
  assumes "stage_extends ms ms'" "assigned (ms_cs ms)" "assigned (ms_cs ms')"
    and "chain 0 (ms_ranges ms) (cs_num_witness (ms_cs ms))" "chain 0 (ms_ranges ms') (cs_num_witness (ms_cs ms'))"
    and i: "i < length (ms_ranges ms)"
  shows "ms_ranges ms ! i = ms_ranges ms' ! i"
    and "slice_of (ms_ranges ms ! i) (cs_witness_assignment (ms_cs ms)) = slice_of (ms_ranges ms' ! i) (cs_witness_assignment (ms_cs ms'))"
    and "snd (ms_ranges ms' ! i) \<le> length (cs_witness_assignment (ms_cs ms'))"
proof -
  let ?w = "cs_witness_assignment (ms_cs ms')"
  have r: "ms_ranges ms' = ms_ranges ms @ [(cs_num_witness (ms_cs ms), cs_num_witness (ms_cs ms'))]"
    and w: "take (cs_num_witness (ms_cs ms)) ?w = cs_witness_assignment (ms_cs ms)"
    using assms(1,2) unfolding stage_extends_def by simp_all
  show nth: "ms_ranges ms ! i = ms_ranges ms' ! i" using i by (simp add: r nth_append)
  have "snd (ms_ranges ms ! i) \<le> cs_num_witness (ms_cs ms)"
    using chain_bounds [OF assms(4), of "ms_ranges ms ! i"] i by simp
  then show "slice_of (ms_ranges ms ! i) (cs_witness_assignment (ms_cs ms)) = slice_of (ms_ranges ms' ! i) ?w"
    using slice_of_take [of "ms_ranges ms ! i" "cs_num_witness (ms_cs ms)" ?w] by (simp add: w nth)
  show "snd (ms_ranges ms' ! i) \<le> length ?w"
    using chain_bounds [OF assms(5) nth_mem, of i] i assms(3) by (simp add: r assigned_def)
qed

lemma honest_commitments:
  assumes s1: "scalar_law (pl_smul1 pl)" and sy: "staged_synthesizer sy"
    and start: "assigned (ms_cs ms0)" "ms_ranges ms0 = []" "cs_num_witness (ms_cs ms0) = 0"
    and run: "prover_run rl sy 0 upds circ ms0 = Some (circ1, ms1)"
    and ext: "stage_extends ms1 ms'" and kappas: "length kappas = length upds"
    and key: "pk = honest_key pl g h alpha beta gamma deltas (ms_ranges ms') ni a b c hs"
      "length deltas = length upds + 1" "length (abc_scalars alpha beta 1 a b c) = ni + length (cs_witness_assignment (ms_cs ms'))"
  shows "\<exists>coms. commit_all pl rl sy (zip upds kappas) \<lparr>cb_cs = ms0, cb_circuit = circ, cb_cur_stage = 0, cb_pk = pk\<rparr>
      = Inr (coms, \<lparr>cb_cs = ms1, cb_circuit = circ1, cb_cur_stage = length upds, cb_pk = pk\<rparr>)
    \<and> map fst coms = map (\<lambda>x. pl_smul1 pl x g) (commitment_scalars deltas
        (stage_sums (ms_ranges ms') (drop ni (abc_scalars alpha beta 1 a b c)) (cs_witness_assignment (ms_cs ms'))) kappas)
    \<and> map snd coms = kappas"
proof -
  let ?n = "length upds"
  let ?f = "drop ni (abc_scalars alpha beta 1 a b c)"
  let ?w = "cs_witness_assignment (ms_cs ms')"
  let ?coms = "map (\<lambda>i. stage_commitment pl pk ms1 i (kappas ! i)) [0..<?n]"
  have as1: "assigned (ms_cs ms1)" and len1: "length (ms_ranges ms1) = ?n" and chain1: "chain 0 (ms_ranges ms1) (cs_num_witness (ms_cs ms1))"
    using prover_run_extends [OF run sy start(1)] by (auto simp: start)
  have as': "assigned (ms_cs ms')" and ranges': "ms_ranges ms' = ms_ranges ms1 @ [(cs_num_witness (ms_cs ms1), cs_num_witness (ms_cs ms'))]"
    and "take (cs_num_witness (ms_cs ms1)) ?w = cs_witness_assignment (ms_cs ms1)"
    using ext as1 unfolding stage_extends_def by simp_all
  then have "cs_num_witness (ms_cs ms1) \<le> cs_num_witness (ms_cs ms')"
    using as1 by (metis assigned_def length_take min.absorb_iff2 min.commute nat_le_linear)
  with chain1 have chain': "chain 0 (ms_ranges ms') (cs_num_witness (ms_cs ms'))"
    by (simp add: ranges' chain_append)
  note slices = stage_slices [OF ext as1 as' chain1 chain', unfolded len1]
  have ck: "length (ck_deltas_abc_g (pk_ck pk)) = ?n + 1"
    "i < ?n \<Longrightarrow> ck_deltas_abc_g (pk_ck pk) ! i = fixed_base_msm (pl_smul1 pl) g (map (\<lambda>x. x * inverse (deltas ! i)) (slice_of (ms_ranges ms' ! i) ?f))"
    "ck_last_delta_g (pk_ck pk) = pl_smul1 pl (last deltas) g" for i
    by (simp_all add: key(1,2) honest_key_def Let_def ranges' len1)
  have "commit_all pl rl sy (zip upds kappas) \<lparr>cb_cs = ms0, cb_circuit = circ, cb_cur_stage = 0, cb_pk = pk\<rparr>
      = Inr (?coms, \<lparr>cb_cs = ms1, cb_circuit = circ1, cb_cur_stage = ?n, cb_pk = pk\<rparr>)"
  proof (rule commit_all_run [OF run sy start(1) kappas, of pk, unfolded add_0])
    show "length (ms_ranges ms0) = 0" by (simp add: start)
    show "i < length (ck_deltas_abc_g (pk_ck pk))
        \<and> length (ck_deltas_abc_g (pk_ck pk) ! i) = length (slice_of (ms_ranges ms1 ! i) (cs_witness_assignment (ms_cs ms1)))"
      if i: "i < ?n" for i
      using i slices(3) [OF i] by (simp add: ck slices(2) length_slice_of key(3))
  qed
  moreover have "fst (stage_commitment pl pk ms1 i (kappas ! i))
      = pl_smul1 pl (inverse (deltas ! i) * stage_sums (ms_ranges ms') ?f ?w ! i + kappas ! i * last deltas) g"
    if i: "i < ?n" for i
  proof -
    have "i < length (ms_ranges ms')" using i by (simp add: ranges' len1)
    then show ?thesis
      by (simp add: stage_commitment_def ck(2) [OF i] ck(3) slices(2) [OF i] msm_sum_fixed_base [OF s1] dot_scale
          scalar_mult [OF s1] scalar_add [OF s1] stage_sums_def)
  qed
  then have "map fst ?coms = map (\<lambda>x. pl_smul1 pl x g) (commitment_scalars deltas (stage_sums (ms_ranges ms') ?f ?w) kappas)"
    by (simp add: commitment_scalars_def kappas)
  moreover have "map snd ?coms = kappas" by (simp add: stage_commitment_def map_nth comp_def kappas [symmetric])
  ultimately show ?thesis by blast
qed

lemma dot_commitment_scalars:
  assumes "\<forall>x \<in> set deltas. x \<noteq> 0" "length deltas = length kappas + 1" "length Ls = length kappas + 1"
  shows "dot (commitment_scalars deltas Ls kappas) (butlast deltas) = sum_list (butlast Ls) + last deltas * dot deltas kappas"
proof -
  let ?ds = "butlast deltas"
  have ds: "deltas = ?ds @ [last deltas]" "length ?ds = length kappas" using assms(2) by (auto intro: append_butlast_last_id [symmetric])
  have "dot (?ds @ [last deltas]) (kappas @ []) = dot ?ds kappas + dot [last deltas] []"
    by (rule dot_append) (simp add: assms(2))
  then have dot_ds: "dot deltas kappas = dot ?ds kappas" using ds(1) by simp
  have scalars: "commitment_scalars deltas Ls kappas
      = map (\<lambda>i. inverse (?ds ! i) * butlast Ls ! i + kappas ! i * last deltas) [0..<length ?ds]"
    by (simp add: commitment_scalars_def assms(2,3) nth_butlast)
  show ?thesis
    unfolding dot_ds scalars
  proof (rule dot_commitments)
    show "\<forall>d \<in> set ?ds. d \<noteq> 0" using assms(1) by (auto dest: in_set_butlastD)
  qed (simp_all add: assms(2,3))
qed

lemma honest_proof_accepted:
  assumes law: "pairing_law pl"
    and key: "pk = honest_key pl g h alpha beta gamma deltas ranges (length inputs + 1) a b c hs"
      "deltas \<noteq> []" "\<forall>x \<in> set deltas. x \<noteq> 0" "gamma \<noteq> 0"
      "length inputs + 1 \<le> length (abc_scalars alpha beta 1 a b c)"
    and len: "length deltas = length kappas + 1" "length Ls = length kappas + 1"
    and qap: "A' * B' = C' + H" "beta * A' + alpha * B' + C'
      = dot (take (length inputs + 1) (abc_scalars alpha beta 1 a b c)) (1 # inputs) + sum_list Ls"
    and abc: "A = r * last deltas + A' + alpha" "B = s * last deltas + B' + beta"
      "C = s * A + r * B - r * s * last deltas + inverse (last deltas) * last Ls + inverse (last deltas) * H - dot deltas kappas"
  shows "verify_proof pl (prepare_verifying_key pl (pk_vk pk))
      \<lparr>pr_a = pl_smul1 pl A g, pr_b = pl_smul2 pl B h, pr_c = pl_smul1 pl C g,
       pr_ds = map (\<lambda>x. pl_smul1 pl x g) (commitment_scalars deltas Ls kappas)\<rparr> inputs = Inr True"
proof -
  let ?f = "abc_scalars alpha beta 1 a b c"
  let ?ni = "length inputs + 1"
  let ?P = "dot (take ?ni ?f) (1 # inputs)"
  have s1: "scalar_law (pl_smul1 pl)" using law by (simp add: pairing_law_def)
  have "Ls \<noteq> []" using len(2) by auto
  then have "sum_list Ls = sum_list (butlast Ls) + last Ls"
    using sum_list_append [of "butlast Ls" "[last Ls]"] by (simp del: sum_list_append)
  with qap(2) have parts: "beta * A' + alpha * B' + C' = ?P + (sum_list (butlast Ls) + last Ls)" by simp
  have dl: "last deltas \<noteq> 0" using key(2,3) by simp
  have "A * B = alpha * beta + (inverse gamma * ?P) * gamma + dot (commitment_scalars deltas Ls kappas) (butlast deltas) + C * last deltas"
    unfolding abc dot_commitment_scalars [OF key(3) len]
    using groth16_equation [OF qap(1) parts key(4) dl, of r s "dot deltas kappas"] .
  then have accepts: "verify_proof_with_prepared_inputs pl (prepare_verifying_key pl (pk_vk pk))
      \<lparr>pr_a = pl_smul1 pl A g, pr_b = pl_smul2 pl B h, pr_c = pl_smul1 pl C g,
       pr_ds = map (\<lambda>x. pl_smul1 pl x g) (commitment_scalars deltas Ls kappas)\<rparr> (pl_smul1 pl (inverse gamma * ?P) g) = Inr True"
  proof (rule verify_honest [OF law, rotated -1])
    show "vk_deltas_h (pk_vk pk) = fixed_base_msm (pl_smul2 pl) h (butlast deltas @ [last deltas])"
      using key(2) by (simp add: key(1) honest_key_def Let_def)
    show "length (commitment_scalars deltas Ls kappas) = length (butlast deltas)"
      using len(1) by (simp add: commitment_scalars_def)
  qed (simp_all add: key(1) honest_key_def Let_def)
  have "prepare_inputs pl (prepare_verifying_key pl (pk_vk pk)) inputs
      = Inr (pl_smul1 pl (dot (map (\<lambda>x. x * inverse gamma) (take ?ni ?f)) (1 # inputs)) g)"
    by (rule prepare_inputs_eq [OF s1]) (use key(5) in \<open>simp_all add: prepare_verifying_key_def key(1) honest_key_def Let_def\<close>)
  with accepts show ?thesis
    by (simp add: verify_proof_def dot_scale)
qed

lemma groth16_complete_run:
  assumes laws: "pairing_law pl" "finalize_law rl" "qap_law rl" "staged_synthesizer sy"
    and new: "ms_ranges (ms_new rl) = []" "assigned (rl_new rl)" "cs_num_witness (rl_new rl) = 0"
    and keygen: "generate_parameters pl rl sy circ0 alpha beta gamma d g h t = Inr pk"
      "generate_stages sy circ0 (setup_cs rl) = Inr (circ1, ms)"
    and stages: "sy_total_num_stages sy circ0 = length upds + 1" "sy_total_num_stages sy circ = length upds + 1"
      "\<forall>u \<in> set (upds @ [upd]). \<forall>c. sy_total_num_stages sy (u c) = sy_total_num_stages sy c"
    and run: "prover_run rl sy 0 (upds @ [upd]) circ (ms_set_optimization_goal Constraints (ms_new rl)) = Some (circ2, ms')"
    and agree: "runs_agree rl ms ms'"
    and inputs: "cs_instance_assignment (ms_cs ms') = 1 # inputs"
    and kappas: "length kappas = length upds"
  shows "\<exists>coms cb pf.
    commit_all pl rl sy (zip upds kappas) (builder_new rl circ pk) = Inr (coms, cb)
    \<and> map snd coms = kappas
    \<and> builder_prove pl rl sy (map fst coms) (map snd coms) (r, s) (cb\<lparr>cb_circuit := upd (cb_circuit cb)\<rparr>) = Inr pf
    \<and> verify_proof pl (prepare_verifying_key pl (pk_vk pk)) pf inputs = Inr True"
proof -
  have s1: "scalar_law (pl_smul1 pl)" and s2: "scalar_law (pl_smul2 pl)"
    using laws(1) by (simp_all add: pairing_law_def)
  let ?ms0 = "ms_set_optimization_goal Constraints (ms_new rl)"
  let ?n = "length upds"
  let ?w = "cs_witness_assignment (ms_cs ms')"
  let ?ni = "length inputs + 1"
  have start: "assigned (ms_cs ?ms0)" "ms_ranges ?ms0 = []" "cs_num_witness (ms_cs ?ms0) = 0"
    using new by (simp_all add: ms_set_optimization_goal_def ms_new_def assigned_def)
  obtain circ3 ms1 where run1: "prover_run rl sy 0 upds circ ?ms0 = Some (circ3, ms1)"
    and gen: "sy_generate_constraints sy ?n (upd circ3) ms1 = Inr (circ2, ms')" and sat: "ms_is_satisfied rl ms' = Inr True"
    by (rule prover_run_snoc [OF run]) simp
  have ext: "stage_extends ms1 ms'" using laws(4) gen unfolding staged_synthesizer_def by blast
  have as': "assigned (ms_cs ms')" and len_r: "length (ms_ranges ms') = ?n + 1"
    and chain: "chain 0 (ms_ranges ms') (cs_num_witness (ms_cs ms'))"
    using prover_run_extends [OF run laws(4) start(1)] by (auto simp: start)
  have goal0: "cs_goal (ms_cs (setup_cs rl)) = Constraints" "cs_goal (ms_cs ?ms0) = Constraints"
    by (simp_all add: setup_cs_def ms_set_mode_def ms_set_optimization_goal_def)
  have goal: "cs_goal (ms_cs ms) = Constraints" "cs_goal (ms_cs ms') = Constraints"
    using generate_stages_goal [OF keygen(2) laws(4)] prover_run_goal [OF run laws(4)] by (simp_all only: goal0)
  have nw: "cs_num_witness (ms_cs ms') = length ?w" and ni: "cs_num_instance (ms_cs ms') = ?ni"
    using as' inputs by (simp_all add: assigned_def)
  have same: "ms_ranges ms = ms_ranges ms'" "cs_num_instance (ms_cs ms) = ?ni" "cs_num_witness (ms_cs ms) = length ?w"
    using agree nw ni laws(2) goal by (simp_all add: runs_agree_def same_shape_def finalize_law_def)
  have chain_ms: "chain 0 (ms_ranges ms) (cs_num_witness (ms_cs ms))" "length (ms_ranges ms) = sy_total_num_stages sy circ0"
    using chain len_r nw by (simp_all add: same stages)
  obtain a b c zt n m deltas where
    deltas: "deltas = map d [0..<sy_total_num_stages sy circ0]" "deltas \<noteq> []" "\<forall>x \<in> set deltas. x \<noteq> 0"
    and gamma: "gamma \<noteq> 0" and m: "1 \<le> m"
    and inst: "rl_instance_map rl (rl_finalize rl (ms_cs ms)) t = Inr (a, b, c, zt, n, m)"
    and la: "length a = cs_num_instance (ms_cs ms) + cs_num_witness (ms_cs ms)" "length b = length a" "length c = length a"
    and pk: "pk = honest_key pl g h alpha beta gamma deltas (ms_ranges ms) (cs_num_instance (ms_cs ms)) a b c
       (powers_scaled (m - 1) t zt (inverse (last deltas)))"
    by (rule generate_parameters_honest [OF keygen(1) laws(2,3) keygen(2) chain_ms goal(1)])
  let ?f = "abc_scalars alpha beta 1 a b c"
  let ?z = "assignment_of (ms_cs ms')"
  let ?hs = "powers_scaled (m - 1) t zt (inverse (last deltas))"
  let ?Ls = "stage_sums (ms_ranges ms') (drop ?ni ?f) ?w"
  have z: "?z = 1 # inputs @ ?w" by (simp add: assignment_of_def inputs)
  have la': "length a = length (1 # inputs) + length ?w" using la by (simp add: same)
  have len_f: "length ?f = ?ni + length ?w" using la by (simp add: length_abc_scalars same)
  have len_d: "length deltas = ?n + 1" by (simp add: deltas(1) stages)
  have chain_w: "chain 0 (ms_ranges ms') (length ?w)" using chain nw by simp
  obtain hq where hq: "rl_witness_map rl (rl_finalize rl (ms_cs ms')) = Inr hq" "length hq = m"
    and qap: "dot a ?z * dot b ?z = dot c ?z + zt * dot (map (\<lambda>i. t ^ i) [0..<m - 1]) hq"
    using qap_satisfied [OF laws(3) goal inst agree [unfolded runs_agree_def, THEN conjunct2] as' sat [unfolded ms_is_satisfied_def]] .
  have parts: "beta * dot a ?z + alpha * dot b ?z + dot c ?z = dot (take ?ni ?f) (1 # inputs) + sum_list ?Ls"
    using assignment_parts [OF chain_w la' la(2,3), of beta alpha] by (simp add: z)
  obtain coms where
    commit: "commit_all pl rl sy (zip upds kappas) \<lparr>cb_cs = ?ms0, cb_circuit = circ, cb_cur_stage = 0, cb_pk = pk\<rparr>
      = Inr (coms, \<lparr>cb_cs = ms1, cb_circuit = circ3, cb_cur_stage = ?n, cb_pk = pk\<rparr>)"
    and coms: "map fst coms = map (\<lambda>x. pl_smul1 pl x g) (commitment_scalars deltas ?Ls kappas)" "map snd coms = kappas"
    using honest_commitments [OF s1 laws(4) start run1 ext kappas pk [unfolded same] len_d len_f] by blast
  define A where "A = r * last deltas + dot a ?z + alpha"
  define B where "B = s * last deltas + dot b ?z + beta"
  define C where "C = s * A + r * B - r * s * last deltas + inverse (last deltas) * last ?Ls + dot ?hs (take (length ?hs) hq) - dot deltas kappas"
  have proof_pl: "prove_last_stage pl rl sy ms1 (upd circ3) pk r s = Inr \<lparr>pw_a = pl_smul1 pl A g, pw_b = pl_smul2 pl B h,
      pw_c = pl_smul1 pl (s * A + r * B - r * s * last deltas + inverse (last deltas) * last ?Ls + dot ?hs (take (length ?hs) hq)) g\<rparr>"
    unfolding pk [unfolded same]
  proof (rule prove_last_stage_honest [OF s1 s2 laws(2) goal(2) _ gen sat deltas(2) _ _ _ refl z chain_w _ hq(1) _ A_def B_def])
    show "last_stage sy (upd circ3) = Inr ?n"
      using prover_run_total_num_stages [OF run1 laws(4)] stages by (simp add: last_stage_def)
    show "length (ms_ranges ms') = length deltas" by (simp add: len_r len_d)
    show "a \<noteq> []" "b \<noteq> []" using la same by auto
    show "length (drop ?ni ?f) = length ?w" by (simp add: len_f)
    show "length hq = length ?hs + 1" using m by (simp add: hq(2) powers_scaled_def)
    show "last ?Ls = dot (slice_of (last (ms_ranges ms')) (drop ?ni ?f)) (slice_of (last (ms_ranges ms')) ?w)"
      unfolding stage_sums_def using len_r by (subst last_map) auto
  qed
  let ?pf = "\<lparr>pr_a = pl_smul1 pl A g, pr_b = pl_smul2 pl B h, pr_c = pl_smul1 pl C g, pr_ds = map fst coms\<rparr>"
  have deltas_g: "pk_deltas_g pk = fixed_base_msm (pl_smul1 pl) g deltas"
    by (simp add: pk honest_key_def Let_def)
  let ?cb = "\<lparr>cb_cs = ms1, cb_circuit = circ3, cb_cur_stage = ?n, cb_pk = pk\<rparr>"
  have prove: "builder_prove pl rl sy (map fst coms) (map snd coms) (r, s) (?cb\<lparr>cb_circuit := upd (cb_circuit ?cb)\<rparr>) = Inr ?pf"
    unfolding coms(2) builder_prove_def prove_last_stage_with_zk_def commitment_builder.simps fst_conv snd_conv proof_pl rbind_simps
      deltas_g length_fixed_base_msm len_d kappas simp_thms(6) ensure_simps Let_def msm_sum_fixed_base [OF s1] proof_without_comms.simps
      C_def scalar_diff [OF s1] ..
  have H: "dot ?hs (take (length ?hs) hq) = inverse (last deltas) * (zt * dot (map (\<lambda>i. t ^ i) [0..<m - 1]) hq)"
    using dot_take [of "length ?hs" ?hs hq] by (simp only: take_all order_refl dot_powers_scaled mult_ac)
  have verify: "verify_proof pl (prepare_verifying_key pl (pk_vk pk)) ?pf inputs = Inr True"
    unfolding coms(1)
  proof (rule honest_proof_accepted [OF laws(1) pk [unfolded same] deltas(2,3) gamma _ _ _ qap parts A_def B_def C_def [unfolded H]])
    show "?ni \<le> length ?f" by (simp add: len_f)
    show "length deltas = length kappas + 1" by (simp add: len_d kappas)
    show "length ?Ls = length kappas + 1" by (simp add: stage_sums_def len_r kappas)
  qed
  show ?thesis
    using commit [folded builder_new_def] coms(2) prove verify by blast
qed

text \<open> C12: the prover is complete. Take a circuit of any number of stages, a key generated for it, and a
  proving run whose constraints hold after every stage and whose shape is the one of the key generation.
  Then committing to the early stages with any randomness and proving the last stage return without an error
  or panic, and the verifier accepts the proof with the commitments and the public inputs of the run. \<close>

theorem groth16_complete:
  assumes "pairing_law pl" "finalize_law rl" "qap_law rl" "staged_synthesizer sy"
    and "ms_ranges (ms_new rl) = []" "assigned (rl_new rl)" "cs_num_witness (rl_new rl) = 0"
    and "generate_parameters pl rl sy circ0 alpha beta gamma d g h t = Inr pk"
    and "generate_stages sy circ0 (setup_cs rl) = Inr (circ1, ms)"
    and "sy_total_num_stages sy circ0 = length upds + 1" "sy_total_num_stages sy circ = length upds + 1"
    and "\<forall>u \<in> set (upds @ [upd]). \<forall>c. sy_total_num_stages sy (u c) = sy_total_num_stages sy c"
    and "prover_run rl sy 0 (upds @ [upd]) circ (ms_set_optimization_goal Constraints (ms_new rl)) = Some (circ2, ms')"
    and "runs_agree rl ms ms'"
    and "cs_instance_assignment (ms_cs ms') = 1 # inputs"
    and "length kappas = length upds"
  shows "\<exists>coms cb pf.
    commit_all pl rl sy (zip upds kappas) (builder_new rl circ pk) = Inr (coms, cb)
    \<and> map snd coms = kappas
    \<and> builder_prove pl rl sy (map fst coms) (map snd coms) (r, s) (cb\<lparr>cb_circuit := upd (cb_circuit cb)\<rparr>) = Inr pf
    \<and> verify_proof pl (prepare_verifying_key pl (pk_vk pk)) pf inputs = Inr True"
  by (rule groth16_complete_run [OF assms])

section \<open>Commitments are bound to the proof\<close>

lemma verify_sum:
  assumes "pairing_law pl" "length (pr_ds pf) + 1 = length (vk_deltas_h vk)"
  shows "verify_proof_with_prepared_inputs pl (prepare_verifying_key pl vk) pf ic = Inr ok \<longleftrightarrow>
    ok = (pl_pairing pl (pr_a pf) (pr_b pf) + pl_pairing pl ic (- vk_gamma_h vk)
      + sum_list (map2 (pl_pairing pl) (pr_ds pf @ [pr_c pf]) (map uminus (vk_deltas_h vk))) = pl_pairing pl (vk_alpha_g vk) (vk_beta_h vk))"
proof -
  let ?lhs = "pr_a pf # ic # pr_ds pf @ [pr_c pf]"
  let ?rhs = "pr_b pf # - vk_gamma_h vk # map uminus (vk_deltas_h vk)"
  have "length ?lhs = length ?rhs" using assms(2) by simp
  then have "pl_final_exponentiation pl (pl_multi_miller_loop pl ?lhs ?rhs) = Some (sum_list (map2 (pl_pairing pl) ?lhs ?rhs))"
    using assms(1) unfolding pairing_law_def by blast
  then show ?thesis
    by (auto simp: verify_proof_with_prepared_inputs_def prepare_verifying_key_def Let_def add.assoc)
qed

lemma sum_list_update_diff:
  fixes f :: "'a \<Rightarrow> 'b \<Rightarrow> 'g::ab_group_add"
  assumes "i < length xs" "length xs \<le> length ys"
  shows "sum_list (map2 f (xs[i := x]) ys) = sum_list (map2 f xs ys) - f (xs ! i) (ys ! i) + f x (ys ! i)"
  using assms
proof (induction xs arbitrary: i ys)
  case (Cons y xs)
  then obtain z zs where ys: "ys = z # zs" by (cases ys) auto
  show ?case
  proof (cases i)
    case (Suc j)
    then show ?thesis using Cons.IH [of j zs] Cons.prems by (simp add: ys algebra_simps)
  qed (simp add: ys algebra_simps)
qed simp

text \<open> C25: a proof is bound to its commitments. If the verifier accepts a proof, then it rejects the same proof
  with any one of the commitments replaced by another group element, as long as the pairing with the
  verifying key's \<open>delta\<close> of that stage is not degenerate. \<close>

theorem groth16_commitment_bound:
  assumes "pairing_law pl" "length (pr_ds pf) + 1 = length (vk_deltas_h vk)"
    and "verify_proof pl (prepare_verifying_key pl vk) pf inputs = Inr True"
    and "i < length (pr_ds pf)" "com \<noteq> pr_ds pf ! i"
    and "\<And>p. pl_pairing pl p (vk_deltas_h vk ! i) = 0 \<Longrightarrow> p = 0"
  shows "verify_proof pl (prepare_verifying_key pl vk) (pf\<lparr>pr_ds := (pr_ds pf)[i := com]\<rparr>) inputs = Inr False"
proof -
  let ?pf = "pf\<lparr>pr_ds := (pr_ds pf)[i := com]\<rparr>"
  let ?e = "\<lambda>p. pl_pairing pl p (- vk_deltas_h vk ! i)"
  let ?sum = "\<lambda>ds. sum_list (map2 (pl_pairing pl) (ds @ [pr_c pf]) (map uminus (vk_deltas_h vk)))"
  obtain ic where ic: "prepare_inputs pl (prepare_verifying_key pl vk) inputs = Inr ic"
    and ok: "verify_proof_with_prepared_inputs pl (prepare_verifying_key pl vk) pf ic = Inr True"
    using assms(3) by (auto simp: verify_proof_def rbind_Inr_iff)
  have add1: "pl_pairing pl (p + p') q = pl_pairing pl p q + pl_pairing pl p' q"
    and add2: "pl_pairing pl p (q + q') = pl_pairing pl p q + pl_pairing pl p q'" for p p' q q'
    using assms(1) by (simp_all add: pairing_law_def)
  have sum: "?sum ((pr_ds pf)[i := com]) = ?sum (pr_ds pf) - ?e (pr_ds pf ! i) + ?e com"
    using sum_list_update_diff [of i "pr_ds pf @ [pr_c pf]" "map uminus (vk_deltas_h vk)" "pl_pairing pl" com] assms(2,4)
    by (simp add: list_update_append nth_append)
  have "?e com \<noteq> ?e (pr_ds pf ! i)"
  proof
    assume "?e com = ?e (pr_ds pf ! i)"
    moreover have "?e p = - pl_pairing pl p (vk_deltas_h vk ! i)" for p
      using add2 [of p "- vk_deltas_h vk ! i" "vk_deltas_h vk ! i"] add2 [of p 0 0] by (simp add: eq_neg_iff_add_eq_0)
    ultimately have "pl_pairing pl com (vk_deltas_h vk ! i) = pl_pairing pl (pr_ds pf ! i) (vk_deltas_h vk ! i)" by simp
    then have "pl_pairing pl (com - pr_ds pf ! i) (vk_deltas_h vk ! i) = 0"
      using add1 [of "com - pr_ds pf ! i" "pr_ds pf ! i" "vk_deltas_h vk ! i"] by simp
    then show False using assms(5,6) by fastforce
  qed
  then have "?sum ((pr_ds pf)[i := com]) \<noteq> ?sum (pr_ds pf)" by (simp add: sum)
  then have "verify_proof_with_prepared_inputs pl (prepare_verifying_key pl vk) ?pf ic = Inr False"
    using ok verify_sum [OF assms(1,2), of ic True] verify_sum [OF assms(1), of ?pf vk ic False] assms(2)
    by (simp, metis add_left_cancel)
  then show ?thesis by (simp add: verify_proof_def ic)
qed

section \<open>An instance\<close>

text \<open>
  The rationals as both groups, with multiplication as the pairing, and a circuit of two stages with
  the constraint \<open>x * w = y\<close>: stage 0 commits to \<open>x\<close>, stage 1 has the public input \<open>y\<close> and the witness \<open>w\<close>.
\<close>

definition groth_toy_pairing :: "(rat, rat, rat, rat, rat) pairing_lib" where
  "groth_toy_pairing = \<lparr>pl_smul1 = (*), pl_smul2 = (*), pl_pairing = (*),
     pl_multi_miller_loop = (\<lambda>ps qs. sum_list (map2 (*) ps qs)), pl_final_exponentiation = Some\<rparr>"

definition groth_toy_r1cs :: "(rat, unit) r1cs_lib" where
  "groth_toy_r1cs =
     \<lparr>rl_new = \<lparr>cs_mode = Prove, cs_goal = NoGoal, cs_num_instance = 1, cs_num_witness = 0, cs_num_constraints = 0,
        cs_instance_assignment = [1], cs_witness_assignment = [], cs_body = ()\<rparr>,
      rl_finalize = (\<lambda>cs. cs),
      rl_is_satisfied = (\<lambda>cs. Inr (cs_num_constraints cs = 0
         \<or> cs_witness_assignment cs ! 0 * cs_witness_assignment cs ! 1 = cs_instance_assignment cs ! 1)),
      rl_domain_exists = (\<lambda>_. True),
      rl_instance_map = (\<lambda>cs t. if cs_num_instance cs = 2 \<and> cs_num_witness cs = 2 \<and> cs_num_constraints cs = 1
         then Inr ([0, 0, 1, 0], [0, 0, 0, 1], [0, 1, 0, 0], t - 1, 3, 1) else Inl SynthesisError),
      rl_witness_map = (\<lambda>cs. Inr [0]),
      rl_h_query_scalars = (\<lambda>n t zt dinv. Inr (powers_scaled n t zt dinv))\<rparr>"

definition groth_toy_stage :: "nat \<Rightarrow> rat \<times> rat \<Rightarrow> (rat, unit) constraint_system \<Rightarrow> failure + ((rat \<times> rat) \<times> (rat, unit) constraint_system)" where
  "groth_toy_stage stage c cs =
     (if stage = 0 then
        Inr (c, cs\<lparr>cs_num_witness := cs_num_witness cs + 1,
          cs_witness_assignment := (if cs_mode cs = Prove then cs_witness_assignment cs @ [fst c] else cs_witness_assignment cs)\<rparr>)
      else
        Inr (c, cs\<lparr>cs_num_instance := cs_num_instance cs + 1, cs_num_witness := cs_num_witness cs + 1,
          cs_num_constraints := cs_num_constraints cs + 1,
          cs_instance_assignment := (if cs_mode cs = Prove then cs_instance_assignment cs @ [fst c * snd c] else cs_instance_assignment cs),
          cs_witness_assignment := (if cs_mode cs = Prove then cs_witness_assignment cs @ [snd c] else cs_witness_assignment cs)\<rparr>))"

definition groth_toy_synthesizer :: "(rat, unit, rat \<times> rat) synthesizer" where
  "groth_toy_synthesizer =
     \<lparr>sy_total_num_stages = (\<lambda>_. 2), sy_generate_constraints = (\<lambda>stage c. synthesize_with (groth_toy_stage stage c))\<rparr>"

lemmas groth_toy_defs = groth_toy_pairing_def groth_toy_r1cs_def groth_toy_synthesizer_def groth_toy_stage_def

lemma groth_toy_pairing_law: "pairing_law groth_toy_pairing"
  by (simp add: pairing_law_def scalar_law_def groth_toy_pairing_def algebra_simps)

lemma groth_toy_finalize_law: "finalize_law groth_toy_r1cs"
  by (simp add: finalize_law_def groth_toy_r1cs_def)

lemma groth_toy_staged: "staged_synthesizer groth_toy_synthesizer"
proof -
  have "stage_extends ms ms'" if "synthesize_with (groth_toy_stage stage c) ms = Inr (c', ms')" for stage c ms c' ms'
    by (rule synthesize_with_extends [OF that]) (auto simp: groth_toy_stage_def assigned_def split: if_splits)
  then show ?thesis by (simp add: staged_synthesizer_def groth_toy_synthesizer_def)
qed

lemma groth_toy_qap_law: "qap_law groth_toy_r1cs"
proof -
  have two: "\<exists>x y. xs = [x, y]" if "length xs = 2" for xs :: "rat list"
    using that by (cases xs; cases "tl xs") auto
  show ?thesis
    unfolding qap_law_def groth_toy_r1cs_def
    by (auto simp: same_shape_def assigned_def assignment_of_def split: if_splits dest!: two)
qed

lemma groth_toy_setup:
  "generate_stages groth_toy_synthesizer (0, 0) (setup_cs groth_toy_r1cs) = Inr ((0, 0),
     \<lparr>ms_cs = \<lparr>cs_mode = Setup, cs_goal = Constraints, cs_num_instance = 2, cs_num_witness = 2, cs_num_constraints = 1,
        cs_instance_assignment = [1], cs_witness_assignment = [], cs_body = ()\<rparr>, ms_ranges = [(0, 1), (1, 2)]\<rparr>)"
  by (simp add: generate_stages_def groth_toy_defs setup_cs_def ms_new_def ms_set_mode_def ms_set_optimization_goal_def
      synthesize_with_def initialize_stage_def finalize_stage_def last_of_def Let_def upt_rec)

lemma groth_toy_prover_run:
  "prover_run groth_toy_r1cs groth_toy_synthesizer 0 ([\<lambda>c. c] @ [\<lambda>c. (fst c, 3)]) (2, 0)
     (ms_set_optimization_goal Constraints (ms_new groth_toy_r1cs)) = Some ((2, 3),
     \<lparr>ms_cs = \<lparr>cs_mode = Prove, cs_goal = Constraints, cs_num_instance = 2, cs_num_witness = 2, cs_num_constraints = 1,
        cs_instance_assignment = [1, 6], cs_witness_assignment = [2, 3], cs_body = ()\<rparr>, ms_ranges = [(0, 1), (1, 2)]\<rparr>)"
  by (simp add: groth_toy_defs ms_new_def ms_set_optimization_goal_def ms_is_satisfied_def
      synthesize_with_def initialize_stage_def finalize_stage_def last_of_def Let_def)

lemma groth_toy_key:
  "\<exists>pk. generate_parameters groth_toy_pairing groth_toy_r1cs groth_toy_synthesizer (0, 0) 2 3 5 (\<lambda>i. of_nat (i + 1)) 1 1 7 = Inr pk"
  unfolding generate_parameters_def setup_cs_def [symmetric] groth_toy_setup Let_def rbind_simps prod.case
  by (simp add: groth_toy_defs assemble_proving_key_def ms_finalize_def ms_num_instance_variables_def count_non_zero_def delta_abc_def slice_range_def
      field_inverse_def last_of_def usub_def Let_def numeral_2_eq_2 numeral_3_eq_3 fixed_base_msm_def)

theorem groth16_complete_witness:
  "\<exists>pk coms cb pf.
    generate_parameters groth_toy_pairing groth_toy_r1cs groth_toy_synthesizer (0, 0) 2 3 5 (\<lambda>i. of_nat (i + 1)) 1 1 7 = Inr pk
    \<and> commit_all groth_toy_pairing groth_toy_r1cs groth_toy_synthesizer (zip [\<lambda>c. c] [9]) (builder_new groth_toy_r1cs (2, 0) pk) = Inr (coms, cb)
    \<and> map snd coms = [9]
    \<and> builder_prove groth_toy_pairing groth_toy_r1cs groth_toy_synthesizer (map fst coms) (map snd coms) (11, 13)
        (cb\<lparr>cb_circuit := (\<lambda>c. (fst c, 3)) (cb_circuit cb)\<rparr>) = Inr pf
    \<and> verify_proof groth_toy_pairing (prepare_verifying_key groth_toy_pairing (pk_vk pk)) pf [6] = Inr True"
proof -
  obtain pk where key:
    "generate_parameters groth_toy_pairing groth_toy_r1cs groth_toy_synthesizer (0, 0) 2 3 5 (\<lambda>i. of_nat (i + 1)) 1 1 7 = Inr pk"
    using groth_toy_key by blast
  have new: "ms_ranges (ms_new groth_toy_r1cs) = []" "assigned (rl_new groth_toy_r1cs)" "cs_num_witness (rl_new groth_toy_r1cs) = 0"
    by (simp_all add: ms_new_def groth_toy_r1cs_def assigned_def)
  have "\<exists>coms cb pf.
      commit_all groth_toy_pairing groth_toy_r1cs groth_toy_synthesizer (zip [\<lambda>c. c] [9]) (builder_new groth_toy_r1cs (2, 0) pk) = Inr (coms, cb)
      \<and> map snd coms = [9]
      \<and> builder_prove groth_toy_pairing groth_toy_r1cs groth_toy_synthesizer (map fst coms) (map snd coms) (11, 13)
          (cb\<lparr>cb_circuit := (\<lambda>c. (fst c, 3)) (cb_circuit cb)\<rparr>) = Inr pf
      \<and> verify_proof groth_toy_pairing (prepare_verifying_key groth_toy_pairing (pk_vk pk)) pf [6] = Inr True"
    by (rule groth16_complete [OF groth_toy_pairing_law groth_toy_finalize_law groth_toy_qap_law groth_toy_staged
          new key groth_toy_setup _ _ _ groth_toy_prover_run])
      (simp_all add: groth_toy_synthesizer_def runs_agree_def same_shape_def groth_toy_r1cs_def)
  with key show ?thesis by (intro exI [of _ pk]) (simp only: simp_thms ex_simps)
qed

definition groth_toy_vk :: "(rat, rat) verifying_key" where
  "groth_toy_vk = \<lparr>vk_alpha_g = 1, vk_beta_h = 1, vk_gamma_h = 1, vk_last_delta_h = 1, vk_gamma_abc_g = [1], vk_deltas_h = [1, 1]\<rparr>"

definition groth_toy_proof :: "(rat, rat) cp_proof" where
  "groth_toy_proof = \<lparr>pr_a = 5, pr_b = 1, pr_c = 2, pr_ds = [1]\<rparr>"

theorem groth16_commitment_bound_witness:
  "verify_proof groth_toy_pairing (prepare_verifying_key groth_toy_pairing groth_toy_vk) groth_toy_proof [] = Inr True
    \<and> verify_proof groth_toy_pairing (prepare_verifying_key groth_toy_pairing groth_toy_vk)
        (groth_toy_proof\<lparr>pr_ds := (pr_ds groth_toy_proof)[0 := 4]\<rparr>) [] = Inr False"
proof -
  have ok: "verify_proof groth_toy_pairing (prepare_verifying_key groth_toy_pairing groth_toy_vk) groth_toy_proof [] = Inr True"
    by (simp add: verify_proof_def prepare_inputs_def verify_proof_with_prepared_inputs_def prepare_verifying_key_def
        groth_toy_vk_def groth_toy_proof_def groth_toy_pairing_def)
  have "verify_proof groth_toy_pairing (prepare_verifying_key groth_toy_pairing groth_toy_vk)
      (groth_toy_proof\<lparr>pr_ds := (pr_ds groth_toy_proof)[0 := 4]\<rparr>) [] = Inr False"
    by (rule groth16_commitment_bound [OF groth_toy_pairing_law _ ok])
      (simp_all add: groth_toy_vk_def groth_toy_proof_def groth_toy_pairing_def)
  with ok show ?thesis by simp
qed

end
