(* ===== verification/Vm.thy ===== *)
theory Vm
  imports Sparse_Tree Vkd_Circuits Protocol
begin

text \<open>
  The virtual-machine benchmark, \<open>distributed-prover/src/vm\<close>: a chain of subcircuits that read the
  sixteen registers from memory, do some accesses, and write them back. The memory is either the
  read-write portals or, with \<open>use_merkle_memory\<close>, one Merkle path computation per access, whose cost
  is what the benchmark compares. \<open>1 << log_num_subcircuit\<close> is \<open>2 ^ n\<close> for the exponents below 64 a
  \<open>usize\<close> can shift by. The products of the dummy constraints are witnesses of their own definition
  and always hold.
\<close>

section \<open>The machine\<close>

definition register_num :: nat where
  "register_num = 16"

record vm_params =
  vp_use_merkle_memory :: bool
  vp_log_num_subcircuit :: nat
  vp_dummy_constraint_num :: nat
  vp_operations_per_chunk :: nat

record 'f virtual_machine =
  vm_data :: "'f list"
  vm_params :: vm_params

definition vm_new :: "vm_params \<Rightarrow> 'f::zero virtual_machine" where
  "vm_new params = \<lparr>vm_data = replicate register_num 0, vm_params = params\<rparr>"

definition execute_dummy_operation :: "'f virtual_machine \<Rightarrow> 'f virtual_machine" where
  "execute_dummy_operation vm = vm"

definition vm_run :: "'f virtual_machine \<Rightarrow> 'f virtual_machine" where
  "vm_run vm = fold (\<lambda>_. execute_dummy_operation) [0..<2 ^ vp_log_num_subcircuit (vm_params vm) * vp_operations_per_chunk (vm_params vm)] vm"

datatype dummy_circuit = DummyCircuit

record vm_circuit =
  vc_subcircuits :: "dummy_circuit list"

definition vm_to_subcircuits :: "'f virtual_machine \<Rightarrow> vm_circuit list" where
  "vm_to_subcircuits vm =
     map (\<lambda>_. \<lparr>vc_subcircuits = replicate (vp_operations_per_chunk (vm_params vm)) DummyCircuit\<rparr>)
       [0..<2 ^ vp_log_num_subcircuit (vm_params vm)]"

section \<open>Memory\<close>

definition merkle_memory_depth :: nat where
  "merkle_memory_depth = 32"

definition merkle_path_verification :: "'f::field hash_lib \<Rightarrow> failure + unit" where
  "merkle_path_verification hl =
     rbind (unwrap_res ''called `Result::unwrap()` on an `Err` value'' (sparse_tree_new hl merkle_memory_depth)) (\<lambda>tree.
     let leaf = replicate 32 1 in
     rbind (unwrap_res ''called `Result::unwrap()` on an `Err` value'' (vkd_hash hl leaf)) (\<lambda>h.
     rbind (unwrap_res ''called `Result::unwrap()` on an `Err` value'' (get_index h merkle_memory_depth)) (\<lambda>index.
     rbind (unwrap_res ''called `Result::unwrap()` on an `Err` value'' (sparse_insert hl index leaf Leaf tree)) (\<lambda>tree.
     rbind (unwrap_res ''called `Result::unwrap()` on an `Err` value'' (lookup_path tree index)) (\<lambda>path.
     rbind (slice_range 0 8 h) (\<lambda>fixed_size_array.
     let index_var = val_bits 64 (bytes_val fixed_size_array);
         path_var = path_new_variable path in
     rbind (unwrap_res ''called `Result::unwrap()` on an `Err` value'' (compute_root_var_from_leaf hl path_var leaf index_var)) (\<lambda>_.
       Inr ())))))))"

definition memory_get :: "'f::field hash_lib \<Rightarrow> bool \<Rightarrow> string \<Rightarrow> ('f, unit) portal" where
  "memory_get hl use_merkle_memory name =
     (if use_merkle_memory then lift_res (merkle_path_verification hl)
      else pbind (portal_get name) (\<lambda>_. Return ()))"

definition memory_set :: "'f::field hash_lib \<Rightarrow> bool \<Rightarrow> string \<Rightarrow> 'f \<Rightarrow> ('f, unit) portal" where
  "memory_set hl use_merkle_memory name v =
     (if use_merkle_memory then
        pbind (lift_res (merkle_path_verification hl)) (\<lambda>_. lift_res (merkle_path_verification hl))
      else portal_set name v)"

section \<open>The circuit\<close>

definition register :: "nat \<Rightarrow> string" where
  "register i = ''register '' @ decimal i"

definition get_registers :: "'f::field hash_lib \<Rightarrow> bool \<Rightarrow> ('f, unit) portal" where
  "get_registers hl mm = pfold (\<lambda>i _. memory_get hl mm (register i)) [0..<register_num] ()"

definition set_registers :: "'f::field hash_lib \<Rightarrow> bool \<Rightarrow> ('f, unit) portal" where
  "set_registers hl mm = pfold (\<lambda>i _. memory_set hl mm (register i) 1) [0..<register_num] ()"

definition do_dummy_operation :: "'f::field hash_lib \<Rightarrow> 'f virtual_machine \<Rightarrow> nat \<Rightarrow> bool \<Rightarrow> ('f, unit) portal" where
  "do_dummy_operation hl vm dummy_constraint_num mm =
     pfold (\<lambda>_ _.
       pbind (memory_set hl mm ''register 1'' 1) (\<lambda>_.
       pbind (memory_get hl mm ''register 1'') (\<lambda>_.
       pbind (memory_get hl mm ''register 1'') (\<lambda>_.
       let products = map (\<lambda>_. 12 * 12 :: 'f) [0..<dummy_constraint_num div 2] in Return ()))))
     [0..<vp_operations_per_chunk (vm_params vm)] ()"

definition vm_generate :: "'f::field hash_lib \<Rightarrow> 'f virtual_machine \<Rightarrow> nat \<Rightarrow> ('f, bool) portal" where
  "vm_generate hl vm subcircuit_idx =
     (let mm = vp_use_merkle_memory (vm_params vm); k = vp_dummy_constraint_num (vm_params vm) in
      if subcircuit_idx \<noteq> 0 then
        pbind (get_registers hl mm) (\<lambda>_. pbind (do_dummy_operation hl vm k mm) (\<lambda>_. pbind (set_registers hl mm) (\<lambda>_. Return True)))
      else
        pbind (set_registers hl mm) (\<lambda>_. pbind (do_dummy_operation hl vm k mm) (\<lambda>_. Return True)))"

definition vm_num_subcircuits :: "'f virtual_machine \<Rightarrow> nat" where
  "vm_num_subcircuits vm = 2 ^ vp_log_num_subcircuit (vm_params vm)"

text \<open>
  The native trace uses the setup manager directly; \<open>let _\<close> drops only the values, all failures of
  the manager being panics.
\<close>

definition vm_trace_operations :: "'f::field virtual_machine \<Rightarrow> ('f, unit) portal" where
  "vm_trace_operations vm =
     pfold (\<lambda>_ _. pbind (portal_set ''register 1'' 1) (\<lambda>_. pbind (portal_get ''register 1'') (\<lambda>_.
       pbind (portal_get ''register 1'') (\<lambda>_. Return ())))) [0..<vp_operations_per_chunk (vm_params vm)] ()"

definition vm_trace :: "'f::field virtual_machine \<Rightarrow> nat \<Rightarrow> ('f, bool) portal" where
  "vm_trace vm subcircuit_idx =
     (if subcircuit_idx \<noteq> 0 then
        pbind (pfold (\<lambda>i _. pbind (portal_get (register i)) (\<lambda>_. Return ())) [0..<register_num] ()) (\<lambda>_.
        pbind (vm_trace_operations vm) (\<lambda>_.
        pbind (pfold (\<lambda>i _. portal_set (register i) 1) [0..<register_num] ()) (\<lambda>_. Return True)))
      else
        pbind (pfold (\<lambda>i _. portal_set (register i) 1) [0..<register_num] ()) (\<lambda>_.
        pbind (vm_trace_operations vm) (\<lambda>_. Return True)))"

definition vm_portal_subtraces :: "'f::field virtual_machine \<Rightarrow> failure + 'f transcript_entry list list" where
  "vm_portal_subtraces vm =
     rbind (ram_setup_run (map (vm_trace vm) [0..<vm_num_subcircuits vm]) setup_ram_new) (\<lambda>(_, pm).
       Inr (map (map RamEntry) (sm_subtraces pm)))"

definition vm_unique_subcircuits :: "'f virtual_machine \<Rightarrow> failure + nat list" where
  "vm_unique_subcircuits vm = Inr [0, 1]"

definition vm_representative :: "'f virtual_machine \<Rightarrow> nat \<Rightarrow> failure + nat" where
  "vm_representative vm subcircuit_idx = Inr (if subcircuit_idx = 0 then 0 else 1)"

definition vm_get_witnesses :: "'f virtual_machine \<Rightarrow> nat \<Rightarrow> failure + u8 list" where
  "vm_get_witnesses vm i = Inr []"

definition vm_set_witnesses :: "nat \<Rightarrow> u8 list \<Rightarrow> 'f virtual_machine \<Rightarrow> failure + 'f virtual_machine" where
  "vm_set_witnesses i bytes vm = Inr vm"

definition vm_rand :: "vm_params \<Rightarrow> 'f::zero virtual_machine" where
  "vm_rand params = vm_new params"

definition vm_ops :: "'f::field hash_lib \<Rightarrow> ('f, 'f virtual_machine, vm_params) circuit_ops" where
  "vm_ops hl =
     \<lparr>op_mem_type = Ram, op_get_params = vm_params, op_portal_subtraces = vm_portal_subtraces,
      op_num_subcircuits = vm_num_subcircuits, op_unique_subcircuits = vm_unique_subcircuits,
      op_representative = vm_representative, op_new = (\<lambda>params. Inr (vm_new params)),
      op_get_witnesses = vm_get_witnesses, op_set_witnesses = vm_set_witnesses, op_generate = vm_generate hl\<rparr>"

section \<open>Runs of the machine\<close>

definition registers_in :: "(string \<rightharpoonup> 'f) \<Rightarrow> bool" where
  "registers_in m \<longleftrightarrow> (\<forall>i < register_num. m (register i) \<noteq> None)"

lemma registers_in_upd [simp]: "registers_in m \<Longrightarrow> registers_in (m(n \<mapsto> v))"
  by (simp add: registers_in_def)

lemma register_1: "''register 1'' = register 1"
  by (simp add: register_def decimal.simps digit_def) (simp add: char_of_def bit_numeral_rec bit_Suc_0_iff)

lemma eval_pfold_inv:
  assumes "P m" and "\<And>x m s. x \<in> set xs \<Longrightarrow> P m \<Longrightarrow> \<exists>s' m'. eval_portal rw (f x s) m = Inr (s', m') \<and> P m'"
  shows "\<exists>s' m'. eval_portal rw (pfold f xs s) m = Inr (s', m') \<and> P m'"
  using assms
proof (induction xs arbitrary: m s)
  case (Cons x xs)
  obtain s1 m1 where f: "eval_portal rw (f x s) m = Inr (s1, m1)" "P m1"
    using Cons.prems(2) [of x m s] Cons.prems(1) by auto
  obtain s2 m2 where "eval_portal rw (pfold f xs s1) m1 = Inr (s2, m2)" "P m2"
    using Cons.IH [OF f(2)] Cons.prems(2) by (meson list.set_intros(2))
  with f(1) show ?case by (simp add: eval_portal_bind)
qed simp

lemma eval_set_registers:
  "\<exists>m'. eval_portal True (pfold (\<lambda>i _. portal_set (register i) v) xs ()) m = Inr ((), m')
     \<and> dom m \<subseteq> dom m' \<and> (\<forall>i \<in> set xs. m' (register i) \<noteq> None)"
proof (induction xs arbitrary: m)
  case (Cons x xs)
  obtain m' where m': "eval_portal True (pfold (\<lambda>i _. portal_set (register i) v) xs ()) (m(register x \<mapsto> v)) = Inr ((), m')"
    "dom (m(register x \<mapsto> v)) \<subseteq> dom m'" "\<forall>i \<in> set xs. m' (register i) \<noteq> None"
    using Cons.IH by blast
  moreover have "m' (register x) \<noteq> None" using m'(2) by auto
  moreover have "dom m \<subseteq> dom m'" using m'(2) by auto
  ultimately show ?case by (simp add: eval_portal_bind)
qed simp

lemma set_registers_in:
  obtains m' where "eval_portal True (pfold (\<lambda>i _. portal_set (register i) 1) [0..<register_num] ()) m = Inr ((), m')" "registers_in m'"
  using eval_set_registers [of 1 "[0..<register_num]" m] by (auto simp: registers_in_def)

lemma eval_trace_operations:
  assumes "registers_in m"
  obtains m' where "eval_portal True (vm_trace_operations vm) m = Inr ((), m')" "registers_in m'"
proof -
  have "\<exists>s' m'. eval_portal True (vm_trace_operations vm) m = Inr (s', m') \<and> registers_in m'"
    unfolding vm_trace_operations_def
    by (rule eval_pfold_inv [where P = registers_in, OF assms]) (simp add: eval_portal_bind)
  with that show ?thesis by auto
qed

lemma eval_vm_trace:
  assumes "i \<noteq> 0 \<longrightarrow> registers_in m"
  shows "\<exists>m'. eval_portal True (vm_trace vm i) m = Inr (True, m') \<and> registers_in m'"
proof (cases "i = 0")
  case True
  obtain m1 where m1: "eval_portal True (pfold (\<lambda>i _. portal_set (register i) 1) [0..<register_num] ()) m = Inr ((), m1)" "registers_in m1"
    by (rule set_registers_in)
  obtain m2 where "eval_portal True (vm_trace_operations vm) m1 = Inr ((), m2)" "registers_in m2"
    by (rule eval_trace_operations [OF m1(2)])
  with m1 True show ?thesis by (simp add: vm_trace_def eval_portal_bind)
next
  case False
  then have m: "registers_in m" using assms by simp
  have "\<exists>s' m'. eval_portal True (pfold (\<lambda>i _. pbind (portal_get (register i)) (\<lambda>_. Return ())) [0..<register_num] ()) m = Inr (s', m')
      \<and> registers_in m'"
  proof (rule eval_pfold_inv [where P = registers_in, OF m])
    fix x s and m :: "string \<rightharpoonup> 'a"
    assume "x \<in> set [0..<register_num]" "registers_in m"
    moreover from this obtain v where "m (register x) = Some v" by (auto simp: registers_in_def)
    ultimately show "\<exists>s' m'. eval_portal True (pbind (portal_get (register x)) (\<lambda>_. Return ())) m = Inr (s', m') \<and> registers_in m'"
      by (simp add: eval_portal_bind)
  qed
  then obtain m1 where m1: "eval_portal True (pfold (\<lambda>i _. pbind (portal_get (register i)) (\<lambda>_. Return ())) [0..<register_num] ()) m
      = Inr ((), m1)" "registers_in m1" by auto
  obtain m2 where m2: "eval_portal True (vm_trace_operations vm) m1 = Inr ((), m2)" "registers_in m2"
    by (rule eval_trace_operations [OF m1(2)])
  obtain m3 where "eval_portal True (pfold (\<lambda>i _. portal_set (register i) 1) [0..<register_num] ()) m2 = Inr ((), m3)" "registers_in m3"
    by (rule set_registers_in)
  with m1 m2 False show ?thesis by (simp add: vm_trace_def eval_portal_bind)
qed

lemma eval_run_vm_trace:
  "(0 \<notin> set is \<longrightarrow> registers_in m) \<Longrightarrow> (\<forall>i \<in> set (tl is). i \<noteq> 0) \<Longrightarrow>
     \<exists>m'. eval_run True (map (vm_trace vm) is) m = Inr (True, m') \<and> (is \<noteq> [] \<longrightarrow> registers_in m')"
proof (induction "is" arbitrary: m)
  case (Cons i js)
  have "i \<noteq> 0 \<longrightarrow> registers_in m" using Cons.prems by auto
  then obtain m1 where m1: "eval_portal True (vm_trace vm i) m = Inr (True, m1)" "registers_in m1"
    using eval_vm_trace by blast
  have "\<forall>j \<in> set (tl js). j \<noteq> 0" using Cons.prems(2) by (cases js) auto
  then obtain m' where "eval_run True (map (vm_trace vm) js) m1 = Inr (True, m')" "js \<noteq> [] \<longrightarrow> registers_in m'"
    using Cons.IH [of m1] m1(2) by blast
  with m1 show ?case by (cases js) simp_all
qed simp

lemma vm_trace_accesses: "accesses_at_most (vm_trace vm i) (32 + 3 * vp_operations_per_chunk (vm_params vm))"
proof -
  let ?n = "vp_operations_per_chunk (vm_params vm)"
  have ops: "accesses_at_most (vm_trace_operations vm) (3 * ?n)"
    unfolding vm_trace_operations_def
    by (rule accesses_at_most_pfold [where k = 3 and xs = "[0..<?n]", unfolded length_upt diff_zero])
      (simp add: portal_set_def portal_get_def)
  have gets: "accesses_at_most (pfold (\<lambda>i _. pbind (portal_get (register i)) (\<lambda>_. Return ())) [0..<register_num] ()) 16"
    using accesses_at_most_pfold [where k = 1 and xs = "[0..<register_num]" and s = "()"
        and f = "\<lambda>i _. pbind (portal_get (register i)) (\<lambda>_. Return ())"]
    by (simp add: portal_get_def register_num_def)
  have sets: "accesses_at_most (pfold (\<lambda>i _. portal_set (register i) 1) [0..<register_num] ()) 16"
    using accesses_at_most_pfold [where k = 1 and xs = "[0..<register_num]" and s = "()" and f = "\<lambda>i _. portal_set (register i) 1"]
    by (simp add: register_num_def)
  have tail: "accesses_at_most (pbind (vm_trace_operations vm) (\<lambda>_. Return True)) (3 * ?n + 0)"
    by (rule accesses_at_most_bind [OF ops]) simp
  have sets': "accesses_at_most (pbind (pfold (\<lambda>i _. portal_set (register i) 1) [0..<register_num] ()) (\<lambda>_. Return True)) (16 + 0)"
    by (rule accesses_at_most_bind [OF sets]) simp
  have "accesses_at_most (pbind (pfold (\<lambda>i _. portal_set (register i) 1) [0..<register_num] ())
      (\<lambda>_. pbind (vm_trace_operations vm) (\<lambda>_. Return True))) (16 + (3 * ?n + 0))"
    by (rule accesses_at_most_bind [OF sets]) (use tail in simp)
  moreover have "accesses_at_most (pbind (pfold (\<lambda>i _. pbind (portal_get (register i)) (\<lambda>_. Return ())) [0..<register_num] ())
      (\<lambda>_. pbind (vm_trace_operations vm) (\<lambda>_. pbind (pfold (\<lambda>i _. portal_set (register i) 1) [0..<register_num] ()) (\<lambda>_. Return True))))
      (16 + (3 * ?n + (16 + 0)))"
    by (rule accesses_at_most_bind [OF gets]) (use accesses_at_most_bind [OF ops, of _ "16 + 0"] sets' in simp)
  ultimately show ?thesis
    by (auto simp: vm_trace_def elim: accesses_at_most_mono)
qed

lemma vm_traced:
  assumes "vm_num_subcircuits vm * (32 + 3 * vp_operations_per_chunk (vm_params vm)) \<le> 2 ^ 32"
  shows "\<exists>s. ram_setup_run (map (vm_trace vm) [0..<vm_num_subcircuits vm]) setup_ram_new = Inr (True, s)
     \<and> length (concat (sm_subtraces s)) \<le> 2 ^ 32 \<and> concat (sm_subtraces s) \<noteq> []"
proof -
  let ?n = "vm_num_subcircuits vm"
  let ?ps = "map (vm_trace vm) [0..<?n]"
  have n: "0 < ?n" by (simp add: vm_num_subcircuits_def)
  have "0 \<in> set [0..<?n]" "\<forall>i \<in> set (tl [0..<?n]). i \<noteq> 0" using n by auto
  then obtain m where m: "eval_run True ?ps Map.empty = Inr (True, m)" "registers_in m"
    using eval_run_vm_trace [of "[0..<?n]" Map.empty vm] n by auto
  obtain s where s: "ram_setup_run ?ps setup_ram_new = Inr (True, s)" "sm_var_map s = m"
    using ram_setup_run_eval [of ?ps setup_ram_new] m(1)
    by (cases "ram_setup_run ?ps setup_ram_new") (auto simp: setup_ram_new_def)
  have "list_all2 accesses_at_most ?ps (replicate ?n (32 + 3 * vp_operations_per_chunk (vm_params vm)))"
    by (simp add: list_all2_conv_all_nth vm_trace_accesses)
  from ram_setup_run_size [OF this s(1)] have "length (concat (sm_subtraces s)) \<le> ?n * (32 + 3 * vp_operations_per_chunk (vm_params vm))"
    by (simp add: setup_ram_new_def sum_list_replicate)
  moreover have "concat (sm_subtraces s) \<noteq> []"
  proof (rule ram_setup_run_nonempty [OF s(1)])
    show "sm_var_map s (register 0) \<noteq> None" using m(2) by (simp add: s(2) registers_in_def register_num_def)
  qed
  ultimately show ?thesis using s(1) assms by auto
qed

section \<open>The two memories\<close>

text \<open>With portals the constraints access the memory exactly as the native trace does.\<close>

lemma vm_generate_trace: "\<not> vp_use_merkle_memory (vm_params vm) \<Longrightarrow> vm_generate hl vm i = vm_trace vm i"
  by (simp add: vm_generate_def vm_trace_def get_registers_def set_registers_def do_dummy_operation_def vm_trace_operations_def
      memory_get_def memory_set_def pbind_assoc Let_def)

lemma vm_witness_contract: "vm_params vm = params \<Longrightarrow> witness_contract (vm_ops hl) vm i"
  by (simp add: witness_contract_def vm_ops_def vm_get_witnesses_def vm_set_witnesses_def vm_new_def vm_generate_def
      do_dummy_operation_def Let_def vm_num_subcircuits_def)

text \<open> C15: the virtual-machine benchmark with portal memory completes. For every size whose trace fits the
  32-bit timestamps, the coordinator traces the machine, collects the responses, builds the tree and issues
  every request without failing, and every worker ends with a satisfied stage 1 constraint system. \<close>

theorem vm_end_to_end:
  fixes params :: vm_params
  defines "vm \<equiv> vm_rand params :: 'f::field virtual_machine"
  assumes "\<not> vp_use_merkle_memory params"
    and "2 ^ vp_log_num_subcircuit params * (32 + 3 * vp_operations_per_chunk params) \<le> 2 ^ 32"
    and "merkle_complete ml" and "\<forall>ls. length ls = 2 ^ vp_log_num_subcircuit params \<longrightarrow> mt_new ml ls \<noteq> None"
    and "commit_left (map s0_com (sort_key s0_idx resps)) = Inr super_com"
  shows "\<exists>st0 st1. coordinator0_new (vm_ops hl) vm = Inr st0
     \<and> process_stage0_responses sha256 ser ml Ram commit_left resps st0 = Inr st1
     \<and> (\<forall>i < 2 ^ vp_log_num_subcircuit params. \<exists>req0 req1. gen_request0 st0 i = Inr req0 \<and> gen_request1 Ram st1 i = Inr req1
           \<and> result_map snd (process_stage1_request (vm_ops hl) ml (\<lambda>s cb. Inr (commit s cb)) (\<lambda>cb cs rs. Inr (prove cb cs rs)) req0 resp0 req1) = Inr True)"
proof -
  have params: "vm_params vm = params" by (simp add: vm_def vm_rand_def vm_new_def)
  have n: "vm_num_subcircuits vm = 2 ^ vp_log_num_subcircuit params" by (simp add: vm_num_subcircuits_def params)
  obtain s where s: "ram_setup_run (map (vm_trace vm) [0..<vm_num_subcircuits vm]) setup_ram_new = Inr (True, s)"
    "length (concat (sm_subtraces s)) \<le> 2 ^ 32" "concat (sm_subtraces s) \<noteq> []"
    using vm_traced [of vm] assms(3) by (auto simp: n params)
  have ops: "op_mem_type (vm_ops hl) = Ram" "op_num_subcircuits (vm_ops hl) vm = 2 ^ vp_log_num_subcircuit params"
    "op_portal_subtraces (vm_ops hl) vm = Inr (map (map RamEntry) (sm_subtraces s))"
    using s(1) by (simp_all add: vm_ops_def n vm_portal_subtraces_def)
  have run: "ram_setup_run (map (op_generate (vm_ops hl) vm) [0..<2 ^ vp_log_num_subcircuit params]) setup_ram_new = Inr (True, s)"
    using s(1) by (simp add: vm_ops_def n vm_generate_trace [of vm hl] params assms(2) cong: map_cong)
  have contract: "\<forall>i < 2 ^ vp_log_num_subcircuit params. witness_contract (vm_ops hl) vm i"
    using vm_witness_contract [OF params] by blast
  show ?thesis
    using ram_protocol_run [where commit_left = commit_left and resps = resps and ?sha256.0 = sha256 and ser = ser
        and commit = commit and prove = prove and ?resp0.0 = resp0, OF ops(1,2) run ops(3) s(2,3) contract assms(4-6)] .
qed

section \<open>Merkle memory\<close>

lemma merkle_path_verification_ok:
  assumes "hash_lib_ok hl"
  shows "merkle_path_verification hl = Inr ()"
proof -
  let ?leaf = "replicate 32 1 :: u8 list"
  obtain t where t: "sparse_tree_new hl 32 = Inr t" "tree_ok hl 32 t" using sparse_tree_new_ok [OF assms] by blast
  obtain h where h: "vkd_hash hl ?leaf = Inr h" "length h = 32" using vkd_hash_total [OF assms] by blast
  let ?i = "bytes_val (take 4 h)"
  have "?i < 256 ^ length (take 4 h)" by (rule bytes_val_less)
  then have i: "?i < 2 ^ 32" using h(2) by simp
  have index: "get_index h 32 = Inr (at_node ?i 32)" using h(2) by (simp add: get_index_def)
  obtain t' where t': "sparse_insert hl (at_node ?i 32) ?leaf Leaf t = Inr t'" "tree_ok hl 32 t'"
    using sparse_insert_ok [OF assms t(2) i] by blast
  obtain path where path: "lookup_path t' (at_node ?i 32) = Inr path" "length path = 32"
    using lookup_path_ok [OF t'(2) i] by blast
  obtain lh where lh: "hash_leaf hl ?leaf = Inr lh" using hash_leaf_total [OF assms] by blast
  let ?bits = "val_bits 64 (bytes_val (take 8 h))"
  obtain r where r: "rfold (path_step hl) (zip path (map Not ?bits)) lh = Inr r" using path_fold_total [OF assms] by blast
  have "compute_root_var_from_leaf hl (path_new_variable path) ?leaf ?bits = Inr (inner_hash_to_fpvar r)"
    using fold_path_var_eq [OF assms, of path ?bits lh] hash_leaf_var_eq [OF assms, of ?leaf] lh r
    by (simp add: compute_root_var_from_leaf_def path(2))
  with t h index t' path show ?thesis
    by (simp add: merkle_path_verification_def merkle_memory_depth_def Let_def)
qed

lemma memory_merkle:
  "hash_lib_ok hl \<Longrightarrow> memory_get hl True n = Return ()" "hash_lib_ok hl \<Longrightarrow> memory_set hl True n v = Return ()"
  by (simp_all add: memory_get_def memory_set_def merkle_path_verification_ok lift_res_def)

lemma pfold_Return [simp]: "pfold (\<lambda>_. Return) xs s = Return s"
  by (induction xs) simp_all

lemma vm_generate_merkle:
  assumes "hash_lib_ok hl" "vp_use_merkle_memory (vm_params vm)"
  shows "vm_generate hl vm i = Return True"
  using assms(2)
  by (simp add: vm_generate_def get_registers_def set_registers_def do_dummy_operation_def memory_merkle [OF assms(1)] Let_def)

lemma ram_setup_run_returns:
  "\<exists>s'. ram_setup_run (map (\<lambda>_. Return True) xs) s = Inr (True, s') \<and> concat (sm_subtraces s') = concat (sm_subtraces s)"
proof (induction xs arbitrary: s)
  case (Cons x xs)
  from Cons.IH [of "setup_ram_start_subtrace s"] show ?case
    by (auto simp: ram_setup_run_def setup_ram_start_subtrace_def)
qed (simp add: ram_setup_run_def)

text \<open> C29: with Merkle memory the trace that the coordinator commits to is not the one the constraints make.
  The constraints of all subcircuits are generated and hold without a single access to the portals, whereas
  get_portal_subtraces reports accesses. \<close>

theorem vm_merkle_memory_trace_differs:
  fixes params :: vm_params and hl :: "'f::field hash_lib"
  defines "vm \<equiv> vm_rand params :: 'f virtual_machine"
  assumes "vp_use_merkle_memory params" and "hash_lib_ok hl"
    and "2 ^ vp_log_num_subcircuit params * (32 + 3 * vp_operations_per_chunk params) \<le> 2 ^ 32"
  shows "\<exists>s tr. ram_setup_run (map (vm_generate hl vm) [0..<vm_num_subcircuits vm]) setup_ram_new = Inr (True, s)
     \<and> concat (sm_subtraces s) = [] \<and> vm_portal_subtraces vm = Inr tr \<and> concat tr \<noteq> []"
proof -
  have params: "vm_params vm = params" by (simp add: vm_def vm_rand_def vm_new_def)
  have gen: "vm_generate hl vm = (\<lambda>_. Return True)"
    using vm_generate_merkle [OF assms(3), of vm] assms(2) params by (simp add: fun_eq_iff)
  obtain s where s: "ram_setup_run (map (vm_generate hl vm) [0..<vm_num_subcircuits vm]) setup_ram_new = Inr (True, s)"
    "concat (sm_subtraces s) = []"
    using ram_setup_run_returns [of "[0..<vm_num_subcircuits vm]" "setup_ram_new :: 'f setup_ram"]
    unfolding gen by (auto simp: setup_ram_new_def)
  obtain s' where s': "ram_setup_run (map (vm_trace vm) [0..<vm_num_subcircuits vm]) setup_ram_new = Inr (True, s')"
    "concat (sm_subtraces s') \<noteq> []"
    using vm_traced [of vm] assms(4) by (auto simp: vm_num_subcircuits_def params)
  have "vm_portal_subtraces vm = Inr (map (map RamEntry) (sm_subtraces s'))" using s'(1) by (simp add: vm_portal_subtraces_def)
  moreover have "concat (map (map RamEntry) (sm_subtraces s')) \<noteq> []" using s'(2) by (simp only: concat_map_map) simp
  ultimately show ?thesis using s by blast
qed

definition vm_toy_params :: "bool \<Rightarrow> vm_params" where
  "vm_toy_params mm = \<lparr>vp_use_merkle_memory = mm, vp_log_num_subcircuit = 2, vp_dummy_constraint_num = 30, vp_operations_per_chunk = 2\<rparr>"

theorem vm_end_to_end_witness:
  "\<exists>st0 st1 req0 req1. coordinator0_new (vm_ops toy_hash_lib) (vm_rand (vm_toy_params False)) = Inr st0
     \<and> process_stage0_responses (\<lambda>_. [3]) (\<lambda>_. []) flat_merkle Ram (\<lambda>_. Inr ()) [\<lparr>s0_idx = 0, s0_com = (), s0_seed = ()\<rparr>] st0 = Inr st1
     \<and> gen_request0 st0 3 = Inr req0 \<and> gen_request1 Ram st1 3 = Inr req1
     \<and> result_map snd (process_stage1_request (vm_ops toy_hash_lib) flat_merkle (\<lambda>s cb. Inr ((), ()))
          (\<lambda>cb cs rs. Inr ()) req0 \<lparr>s0_idx = 3, s0_com = (), s0_seed = ()\<rparr> req1) = Inr True"
proof -
  have p: "\<not> vp_use_merkle_memory (vm_toy_params False)"
    "2 ^ vp_log_num_subcircuit (vm_toy_params False) * (32 + 3 * vp_operations_per_chunk (vm_toy_params False)) \<le> (2 :: nat) ^ 32"
    by (simp_all add: vm_toy_params_def)
  have new: "\<forall>ls. length ls = 2 ^ vp_log_num_subcircuit (vm_toy_params False) \<longrightarrow> mt_new flat_merkle ls \<noteq> None"
    by (simp add: flat_merkle_def)
  from vm_end_to_end [where commit_left = "\<lambda>_. Inr ()" and super_com = "()" and ?sha256.0 = "\<lambda>_. [3]" and ser = "\<lambda>_. []"
      and resps = "[\<lparr>s0_idx = 0, s0_com = (), s0_seed = ()\<rparr>]" and ?resp0.0 = "\<lparr>s0_idx = 3, s0_com = (), s0_seed = ()\<rparr>"
      and commit = "\<lambda>s cb. ((), ())" and prove = "\<lambda>cb cs rs. ()" and hl = toy_hash_lib,
      OF p flat_merkle_complete new refl]
  show ?thesis by (fastforce simp: vm_toy_params_def)
qed

theorem vm_merkle_memory_trace_differs_witness:
  "\<exists>s tr. ram_setup_run (map (vm_generate toy_hash_lib (vm_rand (vm_toy_params True))) [0..<4]) setup_ram_new = Inr (True, s)
     \<and> concat (sm_subtraces s) = [] \<and> vm_portal_subtraces (vm_rand (vm_toy_params True) :: rat virtual_machine) = Inr tr \<and> concat tr \<noteq> []"
  using vm_merkle_memory_trace_differs [of "vm_toy_params True" toy_hash_lib, OF _ toy_hash_lib_ok]
  by (simp add: vm_toy_params_def vm_num_subcircuits_def vm_rand_def vm_new_def)

end
