(* ===== verification/Messages.thy ===== *)
theory Messages
  imports Prelude
begin

text \<open>
  Messages between the processes, \<open>mpi-snark/src/lib.rs\<close> and the communication functions of
  \<open>mpi-snark/src/bin/node.rs\<close>: requests are serialised, padded to units of 256 bytes and scattered from the root
  in one buffer with counts and displacements; responses are gathered in slots of one size. The MPI
  library and the serialisation of the messages are parameters.
\<close>

section \<open>Serialisation\<close>

record 'a codec =
  cod_ser :: "'a \<Rightarrow> u8 list"
  cod_de :: "u8 list \<Rightarrow> 'a option"
  cod_size :: "'a \<Rightarrow> nat"

text \<open>A deserialiser reads the messages that are sent, ignores what follows, and sizes are lengths.\<close>

definition codec_ok :: "'a codec \<Rightarrow> 'a set \<Rightarrow> bool" where
  "codec_ok c X \<longleftrightarrow> (\<forall>x \<in> X. (\<forall>rest. cod_de c (cod_ser c x @ rest) = Some x) \<and> cod_size c x = length (cod_ser c x))"

definition packed_size :: nat where
  "packed_size = 256"

definition packed_zero :: "u8 list" where
  "packed_zero = replicate packed_size 0"

definition packed_from_bytes :: "u8 list \<Rightarrow> failure + u8 list" where
  "packed_from_bytes bytes =
     (if length bytes \<le> packed_size then Inr (bytes @ drop (length bytes) packed_zero)
      else Inl (Panic ''range end index out of range''))"

definition serialize_to_vec :: "'a codec \<Rightarrow> 'a \<Rightarrow> u8 list" where
  "serialize_to_vec c item = cod_ser c item"

definition serialize_to_packed_vec :: "'a codec \<Rightarrow> 'a \<Rightarrow> failure + u8 list list" where
  "serialize_to_packed_vec c item = rmap packed_from_bytes (chunks packed_size (serialize_to_vec c item))"

definition packed_to_bytes :: "u8 list list \<Rightarrow> u8 list" where
  "packed_to_bytes packed = concat packed"

definition deserialize_from_packed_bytes :: "'a codec \<Rightarrow> u8 list list \<Rightarrow> 'a option" where
  "deserialize_from_packed_bytes c packed = cod_de c (packed_to_bytes packed)"

section \<open>Counts and displacements\<close>

text \<open>MPI counts are signed 32-bit numbers; \<open>as\<close> truncates, and a checked addition panics on overflow.\<close>

type_synonym count = "32 word"

definition as_count :: "nat \<Rightarrow> count" where
  "as_count n = word_of_nat n"

definition count_usize :: "count \<Rightarrow> nat" where
  "count_usize c = unat (scast c :: u64)"

definition count_add :: "count \<Rightarrow> count \<Rightarrow> failure + count" where
  "count_add a b =
     (let s = sint a + sint b in
      if - (2 ^ 31) \<le> s \<and> s < 2 ^ 31 then Inr (a + b) else Inl (Panic ''attempt to add with overflow''))"

definition displacements :: "count list \<Rightarrow> failure + count list" where
  "displacements counts =
     rbind (rfold (\<lambda>x (acc, out). rbind (count_add acc x) (\<lambda>acc'. Inr (acc', out @ [acc]))) counts (0, [])) (\<lambda>(_, out). Inr out)"

record 'a partition =
  pt_buf :: "'a list"
  pt_counts :: "count list"
  pt_displs :: "count list"

text \<open>The root is rank 0 and sends nothing to itself.\<close>

definition partitioned_buffer_for_scatter :: "'a codec \<Rightarrow> 'a list \<Rightarrow> failure + u8 list partition" where
  "partitioned_buffer_for_scatter c items =
     rbind (rmap (serialize_to_packed_vec c) items) (\<lambda>item_bytes.
     let counts = map (\<lambda>bytes. as_count (length bytes)) ([] # item_bytes) in
     rbind (displacements counts) (\<lambda>displs.
       Inr \<lparr>pt_buf = concat item_bytes, pt_counts = counts, pt_displs = displs\<rparr>))"

definition partitioned_mut_buffer_for_gather :: "count \<Rightarrow> 'a codec \<Rightarrow> 'a \<Rightarrow> failure + u8 partition" where
  "partitioned_mut_buffer_for_gather world c dflt =
     (let item_size = cod_size c dflt;
          item_bytes = take (count_usize world) ([] # replicate (count_usize world) (replicate item_size 0));
          counts = map (\<lambda>bytes. as_count (length bytes)) item_bytes in
      rbind (displacements counts) (\<lambda>displs.
        Inr \<lparr>pt_buf = concat item_bytes, pt_counts = counts, pt_displs = displs\<rparr>))"

definition deserialize_flattened_bytes :: "'a codec \<Rightarrow> 'a \<Rightarrow> u8 list \<Rightarrow> failure + 'a list" where
  "deserialize_flattened_bytes c dflt flattened =
     (let item_size = cod_size c dflt in
      rbind (ensure ''chunk size must be non-zero'' (item_size \<noteq> 0)) (\<lambda>_.
      rmap (\<lambda>bytes. unwrap ''called `Result::unwrap()` on an `Err` value'' (cod_de c bytes))
        (filter (\<lambda>bytes. length bytes = item_size) (chunks item_size flattened))))"

section \<open>Collective operations\<close>

text \<open>
  What each rank gets from a scatter of single counts and of a partitioned buffer, and what the root gets from
  a gather, given what each rank sends.
\<close>

record mpi_lib =
  mp_scatter :: "count list \<Rightarrow> nat \<Rightarrow> count"
  mp_scatter_varcount :: "u8 list partition \<Rightarrow> nat \<Rightarrow> u8 list list"
  mp_gather_varcount :: "(nat \<Rightarrow> u8 list) \<Rightarrow> u8 partition \<Rightarrow> u8 list"

definition contiguous :: "'a partition \<Rightarrow> bool" where
  "contiguous pt \<longleftrightarrow> length (pt_displs pt) = length (pt_counts pt) \<and> (\<forall>c \<in> set (pt_counts pt). 0 \<le> sint c)
     \<and> (\<forall>r < length (pt_counts pt). sint (pt_displs pt ! r) = sum_list (map sint (take r (pt_counts pt))))
     \<and> int (length (pt_buf pt)) = sum_list (map sint (pt_counts pt))"

definition part_of :: "'a partition \<Rightarrow> nat \<Rightarrow> 'a list" where
  "part_of pt r = take (nat (sint (pt_counts pt ! r))) (drop (nat (sint (pt_displs pt ! r))) (pt_buf pt))"

text \<open>The collective operations on a world of the given size, on buffers whose parts follow each other.\<close>

definition mpi_ok :: "nat \<Rightarrow> mpi_lib \<Rightarrow> bool" where
  "mpi_ok world mp \<longleftrightarrow>
     (\<forall>counts r. length counts = world \<and> r < world \<longrightarrow> mp_scatter mp counts r = counts ! r)
     \<and> (\<forall>pt r. length (pt_counts pt) = world \<and> contiguous pt \<and> r < world \<longrightarrow> mp_scatter_varcount mp pt r = part_of pt r)
     \<and> (\<forall>pt sends. length (pt_counts pt) = world \<and> contiguous pt \<and> (\<forall>r < world. int (length (sends r)) = sint (pt_counts pt ! r))
          \<longrightarrow> mp_gather_varcount mp sends pt = concat (map sends [0..<world]))"

definition scatter_requests :: "mpi_lib \<Rightarrow> 'a codec \<Rightarrow> 'a list \<Rightarrow> failure + (nat \<Rightarrow> count \<times> u8 list list)" where
  "scatter_requests mp c requests =
     rbind (partitioned_buffer_for_scatter c requests) (\<lambda>request_bytes_buf.
       Inr (\<lambda>rank. (mp_scatter mp (pt_counts request_bytes_buf) rank, mp_scatter_varcount mp request_bytes_buf rank)))"

definition receive_requests :: "'a codec \<Rightarrow> count \<times> u8 list list \<Rightarrow> failure + 'a" where
  "receive_requests c = (\<lambda>(num, scattered).
     let request_ser = scattered @ drop (length scattered) (replicate (count_usize num) packed_zero) in
     unwrap ''called `Result::unwrap()` on an `Err` value'' (deserialize_from_packed_bytes c request_ser))"

definition udiv :: "nat \<Rightarrow> nat \<Rightarrow> failure + nat" where
  "udiv a b = (if b = 0 then Inl (Panic ''attempt to divide by zero'') else Inr (a div b))"

text \<open>The log message of the sender divides by the number of responses.\<close>

definition send_responses :: "'a list codec \<Rightarrow> 'a list \<Rightarrow> failure + u8 list" where
  "send_responses c responses =
     (let responses_bytes = serialize_to_vec c responses in
      rbind (udiv (length responses_bytes) (length responses)) (\<lambda>_. Inr responses_bytes))"

definition gather_responses :: "mpi_lib \<Rightarrow> count \<Rightarrow> 'a codec \<Rightarrow> 'a \<Rightarrow> (nat \<Rightarrow> u8 list) \<Rightarrow> failure + 'a list" where
  "gather_responses mp world c dflt_response sends =
     rbind (partitioned_mut_buffer_for_gather world c dflt_response) (\<lambda>response_bytes_buf.
       deserialize_flattened_bytes c dflt_response
         (mp_gather_varcount mp (\<lambda>rank. if rank = 0 then [] else sends rank) response_bytes_buf))"

section \<open>Packing\<close>

lemma length_packed_zero [simp]: "length packed_zero = 256"
  by (simp add: packed_zero_def packed_size_def)

lemma serialize_to_packed_vec_eq:
  obtains ps z where "serialize_to_packed_vec c x = Inr ps" "concat ps = cod_ser c x @ z" "\<forall>p \<in> set ps. length p = 256"
    "length ps = length (chunks 256 (cod_ser c x))"
proof -
  have pad: "\<exists>ps z. rmap packed_from_bytes (chunks 256 bs) = Inr ps \<and> concat ps = bs @ z \<and> (\<forall>p \<in> set ps. length p = 256)
      \<and> length ps = length (chunks 256 bs)" for bs
  proof (induction "256 :: nat" bs rule: chunks.induct)
    case (1 bs)
    show ?case
    proof (cases "bs = []")
      case False
      then have split: "chunks 256 bs = take 256 bs # chunks 256 (drop 256 bs)" by (simp add: chunks_unfold)
      show ?thesis
      proof (cases "length bs \<le> 256")
        case True
        then show ?thesis
          by (intro exI [of _ "[bs @ drop (length bs) packed_zero]"] exI [of _ "drop (length bs) packed_zero"])
            (simp add: split packed_from_bytes_def packed_size_def)
      next
        case len: False
        obtain ps z where "rmap packed_from_bytes (chunks 256 (drop 256 bs)) = Inr ps" "concat ps = drop 256 bs @ z"
          "\<forall>p \<in> set ps. length p = 256" "length ps = length (chunks 256 (drop 256 bs))"
          using 1 False by auto
        with len show ?thesis
          by (intro exI [of _ "take 256 bs # ps"] exI [of _ z])
            (simp add: split packed_from_bytes_def packed_size_def append.assoc [symmetric] del: append.assoc)
      qed
    qed simp
  qed
  from pad [of "cod_ser c x"] that show ?thesis
    unfolding serialize_to_packed_vec_def serialize_to_vec_def packed_size_def by blast
qed

lemma length_chunks: "0 < n \<Longrightarrow> length (chunks n xs) = (length xs + n - 1) div n"
proof (induction n xs rule: chunks.induct)
  case (1 n xs)
  show ?case
  proof (cases "xs = []")
    case False
    with 1 have "length (chunks n xs) = Suc ((length xs - n + n - 1) div n)" by (simp add: chunks_unfold)
    also have "\<dots> = (length xs + n - 1) div n"
    proof (cases "length xs \<le> n")
      case True
      have "(length xs + n - 1) div n = Suc ((length xs - 1) div n)"
        using False 1 div_add_self2 [of n "length xs - 1"] by (cases xs) simp_all
      with True 1 False show ?thesis by (cases xs) simp_all
    next
      case False
      then have "length xs + n - 1 = (length xs - n + n - 1) + n" using 1 by simp
      then show ?thesis using 1 by (simp only: div_add_self2)
    qed
    finally show ?thesis .
  qed (simp add: 1)
qed

definition packs :: "'a codec \<Rightarrow> 'a \<Rightarrow> nat" where
  "packs c x = (length (cod_ser c x) + 255) div 256"

section \<open>Buffers\<close>

lemma sint_of_int_small: "- (2 ^ 31) \<le> s \<Longrightarrow> s < 2 ^ 31 \<Longrightarrow> sint (word_of_int s :: count) = s"
  unfolding sint_sbintrunc' by (rule signed_take_bit_int_eq_self) simp_all

lemma sint_as_count: "n < 2 ^ 31 \<Longrightarrow> sint (as_count n) = int n"
  using sint_of_int_small [of "int n"] by (simp add: as_count_def)

lemma count_add_cases:
  "count_add a b = (if - (2 ^ 31) \<le> sint a + sint b \<and> sint a + sint b < 2 ^ 31 then Inr (word_of_int (sint a + sint b))
     else Inl (Panic ''attempt to add with overflow''))"
  by (simp add: count_add_def Let_def)

abbreviation displ_step :: "count \<Rightarrow> count \<times> count list \<Rightarrow> failure + (count \<times> count list)" where
  "displ_step \<equiv> \<lambda>x (acc, out). rbind (count_add acc x) (\<lambda>acc'. Inr (acc', out @ [acc]))"

lemma displ_steps:
  assumes "\<forall>c \<in> set cs. 0 \<le> sint c" "sum_list (map sint cs) < 2 ^ 31"
  shows "\<exists>out. rfold displ_step cs (0, []) = Inr (word_of_int (sum_list (map sint cs)), out) \<and> length out = length cs
     \<and> (\<forall>r < length cs. sint (out ! r) = sum_list (map sint (take r cs)))"
  using assms
proof (induction cs rule: rev_induct)
  case (snoc c cs)
  have nonneg: "0 \<le> sum_list (map sint cs)" using snoc.prems(1) by (intro sum_list_nonneg) auto
  with snoc.prems have small: "sum_list (map sint cs) < 2 ^ 31" by simp
  obtain out where out: "rfold displ_step cs (0, []) = Inr (word_of_int (sum_list (map sint cs)), out)" "length out = length cs"
    "\<forall>r < length cs. sint (out ! r) = sum_list (map sint (take r cs))"
    using snoc small by auto
  have "sint (word_of_int (sum_list (map sint cs)) :: count) = sum_list (map sint cs)"
    using nonneg small by (intro sint_of_int_small) simp_all
  then show ?case
    using out snoc.prems nonneg
    by (auto simp: rfold_append count_add_cases less_Suc_eq nth_append)
qed simp

lemma displacements_eq:
  assumes "\<forall>c \<in> set cs. 0 \<le> sint c" "sum_list (map sint cs) < 2 ^ 31"
  obtains ds where "displacements cs = Inr ds" "length ds = length cs" "\<forall>r < length cs. sint (ds ! r) = sum_list (map sint (take r cs))"
  using displ_steps [OF assms] by (auto simp: displacements_def)


text \<open>Both kinds of buffer cut one sequence of items into parts, the first of which is empty.\<close>

lemma buffer_contiguous:
  assumes small: "sum_list (map length item_bytes) < 2 ^ 31"
  obtains ds where "displacements (map (\<lambda>bs. as_count (length bs)) item_bytes) = Inr ds"
    and "contiguous \<lparr>pt_buf = concat item_bytes, pt_counts = map (\<lambda>bs. as_count (length bs)) item_bytes, pt_displs = ds\<rparr>"
    and "\<And>r. r < length item_bytes \<Longrightarrow>
       part_of \<lparr>pt_buf = concat item_bytes, pt_counts = map (\<lambda>bs. as_count (length bs)) item_bytes, pt_displs = ds\<rparr> r = item_bytes ! r"
proof -
  have each: "\<forall>bs \<in> set item_bytes. length bs < 2 ^ 31"
    using small member_le_sum_list [of _ "map length item_bytes"] by fastforce
  let ?cs = "map (\<lambda>bs. as_count (length bs)) item_bytes"
  have sint: "map sint ?cs = map (\<lambda>bs. int (length bs)) item_bytes" using each by (simp add: sint_as_count)
  have int_sum: "sum_list (map (\<lambda>bs. int (length bs)) xs) = int (length (concat xs))" for xs :: "'a list list"
    by (induction xs) simp_all
  have total: "sum_list (map sint ?cs) = int (length (concat item_bytes))" by (simp only: sint int_sum)
  have nonneg: "\<forall>c \<in> set ?cs. 0 \<le> sint c" using each by (auto simp: sint_as_count)
  have total_small: "sum_list (map sint ?cs) < 2 ^ 31" using small unfolding total by (simp add: length_concat)
  obtain ds where ds: "displacements ?cs = Inr ds" "length ds = length ?cs" "\<forall>r < length ?cs. sint (ds ! r) = sum_list (map sint (take r ?cs))"
    by (rule displacements_eq [OF nonneg total_small])
  have pre: "sum_list (map sint (take r ?cs)) = int (length (concat (take r item_bytes)))" for r
    unfolding take_map [symmetric] sint int_sum [symmetric] by (simp only: take_map sint)
  show thesis
  proof (rule that [OF ds(1)])
    show "contiguous \<lparr>pt_buf = concat item_bytes, pt_counts = ?cs, pt_displs = ds\<rparr>"
      using ds nonneg total by (simp add: contiguous_def)
    fix r assume r: "r < length item_bytes"
    have "item_bytes = take r item_bytes @ item_bytes ! r # drop (Suc r) item_bytes" using r by (rule id_take_nth_drop)
    then have "concat item_bytes = concat (take r item_bytes) @ item_bytes ! r @ concat (drop (Suc r) item_bytes)"
      by (metis concat.simps(2) concat_append)
    then show "part_of \<lparr>pt_buf = concat item_bytes, pt_counts = ?cs, pt_displs = ds\<rparr> r = item_bytes ! r"
      using ds(3) r each by (simp add: part_of_def pre sint_as_count)
  qed
qed

section \<open>Requests arrive as they were sent\<close>

lemma packed_items:
  obtains pss where "rmap (serialize_to_packed_vec c) items = Inr pss" "map length pss = map (packs c) items"
    "\<And>r. r < length items \<Longrightarrow> \<exists>z. concat (pss ! r) = cod_ser c (items ! r) @ z"
proof -
  have "\<exists>ps. serialize_to_packed_vec c x = Inr ps \<and> length ps = packs c x \<and> (\<exists>z. concat ps = cod_ser c x @ z)" for x
    by (rule serialize_to_packed_vec_eq [of c x]) (simp add: packs_def length_chunks)
  then obtain ps where ps: "serialize_to_packed_vec c x = Inr (ps x)" "length (ps x) = packs c x" "\<exists>z. concat (ps x) = cod_ser c x @ z" for x
    by metis
  have "rmap (serialize_to_packed_vec c) items = Inr (map ps items)" by (rule rmap_total) (rule ps(1))
  then show thesis by (rule that) (use ps in auto)
qed

lemma scatter_delivers:
  assumes "mpi_ok (length items + 1) mp" "codec_ok c (set items)" "sum_list (map (packs c) items) < 2 ^ 31"
  obtains f where "scatter_requests mp c items = Inr f" "\<And>r. r < length items \<Longrightarrow> receive_requests c (f (Suc r)) = Inr (items ! r)"
proof -
  obtain pss where pss: "rmap (serialize_to_packed_vec c) items = Inr pss" "map length pss = map (packs c) items"
    "\<And>r. r < length items \<Longrightarrow> \<exists>z. concat (pss ! r) = cod_ser c (items ! r) @ z"
    by (rule packed_items [of c items]) (rule that)
  have len: "length pss = length items" using pss(2) by (metis length_map)
  have small: "sum_list (map length ([] # pss)) < 2 ^ 31" using assms(3) by (simp add: pss(2))
  from buffer_contiguous [OF this] obtain ds where
    ds: "displacements (map (\<lambda>bs. as_count (length bs)) ([] # pss)) = Inr ds"
    and cont: "contiguous \<lparr>pt_buf = concat ([] # pss), pt_counts = map (\<lambda>bs. as_count (length bs)) ([] # pss), pt_displs = ds\<rparr>"
    and part: "\<And>r. r < length ([] # pss) \<Longrightarrow>
       part_of \<lparr>pt_buf = concat ([] # pss), pt_counts = map (\<lambda>bs. as_count (length bs)) ([] # pss), pt_displs = ds\<rparr> r = ([] # pss) ! r"
    by blast
  let ?pt = "\<lparr>pt_buf = concat ([] # pss), pt_counts = map (\<lambda>bs. as_count (length bs)) ([] # pss), pt_displs = ds\<rparr>"
  have buf: "partitioned_buffer_for_scatter c items = Inr ?pt"
    using ds by (simp add: partitioned_buffer_for_scatter_def pss(1) Let_def)
  show thesis
  proof (rule that)
    show "scatter_requests mp c items = Inr (\<lambda>rank. (mp_scatter mp (pt_counts ?pt) rank, mp_scatter_varcount mp ?pt rank))"
      by (simp only: scatter_requests_def buf rbind_simps)
    fix r assume r: "r < length items"
    have "mp_scatter_varcount mp ?pt (Suc r) = pss ! r"
      using assms(1) cont part [of "Suc r"] r by (simp add: mpi_ok_def len)
    moreover obtain z where "concat (pss ! r) = cod_ser c (items ! r) @ z" using pss(3) [OF r] by blast
    ultimately show "receive_requests c (mp_scatter mp (pt_counts ?pt) (Suc r), mp_scatter_varcount mp ?pt (Suc r)) = Inr (items ! r)"
      using assms(2) r by (simp add: receive_requests_def deserialize_from_packed_bytes_def packed_to_bytes_def codec_ok_def)
  qed
qed



section \<open>Responses are collected in the order of the ranks\<close>

lemma chunks_concat:
  assumes "0 < n" "\<forall>bs \<in> set bss. length bs = n"
  shows "chunks n (concat bss) = bss"
  using assms(2) by (induction bss) (simp_all add: chunks_append_exact assms(1))

lemma count_usize_as_count: "n < 2 ^ 31 \<Longrightarrow> count_usize (as_count n) = n"
proof -
  assume n: "n < 2 ^ 31"
  have "(scast (as_count n) :: u64) = word_of_int (int n)"
    by (simp only: scast_eq sint_as_count [OF n])
  then show ?thesis using n by (simp add: count_usize_def unsigned_of_nat take_bit_nat_eq_self)
qed

lemma gather_collects:
  assumes "mpi_ok world mp" "codec_ok c (resp ` {1..<world})" "0 < cod_size c dflt" "0 < world" "world < 2 ^ 31" "(world - 1) * cod_size c dflt < 2 ^ 31"
    and "\<And>r. r \<in> {1..<world} \<Longrightarrow> sends r = cod_ser c (resp r) \<and> cod_size c (resp r) = cod_size c dflt"
  shows "gather_responses mp (as_count world) c dflt sends = Inr (map resp [1..<world])"
proof -
  let ?s = "cod_size c dflt"
  have ser: "length (cod_ser c (resp r)) = ?s" if "r \<in> {1..<world}" for r
    using assms(2) assms(7) [OF that] that by (simp add: codec_ok_def)
  have de: "cod_de c (cod_ser c (resp r)) = Some (resp r)" if "r \<in> {1..<world}" for r
  proof -
    have "\<forall>rest. cod_de c (cod_ser c (resp r) @ rest) = Some (resp r)" using assms(2) that by (simp add: codec_ok_def)
    from spec [OF this, of "[]"] show ?thesis by simp
  qed
  let ?items = "[] # replicate (world - 1) (replicate ?s (0 :: u8))"
  have small: "sum_list (map length ?items) < 2 ^ 31" using assms(6) by (simp add: sum_list_replicate)
  from buffer_contiguous [OF this] obtain ds where
    ds: "displacements (map (\<lambda>bs. as_count (length bs)) ?items) = Inr ds"
    and cont: "contiguous \<lparr>pt_buf = concat ?items, pt_counts = map (\<lambda>bs. as_count (length bs)) ?items, pt_displs = ds\<rparr>"
    by blast
  let ?pt = "\<lparr>pt_buf = concat ?items, pt_counts = map (\<lambda>bs. as_count (length bs)) ?items, pt_displs = ds\<rparr>"
  have items: "take (count_usize (as_count world)) ([] # replicate (count_usize (as_count world)) (replicate ?s 0)) = ?items"
    using assms(4) unfolding count_usize_as_count [OF assms(5)]
    by (cases world) (simp_all add: replicate_Suc [symmetric] del: replicate_Suc)
  have buf: "partitioned_mut_buffer_for_gather (as_count world) c dflt = Inr ?pt"
    unfolding partitioned_mut_buffer_for_gather_def Let_def items ds rbind_simps ..
  let ?sends = "\<lambda>rank. if rank = 0 then [] else sends rank"
  have lens: "int (length (?sends r)) = sint (pt_counts ?pt ! r)" if "r < world" for r
  proof (cases r)
    case (Suc k)
    have "?s < 2 ^ 31" using assms(6) Suc that by (cases "world - 1") auto
    then show ?thesis using assms(7) ser [of r] Suc that by (simp add: sint_as_count nth_Cons')
  qed (simp add: as_count_def)
  have "length (pt_counts ?pt) = world" using assms(4) by simp
  then have "mp_gather_varcount mp ?sends ?pt = concat (map ?sends [0..<world])"
    by (intro assms(1) [unfolded mpi_ok_def, THEN conjunct2, THEN conjunct2, THEN spec, THEN spec, THEN mp] conjI allI impI cont lens)
  also have "\<dots> = concat (map (\<lambda>r. cod_ser c (resp r)) [1..<world])"
  proof -
    have "map ?sends [1..<world] = map (\<lambda>r. cod_ser c (resp r)) [1..<world]" using assms(7) by (intro map_cong refl) auto
    then show ?thesis using assms(4) by (simp only: upt_conv_Cons [of 0] list.map concat.simps One_nat_def if_P refl append_Nil)
  qed
  finally have gathered: "mp_gather_varcount mp ?sends ?pt = concat (map (\<lambda>r. cod_ser c (resp r)) [1..<world])" .
  from ser have cut: "chunks ?s (concat (map (\<lambda>r. cod_ser c (resp r)) [1..<world])) = map (\<lambda>r. cod_ser c (resp r)) [1..<world]"
    and same: "filter (\<lambda>bytes. length bytes = ?s) (map (\<lambda>r. cod_ser c (resp r)) [1..<world]) = map (\<lambda>r. cod_ser c (resp r)) [1..<world]"
    by (auto intro!: chunks_concat simp: assms(3) filter_id_conv)
  have "rmap (\<lambda>bytes. unwrap msg (cod_de c bytes)) (map (\<lambda>r. cod_ser c (resp r)) rs) = Inr (map resp rs)"
    if "set rs \<subseteq> {1..<world}" for msg rs
    using that
  proof (induction rs)
    case (Cons r rs)
    then show ?case by (simp add: de)
  qed simp
  then show ?thesis
    unfolding gather_responses_def buf rbind_simps gathered deserialize_flattened_bytes_def Let_def cut same
    using assms(3) by simp
qed

section \<open>How much can be scattered\<close>






text \<open>A library in which a process's part of a buffer is what its count and displacement say.\<close>

definition toy_mpi :: mpi_lib where
  "toy_mpi = \<lparr>mp_scatter = (\<lambda>counts r. counts ! r), mp_scatter_varcount = part_of,
     mp_gather_varcount = (\<lambda>sends pt. concat (map sends [0..<length (pt_counts pt)]))\<rparr>"

lemma toy_mpi_ok: "mpi_ok n toy_mpi"
  by (simp add: mpi_ok_def toy_mpi_def)



end
