(* ===== verification/Aggregation.thy ===== *)
theory Aggregation
  imports Groth16 Coordinator
begin

text \<open>
  Proof aggregation, \<open>distributed-prover/src/aggregation.rs\<close>, with the pairing helpers of
  \<open>pairing_ops.rs\<close> and the Fiat-Shamir transcript of \<open>util.rs\<close>. The inner-product
  commitments and the TIPA argument, and the Merlin transcript, are libraries and enter as parameters; affine and
  projective forms of a point are one value. Debug assertions are on.
\<close>

section \<open>The libraries\<close>

record ('f, 'com, 'gt) ipp_instance =
  in_size :: nat
  in_output :: 'gt
  in_commitment :: 'com
  in_twist :: 'f

record ('g1, 'g2) ipp_witness =
  wi_left :: "'g1 list"
  wi_right :: "'g2 list"

text \<open>
  The TIPA prover key: its supported size, the commitments under its key to a left vector, to a right
  vector and to both, the product of a commitment and a scalar, the twisted inner product, the argument.
\<close>

record ('f, 'g1, 'g2, 'gt, 'com, 'agg) ipp_lib =
  ip_supported_size :: nat
  ip_commit_only_left :: "'g1 list \<Rightarrow> failure + 'com"
  ip_commit_only_right :: "'g2 list \<Rightarrow> failure + 'com"
  ip_commit_with_ip :: "'g1 list \<Rightarrow> 'g2 list \<Rightarrow> failure + 'com"
  ip_smul :: "'f \<Rightarrow> 'com \<Rightarrow> 'com"
  ip_twisted_inner_product :: "'g1 list \<Rightarrow> 'g2 list \<Rightarrow> 'f \<Rightarrow> failure + 'gt"
  ip_prove :: "('f, 'com, 'gt) ipp_instance \<Rightarrow> ('g1, 'g2) ipp_witness \<Rightarrow> failure + 'agg"
  ip_verify :: "('f, 'com, 'gt) ipp_instance \<Rightarrow> 'agg \<Rightarrow> failure + bool"

text \<open>
  The Merlin transcript, the serialisations of what is appended to it, and the field element that
  the generator seeded with the challenge bytes draws first.
\<close>

record ('f, 'com, 'gt, 't) transcript_lib =
  tl_append_message :: "string \<Rightarrow> u8 list \<Rightarrow> 't \<Rightarrow> 't"
  tl_challenge_bytes :: "string \<Rightarrow> 't \<Rightarrow> u8 list \<times> 't"
  tl_rand_from_seed :: "u8 list \<Rightarrow> 'f"
  tl_ser_com :: "'com \<Rightarrow> u8 list"
  tl_ser_cross :: "'gt list list \<Rightarrow> u8 list"

definition append_serializable ::
    "('f, 'com, 'gt, 't) transcript_lib \<Rightarrow> string \<Rightarrow> u8 list \<Rightarrow> 't \<Rightarrow> 't" where
  "append_serializable tr label buf pt = tl_append_message tr label buf pt"

definition challenge_scalar :: "('f, 'com, 'gt, 't) transcript_lib \<Rightarrow> string \<Rightarrow> 't \<Rightarrow> 'f \<times> 't" where
  "challenge_scalar tr label pt = (let (buf, pt) = tl_challenge_bytes tr label pt in (tl_rand_from_seed tr buf, pt))"

section \<open>Pairing helpers\<close>

definition pairing_miller_affine ::
    "('f, 'g1, 'g2, 'gt, 'ml) pairing_lib \<Rightarrow> 'g1 list \<Rightarrow> 'g2 list \<Rightarrow> failure + 'ml" where
  "pairing_miller_affine pl left right =
     rbind (ensure ''assertion failed: left.len() == right.len()'' (length left = length right)) (\<lambda>_.
       Inr (pl_multi_miller_loop pl left right))"

definition pairing_product ::
    "('f, 'g1, 'g2, 'gt, 'ml) pairing_lib \<Rightarrow> 'g1 list \<Rightarrow> 'g2 list \<Rightarrow> failure + 'gt" where
  "pairing_product pl left right =
     rbind (pairing_miller_affine pl left right) (\<lambda>miller_result.
       unwrap ''invalid pairing'' (pl_final_exponentiation pl miller_result))"

definition scalar_pairing :: "('f \<Rightarrow> 'g \<Rightarrow> 'g) \<Rightarrow> 'g list \<Rightarrow> 'f list \<Rightarrow> 'g list" where
  "scalar_pairing smul gp scalars = map (\<lambda>(si, ri). smul ri si) (zip gp scalars)"

definition structured_scalar_power :: "nat \<Rightarrow> 'f::field \<Rightarrow> failure + 'f list" where
  "structured_scalar_power num s =
     rfold (\<lambda>i powers. rbind (vindex powers (i - 1)) (\<lambda>p. Inr (powers @ [p * s]))) [1..<num] [1]"

section \<open>The aggregation key\<close>

record ('g1, 'g2, 'com) agg_proving_key =
  ak_s0 :: "'g1 list"
  ak_s1 :: "'g1 list"
  ak_s2 :: "'g1 list"
  ak_s3 :: "'g1 list"
  ak_com_s0 :: 'com
  ak_com_s1 :: 'com
  ak_com_s2 :: 'com
  ak_com_s3 :: 'com
  ak_h :: "'g2 list"
  ak_com_h :: 'com
  ak_delta0 :: "'g2 list"
  ak_delta1 :: "'g2 list"
  ak_com_delta0 :: 'com
  ak_com_delta1 :: 'com
  ak_alpha :: "'g1 list"
  ak_beta :: "'g2 list"

text \<open>What is read of the proving key of one subcircuit.\<close>

definition crs_elements ::
    "('g1, 'g2) proving_key \<Rightarrow> failure + ('g1 \<times> 'g1 \<times> 'g1 \<times> 'g1 \<times> 'g2 \<times> 'g2 \<times> 'g2 \<times> 'g1 \<times> 'g2)" where
  "crs_elements pk =
     rbind (vindex (vk_gamma_abc_g (pk_vk pk)) 0) (\<lambda>s0.
     rbind (vindex (vk_gamma_abc_g (pk_vk pk)) 1) (\<lambda>s1.
     rbind (vindex (vk_gamma_abc_g (pk_vk pk)) 2) (\<lambda>s2.
     rbind (vindex (vk_gamma_abc_g (pk_vk pk)) 3) (\<lambda>s3.
     rbind (vindex (vk_deltas_h (pk_vk pk)) 0) (\<lambda>delta0.
     rbind (vindex (vk_deltas_h (pk_vk pk)) 1) (\<lambda>delta1.
       Inr (s0, s1, s2, s3, vk_gamma_h (pk_vk pk), delta0, delta1, vk_alpha_g (pk_vk pk), vk_beta_h (pk_vk pk))))))))"

definition agg_proving_key_new ::
    "('f, 'g1, 'g2, 'gt, 'com, 'agg) ipp_lib \<Rightarrow> (nat \<Rightarrow> failure + ('g1, 'g2) proving_key)
      \<Rightarrow> failure + ('g1, 'g2, 'com) agg_proving_key" where
  "agg_proving_key_new il pk_fetcher =
     (let num_proofs = ip_supported_size il in
      rbind (rmap (\<lambda>i. rbind (pk_fetcher i) crs_elements) [0..<num_proofs]) (\<lambda>crs.
      let s0 = map (\<lambda>(s0, s1, s2, s3, h, delta0, delta1, alpha, beta). s0) crs;
          s1 = map (\<lambda>(s0, s1, s2, s3, h, delta0, delta1, alpha, beta). s1) crs;
          s2 = map (\<lambda>(s0, s1, s2, s3, h, delta0, delta1, alpha, beta). s2) crs;
          s3 = map (\<lambda>(s0, s1, s2, s3, h, delta0, delta1, alpha, beta). s3) crs;
          h = map (\<lambda>(s0, s1, s2, s3, h, delta0, delta1, alpha, beta). h) crs;
          delta0 = map (\<lambda>(s0, s1, s2, s3, h, delta0, delta1, alpha, beta). delta0) crs;
          delta1 = map (\<lambda>(s0, s1, s2, s3, h, delta0, delta1, alpha, beta). delta1) crs;
          alpha = map (\<lambda>(s0, s1, s2, s3, h, delta0, delta1, alpha, beta). alpha) crs;
          beta = map (\<lambda>(s0, s1, s2, s3, h, delta0, delta1, alpha, beta). beta) crs in
      rbind (unwrap_res unwrap_err_msg (ip_commit_only_left il s0)) (\<lambda>com_s0.
      rbind (unwrap_res unwrap_err_msg (ip_commit_only_left il s1)) (\<lambda>com_s1.
      rbind (unwrap_res unwrap_err_msg (ip_commit_only_left il s2)) (\<lambda>com_s2.
      rbind (unwrap_res unwrap_err_msg (ip_commit_only_left il s3)) (\<lambda>com_s3.
      rbind (unwrap_res unwrap_err_msg (ip_commit_only_right il h)) (\<lambda>com_h.
      rbind (unwrap_res unwrap_err_msg (ip_commit_only_right il delta0)) (\<lambda>com_delta0.
      rbind (unwrap_res unwrap_err_msg (ip_commit_only_right il delta1)) (\<lambda>com_delta1.
        Inr \<lparr>ak_s0 = s0, ak_s1 = s1, ak_s2 = s2, ak_s3 = s3,
             ak_com_s0 = com_s0, ak_com_s1 = com_s1, ak_com_s2 = com_s2, ak_com_s3 = com_s3,
             ak_h = h, ak_com_h = com_h, ak_delta0 = delta0, ak_delta1 = delta1,
             ak_com_delta0 = com_delta0, ak_com_delta1 = com_delta1, ak_alpha = alpha, ak_beta = beta\<rparr>)))))))))"

section \<open>Aggregation\<close>

text \<open>One proof's equation; used once with the proofs as they are and once with them scaled.\<close>

definition equation_at ::
    "('f, 'g1, 'g2, 'gt::ab_group_add, 'ml) pairing_lib \<Rightarrow> ('g1, 'g2, 'com) agg_proving_key
      \<Rightarrow> 'g1 list \<Rightarrow> 'g2 list \<Rightarrow> 'g1 list \<Rightarrow> 'g1 list \<Rightarrow> 'g1 list \<Rightarrow> 'g1 list \<Rightarrow> nat \<Rightarrow> failure + bool" where
  "equation_at pl ak a b alpha input d c i =
     rbind (vindex a i) (\<lambda>a_i. rbind (vindex b i) (\<lambda>b_i.
     rbind (vindex alpha i) (\<lambda>alpha_i. rbind (vindex (ak_beta ak) i) (\<lambda>beta_i.
     rbind (vindex input i) (\<lambda>input_i. rbind (vindex (ak_h ak) i) (\<lambda>h_i.
     rbind (vindex d i) (\<lambda>d_i. rbind (vindex (ak_delta0 ak) i) (\<lambda>delta0_i.
     rbind (vindex c i) (\<lambda>c_i. rbind (vindex (ak_delta1 ak) i) (\<lambda>delta1_i.
       Inr (pl_pairing pl a_i b_i
         = pl_pairing pl alpha_i beta_i + pl_pairing pl input_i h_i + pl_pairing pl d_i delta0_i + pl_pairing pl c_i delta1_i)))))))))))"

definition assert_equations ::
    "('f, 'g1, 'g2, 'gt::ab_group_add, 'ml) pairing_lib \<Rightarrow> ('g1, 'g2, 'com) agg_proving_key
      \<Rightarrow> 'g1 list \<Rightarrow> 'g2 list \<Rightarrow> 'g1 list \<Rightarrow> 'g1 list \<Rightarrow> 'g1 list \<Rightarrow> 'g1 list \<Rightarrow> nat \<Rightarrow> failure + unit" where
  "assert_equations pl ak a b alpha input d c num_proofs =
     rfold (\<lambda>i _. rbind (equation_at pl ak a b alpha input d c i) (ensure ''assertion failed: the pairing equation'')) [0..<num_proofs] ()"

definition prepared_inputs ::
    "('f \<Rightarrow> 'g1 \<Rightarrow> 'g1::ab_group_add) \<Rightarrow> ('g1, 'g2, 'com) agg_proving_key \<Rightarrow> 'f \<Rightarrow> 'f \<Rightarrow> 'f \<Rightarrow> 'g1 list" where
  "prepared_inputs smul ak p0 p1 p2 =
     map (\<lambda>(((s0, s1), s2), s3). s0 + smul p0 s1 + smul p1 s2 + smul p2 s3)
       (zip (zip (zip (ak_s0 ak) (ak_s1 ak)) (ak_s2 ak)) (ak_s3 ak))"

text \<open>Every left vector against every right vector.\<close>

definition cross_products ::
    "('f, 'g1, 'g2, 'gt, 'ml) pairing_lib \<Rightarrow> 'g1 list list \<Rightarrow> 'g2 list list \<Rightarrow> failure + 'gt list list" where
  "cross_products pl lefts rights = rmap (\<lambda>lhs. rmap (\<lambda>rhs. pairing_product pl lhs rhs) rights) lefts"

definition combine :: "('f \<Rightarrow> 'g \<Rightarrow> 'g::ab_group_add) \<Rightarrow> nat \<Rightarrow> 'g list \<Rightarrow> 'g list \<Rightarrow> 'g list \<Rightarrow> 'g list \<Rightarrow> 'f \<Rightarrow> 'f \<Rightarrow> 'f \<Rightarrow> 'g list" where
  "combine smul num_proofs u v w x r r_sq r_cube =
     map (\<lambda>(((u, v), w), x). u + v + w + x)
       (zip (zip (zip u (scalar_pairing smul v (replicate num_proofs r)))
         (scalar_pairing smul w (replicate num_proofs r_sq))) (scalar_pairing smul x (replicate num_proofs r_cube)))"

text \<open>
  The pairing-product equation of the batch, on the vectors that are scaled by the powers of the twist.
\<close>

definition batch_equation ::
    "('f, 'g1, 'g2, 'gt::ab_group_add, 'ml) pairing_lib \<Rightarrow> ('g1, 'g2, 'com) agg_proving_key \<Rightarrow> 'g1 list \<Rightarrow> 'gt list list
      \<Rightarrow> failure + bool" where
  "batch_equation pl ak alpha_r cross_terms =
     (let z_ab = cross_terms ! 0 ! 0;
          z_sh = cross_terms ! 1 ! 1;
          z_ddelta0 = cross_terms ! 2 ! 2;
          z_cdelta1 = cross_terms ! 3 ! 3 in
      rbind (pairing_product pl alpha_r (ak_beta ak)) (\<lambda>z_alpha_beta.
        Inr (z_ab = z_alpha_beta + z_sh + z_ddelta0 + z_cdelta1)))"

definition agg_subcircuit_proofs ::
    "('f::field, 'g1::ab_group_add, 'g2::ab_group_add, 'gt::ab_group_add, 'ml) pairing_lib
      \<Rightarrow> ('f, 'g1, 'g2, 'gt, 'com::ab_group_add, 'agg) ipp_lib \<Rightarrow> ('f, 'com, 'gt, 't) transcript_lib
      \<Rightarrow> ('g1, 'g2, 'com) agg_proving_key \<Rightarrow> 't \<Rightarrow> 'com \<Rightarrow> ('g1, 'g2) cp_proof list \<Rightarrow> 'f list \<Rightarrow> failure + 'agg" where
  "agg_subcircuit_proofs pl il tr ak pt super_com proofs pub_inputs =
     (let num_proofs = length proofs; smul1 = pl_smul1 pl; smul2 = pl_smul2 pl;
          a_vals = map pr_a proofs; b_vals = map pr_b proofs; c_vals = map pr_c proofs in
      rbind (rmap (\<lambda>p. vindex (pr_ds p) 0) proofs) (\<lambda>d_vals.
      rbind (unwrap_res unwrap_err_msg (ip_commit_with_ip il a_vals b_vals)) (\<lambda>com_ab.
      rbind (unwrap_res unwrap_err_msg (ip_commit_only_left il c_vals)) (\<lambda>com_c.
      let com_d = super_com in
      rbind (vindex pub_inputs 0) (\<lambda>p0. rbind (vindex pub_inputs 1) (\<lambda>p1. rbind (vindex pub_inputs 2) (\<lambda>p2.
      let com_prepared_input = ak_com_s0 ak + ip_smul il p0 (ak_com_s1 ak) + ip_smul il p1 (ak_com_s2 ak) + ip_smul il p2 (ak_com_s3 ak);
          prepared_input = prepared_inputs smul1 ak p0 p1 p2 in
      rbind (assert_equations pl ak a_vals b_vals (ak_alpha ak) prepared_input d_vals c_vals num_proofs) (\<lambda>_.
      let pt = append_serializable tr ''AB-commitment'' (tl_ser_com tr com_ab) pt;
          pt = append_serializable tr ''C-commitment'' (tl_ser_com tr com_c) pt;
          pt = append_serializable tr ''D-commitment'' (tl_ser_com tr com_d) pt;
          (twist, pt) = challenge_scalar tr ''r-random-fiatshamir'' pt in
      rbind (structured_scalar_power num_proofs twist) (\<lambda>twist_powers.
      let a_r = scalar_pairing smul1 a_vals twist_powers;
          c_r = scalar_pairing smul1 c_vals twist_powers;
          d_r = scalar_pairing smul1 d_vals twist_powers;
          alpha_r = scalar_pairing smul1 (ak_alpha ak) twist_powers;
          prepared_input_r = scalar_pairing smul1 prepared_input twist_powers in
      rbind (assert_equations pl ak a_r b_vals alpha_r prepared_input_r d_r c_r num_proofs) (\<lambda>_.
      rbind (cross_products pl [a_r, prepared_input_r, d_r, c_r] [b_vals, ak_h ak, ak_delta0 ak, ak_delta1 ak]) (\<lambda>cross_terms.
      rbind (rbind (batch_equation pl ak alpha_r cross_terms) (ensure ''assertion failed: the batched pairing equation'')) (\<lambda>_.
      let pt = append_serializable tr ''cross-terms'' (tl_ser_cross tr cross_terms) pt;
          (s, pt) = challenge_scalar tr ''s-random-fiatshamir'' pt;
          (t, pt) = challenge_scalar tr ''t-random-fiatshamir'' pt;
          s_sq = s * s; s_cube = s_sq * s; t_sq = t * t; t_cube = t_sq * t;
          left = combine smul1 num_proofs a_vals prepared_input d_vals c_vals s s_sq s_cube;
          right = combine smul2 num_proofs b_vals (ak_h ak) (ak_delta0 ak) (ak_delta1 ak) t t_sq t_cube;
          s_partial_sum = com_ab + ip_smul il s com_prepared_input + ip_smul il s_sq com_d + ip_smul il s_cube com_c;
          t_partial_sum = ip_smul il t (ak_com_h ak) + ip_smul il t_sq (ak_com_delta0 ak) + ip_smul il t_cube (ak_com_delta1 ak);
          com_lr = s_partial_sum + t_partial_sum in
      rbind (unwrap_res unwrap_err_msg (ip_twisted_inner_product il left right twist)) (\<lambda>z_lr.
      let inst = \<lparr>in_size = num_proofs, in_output = z_lr, in_commitment = com_lr, in_twist = twist\<rparr>;
          witness = \<lparr>wi_left = left, wi_right = right\<rparr> in
      rbind (unwrap_res unwrap_err_msg (ip_prove il inst witness)) (\<lambda>tipp_proof.
      rbind (unwrap_res unwrap_err_msg (ip_verify il inst tipp_proof)) (\<lambda>ok.
      rbind (ensure ''assertion failed: TIPA::verify'' ok) (\<lambda>_. Inr tipp_proof))))))))))))))))"

end
