(* ===== verification/Driver.thy ===== *)
theory Driver
  imports Messages Worker Aggregation "HOL-Library.Mapping"
begin

text \<open>
  The message-passing driver of \<open>mpi-snark\<close>: the key package (\<open>data_structures.rs\<close>), the states of the
  coordinator and of a worker (\<open>coordinator.rs\<close>, \<open>worker.rs\<close>), the run of all processes
  (\<open>bin/node.rs\<close>) and the run in one process (\<open>bin/all_in_one.rs\<close>). All ranks run the same program and
  meet in collective operations, so a run is the sequence of its rounds. Groth16, the randomness and the
  serialisations are parameters, collected in a record; log output is left out.
\<close>

section \<open>Parameters\<close>

record ('f, 'c, 'p, 'tree, 'dig, 'path, 'g1, 'g2, 'gt, 'ml, 'scom, 'agg, 't, 'seed, 'rnd) node_env =
  ne_ops :: "('f, 'c, 'p) circuit_ops"
  ne_rand_circuit :: "'p \<Rightarrow> failure + 'c"
  ne_ml :: "('f, 'tree, 'dig, 'path) merkle_lib"
  ne_sha256 :: "u8 list \<Rightarrow> u8 list"
  ne_ser_super_com :: "'scom \<Rightarrow> u8 list"
  ne_root_elems :: "'dig \<Rightarrow> 'f list"
  ne_pl :: "('f, 'g1, 'g2, 'gt, 'ml) pairing_lib"
  ne_tipa_setup :: "nat \<Rightarrow> failure + ('f, 'g1, 'g2, 'gt, 'scom, 'agg) ipp_lib"
  ne_transcript :: "('f, 'scom, 'gt, 't) transcript_lib"
  ne_new_transcript :: "'t"
  ne_generate_parameters :: "('f, 'c, 'dig, 'path) subcircuit \<Rightarrow> failure + ('g1, 'g2) proving_key"
  ne_commit :: "('g1, 'g2) proving_key \<Rightarrow> 'seed \<Rightarrow> ('f, 'c, 'dig, 'path) subcircuit \<Rightarrow> failure + 'g1 \<times> 'rnd"
  ne_prove :: "('g1, 'g2) proving_key \<Rightarrow> ('f, 'c, 'dig, 'path) subcircuit \<Rightarrow> 'g1 list \<Rightarrow> 'rnd list \<Rightarrow> failure + ('g1, 'g2) cp_proof"
  ne_rand_from_seed :: "'seed \<Rightarrow> 'rnd"
  ne_default_com :: 'g1
  ne_default_seed :: 'seed
  ne_default_rand :: 'rnd
  ne_default_proof :: "('g1, 'g2) cp_proof"
  ne_params_codec :: "'p codec"
  ne_requests0 :: "'f stage0_request list codec"
  ne_requests1 :: "('f, 'p, 'dig, 'path) stage1_request list codec"
  ne_responses0 :: "('g1, 'seed) stage0_response list codec"
  ne_responses1 :: "('g1, 'g2) cp_proof stage1_response list codec"

section \<open>The key package\<close>

record ('g1, 'g2) proving_keys =
  ks_circuit_id :: string
  ks_serialized_circ_params :: "u8 list"
  ks_minimal_proving_keys :: "(nat, ('g1, 'g2) proving_key) mapping"
  ks_representative_map :: "(nat, nat) mapping"

text \<open>Collecting pairs into an ordered map: later entries replace earlier ones.\<close>

definition btree_collect :: "(nat \<times> 'a) list \<Rightarrow> (nat, 'a) mapping" where
  "btree_collect xs = fold (\<lambda>(k, v). Mapping.update k v) xs Mapping.empty"

definition keys_new where
  "keys_new env circ_params id_str =
     (let ops = ne_ops env in
      rbind (ne_rand_circuit env circ_params) (\<lambda>circ.
      rbind (op_portal_subtraces ops circ) (\<lambda>time_ordered_subtraces.
      let gen_pk = (\<lambda>i. rbind (gen_pk_circuit ops (ne_ml env) circ time_ordered_subtraces i) (\<lambda>subcirc.
            unwrap_res unwrap_err_msg (ne_generate_parameters env subcirc)));
          serialized_circ_params = serialize_to_vec (ne_params_codec env) circ_params in
      rbind (op_unique_subcircuits ops circ) (\<lambda>minimal_subcircuit_indices.
      rbind (rmap (\<lambda>i. rbind (gen_pk i) (\<lambda>pk. Inr (i, pk))) minimal_subcircuit_indices) (\<lambda>minimal_proving_keys.
      rbind (rmap (\<lambda>i. rbind (op_representative ops circ i) (\<lambda>r. Inr (i, r))) [0..<op_num_subcircuits ops circ]) (\<lambda>representatives.
        Inr \<lparr>ks_circuit_id = id_str, ks_serialized_circ_params = serialized_circ_params,
             ks_minimal_proving_keys = btree_collect minimal_proving_keys,
             ks_representative_map = btree_collect representatives\<rparr>))))))"

definition keys_get_pk :: "('g1, 'g2) proving_keys \<Rightarrow> nat \<Rightarrow> failure + ('g1, 'g2) proving_key" where
  "keys_get_pk pks subcircuit_idx =
     rbind (unwrap ''subcircuit index out of range'' (Mapping.lookup (ks_representative_map pks) subcircuit_idx)) (\<lambda>representative_idx.
       unwrap ''missing proving key'' (Mapping.lookup (ks_minimal_proving_keys pks) representative_idx))"

definition keys_num_subcircuits :: "('g1, 'g2) proving_keys \<Rightarrow> nat" where
  "keys_num_subcircuits pks = Mapping.size (ks_representative_map pks)"

section \<open>The coordinator's state\<close>

record ('f, 'p, 'g1, 'g2, 'gt, 'scom, 'agg, 'seed, 'dig, 'path) node_coordinator =
  nc_g16_pks :: "('g1, 'g2) proving_keys"
  nc_agg_pk :: "('f, 'g1, 'g2, 'gt, 'scom, 'agg) ipp_lib \<times> ('g1, 'g2, 'scom) agg_proving_key"
  nc_circ_params :: 'p
  nc_stage0_state :: "('f, 'p) coordinator0 option"
  nc_stage1_state :: "('f, 'p, 'g1, 'seed, 'scom, 'dig, 'path) coordinator1 option"

definition generate_agg_key where
  "generate_agg_key env g16_pks =
     (let num_subcircuits = keys_num_subcircuits g16_pks; pk_fetcher = keys_get_pk g16_pks in
      rbind (unwrap_res unwrap_err_msg (ne_tipa_setup env num_subcircuits)) (\<lambda>tipp_pk.
      rbind (agg_proving_key_new tipp_pk pk_fetcher) (\<lambda>agg_pk. Inr (tipp_pk, agg_pk))))"

definition node_coordinator_new ::
    "('f, 'c, 'p, 'tree, 'dig, 'path, 'g1, 'g2, 'gt, 'ml, 'scom, 'agg, 't, 'seed, 'rnd, 'x) node_env_scheme \<Rightarrow> ('g1, 'g2) proving_keys
      \<Rightarrow> failure + ('f, 'p, 'g1, 'g2, 'gt, 'scom, 'agg, 'seed, 'dig, 'path) node_coordinator" where
  "node_coordinator_new env g16_pks =
     rbind (unwrap unwrap_err_msg (cod_de (ne_params_codec env) (ks_serialized_circ_params g16_pks))) (\<lambda>circ_params.
     rbind (generate_agg_key env g16_pks) (\<lambda>agg_pk.
       Inr \<lparr>nc_g16_pks = g16_pks, nc_agg_pk = agg_pk, nc_circ_params = circ_params, nc_stage0_state = None, nc_stage1_state = None\<rparr>))"

definition node_stage_0 where
  "node_stage_0 env nc =
     rbind (ne_rand_circuit env (nc_circ_params nc)) (\<lambda>circ.
     let num_subcircuits = keys_num_subcircuits (nc_g16_pks nc) in
     rbind (coordinator0_new (ne_ops env) circ) (\<lambda>st0.
     rbind (rmap (gen_request0 st0) [0..<num_subcircuits]) (\<lambda>requests.
       Inr (requests, nc\<lparr>nc_stage0_state := Some st0\<rparr>))))"

definition node_stage_1 where
  "node_stage_1 env stage0_resps nc =
     (let num_subcircuits = keys_num_subcircuits (nc_g16_pks nc); mt = op_mem_type (ne_ops env) in
      rbind (unwrap unwrap_none (nc_stage0_state nc)) (\<lambda>st0.
      rbind (process_stage0_responses (ne_sha256 env) (ne_ser_super_com env) (ne_ml env) mt
               (ip_commit_only_left (fst (nc_agg_pk nc))) stage0_resps st0) (\<lambda>st1.
      rbind (rmap (gen_request1 mt st1) [0..<num_subcircuits]) (\<lambda>requests.
        Inr (requests, nc\<lparr>nc_stage0_state := None, nc_stage1_state := Some st1\<rparr>)))))"

definition node_aggregate where
  "node_aggregate env stage1_resps nc =
     rbind (unwrap unwrap_none (nc_stage1_state nc)) (\<lambda>st1.
     rbind (into_agg_state (ne_root_elems env) st1) (\<lambda>final_agg_state.
       gen_agg_proof (\<lambda>super_com proofs pub_inputs.
           agg_subcircuit_proofs (ne_pl env) (fst (nc_agg_pk nc)) (ne_transcript env) (snd (nc_agg_pk nc)) (ne_new_transcript env) super_com proofs pub_inputs)
         final_agg_state stage1_resps))"

section \<open>A worker's state\<close>

record ('f, 'c, 'dig, 'path, 'g1, 'g2, 'rnd) worker_state =
  ws_g16_pks :: "('g1, 'g2) proving_keys"
  ws_cb :: "(('g1, 'g2) proving_key \<times> ('f, 'c, 'dig, 'path) subcircuit) option"
  ws_com :: 'g1
  ws_com_rand :: 'rnd
  ws_num_subcircuits :: nat

definition worker_new where
  "worker_new env num_subcircuits g16_pks =
     \<lparr>ws_g16_pks = g16_pks, ws_cb = None, ws_com = ne_default_com env, ws_com_rand = ne_default_rand env, ws_num_subcircuits = num_subcircuits\<rparr>"

text \<open>The seed is what the worker's generator yields.\<close>

definition worker_stage_0 where
  "worker_stage_0 env com_seed stage0_req ws =
     rbind (keys_get_pk (ws_g16_pks ws) (r0_idx stage0_req)) (\<lambda>g16_pk.
     rbind (process_stage0_request_get_cb (ne_ops env) (ne_ml env) (ne_commit env g16_pk) com_seed stage0_req) (\<lambda>(resp, cb).
     let com = s0_com resp; com_rand = ne_rand_from_seed env (s0_seed resp) in
       Inr (resp, ws\<lparr>ws_cb := Some (g16_pk, cb), ws_com := com, ws_com_rand := com_rand\<rparr>)))"

definition worker_stage_1 where
  "worker_stage_1 env stage1_req ws =
     rbind (unwrap unwrap_none (ws_cb ws)) (\<lambda>(g16_pk, cb).
       process_stage1_request_with_cb (ne_ops env) (ne_ml env) (ne_prove env g16_pk) cb (ws_com ws) (ws_com_rand ws) stage1_req)"

section \<open>Processing requests in parallel\<close>

definition pool_and_chunk_size :: "nat \<Rightarrow> nat \<Rightarrow> failure + nat \<times> nat" where
  "pool_and_chunk_size num_threads num_requests =
     rbind (if num_threads > num_requests then udiv num_threads num_requests else Inr 1) (\<lambda>pool_size.
     rbind (if num_requests \<ge> num_threads then udiv num_requests num_threads else Inr 1) (\<lambda>chunk_size.
       Inr (pool_size, chunk_size)))"

text \<open>
  Each chunk of requests is processed by a thread of its own with the chunk of states at the same
  place; the threads are joined in order.
\<close>

definition compute_responses :: "nat \<Rightarrow> 'r list \<Rightarrow> 's list \<Rightarrow> ('r \<Rightarrow> 's \<Rightarrow> failure + 'u) \<Rightarrow> failure + 'u list" where
  "compute_responses num_threads requests worker_states stage_fn =
     rbind (pool_and_chunk_size num_threads (length requests)) (\<lambda>(pool_size, chunk_size).
     rbind (rmap (\<lambda>(reqs, states). rmap (\<lambda>(req, state). stage_fn req state) (zip reqs states))
         (zip (chunks chunk_size requests) (chunks chunk_size worker_states))) (\<lambda>thread_results.
       Inr (concat thread_results)))"

text \<open>A worker leaves one thread to itself; without the parallel feature there is one thread.\<close>

definition worker_threads :: "bool \<Rightarrow> nat \<Rightarrow> failure + nat" where
  "worker_threads parallel num_threads =
     (if parallel then usub num_threads 1 else rbind (usub 1 1) (\<lambda>_. Inr 1))"

section \<open>A run of all processes\<close>

text \<open>What a run shows: the messages of both stages, whether each stage 1 system is satisfied, and the coordinator at the end.\<close>

record ('q0, 'a0, 'q1, 'a1, 'nc) rounds =
  rn_requests0 :: "'q0 list"
  rn_responses0 :: "'a0 list"
  rn_requests1 :: "'q1 list"
  rn_responses1 :: "'a1 list"
  rn_satisfied :: "bool list"
  rn_coordinator :: 'nc

definition chunked :: "nat \<Rightarrow> 'a list \<Rightarrow> failure + 'a list list" where
  "chunked n xs = rbind (ensure ''chunk size must be non-zero'' (n \<noteq> 0)) (\<lambda>_. Inr (chunks n xs))"

text \<open>A worker in stage 0: its answer and the states it keeps for stage 1.\<close>

definition worker_round_0 where
  "worker_round_0 env parallel num_threads seeds states msg =
     rbind (worker_threads parallel num_threads) (\<lambda>current_num_threads.
     rbind (receive_requests (ne_requests0 env) msg) (\<lambda>requests.
     rbind (compute_responses current_num_threads requests states (\<lambda>req state. worker_stage_0 env (seeds (r0_idx req)) req state)) (\<lambda>results.
     rbind (send_responses (ne_responses0 env) (map fst results)) (\<lambda>sent.
       Inr (sent, map snd results @ drop (length results) states)))))"

definition worker_round_1 where
  "worker_round_1 env parallel num_threads states msg =
     rbind (worker_threads parallel num_threads) (\<lambda>current_num_threads.
     rbind (receive_requests (ne_requests1 env) msg) (\<lambda>requests.
     rbind (compute_responses current_num_threads requests states (worker_stage_1 env)) (\<lambda>results.
     rbind (send_responses (ne_responses1 env) (map fst results)) (\<lambda>sent.
       Inr (sent, map snd results)))))"

text \<open>The ranks \<open>1 ..< world\<close> are the workers; \<open>num_threads\<close> and \<open>seeds\<close> are what their processes have and draw.\<close>

definition work_rounds where
  "work_rounds env mp num_workers world parallel num_threads seeds proving_keys =
     (let num_subcircuits = keys_num_subcircuits proving_keys in
      rbind (udiv num_subcircuits num_workers) (\<lambda>num_subcircuits_per_worker.
      rbind (ensure ''assertion failed: num_subcircuits_per_worker * num_workers == num_subcircuits''
        (num_subcircuits_per_worker * num_workers = num_subcircuits)) (\<lambda>_.
      rbind (node_coordinator_new env proving_keys) (\<lambda>coordinator_state.
      rbind (node_stage_0 env coordinator_state) (\<lambda>(requests0, coordinator_state).
      rbind (chunked num_subcircuits_per_worker requests0) (\<lambda>requests_chunked.
      rbind (scatter_requests mp (ne_requests0 env) requests_chunked) (\<lambda>msg0.
      rbind (rmap (\<lambda>rank. worker_round_0 env parallel num_threads seeds
           (replicate num_subcircuits_per_worker (worker_new env num_subcircuits proving_keys)) (msg0 rank)) [1..<world]) (\<lambda>round0.
      let default_response = replicate num_subcircuits_per_worker
            \<lparr>s0_idx = 0, s0_com = ne_default_com env, s0_seed = ne_default_seed env\<rparr> in
      rbind (gather_responses mp (as_count world) (ne_responses0 env) default_response (\<lambda>rank. fst (round0 ! (rank - 1)))) (\<lambda>responses_chunked.
      let responses0 = concat responses_chunked in
      rbind (node_stage_1 env responses0 coordinator_state) (\<lambda>(requests1, coordinator_state).
      rbind (chunked num_subcircuits_per_worker requests1) (\<lambda>requests_chunked.
      rbind (scatter_requests mp (ne_requests1 env) requests_chunked) (\<lambda>msg1.
      rbind (rmap (\<lambda>rank. worker_round_1 env parallel num_threads (snd (round0 ! (rank - 1))) (msg1 rank)) [1..<world]) (\<lambda>round1.
      let default_response = replicate num_subcircuits_per_worker \<lparr>s1_idx = 0, s1_proof = ne_default_proof env\<rparr> in
      rbind (gather_responses mp (as_count world) (ne_responses1 env) default_response (\<lambda>rank. fst (round1 ! (rank - 1)))) (\<lambda>responses_chunked.
        Inr \<lparr>rn_requests0 = requests0, rn_responses0 = responses0, rn_requests1 = requests1, rn_responses1 = concat responses_chunked,
             rn_satisfied = concat (map snd round1), rn_coordinator = coordinator_state\<rparr>))))))))))))))"

definition work where
  "work env mp num_workers world parallel num_threads seeds proving_keys =
     rbind (work_rounds env mp num_workers world parallel num_threads seeds proving_keys) (\<lambda>run.
       node_aggregate env (rn_responses1 run) (rn_coordinator run))"

section \<open>A run in one process\<close>

text \<open>
  The requests of stage 0 go through files. Every subcircuit gets a fresh worker state in each stage, and
  stage 1 first repeats stage 0 with the generator of its own seed: the seed that was kept from
  stage 0 is shadowed. \<open>seeds0\<close> and \<open>seeds1\<close> are the commitment seeds drawn in the two stages.
\<close>

definition aio_rounds where
  "aio_rounds env num_concurrent_proofs seeds0 seeds1 proving_keys =
     (let num_subcircuits = keys_num_subcircuits proving_keys; state = worker_new env num_subcircuits proving_keys in
      rbind (node_coordinator_new env proving_keys) (\<lambda>coordinator_state.
      rbind (node_stage_0 env coordinator_state) (\<lambda>(requests0, coordinator_state).
      rbind (rmap (\<lambda>req. result_map fst (worker_stage_0 env (seeds0 (r0_idx req)) req state)) requests0) (\<lambda>responses0.
      rbind (node_stage_1 env responses0 coordinator_state) (\<lambda>(requests1, coordinator_state).
      rbind (udiv num_subcircuits num_concurrent_proofs) (\<lambda>chunk_size.
      rbind (rmap (\<lambda>(req0, req1). rbind (worker_stage_0 env (seeds1 (r0_idx req0)) req0 state) (\<lambda>(resp, state). worker_stage_1 env req1 state))
          (zip requests0 requests1)) (\<lambda>results.
        Inr \<lparr>rn_requests0 = requests0, rn_responses0 = responses0, rn_requests1 = requests1, rn_responses1 = map fst results,
             rn_satisfied = map snd results, rn_coordinator = coordinator_state\<rparr>)))))))"

end
