(* ===== verification/Commands.thy ===== *)
theory Commands
  imports Driver Tree_Hash
begin

text \<open>
  The command-line tools of \<open>distributed-prover\<close>: \<open>bin/coordinator.rs\<close> and \<open>bin/worker.rs\<close> run the protocol
  in separate processes that leave keys, states, requests and responses to each other as files, with the
  file helpers of \<open>util.rs\<close>. Files are modelled with the symbolic links the key generation makes. Timers,
  printing and the parsing of arguments are left out.
\<close>

section \<open>Files\<close>

text \<open>
  A path is a directory, absolute or relative, and a file name; a relative path is looked up from the working
  directory, and the target of a link from the directory of the link. The components of a path are walked one after
  the other: \<open>.\<close> stays, \<open>..\<close> goes to the parent of a directory that exists (the root is its own parent), and any
  other name goes down. Directories themselves are no links.
\<close>

datatype dir = Absolute "string list" | Relative "string list"

type_synonym place = "string list \<times> string"

datatype file_node = Regular "u8 list" | Symlink dir string

record file_system =
  fs_cwd :: "string list"
  fs_dirs :: "string list \<Rightarrow> bool"
  fs_nodes :: "place \<rightharpoonup> file_node"

fun resolve :: "(string list \<Rightarrow> bool) \<Rightarrow> string list \<Rightarrow> string list \<Rightarrow> string list" where
  "resolve dirs base [] = base"
| "resolve dirs base (c # cs) =
     resolve dirs (if c = ''.'' then base else if c = ''..'' \<and> dirs base then butlast base else base @ [c]) cs"

fun locate :: "(string list \<Rightarrow> bool) \<Rightarrow> string list \<Rightarrow> dir \<Rightarrow> string \<Rightarrow> place" where
  "locate dirs base (Absolute cs) name = (resolve dirs [] cs, name)"
| "locate dirs base (Relative cs) name = (resolve dirs base cs, name)"

text \<open>The system follows at most 40 links.\<close>

fun follow :: "nat \<Rightarrow> file_system \<Rightarrow> place \<Rightarrow> place option" where
  "follow 0 fs p = None"
| "follow (Suc n) fs p =
     (case fs_nodes fs p of Some (Symlink d name) \<Rightarrow> follow n fs (locate (fs_dirs fs) (fst p) d name) | _ \<Rightarrow> Some p)"

definition max_links :: nat where
  "max_links = 40"

definition read_file :: "file_system \<Rightarrow> place \<Rightarrow> u8 list option" where
  "read_file fs p =
     (case follow (Suc max_links) fs p of None \<Rightarrow> None
      | Some q \<Rightarrow> (case fs_nodes fs q of Some (Regular buf) \<Rightarrow> Some buf | _ \<Rightarrow> None))"

text \<open>\<open>File::create\<close> and \<open>write_all\<close>: an existing file is truncated, a link is written through.\<close>

definition write_file :: "place \<Rightarrow> u8 list \<Rightarrow> file_system \<Rightarrow> file_system option" where
  "write_file p buf fs =
     (case follow (Suc max_links) fs p of None \<Rightarrow> None
      | Some q \<Rightarrow> if fs_dirs fs (fst q) then Some (fs\<lparr>fs_nodes := (fs_nodes fs)(q \<mapsto> Regular buf)\<rparr>) else None)"

definition symlink :: "dir \<Rightarrow> string \<Rightarrow> place \<Rightarrow> file_system \<Rightarrow> file_system option" where
  "symlink d name p fs =
     (if fs_dirs fs (fst p) \<and> fs_nodes fs p = None then Some (fs\<lparr>fs_nodes := (fs_nodes fs)(p \<mapsto> Symlink d name)\<rparr>) else None)"

section \<open>The file helpers\<close>

definition file_name :: "string \<Rightarrow> nat option \<Rightarrow> string" where
  "file_name filename_prefix index =
     (let idx_str = (case index of Some i \<Rightarrow> ''_'' @ decimal i | None \<Rightarrow> '''') in filename_prefix @ idx_str @ ''.bin'')"

definition serialize_to_path :: "'a codec \<Rightarrow> 'a \<Rightarrow> dir \<Rightarrow> string \<Rightarrow> nat option \<Rightarrow> file_system \<Rightarrow> file_system option" where
  "serialize_to_path c val dir filename_prefix index fs =
     write_file (locate (fs_dirs fs) (fs_cwd fs) dir (file_name filename_prefix index)) (cod_ser c val) fs"

text \<open>The first file of the range is written, the others become links to its path.\<close>

fun symlink_all :: "dir \<Rightarrow> string \<Rightarrow> place list \<Rightarrow> file_system \<Rightarrow> file_system option" where
  "symlink_all d name [] fs = Some fs"
| "symlink_all d name (p # ps) fs = (case symlink d name p fs of None \<Rightarrow> None | Some fs \<Rightarrow> symlink_all d name ps fs)"

definition serialize_to_paths :: "'a codec \<Rightarrow> 'a \<Rightarrow> dir \<Rightarrow> string \<Rightarrow> nat \<times> nat \<Rightarrow> file_system \<Rightarrow> file_system option" where
  "serialize_to_paths c val dir filename_prefix indices fs =
     (let first_file = file_name filename_prefix (Some (fst indices)) in
      case write_file (locate (fs_dirs fs) (fs_cwd fs) dir first_file) (cod_ser c val) fs of None \<Rightarrow> None
      | Some fs \<Rightarrow> symlink_all dir first_file
          (map (\<lambda>i. locate (fs_dirs fs) (fs_cwd fs) dir (file_name filename_prefix (Some i))) [fst indices + 1..<snd indices]) fs)"

definition deserialize_from_path :: "'a codec \<Rightarrow> dir \<Rightarrow> string \<Rightarrow> nat option \<Rightarrow> file_system \<Rightarrow> failure + 'a" where
  "deserialize_from_path c dir filename_prefix index fs =
     rbind (unwrap ''couldn't open file'' (read_file fs (locate (fs_dirs fs) (fs_cwd fs) dir (file_name filename_prefix index)))) (\<lambda>buf.
       unwrap unwrap_err_msg (cod_de c buf))"

section \<open>What is written\<close>

text \<open>The serialisations of what is left in files, beside the parameters of the other drivers.\<close>

record ('f, 'c, 'p, 'tree, 'dig, 'path, 'g1, 'g2, 'gt, 'ml, 'scom, 'agg, 't, 'seed, 'rnd) cli_env =
  "('f, 'c, 'p, 'tree, 'dig, 'path, 'g1, 'g2, 'gt, 'ml, 'scom, 'agg, 't, 'seed, 'rnd) node_env" +
  ce_pk :: "('g1, 'g2) proving_key codec"
  ce_ck :: "'g1 committer_key codec"
  ce_agg_ck :: "(('f, 'g1, 'g2, 'gt, 'scom, 'agg) ipp_lib \<times> ('g1, 'g2, 'scom) agg_proving_key) codec"
  ce_state0 :: "('f, 'p) coordinator0 codec"
  ce_request0 :: "'f stage0_request codec"
  ce_response0 :: "('g1, 'seed) stage0_response codec"
  ce_request1 :: "('f, 'p, 'dig, 'path) stage1_request codec"
  ce_response1 :: "('g1, 'g2) cp_proof stage1_response codec"
  ce_agg_state :: "('f, 'scom) agg_state codec"
  ce_proof :: "'agg codec"

text \<open>An IO error that is unwrapped.\<close>

definition io_unwrap :: "'a option \<Rightarrow> failure + 'a" where
  "io_unwrap r = unwrap unwrap_err_msg r"

section \<open>Key generation\<close>

definition is_power_of_two :: "nat \<Rightarrow> bool" where
  "is_power_of_two n \<longleftrightarrow> (\<exists>k \<in> {..n}. n = 2 ^ k)"

definition gen_test_circuit_params :: "nat \<Rightarrow> nat \<Rightarrow> nat \<Rightarrow> failure + tree_params" where
  "gen_test_circuit_params num_subcircuits num_sha_iterations num_portals_per_subcircuit =
     rbind (ensure ''#subcircuits MUST be a power of 2'' (is_power_of_two num_subcircuits)) (\<lambda>_.
     rbind (ensure ''num. of subcircuits MUST be > 1'' (num_subcircuits > 1)) (\<lambda>_.
     rbind (ensure ''num. of SHA256 iterations per subcircuit MUST be > 0'' (num_sha_iterations > 0)) (\<lambda>_.
     rbind (ensure ''num. of portal ops per subcircuit MUST be > 0'' (num_portals_per_subcircuit > 0)) (\<lambda>_.
       Inr \<lparr>tp_num_leaves = num_subcircuits div 2, tp_num_sha_iters = num_sha_iterations, tp_num_portals = num_portals_per_subcircuit\<rparr>))))"

text \<open>A key and its committing key are saved side by side.\<close>

definition save_pk where
  "save_pk env pk g16_pk_dir subcircuit_idx fs =
     rbind (io_unwrap (serialize_to_path (ce_pk env) pk g16_pk_dir ''g16_pk'' (Some subcircuit_idx) fs)) (\<lambda>fs.
       io_unwrap (serialize_to_path (ce_ck env) (pk_ck pk) g16_pk_dir ''g16_ck'' (Some subcircuit_idx) fs))"

definition save_pks where
  "save_pks env pk g16_pk_dir idxs fs =
     rbind (io_unwrap (serialize_to_paths (ce_pk env) pk g16_pk_dir ''g16_pk'' idxs fs)) (\<lambda>fs.
       io_unwrap (serialize_to_paths (ce_ck env) (pk_ck pk) g16_pk_dir ''g16_ck'' idxs fs))"

definition save_agg_ck where
  "save_agg_ck env num_subcircuits pk_fetcher coord_state_dir fs =
     rbind (unwrap_res unwrap_err_msg (ne_tipa_setup env num_subcircuits)) (\<lambda>tipp_pk.
     rbind (agg_proving_key_new tipp_pk pk_fetcher) (\<lambda>agg_ck.
       io_unwrap (serialize_to_path (ce_agg_ck env) (tipp_pk, agg_ck) coord_state_dir ''agg_ck'' None fs)))"

text \<open>The key of a subcircuit that is not one of the first four.\<close>

definition pk_fetcher_of :: "nat \<Rightarrow> 'k \<Rightarrow> 'k \<Rightarrow> 'k \<Rightarrow> 'k \<Rightarrow> 'k \<Rightarrow> nat \<Rightarrow> failure + 'k" where
  "pk_fetcher_of num_subcircuits first_leaf_pk second_leaf_pk parent_pk root_pk padding_pk subcircuit_idx =
     (if subcircuit_idx = 0 then Inr first_leaf_pk
      else if subcircuit_idx \<in> {1..<num_subcircuits div 2} then Inr second_leaf_pk
      else if subcircuit_idx \<in> {num_subcircuits div 2..<num_subcircuits - 2} then Inr parent_pk
      else if subcircuit_idx = num_subcircuits - 2 then Inr root_pk
      else if subcircuit_idx = num_subcircuits - 1 then Inr padding_pk
      else Inl (Panic ''unexpected subcircuit index''))"

definition generate_g16_pks where
  "generate_g16_pks env circ_params g16_pk_dir coord_state_dir fs =
     (let ops = ne_ops env in
      rbind (op_new ops circ_params) (\<lambda>circ.
      let n = op_num_subcircuits ops circ in
      rbind (op_portal_subtraces ops circ) (\<lambda>time_ordered_subtraces.
      let gen_pk = (\<lambda>i. rbind (gen_pk_circuit ops (ne_ml env) circ time_ordered_subtraces i) (\<lambda>subcirc.
            unwrap_res unwrap_err_msg (ne_generate_parameters env subcirc))) in
      if n \<le> 4 then
        rbind (rmap gen_pk [0..<n]) (\<lambda>pks.
        rbind (rfold (\<lambda>(i, pk). save_pk env pk g16_pk_dir i) (enumerate 0 pks) fs) (\<lambda>fs.
          save_agg_ck env n (vindex pks) coord_state_dir fs))
      else
        rbind (gen_pk 0) (\<lambda>first_leaf_pk.
        rbind (gen_pk 1) (\<lambda>second_leaf_pk.
        rbind (gen_pk (n - 1)) (\<lambda>padding_pk.
        rbind (gen_pk (n - 2)) (\<lambda>root_pk.
        rbind (gen_pk (n - 3)) (\<lambda>parent_pk.
        rbind (save_pk env first_leaf_pk g16_pk_dir 0 fs) (\<lambda>fs.
        rbind (save_pks env second_leaf_pk g16_pk_dir (1, n div 2) fs) (\<lambda>fs.
        rbind (save_pks env parent_pk g16_pk_dir (n div 2, n - 2) fs) (\<lambda>fs.
        rbind (save_pk env root_pk g16_pk_dir (n - 2) fs) (\<lambda>fs.
        rbind (save_pk env padding_pk g16_pk_dir (n - 1) fs) (\<lambda>fs.
          save_agg_ck env n (pk_fetcher_of n first_leaf_pk second_leaf_pk parent_pk root_pk padding_pk) coord_state_dir fs)))))))))))))"

section \<open>The coordinator's stages\<close>

definition begin_stage0 where
  "begin_stage0 env worker_req_dir coord_state_dir fs =
     rbind (deserialize_from_path (ne_params_codec env) coord_state_dir ''test_circ_params'' None fs) (\<lambda>circ_params.
     let num_subcircuits = 2 * tp_num_leaves circ_params in
     rbind (ne_rand_circuit env circ_params) (\<lambda>circ.
     rbind (coordinator0_new (ne_ops env) circ) (\<lambda>stage0_state.
     rbind (rmap (gen_request0 stage0_state) [0..<num_subcircuits]) (\<lambda>reqs.
     rbind (rfold (\<lambda>(subcircuit_idx, req) fs.
         io_unwrap (serialize_to_path (ce_request0 env) req worker_req_dir ''stage0_req'' (Some subcircuit_idx) fs)) (enumerate 0 reqs) fs) (\<lambda>fs.
       io_unwrap (serialize_to_path (ce_state0 env) stage0_state coord_state_dir ''stage0_coordinator_state'' None fs))))))"

definition process_stage0_resps where
  "process_stage0_resps env coord_state_dir req_dir resp_dir fs =
     (let mt = op_mem_type (ne_ops env) in
      rbind (deserialize_from_path (ne_params_codec env) coord_state_dir ''test_circ_params'' None fs) (\<lambda>circ_params.
      let num_subcircuits = 2 * tp_num_leaves circ_params in
      rbind (deserialize_from_path (ce_state0 env) coord_state_dir ''stage0_coordinator_state'' None fs) (\<lambda>coord_state.
      rbind (deserialize_from_path (ce_agg_ck env) coord_state_dir ''agg_ck'' None fs) (\<lambda>agg_ck.
      let super_com_key = fst agg_ck in
      rbind (rmap (\<lambda>i. deserialize_from_path (ce_response0 env) resp_dir ''stage0_resp'' (Some i) fs) [0..<num_subcircuits]) (\<lambda>stage0_resps.
      rbind (process_stage0_responses (ne_sha256 env) (ne_ser_super_com env) (ne_ml env) mt (ip_commit_only_left super_com_key)
          stage0_resps coord_state) (\<lambda>new_coord_state.
      rbind (rmap (gen_request1 mt new_coord_state) [0..<num_subcircuits]) (\<lambda>reqs.
      rbind (rfold (\<lambda>(subcircuit_idx, req) fs.
          io_unwrap (serialize_to_path (ce_request1 env) req req_dir ''stage1_req'' (Some subcircuit_idx) fs)) (enumerate 0 reqs) fs) (\<lambda>fs.
      rbind (into_agg_state (ne_root_elems env) new_coord_state) (\<lambda>final_agg_state.
        io_unwrap (serialize_to_path (ce_agg_state env) final_agg_state coord_state_dir ''final_aggregator_state'' None fs))))))))))"

definition process_stage1_resps where
  "process_stage1_resps env coord_state_dir resp_dir fs =
     rbind (deserialize_from_path (ne_params_codec env) coord_state_dir ''test_circ_params'' None fs) (\<lambda>circ_params.
     let num_subcircuits = 2 * tp_num_leaves circ_params in
     rbind (deserialize_from_path (ce_agg_state env) coord_state_dir ''final_aggregator_state'' None fs) (\<lambda>final_agg_state.
     rbind (deserialize_from_path (ce_agg_ck env) coord_state_dir ''agg_ck'' None fs) (\<lambda>agg_ck.
     rbind (rmap (\<lambda>i. deserialize_from_path (ce_response1 env) resp_dir ''stage1_resp'' (Some i) fs) [0..<num_subcircuits]) (\<lambda>stage1_resps.
     rbind (gen_agg_proof (\<lambda>super_com proofs pub_inputs.
           agg_subcircuit_proofs (ne_pl env) (fst agg_ck) (ne_transcript env) (snd agg_ck) (ne_new_transcript env) super_com proofs pub_inputs)
         final_agg_state stage1_resps) (\<lambda>agg_proof.
       io_unwrap (serialize_to_path (ce_proof env) agg_proof coord_state_dir ''agg_proof'' None fs))))))"

datatype coordinator_command =
    GenKeys (gk_g16_pk_dir: dir) (gk_coord_state_dir: dir) (gk_num_subcircuits: nat) (gk_num_sha2_iters: nat) (gk_num_portals: nat)
  | StartStage0 (s0_coord_state_dir: dir) (s0_req_dir: dir)
  | StartStage1 (s1_coord_state_dir: dir) (s1_req_dir: dir) (s1_resp_dir: dir)
  | EndProof (ep_coord_state_dir: dir) (ep_resp_dir: dir)

fun coordinator_main where
  "coordinator_main env (GenKeys g16_pk_dir coord_state_dir num_subcircuits num_sha2_iters num_portals) fs =
     rbind (gen_test_circuit_params num_subcircuits num_sha2_iters num_portals) (\<lambda>circ_params.
     rbind (io_unwrap (serialize_to_path (ne_params_codec env) circ_params coord_state_dir ''test_circ_params'' None fs)) (\<lambda>fs.
       generate_g16_pks env circ_params g16_pk_dir coord_state_dir fs))"
| "coordinator_main env (StartStage0 coord_state_dir req_dir) fs = begin_stage0 env req_dir coord_state_dir fs"
| "coordinator_main env (StartStage1 coord_state_dir req_dir resp_dir) fs = process_stage0_resps env coord_state_dir req_dir resp_dir fs"
| "coordinator_main env (EndProof coord_state_dir resp_dir) fs = process_stage1_resps env coord_state_dir resp_dir fs"

section \<open>The worker\<close>

text \<open>The seed is what the worker's generator yields for its commitment.\<close>

definition cli_process_stage0_request where
  "cli_process_stage0_request env seed subcircuit_idx g16_pk_dir req_dir out_dir fs =
     rbind (deserialize_from_path (ce_pk env) g16_pk_dir ''g16_pk'' (Some subcircuit_idx) fs) (\<lambda>g16_pk.
     rbind (deserialize_from_path (ce_request0 env) req_dir ''stage0_req'' (Some subcircuit_idx) fs) (\<lambda>stage0_req.
     rbind (ensure ''assertion failed: stage0_req.subcircuit_idx == subcircuit_idx'' (r0_idx stage0_req = subcircuit_idx)) (\<lambda>_.
     rbind (process_stage0_request (ne_ops env) (ne_ml env) (ne_commit env g16_pk) seed stage0_req) (\<lambda>stage0_resp.
       io_unwrap (serialize_to_path (ce_response0 env) stage0_resp out_dir ''stage0_resp'' (Some subcircuit_idx) fs)))))"

definition cli_process_stage1_request where
  "cli_process_stage1_request env subcircuit_idx g16_pk_dir req_dir resp_dir out_dir fs =
     rbind (deserialize_from_path (ce_pk env) g16_pk_dir ''g16_pk'' (Some subcircuit_idx) fs) (\<lambda>g16_pk.
     rbind (deserialize_from_path (ce_request0 env) req_dir ''stage0_req'' (Some subcircuit_idx) fs) (\<lambda>stage0_req.
     rbind (deserialize_from_path (ce_response0 env) resp_dir ''stage0_resp'' (Some subcircuit_idx) fs) (\<lambda>stage0_resp.
     rbind (deserialize_from_path (ce_request1 env) req_dir ''stage1_req'' (Some subcircuit_idx) fs) (\<lambda>stage1_req.
     rbind (process_stage1_request (ne_ops env) (ne_ml env) (ne_commit env g16_pk) (ne_prove env g16_pk) stage0_req stage0_resp stage1_req) (\<lambda>(stage1_resp, _).
       io_unwrap (serialize_to_path (ce_response1 env) stage1_resp out_dir ''stage1_resp'' (Some subcircuit_idx) fs))))))"

datatype worker_command =
    ProcessStage0Request (w0_g16_pk_dir: dir) (w0_req_dir: dir) (w0_out_dir: dir) (w0_subcircuit_index: nat)
  | ProcessStage1Request (w1_g16_pk_dir: dir) (w1_req_dir: dir) (w1_resp_dir: dir) (w1_out_dir: dir) (w1_subcircuit_index: nat)

fun worker_main where
  "worker_main env seeds (ProcessStage0Request g16_pk_dir req_dir out_dir subcircuit_index) fs =
     cli_process_stage0_request env (seeds subcircuit_index) subcircuit_index g16_pk_dir req_dir out_dir fs"
| "worker_main env seeds (ProcessStage1Request g16_pk_dir req_dir resp_dir out_dir subcircuit_index) fs =
     cli_process_stage1_request env subcircuit_index g16_pk_dir req_dir resp_dir out_dir fs"

end
