(* ===== verification/Sql_Circuits.thy ===== *)
theory Sql_Circuits
  imports Vkd_Circuits Protocol
begin

text \<open>
  The database benchmarks for the circuit interface: the filter of \<open>single_tuple_filter_circuit.rs\<close>,
  which compares the ship date of each row of a table with a bound, and the merge sort of
  \<open>test_circuit.rs\<close>. Ordered comparison of field elements, in the circuit and natively, and the
  serialisation of field elements are parameters.
\<close>

section \<open>Comparison and serialisation of field elements\<close>

text \<open>
  \<open>cl_rep\<close> is the integer that \<open>PartialOrd\<close> compares; \<open>cl_is_less a b eq\<close> is
  \<open>a.is_cmp(&b, Less, eq)\<close>, its value and whether the range constraints it enforces hold.
\<close>

record 'f compare_lib =
  cl_rep :: "'f \<Rightarrow> nat"
  cl_is_less :: "'f \<Rightarrow> 'f \<Rightarrow> bool \<Rightarrow> bool \<times> bool"
  cl_ser :: "'f \<Rightarrow> u8 list"
  cl_de :: "u8 list \<Rightarrow> 'f option"
  cl_size :: nat

text \<open>The gadget is specified for integers up to a bound, half of the modulus; all elements take the same number of bytes.\<close>

definition compare_ok :: "nat \<Rightarrow> 'f compare_lib \<Rightarrow> bool" where
  "compare_ok bound cl \<longleftrightarrow>
     (\<forall>a b. cl_rep cl a \<le> bound \<and> cl_rep cl b < bound \<longrightarrow> cl_is_less cl a b True = (cl_rep cl a \<le> cl_rep cl b, True))
     \<and> (\<forall>a b. cl_rep cl a \<le> bound \<and> cl_rep cl b \<le> bound \<longrightarrow> cl_is_less cl a b False = (cl_rep cl a < cl_rep cl b, True))
     \<and> (\<forall>a. length (cl_ser cl a) = cl_size cl)"

definition deserialize_field :: "'f compare_lib \<Rightarrow> u8 list \<Rightarrow> failure + 'f" where
  "deserialize_field cl bytes = unwrap ''called `Result::unwrap()` on an `Err` value'' (cl_de cl bytes)"

text \<open>Assigning an element of a vector panics out of range.\<close>

definition vset :: "nat \<Rightarrow> 'a \<Rightarrow> 'a list \<Rightarrow> failure + 'a list" where
  "vset i x xs = (if i < length xs then Inr (xs[i := x]) else Inl (Panic ''index out of bounds''))"

section \<open>The filter circuit\<close>

record filter_params =
  fi_num_rows :: nat

record 'f filter_circuit =
  fc_lineitem_table :: "'f list list"
  fc_right_shipdate :: 'f
  fc_params :: filter_params

definition filter_new :: "filter_params \<Rightarrow> 'f::field filter_circuit" where
  "filter_new params =
     \<lparr>fc_lineitem_table = replicate (fi_num_rows params) (replicate 7 1), fc_right_shipdate = 12, fc_params = params\<rparr>"

definition filter_rand :: "filter_params \<Rightarrow> 'f::field filter_circuit" where
  "filter_rand params = filter_new params"

definition filter_num_subcircuits :: "'f filter_circuit \<Rightarrow> nat" where
  "filter_num_subcircuits fc = fi_num_rows (fc_params fc)"

definition filter_unique_subcircuits :: "'f filter_circuit \<Rightarrow> failure + nat list" where
  "filter_unique_subcircuits fc = Inr [0, 1, 3]"

definition filter_representative :: "'f filter_circuit \<Rightarrow> nat \<Rightarrow> failure + nat" where
  "filter_representative fc subcircuit_idx =
     (if subcircuit_idx = 0 then Inr 0
      else rbind (usub (fi_num_rows (fc_params fc)) 1) (\<lambda>last. Inr (if subcircuit_idx = last then 3 else 1)))"

definition table_entry :: "'f list list \<Rightarrow> nat \<Rightarrow> nat \<Rightarrow> failure + 'f" where
  "table_entry table i j = rbind (vindex table i) (\<lambda>row. vindex row j)"

definition filter_get_witnesses :: "'f compare_lib \<Rightarrow> 'f filter_circuit \<Rightarrow> nat \<Rightarrow> failure + u8 list" where
  "filter_get_witnesses cl fc subcircuit_idx =
     (if subcircuit_idx < fi_num_rows (fc_params fc) then
        rbind (table_entry (fc_lineitem_table fc) subcircuit_idx 6) (\<lambda>shipdate.
          Inr (cl_ser cl shipdate @ cl_ser cl (fc_right_shipdate fc)))
      else Inl (Panic ''subcircuit_idx > self.params.num_rows''))"

definition filter_set_witnesses :: "'f compare_lib \<Rightarrow> nat \<Rightarrow> u8 list \<Rightarrow> 'f filter_circuit \<Rightarrow> failure + 'f filter_circuit" where
  "filter_set_witnesses cl subcircuit_idx bytes fc =
     (if subcircuit_idx < fi_num_rows (fc_params fc) then
        let field_size = cl_size cl in
        rbind (slice_range 0 field_size bytes) (\<lambda>left_bytes.
        rbind (deserialize_field cl left_bytes) (\<lambda>shipdate.
        rbind (vindex (fc_lineitem_table fc) subcircuit_idx) (\<lambda>row.
        rbind (vset 6 shipdate row) (\<lambda>row.
        rbind (vset subcircuit_idx row (fc_lineitem_table fc)) (\<lambda>table.
        rbind (slice_range field_size (length bytes) bytes) (\<lambda>right_bytes.
        rbind (deserialize_field cl right_bytes) (\<lambda>right.
          Inr (fc\<lparr>fc_lineitem_table := table, fc_right_shipdate := right\<rparr>))))))))
      else Inl (Panic ''subcircuit_idx > self.params.num_rows''))"

definition cmp_wire :: "nat \<Rightarrow> string" where
  "cmp_wire i = ''lhs '' @ decimal i @ '' com_res''"

definition filter_generate :: "'f::field compare_lib \<Rightarrow> 'f filter_circuit \<Rightarrow> nat \<Rightarrow> ('f, bool) portal" where
  "filter_generate cl fc subcircuit_idx =
     (if subcircuit_idx < fi_num_rows (fc_params fc) then
        let rhs_var = fc_right_shipdate fc in
        pbind (lift_res (table_entry (fc_lineitem_table fc) subcircuit_idx 6)) (\<lambda>lhs_var.
        let (is_less_than_var, ok) = cl_is_less cl lhs_var rhs_var True;
            cmp_res = (if is_less_than_var then 1 else 0) in
        pbind (portal_set (cmp_wire subcircuit_idx) cmp_res) (\<lambda>_. Return ok))
      else Fail (Panic ''subcircuit_idx > self.params.num_rows''))"

text \<open>One subtrace per row of the table.\<close>

definition filter_trace_row :: "'f::field compare_lib \<Rightarrow> 'f filter_circuit \<Rightarrow> nat \<times> 'f list \<Rightarrow> ('f, bool) portal" where
  "filter_trace_row cl fc = (\<lambda>(i, lhs_row).
     pbind (lift_res (vindex lhs_row 6)) (\<lambda>lhs.
     let is_less_or_equal = cl_rep cl lhs \<le> cl_rep cl (fc_right_shipdate fc) in
     pbind (portal_set (cmp_wire i) (if is_less_or_equal then 1 else 0)) (\<lambda>_. Return True)))"

definition filter_portal_subtraces :: "'f::field compare_lib \<Rightarrow> 'f filter_circuit \<Rightarrow> failure + 'f transcript_entry list list" where
  "filter_portal_subtraces cl fc =
     rbind (rom_setup_run (map (filter_trace_row cl fc) (enumerate 0 (fc_lineitem_table fc))) setup_rom_new) (\<lambda>(_, pm).
       Inr (map (map RomEntry) (sr_subtraces pm)))"

definition filter_ops :: "'f::field compare_lib \<Rightarrow> ('f, 'f filter_circuit, filter_params) circuit_ops" where
  "filter_ops cl =
     \<lparr>op_mem_type = Rom, op_get_params = fc_params, op_portal_subtraces = filter_portal_subtraces cl,
      op_num_subcircuits = filter_num_subcircuits, op_unique_subcircuits = filter_unique_subcircuits,
      op_representative = filter_representative, op_new = (\<lambda>params. Inr (filter_new params)),
      op_get_witnesses = filter_get_witnesses cl, op_set_witnesses = filter_set_witnesses cl, op_generate = filter_generate cl\<rparr>"

section \<open>The sort circuit\<close>

record sort_params =
  so_num_rows :: nat
  so_sort_column_idx :: nat

record 'f sort_circuit =
  so_table_data :: "'f list list"
  so_sorted_indices :: "nat list"
  so_params :: sort_params

fun sort_layers :: "nat \<Rightarrow> nat" where
  "sort_layers n = (if n > 1 then sort_layers ((n + 1) div 2) + 1 else 0)"

declare sort_layers.simps [simp del]

definition sort_num_subcircuits :: "'f sort_circuit \<Rightarrow> nat" where
  "sort_num_subcircuits sc = sort_layers (so_num_rows (so_params sc))"

definition sort_unique_subcircuits :: "'f sort_circuit \<Rightarrow> failure + nat list" where
  "sort_unique_subcircuits sc = Inr [0..<sort_num_subcircuits sc]"

definition sort_representative :: "'f sort_circuit \<Rightarrow> nat \<Rightarrow> failure + nat" where
  "sort_representative sc subcircuit_idx = Inr subcircuit_idx"

definition sort_new :: "sort_params \<Rightarrow> 'f::field sort_circuit" where
  "sort_new params =
     \<lparr>so_table_data = replicate (so_num_rows params) (replicate 7 12), so_sorted_indices = [0..<so_num_rows params], so_params = params\<rparr>"

definition sort_rand :: "sort_params \<Rightarrow> 'f::field sort_circuit" where
  "sort_rand params = sort_new params"

text \<open>The size of the segments a layer merges, and the number of pairs of segments.\<close>

definition layer_shape :: "'f sort_circuit \<Rightarrow> nat \<Rightarrow> failure + nat \<times> nat" where
  "layer_shape sc layer_idx =
     rbind (usub (sort_num_subcircuits sc) layer_idx) (\<lambda>d.
     rbind (usub d 1) (\<lambda>current_layer.
     let segment_size = 2 ^ current_layer;
         num_segments = (so_num_rows (so_params sc) + segment_size - 1) div segment_size in
     Inr (segment_size, num_segments div 2)))"

text \<open>The keys and indices of the rows \<open>start ..< start + len\<close> of the current order, cut at the last row.\<close>

definition sort_segment :: "'f sort_circuit \<Rightarrow> nat \<Rightarrow> nat \<Rightarrow> failure + ('f \<times> nat) list" where
  "sort_segment sc start len =
     rmap (\<lambda>i.
       rbind (vindex (so_sorted_indices sc) (start + i)) (\<lambda>idx.
       rbind (table_entry (so_table_data sc) idx (so_sort_column_idx (so_params sc))) (\<lambda>sort_key. Inr (sort_key, idx))))
     (filter (\<lambda>i. start + i < so_num_rows (so_params sc)) [0..<len])"

definition pair_segments :: "'f sort_circuit \<Rightarrow> nat \<Rightarrow> nat \<Rightarrow> failure + ('f \<times> nat) list \<times> ('f \<times> nat) list" where
  "pair_segments sc segment_size pair_idx =
     (let left_start = pair_idx * 2 * segment_size;
          right_start = left_start + segment_size;
          right_end = min (right_start + segment_size) (so_num_rows (so_params sc)) in
      rbind (usub right_end right_start) (\<lambda>right_len.
      rbind (sort_segment sc left_start segment_size) (\<lambda>left.
      rbind (sort_segment sc right_start right_len) (\<lambda>right. Inr (left, right)))))"

text \<open>The merge in the constraints: the pointers follow the value of the comparison.\<close>

fun merge_var :: "'f compare_lib \<Rightarrow> ('f \<times> nat) list \<Rightarrow> ('f \<times> nat) list \<Rightarrow> nat list \<times> bool" where
  "merge_var cl (l # ls) (r # rs) =
     (let (is_left_smaller, ok) = cl_is_less cl (fst l) (fst r) False in
      if is_left_smaller then (let (m, ok') = merge_var cl ls (r # rs) in (snd l # m, ok \<and> ok'))
      else (let (m, ok') = merge_var cl (l # ls) rs in (snd r # m, ok \<and> ok')))"
| "merge_var cl ls [] = (map snd ls, True)"
| "merge_var cl [] rs = (map snd rs, True)"

text \<open>The merge of the native trace.\<close>

fun merge_native :: "'f compare_lib \<Rightarrow> ('f \<times> nat) list \<Rightarrow> ('f \<times> nat) list \<Rightarrow> nat list" where
  "merge_native cl (l # ls) (r # rs) =
     (if cl_rep cl (fst l) \<le> cl_rep cl (fst r) then snd l # merge_native cl ls (r # rs)
      else snd r # merge_native cl (l # ls) rs)"
| "merge_native cl ls [] = map snd ls"
| "merge_native cl [] rs = map snd rs"

definition merged_wire :: "nat \<Rightarrow> nat \<Rightarrow> string" where
  "merged_wire pair_idx i = ''merged_indices_'' @ decimal pair_idx @ ''_'' @ decimal i"

definition set_merged :: "nat \<Rightarrow> nat list \<Rightarrow> ('f::field, unit) portal" where
  "set_merged pair_idx merged =
     pfold (\<lambda>(i, idx) _. portal_set (merged_wire pair_idx i) (of_nat idx)) (enumerate 0 merged) ()"

definition sort_generate :: "'f::field compare_lib \<Rightarrow> 'f sort_circuit \<Rightarrow> nat \<Rightarrow> ('f, bool) portal" where
  "sort_generate cl sc subcircuit_idx =
     pbind (lift_res (layer_shape sc subcircuit_idx)) (\<lambda>(segment_size, num_pairs).
     pfold (\<lambda>pair_idx ok.
       pbind (lift_res (pair_segments sc segment_size pair_idx)) (\<lambda>(left, right).
       let (merged, ok') = merge_var cl left right in
       pbind (set_merged pair_idx merged) (\<lambda>_. Return (ok \<and> ok')))) [0..<num_pairs] True)"

definition sort_trace :: "'f::field compare_lib \<Rightarrow> 'f sort_circuit \<Rightarrow> nat \<Rightarrow> ('f, bool) portal" where
  "sort_trace cl sc layer_idx =
     pbind (lift_res (layer_shape sc layer_idx)) (\<lambda>(segment_size, num_pairs).
     pfold (\<lambda>pair_idx _.
       pbind (lift_res (pair_segments sc segment_size pair_idx)) (\<lambda>(left, right).
       pbind (set_merged pair_idx (merge_native cl left right)) (\<lambda>_. Return True))) [0..<num_pairs] True)"

definition sort_portal_subtraces :: "'f::field compare_lib \<Rightarrow> 'f sort_circuit \<Rightarrow> failure + 'f transcript_entry list list" where
  "sort_portal_subtraces cl sc =
     rbind (rom_setup_run (map (sort_trace cl sc) [0..<sort_num_subcircuits sc]) setup_rom_new) (\<lambda>(_, pm).
       Inr (map (map RomEntry) (sr_subtraces pm)))"

definition sort_get_witnesses :: "'f::field compare_lib \<Rightarrow> 'f sort_circuit \<Rightarrow> nat \<Rightarrow> failure + u8 list" where
  "sort_get_witnesses cl sc subcircuit_idx =
     rbind (layer_shape sc subcircuit_idx) (\<lambda>(segment_size, num_pairs).
     rbind (rmap (pair_segments sc segment_size) [0..<num_pairs]) (\<lambda>pairs.
       Inr (concat (map (\<lambda>(left, right). concat (map (\<lambda>(sort_key, idx). cl_ser cl sort_key @ cl_ser cl (of_nat idx)) (left @ right))) pairs))))"

text \<open>The indices are read back as eight bytes each, after the keys and indices are skipped.\<close>

definition sort_set_index :: "u8 list \<Rightarrow> nat \<Rightarrow> nat \<times> nat list \<Rightarrow> failure + (nat \<times> nat list)" where
  "sort_set_index bytes position = (\<lambda>(offset, sorted_indices).
     let usize_size = 8 in
     rbind (slice_range offset (offset + usize_size) bytes) (\<lambda>bs.
     rbind (vset position (bytes_val bs) sorted_indices) (\<lambda>sorted_indices.
       Inr (offset + usize_size, sorted_indices))))"

definition sort_set_pair :: "'f compare_lib \<Rightarrow> 'f sort_circuit \<Rightarrow> u8 list \<Rightarrow> nat \<Rightarrow> nat \<Rightarrow> nat \<times> nat list \<Rightarrow> failure + (nat \<times> nat list)" where
  "sort_set_pair cl sc bytes segment_size pair_idx = (\<lambda>(offset, sorted_indices).
     let field_size = cl_size cl;
         left_start = pair_idx * 2 * segment_size;
         right_start = left_start + segment_size;
         right_end = min (right_start + segment_size) (so_num_rows (so_params sc));
         output_start = left_start;
         left_len = segment_size in
     rbind (usub right_end right_start) (\<lambda>right_len.
     let entries_to_skip = (left_len + right_len) * 2;
         offset = offset + entries_to_skip * field_size;
         merged_len = left_len + right_len in
     rfold (\<lambda>i. sort_set_index bytes (output_start + i))
       (filter (\<lambda>i. output_start + i < so_num_rows (so_params sc)) [0..<merged_len]) (offset, sorted_indices)))"

definition sort_set_witnesses :: "'f compare_lib \<Rightarrow> nat \<Rightarrow> u8 list \<Rightarrow> 'f sort_circuit \<Rightarrow> failure + 'f sort_circuit" where
  "sort_set_witnesses cl subcircuit_idx bytes sc =
     rbind (layer_shape sc subcircuit_idx) (\<lambda>(segment_size, num_pairs).
     rbind (rfold (sort_set_pair cl sc bytes segment_size) [0..<num_pairs] (0, so_sorted_indices sc)) (\<lambda>(_, sorted_indices).
       Inr (sc\<lparr>so_sorted_indices := sorted_indices\<rparr>)))"

definition sort_ops :: "'f::field compare_lib \<Rightarrow> ('f, 'f sort_circuit, sort_params) circuit_ops" where
  "sort_ops cl =
     \<lparr>op_mem_type = Rom, op_get_params = so_params, op_portal_subtraces = sort_portal_subtraces cl,
      op_num_subcircuits = sort_num_subcircuits, op_unique_subcircuits = sort_unique_subcircuits,
      op_representative = sort_representative, op_new = (\<lambda>params. Inr (sort_new params)),
      op_get_witnesses = sort_get_witnesses cl, op_set_witnesses = sort_set_witnesses cl, op_generate = sort_generate cl\<rparr>"

end
