(* ===== verification/Node_Main.thy ===== *)
theory Node_Main
  imports Commands Vkd_Constraints Vm Sql_Circuits
begin

text \<open>
  The program \<open>bin/node.rs\<close> of \<open>mpi-snark\<close> around the run of \<open>Driver\<close>: its commands generate the key package of a
  circuit and write it to a file, or read a package and run the circuit it names. What is printed is left out, except that
  computing the number of updates that is printed can overflow. The command that generates keys for the sort circuit does not
  compile, since it leaves a field of the parameters out, and is not modelled.
\<close>

section \<open>The parameters of all circuits\<close>

definition test_circuit_id :: string where
  "test_circuit_id = ''test circuit''"

definition merkle_circuit_id :: string where
  "merkle_circuit_id = ''BigMerkle circuit''"

definition vkd_circuit_id :: string where
  "vkd_circuit_id = ''VKD circuit''"

definition vm_circuit_id :: string where
  "vm_circuit_id = ''VM circuit''"

definition vm_constraints_per_cycle :: nat where
  "vm_constraints_per_cycle = 1114"

text \<open>
  What a process has: the parameters of a run of each circuit, the serialisation of key packages, and for the run the message library, the
  number of processes, the parallel feature, the number of threads and the seeds. \<open>nd_log2\<close> is the library's logarithm, rounded up.
\<close>

record ('f, 'tree, 'dig, 'path, 'g1, 'g2, 'gt, 'ml, 'scom, 'agg, 't, 'seed, 'rnd) node =
  nd_merkle :: "('f, tree_circuit, tree_params, 'tree, 'dig, 'path, 'g1, 'g2, 'gt, 'ml, 'scom, 'agg, 't, 'seed, 'rnd) node_env"
  nd_vkd :: "('f, vkd_circuit, vkd_params, 'tree, 'dig, 'path, 'g1, 'g2, 'gt, 'ml, 'scom, 'agg, 't, 'seed, 'rnd) node_env"
  nd_vm :: "('f, 'f virtual_machine, vm_params, 'tree, 'dig, 'path, 'g1, 'g2, 'gt, 'ml, 'scom, 'agg, 't, 'seed, 'rnd) node_env"
  nd_test :: "('f, 'f sort_circuit, sort_params, 'tree, 'dig, 'path, 'g1, 'g2, 'gt, 'ml, 'scom, 'agg, 't, 'seed, 'rnd) node_env"
  nd_hash :: "'f hash_lib"
  nd_log2 :: "nat \<Rightarrow> nat"
  nd_keys :: "('g1, 'g2) proving_keys codec"
  nd_mpi :: mpi_lib
  nd_world :: nat
  nd_parallel :: bool
  nd_threads :: nat
  nd_seeds :: "nat \<Rightarrow> 'seed"

section \<open>Key generation\<close>

definition write_keys where
  "write_keys nd key_out_path pks fs = unwrap ''could not create file'' (write_file key_out_path (cod_ser (nd_keys nd) pks) fs)"

definition setup_big_merkle where
  "setup_big_merkle nd key_out_path num_subcircuits num_sha_iterations num_portals_per_subcircuit fs =
     rbind (ensure ''#subcircuits MUST be a power of 2'' (is_power_of_two num_subcircuits)) (\<lambda>_.
     rbind (ensure ''num. of subcircuits MUST be > 1'' (num_subcircuits > 1)) (\<lambda>_.
     rbind (ensure ''num. of SHA256 iterations per subcircuit MUST be > 0'' (num_sha_iterations > 0)) (\<lambda>_.
     rbind (ensure ''num. of portal ops per subcircuit MUST be > 0'' (num_portals_per_subcircuit > 0)) (\<lambda>_.
     let circ_params = \<lparr>tp_num_leaves = num_subcircuits div 2, tp_num_sha_iters = num_sha_iterations, tp_num_portals = num_portals_per_subcircuit\<rparr> in
     rbind (keys_new (nd_merkle nd) circ_params merkle_circuit_id) (\<lambda>pks.
       write_keys nd key_out_path pks fs)))))"

definition setup_vkd where
  "setup_vkd nd key_out_path num_subcircuits fs =
     rbind (ensure ''#subcircuits MUST be a power of 2'' (is_power_of_two num_subcircuits)) (\<lambda>_.
     rbind (ensure ''num. of subcircuits MUST be > 1'' (num_subcircuits > 1)) (\<lambda>_.
     let log_num_subcircuits = nd_log2 nd num_subcircuits in
     rbind (unwrap_res unwrap_err_msg (sparse_tree_new (nd_hash nd) vkd_depth)) (\<lambda>tree.
     rbind (vindex (st_initial tree) vkd_depth) (\<lambda>null_leaf.
     let circ_params = \<lparr>vp_log_num_subcircuits = log_num_subcircuits, vp_null_leaf = null_leaf\<rparr> in
     rbind (keys_new (nd_vkd nd) circ_params vkd_circuit_id) (\<lambda>pks.
       write_keys nd key_out_path pks fs)))))"

definition setup_vm where
  "setup_vm nd key_out_path num_subcircuits use_merkle_memory dummy_constraint_num operations_per_chunk fs =
     rbind (ensure ''#subcircuits MUST be a power of 2'' (is_power_of_two num_subcircuits)) (\<lambda>_.
     rbind (ensure ''num. of subcircuits MUST be > 1'' (num_subcircuits > 1)) (\<lambda>_.
     rbind (ensure ''num. ops per chunk MUST be a power of 2'' (is_power_of_two operations_per_chunk)) (\<lambda>_.
     rbind (ensure ''num. ops per chunk MUST be > 1'' (operations_per_chunk > 1)) (\<lambda>_.
     rbind (ensure ''num. dummy constraints MUST be > 1'' (dummy_constraint_num > 1)) (\<lambda>_.
     let log_num_subcircuit = nd_log2 nd num_subcircuits;
         circ_params = \<lparr>vp_use_merkle_memory = use_merkle_memory, vp_log_num_subcircuit = log_num_subcircuit,
           vp_dummy_constraint_num = dummy_constraint_num, vp_operations_per_chunk = operations_per_chunk\<rparr> in
     rbind (keys_new (nd_vm nd) circ_params vm_circuit_id) (\<lambda>pks.
       write_keys nd key_out_path pks fs))))))"

section \<open>The commands\<close>

datatype node_command =
    SetupBigMerkle (bm_num_subcircuits: nat) (bm_num_sha2_iters: nat) (bm_num_portals: nat) (bm_key_out: place)
  | SetupVkd (sv_num_subcircuits: nat) (sv_key_out: place)
  | SetupVm (sm_num_subcircuits: nat) (sm_use_merkle_memory: bool) (sm_num_cycles_per_subcircuit: nat) (sm_key_out: place)
  | Work (wk_key_file: place) (wk_num_workers: nat)

text \<open>A run of a circuit with the process's parameters.\<close>

definition node_work where
  "node_work nd env num_workers proving_keys =
     work env (nd_mpi nd) num_workers (nd_world nd) (nd_parallel nd) (nd_threads nd) (nd_seeds nd) proving_keys"

definition run_package where
  "run_package nd num_workers proving_keys =
     (let circ_id = ks_circuit_id proving_keys in
      if circ_id = merkle_circuit_id then node_work nd (nd_merkle nd) num_workers proving_keys
      else if circ_id = vkd_circuit_id then
        rbind (usub (keys_num_subcircuits proving_keys) 8) (\<lambda>n.
        rbind (usub (n div 8) 1) (\<lambda>num_updates.
          node_work nd (nd_vkd nd) num_workers proving_keys))
      else if circ_id = vm_circuit_id then
        rbind (unwrap unwrap_err_msg (cod_de (ne_params_codec (nd_vm nd)) (ks_serialized_circ_params proving_keys))) (\<lambda>params.
          node_work nd (nd_vm nd) num_workers proving_keys)
      else if circ_id = test_circuit_id then
        rbind (unwrap unwrap_err_msg (cod_de (ne_params_codec (nd_test nd)) (ks_serialized_circ_params proving_keys))) (\<lambda>params.
          node_work nd (nd_test nd) num_workers proving_keys)
      else Inl (Panic ''unknown circuit ID''))"

text \<open>The result is the files, and the proof if there is one.\<close>

fun node_main where
  "node_main nd (SetupBigMerkle num_subcircuits num_sha2_iters num_portals key_out) fs =
     result_map (\<lambda>fs. (fs, None)) (setup_big_merkle nd key_out num_subcircuits num_sha2_iters num_portals fs)"
| "node_main nd (SetupVkd num_subcircuits key_out) fs = result_map (\<lambda>fs. (fs, None)) (setup_vkd nd key_out num_subcircuits fs)"
| "node_main nd (SetupVm num_subcircuits use_merkle_memory num_cycles_per_subcircuit key_out) fs =
     result_map (\<lambda>fs. (fs, None)) (setup_vm nd key_out num_subcircuits use_merkle_memory vm_constraints_per_cycle num_cycles_per_subcircuit fs)"
| "node_main nd (Work key_file num_workers) fs =
     rbind (unwrap ''couldn't open file'' (read_file fs key_file)) (\<lambda>buf.
     rbind (unwrap unwrap_err_msg (cod_de (nd_keys nd) buf)) (\<lambda>proving_keys.
       result_map (\<lambda>agg_proof. (fs, Some agg_proof)) (run_package nd num_workers proving_keys)))"

end
