(* ===== verification/Aggregation_Correct.thy ===== *)
theory Aggregation_Correct
  imports Aggregation Groth16_Correct Perm_Check
begin

text \<open>
  What aggregation computes: honest proofs always aggregate, the batched equation with a random twist
  catches a bad proof, and the output of the aggregated instance is determined by the cross terms.
\<close>

section \<open>The laws of the libraries\<close>

text \<open>
  The target group of the pairing is cyclic with the scalar field as exponents: it has discrete logarithms.
\<close>

definition target_law :: "('f::field, 'g1::ab_group_add, 'g2::ab_group_add, 'gt::ab_group_add, 'ml) pairing_lib \<Rightarrow> ('gt \<Rightarrow> 'f) \<Rightarrow> bool" where
  "target_law pl dl \<longleftrightarrow> inj dl \<and> (\<forall>a b. dl (a + b) = dl a + dl b)
     \<and> (\<forall>x p q. dl (pl_pairing pl (pl_smul1 pl x p) q) = x * dl (pl_pairing pl p q))"

text \<open>The commitments are linear in the committed vectors of the supported length.\<close>

definition linear_commitment :: "nat \<Rightarrow> ('f \<Rightarrow> 'g \<Rightarrow> 'g::ab_group_add) \<Rightarrow> ('f \<Rightarrow> 'c \<Rightarrow> 'c::ab_group_add) \<Rightarrow> ('g list \<Rightarrow> 'c) \<Rightarrow> bool" where
  "linear_commitment n smul csmul cm \<longleftrightarrow>
     (\<forall>xs ys. length xs = n \<and> length ys = n \<longrightarrow> cm (map2 (+) xs ys) = cm xs + cm ys)
     \<and> (\<forall>x xs. length xs = n \<longrightarrow> cm (map (smul x) xs) = csmul x (cm xs))"

definition twisted_product ::
    "('f::field, 'g1, 'g2, 'gt::ab_group_add, 'ml) pairing_lib \<Rightarrow> 'g1 list \<Rightarrow> 'g2 list \<Rightarrow> 'f \<Rightarrow> 'gt" where
  "twisted_product pl as bs r = (\<Sum>i<length as. pl_pairing pl (pl_smul1 pl (r ^ i) (as ! i)) (bs ! i))"

text \<open>
  A commitment with no inner product given is the sum of the commitments to the two sides. The
  argument is complete: a proof of an instance whose commitment and output fit the witness is made and accepted.
\<close>

definition ipp_law ::
    "('f::field, 'g1::ab_group_add, 'g2::ab_group_add, 'gt::ab_group_add, 'ml) pairing_lib
      \<Rightarrow> ('f, 'g1, 'g2, 'gt, 'com::ab_group_add, 'agg) ipp_lib \<Rightarrow> bool" where
  "ipp_law pl il \<longleftrightarrow> (let n = ip_supported_size il in \<exists>cl cr.
     linear_commitment n (pl_smul1 pl) (ip_smul il) cl \<and> linear_commitment n (pl_smul2 pl) (ip_smul il) cr
     \<and> (\<forall>as. length as = n \<longrightarrow> ip_commit_only_left il as = Inr (cl as))
     \<and> (\<forall>bs. length bs = n \<longrightarrow> ip_commit_only_right il bs = Inr (cr bs))
     \<and> (\<forall>as bs. length as = n \<and> length bs = n \<longrightarrow> ip_commit_with_ip il as bs = Inr (cl as + cr bs))
     \<and> (\<forall>as bs r. length as = n \<and> length bs = n \<longrightarrow> ip_twisted_inner_product il as bs r = Inr (twisted_product pl as bs r))
     \<and> (\<forall>as bs r. length as = n \<and> length bs = n \<longrightarrow>
          (let inst = \<lparr>in_size = n, in_output = twisted_product pl as bs r, in_commitment = cl as + cr bs, in_twist = r\<rparr> in
           \<exists>pf. ip_prove il inst \<lparr>wi_left = as, wi_right = bs\<rparr> = Inr pf \<and> ip_verify il inst pf = Inr True)))"

section \<open>Vectors\<close>

lemma structured_scalar_power_eq:
  assumes "0 < n"
  shows "structured_scalar_power n s = Inr (map ((^) s) [0..<n])"
  using assms
proof (induction n)
  case (Suc n)
  show ?case
  proof (cases "n = 0")
    case False
    then have "structured_scalar_power n s = Inr (map ((^) s) [0..<n])" using Suc.IH by simp
    moreover have "structured_scalar_power (Suc n) s
        = rbind (structured_scalar_power n s) (\<lambda>powers. rbind (vindex powers (n - 1)) (\<lambda>p. Inr (powers @ [p * s])))"
      using False by (simp add: structured_scalar_power_def rfold_append rbind_def split: sum.split)
    ultimately show ?thesis using False by (cases n) (simp_all add: mult.commute nth_append)
  qed (simp add: structured_scalar_power_def)
qed simp

lemma length_scalar_pairing [simp]: "length (scalar_pairing smul gp scalars) = min (length gp) (length scalars)"
  by (simp add: scalar_pairing_def)

lemma nth_scalar_pairing [simp]:
  "i < length gp \<Longrightarrow> i < length scalars \<Longrightarrow> scalar_pairing smul gp scalars ! i = smul (scalars ! i) (gp ! i)"
  by (simp add: scalar_pairing_def)

lemma scalar_pairing_replicate: "length gp = n \<Longrightarrow> scalar_pairing smul gp (replicate n r) = map (smul r) gp"
  by (simp add: scalar_pairing_def zip_replicate2 comp_def)

lemma length_combine [simp]:
  "length u = n \<Longrightarrow> length v = n \<Longrightarrow> length w = n \<Longrightarrow> length x = n \<Longrightarrow> length (combine smul n u v w x r r2 r3) = n"
  by (simp add: combine_def)

lemma nth_combine [simp]:
  "length u = n \<Longrightarrow> length v = n \<Longrightarrow> length w = n \<Longrightarrow> length x = n \<Longrightarrow> i < n \<Longrightarrow>
    combine smul n u v w x r r2 r3 ! i = u ! i + smul r (v ! i) + smul r2 (w ! i) + smul r3 (x ! i)"
  by (simp add: combine_def)

lemma linear_commitment_combine:
  assumes "linear_commitment n smul csmul cm" "length u = n" "length v = n" "length w = n" "length x = n"
  shows "cm (combine smul n u v w x r r2 r3) = cm u + csmul r (cm v) + csmul r2 (cm w) + csmul r3 (cm x)"
proof -
  have "combine smul n u v w x r r2 r3 = map2 (+) (map2 (+) (map2 (+) u (map (smul r) v)) (map (smul r2) w)) (map (smul r3) x)"
    using assms(2-5) by (intro nth_equalityI) simp_all
  then show ?thesis using assms by (simp add: linear_commitment_def)
qed

lemma sum_list_map2_nth:
  assumes "length xs = length ys"
  shows "sum_list (map2 f xs ys) = (\<Sum>i<length xs. f (xs ! i) (ys ! i))"
  using assms by (simp add: sum_list_sum_nth atLeast0LessThan)

lemma final_exponentiation_eq:
  assumes "pairing_law pl" "length left = length right"
  shows "pl_final_exponentiation pl (pl_multi_miller_loop pl left right) = Some (\<Sum>i<length left. pl_pairing pl (left ! i) (right ! i))"
proof -
  have "pl_final_exponentiation pl (pl_multi_miller_loop pl left right) = Some (sum_list (map2 (pl_pairing pl) left right))"
    using assms unfolding pairing_law_def by blast
  then show ?thesis by (simp only: sum_list_map2_nth [OF assms(2)])
qed

lemma pairing_product_eq:
  assumes "pairing_law pl" "length left = length right"
  shows "pairing_product pl left right = Inr (\<Sum>i<length left. pl_pairing pl (left ! i) (right ! i))"
  using final_exponentiation_eq [OF assms] assms(2) by (simp add: pairing_product_def pairing_miller_affine_def)

lemma cross_products_eq:
  assumes "pairing_law pl" "\<forall>l \<in> set lefts. length l = n" "\<forall>r \<in> set rights. length r = n"
  shows "cross_products pl lefts rights = Inr (map (\<lambda>l. map (\<lambda>r. \<Sum>i<n. pl_pairing pl (l ! i) (r ! i)) rights) lefts)"
  unfolding cross_products_def
proof (rule rmap_total)
  fix l assume "l \<in> set lefts"
  then show "rmap (\<lambda>rhs. pairing_product pl l rhs) rights = Inr (map (\<lambda>r. \<Sum>i<n. pl_pairing pl (l ! i) (r ! i)) rights)"
    using assms by (intro rmap_total) (auto simp: pairing_product_eq)
qed

lemma cross_products_returns:
  assumes "pairing_law pl" "\<forall>l \<in> set lefts. length l = n" "\<forall>r \<in> set rights. length r = n"
  obtains ct where "cross_products pl lefts rights = Inr ct"
  using cross_products_eq [OF assms] by blast

section \<open>The equations of the proofs\<close>

abbreviation proof_equation :: "('f, 'g1, 'g2, 'gt::ab_group_add, 'ml) pairing_lib \<Rightarrow> 'g1 \<times> 'g1 \<times> 'g1 \<times> 'g1 \<times> 'g1 \<Rightarrow> 'g2 \<times> 'g2 \<times> 'g2 \<times> 'g2 \<times> 'g2 \<Rightarrow> bool" where
  "proof_equation pl \<equiv> \<lambda>(a, alpha, x, d, c) (b, beta, h, delta0, delta1).
     pl_pairing pl a b = pl_pairing pl alpha beta + pl_pairing pl x h + pl_pairing pl d delta0 + pl_pairing pl c delta1"

definition equation_of ::
    "('f, 'g1, 'g2, 'gt::ab_group_add, 'ml) pairing_lib \<Rightarrow> ('g1, 'g2, 'com) agg_proving_key
      \<Rightarrow> 'g1 list \<Rightarrow> 'g2 list \<Rightarrow> 'g1 list \<Rightarrow> 'g1 list \<Rightarrow> 'g1 list \<Rightarrow> 'g1 list \<Rightarrow> nat \<Rightarrow> bool" where
  "equation_of pl ak a b alpha x d c i \<longleftrightarrow>
     proof_equation pl (a ! i, alpha ! i, x ! i, d ! i, c ! i) (b ! i, ak_beta ak ! i, ak_h ak ! i, ak_delta0 ak ! i, ak_delta1 ak ! i)"

text \<open>All vectors of a key and of a batch have the same length.\<close>

definition key_length :: "nat \<Rightarrow> ('g1, 'g2, 'com) agg_proving_key \<Rightarrow> bool" where
  "key_length n ak \<longleftrightarrow> (\<forall>v \<in> {ak_s0 ak, ak_s1 ak, ak_s2 ak, ak_s3 ak, ak_alpha ak}. length v = n)
     \<and> (\<forall>v \<in> {ak_h ak, ak_delta0 ak, ak_delta1 ak, ak_beta ak}. length v = n)"

lemma key_lengthD [simp]:
  assumes "key_length n ak"
  shows "length (ak_s0 ak) = n" "length (ak_s1 ak) = n" "length (ak_s2 ak) = n" "length (ak_s3 ak) = n" "length (ak_alpha ak) = n"
    "length (ak_h ak) = n" "length (ak_delta0 ak) = n" "length (ak_delta1 ak) = n" "length (ak_beta ak) = n"
  using assms by (simp_all add: key_length_def)

lemma equation_at_eq:
  assumes "key_length n ak" "length a = n" "length b = n" "length alpha = n" "length x = n" "length d = n" "length c = n" "i < n"
  shows "equation_at pl ak a b alpha x d c i = Inr (equation_of pl ak a b alpha x d c i)"
  using assms by (simp add: equation_at_def equation_of_def)

lemma assert_equations_iff:
  assumes "key_length n ak" "length a = n" "length b = n" "length alpha = n" "length x = n" "length d = n" "length c = n"
  shows "assert_equations pl ak a b alpha x d c n = Inr () \<longleftrightarrow> (\<forall>i < n. equation_of pl ak a b alpha x d c i)"
proof -
  have "rfold (\<lambda>i _. rbind (equation_at pl ak a b alpha x d c i) (ensure ''assertion failed: the pairing equation'')) [0..<k] () = Inr ()
      \<longleftrightarrow> (\<forall>i < k. equation_of pl ak a b alpha x d c i)" if "k \<le> n" for k
    using that
  proof (induction k)
    case (Suc k)
    then show ?case
      by (auto simp: rfold_append rbind_Inr_iff equation_at_eq [OF assms] ensure_Inr_iff less_Suc_eq)
  qed simp
  then show ?thesis by (simp add: assert_equations_def)
qed

text \<open>Scaling a proof scales its equation.\<close>

lemma equation_scaled:
  assumes "target_law pl dl" "proof_equation pl (a, alpha, x, d, c) q"
  shows "proof_equation pl (pl_smul1 pl r a, pl_smul1 pl r alpha, pl_smul1 pl r x, pl_smul1 pl r d, pl_smul1 pl r c) q"
proof -
  obtain b beta h delta0 delta1 where q: "q = (b, beta, h, delta0, delta1)" by (cases q) auto
  have inj: "inj dl" and add: "\<And>u v. dl (u + v) = dl u + dl v"
    and smul: "\<And>y p q. dl (pl_pairing pl (pl_smul1 pl y p) q) = y * dl (pl_pairing pl p q)"
    using assms(1) by (simp_all add: target_law_def)
  from assms(2) have "dl (pl_pairing pl a b) = dl (pl_pairing pl alpha beta) + dl (pl_pairing pl x h)
      + dl (pl_pairing pl d delta0) + dl (pl_pairing pl c delta1)"
    by (simp add: q add)
  then have "dl (pl_pairing pl (pl_smul1 pl r a) b) = dl (pl_pairing pl (pl_smul1 pl r alpha) beta + pl_pairing pl (pl_smul1 pl r x) h
      + pl_pairing pl (pl_smul1 pl r d) delta0 + pl_pairing pl (pl_smul1 pl r c) delta1)"
    by (simp add: smul add distrib_left)
  then have "pl_pairing pl (pl_smul1 pl r a) b = pl_pairing pl (pl_smul1 pl r alpha) beta + pl_pairing pl (pl_smul1 pl r x) h
      + pl_pairing pl (pl_smul1 pl r d) delta0 + pl_pairing pl (pl_smul1 pl r c) delta1"
    by (rule injD [OF inj])
  then show ?thesis by (simp add: q)
qed

lemma equations_scaled:
  assumes "target_law pl dl" "key_length n ak" "\<forall>v \<in> {a, alpha, x, d, c}. length v = n" "length pw = n"
    and "\<forall>i < n. equation_of pl ak a b alpha x d c i" "i < n"
  shows "equation_of pl ak (scalar_pairing (pl_smul1 pl) a pw) b (scalar_pairing (pl_smul1 pl) alpha pw)
     (scalar_pairing (pl_smul1 pl) x pw) (scalar_pairing (pl_smul1 pl) d pw) (scalar_pairing (pl_smul1 pl) c pw) i"
proof -
  from assms(5,6) have "proof_equation pl (a ! i, alpha ! i, x ! i, d ! i, c ! i) (b ! i, ak_beta ak ! i, ak_h ak ! i, ak_delta0 ak ! i, ak_delta1 ak ! i)"
    by (simp add: equation_of_def)
  from equation_scaled [OF assms(1) this, of "pw ! i"] show ?thesis
    using assms(2-4,6) by (simp add: equation_of_def)
qed

text \<open>If every scaled equation holds, so does their sum, the batched equation.\<close>

definition batch_of ::
    "('f, 'g1, 'g2, 'gt::ab_group_add, 'ml) pairing_lib \<Rightarrow> ('g1, 'g2, 'com) agg_proving_key
      \<Rightarrow> 'g1 list \<Rightarrow> 'g2 list \<Rightarrow> 'g1 list \<Rightarrow> 'g1 list \<Rightarrow> 'g1 list \<Rightarrow> 'g1 list \<Rightarrow> nat \<Rightarrow> bool" where
  "batch_of pl ak a b alpha x d c n \<longleftrightarrow>
     (\<Sum>i<n. pl_pairing pl (a ! i) (b ! i)) = (\<Sum>i<n. pl_pairing pl (alpha ! i) (ak_beta ak ! i)) + (\<Sum>i<n. pl_pairing pl (x ! i) (ak_h ak ! i))
       + (\<Sum>i<n. pl_pairing pl (d ! i) (ak_delta0 ak ! i)) + (\<Sum>i<n. pl_pairing pl (c ! i) (ak_delta1 ak ! i))"

lemma batch_of_equations: "\<forall>i < n. equation_of pl ak a b alpha x d c i \<Longrightarrow> batch_of pl ak a b alpha x d c n"
  by (simp add: batch_of_def equation_of_def flip: sum.distrib)

lemma batch_equation_eq:
  assumes "pairing_law pl" "key_length n ak" "\<forall>v \<in> {a, alpha, x, d, c}. length v = n" "length b = n"
    and "cross_products pl [a, x, d, c] [b, ak_h ak, ak_delta0 ak, ak_delta1 ak] = Inr ct"
  shows "batch_equation pl ak alpha ct = Inr (batch_of pl ak a b alpha x d c n)"
proof -
  have "ct = map (\<lambda>l. map (\<lambda>r. \<Sum>i<n. pl_pairing pl (l ! i) (r ! i)) [b, ak_h ak, ak_delta0 ak, ak_delta1 ak]) [a, x, d, c]"
    using cross_products_eq [OF assms(1), of "[a, x, d, c]" n "[b, ak_h ak, ak_delta0 ak, ak_delta1 ak]"] assms(2-5) by simp
  then show ?thesis using assms(1-4) by (simp add: batch_equation_def pairing_product_eq batch_of_def)
qed

section \<open>Honest proofs aggregate\<close>

lemma length_prepared_inputs [simp]: "key_length n ak \<Longrightarrow> length (prepared_inputs smul ak p0 p1 p2) = n"
  by (simp add: prepared_inputs_def)

lemma prepared_inputs_nth [simp]:
  "key_length n ak \<Longrightarrow> i < n \<Longrightarrow>
    prepared_inputs smul ak p0 p1 p2 ! i = ak_s0 ak ! i + smul p0 (ak_s1 ak ! i) + smul p1 (ak_s2 ak ! i) + smul p2 (ak_s3 ak ! i)"
  by (simp add: prepared_inputs_def)

lemma linear_commitment_prepared:
  assumes "linear_commitment n smul csmul cm" "key_length n ak"
  shows "cm (prepared_inputs smul ak p0 p1 p2)
    = cm (ak_s0 ak) + csmul p0 (cm (ak_s1 ak)) + csmul p1 (cm (ak_s2 ak)) + csmul p2 (cm (ak_s3 ak))"
proof -
  have "prepared_inputs smul ak p0 p1 p2
      = map2 (+) (map2 (+) (map2 (+) (ak_s0 ak) (map (smul p0) (ak_s1 ak))) (map (smul p1) (ak_s2 ak))) (map (smul p2) (ak_s3 ak))"
    using assms(2) by (intro nth_equalityI) simp_all
  then show ?thesis using assms by (simp add: linear_commitment_def)
qed

text \<open>The commitments of a key.\<close>

definition key_commitments :: "('f, 'g1, 'g2, 'gt, 'com, 'agg) ipp_lib \<Rightarrow> ('g1, 'g2, 'com) agg_proving_key \<Rightarrow> bool" where
  "key_commitments il ak \<longleftrightarrow>
     ip_commit_only_left il (ak_s0 ak) = Inr (ak_com_s0 ak) \<and> ip_commit_only_left il (ak_s1 ak) = Inr (ak_com_s1 ak)
     \<and> ip_commit_only_left il (ak_s2 ak) = Inr (ak_com_s2 ak) \<and> ip_commit_only_left il (ak_s3 ak) = Inr (ak_com_s3 ak)
     \<and> ip_commit_only_right il (ak_h ak) = Inr (ak_com_h ak) \<and> ip_commit_only_right il (ak_delta0 ak) = Inr (ak_com_delta0 ak)
     \<and> ip_commit_only_right il (ak_delta1 ak) = Inr (ak_com_delta1 ak)"

lemma agg_returns:
  assumes "pairing_law pl" "target_law pl dl" "ipp_law pl il"
    and "0 < n" "length proofs = n" "ip_supported_size il = n" "key_length n ak" "key_commitments il ak"
    and "\<forall>p \<in> set proofs. pr_ds p \<noteq> []" "ip_commit_only_left il (map (\<lambda>p. pr_ds p ! 0) proofs) = Inr super_com"
    and "3 \<le> length inputs"
    and "\<forall>i < n. equation_of pl ak (map pr_a proofs) (map pr_b proofs) (ak_alpha ak)
       (prepared_inputs (pl_smul1 pl) ak (inputs ! 0) (inputs ! 1) (inputs ! 2)) (map (\<lambda>p. pr_ds p ! 0) proofs) (map pr_c proofs) i"
  shows "\<exists>pf. agg_subcircuit_proofs pl il tr ak pt super_com proofs inputs = Inr pf"
proof -
  note kl = key_lengthD [OF assms(7)]
  define a b c d x where abcdx: "a = map pr_a proofs" "b = map pr_b proofs" "c = map pr_c proofs"
    "d = map (\<lambda>p. pr_ds p ! 0) proofs" "x = prepared_inputs (pl_smul1 pl) ak (inputs ! 0) (inputs ! 1) (inputs ! 2)"
  have len: "length a = n" "length b = n" "length c = n" "length d = n" "length x = n" using assms(5,7) kl by (simp_all add: abcdx)
  obtain cl cr where cl: "linear_commitment n (pl_smul1 pl) (ip_smul il) cl" and cr: "linear_commitment n (pl_smul2 pl) (ip_smul il) cr"
    and left: "\<And>as. length as = n \<Longrightarrow> ip_commit_only_left il as = Inr (cl as)"
    and right: "\<And>bs. length bs = n \<Longrightarrow> ip_commit_only_right il bs = Inr (cr bs)"
    and both: "\<And>as bs. length as = n \<Longrightarrow> length bs = n \<Longrightarrow> ip_commit_with_ip il as bs = Inr (cl as + cr bs)"
    and tw: "\<And>as bs r. length as = n \<Longrightarrow> length bs = n \<Longrightarrow> ip_twisted_inner_product il as bs r = Inr (twisted_product pl as bs r)"
    and arg: "\<And>as bs r. length as = n \<Longrightarrow> length bs = n \<Longrightarrow>
        \<exists>pf. ip_prove il \<lparr>in_size = n, in_output = twisted_product pl as bs r, in_commitment = cl as + cr bs, in_twist = r\<rparr>
               \<lparr>wi_left = as, wi_right = bs\<rparr> = Inr pf
          \<and> ip_verify il \<lparr>in_size = n, in_output = twisted_product pl as bs r, in_commitment = cl as + cr bs, in_twist = r\<rparr> pf = Inr True"
    using assms(3) unfolding ipp_law_def assms(6) Let_def by blast
  have key: "ak_com_s0 ak = cl (ak_s0 ak)" "ak_com_s1 ak = cl (ak_s1 ak)" "ak_com_s2 ak = cl (ak_s2 ak)" "ak_com_s3 ak = cl (ak_s3 ak)"
    "ak_com_h ak = cr (ak_h ak)" "ak_com_delta0 ak = cr (ak_delta0 ak)" "ak_com_delta1 ak = cr (ak_delta1 ak)" "super_com = cl d"
    using assms(8,10) kl left right len(4) by (simp_all add: key_commitments_def abcdx)
  have ds: "rmap (\<lambda>p. vindex (pr_ds p) 0) proofs = Inr d"
    using assms(9) unfolding abcdx by (intro rmap_total) simp
  have eqs: "\<forall>i < n. equation_of pl ak a b (ak_alpha ak) x d c i" using assms(12) by (simp only: abcdx)
  have first: "assert_equations pl ak a b (ak_alpha ak) x d c n = Inr ()"
    by (rule assert_equations_iff [OF assms(7), THEN iffD2, OF _ _ _ _ _ _ eqs]) (simp_all add: len kl)
  define pw where "pw r = map ((^) r) [0..<n]" for r :: 'a
  have powers: "structured_scalar_power n r = Inr (pw r)" for r unfolding pw_def by (rule structured_scalar_power_eq [OF assms(4)])
  let ?sc = "\<lambda>v r. scalar_pairing (pl_smul1 pl) v (pw r)"
  have pwl: "length (pw r) = n" for r by (simp add: pw_def)
  have scaled: "\<forall>i < n. equation_of pl ak (?sc a r) b (?sc (ak_alpha ak) r) (?sc x r) (?sc d r) (?sc c r) i" for r
    using equations_scaled [OF assms(2,7) _ pwl eqs] len kl by simp
  have second: "assert_equations pl ak (?sc a r) b (?sc (ak_alpha ak) r) (?sc x r) (?sc d r) (?sc c r) n = Inr ()" for r
    by (rule assert_equations_iff [OF assms(7), THEN iffD2, OF _ _ _ _ _ _ scaled]) (simp_all add: len kl pwl)
  have "\<exists>ct. cross_products pl [?sc a r, ?sc x r, ?sc d r, ?sc c r] [b, ak_h ak, ak_delta0 ak, ak_delta1 ak] = Inr ct" for r
    using cross_products_eq [OF assms(1), of "[?sc a r, ?sc x r, ?sc d r, ?sc c r]" n "[b, ak_h ak, ak_delta0 ak, ak_delta1 ak]"] len kl pwl by simp
  then obtain ct where ct: "cross_products pl [?sc a r, ?sc x r, ?sc d r, ?sc c r] [b, ak_h ak, ak_delta0 ak, ak_delta1 ak] = Inr (ct r)" for r
    by metis
  have batch: "batch_equation pl ak (?sc (ak_alpha ak) r) (ct r) = Inr True" for r
    using batch_equation_eq [where alpha = "?sc (ak_alpha ak) r", OF assms(1,7) _ len(2) ct] batch_of_equations [OF scaled] len kl pwl by simp
  let ?l = "\<lambda>s. combine (pl_smul1 pl) n a x d c s (s * s) (s * s * s)"
  let ?r = "\<lambda>t. combine (pl_smul2 pl) n b (ak_h ak) (ak_delta0 ak) (ak_delta1 ak) t (t * t) (t * t * t)"
  have lr: "length (?l s) = n" "length (?r s) = n" for s using len kl by simp_all
  have com: "cl a + cr b + ip_smul il s (cl (ak_s0 ak) + ip_smul il (inputs ! 0) (cl (ak_s1 ak)) + ip_smul il (inputs ! 1) (cl (ak_s2 ak)) + ip_smul il (inputs ! 2) (cl (ak_s3 ak)))
        + ip_smul il (s * s) (cl d) + ip_smul il (s * s * s) (cl c)
      + (ip_smul il t (cr (ak_h ak)) + ip_smul il (t * t) (cr (ak_delta0 ak)) + ip_smul il (t * t * t) (cr (ak_delta1 ak)))
      = cl (?l s) + cr (?r t)" for s t
    using linear_commitment_combine [where r = s and ?r2.0 = "s * s" and ?r3.0 = "s * s * s", OF cl len(1,5,4,3)]
      linear_commitment_combine [where r = t and ?r2.0 = "t * t" and ?r3.0 = "t * t * t", OF cr len(2) kl(6-8)]
      linear_commitment_prepared [OF cl assms(7)] kl by (simp add: abcdx(5) add_ac)
  obtain pf where pf: "ip_prove il \<lparr>in_size = n, in_output = twisted_product pl (?l s) (?r t) r, in_commitment = cl (?l s) + cr (?r t), in_twist = r\<rparr>
        \<lparr>wi_left = ?l s, wi_right = ?r t\<rparr> = Inr (pf s t r)"
      "ip_verify il \<lparr>in_size = n, in_output = twisted_product pl (?l s) (?r t) r, in_commitment = cl (?l s) + cr (?r t), in_twist = r\<rparr> (pf s t r) = Inr True"
    for s t r using arg [OF lr] by metis
  have idx: "vindex inputs 0 = Inr (inputs ! 0)" "vindex inputs 1 = Inr (inputs ! 1)" "vindex inputs 2 = Inr (inputs ! 2)"
    by (rule vindex_less, use assms(11) in linarith)+
  show ?thesis
    unfolding agg_subcircuit_proofs_def Let_def abcdx(1-3) [symmetric] ds assms(5) idx both [OF len(1,2)] left [OF len(3)] rbind_simps unwrap_res_Inr
      abcdx(5) [symmetric] first powers second ct batch key ensure_simps com tw [OF lr] pf
    by (simp add: case_prod_beta com tw [OF lr] pf)
qed

text \<open>The equation a verified proof satisfies.\<close>

lemma pairing_law_minus:
  assumes "pairing_law pl"
  shows "pl_pairing pl p (- q) = - pl_pairing pl p q"
proof -
  have add: "pl_pairing pl p (u + v) = pl_pairing pl p u + pl_pairing pl p v" for u v
    using assms by (simp add: pairing_law_def)
  from add [of 0 0] add [of q "- q"] show ?thesis by (simp add: eq_neg_iff_add_eq_0 add.commute)
qed

lemma verify_equation:
  assumes "pairing_law pl" "verify_proof pl (prepare_verifying_key pl vk) pf inputs = Inr True"
    and "length (pr_ds pf) = 1" "length (vk_deltas_h vk) = 2"
  obtains ic where "prepare_inputs pl (prepare_verifying_key pl vk) inputs = Inr ic"
    "pl_pairing pl (pr_a pf) (pr_b pf) = pl_pairing pl (vk_alpha_g vk) (vk_beta_h vk) + pl_pairing pl ic (vk_gamma_h vk)
       + pl_pairing pl (pr_ds pf ! 0) (vk_deltas_h vk ! 0) + pl_pairing pl (pr_c pf) (vk_deltas_h vk ! 1)"
proof -
  obtain ic where ic: "prepare_inputs pl (prepare_verifying_key pl vk) inputs = Inr ic"
    "verify_proof_with_prepared_inputs pl (prepare_verifying_key pl vk) pf ic = Inr True"
    using assms(2) by (auto simp: verify_proof_def rbind_Inr_iff)
  obtain d where d: "pr_ds pf = [d]" using assms(3) by (auto simp: length_Suc_conv)
  obtain e0 e1 where e: "vk_deltas_h vk = [e0, e1]" using assms(4) by (auto simp: length_Suc_conv numeral_2_eq_2)
  have "pl_final_exponentiation pl (pl_multi_miller_loop pl [pr_a pf, ic, d, pr_c pf] [pr_b pf, - vk_gamma_h vk, - e0, - e1])
      = Some (pl_pairing pl (pr_a pf) (pr_b pf) - pl_pairing pl ic (vk_gamma_h vk) - pl_pairing pl d e0 - pl_pairing pl (pr_c pf) e1)"
    using final_exponentiation_eq [OF assms(1), of "[pr_a pf, ic, d, pr_c pf]" "[pr_b pf, - vk_gamma_h vk, - e0, - e1]"]
    by (simp add: pairing_law_minus [OF assms(1)] lessThan_Suc)
  then show ?thesis using ic(2) that [OF ic(1)]
    by (simp add: verify_proof_with_prepared_inputs_def prepare_verifying_key_def d e algebra_simps)
qed

text \<open>The key that is made from proving keys of the right shape.\<close>

lemma agg_proving_key_new_eq:
  assumes "ipp_law pl il" "ip_supported_size il = n" "\<forall>i < n. fetch i = Inr (pks i)"
    and "\<forall>i < n. 4 \<le> length (vk_gamma_abc_g (pk_vk (pks i))) \<and> length (vk_deltas_h (pk_vk (pks i))) = 2"
  obtains ak where "agg_proving_key_new il fetch = Inr ak" "key_length n ak" "key_commitments il ak"
    "\<forall>i < n. ak_s0 ak ! i = vk_gamma_abc_g (pk_vk (pks i)) ! 0 \<and> ak_s1 ak ! i = vk_gamma_abc_g (pk_vk (pks i)) ! 1
       \<and> ak_s2 ak ! i = vk_gamma_abc_g (pk_vk (pks i)) ! 2 \<and> ak_s3 ak ! i = vk_gamma_abc_g (pk_vk (pks i)) ! 3
       \<and> ak_h ak ! i = vk_gamma_h (pk_vk (pks i)) \<and> ak_delta0 ak ! i = vk_deltas_h (pk_vk (pks i)) ! 0
       \<and> ak_delta1 ak ! i = vk_deltas_h (pk_vk (pks i)) ! 1 \<and> ak_alpha ak ! i = vk_alpha_g (pk_vk (pks i))
       \<and> ak_beta ak ! i = vk_beta_h (pk_vk (pks i))"
proof -
  obtain cl cr where left: "\<And>as. length as = n \<Longrightarrow> ip_commit_only_left il as = Inr (cl as)"
    and right: "\<And>bs. length bs = n \<Longrightarrow> ip_commit_only_right il bs = Inr (cr bs)"
    using assms(1) unfolding ipp_law_def assms(2) Let_def by blast
  let ?el = "\<lambda>i. let vk = pk_vk (pks i); g = vk_gamma_abc_g vk; e = vk_deltas_h vk in
      (g ! 0, g ! 1, g ! 2, g ! 3, vk_gamma_h vk, e ! 0, e ! 1, vk_alpha_g vk, vk_beta_h vk)"
  have crs: "rmap (\<lambda>i. rbind (fetch i) crs_elements) [0..<n] = Inr (map ?el [0..<n])"
  proof (rule rmap_total)
    fix i assume "i \<in> set [0..<n]"
    then have i: "i < n" by simp
    from assms(4) i have "0 < length (vk_gamma_abc_g (pk_vk (pks i)))" "1 < length (vk_gamma_abc_g (pk_vk (pks i)))"
      "2 < length (vk_gamma_abc_g (pk_vk (pks i)))" "3 < length (vk_gamma_abc_g (pk_vk (pks i)))"
      "0 < length (vk_deltas_h (pk_vk (pks i)))" "1 < length (vk_deltas_h (pk_vk (pks i)))" by fastforce+
    then show "rbind (fetch i) crs_elements = Inr (?el i)"
      unfolding crs_elements_def assms(3) [rule_format, OF i] by (simp only: vindex_less rbind_simps Let_def)
  qed
  show thesis
    by (rule that, unfold agg_proving_key_new_def assms(2) Let_def crs rbind_simps, simp add: left right, simp_all add: key_length_def key_commitments_def left right Let_def)
qed

lemma prepared_sum_eq:
  assumes "prepare_inputs pl (prepare_verifying_key pl vk) inputs = Inr ic" "3 \<le> length inputs"
  shows "length (vk_gamma_abc_g vk) = length inputs + 1"
    and "ic = fold (\<lambda>(input, base) g_ic. g_ic + pl_smul1 pl input base) (zip (drop 3 inputs) (drop 4 (vk_gamma_abc_g vk)))
       (vk_gamma_abc_g vk ! 0 + pl_smul1 pl (inputs ! 0) (vk_gamma_abc_g vk ! 1) + pl_smul1 pl (inputs ! 1) (vk_gamma_abc_g vk ! 2)
         + pl_smul1 pl (inputs ! 2) (vk_gamma_abc_g vk ! 3))"
proof -
  show len: "length (vk_gamma_abc_g vk) = length inputs + 1"
    using assms(1) by (auto simp: prepare_inputs_def prepare_verifying_key_def split: if_splits)
  obtain p0 p1 p2 ps where ps: "inputs = p0 # p1 # p2 # ps" using assms(2) by (auto simp: numeral_3_eq_3 Suc_le_length_iff)
  then obtain g0 g1 g2 g3 gs where gs: "vk_gamma_abc_g vk = g0 # g1 # g2 # g3 # gs"
    using len by (auto simp: length_Suc_conv)
  show "ic = fold (\<lambda>(input, base) g_ic. g_ic + pl_smul1 pl input base) (zip (drop 3 inputs) (drop 4 (vk_gamma_abc_g vk)))
       (vk_gamma_abc_g vk ! 0 + pl_smul1 pl (inputs ! 0) (vk_gamma_abc_g vk ! 1) + pl_smul1 pl (inputs ! 1) (vk_gamma_abc_g vk ! 2)
         + pl_smul1 pl (inputs ! 2) (vk_gamma_abc_g vk ! 3))"
    using assms(1) len unfolding prepare_inputs_def prepare_verifying_key_def
    by (simp add: ps gs numeral_3_eq_3 vindex_def vget_def eval_nat_numeral split: if_splits)
qed

text \<open>What a batch of verified proofs satisfies, with the part of the public input beyond the first three.\<close>

lemma verified_equation:
  assumes "pairing_law pl" "key_length n ak" "i < n" "length proofs = n" "3 \<le> length inputs"
    and ver: "verify_proof pl (prepare_verifying_key pl (pk_vk pk)) (proofs ! i) inputs = Inr True"
    and "length (pr_ds (proofs ! i)) = 1" "length (vk_deltas_h (pk_vk pk)) = 2"
    and ak: "ak_s0 ak ! i = vk_gamma_abc_g (pk_vk pk) ! 0 \<and> ak_s1 ak ! i = vk_gamma_abc_g (pk_vk pk) ! 1
       \<and> ak_s2 ak ! i = vk_gamma_abc_g (pk_vk pk) ! 2 \<and> ak_s3 ak ! i = vk_gamma_abc_g (pk_vk pk) ! 3
       \<and> ak_h ak ! i = vk_gamma_h (pk_vk pk) \<and> ak_delta0 ak ! i = vk_deltas_h (pk_vk pk) ! 0
       \<and> ak_delta1 ak ! i = vk_deltas_h (pk_vk pk) ! 1 \<and> ak_alpha ak ! i = vk_alpha_g (pk_vk pk)
       \<and> ak_beta ak ! i = vk_beta_h (pk_vk pk)"
  defines "rest \<equiv> \<Sum>(input, base) \<leftarrow> zip (drop 3 inputs) (drop 4 (vk_gamma_abc_g (pk_vk pk))). pl_smul1 pl input base"
  shows "equation_of pl ak (map pr_a proofs) (map pr_b proofs) (ak_alpha ak)
       (prepared_inputs (pl_smul1 pl) ak (inputs ! 0) (inputs ! 1) (inputs ! 2)) (map (\<lambda>p. pr_ds p ! 0) proofs) (map pr_c proofs) i
     \<longleftrightarrow> pl_pairing pl rest (ak_h ak ! i) = 0"
proof -
  obtain ic where ic: "prepare_inputs pl (prepare_verifying_key pl (pk_vk pk)) inputs = Inr ic"
    and eq: "pl_pairing pl (pr_a (proofs ! i)) (pr_b (proofs ! i)) = pl_pairing pl (vk_alpha_g (pk_vk pk)) (vk_beta_h (pk_vk pk))
       + pl_pairing pl ic (vk_gamma_h (pk_vk pk)) + pl_pairing pl (pr_ds (proofs ! i) ! 0) (vk_deltas_h (pk_vk pk) ! 0)
       + pl_pairing pl (pr_c (proofs ! i)) (vk_deltas_h (pk_vk pk) ! 1)"
    by (rule verify_equation [OF assms(1) ver assms(7,8)])
  have fold: "fold (\<lambda>(input, base) g_ic. g_ic + pl_smul1 pl input base) ps g = g + (\<Sum>(input, base) \<leftarrow> ps. pl_smul1 pl input base)" for ps g
    by (induction ps arbitrary: g) (auto simp: add.assoc)
  let ?x = "prepared_inputs (pl_smul1 pl) ak (inputs ! 0) (inputs ! 1) (inputs ! 2) ! i"
  have "ic = ?x + rest"
    using prepared_sum_eq(2) [OF ic assms(5)] ak unfolding fold rest_def prepared_inputs_nth [OF assms(2,3)] by simp
  moreover have "pl_pairing pl (?x + rest) q = pl_pairing pl ?x q + pl_pairing pl rest q" for q
    using assms(1) by (simp add: pairing_law_def)
  ultimately show ?thesis using eq ak assms(3,4) by (simp add: equation_of_def algebra_simps)
qed

text \<open> C8: honest proofs aggregate. If the proofs of all subcircuits verify under their own keys, for the
  three public inputs of a circuit with read-only portals, then the aggregation key is made and the aggregator passes all its
  assertions, the final verification of its own proof included, and returns a proof, whatever
  challenges the transcript gives. \<close>

theorem aggregation_complete:
  assumes "pairing_law pl" "target_law pl dl" "ipp_law pl il" "0 < n" "ip_supported_size il = n"
    and "\<And>i. i < n \<Longrightarrow> fetch i = Inr (pks i) \<and> length (vk_deltas_h (pk_vk (pks i))) = 2"
    and "length proofs = n" "length inputs = 3"
    and "\<And>i. i < n \<Longrightarrow> length (pr_ds (proofs ! i)) = 1
       \<and> verify_proof pl (prepare_verifying_key pl (pk_vk (pks i))) (proofs ! i) inputs = Inr True"
    and "ip_commit_only_left il (map (\<lambda>p. pr_ds p ! 0) proofs) = Inr super_com"
  shows "\<exists>ak pf. agg_proving_key_new il fetch = Inr ak \<and> agg_subcircuit_proofs pl il tr ak pt super_com proofs inputs = Inr pf"
proof -
  have three: "3 \<le> length inputs" using assms(8) by simp
  have gamma: "length (vk_gamma_abc_g (pk_vk (pks i))) = 4" if i: "i < n" for i
  proof -
    obtain ic where "prepare_inputs pl (prepare_verifying_key pl (pk_vk (pks i))) inputs = Inr ic"
      using assms(9) [OF i] by (auto simp: verify_proof_def rbind_Inr_iff)
    from prepared_sum_eq(1) [OF this three] show ?thesis using assms(8) by simp
  qed
  obtain ak where ak: "agg_proving_key_new il fetch = Inr ak" "key_length n ak" "key_commitments il ak"
    "\<forall>i < n. ak_s0 ak ! i = vk_gamma_abc_g (pk_vk (pks i)) ! 0 \<and> ak_s1 ak ! i = vk_gamma_abc_g (pk_vk (pks i)) ! 1
       \<and> ak_s2 ak ! i = vk_gamma_abc_g (pk_vk (pks i)) ! 2 \<and> ak_s3 ak ! i = vk_gamma_abc_g (pk_vk (pks i)) ! 3
       \<and> ak_h ak ! i = vk_gamma_h (pk_vk (pks i)) \<and> ak_delta0 ak ! i = vk_deltas_h (pk_vk (pks i)) ! 0
       \<and> ak_delta1 ak ! i = vk_deltas_h (pk_vk (pks i)) ! 1 \<and> ak_alpha ak ! i = vk_alpha_g (pk_vk (pks i))
       \<and> ak_beta ak ! i = vk_beta_h (pk_vk (pks i))"
    by (rule agg_proving_key_new_eq [OF assms(3,5), of fetch pks]) (simp_all add: assms(6) gamma)
  have zero: "pl_pairing pl 0 q = 0" for q using assms(1) unfolding pairing_law_def by (metis add_cancel_right_right)
  have eqs: "equation_of pl ak (map pr_a proofs) (map pr_b proofs) (ak_alpha ak)
       (prepared_inputs (pl_smul1 pl) ak (inputs ! 0) (inputs ! 1) (inputs ! 2)) (map (\<lambda>p. pr_ds p ! 0) proofs) (map pr_c proofs) i"
    if i: "i < n" for i
    using verified_equation [OF assms(1) ak(2) i assms(7) three, of "pks i"] assms(6,9) [OF i] ak(4) [rule_format, OF i] assms(8)
    by (simp add: zero)
  have ds: "\<forall>p \<in> set proofs. pr_ds p \<noteq> []" using assms(9) by (fastforce simp: in_set_conv_nth assms(7))
  have "\<exists>pf. agg_subcircuit_proofs pl il tr ak pt super_com proofs inputs = Inr pf"
    by (rule agg_returns [OF assms(1-4,7,5) ak(2,3) ds assms(10) three]) (intro allI impI eqs)
  then show ?thesis by (elim exE) (intro exI conjI, rule ak(1))
qed

text \<open> C32: aggregation leaves out public inputs. The aggregator reads three of them; a circuit with read-write
  portals has five, four challenges and a root. Take proofs that all verify under their own keys with more than
  three public inputs. If for some subcircuit the inputs beyond the third do not cancel in the pairing, the
  aggregator of a build with debug assertions fails: its check of the proofs, a debug assertion, does not hold. (A release
  build skips the check.) \<close>

theorem aggregation_drops_inputs:
  assumes "pairing_law pl" "ipp_law pl il" "ip_supported_size il = n"
    and "\<And>i. i < n \<Longrightarrow> fetch i = Inr (pks i) \<and> length (vk_deltas_h (pk_vk (pks i))) = 2"
    and "length proofs = n" "3 < length inputs"
    and "\<And>i. i < n \<Longrightarrow> length (pr_ds (proofs ! i)) = 1
       \<and> verify_proof pl (prepare_verifying_key pl (pk_vk (pks i))) (proofs ! i) inputs = Inr True"
    and "k < n" "pl_pairing pl (\<Sum>(input, base) \<leftarrow> zip (drop 3 inputs) (drop 4 (vk_gamma_abc_g (pk_vk (pks k)))). pl_smul1 pl input base)
       (vk_gamma_h (pk_vk (pks k))) \<noteq> 0"
  shows "\<exists>ak e. agg_proving_key_new il fetch = Inr ak \<and> agg_subcircuit_proofs pl il tr ak pt super_com proofs inputs = Inl e"
proof -
  have three: "3 \<le> length inputs" using assms(6) by simp
  have gamma: "length (vk_gamma_abc_g (pk_vk (pks i))) = length inputs + 1" if i: "i < n" for i
  proof -
    obtain ic where "prepare_inputs pl (prepare_verifying_key pl (pk_vk (pks i))) inputs = Inr ic"
      using assms(7) [OF i] by (auto simp: verify_proof_def rbind_Inr_iff)
    from prepared_sum_eq(1) [OF this three] show ?thesis .
  qed
  obtain ak where ak: "agg_proving_key_new il fetch = Inr ak" "key_length n ak"
    "\<forall>i < n. ak_s0 ak ! i = vk_gamma_abc_g (pk_vk (pks i)) ! 0 \<and> ak_s1 ak ! i = vk_gamma_abc_g (pk_vk (pks i)) ! 1
       \<and> ak_s2 ak ! i = vk_gamma_abc_g (pk_vk (pks i)) ! 2 \<and> ak_s3 ak ! i = vk_gamma_abc_g (pk_vk (pks i)) ! 3
       \<and> ak_h ak ! i = vk_gamma_h (pk_vk (pks i)) \<and> ak_delta0 ak ! i = vk_deltas_h (pk_vk (pks i)) ! 0
       \<and> ak_delta1 ak ! i = vk_deltas_h (pk_vk (pks i)) ! 1 \<and> ak_alpha ak ! i = vk_alpha_g (pk_vk (pks i))
       \<and> ak_beta ak ! i = vk_beta_h (pk_vk (pks i))"
    by (rule agg_proving_key_new_eq [OF assms(2,3), of fetch pks]) (use three in \<open>simp_all add: assms(4) gamma\<close>)
  let ?x = "prepared_inputs (pl_smul1 pl) ak (inputs ! 0) (inputs ! 1) (inputs ! 2)"
  have "ak_h ak ! k = vk_gamma_h (pk_vk (pks k))" using ak(3) assms(8) by blast
  then have "\<not> equation_of pl ak (map pr_a proofs) (map pr_b proofs) (ak_alpha ak) ?x (map (\<lambda>p. pr_ds p ! 0) proofs) (map pr_c proofs) k"
    using verified_equation [OF assms(1) ak(2) assms(8,5) three, of "pks k"] assms(4,7) [OF assms(8)] ak(3) [rule_format, OF assms(8)] assms(9)
    by simp
  then have "assert_equations pl ak (map pr_a proofs) (map pr_b proofs) (ak_alpha ak) ?x (map (\<lambda>p. pr_ds p ! 0) proofs) (map pr_c proofs) n \<noteq> Inr ()"
    using assert_equations_iff [where pl = pl, OF ak(2)] key_lengthD [OF ak(2)] assms(5,8) by (auto simp: ak(2))
  moreover have "rmap (\<lambda>p. vindex (pr_ds p) 0) proofs = Inr (map (\<lambda>p. pr_ds p ! 0) proofs)"
  proof (rule rmap_total)
    fix q assume "q \<in> set proofs"
    then have "length (pr_ds q) = 1" using assms(5,7) by (auto simp: in_set_conv_nth)
    then show "vindex (pr_ds q) 0 = Inr (pr_ds q ! 0)" by simp
  qed
  ultimately have "agg_subcircuit_proofs pl il tr ak pt super_com proofs inputs \<noteq> Inr pf" for pf
    unfolding agg_subcircuit_proofs_def Let_def by (auto simp: rbind_Inr_iff vindex_Inr_iff assms(5))
  then show ?thesis using ak(1) by (metis sum.exhaust)
qed

section \<open>The batched equation catches a bad proof\<close>

text \<open>Roots of a polynomial with a coefficient that is not zero.\<close>

fun synthetic_division :: "'a::idom \<Rightarrow> 'a list \<Rightarrow> 'a list" where
  "synthetic_division r [] = []"
| "synthetic_division r [a] = []"
| "synthetic_division r (a # b # p) = horner (b # p) r # synthetic_division r (b # p)"

lemma synthetic_division_eq: "horner p t - horner p r = (t - r) * horner (synthetic_division r p) t"
proof (induction r p rule: synthetic_division.induct)
  case (3 r a b p)
  have "horner (a # b # p) t - horner (a # b # p) r = t * (horner (b # p) t - horner (b # p) r) + (t - r) * horner (b # p) r"
    by (simp add: algebra_simps)
  also have "\<dots> = (t - r) * (horner (b # p) r + t * horner (synthetic_division r (b # p)) t)"
    unfolding 3 by (simp only: ring_distribs mult_ac add_ac)
  finally show ?case by (simp only: synthetic_division.simps(3) horner.simps(2))
qed simp_all

lemma length_synthetic_division: "length (synthetic_division r p) = length p - 1"
  by (induction r p rule: synthetic_division.induct) simp_all

lemma synthetic_division_zero:
  "\<forall>c \<in> set (synthetic_division r p). c = 0 \<Longrightarrow> horner p r = 0 \<Longrightarrow> \<forall>c \<in> set p. c = 0"
  by (induction r p rule: synthetic_division.induct) auto

lemma horner_roots_coefficient:
  "\<exists>c \<in> set p. c \<noteq> 0 \<Longrightarrow> finite {t. horner p t = 0} \<and> card {t. horner p t = 0} < length p"
proof (induction "length p" arbitrary: p)
  case (Suc n)
  show ?case
  proof (cases "\<exists>r. horner p r = 0")
    case True
    then obtain r where r: "horner p r = 0" by blast
    let ?q = "synthetic_division r p"
    have q: "\<exists>c \<in> set ?q. c \<noteq> 0" using synthetic_division_zero [of r p] Suc.prems r by blast
    have len: "length ?q = n" using Suc.hyps(2) by (simp add: length_synthetic_division)
    have fin: "finite {t. horner ?q t = 0}" "card {t. horner ?q t = 0} < n"
      using Suc.hyps(1) [OF len [symmetric] q] by (simp_all add: len)
    have roots: "{t. horner p t = 0} = insert r {t. horner ?q t = 0}"
      using synthetic_division_eq [of p _ r] by (auto simp: r)
    have "card (insert r {t. horner ?q t = 0}) \<le> Suc (card {t. horner ?q t = 0})" by (rule card_insert_le_m1) simp_all
    with fin Suc.hyps(2) show ?thesis by (simp add: roots)
  qed (use Suc.prems in \<open>cases p; simp\<close>)
qed simp

lemma horner_upt: "horner (map f [0..<n]) r = (\<Sum>i<n. r ^ i * f i)"
proof (induction n arbitrary: f)
  case (Suc n)
  have "map f [0..<Suc n] = f 0 # map (\<lambda>i. f (Suc i)) [0..<n]" by (simp only: upt_conv_Cons map_Suc_upt [symmetric]) simp
  then have "horner (map f [0..<Suc n]) r = f 0 + r * (\<Sum>i<n. r ^ i * f (Suc i))" by (simp only: horner.simps Suc)
  then show ?case by (simp add: sum.lessThan_Suc_shift sum_distrib_left mult.assoc del: sum.lessThan_Suc upt_Suc)
qed simp

definition batch_accepts ::
    "('f::field, 'g1::ab_group_add, 'g2::ab_group_add, 'gt::ab_group_add, 'ml) pairing_lib \<Rightarrow> ('g1, 'g2, 'com) agg_proving_key
      \<Rightarrow> 'g1 list \<Rightarrow> 'g2 list \<Rightarrow> 'g1 list \<Rightarrow> 'g1 list \<Rightarrow> 'g1 list \<Rightarrow> 'f \<Rightarrow> bool" where
  "batch_accepts pl ak a b x d c r \<longleftrightarrow>
     rbind (structured_scalar_power (length a) r) (\<lambda>pw.
     rbind (cross_products pl (map (\<lambda>v. scalar_pairing (pl_smul1 pl) v pw) [a, x, d, c]) [b, ak_h ak, ak_delta0 ak, ak_delta1 ak]) (\<lambda>ct.
       batch_equation pl ak (scalar_pairing (pl_smul1 pl) (ak_alpha ak) pw) ct)) = Inr True"

lemma target_law_zero: "target_law pl dl \<Longrightarrow> dl 0 = 0"
  unfolding target_law_def by (metis add_cancel_right_right)

lemma target_law_sum:
  assumes "target_law pl dl"
  shows "dl (\<Sum>i\<in>A. f i) = (\<Sum>i\<in>A. dl (f i))"
  using assms target_law_zero [OF assms] by (induction A rule: infinite_finite_induct) (simp_all add: target_law_def)

lemma batch_of_scaled:
  fixes b :: "'g2::ab_group_add list"
  assumes "target_law pl dl" "key_length n ak" "length a = n" "length x = n" "length d = n" "length c = n"
  defines "err i \<equiv> dl (pl_pairing pl (a ! i) (b ! i)) - (dl (pl_pairing pl (ak_alpha ak ! i) (ak_beta ak ! i)) + dl (pl_pairing pl (x ! i) (ak_h ak ! i))
     + dl (pl_pairing pl (d ! i) (ak_delta0 ak ! i)) + dl (pl_pairing pl (c ! i) (ak_delta1 ak ! i)))"
    and "sc v r \<equiv> scalar_pairing (pl_smul1 pl) v (map ((^) r) [0..<n])"
  shows "batch_of pl ak (sc a r) b (sc (ak_alpha ak) r) (sc x r) (sc d r) (sc c r) n \<longleftrightarrow> horner (map err [0..<n]) r = 0"
proof -
  note kl = key_lengthD [OF assms(2)]
  have inj: "inj dl" and add: "\<And>u v. dl (u + v) = dl u + dl v"
    and smul: "\<And>y p q. dl (pl_pairing pl (pl_smul1 pl y p) q) = y * dl (pl_pairing pl p q)"
    using assms(1) by (simp_all add: target_law_def)
  have scaled: "dl (\<Sum>i<n. pl_pairing pl (sc v r ! i) (w ! i)) = (\<Sum>i<n. r ^ i * dl (pl_pairing pl (v ! i) (w ! i)))" if "length v = n" for v w
    unfolding target_law_sum [OF assms(1)] by (intro sum.cong refl) (simp add: sc_def smul that)
  have "batch_of pl ak (sc a r) b (sc (ak_alpha ak) r) (sc x r) (sc d r) (sc c r) n
      \<longleftrightarrow> dl (\<Sum>i<n. pl_pairing pl (sc a r ! i) (b ! i)) = dl ((\<Sum>i<n. pl_pairing pl (sc (ak_alpha ak) r ! i) (ak_beta ak ! i))
        + (\<Sum>i<n. pl_pairing pl (sc x r ! i) (ak_h ak ! i)) + (\<Sum>i<n. pl_pairing pl (sc d r ! i) (ak_delta0 ak ! i))
        + (\<Sum>i<n. pl_pairing pl (sc c r ! i) (ak_delta1 ak ! i)))"
    unfolding batch_of_def by (rule inj_eq [OF inj, symmetric])
  also have "\<dots> \<longleftrightarrow> (\<Sum>i<n. r ^ i * dl (pl_pairing pl (a ! i) (b ! i)))
        = (\<Sum>i<n. r ^ i * dl (pl_pairing pl (ak_alpha ak ! i) (ak_beta ak ! i))) + (\<Sum>i<n. r ^ i * dl (pl_pairing pl (x ! i) (ak_h ak ! i)))
          + (\<Sum>i<n. r ^ i * dl (pl_pairing pl (d ! i) (ak_delta0 ak ! i))) + (\<Sum>i<n. r ^ i * dl (pl_pairing pl (c ! i) (ak_delta1 ak ! i)))"
    by (simp only: add scaled assms(3-6) kl)
  also have "\<dots> \<longleftrightarrow> (\<Sum>i<n. r ^ i * err i) = 0"
    by (simp add: err_def right_diff_distrib distrib_left sum_subtractf sum.distrib)
  finally show ?thesis by (simp add: horner_upt)
qed

text \<open> C9: the random linear combination of the proofs is sound. If the equation of one proof of the
  batch fails, then the batched equation that the aggregator checks holds for fewer twists than there are proofs. \<close>

theorem batch_check_sound:
  assumes "pairing_law pl" "target_law pl dl" "key_length n ak"
    and "length a = n" "length b = n" "length x = n" "length d = n" "length c = n"
    and "i < n" "equation_at pl ak a b (ak_alpha ak) x d c i = Inr False"
  shows "finite {r. batch_accepts pl ak a b x d c r} \<and> card {r. batch_accepts pl ak a b x d c r} < n"
proof -
  note kl = key_lengthD [OF assms(3)]
  let ?err = "\<lambda>i. dl (pl_pairing pl (a ! i) (b ! i)) - (dl (pl_pairing pl (ak_alpha ak ! i) (ak_beta ak ! i)) + dl (pl_pairing pl (x ! i) (ak_h ak ! i))
     + dl (pl_pairing pl (d ! i) (ak_delta0 ak ! i)) + dl (pl_pairing pl (c ! i) (ak_delta1 ak ! i)))"
  have inj: "inj dl" and add: "\<And>u v. dl (u + v) = dl u + dl v" using assms(2) by (simp_all add: target_law_def)
  have iff: "batch_accepts pl ak a b x d c r \<longleftrightarrow> horner (map ?err [0..<n]) r = 0" for r
  proof -
    let ?sc = "\<lambda>v. scalar_pairing (pl_smul1 pl) v (map ((^) r) [0..<n])"
    have pw: "structured_scalar_power n r = Inr (map ((^) r) [0..<n])" by (rule structured_scalar_power_eq) (use assms(9) in simp)
    obtain ct where ct: "cross_products pl [?sc a, ?sc x, ?sc d, ?sc c] [b, ak_h ak, ak_delta0 ak, ak_delta1 ak] = Inr ct"
      by (rule cross_products_returns [OF assms(1), where n = n and lefts = "[?sc a, ?sc x, ?sc d, ?sc c]" and rights = "[b, ak_h ak, ak_delta0 ak, ak_delta1 ak]"])
        (auto simp: assms(4-8) kl)
    have "batch_equation pl ak (?sc (ak_alpha ak)) ct
        = Inr (batch_of pl ak (?sc a) b (?sc (ak_alpha ak)) (?sc x) (?sc d) (?sc c) n)"
      by (rule batch_equation_eq [OF assms(1,3) _ assms(5) ct]) (simp add: assms(4-8) kl)
    then have "batch_accepts pl ak a b x d c r \<longleftrightarrow> batch_of pl ak (?sc a) b (?sc (ak_alpha ak)) (?sc x) (?sc d) (?sc c) n"
      unfolding batch_accepts_def assms(4) pw rbind_simps list.map ct by simp
    then show ?thesis using batch_of_scaled [OF assms(2,3,4,6-8)] by simp
  qed
  have "\<not> equation_of pl ak a b (ak_alpha ak) x d c i"
    using equation_at_eq [where pl = pl, OF assms(3-5) kl(5) assms(6-9)] assms(10) by simp
  then have "?err i \<noteq> 0" by (simp add: equation_of_def add [symmetric] inj_eq [OF inj])
  then have "\<exists>e \<in> set (map ?err [0..<n]). e \<noteq> 0" using assms(9) by auto
  from horner_roots_coefficient [OF this] show ?thesis by (simp add: iff)
qed

section \<open>The cross terms determine the output of the aggregated instance\<close>

lemma sum_rotate: "(\<Sum>i\<in>A. \<Sum>j\<in>B. \<Sum>k\<in>C. f i j k) = (\<Sum>j\<in>B. \<Sum>k\<in>C. \<Sum>i\<in>A. f i j k)"
proof -
  have "(\<Sum>i\<in>A. \<Sum>j\<in>B. \<Sum>k\<in>C. f i j k) = (\<Sum>j\<in>B. \<Sum>i\<in>A. \<Sum>k\<in>C. f i j k)" by (rule sum.swap)
  also have "\<dots> = (\<Sum>j\<in>B. \<Sum>k\<in>C. \<Sum>i\<in>A. f i j k)" by (intro sum.cong refl sum.swap)
  finally show ?thesis .
qed

text \<open> the inner product that the aggregated argument proves is the combination, by the powers of the two
  last challenges, of the cross terms that went into the transcript before these challenges were drawn. \<close>

theorem cross_terms_determine_output:
  assumes "pairing_law pl" "target_law pl dl" "key_length n ak" "0 < n"
    and "length a = n" "length b = n" "length x = n" "length d = n" "length c = n"
    and "structured_scalar_power n r = Inr pw"
    and "cross_products pl (map (\<lambda>v. scalar_pairing (pl_smul1 pl) v pw) [a, x, d, c]) [b, ak_h ak, ak_delta0 ak, ak_delta1 ak] = Inr ct"
  shows "dl (twisted_product pl (combine (pl_smul1 pl) n a x d c s (s * s) (s * s * s))
      (combine (pl_smul2 pl) n b (ak_h ak) (ak_delta0 ak) (ak_delta1 ak) t (t * t) (t * t * t)) r)
    = (\<Sum>j<4. \<Sum>k<4. s ^ j * t ^ k * dl (ct ! j ! k))"
proof -
  note kl = key_lengthD [OF assms(3)]
  have add: "\<And>u v. dl (u + v) = dl u + dl v"
    and smul: "\<And>y p q. dl (pl_pairing pl (pl_smul1 pl y p) q) = y * dl (pl_pairing pl p q)"
    using assms(2) by (simp_all add: target_law_def)
  have add1: "pl_pairing pl (p + p') q = pl_pairing pl p q + pl_pairing pl p' q"
    and add2: "pl_pairing pl p (q + q') = pl_pairing pl p q + pl_pairing pl p q'"
    and smul2: "pl_pairing pl p (pl_smul2 pl y q) = pl_pairing pl (pl_smul1 pl y p) q" for p p' q q' y
    using assms(1) by (simp_all add: pairing_law_def)
  define E where "E p q = dl (pl_pairing pl p q)" for p q
  have E: "E (p + p') q = E p q + E p' q" "E p (q + q') = E p q + E p q'"
    "E (pl_smul1 pl y p) q = y * E p q" "E p (pl_smul2 pl y q) = y * E p q" for p p' q q' y
    by (simp_all only: E_def add1 add2 smul2 smul add)
  have pw: "pw = map ((^) r) [0..<n]" using assms(10) structured_scalar_power_eq [OF assms(4), of r] by simp
  let ?L = "[a, x, d, c]" and ?R = "[b, ak_h ak, ak_delta0 ak, ak_delta1 ak]"
  have ct: "ct = map (\<lambda>l. map (\<lambda>w. \<Sum>i<n. pl_pairing pl (l ! i) (w ! i)) ?R) (map (\<lambda>v. scalar_pairing (pl_smul1 pl) v pw) ?L)"
    by (rule Inr_inject, rule trans [OF assms(11) [symmetric]], rule cross_products_eq [OF assms(1)]) (auto simp: assms(5-9) kl pw)
  have term_jk: "dl (ct ! j ! k) = (\<Sum>i<n. r ^ i * E (?L ! j ! i) (?R ! k ! i))" if "j < 4" "k < 4" for j k
  proof -
    have "ct ! j ! k = (\<Sum>i<n. pl_pairing pl (scalar_pairing (pl_smul1 pl) (?L ! j) pw ! i) (?R ! k ! i))"
      using that unfolding ct by (subst nth_map) (simp_all del: list.map)
    moreover have "length (?L ! j) = n" using that assms(5,7-9) by (auto simp: numeral_eq_Suc less_Suc_eq)
    ultimately show ?thesis by (simp add: pw smul E_def target_law_sum [OF assms(2)])
  qed
  have "dl (twisted_product pl (combine (pl_smul1 pl) n a x d c s (s * s) (s * s * s))
      (combine (pl_smul2 pl) n b (ak_h ak) (ak_delta0 ak) (ak_delta1 ak) t (t * t) (t * t * t)) r)
    = (\<Sum>i<n. r ^ i * E (a ! i + pl_smul1 pl s (x ! i) + pl_smul1 pl (s * s) (d ! i) + pl_smul1 pl (s * s * s) (c ! i))
        (b ! i + pl_smul2 pl t (ak_h ak ! i) + pl_smul2 pl (t * t) (ak_delta0 ak ! i) + pl_smul2 pl (t * t * t) (ak_delta1 ak ! i)))"
    unfolding twisted_product_def target_law_sum [OF assms(2)] by (simp add: assms(5-9) kl smul E_def)
  also have "\<dots> = (\<Sum>i<n. \<Sum>j<4. \<Sum>k<4. s ^ j * t ^ k * (r ^ i * E (?L ! j ! i) (?R ! k ! i)))"
  proof (intro sum.cong refl)
    fix i
    show "r ^ i * E (a ! i + pl_smul1 pl s (x ! i) + pl_smul1 pl (s * s) (d ! i) + pl_smul1 pl (s * s * s) (c ! i))
        (b ! i + pl_smul2 pl t (ak_h ak ! i) + pl_smul2 pl (t * t) (ak_delta0 ak ! i) + pl_smul2 pl (t * t * t) (ak_delta1 ak ! i))
      = (\<Sum>j<4. \<Sum>k<4. s ^ j * t ^ k * (r ^ i * E (?L ! j ! i) (?R ! k ! i)))"
      by (simp only: E) (simp add: numeral_eq_Suc algebra_simps)
  qed
  also have "\<dots> = (\<Sum>j<4. \<Sum>k<4. s ^ j * t ^ k * (\<Sum>i<n. r ^ i * E (?L ! j ! i) (?R ! k ! i)))"
    unfolding sum_distrib_left by (rule sum_rotate)
  also have "\<dots> = (\<Sum>j<4. \<Sum>k<4. s ^ j * t ^ k * dl (ct ! j ! k))"
    by (intro sum.cong refl) (simp add: term_jk)
  finally show ?thesis .
qed

section \<open>A concrete batch\<close>

text \<open>
  Groups of rationals with multiplication as pairing; vectors are committed to by their sums, and a proof of
  the argument is its witness.
\<close>

definition toy_ipp :: "nat \<Rightarrow> (rat, rat, rat, rat, rat, (rat, rat) ipp_witness) ipp_lib" where
  "toy_ipp n = \<lparr>ip_supported_size = n, ip_commit_only_left = (\<lambda>as. Inr (sum_list as)), ip_commit_only_right = (\<lambda>bs. Inr (sum_list bs)),
     ip_commit_with_ip = (\<lambda>as bs. Inr (sum_list as + sum_list bs)), ip_smul = (*),
     ip_twisted_inner_product = (\<lambda>as bs r. Inr (twisted_product groth_toy_pairing as bs r)),
     ip_prove = (\<lambda>inst w. Inr w),
     ip_verify = (\<lambda>inst w. Inr (in_commitment inst = sum_list (wi_left w) + sum_list (wi_right w)
        \<and> in_output inst = twisted_product groth_toy_pairing (wi_left w) (wi_right w) (in_twist inst)))\<rparr>"

definition toy_transcript :: "(rat, rat, rat, nat) transcript_lib" where
  "toy_transcript = \<lparr>tl_append_message = (\<lambda>label bytes t. t + length label + length bytes),
     tl_challenge_bytes = (\<lambda>label t. ([of_nat t], t + 1)), tl_rand_from_seed = (\<lambda>bs. of_nat (bytes_val bs)),
     tl_ser_com = (\<lambda>_. [1]), tl_ser_cross = (\<lambda>_. [2, 3])\<rparr>"

definition toy_agg_pk :: "rat list \<Rightarrow> nat \<Rightarrow> (rat, rat) proving_key" where
  "toy_agg_pk gamma_abc i = \<lparr>pk_vk = \<lparr>vk_alpha_g = 1, vk_beta_h = of_nat (i + 1), vk_gamma_h = 1, vk_last_delta_h = 1,
       vk_gamma_abc_g = gamma_abc, vk_deltas_h = [1, 1]\<rparr>,
     pk_beta_g = 0, pk_a_g = [], pk_b_g = [], pk_b_h = [], pk_h_g = [], pk_ck = \<lparr>ck_last_delta_g = 0, ck_deltas_abc_g = []\<rparr>, pk_deltas_g = []\<rparr>"

lemma toy_target_law: "target_law groth_toy_pairing id"
  by (simp add: target_law_def groth_toy_pairing_def)

lemma sum_list_linear: "linear_commitment n (*) (*) (sum_list :: rat list \<Rightarrow> rat)"
proof -
  have "sum_list (map2 (+) xs ys) = sum_list xs + sum_list ys" if "length xs = length ys" for xs ys :: "rat list"
    using that by (induction xs ys rule: list_induct2) simp_all
  moreover have "sum_list (map ((*) x) xs) = x * sum_list xs" for x and xs :: "rat list"
    by (induction xs) (simp_all add: distrib_left)
  ultimately show ?thesis by (simp add: linear_commitment_def)
qed

lemma toy_ipp_law: "ipp_law groth_toy_pairing (toy_ipp n)"
  unfolding ipp_law_def Let_def
  by (rule exI [of _ sum_list], rule exI [of _ sum_list])
    (simp add: toy_ipp_def sum_list_linear groth_toy_pairing_def)

definition toy_agg_proofs :: "rat \<Rightarrow> (rat, rat) cp_proof list" where
  "toy_agg_proofs input = [\<lparr>pr_a = input + 4, pr_b = 1, pr_c = 2, pr_ds = [1]\<rparr>, \<lparr>pr_a = input + 10, pr_b = 1, pr_c = 3, pr_ds = [5]\<rparr>]"

lemmas toy_agg_defs = toy_agg_pk_def toy_agg_proofs_def verify_proof_def prepare_inputs_def verify_proof_with_prepared_inputs_def
  prepare_verifying_key_def groth_toy_pairing_def vindex_def vget_def

theorem aggregation_complete_witness:
  "\<exists>ak pf. agg_proving_key_new (toy_ipp 2) (\<lambda>i. Inr (toy_agg_pk [1, 1, 1, 1] i)) = Inr ak
     \<and> agg_subcircuit_proofs groth_toy_pairing (toy_ipp 2) toy_transcript ak 0 6 (toy_agg_proofs 10) [2, 3, 4] = Inr pf"
proof (rule aggregation_complete [OF groth_toy_pairing_law toy_target_law toy_ipp_law])
  fix i :: nat
  assume "i < 2"
  then have "i = 0 \<or> i = 1" by auto
  then show "length (pr_ds (toy_agg_proofs 10 ! i)) = 1
      \<and> verify_proof groth_toy_pairing (prepare_verifying_key groth_toy_pairing (pk_vk (toy_agg_pk [1, 1, 1, 1] i))) (toy_agg_proofs 10 ! i) [2, 3, 4] = Inr True"
    by (elim disjE) (simp_all add: toy_agg_defs)
qed (simp_all add: toy_ipp_def toy_agg_pk_def toy_agg_proofs_def)

theorem aggregation_drops_inputs_witness:
  "\<exists>ak e. agg_proving_key_new (toy_ipp 2) (\<lambda>i. Inr (toy_agg_pk [1, 1, 1, 1, 1, 1] i)) = Inr ak
     \<and> agg_subcircuit_proofs groth_toy_pairing (toy_ipp 2) toy_transcript ak 0 6 (toy_agg_proofs 21) [2, 3, 4, 5, 6] = Inl e"
proof (rule aggregation_drops_inputs [OF groth_toy_pairing_law toy_ipp_law, where k = 0])
  fix i :: nat
  assume "i < 2"
  then have "i = 0 \<or> i = 1" by auto
  then show "length (pr_ds (toy_agg_proofs 21 ! i)) = 1
      \<and> verify_proof groth_toy_pairing (prepare_verifying_key groth_toy_pairing (pk_vk (toy_agg_pk [1, 1, 1, 1, 1, 1] i))) (toy_agg_proofs 21 ! i) [2, 3, 4, 5, 6] = Inr True"
    by (elim disjE) (simp_all add: toy_agg_defs)
qed (simp_all add: toy_ipp_def toy_agg_pk_def toy_agg_proofs_def groth_toy_pairing_def)

definition toy_agg_key :: "(rat, rat, rat) agg_proving_key" where
  "toy_agg_key = \<lparr>ak_s0 = [1, 1], ak_s1 = [1, 1], ak_s2 = [1, 1], ak_s3 = [1, 1], ak_com_s0 = 2, ak_com_s1 = 2, ak_com_s2 = 2, ak_com_s3 = 2,
     ak_h = [1, 1], ak_com_h = 2, ak_delta0 = [1, 1], ak_delta1 = [1, 1], ak_com_delta0 = 2, ak_com_delta1 = 2,
     ak_alpha = [1, 1], ak_beta = [1, 2]\<rparr>"

theorem batch_check_sound_witness:
  "equation_at groth_toy_pairing toy_agg_key [14, 21] [1, 1] (ak_alpha toy_agg_key) [10, 10] [1, 5] [2, 3] 1 = Inr False
     \<and> card {r. batch_accepts groth_toy_pairing toy_agg_key [14, 21] [1, 1] [10, 10] [1, 5] [2, 3] r} < 2"
proof -
  have "equation_at groth_toy_pairing toy_agg_key [14, 21] [1, 1] (ak_alpha toy_agg_key) [10, 10] [1, 5] [2, 3] 1 = Inr False"
    by (simp add: equation_at_def toy_agg_key_def groth_toy_pairing_def vindex_def vget_def)
  with batch_check_sound [OF groth_toy_pairing_law toy_target_law _ _ _ _ _ _ _ this, of 2] show ?thesis
    by (simp add: key_length_def toy_agg_key_def)
qed

theorem cross_terms_determine_output_witness:
  "\<exists>pw ct. structured_scalar_power 2 7 = Inr pw
     \<and> cross_products groth_toy_pairing (map (\<lambda>v. scalar_pairing (pl_smul1 groth_toy_pairing) v pw) [[14, 20], [10, 10], [1, 5], [2, 3]])
         [[1, 1], ak_h toy_agg_key, ak_delta0 toy_agg_key, ak_delta1 toy_agg_key] = Inr ct
     \<and> twisted_product groth_toy_pairing (combine (pl_smul1 groth_toy_pairing) 2 [14, 20] [10, 10] [1, 5] [2, 3] 3 (3 * 3) (3 * 3 * 3))
         (combine (pl_smul2 groth_toy_pairing) 2 [1, 1] (ak_h toy_agg_key) (ak_delta0 toy_agg_key) (ak_delta1 toy_agg_key) 5 (5 * 5) (5 * 5 * 5)) 7
       = (\<Sum>j<4. \<Sum>k<4. 3 ^ j * 5 ^ k * (ct ! j ! k))"
proof -
  obtain pw :: "rat list" where pw: "structured_scalar_power 2 7 = Inr pw" and len: "length pw = 2"
    using structured_scalar_power_eq [of 2 "7 :: rat"] by auto
  have key: "key_length 2 toy_agg_key" by (simp add: key_length_def toy_agg_key_def)
  obtain ct where ct: "cross_products groth_toy_pairing (map (\<lambda>v. scalar_pairing (pl_smul1 groth_toy_pairing) v pw) [[14, 20], [10, 10], [1, 5], [2, 3]])
         [[1, 1], ak_h toy_agg_key, ak_delta0 toy_agg_key, ak_delta1 toy_agg_key] = Inr ct"
    by (rule cross_products_returns [OF groth_toy_pairing_law, where n = 2]) (auto simp: len toy_agg_key_def)
  show ?thesis
    using cross_terms_determine_output [OF groth_toy_pairing_law toy_target_law key _ _ _ _ _ _ pw ct, of 3 5] pw ct by auto
qed

end
