(* ===== verification/Driver_Correct.thy ===== *)
theory Driver_Correct
  imports Driver Vm Aggregation_Correct
begin

text \<open>
  The run of all processes computes what the coordinator's and the worker's functions compute one after the
  other, whatever the numbers of processes and threads; on honest circuits it ends with satisfied constraint systems.
\<close>

section \<open>Chunks\<close>

lemma chunks_list_all2:
  assumes "0 < n" "list_all2 P xs ys"
  shows "list_all2 (list_all2 P) (chunks n xs) (chunks n ys)"
  using assms(2)
proof (induction n xs arbitrary: ys rule: chunks.induct)
  case (1 n xs)
  show ?case
  proof (cases "n = 0 \<or> xs = []")
    case True
    with 1 show ?thesis by (auto simp: chunks.simps)
  next
    case False
    then have "ys \<noteq> []" using 1 by auto
    with False 1 show ?thesis by (simp add: chunks_unfold list_all2_takeI list_all2_dropI)
  qed
qed

lemma chunks_zip:
  "length xs = length ys \<Longrightarrow> chunks n (zip xs ys) = map (\<lambda>(a, b). zip a b) (zip (chunks n xs) (chunks n ys))"
proof (induction n xs arbitrary: ys rule: chunks.induct)
  case (1 n xs)
  show ?case
  proof (cases "n = 0 \<or> xs = []")
    case True
    with 1 show ?thesis by (auto simp: chunks.simps)
  next
    case False
    then have "ys \<noteq> []" using 1 by auto
    with False 1 show ?thesis by (simp add: chunks_unfold take_zip drop_zip)
  qed
qed

lemma chunks_exact:
  assumes "0 < n" "length xs = w * n"
  shows "length (chunks n xs) = w" "k < w \<Longrightarrow> length (chunks n xs ! k) = n"
proof -
  have "length (chunks n xs) = w \<and> (\<forall>c \<in> set (chunks n xs). length c = n)"
    using assms(2)
  proof (induction w arbitrary: xs)
    case (Suc w)
    with assms(1) have "xs \<noteq> []" by auto
    then have unfold: "chunks n xs = take n xs # chunks n (drop n xs)" by (rule chunks_unfold [OF assms(1)])
    have "length (drop n xs) = w * n" "length (take n xs) = n" using Suc.prems by simp_all
    from Suc.IH [OF this(1)] this(2) show ?case unfolding unfold by simp
  qed simp
  then show "length (chunks n xs) = w" "k < w \<Longrightarrow> length (chunks n xs ! k) = n" by simp_all
qed

lemma rbind_right_unit: "rbind m Inr = m"
  by (cases m) simp_all

lemma rmap_concat: "rbind (rmap (rmap f) xss) (\<lambda>yss. Inr (concat yss)) = rmap f (concat xss)"
proof (induction xss)
  case (Cons xs xss)
  have append: "rmap f (xs @ zs) = rbind (rmap f xs) (\<lambda>us. rbind (rmap f zs) (\<lambda>vs. Inr (us @ vs)))" for xs zs
    by (induction xs) (simp_all add: rbind_assoc rbind_right_unit)
  show ?case by (simp add: append Cons.IH [symmetric] rbind_assoc)
qed simp

lemma rmap_list_all2: "rmap f xs = Inr ys \<longleftrightarrow> list_all2 (\<lambda>x y. f x = Inr y) xs ys"
  by (induction xs arbitrary: ys) (auto simp: rbind_Inr_iff list_all2_Cons1)

section \<open>Threads\<close>

lemma pool_and_chunk_size_pos:
  assumes "0 < num_threads" "0 < num_requests"
  obtains p c where "pool_and_chunk_size num_threads num_requests = Inr (p, c)" "0 < c"
  using assms by (cases "num_threads > num_requests"; cases "num_requests \<ge> num_threads")
    (auto simp: pool_and_chunk_size_def udiv_def div_greater_zero_iff)

text \<open>The threads process the requests as one loop would.\<close>

lemma compute_responses_eq:
  assumes "0 < num_threads" "requests \<noteq> []" "length states = length requests"
  shows "compute_responses num_threads requests states f = rmap (\<lambda>(req, state). f req state) (zip requests states)"
proof -
  obtain p c where c: "pool_and_chunk_size num_threads (length requests) = Inr (p, c)" "0 < c"
    using pool_and_chunk_size_pos assms(1,2) by (metis length_greater_0_conv)
  let ?g = "\<lambda>(req, state). f req state"
  have "rmap (\<lambda>(reqs, states). rmap ?g (zip reqs states)) zs = rmap (rmap ?g) (map (\<lambda>(a, b). zip a b) zs)" for zs
    by (induction zs) auto
  then have "compute_responses num_threads requests states f
      = rbind (rmap (rmap ?g) (chunks c (zip requests states))) (\<lambda>rs. Inr (concat rs))"
    using assms(3) by (simp add: compute_responses_def c(1) chunks_zip)
  then show ?thesis by (simp add: rmap_concat concat_chunks c(2))
qed

lemma compute_responses_no_threads: "\<exists>e. compute_responses 0 requests states f = Inl e"
  by (simp add: compute_responses_def pool_and_chunk_size_def udiv_def)

section \<open>The reference run\<close>

text \<open>
  The functions of the coordinator and of the worker one after the other, as the tests of the library use
  them: no messages, no worker state, no threads.
\<close>

definition sequential_rounds where
  "sequential_rounds env seeds pks =
     (let ops = ne_ops env; ml = ne_ml env in
      rbind (node_coordinator_new env pks) (\<lambda>nc.
      rbind (node_stage_0 env nc) (\<lambda>(requests0, nc).
      rbind (rmap (\<lambda>req. rbind (keys_get_pk pks (r0_idx req)) (\<lambda>pk.
          process_stage0_request ops ml (ne_commit env pk) (seeds (r0_idx req)) req)) requests0) (\<lambda>responses0.
      rbind (node_stage_1 env responses0 nc) (\<lambda>(requests1, nc).
      rbind (rmap (\<lambda>(req0, resp0, req1). rbind (keys_get_pk pks (r0_idx req0)) (\<lambda>pk.
          process_stage1_request ops ml (ne_commit env pk) (ne_prove env pk) req0 resp0 req1)) (zip requests0 (zip responses0 requests1))) (\<lambda>results.
        Inr \<lparr>rn_requests0 = requests0, rn_responses0 = responses0, rn_requests1 = requests1, rn_responses1 = map fst results,
             rn_satisfied = map snd results, rn_coordinator = nc\<rparr>))))))"

text \<open>A commitment draws its randomness first from the generator of the seed.\<close>

definition env_ok where
  "env_ok env \<longleftrightarrow> (\<forall>pk seed cb com rand. ne_commit env pk seed cb = Inr (com, rand) \<longrightarrow> rand = ne_rand_from_seed env seed)"

text \<open>A worker's two stages on its own state are the two stages of the library.\<close>

lemma worker_stage_0_iff:
  "worker_stage_0 env seed req ws = Inr (resp, ws') \<longleftrightarrow> (\<exists>pk com rand.
     keys_get_pk (ws_g16_pks ws) (r0_idx req) = Inr pk \<and> ne_commit env pk seed (committed_prover (ne_ops env) (ne_ml env) req) = Inr (com, rand)
     \<and> resp = \<lparr>s0_idx = r0_idx req, s0_com = com, s0_seed = seed\<rparr>
     \<and> ws' = ws\<lparr>ws_cb := Some (pk, committed_prover (ne_ops env) (ne_ml env) req), ws_com := com, ws_com_rand := ne_rand_from_seed env seed\<rparr>)"
  by (auto simp: worker_stage_0_def process_stage0_request_get_cb_eq rbind_Inr_iff unwrap_res_Inr_iff Let_def)

lemma process_stage0_request_iff:
  "process_stage0_request ops ml commit seed req = Inr resp \<longleftrightarrow> (\<exists>com rand. commit seed (committed_prover ops ml req) = Inr (com, rand)
     \<and> resp = \<lparr>s0_idx = r0_idx req, s0_com = com, s0_seed = seed\<rparr>)"
  by (cases "commit seed (committed_prover ops ml req)")
    (auto simp: process_stage0_request_def process_stage0_request_get_cb_eq unwrap_res_def split: failure.split)

lemma worker_stage_0_eq:
  assumes "keys_get_pk (ws_g16_pks ws) (r0_idx req) = Inr pk"
    and "process_stage0_request (ne_ops env) (ne_ml env) (ne_commit env pk) seed req = Inr resp"
    and draws: "\<forall>pk seed cb com rand. ne_commit env pk seed cb = Inr (com, rand) \<longrightarrow> rand = ne_rand_from_seed env seed"
  shows "\<exists>ws'. worker_stage_0 env seed req ws = Inr (resp, ws') \<and> (\<forall>req1.
       worker_stage_1 env req1 ws' = process_stage1_request (ne_ops env) (ne_ml env) (ne_commit env pk) (ne_prove env pk) req resp req1)"
proof -
  let ?cb = "committed_prover (ne_ops env) (ne_ml env) req"
  obtain com rand where commit: "ne_commit env pk seed ?cb = Inr (com, rand)" and resp: "resp = \<lparr>s0_idx = r0_idx req, s0_com = com, s0_seed = seed\<rparr>"
    using assms(2) unfolding process_stage0_request_iff by (elim exE conjE)
  let ?ws = "ws\<lparr>ws_cb := Some (pk, ?cb), ws_com := com, ws_com_rand := ne_rand_from_seed env seed\<rparr>"
  have "worker_stage_0 env seed req ws = Inr (resp, ?ws)"
    unfolding worker_stage_0_iff by (rule exI [of _ pk], rule exI [of _ com], rule exI [of _ rand]) (simp add: assms(1) commit resp)
  moreover have "worker_stage_1 env req1 ?ws
      = process_stage1_request (ne_ops env) (ne_ml env) (ne_commit env pk) (ne_prove env pk) req resp req1" for req1
    using draws commit by (auto simp: worker_stage_1_def process_stage1_request_commits resp)
  ultimately show ?thesis by (intro exI [of _ ?ws]) simp
qed

section \<open>The run of all processes\<close>

text \<open>The chunks that are sent, and the chunks that come back.\<close>

lemma scatter_chunks:
  assumes "mpi_ok (w + 1) mp" "codec_ok c (set (chunks per xs))" "0 < per" "length xs = w * per" "sum_list (map (packs c) (chunks per xs)) < 2 ^ 31"
  obtains msg where "scatter_requests mp c (chunks per xs) = Inr msg" "\<And>k. k < w \<Longrightarrow> receive_requests c (msg (Suc k)) = Inr (chunks per xs ! k)"
proof -
  have len: "length (chunks per xs) = w" by (rule chunks_exact [OF assms(3,4)])
  from assms(1) have "mpi_ok (length (chunks per xs) + 1) mp" by (simp add: len)
  from scatter_delivers [OF this assms(2,5)] that show thesis by (metis len)
qed

lemma gather_chunks:
  assumes "mpi_ok (w + 1) mp" "codec_ok c (set (chunks per ys))" "0 < per" "length ys = w * per" "w + 1 < 2 ^ 31"
    and "\<forall>ch \<in> set (chunks per ys). cod_size c ch = cod_size c dflt"
    and "0 < cod_size c dflt" "w * cod_size c dflt < 2 ^ 31"
    and "\<And>k. k < w \<Longrightarrow> sends (Suc k) = cod_ser c (chunks per ys ! k)"
  shows "gather_responses mp (as_count (w + 1)) c dflt sends = Inr (chunks per ys)"
proof -
  have len: "length (chunks per ys) = w" by (rule chunks_exact(1) [OF assms(3,4)])
  have in_set: "chunks per ys ! (r - 1) \<in> set (chunks per ys)" if "r \<in> {1..<w + 1}" for r
    using that len by (intro nth_mem) auto
  have "sends r = cod_ser c (chunks per ys ! (r - 1)) \<and> cod_size c (chunks per ys ! (r - 1)) = cod_size c dflt"
    if "r \<in> {1..<w + 1}" for r
  proof -
    from that have k: "r - 1 < w" "Suc (r - 1) = r" by auto
    then show ?thesis using assms(9) [OF k(1)] assms(6) in_set [OF that] k(2) by simp
  qed
  moreover have "codec_ok c ((\<lambda>r. chunks per ys ! (r - 1)) ` {1..<w + 1})"
    using assms(2) in_set unfolding codec_ok_def by blast
  ultimately have "gather_responses mp (as_count (w + 1)) c dflt sends = Inr (map (\<lambda>r. chunks per ys ! (r - 1)) [1..<w + 1])"
    using gather_collects [OF assms(1), where c = c and dflt = dflt and sends = sends and resp = "\<lambda>r. chunks per ys ! (r - 1)"] assms(5,7,8)
    by simp
  also have "map (\<lambda>r. chunks per ys ! (r - 1)) [1..<w + 1] = chunks per ys"
    by (rule nth_equalityI) (simp_all add: len del: upt_Suc)
  finally show ?thesis .
qed

lemma list_all2_choose:
  "list_all2 (\<lambda>x y. \<exists>z. P x y z) xs ys \<Longrightarrow> \<exists>zs. length zs = length ys \<and> list_all2 (\<lambda>x (y, z). P x y z) xs (zip ys zs)"
proof (induction xs ys rule: list_all2_induct)
  case (Cons x xs y ys)
  then obtain z zs where "P x y z" "length zs = length ys" "list_all2 (\<lambda>x (y, z). P x y z) xs (zip ys zs)" by blast
  then show ?case by (intro exI [of _ "z # zs"]) simp
qed simp

lemma chunks_zip_nth:
  assumes "0 < n" "length xs = w * n" "length ys = w * n" "k < w"
  shows "chunks n (zip xs ys) ! k = zip (chunks n xs ! k) (chunks n ys ! k)"
  using assms by (simp add: chunks_zip chunks_exact)

text \<open>One worker, given its chunk of the requests.\<close>

lemma worker_round_0_eq:
  assumes "worker_threads parallel threads = Inr t" "0 < t" "receive_requests (ne_requests0 env) msg = Inr rs"
    and "rs \<noteq> []" "list_all2 (\<lambda>req y. worker_stage_0 env (seeds (r0_idx req)) req st = Inr y) rs ys"
  shows "worker_round_0 env parallel threads seeds (replicate (length rs) st) msg = Inr (cod_ser (ne_responses0 env) (map fst ys), map snd ys)"
proof -
  have len: "length ys = length rs" using list_all2_lengthD [OF assms(5)] by simp
  have "zip rs (replicate (length rs) st) = map (\<lambda>r. (r, st)) rs" by (simp add: zip_replicate2)
  then have "compute_responses t rs (replicate (length rs) st) (\<lambda>req state. worker_stage_0 env (seeds (r0_idx req)) req state) = Inr ys"
    using assms(5) by (simp add: compute_responses_eq [OF assms(2,4)] rmap_list_all2 list_all2_map1)
  moreover have "ys \<noteq> []" using len assms(4) by auto
  ultimately show ?thesis
    using assms(1,3) len by (simp add: worker_round_0_def send_responses_def serialize_to_vec_def udiv_def Let_def)
qed

lemma worker_round_1_eq:
  assumes "worker_threads parallel threads = Inr t" "0 < t" "receive_requests (ne_requests1 env) msg = Inr rs"
    and "rs \<noteq> []" "length sts = length rs" "list_all2 (\<lambda>(req, st) y. worker_stage_1 env req st = Inr y) (zip rs sts) ys"
  shows "worker_round_1 env parallel threads sts msg = Inr (cod_ser (ne_responses1 env) (map fst ys), map snd ys)"
proof -
  have len: "length ys = length rs" using list_all2_lengthD [OF assms(6)] assms(5) by simp
  have "compute_responses t rs sts (worker_stage_1 env) = Inr ys"
    using assms(6) by (simp add: compute_responses_eq [OF assms(2,4,5)] rmap_list_all2 case_prod_unfold)
  moreover have "ys \<noteq> []" using len assms(4) by auto
  ultimately show ?thesis
    using assms(1,3) len by (simp add: worker_round_1_def send_responses_def serialize_to_vec_def udiv_def Let_def)
qed

lemma worker_threads_pos:
  assumes "parallel \<Longrightarrow> 2 \<le> threads"
  obtains t where "worker_threads parallel threads = Inr t" "0 < t"
  using assms by (cases parallel) (auto simp: worker_threads_def)

lemma rmap_ranks:
  assumes "\<And>k. k < w \<Longrightarrow> f (Suc k) = Inr (g k)"
  shows "rmap f [1..<w + 1] = Inr (map g [0..<w])"
proof -
  have "[1..<w + 1] = map Suc [0..<w]" by (simp add: map_Suc_upt del: upt_Suc)
  moreover have "rmap f (map Suc ks) = Inr (map g ks)" if "\<forall>k \<in> set ks. k < w" for ks
    using that by (induction ks) (simp_all add: assms)
  from this [of "[0..<w]"] have "rmap f (map Suc [0..<w]) = Inr (map g [0..<w])" by simp
  ultimately show ?thesis by (simp only:)
qed

text \<open>All workers of a stage.\<close>

lemma all_rounds_0:
  assumes "worker_threads parallel threads = Inr t" "0 < t" "0 < per" "length rs = w * per"
    and "list_all2 (\<lambda>req y. worker_stage_0 env (seeds (r0_idx req)) req st = Inr y) rs ys"
    and "\<And>k. k < w \<Longrightarrow> receive_requests (ne_requests0 env) (msg (Suc k)) = Inr (chunks per rs ! k)"
  shows "rmap (\<lambda>rank. worker_round_0 env parallel threads seeds (replicate per st) (msg rank)) [1..<w + 1]
     = Inr (map (\<lambda>k. (cod_ser (ne_responses0 env) (map fst (chunks per ys ! k)), map snd (chunks per ys ! k))) [0..<w])"
proof (rule rmap_ranks)
  fix k assume k: "k < w"
  have len: "length (chunks per rs) = w" "length (chunks per rs ! k) = per"
    using chunks_exact [OF assms(3,4)] k by simp_all
  then have "chunks per rs ! k \<noteq> []" using assms(3) by auto
  moreover have "list_all2 (\<lambda>req y. worker_stage_0 env (seeds (r0_idx req)) req st = Inr y) (chunks per rs ! k) (chunks per ys ! k)"
    using list_all2_nthD [OF chunks_list_all2 [OF assms(3,5)]] k len(1) by simp
  ultimately show "worker_round_0 env parallel threads seeds (replicate per st) (msg (Suc k))
      = Inr (cod_ser (ne_responses0 env) (map fst (chunks per ys ! k)), map snd (chunks per ys ! k))"
    using worker_round_0_eq [OF assms(1,2) assms(6) [OF k]] len(2) by simp
qed

lemma all_rounds_1:
  assumes "worker_threads parallel threads = Inr t" "0 < t" "0 < per" "length rs = w * per" "length sts = w * per"
    and "list_all2 (\<lambda>(req, st) y. worker_stage_1 env req st = Inr y) (zip rs sts) ys"
    and "\<And>k. k < w \<Longrightarrow> receive_requests (ne_requests1 env) (msg (Suc k)) = Inr (chunks per rs ! k)"
    and "\<And>k. k < w \<Longrightarrow> kept (Suc k) = chunks per sts ! k"
  shows "rmap (\<lambda>rank. worker_round_1 env parallel threads (kept rank) (msg rank)) [1..<w + 1]
     = Inr (map (\<lambda>k. (cod_ser (ne_responses1 env) (map fst (chunks per ys ! k)), map snd (chunks per ys ! k))) [0..<w])"
proof (rule rmap_ranks)
  fix k assume k: "k < w"
  have len: "length (chunks per rs ! k) = per" "length (chunks per sts ! k) = per"
    using chunks_exact(2) [OF assms(3,4) k] chunks_exact(2) [OF assms(3,5) k] by simp_all
  have zip: "length (zip rs sts) = w * per" using assms(4,5) by simp
  have "list_all2 (\<lambda>(req, st) y. worker_stage_1 env req st = Inr y) (chunks per (zip rs sts) ! k) (chunks per ys ! k)"
    using list_all2_nthD [OF chunks_list_all2 [OF assms(3,6)]] k chunks_exact(1) [OF assms(3) zip] by simp
  then have "list_all2 (\<lambda>(req, st) y. worker_stage_1 env req st = Inr y) (zip (chunks per rs ! k) (chunks per sts ! k)) (chunks per ys ! k)"
    by (simp only: chunks_zip_nth [OF assms(3,4,5) k])
  moreover have "chunks per rs ! k \<noteq> []" using len(1) assms(3) by auto
  ultimately show "worker_round_1 env parallel threads (kept (Suc k)) (msg (Suc k))
      = Inr (cod_ser (ne_responses1 env) (map fst (chunks per ys ! k)), map snd (chunks per ys ! k))"
    using worker_round_1_eq [OF assms(1,2) assms(7) [OF k]] len by (simp add: assms(8) [OF k])
qed

text \<open>
  The messages of a run survive their serialisation, the responses have the size of the default response
  that the root makes room for, and the counts fit the library's 32 bits.
\<close>

definition messages_fit where
  "messages_fit env w per run \<longleftrightarrow>
     (let dflt0 = replicate per \<lparr>s0_idx = 0, s0_com = ne_default_com env, s0_seed = ne_default_seed env\<rparr>;
          dflt1 = replicate per \<lparr>s1_idx = 0, s1_proof = ne_default_proof env\<rparr> in
      w + 1 < 2 ^ 31
      \<and> codec_ok (ne_requests0 env) (set (chunks per (rn_requests0 run)))
      \<and> sum_list (map (packs (ne_requests0 env)) (chunks per (rn_requests0 run))) < 2 ^ 31
      \<and> codec_ok (ne_requests1 env) (set (chunks per (rn_requests1 run)))
      \<and> sum_list (map (packs (ne_requests1 env)) (chunks per (rn_requests1 run))) < 2 ^ 31
      \<and> codec_ok (ne_responses0 env) (set (chunks per (rn_responses0 run)))
      \<and> (\<forall>ch \<in> set (chunks per (rn_responses0 run)). cod_size (ne_responses0 env) ch = cod_size (ne_responses0 env) dflt0)
      \<and> 0 < cod_size (ne_responses0 env) dflt0 \<and> w * cod_size (ne_responses0 env) dflt0 < 2 ^ 31
      \<and> codec_ok (ne_responses1 env) (set (chunks per (rn_responses1 run)))
      \<and> (\<forall>ch \<in> set (chunks per (rn_responses1 run)). cod_size (ne_responses1 env) ch = cod_size (ne_responses1 env) dflt1)
      \<and> 0 < cod_size (ne_responses1 env) dflt1 \<and> w * cod_size (ne_responses1 env) dflt1 < 2 ^ 31)"

lemma node_coordinator_new_pks: "node_coordinator_new env pks = Inr nc \<Longrightarrow> nc_g16_pks nc = pks"
  by (auto simp: node_coordinator_new_def rbind_Inr_iff)

lemma node_stage_0_shape:
  "node_stage_0 env nc = Inr (rs, nc') \<Longrightarrow> length rs = keys_num_subcircuits (nc_g16_pks nc) \<and> nc_g16_pks nc' = nc_g16_pks nc"
  by (auto simp: node_stage_0_def Let_def rbind_Inr_iff rmap_list_all2 dest: list_all2_lengthD)

lemma gen_requests0_idx: "rmap (gen_request0 st0) [0..<n] = Inr rs \<Longrightarrow> i < n \<Longrightarrow> r0_idx (rs ! i) = i"
  using list_all2_nthD [of "\<lambda>i req. gen_request0 st0 i = Inr req" "[0..<n]" rs i] gen_request0_D [of st0 i "rs ! i"] by (simp add: rmap_list_all2)

lemma node_stage_0_idx:
  "node_stage_0 env nc = Inr (rs, nc') \<Longrightarrow> i < keys_num_subcircuits (nc_g16_pks nc) \<Longrightarrow> r0_idx (rs ! i) = i"
  by (auto simp: node_stage_0_def Let_def rbind_Inr_iff intro: gen_requests0_idx)

lemma node_stage_1_shape:
  "node_stage_1 env as nc = Inr (rs, nc') \<Longrightarrow> length rs = keys_num_subcircuits (nc_g16_pks nc)"
  by (auto simp: node_stage_1_def Let_def rbind_Inr_iff rmap_list_all2 dest: list_all2_lengthD)

text \<open>The steps of a reference run, with the worker states the driver keeps between the stages.\<close>

lemma sequential_rounds_steps:
  assumes "env_ok env" "sequential_rounds env seeds pks = Inr run"
  obtains nc nc1 sts results where "node_coordinator_new env pks = Inr nc" "node_stage_0 env nc = Inr (rn_requests0 run, nc1)"
    and "list_all2 (\<lambda>req y. worker_stage_0 env (seeds (r0_idx req)) req (worker_new env n pks) = Inr y) (rn_requests0 run) (zip (rn_responses0 run) sts)"
    and "length (rn_responses0 run) = length (rn_requests0 run)" "length sts = length (rn_requests0 run)"
    and "node_stage_1 env (rn_responses0 run) nc1 = Inr (rn_requests1 run, rn_coordinator run)"
    and "list_all2 (\<lambda>(req, st) y. worker_stage_1 env req st = Inr y) (zip (rn_requests1 run) sts) results"
    and "rn_responses1 run = map fst results" "rn_satisfied run = map snd results"
proof -
  let ?ops = "ne_ops env" and ?ml = "ne_ml env"
  let ?ws = "worker_new env n pks"
  from assms(2) obtain nc nc1 results where nc: "node_coordinator_new env pks = Inr nc" "node_stage_0 env nc = Inr (rn_requests0 run, nc1)"
    and r0: "list_all2 (\<lambda>req resp. \<exists>pk. keys_get_pk pks (r0_idx req) = Inr pk
        \<and> process_stage0_request ?ops ?ml (ne_commit env pk) (seeds (r0_idx req)) req = Inr resp) (rn_requests0 run) (rn_responses0 run)"
    and q: "node_stage_1 env (rn_responses0 run) nc1 = Inr (rn_requests1 run, rn_coordinator run)"
    and r1: "list_all2 (\<lambda>(req0, resp0, req1) y. \<exists>pk. keys_get_pk pks (r0_idx req0) = Inr pk
        \<and> process_stage1_request ?ops ?ml (ne_commit env pk) (ne_prove env pk) req0 resp0 req1 = Inr y)
        (zip (rn_requests0 run) (zip (rn_responses0 run) (rn_requests1 run))) results"
    and out: "rn_responses1 run = map fst results" "rn_satisfied run = map snd results"
    by (auto simp: sequential_rounds_def Let_def rbind_Inr_iff rmap_list_all2 case_prod_unfold)
  have lens: "length (rn_responses0 run) = length (rn_requests0 run)" using list_all2_lengthD [OF r0] by simp
  have lens1: "length (rn_requests1 run) = length (rn_requests0 run)"
    using node_stage_1_shape [OF q] node_stage_0_shape [OF nc(2)] by simp
  have draws: "\<forall>pk seed cb com rand. ne_commit env pk seed cb = Inr (com, rand) \<longrightarrow> rand = ne_rand_from_seed env seed"
    using assms(1) by (simp add: env_ok_def)
  let ?P = "\<lambda>req resp ws'. worker_stage_0 env (seeds (r0_idx req)) req ?ws = Inr (resp, ws')
      \<and> (\<forall>pk req1. keys_get_pk pks (r0_idx req) = Inr pk \<longrightarrow>
           worker_stage_1 env req1 ws' = process_stage1_request ?ops ?ml (ne_commit env pk) (ne_prove env pk) req resp req1)"
  have "list_all2 (\<lambda>req resp. \<exists>ws'. ?P req resp ws') (rn_requests0 run) (rn_responses0 run)"
    using r0
  proof (rule list_all2_mono, elim exE conjE)
    fix req resp pk
    assume pk: "keys_get_pk pks (r0_idx req) = Inr pk"
      and resp: "process_stage0_request ?ops ?ml (ne_commit env pk) (seeds (r0_idx req)) req = Inr resp"
    have "keys_get_pk (ws_g16_pks ?ws) (r0_idx req) = Inr pk" using pk by (simp add: worker_new_def)
    from worker_stage_0_eq [OF this resp draws] obtain ws' where ws': "worker_stage_0 env (seeds (r0_idx req)) req ?ws = Inr (resp, ws')"
      "\<forall>req1. worker_stage_1 env req1 ws' = process_stage1_request ?ops ?ml (ne_commit env pk) (ne_prove env pk) req resp req1"
      by (elim exE conjE) (rule that)
    show "\<exists>ws'. ?P req resp ws'" by (rule exI [of _ ws']) (simp add: ws' pk)
  qed
  from list_all2_choose [OF this] obtain sts where sts: "length sts = length (rn_responses0 run)"
    "list_all2 (\<lambda>req (resp, ws'). ?P req resp ws') (rn_requests0 run) (zip (rn_responses0 run) sts)"
    by blast
  have s0: "list_all2 (\<lambda>req y. worker_stage_0 env (seeds (r0_idx req)) req ?ws = Inr y) (rn_requests0 run) (zip (rn_responses0 run) sts)"
    using sts(2) by (rule list_all2_mono) auto
  have s1: "list_all2 (\<lambda>(req, st) y. worker_stage_1 env req st = Inr y) (zip (rn_requests1 run) sts) results"
  proof (rule list_all2_all_nthI)
    show "length (zip (rn_requests1 run) sts) = length results"
      using list_all2_lengthD [OF r1] lens lens1 sts(1) by simp
    fix i assume "i < length (zip (rn_requests1 run) sts)"
    then have i: "i < length (rn_requests0 run)" using lens lens1 sts(1) by simp
    show "(case zip (rn_requests1 run) sts ! i of (req, st) \<Rightarrow> \<lambda>y. worker_stage_1 env req st = Inr y) (results ! i)"
      using list_all2_nthD [OF sts(2) i] list_all2_nthD [OF r1] i lens lens1 sts(1) by force
  qed
  show thesis by (rule that [OF nc s0 lens _ q s1 out]) (simp add: sts(1) lens)
qed

lemma distributed_is_sequential:
  assumes "mpi_ok (w + 1) mp" "env_ok env" "parallel \<Longrightarrow> 2 \<le> threads"
    and "keys_num_subcircuits pks = w * per" "0 < w" "0 < per" "messages_fit env w per run"
    and "sequential_rounds env seeds pks = Inr run"
  shows "work_rounds env mp w (w + 1) parallel threads seeds pks = Inr run"
proof -
  let ?st = "worker_new env (w * per) pks"
  obtain nc nc1 sts results where nc: "node_coordinator_new env pks = Inr nc" and s0: "node_stage_0 env nc = Inr (rn_requests0 run, nc1)"
    and r0: "list_all2 (\<lambda>req y. worker_stage_0 env (seeds (r0_idx req)) req ?st = Inr y) (rn_requests0 run) (zip (rn_responses0 run) sts)"
    and lens: "length (rn_responses0 run) = length (rn_requests0 run)" "length sts = length (rn_requests0 run)"
    and s1: "node_stage_1 env (rn_responses0 run) nc1 = Inr (rn_requests1 run, rn_coordinator run)"
    and r1: "list_all2 (\<lambda>(req, st) y. worker_stage_1 env req st = Inr y) (zip (rn_requests1 run) sts) results"
    and out: "rn_responses1 run = map fst results" "rn_satisfied run = map snd results"
    by (rule sequential_rounds_steps [OF assms(2,8)])
  have len0: "length (rn_requests0 run) = w * per"
    using node_stage_0_shape [OF s0] node_coordinator_new_pks [OF nc] assms(4) by simp
  have len1: "length (rn_requests1 run) = w * per"
    using node_stage_1_shape [OF s1] node_stage_0_shape [OF s0] node_coordinator_new_pks [OF nc] assms(4) by simp
  have lenr: "length results = w * per" using list_all2_lengthD [OF r1] lens len0 len1 by simp
  obtain t where t: "worker_threads parallel threads = Inr t" "0 < t" using worker_threads_pos assms(3) by blast
  note fit = assms(7) [unfolded messages_fit_def Let_def]
  obtain msg0 where msg0: "scatter_requests mp (ne_requests0 env) (chunks per (rn_requests0 run)) = Inr msg0"
    "\<And>k. k < w \<Longrightarrow> receive_requests (ne_requests0 env) (msg0 (Suc k)) = Inr (chunks per (rn_requests0 run) ! k)"
    using scatter_chunks [OF assms(1) _ assms(6) len0] fit by blast
  obtain msg1 where msg1: "scatter_requests mp (ne_requests1 env) (chunks per (rn_requests1 run)) = Inr msg1"
    "\<And>k. k < w \<Longrightarrow> receive_requests (ne_requests1 env) (msg1 (Suc k)) = Inr (chunks per (rn_requests1 run) ! k)"
    using scatter_chunks [OF assms(1) _ assms(6) len1] fit by blast
  let ?ys = "zip (rn_responses0 run) sts"
  define round0 where "round0 = map (\<lambda>k. (cod_ser (ne_responses0 env) (map fst (chunks per ?ys ! k)), map snd (chunks per ?ys ! k))) [0..<w]"
  define round1 where "round1 = map (\<lambda>k. (cod_ser (ne_responses1 env) (map fst (chunks per results ! k)), map snd (chunks per results ! k))) [0..<w]"
  have leny: "length ?ys = w * per" using lens len0 by simp
  have nth: "map f (chunks per xs ! k) = chunks per (map f xs) ! k" if "k < w" "length xs = w * per" for f xs k
    using that chunks_exact(1) [OF assms(6) that(2)] by (simp add: chunks_map)
  have ys: "map fst ?ys = rn_responses0 run" "map snd ?ys = sts" using lens by simp_all
  have "rmap (\<lambda>rank. worker_round_0 env parallel threads seeds (replicate per ?st) (msg0 rank)) [1..<w + 1] = Inr round0"
    unfolding round0_def by (rule all_rounds_0 [OF t assms(6) len0 r0 msg0(2)])
  moreover have "rmap (\<lambda>rank. worker_round_1 env parallel threads (snd (round0 ! (rank - 1))) (msg1 rank)) [1..<w + 1] = Inr round1"
    unfolding round1_def
    by (rule all_rounds_1 [OF t assms(6) len1 _ r1 msg1(2)]) (simp_all add: lens len0 round0_def nth [OF _ leny] ys del: map_snd_zip)
  moreover have "gather_responses mp (as_count (w + 1)) (ne_responses0 env) (replicate per \<lparr>s0_idx = 0, s0_com = ne_default_com env, s0_seed = ne_default_seed env\<rparr>)
      (\<lambda>rank. fst (round0 ! (rank - 1))) = Inr (chunks per (rn_responses0 run))"
    by (rule gather_chunks [OF assms(1) _ assms(6)]) (use fit in \<open>simp_all add: lens len0 round0_def nth [OF _ leny] ys del: map_fst_zip\<close>)
  moreover have "gather_responses mp (as_count (w + 1)) (ne_responses1 env) (replicate per \<lparr>s1_idx = 0, s1_proof = ne_default_proof env\<rparr>)
      (\<lambda>rank. fst (round1 ! (rank - 1))) = Inr (chunks per (rn_responses1 run))"
    by (rule gather_chunks [OF assms(1) _ assms(6)]) (use fit in \<open>simp_all add: lenr out round1_def nth\<close>)
  moreover have "concat (map snd round1) = rn_satisfied run"
  proof -
    have "map snd round1 = chunks per (rn_satisfied run)"
      by (rule nth_equalityI) (simp_all add: round1_def nth [OF _ lenr] out chunks_exact(1) [OF assms(6), where w = w] lenr)
    then show ?thesis by (simp add: concat_chunks assms(6))
  qed
  ultimately show ?thesis
    using assms(5,6) by (simp del: upt_Suc replicate.simps add: work_rounds_def udiv_def chunked_def Let_def assms(4) nc s0 s1 msg0(1) msg1(1) concat_chunks)
qed

text \<open>
  C4: The distributed run refines the sequential one. If the coordinator's and worker's functions called one
  after the other produce a run, then the processes, with requests packed into units of 256 bytes and
  scattered, any number of threads, states kept by the workers between the stages and responses gathered
  in slots, produce the same messages, the same satisfied constraint systems and the same coordinator.
\<close>

theorem work_refines_sequential:
  assumes "mpi_ok (w + 1) mp" "env_ok env" "parallel \<Longrightarrow> 2 \<le> threads"
    and "keys_num_subcircuits pks = w * per" "0 < w" "0 < per" "messages_fit env w per run"
    and "sequential_rounds env seeds pks = Inr run"
  shows "work_rounds env mp w (w + 1) parallel threads seeds pks = Inr run
     \<and> work env mp w (w + 1) parallel threads seeds pks = node_aggregate env (rn_responses1 run) (rn_coordinator run)"
  using distributed_is_sequential [OF assms] by (simp add: work_def)

section \<open>Honest runs\<close>

text \<open>
  Every subcircuit's key was made for it: the honest worker's commitment does not fail, nor does its proof once all
  constraints of the stage 1 prover hold. (The commitment builder compares the number of witnesses with the length
  of the key, the prover checks in debug builds that the constraints hold.)
\<close>

definition keys_fit ::
    "('f::field, 'c, 'p, 'tree, 'dig, 'path, 'g1, 'g2, 'gt, 'ml, 'scom, 'agg, 't, 'seed, 'rnd, 'x) node_env_scheme \<Rightarrow> 'c
      \<Rightarrow> (nat \<Rightarrow> 'seed) \<Rightarrow> ('g1, 'g2) proving_keys \<Rightarrow> bool" where
  "keys_fit env circ seeds pks \<longleftrightarrow> (\<forall>st0 i req0 pk. coordinator0_new (ne_ops env) circ = Inr st0 \<and> gen_request0 st0 i = Inr req0
       \<and> keys_get_pk pks i = Inr pk \<longrightarrow>
     (\<exists>x. ne_commit env pk (seeds i) (committed_prover (ne_ops env) (ne_ml env) req0) = Inr x)
     \<and> (\<forall>(req1 :: ('f, 'p, 'dig, 'path) stage1_request) circ' chals com rand. op_generate (ne_ops env) circ' i = op_generate (ne_ops env) circ i
          \<and> subcircuit_stage1 (ne_ops env) (ne_ml env) (\<lambda>_. True) (worker_prover req0 req1 circ' chals) = Inr True \<longrightarrow>
        (\<exists>pf. ne_prove env pk (worker_prover req0 req1 circ' chals) [com] [rand] = Inr pf)))"

lemma keys_fitD:
  fixes env :: "('f::field, 'c, 'p, 'tree, 'dig, 'path, 'g1, 'g2, 'gt, 'ml, 'scom, 'agg, 't, 'seed, 'rnd, 'x) node_env_scheme" and req1 :: "('f, 'p, 'dig, 'path) stage1_request"
  assumes "keys_fit env circ seeds pks" "coordinator0_new (ne_ops env) circ = Inr st0" "gen_request0 st0 i = Inr req0" "keys_get_pk pks i = Inr pk"
  shows keys_fit_commit: "\<exists>x. ne_commit env pk (seeds i) (committed_prover (ne_ops env) (ne_ml env) req0) = Inr x"
    and keys_fit_prove: "op_generate (ne_ops env) circ' i = op_generate (ne_ops env) circ i \<Longrightarrow>
       subcircuit_stage1 (ne_ops env) (ne_ml env) (\<lambda>_. True) (worker_prover req0 req1 circ' chals) = Inr True \<Longrightarrow>
       \<exists>pf. ne_prove env pk (worker_prover req0 req1 circ' chals) [com] [rand] = Inr pf"
  using assms unfolding keys_fit_def by blast+

text \<open>An honest worker with a key that fits answers both requests, and its constraints hold.\<close>

lemma honest_worker_completes:
  assumes fit: "keys_fit env circ seeds pks" and c0: "coordinator0_new (ne_ops env) circ = Inr st0"
    and req0: "gen_request0 st0 i = Inr req0" and pk: "keys_get_pk pks i = Inr pk"
    and honest: "honest_worker (ne_ops env) (ne_ml env) circ i req0 req1"
    and resp: "process_stage0_request (ne_ops env) (ne_ml env) (ne_commit env pk) (seeds i) req0 = Inr resp0"
  shows "\<exists>y. process_stage1_request (ne_ops env) (ne_ml env) (ne_commit env pk) (ne_prove env pk) req0 resp0 req1 = Inr y \<and> snd y"
proof -
  obtain circ' chals where gen: "op_generate (ne_ops env) circ' i = op_generate (ne_ops env) circ i"
    and sat: "subcircuit_stage1 (ne_ops env) (ne_ml env) (\<lambda>_. True) (worker_prover req0 req1 circ' chals) = Inr True"
    and run: "process_stage1_request (ne_ops env) (ne_ml env) (ne_commit env pk) (ne_prove env pk) req0 resp0 req1 =
       rbind (unwrap_res unwrap_err_msg (ne_commit env pk (s0_seed resp0) (committed_prover (ne_ops env) (ne_ml env) req0))) (\<lambda>(com, rand).
       rbind (unwrap_res unwrap_err_msg (ne_prove env pk (worker_prover req0 req1 circ' chals) [com] [rand])) (\<lambda>proof.
         Inr (\<lparr>s1_idx = i, s1_proof = proof\<rparr>, True)))"
    by (rule honest_worker_answers [OF honest]) (rule that)
  obtain com rand where commit: "ne_commit env pk (seeds i) (committed_prover (ne_ops env) (ne_ml env) req0) = Inr (com, rand)"
    and seed: "s0_seed resp0 = seeds i"
    using resp unfolding process_stage0_request_iff by (elim exE conjE) simp
  obtain pf where "ne_prove env pk (worker_prover req0 req1 circ' chals) [com] [rand] = Inr pf"
    using keys_fit_prove [OF fit c0 req0 pk gen sat, of com rand] by (elim exE)
  then show ?thesis by (simp add: run seed commit)
qed

text \<open>If, whatever the workers answered, the coordinator's requests can be answered, the reference run completes.\<close>

lemma sequential_rounds_completes:
  fixes env :: "('f::field, 'c, 'p, 'tree, 'dig, 'path, 'g1, 'g2, 'gt, 'ml, 'scom, 'agg, 't, 'seed, 'rnd, 'x) node_env_scheme"
  assumes "node_coordinator_new env pks = Inr nc" "ne_rand_circuit env (nc_circ_params nc) = Inr circ"
    and "keys_num_subcircuits pks = n" "\<forall>i < n. \<exists>pk. keys_get_pk pks i = Inr pk" and fit: "keys_fit env circ seeds pks"
    and protocol: "\<And>(resps :: ('g1, 'seed) stage0_response list). length resps = n \<Longrightarrow> \<exists>st0 st1. coordinator0_new (ne_ops env) circ = Inr st0
     \<and> process_stage0_responses (ne_sha256 env) (ne_ser_super_com env) (ne_ml env) (op_mem_type (ne_ops env))
          (ip_commit_only_left (fst (nc_agg_pk nc))) resps st0 = Inr st1
     \<and> (\<forall>i < n. \<exists>req0 req1. gen_request0 st0 i = Inr req0 \<and> gen_request1 (op_mem_type (ne_ops env)) st1 i = Inr req1
           \<and> honest_worker (ne_ops env) (ne_ml env) circ i req0 req1)"
  shows "\<exists>run. sequential_rounds env seeds pks = Inr run \<and> length (rn_satisfied run) = n \<and> (\<forall>ok \<in> set (rn_satisfied run). ok)"
proof -
  let ?ops = "ne_ops env" and ?ml = "ne_ml env" and ?mt = "op_mem_type (ne_ops env)"
  let ?one = "\<lambda>pk req0 resp0 req1. process_stage1_request ?ops ?ml (ne_commit env pk) (ne_prove env pk) req0 resp0 req1"
  have nc: "nc_g16_pks nc = pks" by (rule node_coordinator_new_pks [OF assms(1)])
  obtain pk where pk: "\<And>i. i < n \<Longrightarrow> keys_get_pk pks i = Inr (pk i)" using assms(4) by metis
  obtain st0 where c0: "coordinator0_new ?ops circ = Inr st0"
    and "\<forall>i < n. \<exists>req0. gen_request0 st0 i = Inr req0"
    using protocol [of "replicate n undefined"] by (auto; blast)
  then obtain r0 where r0: "\<And>i. i < n \<Longrightarrow> gen_request0 st0 i = Inr (r0 i)" by metis
  have idx: "r0_idx (r0 i) = i" if "i < n" for i using gen_request0_D [OF r0 [OF that]] by simp
  have "\<exists>resp. process_stage0_request ?ops ?ml (ne_commit env (pk i)) (seeds i) (r0 i) = Inr resp" if "i < n" for i
    using keys_fit_commit [OF fit c0 r0 [OF that] pk [OF that]] unfolding process_stage0_request_iff by auto
  then obtain resp where resp: "\<And>i. i < n \<Longrightarrow> process_stage0_request ?ops ?ml (ne_commit env (pk i)) (seeds i) (r0 i) = Inr (resp i)"
    by metis
  let ?as = "map resp [0..<n]"
  have len: "length ?as = n" by simp
  obtain st1 where st1: "process_stage0_responses (ne_sha256 env) (ne_ser_super_com env) ?ml ?mt (ip_commit_only_left (fst (nc_agg_pk nc))) ?as st0 = Inr st1"
    and reqs: "\<forall>i < n. \<exists>req1. gen_request1 ?mt st1 i = Inr req1 \<and> honest_worker ?ops ?ml circ i (r0 i) req1"
    using protocol [OF len] c0 r0 by (auto; fastforce)
  from reqs obtain r1 where r1: "\<And>i. i < n \<Longrightarrow> gen_request1 ?mt st1 i = Inr (r1 i) \<and> honest_worker ?ops ?ml circ i (r0 i) (r1 i)" by metis
  have "\<exists>y. ?one (pk i) (r0 i) (resp i) (r1 i) = Inr y \<and> snd y" if i: "i < n" for i
    by (rule honest_worker_completes [OF fit c0 r0 [OF i] pk [OF i] r1 [OF i, THEN conjunct2] resp [OF i]])
  then obtain y where y: "\<And>i. i < n \<Longrightarrow> ?one (pk i) (r0 i) (resp i) (r1 i) = Inr (y i) \<and> snd (y i)" by metis
  let ?nc0 = "nc\<lparr>nc_stage0_state := Some st0\<rparr>" and ?rs0 = "map r0 [0..<n]" and ?rs1 = "map r1 [0..<n]" and ?ys = "map y [0..<n]"
  have "rmap (gen_request0 st0) [0..<n] = Inr ?rs0" by (rule rmap_total) (simp add: r0)
  then have s0: "node_stage_0 env nc = Inr (?rs0, ?nc0)" by (simp add: node_stage_0_def assms(2,3) nc c0 Let_def)
  have "rmap (gen_request1 ?mt st1) [0..<n] = Inr ?rs1" by (rule rmap_total) (simp add: r1)
  then have s1: "node_stage_1 env ?as ?nc0 = Inr (?rs1, ?nc0\<lparr>nc_stage0_state := None, nc_stage1_state := Some st1\<rparr>)"
    by (simp add: node_stage_1_def assms(3) nc st1 Let_def)
  have a: "rmap (\<lambda>req. rbind (keys_get_pk pks (r0_idx req)) (\<lambda>pk. process_stage0_request ?ops ?ml (ne_commit env pk) (seeds (r0_idx req)) req)) ?rs0 = Inr ?as"
    by (simp add: rmap_list_all2 list_all2_map1 list_all2_map2 list_all2_same idx pk resp)
  have z: "zip ?rs0 (zip ?as ?rs1) = map (\<lambda>i. (r0 i, resp i, r1 i)) [0..<n]" by (simp add: zip_map_map zip_same_conv_map)
  have b: "rmap (\<lambda>(req0, resp0, req1). rbind (keys_get_pk pks (r0_idx req0)) (\<lambda>pk. ?one pk req0 resp0 req1)) (zip ?rs0 (zip ?as ?rs1)) = Inr ?ys"
    unfolding z by (simp add: rmap_list_all2 list_all2_map1 list_all2_map2 list_all2_same idx pk y)
  show ?thesis
    by (simp add: sequential_rounds_def Let_def assms(1) s0 a s1 b [unfolded Let_def]) (simp add: y)
qed

text \<open>The reference run does not look at the serialisation of messages.\<close>

lemma sequential_rounds_codecs:
  "sequential_rounds (env\<lparr>ne_requests0 := q0, ne_requests1 := q1, ne_responses0 := a0, ne_responses1 := a1\<rparr>) seeds pks
     = sequential_rounds env seeds pks"
  by (simp add: sequential_rounds_def node_coordinator_new_def generate_agg_key_def node_stage_0_def node_stage_1_def)

lemma sequential_ram_completes:
  fixes env :: "('f::field, 'c, 'p, 'tree, 'dig, 'path, 'g1, 'g2, 'gt, 'ml, 'scom, 'agg, 't, 'seed, 'rnd, 'x) node_env_scheme"
  assumes keys: "keys_num_subcircuits pks = n" "\<forall>i < n. \<exists>pk. keys_get_pk pks i = Inr pk" "keys_fit env circ seeds pks"
    and start: "node_coordinator_new env pks = Inr nc" "ne_rand_circuit env (nc_circ_params nc) = Inr circ"
    and ops: "op_mem_type (ne_ops env) = Ram" "op_num_subcircuits (ne_ops env) circ = n"
    and traced: "ram_setup_run (map (op_generate (ne_ops env) circ) [0..<n]) setup_ram_new = Inr (True, s)"
      "op_portal_subtraces (ne_ops env) circ = Inr (map (map RamEntry) (sm_subtraces s))"
    and cap: "length (concat (sm_subtraces s)) \<le> 2 ^ 32" "concat (sm_subtraces s) \<noteq> []"
    and contract: "\<forall>i < n. witness_contract (ne_ops env) circ i"
    and ml: "merkle_complete (ne_ml env)" "\<forall>ls. length ls = n \<longrightarrow> mt_new (ne_ml env) ls \<noteq> None"
    and com: "\<And>coms. length coms = n \<Longrightarrow> \<exists>sc. ip_commit_only_left (fst (nc_agg_pk nc)) coms = Inr sc"
  shows "\<exists>run. sequential_rounds env seeds pks = Inr run \<and> length (rn_satisfied run) = n \<and> (\<forall>ok \<in> set (rn_satisfied run). ok)"
proof -
  have "\<exists>st0 st1. coordinator0_new (ne_ops env) circ = Inr st0
     \<and> process_stage0_responses (ne_sha256 env) (ne_ser_super_com env) (ne_ml env) (op_mem_type (ne_ops env))
          (ip_commit_only_left (fst (nc_agg_pk nc))) resps st0 = Inr st1
     \<and> (\<forall>i < n. \<exists>req0 req1. gen_request0 st0 i = Inr req0 \<and> gen_request1 (op_mem_type (ne_ops env)) st1 i = Inr req1
           \<and> honest_worker (ne_ops env) (ne_ml env) circ i req0 req1)"
    if resps: "length resps = n" for resps :: "('g1, 'seed) stage0_response list"
  proof -
    obtain sc where sc: "ip_commit_only_left (fst (nc_agg_pk nc)) (map s0_com (sort_key s0_idx resps)) = Inr sc"
      using com [of "map s0_com (sort_key s0_idx resps)"] resps by auto
    show ?thesis
      unfolding ops(1)
      by (rule ram_protocol_workers [where resps = resps and commit_left = "ip_commit_only_left (fst (nc_agg_pk nc))",
            OF ops traced cap contract ml sc])
  qed
  from sequential_rounds_completes [OF start keys this] show ?thesis by blast
qed

lemma sequential_rounds_lengths:
  assumes "env_ok env" "sequential_rounds env seeds pks = Inr run"
  shows "length (rn_requests0 run) = keys_num_subcircuits pks" "length (rn_responses0 run) = keys_num_subcircuits pks"
    "length (rn_requests1 run) = keys_num_subcircuits pks" "length (rn_responses1 run) = keys_num_subcircuits pks"
proof -
  obtain nc nc1 sts results where nc: "node_coordinator_new env pks = Inr nc" "node_stage_0 env nc = Inr (rn_requests0 run, nc1)"
    and "list_all2 (\<lambda>req y. worker_stage_0 env (seeds (r0_idx req)) req (worker_new env 0 pks) = Inr y) (rn_requests0 run) (zip (rn_responses0 run) sts)"
    and lens: "length (rn_responses0 run) = length (rn_requests0 run)" "length sts = length (rn_requests0 run)"
    and q: "node_stage_1 env (rn_responses0 run) nc1 = Inr (rn_requests1 run, rn_coordinator run)"
    and r1: "list_all2 (\<lambda>(req, st) y. worker_stage_1 env req st = Inr y) (zip (rn_requests1 run) sts) results"
    and out: "rn_responses1 run = map fst results" "rn_satisfied run = map snd results"
    by (rule sequential_rounds_steps [OF assms])
  have "length (rn_requests0 run) = keys_num_subcircuits pks" "length (rn_requests1 run) = keys_num_subcircuits pks"
    using node_stage_0_shape [OF nc(2)] node_stage_1_shape [OF q] node_coordinator_new_pks [OF nc(1)] by simp_all
  then show "length (rn_requests0 run) = keys_num_subcircuits pks" "length (rn_responses0 run) = keys_num_subcircuits pks"
    "length (rn_requests1 run) = keys_num_subcircuits pks" "length (rn_responses1 run) = keys_num_subcircuits pks"
    using lens list_all2_lengthD [OF r1] by (simp_all add: out)
qed

text \<open>
  C5: An honest distributed run gets through both proving rounds. For a read-write circuit whose native trace and
  constraints agree, of at most \<open>2 ^ 32\<close> portal operations, split evenly over the workers, with a key for every
  subcircuit that fits it and the laws of the libraries, every process gets through both stages and every
  subcircuit's stage 1 constraint system is satisfied. What is then left of the run is the aggregation of the
  responses, of which nothing is claimed here: for these circuits it leaves out public inputs (C32).
\<close>

theorem distributed_run_completes:
  fixes env :: "('f::field, 'c, 'p, 'tree, 'dig, 'path, 'g1::ab_group_add, 'g2::ab_group_add, 'gt::ab_group_add, 'ml,
      'scom::ab_group_add, 'agg, 't, 'seed, 'rnd) node_env"
  assumes mpi: "mpi_ok (w + 1) mp" "env_ok env" "parallel \<Longrightarrow> 2 \<le> threads" "0 < w" "0 < per"
    and fit: "\<And>run. sequential_rounds env seeds pks = Inr run \<Longrightarrow> messages_fit env w per run"
    and keys: "keys_num_subcircuits pks = w * per" "\<forall>i < w * per. \<exists>pk. keys_get_pk pks i = Inr pk" "keys_fit env circ seeds pks"
    and start: "node_coordinator_new env pks = Inr nc" "ne_rand_circuit env (nc_circ_params nc) = Inr circ"
    and ops: "op_mem_type (ne_ops env) = Ram" "op_num_subcircuits (ne_ops env) circ = w * per"
    and traced: "ram_setup_run (map (op_generate (ne_ops env) circ) [0..<w * per]) setup_ram_new = Inr (True, s)"
      "op_portal_subtraces (ne_ops env) circ = Inr (map (map RamEntry) (sm_subtraces s))"
    and cap: "length (concat (sm_subtraces s)) \<le> 2 ^ 32" "concat (sm_subtraces s) \<noteq> []"
    and contract: "\<forall>i < w * per. witness_contract (ne_ops env) circ i"
    and ml: "merkle_complete (ne_ml env)" "\<forall>ls. length ls = w * per \<longrightarrow> mt_new (ne_ml env) ls \<noteq> None"
    and com: "\<And>coms. length coms = w * per \<Longrightarrow> \<exists>sc. ip_commit_only_left (fst (nc_agg_pk nc)) coms = Inr sc"
  shows "\<exists>run. work_rounds env mp w (w + 1) parallel threads seeds pks = Inr run
     \<and> length (rn_satisfied run) = w * per \<and> (\<forall>ok \<in> set (rn_satisfied run). ok)
     \<and> work env mp w (w + 1) parallel threads seeds pks = node_aggregate env (rn_responses1 run) (rn_coordinator run)"
proof -
  obtain run where run: "sequential_rounds env seeds pks = Inr run" "length (rn_satisfied run) = w * per" "\<forall>ok \<in> set (rn_satisfied run). ok"
    using sequential_ram_completes [OF keys start ops traced cap contract ml com] by blast
  have "work_rounds env mp w (w + 1) parallel threads seeds pks = Inr run"
    using distributed_is_sequential [OF mpi(1-3) keys(1) mpi(4,5) fit [OF run(1)] run(1)] .
  with run show ?thesis by (intro exI [of _ run]) (simp add: work_def)
qed

section \<open>Runs that go wrong\<close>

lemma rbind_fails:
  "(\<And>x. \<exists>e. f x = Inl e) \<Longrightarrow> \<exists>e. rbind m f = Inl e"
  "(\<And>x y. \<exists>e. g x y = Inl e) \<Longrightarrow> \<exists>e. rbind n (\<lambda>(x, y). g x y) = Inl e"
  by (cases m, auto) (cases n, auto)

lemma rbind_fails_first: "\<exists>e. m = Inl e \<Longrightarrow> \<exists>e. rbind m f = Inl e"
  by auto

lemma worker_round_0_no_threads: "\<exists>e. worker_round_0 env True 1 seeds states msg = Inl e"
proof -
  have threads: "worker_threads True 1 = Inr 0" by (simp add: worker_threads_def)
  show ?thesis
    unfolding worker_round_0_def threads rbind_simps
    by (rule rbind_fails(1), rule rbind_fails_first, rule compute_responses_no_threads)
qed

text \<open>
  C38: With the parallel feature and a thread pool of one thread no run ends: the thread that a worker
  leaves to itself is its only one, and the size of a chunk is the number of requests divided by zero.
\<close>

theorem single_thread_worker_panics:
  "\<exists>e. work env mp num_workers (Suc (Suc n)) True 1 seeds pks = Inl e"
proof -
  have ranks: "[1..<Suc (Suc n)] = 1 # [2..<Suc (Suc n)]" by (simp add: upt_conv_Cons numeral_2_eq_2 del: upt_Suc)
  have round: "\<exists>e. rmap (\<lambda>rank. worker_round_0 env True 1 seeds states (msg rank)) [1..<Suc (Suc n)] = Inl e" for states msg
    unfolding ranks rmap.simps by (rule rbind_fails_first) (rule worker_round_0_no_threads)
  show ?thesis
    unfolding work_def work_rounds_def Let_def
    by (rule rbind_fails_first, rule rbind_fails(1), rule rbind_fails(1), rule rbind_fails(1), rule rbind_fails(2), rule rbind_fails(1),
        rule rbind_fails(1), rule rbind_fails_first, rule round)
qed

text \<open>What a worker keeps and what it proves with.\<close>

lemma worker_stage_1_proof:
  fixes st :: "('f::field, 'c, 'dig, 'path, 'g1, 'g2, 'rnd) worker_state"
  assumes "worker_stage_1 env req st = Inr (r, ok)" "ws_cb st = Some (pk, cb)"
  shows "\<exists>cb'. ne_prove env pk cb' [ws_com st] [ws_com_rand st] = Inr (s1_proof r)
     \<and> (\<forall>(st' :: ('f, 'c, 'dig, 'path, 'g1, 'g2, 'rnd) worker_state) pf. ws_cb st' = Some (pk, cb) \<and> ne_prove env pk cb' [ws_com st'] [ws_com_rand st'] = Inr pf \<longrightarrow>
          worker_stage_1 env req st' = Inr (\<lparr>s1_idx = r1_idx req, s1_proof = pf\<rparr>, ok))"
proof -
  obtain chals circ cb' where "eval_challenges (leaf_evals (r1_cur_leaf req)) = Inr chals" "sp_idx cb = r1_idx req"
    "rbind (op_new (ne_ops env) (r1_params req)) (op_set_witnesses (ne_ops env) (r1_idx req) (r1_witnesses req)) = Inr circ"
    "subcircuit_generate (ne_ops env) (ne_ml env) (\<lambda>_. True) 1 (cb\<lparr>sp_circ := Some circ, sp_cur_leaf := r1_cur_leaf req,
        sp_path := r1_path req, sp_root := r1_root req, sp_challenges := chals\<rparr>) = Inr (cb', ok)"
    and "ne_prove env pk cb' [ws_com st] [ws_com_rand st] = Inr (s1_proof r)"
    using assms by (auto simp: worker_stage_1_def process_stage1_request_with_cb_def Let_def res_simps)
  then show ?thesis
    by (intro exI [of _ cb']) (auto simp: worker_stage_1_def process_stage1_request_with_cb_def Let_def)
qed

text \<open>
  C30: A subcircuit's proof carries the commitment its worker answered stage 0 with, the one the super
  commitment and so the challenges are made from.
\<close>

theorem proofs_carry_stage0_commitments:
  assumes "env_ok env" "sequential_rounds env seeds pks = Inr run" "i < length (rn_responses1 run)"
    and "\<And>pk cb coms rands pf. ne_prove env pk cb coms rands = Inr pf \<Longrightarrow> pr_ds pf = coms"
  shows "pr_ds (s1_proof (rn_responses1 run ! i)) = [s0_com (rn_responses0 run ! i)]"
proof -
  obtain nc nc1 sts results where "node_coordinator_new env pks = Inr nc" "node_stage_0 env nc = Inr (rn_requests0 run, nc1)"
    and r0: "list_all2 (\<lambda>req y. worker_stage_0 env (seeds (r0_idx req)) req (worker_new env 0 pks) = Inr y) (rn_requests0 run) (zip (rn_responses0 run) sts)"
    and lens: "length (rn_responses0 run) = length (rn_requests0 run)" "length sts = length (rn_requests0 run)"
    and "node_stage_1 env (rn_responses0 run) nc1 = Inr (rn_requests1 run, rn_coordinator run)"
    and r1: "list_all2 (\<lambda>(req, st) y. worker_stage_1 env req st = Inr y) (zip (rn_requests1 run) sts) results"
    and out: "rn_responses1 run = map fst results" "rn_satisfied run = map snd results"
    by (rule sequential_rounds_steps [OF assms(1,2)])
  have i: "i < length (zip (rn_requests1 run) sts)" "i < length results"
    using list_all2_lengthD [OF r1] assms(3) by (simp_all add: out)
  then have "worker_stage_0 env (seeds (r0_idx (rn_requests0 run ! i))) (rn_requests0 run ! i) (worker_new env 0 pks) = Inr (rn_responses0 run ! i, sts ! i)"
    using list_all2_nthD [OF r0, of i] lens by simp
  then obtain pk cb where com: "ws_com (sts ! i) = s0_com (rn_responses0 run ! i)" "ws_cb (sts ! i) = Some (pk, cb)"
    unfolding worker_stage_0_iff by auto
  have s1: "worker_stage_1 env (rn_requests1 run ! i) (sts ! i) = Inr (fst (results ! i), snd (results ! i))"
    using list_all2_nthD [OF r1 i(1)] i by simp
  from worker_stage_1_proof [OF s1 com(2)] obtain cb'
    where "ne_prove env pk cb' [ws_com (sts ! i)] [ws_com_rand (sts ! i)] = Inr (s1_proof (fst (results ! i)))" by blast
  then show ?thesis using i(2) assms(4) by (simp add: out com)
qed

text \<open>The stages of one subcircuit with another seed in stage 1.\<close>

lemma worker_recommits:
  fixes ws :: "('f::field, 'c, 'dig, 'path, 'g1, 'g2, 'rnd) worker_state"
  assumes "worker_stage_0 env seed req0 ws = Inr (resp, ws')" "worker_stage_1 env req1 ws' = Inr (r, ok)"
    and "\<And>pk cb coms rands pf. ne_prove env pk cb coms rands = Inr pf \<Longrightarrow> pr_ds pf = coms"
    and "\<And>pk cb s s' x. ne_commit env pk s cb = Inr x \<Longrightarrow> \<exists>y. ne_commit env pk s' cb = Inr y"
    and "\<And>pk cb com com' rand rand' x. ne_prove env pk cb [com] [rand] = Inr x \<Longrightarrow> \<exists>y. ne_prove env pk cb [com'] [rand'] = Inr y"
    and "ws_g16_pks ws = pks"
  shows "\<exists>r' pk rand com' rand'. rbind (worker_stage_0 env seed' req0 ws) (\<lambda>(resp, state). worker_stage_1 env req1 state) = Inr (r', ok)
     \<and> keys_get_pk pks (r0_idx req0) = Inr pk
     \<and> ne_commit env pk seed (committed_prover (ne_ops env) (ne_ml env) req0) = Inr (s0_com resp, rand)
     \<and> ne_commit env pk seed' (committed_prover (ne_ops env) (ne_ml env) req0) = Inr (com', rand')
     \<and> pr_ds (s1_proof r') = [com']"
proof -
  let ?cb = "committed_prover (ne_ops env) (ne_ml env) req0"
  obtain pk rand where pk: "keys_get_pk (ws_g16_pks ws) (r0_idx req0) = Inr pk"
    and commit: "ne_commit env pk seed ?cb = Inr (s0_com resp, rand)" and cb: "ws_cb ws' = Some (pk, ?cb)"
    using assms(1) unfolding worker_stage_0_iff by auto
  obtain com' rand' where commit': "ne_commit env pk seed' ?cb = Inr (com', rand')" using assms(4) [OF commit, of seed'] by auto
  let ?ws = "ws\<lparr>ws_cb := Some (pk, ?cb), ws_com := com', ws_com_rand := ne_rand_from_seed env seed'\<rparr>"
  have s0: "worker_stage_0 env seed' req0 ws = Inr (\<lparr>s0_idx = r0_idx req0, s0_com = com', s0_seed = seed'\<rparr>, ?ws)"
    unfolding worker_stage_0_iff by (rule exI [of _ pk], rule exI [of _ com'], rule exI [of _ rand']) (simp add: pk commit')
  from worker_stage_1_proof [OF assms(2) cb] obtain cb' where
    old: "ne_prove env pk cb' [ws_com ws'] [ws_com_rand ws'] = Inr (s1_proof r)"
    and replay: "\<And>(st' :: ('f, 'c, 'dig, 'path, 'g1, 'g2, 'rnd) worker_state) pf. ws_cb st' = Some (pk, ?cb) \<Longrightarrow> ne_prove env pk cb' [ws_com st'] [ws_com_rand st'] = Inr pf \<Longrightarrow>
          worker_stage_1 env req1 st' = Inr (\<lparr>s1_idx = r1_idx req1, s1_proof = pf\<rparr>, ok)" by blast
  obtain pf where pf: "ne_prove env pk cb' [ws_com ?ws] [ws_com_rand ?ws] = Inr pf" using assms(5) [OF old] by blast
  have "worker_stage_1 env req1 ?ws = Inr (\<lparr>s1_idx = r1_idx req1, s1_proof = pf\<rparr>, ok)" by (rule replay [OF _ pf]) simp
  then have "rbind (worker_stage_0 env seed' req0 ws) (\<lambda>(resp, state). worker_stage_1 env req1 state) = Inr (\<lparr>s1_idx = r1_idx req1, s1_proof = pf\<rparr>, ok)"
    by (simp only: s0 rbind_simps prod.case)
  moreover have "pr_ds pf = [com']" using assms(3) [OF pf] by simp
  ultimately show ?thesis using pk commit commit' assms(6) by fastforce
qed

text \<open>
  C31: A run in one process proves something else than it committed to. Where the distributed run succeeds, the run in
  one process succeeds with the same coordinator, but the proof of every subcircuit carries the commitment that is made
  with the fresh seed of stage 1, not the one of its stage 0 response, made with the seed of stage 0, that the super
  commitment is made from. The proof is for the commitment the coordinator knows only if both seeds happen to give the
  same one. Whether a commitment or a proof fails must not depend on the randomness, as it does not in the commitment builder.
\<close>

theorem one_process_run_recommits:
  assumes "env_ok env" "sequential_rounds env seeds0 pks = Inr run" "0 < num_concurrent_proofs"
    and "\<And>pk cb coms rands pf. ne_prove env pk cb coms rands = Inr pf \<Longrightarrow> pr_ds pf = coms"
    and "\<And>pk cb s s' x. ne_commit env pk s cb = Inr x \<Longrightarrow> \<exists>y. ne_commit env pk s' cb = Inr y"
    and "\<And>pk cb com com' rand rand' x. ne_prove env pk cb [com] [rand] = Inr x \<Longrightarrow> \<exists>y. ne_prove env pk cb [com'] [rand'] = Inr y"
  shows "\<exists>run'. aio_rounds env num_concurrent_proofs seeds0 seeds1 pks = Inr run'
     \<and> rn_coordinator run' = rn_coordinator run \<and> rn_satisfied run' = rn_satisfied run \<and> rn_responses0 run' = rn_responses0 run
     \<and> length (rn_responses1 run') = keys_num_subcircuits pks
     \<and> (\<forall>i < keys_num_subcircuits pks. \<exists>pk rand0 com1 rand1. keys_get_pk pks i = Inr pk
          \<and> ne_commit env pk (seeds0 i) (committed_prover (ne_ops env) (ne_ml env) (rn_requests0 run ! i)) = Inr (s0_com (rn_responses0 run' ! i), rand0)
          \<and> ne_commit env pk (seeds1 i) (committed_prover (ne_ops env) (ne_ml env) (rn_requests0 run ! i)) = Inr (com1, rand1)
          \<and> pr_ds (s1_proof (rn_responses1 run' ! i)) = [com1])"
proof -
  let ?ws = "worker_new env (keys_num_subcircuits pks) pks" and ?n = "keys_num_subcircuits pks"
  obtain nc nc1 sts results where nc: "node_coordinator_new env pks = Inr nc" "node_stage_0 env nc = Inr (rn_requests0 run, nc1)"
    and r0: "list_all2 (\<lambda>req y. worker_stage_0 env (seeds0 (r0_idx req)) req ?ws = Inr y) (rn_requests0 run) (zip (rn_responses0 run) sts)"
    and lens: "length (rn_responses0 run) = length (rn_requests0 run)" "length sts = length (rn_requests0 run)"
    and q: "node_stage_1 env (rn_responses0 run) nc1 = Inr (rn_requests1 run, rn_coordinator run)"
    and r1: "list_all2 (\<lambda>(req, st) y. worker_stage_1 env req st = Inr y) (zip (rn_requests1 run) sts) results"
    and out: "rn_responses1 run = map fst results" "rn_satisfied run = map snd results"
    by (rule sequential_rounds_steps [OF assms(1,2)])
  have len0: "length (rn_requests0 run) = ?n" and idx: "\<And>i. i < ?n \<Longrightarrow> r0_idx (rn_requests0 run ! i) = i"
    using node_stage_0_shape [OF nc(2)] node_stage_0_idx [OF nc(2)] node_coordinator_new_pks [OF nc(1)] by simp_all
  have lenq: "length (rn_requests1 run) = ?n"
    using node_stage_1_shape [OF q] node_stage_0_shape [OF nc(2)] node_coordinator_new_pks [OF nc(1)] by simp
  have lenr: "length results = ?n" using list_all2_lengthD [OF r1] lens len0 lenq by simp
  let ?step = "\<lambda>(req0, req1). rbind (worker_stage_0 env (seeds1 (r0_idx req0)) req0 ?ws) (\<lambda>(resp, state). worker_stage_1 env req1 state)"
  let ?zs = "zip (rn_requests0 run) (rn_requests1 run)"
  let ?carries = "\<lambda>i r'. \<exists>pk rand0 com1 rand1. keys_get_pk pks i = Inr pk
      \<and> ne_commit env pk (seeds0 i) (committed_prover (ne_ops env) (ne_ml env) (rn_requests0 run ! i)) = Inr (s0_com (rn_responses0 run ! i), rand0)
      \<and> ne_commit env pk (seeds1 i) (committed_prover (ne_ops env) (ne_ml env) (rn_requests0 run ! i)) = Inr (com1, rand1)
      \<and> pr_ds (s1_proof r') = [com1]"
  define good where "good i r' \<longleftrightarrow> ?step (?zs ! i) = Inr (r', snd (results ! i)) \<and> ?carries i r'" for i r'
  have one: "\<exists>r'. good i r'" if i: "i < ?n" for i
  proof -
    have s0: "worker_stage_0 env (seeds0 i) (rn_requests0 run ! i) ?ws = Inr (rn_responses0 run ! i, sts ! i)"
      using list_all2_nthD [OF r0, of i] lens len0 idx [OF i] i by simp
    have s1: "worker_stage_1 env (rn_requests1 run ! i) (sts ! i) = Inr (fst (results ! i), snd (results ! i))"
      using list_all2_nthD [OF r1, of i] lens len0 lenq i by simp
    have "\<exists>r' pk rand com' rand'. rbind (worker_stage_0 env (seeds1 i) (rn_requests0 run ! i) ?ws) (\<lambda>(resp, state). worker_stage_1 env (rn_requests1 run ! i) state)
          = Inr (r', snd (results ! i))
        \<and> keys_get_pk pks (r0_idx (rn_requests0 run ! i)) = Inr pk
        \<and> ne_commit env pk (seeds0 i) (committed_prover (ne_ops env) (ne_ml env) (rn_requests0 run ! i)) = Inr (s0_com (rn_responses0 run ! i), rand)
        \<and> ne_commit env pk (seeds1 i) (committed_prover (ne_ops env) (ne_ml env) (rn_requests0 run ! i)) = Inr (com', rand')
        \<and> pr_ds (s1_proof r') = [com']"
      by (rule worker_recommits [OF s0 s1]) (fact assms(4), fact assms(5), fact assms(6), simp add: worker_new_def)
    then obtain r' pk rand com' rand' where r':
      "rbind (worker_stage_0 env (seeds1 i) (rn_requests0 run ! i) ?ws) (\<lambda>(resp, state). worker_stage_1 env (rn_requests1 run ! i) state) = Inr (r', snd (results ! i))"
      and "keys_get_pk pks i = Inr pk"
        "ne_commit env pk (seeds0 i) (committed_prover (ne_ops env) (ne_ml env) (rn_requests0 run ! i)) = Inr (s0_com (rn_responses0 run ! i), rand)"
        "ne_commit env pk (seeds1 i) (committed_prover (ne_ops env) (ne_ml env) (rn_requests0 run ! i)) = Inr (com', rand')" "pr_ds (s1_proof r') = [com']"
      unfolding idx [OF i] by (elim exE conjE) (rule that)
    then have "?carries i r'" by blast
    moreover have "?step (?zs ! i) = Inr (r', snd (results ! i))" using r' i lenq len0 idx [OF i] by simp
    ultimately have "good i r'" unfolding good_def by (rule conjI [rotated])
    then show ?thesis by (rule exI)
  qed
  then obtain r' where good: "\<And>i. i < ?n \<Longrightarrow> good i (r' i)" by metis
  have r': "?step (?zs ! i) = Inr (r' i, snd (results ! i))" "?carries i (r' i)" if "i < ?n" for i
    using good [OF that] unfolding good_def by (rule conjunct1, rule conjunct2)
  let ?rs = "map (\<lambda>i. (r' i, snd (results ! i))) [0..<?n]"
  have steps: "rmap ?step ?zs = Inr ?rs"
    unfolding rmap_list_all2 by (rule list_all2_all_nthI) (simp_all add: lenq len0 r' del: nth_zip)
  have firsts: "rmap (\<lambda>req. result_map fst (worker_stage_0 env (seeds0 (r0_idx req)) req ?ws)) (rn_requests0 run) = Inr (rn_responses0 run)"
    unfolding rmap_list_all2 by (rule list_all2_all_nthI) (use list_all2_nthD [OF r0] lens in \<open>simp_all\<close>)
  have sat: "map snd ?rs = rn_satisfied run" by (rule nth_equalityI) (simp_all add: out lenr)
  have run': "aio_rounds env num_concurrent_proofs seeds0 seeds1 pks = Inr \<lparr>rn_requests0 = rn_requests0 run, rn_responses0 = rn_responses0 run,
      rn_requests1 = rn_requests1 run, rn_responses1 = map fst ?rs, rn_satisfied = map snd ?rs, rn_coordinator = rn_coordinator run\<rparr>"
    unfolding aio_rounds_def Let_def nc rbind_simps prod.case firsts q udiv_def steps using assms(3) by simp
  show ?thesis by (rule exI, rule conjI, rule run') (use r'(2) in \<open>simp add: sat [simplified]\<close>)
qed

section \<open>A run of two workers\<close>

text \<open>
  The circuit of two subcircuits of the protocol theory, one for each worker; the groups are rationals and a
  message is serialised to its number.
\<close>

definition pair_codec :: "'a list \<Rightarrow> 'a list codec" where
  "pair_codec xs = \<lparr>cod_ser = (\<lambda>x. if x = take 1 xs then [0] else [1]),
     cod_de = (\<lambda>bs. case bs of [] \<Rightarrow> None | b # _ \<Rightarrow> Some (if b = 0 then take 1 xs else drop 1 xs)), cod_size = (\<lambda>_. 1)\<rparr>"

lemma pair_codec_facts:
  assumes "length xs = 2"
  shows "codec_ok (pair_codec xs) (set (chunks 1 xs))" "sum_list (map (packs (pair_codec xs)) (chunks 1 xs)) = 2"
    "cod_size (pair_codec xs) y = 1"
proof -
  from assms obtain a b where "xs = [a, b]" by (auto simp: numeral_2_eq_2 length_Suc_conv)
  then show "codec_ok (pair_codec xs) (set (chunks 1 xs))" "sum_list (map (packs (pair_codec xs)) (chunks 1 xs)) = 2"
    "cod_size (pair_codec xs) y = 1"
    by (simp_all add: codec_ok_def pair_codec_def packs_def chunks_unfold)
qed

definition toy_base_env ::
    "(rat, unit, unit, rat list list, rat list list, nat, rat, rat, rat, rat, rat, (rat, rat) ipp_witness, nat, nat, nat) node_env" where
  "toy_base_env = \<lparr>ne_ops = pair_ops Ram (map (map RamEntry) pair_ram_trace), ne_rand_circuit = (\<lambda>_. Inr ()), ne_ml = flat_merkle,
     ne_sha256 = (\<lambda>_. [3]), ne_ser_super_com = (\<lambda>_. []), ne_root_elems = concat, ne_pl = groth_toy_pairing,
     ne_tipa_setup = (\<lambda>n. Inr (toy_ipp n)), ne_transcript = toy_transcript, ne_new_transcript = 0,
     ne_generate_parameters = (\<lambda>sc. Inr (toy_agg_pk [1, 1, 1, 1, 1, 1] (sp_idx sc))),
     ne_commit = (\<lambda>pk seed sc. Inr (of_nat (seed + sp_idx sc), seed)),
     ne_prove = (\<lambda>pk sc coms rands. Inr \<lparr>pr_a = 1, pr_b = 1, pr_c = 1, pr_ds = coms\<rparr>), ne_rand_from_seed = id,
     ne_default_com = 0, ne_default_seed = 0, ne_default_rand = 0, ne_default_proof = \<lparr>pr_a = 0, pr_b = 0, pr_c = 0, pr_ds = []\<rparr>,
     ne_params_codec = \<lparr>cod_ser = (\<lambda>_. []), cod_de = (\<lambda>_. Some ()), cod_size = (\<lambda>_. 0)\<rparr>,
     ne_requests0 = pair_codec [], ne_requests1 = pair_codec [], ne_responses0 = pair_codec [], ne_responses1 = pair_codec []\<rparr>"

type_synonym toy_rounds =
  "(rat stage0_request, (rat, nat) stage0_response, (rat, unit, rat list list, nat) stage1_request, (rat, rat) cp_proof stage1_response,
    (rat, unit, rat, rat, rat, rat, (rat, rat) ipp_witness, nat, rat list list, nat) node_coordinator) rounds"

definition toy_env ::
    "toy_rounds \<Rightarrow> (rat, unit, unit, rat list list, rat list list, nat, rat, rat, rat, rat, rat, (rat, rat) ipp_witness, nat, nat, nat) node_env" where
  "toy_env run = toy_base_env\<lparr>ne_requests0 := pair_codec (rn_requests0 run), ne_requests1 := pair_codec (rn_requests1 run),
     ne_responses0 := pair_codec (rn_responses0 run), ne_responses1 := pair_codec (rn_responses1 run)\<rparr>"

definition toy_keys :: "(rat, rat) proving_keys" where
  "toy_keys = \<lparr>ks_circuit_id = ''pair'', ks_serialized_circ_params = [],
     ks_minimal_proving_keys = btree_collect [(0, toy_agg_pk [1, 1, 1, 1, 1, 1] 0), (1, toy_agg_pk [1, 1, 1, 1, 1, 1] 1)],
     ks_representative_map = btree_collect [(0, 0), (1, 1)]\<rparr>"

lemma toy_keys_facts:
  "keys_num_subcircuits toy_keys = 2" "i < 2 \<Longrightarrow> keys_get_pk toy_keys i = Inr (toy_agg_pk [1, 1, 1, 1, 1, 1] i)"
proof -
  show "keys_num_subcircuits toy_keys = 2"
    by (simp add: keys_num_subcircuits_def toy_keys_def btree_collect_def Mapping.size_def)
  assume "i < 2"
  then have "i = 0 \<or> i = 1" by auto
  then show "keys_get_pk toy_keys i = Inr (toy_agg_pk [1, 1, 1, 1, 1, 1] i)"
    by (auto simp: keys_get_pk_def toy_keys_def btree_collect_def lookup_update')
qed

lemma toy_env_ok: "env_ok (toy_env run)" "env_ok toy_base_env"
  by (simp_all add: env_ok_def toy_env_def toy_base_env_def)

lemma toy_keys_fit: "keys_fit (toy_env run) circ seeds pks"
  by (simp add: keys_fit_def toy_env_def toy_base_env_def)

lemma toy_env_sequential: "sequential_rounds (toy_env run) seeds pks = sequential_rounds toy_base_env seeds pks"
  by (simp add: toy_env_def sequential_rounds_codecs)

lemma toy_env_fields [simp]:
  "ne_ops (toy_env run) = pair_ops Ram (map (map RamEntry) pair_ram_trace)" "ne_rand_circuit (toy_env run) = (\<lambda>_. Inr ())"
  "ne_ml (toy_env run) = flat_merkle"
  by (simp_all add: toy_env_def toy_base_env_def)

lemma toy_coordinator:
  obtains nc where "node_coordinator_new (toy_env run) toy_keys = Inr nc" "fst (nc_agg_pk nc) = toy_ipp 2"
proof -
  obtain ak where "agg_proving_key_new (toy_ipp 2) (keys_get_pk toy_keys) = Inr ak"
    by (rule agg_proving_key_new_eq [OF toy_ipp_law, of 2 2 "keys_get_pk toy_keys" "toy_agg_pk [1, 1, 1, 1, 1, 1]"])
      (simp_all add: toy_keys_facts toy_ipp_def, simp add: toy_agg_pk_def)
  then show thesis
    by (intro that [of "\<lparr>nc_g16_pks = toy_keys, nc_agg_pk = (toy_ipp 2, ak), nc_circ_params = (), nc_stage0_state = None, nc_stage1_state = None\<rparr>"])
      (simp_all add: node_coordinator_new_def generate_agg_key_def toy_keys_facts toy_env_def toy_base_env_def Let_def)
qed

lemma toy_messages_fit:
  assumes "sequential_rounds toy_base_env seeds toy_keys = Inr run"
  shows "messages_fit (toy_env run) 2 1 run"
proof -
  have "sequential_rounds (toy_env run) seeds toy_keys = Inr run" using assms by (simp only: toy_env_sequential)
  from sequential_rounds_lengths [OF toy_env_ok(1) this]
  have len: "length (rn_requests0 run) = 2" "length (rn_responses0 run) = 2" "length (rn_requests1 run) = 2" "length (rn_responses1 run) = 2"
    by (simp_all add: toy_keys_facts)
  show ?thesis
    by (simp add: messages_fit_def toy_env_def pair_codec_facts [OF len(1)] pair_codec_facts [OF len(2)]
        pair_codec_facts [OF len(3)] pair_codec_facts [OF len(4)] del: One_nat_def)
qed

text \<open>What the honest circuit of two subcircuits gives the theorems above.\<close>

definition toy_ram_state :: "rat setup_ram" where
  "toy_ram_state = \<lparr>sm_subtraces = pair_ram_trace, sm_address = \<lparr>am_addresses = [''x'' \<mapsto> 1], am_current = 2\<rparr>,
     sm_time = increment_inplace (increment_inplace u32_default), sm_var_map = [''x'' \<mapsto> 5]\<rparr>"

lemma toy_circuit_facts:
  defines "ops \<equiv> pair_ops Ram (map (map RamEntry) pair_ram_trace)"
  shows "op_mem_type ops = Ram" "op_num_subcircuits ops () = 2"
    "ram_setup_run (map (op_generate ops ()) [0..<2]) setup_ram_new = Inr (True, toy_ram_state)"
    "op_portal_subtraces ops () = Inr (map (map RamEntry) (sm_subtraces toy_ram_state))"
    "length (concat (sm_subtraces toy_ram_state)) \<le> 2 ^ 32" "concat (sm_subtraces toy_ram_state) \<noteq> []"
  using pair_ram_run by (simp_all add: ops_def pair_ops_def toy_ram_state_def) (simp_all add: pair_ram_trace_def)

lemma toy_sequential:
  obtains run where "sequential_rounds toy_base_env seeds toy_keys = Inr run"
proof -
  let ?env = "toy_env undefined"
  obtain nc where nc: "node_coordinator_new ?env toy_keys = Inr nc" "fst (nc_agg_pk nc) = toy_ipp 2"
    by (rule toy_coordinator)
  have "\<exists>run. sequential_rounds ?env seeds toy_keys = Inr run \<and> length (rn_satisfied run) = 2 \<and> (\<forall>ok \<in> set (rn_satisfied run). ok)"
  proof (rule sequential_ram_completes [OF toy_keys_facts(1) _ toy_keys_fit nc(1)])
    show "\<forall>i < 2. \<exists>pk. keys_get_pk toy_keys i = Inr pk" using toy_keys_facts(2) by blast
  qed (use toy_circuit_facts in \<open>simp_all add: pair_contract flat_merkle_complete nc(2)\<close>, simp_all add: toy_ipp_def flat_merkle_def)
  then show thesis using that by (auto simp: toy_env_sequential)
qed

theorem work_refines_sequential_witness:
  "\<exists>run. sequential_rounds toy_base_env id toy_keys = Inr run
     \<and> work_rounds (toy_env run) toy_mpi 2 3 True 4 id toy_keys = Inr run \<and> length (rn_responses1 run) = 2"
proof -
  obtain run where run: "sequential_rounds toy_base_env id toy_keys = Inr run" by (rule toy_sequential)
  then have seq: "sequential_rounds (toy_env run) id toy_keys = Inr run" by (simp only: toy_env_sequential)
  have "work_rounds (toy_env run) toy_mpi 2 (2 + 1) True 4 id toy_keys = Inr run"
    using work_refines_sequential [OF toy_mpi_ok toy_env_ok(1) _ _ _ _ toy_messages_fit [OF run] seq, of True 4] by (simp add: toy_keys_facts)
  moreover have "length (rn_responses1 run) = 2"
    using sequential_rounds_lengths(4) [OF toy_env_ok(2) run] by (simp add: toy_keys_facts)
  ultimately show ?thesis using run by auto
qed

theorem distributed_run_completes_witness:
  "\<exists>run0 run. work_rounds (toy_env run0) toy_mpi 2 3 True 4 id toy_keys = Inr run \<and> rn_satisfied run = [True, True]
     \<and> work (toy_env run0) toy_mpi 2 3 True 4 id toy_keys = node_aggregate (toy_env run0) (rn_responses1 run) (rn_coordinator run)"
proof -
  obtain run0 where run0: "sequential_rounds toy_base_env id toy_keys = Inr run0" by (rule toy_sequential)
  obtain nc where nc: "node_coordinator_new (toy_env run0) toy_keys = Inr nc" "fst (nc_agg_pk nc) = toy_ipp 2"
    by (rule toy_coordinator)
  have "\<exists>run. work_rounds (toy_env run0) toy_mpi 2 (2 + 1) True 4 id toy_keys = Inr run
     \<and> length (rn_satisfied run) = 2 * 1 \<and> (\<forall>ok \<in> set (rn_satisfied run). ok)
     \<and> work (toy_env run0) toy_mpi 2 (2 + 1) True 4 id toy_keys = node_aggregate (toy_env run0) (rn_responses1 run) (rn_coordinator run)"
  proof (rule distributed_run_completes [OF toy_mpi_ok toy_env_ok(1) _ _ _ _ _ _ toy_keys_fit nc(1)])
    fix run assume "sequential_rounds (toy_env run0) id toy_keys = Inr run"
    then have "run = run0" using run0 by (simp add: toy_env_sequential)
    then show "messages_fit (toy_env run0) 2 1 run" using toy_messages_fit [OF run0] by simp
  next
    show "\<forall>i < 2 * 1. \<exists>pk. keys_get_pk toy_keys i = Inr pk" using toy_keys_facts(2) by simp
  qed (use toy_circuit_facts toy_keys_facts(1) in \<open>simp_all add: pair_contract flat_merkle_complete nc(2)\<close>, simp_all add: toy_ipp_def flat_merkle_def)
  then obtain run where run: "work_rounds (toy_env run0) toy_mpi 2 3 True 4 id toy_keys = Inr run"
    "length (rn_satisfied run) = 2" "\<forall>ok \<in> set (rn_satisfied run). ok"
    "work (toy_env run0) toy_mpi 2 3 True 4 id toy_keys = node_aggregate (toy_env run0) (rn_responses1 run) (rn_coordinator run)" by auto
  then have "rn_satisfied run = [True, True]" by (auto simp: numeral_2_eq_2 length_Suc_conv)
  with run(1,4) show ?thesis by blast
qed

theorem proofs_carry_stage0_commitments_witness:
  "\<exists>run. sequential_rounds toy_base_env id toy_keys = Inr run
     \<and> pr_ds (s1_proof (rn_responses1 run ! 1)) = [s0_com (rn_responses0 run ! 1)]"
proof -
  obtain run where run: "sequential_rounds toy_base_env id toy_keys = Inr run" by (rule toy_sequential)
  have "1 < length (rn_responses1 run)" using sequential_rounds_lengths(4) [OF toy_env_ok(2) run] by (simp add: toy_keys_facts)
  from proofs_carry_stage0_commitments [OF toy_env_ok(2) run this] run show ?thesis by (simp add: toy_base_env_def)
qed

theorem one_process_run_recommits_witness:
  "\<exists>run. aio_rounds toy_base_env 2 id Suc toy_keys = Inr run \<and> length (rn_responses0 run) = 2
     \<and> pr_ds (s1_proof (rn_responses1 run ! 1)) \<noteq> [s0_com (rn_responses0 run ! 1)]"
proof -
  obtain run where run: "sequential_rounds toy_base_env id toy_keys = Inr run" by (rule toy_sequential)
  from one_process_run_recommits [OF toy_env_ok(2) run, of 2 Suc]
  obtain run' where run': "aio_rounds toy_base_env 2 id Suc toy_keys = Inr run'" "rn_responses0 run' = rn_responses0 run"
    "\<forall>i < keys_num_subcircuits toy_keys. \<exists>pk rand0 com1 rand1. keys_get_pk toy_keys i = Inr pk
      \<and> ne_commit toy_base_env pk (id i) (committed_prover (ne_ops toy_base_env) (ne_ml toy_base_env) (rn_requests0 run ! i)) = Inr (s0_com (rn_responses0 run' ! i), rand0)
      \<and> ne_commit toy_base_env pk (Suc i) (committed_prover (ne_ops toy_base_env) (ne_ml toy_base_env) (rn_requests0 run ! i)) = Inr (com1, rand1)
      \<and> pr_ds (s1_proof (rn_responses1 run' ! i)) = [com1]"
    by (auto simp: toy_base_env_def)
  have len: "length (rn_responses0 run') = 2"
    using sequential_rounds_lengths(2) [OF toy_env_ok(2) run] by (simp add: toy_keys_facts run'(2))
  have "pr_ds (s1_proof (rn_responses1 run' ! 1)) \<noteq> [s0_com (rn_responses0 run' ! 1)]"
    using run'(3) [rule_format, of 1] by (auto simp: toy_keys_facts toy_base_env_def)
  with run'(1) len show ?thesis by blast
qed

end
