(* ===== verification/Commands_Correct.thy ===== *)
theory Commands_Correct
  imports Commands Driver_Correct
begin

text \<open>
  The command-line tools compute through their files what the coordinator's and the worker's functions compute one
  after the other; the keys that are generated are those of each subcircuit's representative, if the directory
  for them is given by an absolute path.
\<close>

section \<open>File names\<close>

lemma decimal_chars: "c \<in> set (decimal n) \<Longrightarrow> 48 \<le> (of_char c :: nat) \<and> (of_char c :: nat) < 58"
proof (induction n arbitrary: c rule: decimal.induct)
  case (1 n)
  have digit: "48 \<le> (of_char (digit k) :: nat) \<and> (of_char (digit k) :: nat) < 58" if "k < 10" for k
    using that by (simp add: of_char_digit)
  show ?case
  proof (cases "n < 10")
    case True
    with 1 have "c = digit n" by (subst (asm) decimal.simps) simp
    with digit [OF True] show ?thesis by simp
  next
    case False
    then have "set (decimal n) = insert (digit (n mod 10)) (set (decimal (n div 10)))" by (subst decimal.simps) simp
    with 1 False digit [of "n mod 10"] show ?thesis by auto
  qed
qed

lemma decimal_not_Nil: "decimal n \<noteq> []"
  by (subst decimal.simps) simp

text \<open>The prefixes the tools use end in a letter, so names with different prefixes or indices differ.\<close>

definition lettered :: "string \<Rightarrow> bool" where
  "lettered p \<longleftrightarrow> p \<noteq> [] \<and> 58 \<le> (of_char (last p) :: nat)"

lemma file_name_eq:
  assumes "lettered p" "lettered q"
  shows "file_name p i = file_name q j \<longleftrightarrow> p = q \<and> i = j"
proof -
  let ?stem = "\<lambda>p i. p @ (case i of Some i \<Rightarrow> ''_'' @ decimal i | None \<Rightarrow> '''')"
  have under: "CHR ''_'' \<notin> set (decimal n)" for n using decimal_chars [of "CHR ''_''" n] by auto
  have some: "?stem p (Some a) = ?stem q (Some b) \<longleftrightarrow> p = q \<and> a = b" for a b
  proof -
    have "?stem p (Some a) = ?stem q (Some b) \<longleftrightarrow> rev (?stem p (Some a)) = rev (?stem q (Some b))" by (simp only: rev_is_rev_conv)
    also have "\<dots> \<longleftrightarrow> rev (decimal a) @ CHR ''_'' # rev p = rev (decimal b) @ CHR ''_'' # rev q" by simp
    also have "\<dots> \<longleftrightarrow> p = q \<and> a = b" using under by (subst append_separator_eq) auto
    finally show ?thesis .
  qed
  have ends: "(of_char (last (?stem p (Some a))) :: nat) < 58" for p a
    using decimal_chars [of "last (decimal a)" a] decimal_not_Nil [of a] by simp
  have mixed: "?stem p None \<noteq> ?stem q (Some b)" "?stem p (Some a) \<noteq> ?stem q None" for a b
    using ends [of q b] ends [of p a] assms by (auto simp: lettered_def dest!: arg_cong [where f = last])
  have "file_name p i = file_name q j \<longleftrightarrow> ?stem p i = ?stem q j" by (simp add: file_name_def)
  also have "\<dots> \<longleftrightarrow> p = q \<and> i = j" using some mixed by (cases i; cases j) auto
  finally show ?thesis .
qed

definition names :: "string \<Rightarrow> string set" where
  "names p = range (file_name p)"

lemma file_name_in_names: "lettered p \<Longrightarrow> lettered q \<Longrightarrow> file_name p i \<in> names q \<longleftrightarrow> p = q"
  by (auto simp: names_def file_name_eq)

lemma lettered_prefixes [simp]:
  "lettered ''g16_pk''" "lettered ''g16_ck''" "lettered ''agg_ck''" "lettered ''stage0_req''" "lettered ''stage0_resp''"
  "lettered ''stage1_req''" "lettered ''stage1_resp''" "lettered ''test_circ_params''" "lettered ''stage0_coordinator_state''"
  "lettered ''final_aggregator_state''" "lettered ''agg_proof''"
  by (simp_all add: lettered_def)

section \<open>Reading and writing\<close>

definition plain :: "file_system \<Rightarrow> place \<Rightarrow> bool" where
  "plain fs p \<longleftrightarrow> (\<forall>d name. fs_nodes fs p \<noteq> Some (Symlink d name))"

abbreviation put :: "place \<Rightarrow> u8 list \<Rightarrow> file_system \<Rightarrow> file_system" where
  "put p buf fs \<equiv> fs\<lparr>fs_nodes := (fs_nodes fs)(p \<mapsto> Regular buf)\<rparr>"

lemma follow_plain: "plain fs p \<Longrightarrow> follow (Suc n) fs p = Some p"
  by (auto simp: plain_def split: option.splits file_node.splits)

lemma write_plain: "plain fs p \<Longrightarrow> fs_dirs fs (fst p) \<Longrightarrow> write_file p buf fs = Some (put p buf fs)"
  unfolding write_file_def follow_plain by simp

lemma read_regular: "fs_nodes fs p = Some (Regular buf) \<Longrightarrow> read_file fs p = Some buf"
  unfolding read_file_def by (simp add: follow_plain plain_def del: follow.simps)

text \<open>A link to a file is read as the file.\<close>

lemma read_link:
  assumes "fs_nodes fs p = Some (Symlink d name)" "fs_nodes fs (locate (fs_dirs fs) (fst p) d name) = Some (Regular buf)"
  shows "read_file fs p = Some buf"
  using assms unfolding read_file_def max_links_def by (simp add: eval_nat_numeral)

lemma fst_locate: "fst (locate dirs base d name) = fst (locate dirs base d name')"
  by (cases d) simp_all

lemma snd_locate [simp]: "snd (locate dirs base d name) = name"
  by (cases d) simp_all

lemma locate_eq [simp]: "locate dirs base d name = locate dirs base d name' \<longleftrightarrow> name = name'"
  by (cases d) simp_all

definition reads_back :: "'a codec \<Rightarrow> 'a \<Rightarrow> bool" where
  "reads_back c x \<longleftrightarrow> cod_de c (cod_ser c x) = Some x"

abbreviation file_at :: "file_system \<Rightarrow> dir \<Rightarrow> string \<Rightarrow> nat option \<Rightarrow> place" where
  "file_at fs d p index \<equiv> locate (fs_dirs fs) (fs_cwd fs) d (file_name p index)"

definition stored :: "file_system \<Rightarrow> 'a codec \<Rightarrow> dir \<Rightarrow> string \<Rightarrow> nat option \<Rightarrow> 'a \<Rightarrow> bool" where
  "stored fs c d p index x \<longleftrightarrow> fs_nodes fs (file_at fs d p index) = Some (Regular (cod_ser c x)) \<and> reads_back c x"

lemma stored_read: "stored fs c d p index x \<Longrightarrow> deserialize_from_path c d p index fs = Inr x"
  by (auto simp: stored_def reads_back_def deserialize_from_path_def dest: read_regular)

text \<open>What a step may do to the files: it writes regular files with names of a given set.\<close>

definition only :: "string set \<Rightarrow> file_system \<Rightarrow> file_system \<Rightarrow> bool" where
  "only N fs fs' \<longleftrightarrow> fs_cwd fs' = fs_cwd fs \<and> fs_dirs fs' = fs_dirs fs
     \<and> (\<forall>p. fs_nodes fs' p = fs_nodes fs p \<or> snd p \<in> N \<and> (\<exists>buf. fs_nodes fs' p = Some (Regular buf)))"

lemma only_refl: "only N fs fs"
  by (simp add: only_def)

lemma only_trans: "only N fs fs' \<Longrightarrow> only N fs' fs'' \<Longrightarrow> only N fs fs''"
  unfolding only_def by metis

lemma only_mono: "only N fs fs' \<Longrightarrow> N \<subseteq> M \<Longrightarrow> only M fs fs'"
  unfolding only_def by blast

lemma only_put: "snd p \<in> N \<Longrightarrow> only N fs (put p buf fs)"
  by (auto simp: only_def)

lemma only_plain: "only N fs fs' \<Longrightarrow> plain fs p \<Longrightarrow> plain fs' p"
  unfolding only_def plain_def by (metis file_node.distinct(1) option.inject)

lemma only_stored: "only N fs fs' \<Longrightarrow> stored fs c d p index x \<Longrightarrow> file_name p index \<notin> N \<Longrightarrow> stored fs' c d p index x"
  unfolding only_def stored_def by (metis snd_locate)

lemma serialize_plain:
  assumes "plain fs (file_at fs d p index)" "fs_dirs fs (fst (file_at fs d p index))" "file_name p index \<in> N"
  obtains fs' where "serialize_to_path c x d p index fs = Some fs'" "only N fs fs'"
    "fs_nodes fs' (file_at fs d p index) = Some (Regular (cod_ser c x))"
proof
  show "serialize_to_path c x d p index fs = Some (put (file_at fs d p index) (cod_ser c x) fs)"
    unfolding serialize_to_path_def by (rule write_plain [OF assms(1,2)])
qed (use assms(3) in \<open>simp_all add: only_put\<close>)

section \<open>Files of a session\<close>

text \<open>What a session needs of the file system: its directories exist, and none of the files it writes is a link.\<close>

definition session_prefixes :: "string list" where
  "session_prefixes = [''stage0_req'', ''stage0_resp'', ''stage1_req'', ''stage1_resp'', ''stage0_coordinator_state'',
     ''final_aggregator_state'', ''agg_proof'']"

definition session_names :: "string set" where
  "session_names = (\<Union>p \<in> set session_prefixes. names p)"

definition session_ready :: "dir list \<Rightarrow> file_system \<Rightarrow> bool" where
  "session_ready ds fs \<longleftrightarrow> (\<forall>d \<in> set ds. fs_dirs fs (fst (locate (fs_dirs fs) (fs_cwd fs) d []))) \<and> (\<forall>p. snd p \<in> session_names \<longrightarrow> plain fs p)"

lemma session_ready_only: "session_ready ds fs \<Longrightarrow> only N fs fs' \<Longrightarrow> session_ready ds fs'"
  unfolding session_ready_def using only_plain by (auto simp: only_def)

lemma session_name: "p \<in> set session_prefixes \<Longrightarrow> file_name p i \<in> session_names"
  by (auto simp: session_names_def names_def)

lemma not_session_name [simp]:
  "lettered q \<Longrightarrow> q \<notin> set session_prefixes \<Longrightarrow> file_name q i \<notin> session_names"
  by (auto simp: session_names_def session_prefixes_def file_name_in_names)

lemma session_plain: "session_ready ds fs \<Longrightarrow> snd p \<in> session_names \<Longrightarrow> plain fs p"
  by (simp only: session_ready_def)

lemma session_write:
  assumes "session_ready ds fs" "d \<in> set ds" "p \<in> set session_prefixes"
  obtains fs' where "serialize_to_path c x d p index fs = Some fs'" "only {file_name p index} fs fs'"
    "fs_nodes fs' (file_at fs d p index) = Some (Regular (cod_ser c x))"
proof -
  have "plain fs (file_at fs d p index)" by (rule session_plain [OF assms(1)]) (simp add: session_name [OF assms(3)])
  moreover have "fs_dirs fs (fst (file_at fs d p index))" using assms(1,2) unfolding session_ready_def by (metis fst_locate)
  ultimately show thesis by (rule serialize_plain [where N = "{file_name p index}"]) (use that in auto)
qed

lemma session_write_stored:
  assumes "session_ready ds fs" "d \<in> set ds" "p \<in> set session_prefixes" "reads_back c x"
  obtains fs' where "serialize_to_path c x d p index fs = Some fs'" "only {file_name p index} fs fs'" "stored fs' c d p index x"
proof -
  obtain fs' where fs': "serialize_to_path c x d p index fs = Some fs'" "only {file_name p index} fs fs'"
    "fs_nodes fs' (file_at fs d p index) = Some (Regular (cod_ser c x))"
    by (rule session_write [OF assms(1-3)])
  show thesis by (rule that [OF fs'(1,2)]) (use fs'(2,3) assms(4) in \<open>simp add: stored_def only_def\<close>)
qed

text \<open>One file for every subcircuit.\<close>

lemma session_write_each:
  assumes "session_ready ds fs" "d \<in> set ds" "p \<in> set session_prefixes" "lettered p" "\<forall>x \<in> set xs. reads_back c x"
  obtains fs' where "rfold (\<lambda>(i, x) fs. io_unwrap (serialize_to_path c x d p (Some i) fs)) (enumerate 0 xs) fs = Inr fs'"
    "only (names p) fs fs'" "\<And>i. i < length xs \<Longrightarrow> stored fs' c d p (Some i) (xs ! i)"
proof -
  let ?w = "\<lambda>(i, x) fs. io_unwrap (serialize_to_path c x d p (Some i) fs)"
  have "\<exists>fs'. rfold ?w (enumerate 0 xs) fs = Inr fs' \<and> only (names p) fs fs' \<and> (\<forall>i < length xs. stored fs' c d p (Some i) (xs ! i))"
    using assms(5)
  proof (induction xs rule: rev_induct)
    case (snoc x xs)
    then obtain fs1 where fs1: "rfold ?w (enumerate 0 xs) fs = Inr fs1" "only (names p) fs fs1"
      "\<forall>i < length xs. stored fs1 c d p (Some i) (xs ! i)" by auto
    have rb: "reads_back c x" using snoc.prems by simp
    obtain fs2 where fs2: "serialize_to_path c x d p (Some (length xs)) fs1 = Some fs2" "only {file_name p (Some (length xs))} fs1 fs2"
      "stored fs2 c d p (Some (length xs)) x"
      by (rule session_write_stored [OF session_ready_only [OF assms(1) fs1(2)] assms(2,3) rb])
    have "only (names p) fs fs2" by (rule only_trans [OF fs1(2) only_mono [OF fs2(2)]]) (auto simp: names_def)
    moreover have "stored fs2 c d p (Some i) ((xs @ [x]) ! i)" if "i < length (xs @ [x])" for i
    proof (cases "i = length xs")
      case False
      then show ?thesis
        using that fs1(3) only_stored [OF fs2(2), of c d p "Some i" "xs ! i"] by (simp add: nth_append file_name_eq [OF assms(4,4)])
    qed (simp add: fs2(3))
    ultimately show ?case using fs1(1) fs2(1) by (simp add: enumerate_append_eq rfold_append io_unwrap_def)
  qed (simp add: only_refl)
  with that show thesis by blast
qed

text \<open>The key of a subcircuit is in a file or behind a link to one.\<close>

definition key_stored :: "('g1, 'g2) proving_key codec \<Rightarrow> file_system \<Rightarrow> dir \<Rightarrow> nat \<Rightarrow> ('g1, 'g2) proving_key \<Rightarrow> bool" where
  "key_stored c fs d i pk \<longleftrightarrow> reads_back c pk \<and>
     (fs_nodes fs (file_at fs d ''g16_pk'' (Some i)) = Some (Regular (cod_ser c pk))
      \<or> (\<exists>d' j. fs_nodes fs (file_at fs d ''g16_pk'' (Some i)) = Some (Symlink d' (file_name ''g16_pk'' j))
           \<and> fs_nodes fs (locate (fs_dirs fs) (fst (file_at fs d ''g16_pk'' (Some i))) d' (file_name ''g16_pk'' j)) = Some (Regular (cod_ser c pk))))"

lemma key_stored_read: "key_stored c fs d i pk \<Longrightarrow> deserialize_from_path c d ''g16_pk'' (Some i) fs = Inr pk"
  by (auto simp: key_stored_def reads_back_def deserialize_from_path_def dest: read_regular read_link)

lemma key_stored_only:
  assumes "only N fs fs'" "N \<inter> names ''g16_pk'' = {}" "key_stored c fs d i pk"
  shows "key_stored c fs' d i pk"
proof -
  have "fs_nodes fs' p = fs_nodes fs p" if "snd p \<in> names ''g16_pk''" for p
    using assms(1,2) that unfolding only_def by blast
  moreover have "file_name ''g16_pk'' j \<in> names ''g16_pk''" for j by (simp add: names_def)
  ultimately show ?thesis using assms(1,3) by (simp add: key_stored_def only_def)
qed

section \<open>A session with all its processes\<close>

datatype process = Coordinator coordinator_command | Worker worker_command

definition run_process where
  "run_process env seeds c fs = (case c of Coordinator c \<Rightarrow> coordinator_main env c fs | Worker w \<Rightarrow> worker_main env seeds w fs)"

definition run_session where
  "run_session env seeds = rfold (run_process env seeds)"

text \<open>After the keys are generated: the coordinator, the workers in any order, the coordinator again, the workers
  again, and the coordinator.\<close>

definition session :: "dir \<Rightarrow> dir \<Rightarrow> dir \<Rightarrow> dir \<Rightarrow> dir \<Rightarrow> nat list \<Rightarrow> nat list \<Rightarrow> process list" where
  "session pk_dir coord_dir req_dir resp0_dir resp1_dir ws0 ws1 =
     Coordinator (StartStage0 coord_dir req_dir) # map (\<lambda>i. Worker (ProcessStage0Request pk_dir req_dir resp0_dir i)) ws0
     @ Coordinator (StartStage1 coord_dir req_dir resp0_dir) # map (\<lambda>i. Worker (ProcessStage1Request pk_dir req_dir resp0_dir resp1_dir i)) ws1
     @ [Coordinator (EndProof coord_dir resp1_dir)]"

text \<open>Workers that each write one response.\<close>

lemma session_workers:
  assumes "session_ready ds fs" "d \<in> set ds" "p \<in> set session_prefixes" "lettered p" "\<And>i. i \<in> set ws \<Longrightarrow> reads_back c (x i)"
    and "\<And>fs' i. i \<in> set ws \<Longrightarrow> only (names p) fs fs' \<Longrightarrow> f i fs' = io_unwrap (serialize_to_path c (x i) d p (Some i) fs')"
  obtains fs' where "rfold f ws fs = Inr fs'" "only (names p) fs fs'" "\<And>i. i \<in> set ws \<Longrightarrow> stored fs' c d p (Some i) (x i)"
proof -
  have "\<exists>fs'. rfold f ws fs = Inr fs' \<and> only (names p) fs fs' \<and> (\<forall>i \<in> set ws. stored fs' c d p (Some i) (x i))"
    using assms(5,6)
  proof (induction ws rule: rev_induct)
    case (snoc i ws)
    then obtain fs1 where fs1: "rfold f ws fs = Inr fs1" "only (names p) fs fs1" "\<forall>j \<in> set ws. stored fs1 c d p (Some j) (x j)"
      by auto
    have rb: "reads_back c (x i)" using snoc.prems(1) by simp
    obtain fs2 where fs2: "serialize_to_path c (x i) d p (Some i) fs1 = Some fs2" "only {file_name p (Some i)} fs1 fs2" "stored fs2 c d p (Some i) (x i)"
      by (rule session_write_stored [OF session_ready_only [OF assms(1) fs1(2)] assms(2,3) rb])
    have step: "f i fs1 = Inr fs2" using snoc.prems(2) [of i fs1] fs1(2) fs2(1) by (simp add: io_unwrap_def)
    have "only (names p) fs fs2" by (rule only_trans [OF fs1(2) only_mono [OF fs2(2)]]) (auto simp: names_def)
    moreover have "stored fs2 c d p (Some j) (x j)" if "j \<in> set (ws @ [i])" for j
      using that fs1(3) fs2(3) only_stored [OF fs2(2), of c d p "Some j" "x j"] by (cases "j = i") (simp_all add: file_name_eq [OF assms(4,4)])
    ultimately show ?case using fs1(1) step by (simp add: rfold_append)
  qed (simp add: only_refl)
  with that show thesis by blast
qed

lemma rmap_read:
  assumes "\<And>i. i < n \<Longrightarrow> f i = Inr (xs ! i)" "length xs = n"
  shows "rmap f [0..<n] = Inr xs"
proof -
  have "rmap f [0..<n] = Inr (map (\<lambda>i. xs ! i) [0..<n])" by (rule rmap_total) (simp add: assms(1))
  also have "map (\<lambda>i. xs ! i) [0..<n] = xs" unfolding assms(2) [symmetric] by (rule map_nth)
  finally show ?thesis .
qed

definition keys_in_place where
  "keys_in_place env pks nc pk_dir coord_dir fs \<longleftrightarrow>
     stored fs (ne_params_codec env) coord_dir ''test_circ_params'' None (nc_circ_params nc)
     \<and> stored fs (ce_agg_ck env) coord_dir ''agg_ck'' None (nc_agg_pk nc)
     \<and> (\<forall>i < keys_num_subcircuits pks. \<exists>pk. keys_get_pk pks i = Inr pk \<and> key_stored (ce_pk env) fs pk_dir i pk)"

lemma keys_in_place_only:
  assumes "keys_in_place env pks nc pk_dir coord_dir fs" "only N fs fs'" "N \<subseteq> session_names"
  shows "keys_in_place env pks nc pk_dir coord_dir fs'"
proof -
  have disjoint: "N \<inter> names ''g16_pk'' = {}"
    using assms(3) by (auto simp: session_names_def session_prefixes_def names_def file_name_eq)
  have "\<exists>pk. keys_get_pk pks i = Inr pk \<and> key_stored (ce_pk env) fs' pk_dir i pk" if i: "i < keys_num_subcircuits pks" for i
  proof -
    from assms(1) i obtain pk where "keys_get_pk pks i = Inr pk" "key_stored (ce_pk env) fs pk_dir i pk"
      unfolding keys_in_place_def by blast
    with key_stored_only [OF assms(2) disjoint] show ?thesis by blast
  qed
  moreover have "file_name ''test_circ_params'' None \<notin> N" "file_name ''agg_ck'' None \<notin> N"
    using assms(3) not_session_name [of "''test_circ_params''" None] not_session_name [of "''agg_ck''" None]
    by (auto simp: session_prefixes_def)
  ultimately show ?thesis
    using assms(1) unfolding keys_in_place_def
    by (elim conjE, intro conjI only_stored [OF assms(2)]) auto
qed

lemma names_session: "p \<in> set session_prefixes \<Longrightarrow> names p \<subseteq> session_names"
  by (auto simp: session_names_def)

lemma stored_other: "only (names q) fs fs' \<Longrightarrow> stored fs c d p index x \<Longrightarrow> lettered p \<Longrightarrow> lettered q \<Longrightarrow> p \<noteq> q \<Longrightarrow> stored fs' c d p index x"
  by (erule only_stored) (simp_all add: file_name_in_names)

lemma stored_other_file:
  "only {file_name q j} fs fs' \<Longrightarrow> stored fs c d p index x \<Longrightarrow> lettered p \<Longrightarrow> lettered q \<Longrightarrow> p \<noteq> q \<Longrightarrow> stored fs' c d p index x"
  by (erule only_stored) (simp_all add: file_name_eq)

section \<open>The steps of a session\<close>

text \<open>A reference run, taken apart.\<close>

lemma sequential_parts:
  assumes "sequential_rounds env seeds pks = Inr run" "node_coordinator_new env pks = Inr nc" "keys_num_subcircuits pks = n"
  obtains circ st0 st1 results where "ne_rand_circuit env (nc_circ_params nc) = Inr circ" "coordinator0_new (ne_ops env) circ = Inr st0"
    and "rmap (gen_request0 st0) [0..<n] = Inr (rn_requests0 run)" "length (rn_requests0 run) = n"
    and "\<And>i. i < n \<Longrightarrow> r0_idx (rn_requests0 run ! i) = i \<and> (\<exists>pk. keys_get_pk pks i = Inr pk
       \<and> process_stage0_request (ne_ops env) (ne_ml env) (ne_commit env pk) (seeds i) (rn_requests0 run ! i) = Inr (rn_responses0 run ! i)
       \<and> process_stage1_request (ne_ops env) (ne_ml env) (ne_commit env pk) (ne_prove env pk) (rn_requests0 run ! i) (rn_responses0 run ! i) (rn_requests1 run ! i)
           = Inr (results ! i))"
    and "length (rn_responses0 run) = n"
    and "process_stage0_responses (ne_sha256 env) (ne_ser_super_com env) (ne_ml env) (op_mem_type (ne_ops env))
       (ip_commit_only_left (fst (nc_agg_pk nc))) (rn_responses0 run) st0 = Inr st1"
    and "rmap (gen_request1 (op_mem_type (ne_ops env)) st1) [0..<n] = Inr (rn_requests1 run)" "length (rn_requests1 run) = n"
    and "rn_responses1 run = map fst results" "length results = n"
    and "nc_stage1_state (rn_coordinator run) = Some st1" "nc_agg_pk (rn_coordinator run) = nc_agg_pk nc"
proof -
  have pks: "nc_g16_pks nc = pks" by (rule node_coordinator_new_pks [OF assms(2)])
  from assms(1,2) obtain nc1 results where s0: "node_stage_0 env nc = Inr (rn_requests0 run, nc1)"
    and r0: "list_all2 (\<lambda>req resp. \<exists>pk. keys_get_pk pks (r0_idx req) = Inr pk
        \<and> process_stage0_request (ne_ops env) (ne_ml env) (ne_commit env pk) (seeds (r0_idx req)) req = Inr resp) (rn_requests0 run) (rn_responses0 run)"
    and s1: "node_stage_1 env (rn_responses0 run) nc1 = Inr (rn_requests1 run, rn_coordinator run)"
    and r1: "list_all2 (\<lambda>(req0, resp0, req1) y. \<exists>pk. keys_get_pk pks (r0_idx req0) = Inr pk
        \<and> process_stage1_request (ne_ops env) (ne_ml env) (ne_commit env pk) (ne_prove env pk) req0 resp0 req1 = Inr y)
        (zip (rn_requests0 run) (zip (rn_responses0 run) (rn_requests1 run))) results"
    and out: "rn_responses1 run = map fst results"
    by (auto simp: sequential_rounds_def Let_def rbind_Inr_iff rmap_list_all2 case_prod_unfold)
  from s0 obtain circ st0 where circ: "ne_rand_circuit env (nc_circ_params nc) = Inr circ" "coordinator0_new (ne_ops env) circ = Inr st0"
    and q0: "rmap (gen_request0 st0) [0..<n] = Inr (rn_requests0 run)" and nc1: "nc1 = nc\<lparr>nc_stage0_state := Some st0\<rparr>"
    by (auto simp: node_stage_0_def Let_def rbind_Inr_iff pks assms(3))
  from s1 obtain st1 where st1: "process_stage0_responses (ne_sha256 env) (ne_ser_super_com env) (ne_ml env) (op_mem_type (ne_ops env))
       (ip_commit_only_left (fst (nc_agg_pk nc))) (rn_responses0 run) st0 = Inr st1"
    and q1: "rmap (gen_request1 (op_mem_type (ne_ops env)) st1) [0..<n] = Inr (rn_requests1 run)"
    and co: "rn_coordinator run = nc1\<lparr>nc_stage0_state := None, nc_stage1_state := Some st1\<rparr>"
    by (auto simp: node_stage_1_def Let_def rbind_Inr_iff pks assms(3) nc1)
  have len: "length (rn_requests0 run) = n" "length (rn_requests1 run) = n"
    using rmap_Inr_nth [OF q0] rmap_Inr_nth [OF q1] by simp_all
  then have len': "length (rn_responses0 run) = n" "length results = n"
    using list_all2_lengthD [OF r0] list_all2_lengthD [OF r1] by simp_all
  have "r0_idx (rn_requests0 run ! i) = i" if "i < n" for i
    using rmap_Inr_nth [OF q0] that gen_request0_D [of st0 i] by simp
  then have "r0_idx (rn_requests0 run ! i) = i \<and> (\<exists>pk. keys_get_pk pks i = Inr pk
       \<and> process_stage0_request (ne_ops env) (ne_ml env) (ne_commit env pk) (seeds i) (rn_requests0 run ! i) = Inr (rn_responses0 run ! i)
       \<and> process_stage1_request (ne_ops env) (ne_ml env) (ne_commit env pk) (ne_prove env pk) (rn_requests0 run ! i) (rn_responses0 run ! i) (rn_requests1 run ! i)
           = Inr (results ! i))" if "i < n" for i
    using that list_all2_nthD [OF r0, of i] list_all2_nthD [OF r1, of i] len len' by auto
  then show thesis
    by (rule that [OF circ q0 len(1) _ len'(1) st1 q1 len(2) out len'(2)]) (simp_all add: co nc1)
qed

lemma run_begin_stage0:
  assumes ready: "session_ready ds fs" "coord_dir \<in> set ds" "req_dir \<in> set ds"
    and params: "stored fs (ne_params_codec env) coord_dir ''test_circ_params'' None params" "2 * tp_num_leaves params = n"
    and run: "ne_rand_circuit env params = Inr circ" "coordinator0_new (ne_ops env) circ = Inr st0" "rmap (gen_request0 st0) [0..<n] = Inr reqs"
    and rb: "\<forall>x \<in> set reqs. reads_back (ce_request0 env) x" "reads_back (ce_state0 env) st0"
  obtains fs' where "begin_stage0 env req_dir coord_dir fs = Inr fs'" "only session_names fs fs'"
    "\<And>i. i < length reqs \<Longrightarrow> stored fs' (ce_request0 env) req_dir ''stage0_req'' (Some i) (reqs ! i)"
    "stored fs' (ce_state0 env) coord_dir ''stage0_coordinator_state'' None st0"
proof -
  have p: "''stage0_req'' \<in> set session_prefixes" "''stage0_coordinator_state'' \<in> set session_prefixes" by (simp_all add: session_prefixes_def)
  obtain fs1 where fs1: "rfold (\<lambda>(i, x) fs. io_unwrap (serialize_to_path (ce_request0 env) x req_dir ''stage0_req'' (Some i) fs)) (enumerate 0 reqs) fs = Inr fs1"
    "only (names ''stage0_req'') fs fs1" "\<And>i. i < length reqs \<Longrightarrow> stored fs1 (ce_request0 env) req_dir ''stage0_req'' (Some i) (reqs ! i)"
    by (rule session_write_each [OF ready(1,3) p(1) _ rb(1)]) (simp_all add: that)
  obtain fs2 where fs2: "serialize_to_path (ce_state0 env) st0 coord_dir ''stage0_coordinator_state'' None fs1 = Some fs2"
    "only {file_name ''stage0_coordinator_state'' None} fs1 fs2" "stored fs2 (ce_state0 env) coord_dir ''stage0_coordinator_state'' None st0"
    by (rule session_write_stored [OF session_ready_only [OF ready(1) fs1(2)] ready(2) p(2) rb(2)])
  show thesis
  proof (rule that)
    show "begin_stage0 env req_dir coord_dir fs = Inr fs2"
      using fs1(1) fs2(1) run by (simp add: begin_stage0_def stored_read [OF params(1)] params(2) Let_def io_unwrap_def)
    show "only session_names fs fs2"
      using only_mono [OF fs1(2) names_session [OF p(1)]] only_mono [OF fs2(2)] session_name [OF p(2)] only_trans by blast
    show "stored fs2 (ce_request0 env) req_dir ''stage0_req'' (Some i) (reqs ! i)" if "i < length reqs" for i
      by (rule stored_other_file [OF fs2(2) fs1(3) [OF that]]) simp_all
  qed (rule fs2(3))
qed

lemma run_process_stage0_resps:
  assumes ready: "session_ready ds fs" "coord_dir \<in> set ds" "req_dir \<in> set ds"
    and params: "stored fs (ne_params_codec env) coord_dir ''test_circ_params'' None params" "2 * tp_num_leaves params = n"
    and state: "stored fs (ce_state0 env) coord_dir ''stage0_coordinator_state'' None st0" "stored fs (ce_agg_ck env) coord_dir ''agg_ck'' None agg_ck"
    and resps: "\<And>i. i < n \<Longrightarrow> stored fs (ce_response0 env) resp_dir ''stage0_resp'' (Some i) (resps ! i)" "length resps = n"
    and run: "process_stage0_responses (ne_sha256 env) (ne_ser_super_com env) (ne_ml env) (op_mem_type (ne_ops env))
       (ip_commit_only_left (fst agg_ck)) resps st0 = Inr st1" "rmap (gen_request1 (op_mem_type (ne_ops env)) st1) [0..<n] = Inr reqs"
       "into_agg_state (ne_root_elems env) st1 = Inr ag"
    and rb: "\<forall>x \<in> set reqs. reads_back (ce_request1 env) x" "reads_back (ce_agg_state env) ag"
  obtains fs' where "process_stage0_resps env coord_dir req_dir resp_dir fs = Inr fs'"
    "only (names ''stage1_req'' \<union> names ''final_aggregator_state'') fs fs'"
    "\<And>i. i < length reqs \<Longrightarrow> stored fs' (ce_request1 env) req_dir ''stage1_req'' (Some i) (reqs ! i)"
    "stored fs' (ce_agg_state env) coord_dir ''final_aggregator_state'' None ag"
proof -
  have p: "''stage1_req'' \<in> set session_prefixes" "''final_aggregator_state'' \<in> set session_prefixes" by (simp_all add: session_prefixes_def)
  have read: "rmap (\<lambda>i. deserialize_from_path (ce_response0 env) resp_dir ''stage0_resp'' (Some i) fs) [0..<n] = Inr resps"
    by (rule rmap_read) (simp_all add: stored_read [OF resps(1)] resps(2))
  obtain fs1 where fs1: "rfold (\<lambda>(i, x) fs. io_unwrap (serialize_to_path (ce_request1 env) x req_dir ''stage1_req'' (Some i) fs)) (enumerate 0 reqs) fs = Inr fs1"
    "only (names ''stage1_req'') fs fs1" "\<And>i. i < length reqs \<Longrightarrow> stored fs1 (ce_request1 env) req_dir ''stage1_req'' (Some i) (reqs ! i)"
    by (rule session_write_each [OF ready(1,3) p(1) _ rb(1)]) (simp_all add: that)
  obtain fs2 where fs2: "serialize_to_path (ce_agg_state env) ag coord_dir ''final_aggregator_state'' None fs1 = Some fs2"
    "only {file_name ''final_aggregator_state'' None} fs1 fs2" "stored fs2 (ce_agg_state env) coord_dir ''final_aggregator_state'' None ag"
    by (rule session_write_stored [OF session_ready_only [OF ready(1) fs1(2)] ready(2) p(2) rb(2)])
  show thesis
  proof (rule that)
    show "process_stage0_resps env coord_dir req_dir resp_dir fs = Inr fs2"
      using fs1(1) fs2(1) run read
      by (simp add: process_stage0_resps_def stored_read [OF params(1)] stored_read [OF state(1)] stored_read [OF state(2)] params(2) Let_def io_unwrap_def)
    show "only (names ''stage1_req'' \<union> names ''final_aggregator_state'') fs fs2"
      by (rule only_trans [OF only_mono [OF fs1(2)] only_mono [OF fs2(2)]]) (auto simp: names_def)
    show "stored fs2 (ce_request1 env) req_dir ''stage1_req'' (Some i) (reqs ! i)" if "i < length reqs" for i
      by (rule stored_other_file [OF fs2(2) fs1(3) [OF that]]) simp_all
  qed (rule fs2(3))
qed


lemma run_process_stage1_resps:
  assumes ready: "session_ready ds fs" "coord_dir \<in> set ds"
    and params: "stored fs (ne_params_codec env) coord_dir ''test_circ_params'' None params" "2 * tp_num_leaves params = n"
    and state: "stored fs (ce_agg_state env) coord_dir ''final_aggregator_state'' None ag" "stored fs (ce_agg_ck env) coord_dir ''agg_ck'' None agg_ck"
    and resps: "\<And>i. i < n \<Longrightarrow> stored fs (ce_response1 env) resp_dir ''stage1_resp'' (Some i) (resps ! i)" "length resps = n"
  shows "process_stage1_resps env coord_dir resp_dir fs =
     rbind (gen_agg_proof (\<lambda>super_com proofs pub_inputs.
           agg_subcircuit_proofs (ne_pl env) (fst agg_ck) (ne_transcript env) (snd agg_ck) (ne_new_transcript env) super_com proofs pub_inputs)
         ag resps) (\<lambda>proof. Inr (put (file_at fs coord_dir ''agg_proof'' None) (cod_ser (ce_proof env) proof) fs))"
proof -
  have read: "rmap (\<lambda>i. deserialize_from_path (ce_response1 env) resp_dir ''stage1_resp'' (Some i) fs) [0..<n] = Inr resps"
    by (rule rmap_read) (simp_all add: stored_read [OF resps(1)] resps(2))
  have name: "file_name ''agg_proof'' None \<in> session_names" by (rule session_name) (simp add: session_prefixes_def)
  have "plain fs (file_at fs coord_dir ''agg_proof'' None)" by (rule session_plain [OF ready(1)]) (simp add: name)
  moreover have "fs_dirs fs (fst (file_at fs coord_dir ''agg_proof'' None))" using ready unfolding session_ready_def by (metis fst_locate)
  ultimately have "write_file (file_at fs coord_dir ''agg_proof'' None) buf fs = Some (put (file_at fs coord_dir ''agg_proof'' None) buf fs)" for buf
    by (rule write_plain)
  then show ?thesis
    by (simp add: process_stage1_resps_def serialize_to_path_def stored_read [OF params(1)] stored_read [OF state(1)] stored_read [OF state(2)]
        params(2) Let_def io_unwrap_def read)
qed

text \<open>A state whose first request a worker could answer can be aggregated.\<close>

lemma copied_challenges: "copy_challenges_from a b = Inr c \<Longrightarrow> eval_challenges c = eval_challenges a"
  by (cases a; cases b) auto

lemma into_agg_state_total:
  assumes "gen_request1 mt st1 0 = Inr req1" "process_stage1_request ops ml commit prove req0 resp0 req1 = Inr result"
  obtains ag where "into_agg_state root_elems st1 = Inr ag"
proof -
  from assms(1) obtain l0 ev where l0: "vindex (c1_leaves st1) 0 = Inr l0"
    and ev: "copy_challenges_from (leaf_evals l0) (leaf_evals (leaf_padding mt)) = Inr ev" "leaf_evals (r1_cur_leaf req1) = ev"
    by (auto simp: gen_request1_def Let_def rbind_Inr_iff)
  from assms(2) obtain chals where "eval_challenges (leaf_evals (r1_cur_leaf req1)) = Inr chals"
    by (auto simp: process_stage1_request_def process_stage1_request_with_cb_def Let_def rbind_Inr_iff case_prod_unfold)
  then have "eval_challenges (leaf_evals l0) = Inr chals" using copied_challenges [OF ev(1)] ev(2) by simp
  with l0 that show thesis by (simp add: into_agg_state_def)
qed

section \<open>A session computes what the protocol computes\<close>

text \<open>The values of a run that go through files read back as they were.\<close>

definition files_fit where
  "files_fit env nc run \<longleftrightarrow>
     (\<forall>x \<in> set (rn_requests0 run). reads_back (ce_request0 env) x) \<and> (\<forall>x \<in> set (rn_responses0 run). reads_back (ce_response0 env) x)
     \<and> (\<forall>x \<in> set (rn_requests1 run). reads_back (ce_request1 env) x) \<and> (\<forall>x \<in> set (rn_responses1 run). reads_back (ce_response1 env) x)
     \<and> (\<forall>circ st. ne_rand_circuit env (nc_circ_params nc) = Inr circ \<longrightarrow> coordinator0_new (ne_ops env) circ = Inr st \<longrightarrow> reads_back (ce_state0 env) st)
     \<and> (\<forall>st ag. nc_stage1_state (rn_coordinator run) = Some st \<longrightarrow> into_agg_state (ne_root_elems env) st = Inr ag \<longrightarrow> reads_back (ce_agg_state env) ag)"

lemma run_worker_stage0:
  assumes "i < n" "keys_in_place env pks nc pk_dir coord_dir fs" "keys_num_subcircuits pks = n"
    and "stored fs (ce_request0 env) req_dir ''stage0_req'' (Some i) req" "r0_idx req = i"
    and "keys_get_pk pks i = Inr pk" "process_stage0_request (ne_ops env) (ne_ml env) (ne_commit env pk) (seeds i) req = Inr resp"
  shows "run_process env seeds (Worker (ProcessStage0Request pk_dir req_dir out_dir i)) fs
     = io_unwrap (serialize_to_path (ce_response0 env) resp out_dir ''stage0_resp'' (Some i) fs)"
proof -
  have "key_stored (ce_pk env) fs pk_dir i pk" using assms(1-3,6) by (auto simp: keys_in_place_def)
  from key_stored_read [OF this] show ?thesis
    using assms(5,7) by (simp add: run_process_def cli_process_stage0_request_def stored_read [OF assms(4)])
qed

lemma run_worker_stage1:
  assumes "i < n" "keys_in_place env pks nc pk_dir coord_dir fs" "keys_num_subcircuits pks = n"
    and "stored fs (ce_request0 env) req_dir ''stage0_req'' (Some i) req0" "stored fs (ce_response0 env) resp_dir ''stage0_resp'' (Some i) resp0"
    and "stored fs (ce_request1 env) req_dir ''stage1_req'' (Some i) req1"
    and "keys_get_pk pks i = Inr pk"
    and "process_stage1_request (ne_ops env) (ne_ml env) (ne_commit env pk) (ne_prove env pk) req0 resp0 req1 = Inr result"
  shows "run_process env seeds (Worker (ProcessStage1Request pk_dir req_dir resp_dir out_dir i)) fs
     = io_unwrap (serialize_to_path (ce_response1 env) (fst result) out_dir ''stage1_resp'' (Some i) fs)"
proof -
  have "key_stored (ce_pk env) fs pk_dir i pk" using assms(1-3,7) by (auto simp: keys_in_place_def)
  from key_stored_read [OF this] show ?thesis
    using assms(8) by (simp add: run_process_def cli_process_stage1_request_def case_prod_unfold
        stored_read [OF assms(4)] stored_read [OF assms(5)] stored_read [OF assms(6)])
qed


lemma rfold_map: "rfold f (map g xs) s = rfold (\<lambda>x. f (g x)) xs s"
  by (induction xs arbitrary: s) (auto intro: rbind_cong)

lemma workers_stage0:
  assumes ready: "session_ready ds fs" "out_dir \<in> set ds" "set ws = {..<n}" "keys_num_subcircuits pks = n"
    and files: "keys_in_place env pks nc pk_dir coord_dir fs" "\<And>i. i < n \<Longrightarrow> stored fs (ce_request0 env) req_dir ''stage0_req'' (Some i) (reqs ! i)"
    and run: "\<And>i. i < n \<Longrightarrow> r0_idx (reqs ! i) = i \<and> (\<exists>pk. keys_get_pk pks i = Inr pk
       \<and> process_stage0_request (ne_ops env) (ne_ml env) (ne_commit env pk) (seeds i) (reqs ! i) = Inr (resps ! i))"
    and rb: "\<And>i. i < n \<Longrightarrow> reads_back (ce_response0 env) (resps ! i)"
  obtains fs' where "run_session env seeds (map (\<lambda>i. Worker (ProcessStage0Request pk_dir req_dir out_dir i)) ws) fs = Inr fs'"
    "only (names ''stage0_resp'') fs fs'" "\<And>i. i < n \<Longrightarrow> stored fs' (ce_response0 env) out_dir ''stage0_resp'' (Some i) (resps ! i)"
proof -
  have p: "''stage0_resp'' \<in> set session_prefixes" by (simp add: session_prefixes_def)
  have step: "run_process env seeds (Worker (ProcessStage0Request pk_dir req_dir out_dir i)) fs'
      = io_unwrap (serialize_to_path (ce_response0 env) (resps ! i) out_dir ''stage0_resp'' (Some i) fs')"
    if "i \<in> set ws" "only (names ''stage0_resp'') fs fs'" for i fs'
  proof -
    from that(1) ready(3) have i: "i < n" by simp
    from run [OF i] obtain pk where "r0_idx (reqs ! i) = i" "keys_get_pk pks i = Inr pk"
      "process_stage0_request (ne_ops env) (ne_ml env) (ne_commit env pk) (seeds i) (reqs ! i) = Inr (resps ! i)" by blast
    then show ?thesis
      by (rule run_worker_stage0 [OF i keys_in_place_only [OF files(1) that(2) names_session [OF p]] ready(4)
            stored_other [OF that(2) files(2) [OF i]], rotated 3]) simp_all
  qed
  obtain fs' where "rfold (\<lambda>i. run_process env seeds (Worker (ProcessStage0Request pk_dir req_dir out_dir i))) ws fs = Inr fs'"
    "only (names ''stage0_resp'') fs fs'" "\<And>i. i \<in> set ws \<Longrightarrow> stored fs' (ce_response0 env) out_dir ''stage0_resp'' (Some i) (resps ! i)"
    by (rule session_workers [where ws = ws and x = "\<lambda>i. resps ! i", OF ready(1,2) p _ _ step]) (use rb ready(3) that in \<open>simp_all\<close>)
  with that ready(3) show thesis by (simp add: run_session_def rfold_map)
qed

lemma workers_stage1:
  assumes ready: "session_ready ds fs" "out_dir \<in> set ds" "set ws = {..<n}" "keys_num_subcircuits pks = n"
    and files: "keys_in_place env pks nc pk_dir coord_dir fs" "\<And>i. i < n \<Longrightarrow> stored fs (ce_request0 env) req_dir ''stage0_req'' (Some i) (reqs0 ! i)"
      "\<And>i. i < n \<Longrightarrow> stored fs (ce_response0 env) resp_dir ''stage0_resp'' (Some i) (resps0 ! i)"
      "\<And>i. i < n \<Longrightarrow> stored fs (ce_request1 env) req_dir ''stage1_req'' (Some i) (reqs1 ! i)"
    and run: "\<And>i. i < n \<Longrightarrow> \<exists>pk. keys_get_pk pks i = Inr pk
       \<and> process_stage1_request (ne_ops env) (ne_ml env) (ne_commit env pk) (ne_prove env pk) (reqs0 ! i) (resps0 ! i) (reqs1 ! i) = Inr (results ! i)"
    and rb: "\<And>i. i < n \<Longrightarrow> reads_back (ce_response1 env) (fst (results ! i))"
  obtains fs' where "run_session env seeds (map (\<lambda>i. Worker (ProcessStage1Request pk_dir req_dir resp_dir out_dir i)) ws) fs = Inr fs'"
    "only (names ''stage1_resp'') fs fs'" "\<And>i. i < n \<Longrightarrow> stored fs' (ce_response1 env) out_dir ''stage1_resp'' (Some i) (fst (results ! i))"
proof -
  have p: "''stage1_resp'' \<in> set session_prefixes" by (simp add: session_prefixes_def)
  have step: "run_process env seeds (Worker (ProcessStage1Request pk_dir req_dir resp_dir out_dir i)) fs'
      = io_unwrap (serialize_to_path (ce_response1 env) (fst (results ! i)) out_dir ''stage1_resp'' (Some i) fs')"
    if "i \<in> set ws" "only (names ''stage1_resp'') fs fs'" for i fs'
  proof -
    from that(1) ready(3) have i: "i < n" by simp
    from run [OF i] obtain pk where "keys_get_pk pks i = Inr pk"
      "process_stage1_request (ne_ops env) (ne_ml env) (ne_commit env pk) (ne_prove env pk) (reqs0 ! i) (resps0 ! i) (reqs1 ! i) = Inr (results ! i)" by blast
    then show ?thesis
      by (rule run_worker_stage1 [OF i keys_in_place_only [OF files(1) that(2) names_session [OF p]] ready(4)
            stored_other [OF that(2) files(2) [OF i]] stored_other [OF that(2) files(3) [OF i]] stored_other [OF that(2) files(4) [OF i]], rotated 9]) simp_all
  qed
  obtain fs' where "rfold (\<lambda>i. run_process env seeds (Worker (ProcessStage1Request pk_dir req_dir resp_dir out_dir i))) ws fs = Inr fs'"
    "only (names ''stage1_resp'') fs fs'" "\<And>i. i \<in> set ws \<Longrightarrow> stored fs' (ce_response1 env) out_dir ''stage1_resp'' (Some i) (fst (results ! i))"
    by (rule session_workers [where ws = ws and x = "\<lambda>i. fst (results ! i)", OF ready(1,2) p _ _ step]) (use rb ready(3) that in \<open>simp_all\<close>)
  with that ready(3) show thesis by (simp add: run_session_def rfold_map)
qed

text \<open>
  C6: The command-line tools compute what the protocol computes. With the keys of every subcircuit, the parameters and the
  aggregation key in their files, the processes of a session (the coordinator's three commands and the workers
  of each stage in any order, some of them repeated) end exactly as aggregating the responses of the reference run: they
  fail if that fails, and otherwise leave the proof in its file. Nothing but the session's own files is touched.
\<close>

theorem file_session_refines_protocol:
  assumes env: "keys_num_subcircuits pks = n" "0 < n" "node_coordinator_new env pks = Inr nc" "2 * tp_num_leaves (nc_circ_params nc) = n"
    and files: "keys_in_place env pks nc pk_dir coord_dir fs" "session_ready [coord_dir, req_dir, resp0_dir, resp1_dir] fs"
    and workers: "set ws0 = {..<n}" "set ws1 = {..<n}"
    and run: "sequential_rounds env seeds pks = Inr run" "files_fit env nc run"
  shows "\<exists>fs'. only session_names fs fs'
     \<and> run_session env seeds (session pk_dir coord_dir req_dir resp0_dir resp1_dir ws0 ws1) fs
       = rbind (node_aggregate env (rn_responses1 run) (rn_coordinator run)) (\<lambda>proof.
           Inr (put (file_at fs coord_dir ''agg_proof'' None) (cod_ser (ce_proof env) proof) fs'))"
proof -
  let ?ds = "[coord_dir, req_dir, resp0_dir, resp1_dir]" and ?P = "\<lambda>x. x \<in> set session_prefixes"
  obtain circ st0 st1 results where circ: "ne_rand_circuit env (nc_circ_params nc) = Inr circ" "coordinator0_new (ne_ops env) circ = Inr st0"
    and q0: "rmap (gen_request0 st0) [0..<n] = Inr (rn_requests0 run)" "length (rn_requests0 run) = n"
    and w: "\<And>i. i < n \<Longrightarrow> r0_idx (rn_requests0 run ! i) = i \<and> (\<exists>pk. keys_get_pk pks i = Inr pk
       \<and> process_stage0_request (ne_ops env) (ne_ml env) (ne_commit env pk) (seeds i) (rn_requests0 run ! i) = Inr (rn_responses0 run ! i)
       \<and> process_stage1_request (ne_ops env) (ne_ml env) (ne_commit env pk) (ne_prove env pk) (rn_requests0 run ! i) (rn_responses0 run ! i) (rn_requests1 run ! i)
           = Inr (results ! i))"
    and a0: "length (rn_responses0 run) = n"
    and st1: "process_stage0_responses (ne_sha256 env) (ne_ser_super_com env) (ne_ml env) (op_mem_type (ne_ops env))
       (ip_commit_only_left (fst (nc_agg_pk nc))) (rn_responses0 run) st0 = Inr st1"
    and q1: "rmap (gen_request1 (op_mem_type (ne_ops env)) st1) [0..<n] = Inr (rn_requests1 run)" "length (rn_requests1 run) = n"
    and a1: "rn_responses1 run = map fst results" "length results = n"
    and co: "nc_stage1_state (rn_coordinator run) = Some st1" "nc_agg_pk (rn_coordinator run) = nc_agg_pk nc"
    by (rule sequential_parts [OF run(1) env(3,1)]) (rule that)
  have "gen_request1 (op_mem_type (ne_ops env)) st1 0 = Inr (rn_requests1 run ! 0)"
    using rmap_Inr_nth [OF q1(1)] env(2) by simp
  moreover obtain pk where "process_stage1_request (ne_ops env) (ne_ml env) (ne_commit env pk) (ne_prove env pk)
      (rn_requests0 run ! 0) (rn_responses0 run ! 0) (rn_requests1 run ! 0) = Inr (results ! 0)"
    using w [OF env(2)] by blast
  ultimately obtain ag where ag: "into_agg_state (ne_root_elems env) st1 = Inr ag" by (rule into_agg_state_total)
  have rb: "reads_back (ce_state0 env) st0" "reads_back (ce_agg_state env) ag" "\<forall>x \<in> set (rn_requests0 run). reads_back (ce_request0 env) x"
    "\<forall>x \<in> set (rn_requests1 run). reads_back (ce_request1 env) x"
    using run(2) circ co(1) ag by (simp_all add: files_fit_def)
  have rbs: "reads_back (ce_response0 env) (rn_responses0 run ! i)" "reads_back (ce_response1 env) (fst (results ! i))" if "i < n" for i
    using run(2) that a0 a1 by (auto simp: files_fit_def)
  have in_ds: "coord_dir \<in> set ?ds" "req_dir \<in> set ?ds" "resp0_dir \<in> set ?ds" "resp1_dir \<in> set ?ds" by simp_all
  have p: "?P ''stage0_resp''" "?P ''stage1_resp''" "?P ''stage1_req''" "?P ''final_aggregator_state''" by (simp_all add: session_prefixes_def)
  have params: "stored fs (ne_params_codec env) coord_dir ''test_circ_params'' None (nc_circ_params nc)"
    if "keys_in_place env pks nc pk_dir coord_dir fs" for fs using that by (simp add: keys_in_place_def)
  have agg: "stored fs (ce_agg_ck env) coord_dir ''agg_ck'' None (nc_agg_pk nc)"
    if "keys_in_place env pks nc pk_dir coord_dir fs" for fs using that by (simp add: keys_in_place_def)
  obtain fs1 where fs1: "begin_stage0 env req_dir coord_dir fs = Inr fs1" "only session_names fs fs1"
    "\<And>i. i < length (rn_requests0 run) \<Longrightarrow> stored fs1 (ce_request0 env) req_dir ''stage0_req'' (Some i) (rn_requests0 run ! i)"
    "stored fs1 (ce_state0 env) coord_dir ''stage0_coordinator_state'' None st0"
    by (rule run_begin_stage0 [OF files(2) in_ds(1,2) params [OF files(1)] env(4) circ q0(1) rb(3,1)]) (rule that)
  note q_stored = fs1(3) [unfolded q0(2)] and k1 = keys_in_place_only [OF files(1) fs1(2) order_refl] and r1 = session_ready_only [OF files(2) fs1(2)]
  obtain fs2 where fs2: "run_session env seeds (map (\<lambda>i. Worker (ProcessStage0Request pk_dir req_dir resp0_dir i)) ws0) fs1 = Inr fs2"
    "only (names ''stage0_resp'') fs1 fs2" "\<And>i. i < n \<Longrightarrow> stored fs2 (ce_response0 env) resp0_dir ''stage0_resp'' (Some i) (rn_responses0 run ! i)"
    by (rule workers_stage0 [OF r1 in_ds(3) workers(1) env(1) k1 q_stored _ rbs(1)]) (use w that in \<open>blast+\<close>)
  note k2 = keys_in_place_only [OF k1 fs2(2) names_session [OF p(1)]] and r2 = session_ready_only [OF r1 fs2(2)]
  obtain fs3 where fs3: "process_stage0_resps env coord_dir req_dir resp0_dir fs2 = Inr fs3"
    "only (names ''stage1_req'' \<union> names ''final_aggregator_state'') fs2 fs3"
    "\<And>i. i < length (rn_requests1 run) \<Longrightarrow> stored fs3 (ce_request1 env) req_dir ''stage1_req'' (Some i) (rn_requests1 run ! i)"
    "stored fs3 (ce_agg_state env) coord_dir ''final_aggregator_state'' None ag"
    by (rule run_process_stage0_resps [OF r2 in_ds(1,2) params [OF k2] env(4) stored_other [OF fs2(2) fs1(4)] agg [OF k2] fs2(3) a0 st1 q1(1) ag rb(4,2)])
      (simp_all add: that)
  have sub3: "names ''stage1_req'' \<union> names ''final_aggregator_state'' \<subseteq> session_names" using names_session p by blast
  note k3 = keys_in_place_only [OF k2 fs3(2) sub3] and r3 = session_ready_only [OF r2 fs3(2)]
  have s3: "stored fs3 (ce_request0 env) req_dir ''stage0_req'' (Some i) (rn_requests0 run ! i)"
    "stored fs3 (ce_response0 env) resp0_dir ''stage0_resp'' (Some i) (rn_responses0 run ! i)" if "i < n" for i
    by (rule only_stored [OF fs3(2) stored_other [OF fs2(2) q_stored]], simp_all add: that file_name_in_names)
      (rule only_stored [OF fs3(2) fs2(3)], simp_all add: that file_name_in_names)
  obtain fs4 where fs4: "run_session env seeds (map (\<lambda>i. Worker (ProcessStage1Request pk_dir req_dir resp0_dir resp1_dir i)) ws1) fs3 = Inr fs4"
    "only (names ''stage1_resp'') fs3 fs4" "\<And>i. i < n \<Longrightarrow> stored fs4 (ce_response1 env) resp1_dir ''stage1_resp'' (Some i) (fst (results ! i))"
    by (rule workers_stage1 [OF r3 in_ds(4) workers(2) env(1) k3 s3 fs3(3) [unfolded q1(2)] _ rbs(2)]) (use w that in \<open>blast+\<close>)
  note k4 = keys_in_place_only [OF k3 fs4(2) names_session [OF p(2)]] and r4 = session_ready_only [OF r3 fs4(2)]
  have all: "only session_names fs fs4"
    by (rule only_trans [OF fs1(2)], rule only_trans [OF only_mono [OF fs2(2) names_session [OF p(1)]]],
        rule only_trans [OF only_mono [OF fs3(2) sub3] only_mono [OF fs4(2) names_session [OF p(2)]]])
  then have place: "fs_cwd fs = fs_cwd fs4" "fs_dirs fs = fs_dirs fs4" by (simp_all add: only_def)
  have "process_stage1_resps env coord_dir resp1_dir fs4 =
     rbind (node_aggregate env (rn_responses1 run) (rn_coordinator run)) (\<lambda>proof.
       Inr (put (file_at fs coord_dir ''agg_proof'' None) (cod_ser (ce_proof env) proof) fs4))"
    unfolding place
    by (subst run_process_stage1_resps [OF r4 in_ds(1) params [OF k4] env(4) stored_other [OF fs4(2) fs3(4)] agg [OF k4], where resps = "rn_responses1 run"])
      (simp_all add: fs4(3) a1 node_aggregate_def co ag)
  then have "run_session env seeds (session pk_dir coord_dir req_dir resp0_dir resp1_dir ws0 ws1) fs
       = rbind (node_aggregate env (rn_responses1 run) (rn_coordinator run)) (\<lambda>proof.
           Inr (put (file_at fs coord_dir ''agg_proof'' None) (cod_ser (ce_proof env) proof) fs4))"
    using fs1(1) fs2(1) fs3(1) fs4(1)
    by (cases "node_aggregate env (rn_responses1 run) (rn_coordinator run)") (simp_all add: run_session_def session_def rfold_append run_process_def)
  with all show ?thesis by blast
qed


section \<open>A session of two subcircuits\<close>

definition one_codec :: "'a \<Rightarrow> 'a codec" where
  "one_codec x = \<lparr>cod_ser = (\<lambda>_. []), cod_de = (\<lambda>_. Some x), cod_size = (\<lambda>_. 0)\<rparr>"

definition two_codec :: "'a list \<Rightarrow> 'a codec" where
  "two_codec xs = \<lparr>cod_ser = (\<lambda>x. if x = xs ! 0 then [0] else [1]), cod_de = (\<lambda>bs. Some (if bs = [0] then xs ! 0 else xs ! 1)), cod_size = (\<lambda>_. 1)\<rparr>"

lemma one_codec_reads [simp]: "reads_back (one_codec x) x"
  by (simp add: one_codec_def reads_back_def)

lemma two_codec_reads: "length xs = 2 \<Longrightarrow> x \<in> set xs \<Longrightarrow> reads_back (two_codec xs) x"
  by (auto simp: two_codec_def reads_back_def in_set_conv_nth numeral_2_eq_2 less_Suc_eq)

definition toy_tree_params :: tree_params where
  "toy_tree_params = \<lparr>tp_num_leaves = 1, tp_num_sha_iters = 1, tp_num_portals = 1\<rparr>"

definition toy_tree_ops :: "(rat, unit, tree_params) circuit_ops" where
  "toy_tree_ops = \<lparr>op_mem_type = Ram, op_get_params = (\<lambda>_. toy_tree_params), op_portal_subtraces = (\<lambda>_. Inr (map (map RamEntry) pair_ram_trace)),
     op_num_subcircuits = (\<lambda>_. 2), op_unique_subcircuits = (\<lambda>_. Inr [0, 1]), op_representative = (\<lambda>_. Inr),
     op_new = (\<lambda>_. Inr ()), op_get_witnesses = (\<lambda>_ _. Inr []), op_set_witnesses = (\<lambda>_ _ _. Inr ()),
     op_generate = (\<lambda>_. pair_generate)\<rparr>"

type_synonym toy_cli_env = "(rat, unit, tree_params, rat list list, rat list list, nat, rat, rat, rat, rat, rat, (rat, rat) ipp_witness, nat, nat, nat) cli_env"

type_synonym toy_cli_coordinator = "(rat, tree_params, rat, rat, rat, rat, (rat, rat) ipp_witness, nat, rat list list, nat) node_coordinator"

type_synonym toy_cli_rounds = "(rat stage0_request, (rat, nat) stage0_response, (rat, tree_params, rat list list, nat) stage1_request,
    (rat, rat) cp_proof stage1_response, toy_cli_coordinator) rounds"

definition toy_pk_codec :: "(rat, rat) proving_key codec" where
  "toy_pk_codec = two_codec [toy_agg_pk [1, 1, 1, 1, 1, 1] 0, toy_agg_pk [1, 1, 1, 1, 1, 1] 1]"

definition toy_cli_env :: "(rat, tree_params) coordinator0 \<Rightarrow> (rat, rat) agg_state \<Rightarrow> toy_cli_coordinator \<Rightarrow> toy_cli_rounds \<Rightarrow> toy_cli_env" where
  "toy_cli_env st0 ag nc run = \<lparr>ne_ops = toy_tree_ops, ne_rand_circuit = (\<lambda>_. Inr ()), ne_ml = flat_merkle,
     ne_sha256 = (\<lambda>_. [3]), ne_ser_super_com = (\<lambda>_. []), ne_root_elems = concat, ne_pl = groth_toy_pairing,
     ne_tipa_setup = (\<lambda>n. Inr (toy_ipp n)), ne_transcript = toy_transcript, ne_new_transcript = 0,
     ne_generate_parameters = (\<lambda>sc. Inr (toy_agg_pk [1, 1, 1, 1, 1, 1] (sp_idx sc))),
     ne_commit = (\<lambda>pk seed sc. Inr (of_nat (seed + sp_idx sc), seed)),
     ne_prove = (\<lambda>pk sc coms rands. Inr \<lparr>pr_a = 1, pr_b = 1, pr_c = 1, pr_ds = coms\<rparr>), ne_rand_from_seed = id,
     ne_default_com = 0, ne_default_seed = 0, ne_default_rand = 0, ne_default_proof = \<lparr>pr_a = 0, pr_b = 0, pr_c = 0, pr_ds = []\<rparr>,
     ne_params_codec = one_codec toy_tree_params,
     ne_requests0 = pair_codec [], ne_requests1 = pair_codec [], ne_responses0 = pair_codec [], ne_responses1 = pair_codec [],
     ce_pk = toy_pk_codec, ce_ck = one_codec (pk_ck (toy_agg_pk [1, 1, 1, 1, 1, 1] 0)),
     ce_agg_ck = one_codec (nc_agg_pk nc), ce_state0 = one_codec st0, ce_request0 = two_codec (rn_requests0 run),
     ce_response0 = two_codec (rn_responses0 run), ce_request1 = two_codec (rn_requests1 run),
     ce_response1 = two_codec (rn_responses1 run), ce_agg_state = one_codec ag, ce_proof = one_codec undefined\<rparr>"

lemma toy_cli_sequential: "sequential_rounds (toy_cli_env st0 ag nc run) seeds pks = sequential_rounds (toy_cli_env st0' ag' nc' run') seeds pks"
  "node_coordinator_new (toy_cli_env st0 ag nc run) pks = node_coordinator_new (toy_cli_env st0' ag' nc' run') pks"
  by (simp_all add: toy_cli_env_def sequential_rounds_def node_coordinator_new_def generate_agg_key_def node_stage_0_def node_stage_1_def)

lemma toy_cli_run:
  obtains nc run where "node_coordinator_new (toy_cli_env st0 ag nc' run') toy_keys = Inr nc" "nc_circ_params nc = toy_tree_params"
    "sequential_rounds (toy_cli_env st0 ag nc' run') seeds toy_keys = Inr run"
proof -
  let ?env = "toy_cli_env st0 ag nc' run'"
  obtain ak where ak: "agg_proving_key_new (toy_ipp 2) (keys_get_pk toy_keys) = Inr ak"
    by (rule agg_proving_key_new_eq [OF toy_ipp_law, of 2 2 "keys_get_pk toy_keys" "toy_agg_pk [1, 1, 1, 1, 1, 1]"])
      (simp_all add: toy_keys_facts toy_ipp_def, simp add: toy_agg_pk_def)
  let ?nc = "\<lparr>nc_g16_pks = toy_keys, nc_agg_pk = (toy_ipp 2, ak), nc_circ_params = toy_tree_params, nc_stage0_state = None, nc_stage1_state = None\<rparr>"
  have nc: "node_coordinator_new ?env toy_keys = Inr ?nc"
    by (simp add: node_coordinator_new_def generate_agg_key_def toy_keys_facts toy_cli_env_def Let_def ak one_codec_def)
  have fit: "keys_fit ?env circ seeds toy_keys" for circ by (simp add: keys_fit_def toy_cli_env_def)
  have "\<exists>run. sequential_rounds ?env seeds toy_keys = Inr run \<and> length (rn_satisfied run) = 2 \<and> (\<forall>ok \<in> set (rn_satisfied run). ok)"
  proof (rule sequential_ram_completes [OF toy_keys_facts(1) _ fit nc])
    show "\<forall>i < 2. \<exists>pk. keys_get_pk toy_keys i = Inr pk" using toy_keys_facts(2) by blast
    show "ram_setup_run (map (op_generate (ne_ops ?env) ()) [0..<2]) setup_ram_new = Inr (True, toy_ram_state)"
      using toy_circuit_facts(3) by (simp add: toy_cli_env_def toy_tree_ops_def pair_ops_def)
    show "op_portal_subtraces (ne_ops ?env) () = Inr (map (map RamEntry) (sm_subtraces toy_ram_state))"
      by (simp add: toy_cli_env_def toy_tree_ops_def toy_ram_state_def)
  qed (use toy_circuit_facts(5,6) in \<open>simp_all add: toy_cli_env_def toy_tree_ops_def witness_contract_def flat_merkle_complete\<close>,
       simp_all add: toy_ipp_def flat_merkle_def)
  then show thesis using that nc by auto
qed

definition toy_fs :: file_system where
  "toy_fs = \<lparr>fs_cwd = [], fs_dirs = (\<lambda>_. True), fs_nodes = [([], file_name ''test_circ_params'' None) \<mapsto> Regular [],
     ([], file_name ''agg_ck'' None) \<mapsto> Regular [],
     ([], file_name ''g16_pk'' (Some 0)) \<mapsto> Regular (cod_ser toy_pk_codec (toy_agg_pk [1, 1, 1, 1, 1, 1] 0)),
     ([], file_name ''g16_pk'' (Some 1)) \<mapsto> Regular (cod_ser toy_pk_codec (toy_agg_pk [1, 1, 1, 1, 1, 1] 1))]\<rparr>"


lemma toy_fs_facts:
  assumes "nc_circ_params nc = toy_tree_params"
  shows "keys_in_place (toy_cli_env st0 ag nc run) toy_keys nc (Absolute []) (Relative []) toy_fs"
    "session_ready [Relative [], Absolute [], Relative [], Absolute []] toy_fs"
proof -
  have pks: "\<exists>pk. keys_get_pk toy_keys i = Inr pk \<and> key_stored toy_pk_codec toy_fs (Absolute []) i pk" if "i < 2" for i
  proof -
    have "i = 0 \<or> i = 1" using that by auto
    then have "key_stored toy_pk_codec toy_fs (Absolute []) i (toy_agg_pk [1, 1, 1, 1, 1, 1] i)"
      by (auto simp: key_stored_def toy_fs_def file_name_eq toy_pk_codec_def two_codec_reads)
    with toy_keys_facts(2) [OF that] show ?thesis by blast
  qed
  have "stored toy_fs (one_codec toy_tree_params) (Relative []) ''test_circ_params'' None toy_tree_params"
    "stored toy_fs (one_codec (nc_agg_pk nc)) (Relative []) ''agg_ck'' None (nc_agg_pk nc)"
    by (simp_all add: stored_def toy_fs_def file_name_eq, simp_all add: one_codec_def)
  with pks show "keys_in_place (toy_cli_env st0 ag nc run) toy_keys nc (Absolute []) (Relative []) toy_fs"
    by (simp add: keys_in_place_def toy_cli_env_def toy_keys_facts(1) assms)
  have "snd p \<notin> {file_name ''test_circ_params'' None, file_name ''agg_ck'' None, file_name ''g16_pk'' (Some 0), file_name ''g16_pk'' (Some 1)}"
    if "snd p \<in> session_names" for p :: place
    using that not_session_name by (auto simp: session_prefixes_def)
  then show "session_ready [Relative [], Absolute [], Relative [], Absolute []] toy_fs"
    by (auto simp: session_ready_def plain_def toy_fs_def split: if_splits)
qed

theorem file_session_refines_protocol_witness:
  "\<exists>env :: toy_cli_env. \<exists>run fs'. sequential_rounds env id toy_keys = Inr run \<and> only session_names toy_fs fs'
     \<and> run_session env id (session (Absolute []) (Relative []) (Absolute []) (Relative []) (Absolute []) [1, 0] [0, 1, 0]) toy_fs
       = rbind (node_aggregate env (rn_responses1 run) (rn_coordinator run)) (\<lambda>proof.
           Inr (put ([], file_name ''agg_proof'' None) (cod_ser (ce_proof env) proof) fs'))"
proof -
  obtain nc run where nc: "node_coordinator_new (toy_cli_env undefined undefined undefined undefined) toy_keys = Inr nc"
      "nc_circ_params nc = toy_tree_params"
    and run: "sequential_rounds (toy_cli_env undefined undefined undefined undefined) id toy_keys = Inr run"
    by (rule toy_cli_run)
  define env :: toy_cli_env where "env = toy_cli_env (projr (coordinator0_new toy_tree_ops ()))
     (projr (into_agg_state concat (the (nc_stage1_state (rn_coordinator run))))) nc run"
  have seq: "sequential_rounds env id toy_keys = Inr run"
    using run unfolding env_def by (rule trans [OF toy_cli_sequential(1)])
  have nc_new: "node_coordinator_new env toy_keys = Inr nc"
    using nc(1) unfolding env_def by (rule trans [OF toy_cli_sequential(2)])
  have "env_ok env" by (simp add: env_def env_ok_def toy_cli_env_def)
  from sequential_rounds_lengths [OF this seq]
  have len: "length (rn_requests0 run) = 2" "length (rn_responses0 run) = 2" "length (rn_requests1 run) = 2" "length (rn_responses1 run) = 2"
    by (simp_all add: toy_keys_facts)
  have fit: "files_fit env nc run"
    using len by (auto simp: files_fit_def env_def toy_cli_env_def two_codec_reads)
  have "keys_in_place env toy_keys nc (Absolute []) (Relative []) toy_fs" unfolding env_def by (rule toy_fs_facts(1) [OF nc(2)])
  from file_session_refines_protocol [OF toy_keys_facts(1) _ nc_new _ this toy_fs_facts(2) [OF nc(2)] _ _ seq fit, of "[1, 0]" "[0, 1, 0]"]
  show ?thesis using seq by (fastforce simp: nc(2) toy_tree_params_def toy_fs_def)
qed


section \<open>Key generation\<close>

text \<open>The subcircuit whose key is written for a subcircuit.\<close>

definition key_owner :: "nat \<Rightarrow> nat \<Rightarrow> nat" where
  "key_owner n i = (if i = 0 then 0 else if i < n div 2 then 1 else if i < n - 2 then n - 3 else i)"

lemma serialize_to_paths_single: "serialize_to_paths c x d p (i, i + 1) fs = serialize_to_path c x d p (Some i) fs"
  by (simp add: serialize_to_path_def serialize_to_paths_def Let_def split: option.split)

lemma save_pk_single: "save_pk env x d i fs = save_pks env x d (i, i + 1) fs"
  unfolding save_pk_def save_pks_def serialize_to_paths_single ..

lemma symlink_all_eq:
  assumes "distinct ps" "\<forall>p \<in> set ps. fs_dirs fs (fst p) \<and> fs_nodes fs p = None"
  shows "symlink_all d name ps fs = Some (fs\<lparr>fs_nodes := (\<lambda>p. if p \<in> set ps then Some (Symlink d name) else fs_nodes fs p)\<rparr>)"
  using assms
proof (induction ps arbitrary: fs)
  case (Cons p ps)
  let ?fs = "fs\<lparr>fs_nodes := (fs_nodes fs)(p \<mapsto> Symlink d name)\<rparr>"
  have "symlink d name p fs = Some ?fs" using Cons.prems by (simp add: symlink_def)
  moreover have "symlink_all d name ps ?fs = Some (?fs\<lparr>fs_nodes := (\<lambda>q. if q \<in> set ps then Some (Symlink d name) else fs_nodes ?fs q)\<rparr>)"
    by (rule Cons.IH) (use Cons.prems in auto)
  ultimately show ?case by (auto simp: fun_eq_iff)
qed simp

text \<open>Files of a range of subcircuits that are not there yet: the first becomes a file and the others links to it.\<close>

definition linked :: "dir \<Rightarrow> string list \<Rightarrow> string \<Rightarrow> nat \<Rightarrow> nat \<Rightarrow> u8 list \<Rightarrow> file_system \<Rightarrow> file_system" where
  "linked d cs p a b buf fs = fs\<lparr>fs_nodes := (\<lambda>q.
     if q = (cs, file_name p (Some a)) then Some (Regular buf)
     else if \<exists>i \<in> {a + 1..<b}. q = (cs, file_name p (Some i)) then Some (Symlink d (file_name p (Some a)))
     else fs_nodes fs q)\<rparr>"

lemma serialize_to_paths_fresh:
  assumes "lettered p" "a < b" "\<And>name. locate (fs_dirs fs) (fs_cwd fs) d name = (cs, name)" "fs_dirs fs cs" "\<forall>i \<in> {a..<b}. fs_nodes fs (cs, file_name p (Some i)) = None"
  shows "serialize_to_paths c x d p (a, b) fs = Some (linked d cs p a b (cod_ser c x) fs)"
proof -
  let ?q = "(cs, file_name p (Some a))" and ?ps = "map (\<lambda>i. (cs, file_name p (Some i))) [a + 1..<b]"
  have "plain fs ?q" using assms(2,5) by (simp add: plain_def)
  then have w: "write_file ?q (cod_ser c x) fs = Some (put ?q (cod_ser c x) fs)" by (rule write_plain) (simp add: assms(4))
  have "symlink_all d (file_name p (Some a)) ?ps (put ?q (cod_ser c x) fs)
      = Some ((put ?q (cod_ser c x) fs)\<lparr>fs_nodes := (\<lambda>r. if r \<in> set ?ps then Some (Symlink d (file_name p (Some a)))
          else fs_nodes (put ?q (cod_ser c x) fs) r)\<rparr>)"
    by (rule symlink_all_eq) (use assms in \<open>auto simp: distinct_map inj_on_def file_name_eq [OF assms(1,1)]\<close>)
  moreover have "(put ?q (cod_ser c x) fs)\<lparr>fs_nodes := (\<lambda>r. if r \<in> set ?ps then Some (Symlink d (file_name p (Some a)))
          else fs_nodes (put ?q (cod_ser c x) fs) r)\<rparr> = linked d cs p a b (cod_ser c x) fs"
  proof -
    have "(if r \<in> set ?ps then Some (Symlink d (file_name p (Some a))) else fs_nodes (put ?q (cod_ser c x) fs) r)
      = fs_nodes (linked d cs p a b (cod_ser c x) fs) r" for r
      by (cases "r = ?q") (auto simp: linked_def file_name_eq [OF assms(1,1)])
    then have eq: "(\<lambda>r. if r \<in> set ?ps then Some (Symlink d (file_name p (Some a))) else fs_nodes (put ?q (cod_ser c x) fs) r)
      = fs_nodes (linked d cs p a b (cod_ser c x) fs)" by (rule ext)
    show ?thesis unfolding eq by (simp add: linked_def)
  qed
  ultimately show ?thesis using w by (simp add: serialize_to_paths_def Let_def assms(3))
qed

text \<open>What holds when the keys of the first subcircuits are saved.\<close>

definition saved_upto where
  "saved_upto env fs0 d cs owned a fs \<longleftrightarrow> fs_cwd fs = fs_cwd fs0 \<and> fs_dirs fs = fs_dirs fs0
     \<and> (\<forall>q. snd q \<notin> names ''g16_pk'' \<union> names ''g16_ck'' \<longrightarrow> fs_nodes fs q = fs_nodes fs0 q)
     \<and> (\<forall>i < a. key_stored (ce_pk env) fs d i (owned i))
     \<and> (\<forall>i \<ge> a. fs_nodes fs (cs, file_name ''g16_pk'' (Some i)) = None \<and> fs_nodes fs (cs, file_name ''g16_ck'' (Some i)) = None)"

lemma linked_other: "snd q \<notin> names p \<Longrightarrow> fs_nodes (linked d cs p a b buf fs) q = fs_nodes fs q"
  by (auto simp: linked_def names_def)

lemma linked_index:
  assumes "lettered p"
  shows "fs_nodes (linked d cs p a b buf fs) (cs, file_name p (Some i)) =
     (if i = a then Some (Regular buf) else if a < i \<and> i < b then Some (Symlink d (file_name p (Some a)))
      else fs_nodes fs (cs, file_name p (Some i)))"
  by (auto simp: linked_def file_name_eq [OF assms assms])

lemma linked_present:
  assumes "\<forall>i \<in> {a..<b}. fs_nodes fs (cs, file_name p (Some i)) = None" "a < b" "fs_nodes fs q = Some v"
  shows "fs_nodes (linked d cs p a b buf fs) q = Some v"
proof -
  have other: "q \<noteq> (cs, file_name p (Some i))" if "i \<in> {a..<b}" for i using assms(1,3) that by auto
  have "q \<noteq> (cs, file_name p (Some a))" by (rule other) (simp add: assms(2))
  moreover have "\<not> (\<exists>i \<in> {a + 1..<b}. q = (cs, file_name p (Some i)))"
  proof
    assume "\<exists>i \<in> {a + 1..<b}. q = (cs, file_name p (Some i))"
    then obtain i where "i \<in> {a + 1..<b}" "q = (cs, file_name p (Some i))" by blast
    with other [of i] show False by simp
  qed
  ultimately show ?thesis using assms(3) by (simp add: linked_def)
qed

lemma key_stored_extends:
  assumes "key_stored c fs d i pk" "fs_cwd fs' = fs_cwd fs" "fs_dirs fs' = fs_dirs fs" "\<And>q v. fs_nodes fs q = Some v \<Longrightarrow> fs_nodes fs' q = Some v"
  shows "key_stored c fs' d i pk"
  using assms(1) unfolding key_stored_def assms(2,3) by (blast intro: assms(4))

lemma save_pks_step:
  assumes "saved_upto env fs0 d cs owned a fs" "fs_dirs fs0 cs" "a < b" "\<forall>i \<in> {a..<b}. owned i = x" "reads_back (ce_pk env) x"
    and loc: "\<And>base name. locate (fs_dirs fs0) base d name = (cs, name)"
  obtains fs' where "save_pks env x d (a, b) fs = Inr fs'" "saved_upto env fs0 d cs owned b fs'"
proof -
  let ?pk = "linked d cs ''g16_pk'' a b (cod_ser (ce_pk env) x)" and ?ck = "linked d cs ''g16_ck'' a b (cod_ser (ce_ck env) (pk_ck x))"
  have loc': "locate (fs_dirs fs) base d name = (cs, name)" "locate (fs_dirs (?pk fs)) base d name = (cs, name)"
    "locate (fs_dirs (?ck (?pk fs))) base d name = (cs, name)" for base name
    using assms(1) loc by (simp_all add: saved_upto_def linked_def)
  have dirs: "fs_dirs fs cs" "fs_dirs (?pk fs) cs" using assms(1,2) by (simp_all add: saved_upto_def linked_def)
  have "serialize_to_paths (ce_pk env) x d ''g16_pk'' (a, b) fs = Some (?pk fs)"
    by (rule serialize_to_paths_fresh [OF _ assms(3) loc'(1) dirs(1)]) (use assms(1) in \<open>simp_all add: saved_upto_def\<close>)
  moreover have "serialize_to_paths (ce_ck env) (pk_ck x) d ''g16_ck'' (a, b) (?pk fs) = Some (?ck (?pk fs))"
    by (rule serialize_to_paths_fresh [OF _ assms(3) loc'(2) dirs(2)])
      (use assms(1) in \<open>simp_all add: saved_upto_def linked_other file_name_in_names\<close>)
  ultimately have saved: "save_pks env x d (a, b) fs = Inr (?ck (?pk fs))" by (simp add: save_pks_def io_unwrap_def)
  have cwd: "fs_cwd (?ck (?pk fs)) = fs_cwd fs0" "fs_dirs (?ck (?pk fs)) = fs_dirs fs0" using assms(1) by (simp_all add: saved_upto_def linked_def)
  have keep: "fs_nodes (?ck (?pk fs)) (cs, file_name ''g16_pk'' (Some i)) = fs_nodes (?pk fs) (cs, file_name ''g16_pk'' (Some i))" for i
    by (simp add: linked_other file_name_in_names)
  have fresh: "\<forall>i \<in> {a..<b}. fs_nodes fs (cs, file_name ''g16_pk'' (Some i)) = None"
    "\<forall>i \<in> {a..<b}. fs_nodes (?pk fs) (cs, file_name ''g16_ck'' (Some i)) = None"
    using assms(1) by (simp_all add: saved_upto_def linked_other file_name_in_names)
  have "key_stored (ce_pk env) (?ck (?pk fs)) d i (owned i)" if "i < b" for i
  proof (cases "i < a")
    case True
    then have "key_stored (ce_pk env) fs d i (owned i)" using assms(1) by (simp add: saved_upto_def)
    then show ?thesis
      by (rule key_stored_extends [OF _ _ _ linked_present [OF fresh(2) assms(3) linked_present [OF fresh(1) assms(3)]]]) (simp_all add: linked_def)
  next
    case False
    then have x: "owned i = x" using that assms(4) by simp
    have first: "fs_nodes (?ck (?pk fs)) (cs, file_name ''g16_pk'' (Some a)) = Some (Regular (cod_ser (ce_pk env) x))"
      by (simp add: keep linked_index)
    show ?thesis
    proof (cases "i = a")
      case False
      with \<open>\<not> i < a\<close> that have "fs_nodes (?ck (?pk fs)) (cs, file_name ''g16_pk'' (Some i)) = Some (Symlink d (file_name ''g16_pk'' (Some a)))"
        by (simp add: keep linked_index)
      with first assms(5) show ?thesis
        unfolding key_stored_def x loc'(3) by (intro conjI disjI2 exI [of _ d] exI [of _ "Some a"]) (simp_all add: loc'(3))
    qed (use first assms(5) x in \<open>simp add: key_stored_def loc'(3)\<close>)
  qed
  moreover have "fs_nodes (?ck (?pk fs)) (cs, file_name ''g16_pk'' (Some i)) = None \<and> fs_nodes (?ck (?pk fs)) (cs, file_name ''g16_ck'' (Some i)) = None"
    if "i \<ge> b" for i
    using assms(1,3) that by (simp add: saved_upto_def keep linked_index) (simp add: linked_other file_name_in_names)
  moreover have "fs_nodes (?ck (?pk fs)) q = fs_nodes fs0 q" if "snd q \<notin> names ''g16_pk'' \<union> names ''g16_ck''" for q
    using assms(1) that unfolding saved_upto_def by (metis UnCI linked_other)
  ultimately have "saved_upto env fs0 d cs owned b (?ck (?pk fs))" using cwd by (simp add: saved_upto_def)
  with saved that show thesis by blast
qed

lemma pk_fetcher_of_eq:
  assumes "4 < n" "i < n"
  shows "pk_fetcher_of n (pk 0) (pk 1) (pk (n - 3)) (pk (n - 2)) (pk (n - 1)) i = Inr (pk (key_owner n i))"
  using assms by (auto simp: pk_fetcher_of_def key_owner_def)

lemma rmap_cong: "(\<And>x. x \<in> set xs \<Longrightarrow> f x = g x) \<Longrightarrow> rmap f xs = rmap g xs"
  by (induction xs) auto

lemma agg_proving_key_new_cong:
  assumes "\<And>i. i < ip_supported_size il \<Longrightarrow> f i = g i"
  shows "agg_proving_key_new il f = agg_proving_key_new il g"
proof -
  have "rmap (\<lambda>i. rbind (f i) crs_elements) [0..<ip_supported_size il] = rmap (\<lambda>i. rbind (g i) crs_elements) [0..<ip_supported_size il]"
    using assms by (intro rmap_cong) simp
  then show ?thesis unfolding agg_proving_key_new_def Let_def [of "ip_supported_size il"] by (simp only:)
qed

lemma one_index: "{a..<a + 1} = {a :: nat}"
  by auto

text \<open>All the keys of more than four subcircuits.\<close>

lemma save_all_pks:
  assumes "4 < n" "fs_dirs fs cs" "saved_upto env fs d cs (\<lambda>i. pk (key_owner n i)) 0 fs" "\<forall>i. reads_back (ce_pk env) (pk i)"
    and loc: "\<And>base name. locate (fs_dirs fs) base d name = (cs, name)"
  obtains f1 f2 f3 f4 fs' where "save_pk env (pk 0) d 0 fs = Inr f1" "save_pks env (pk 1) d (1, n div 2) f1 = Inr f2"
    "save_pks env (pk (n - 3)) d (n div 2, n - 2) f2 = Inr f3" "save_pk env (pk (n - 2)) d (n - 2) f3 = Inr f4"
    "save_pk env (pk (n - 1)) d (n - 1) f4 = Inr fs'" "saved_upto env fs d cs (\<lambda>i. pk (key_owner n i)) n fs'"
proof -
  let ?owned = "\<lambda>i. pk (key_owner n i)"
  note step = save_pks_step [where owned = ?owned, OF _ assms(2) _ _ _ loc]
  have rb: "reads_back (ce_pk env) (pk i)" for i using assms(4) by blast
  have owned: "\<forall>i \<in> {0..<0 + 1}. ?owned i = pk 0" "\<forall>i \<in> {0 + 1..<n div 2}. ?owned i = pk 1"
    "\<forall>i \<in> {n div 2..<n - 2}. ?owned i = pk (n - 3)" "\<forall>i \<in> {n - 2..<n - 2 + 1}. ?owned i = pk (n - 2)"
    "\<forall>i \<in> {n - 1..<n - 1 + 1}. ?owned i = pk (n - 1)" and next_idx: "n - 2 + 1 = n - 1"
    and lt: "0 + 1 < n div 2" "n div 2 < n - 2"
    using assms(1) unfolding one_index by (auto simp: key_owner_def)
  obtain f1 where f1: "save_pks env (pk 0) d (0, 0 + 1) fs = Inr f1" "saved_upto env fs d cs ?owned (0 + 1) f1"
    by (rule step [OF assms(3) less_add_one owned(1) rb])
  obtain f2 where f2: "save_pks env (pk 1) d (0 + 1, n div 2) f1 = Inr f2" "saved_upto env fs d cs ?owned (n div 2) f2"
    by (rule step [OF f1(2) lt(1) owned(2) rb])
  obtain f3 where f3: "save_pks env (pk (n - 3)) d (n div 2, n - 2) f2 = Inr f3" "saved_upto env fs d cs ?owned (n - 2) f3"
    by (rule step [OF f2(2) lt(2) owned(3) rb])
  obtain f4 where f4: "save_pks env (pk (n - 2)) d (n - 2, n - 2 + 1) f3 = Inr f4" "saved_upto env fs d cs ?owned (n - 2 + 1) f4"
    by (rule step [OF f3(2) less_add_one owned(4) rb])
  obtain fs' where f5: "save_pks env (pk (n - 1)) d (n - 1, n - 1 + 1) f4 = Inr fs'" "saved_upto env fs d cs ?owned (n - 1 + 1) fs'"
    by (rule step [OF f4(2) [unfolded next_idx] less_add_one owned(5) rb])
  show thesis
    using that [of f1 f2 f3 f4 fs'] f1(1) f2(1) f3(1) f4(1) f5 assms(1) unfolding save_pk_single by simp
qed


text \<open>
  C7: Key generation for more than four subcircuits leaves everything a session needs in place, if the five keys and the
  aggregation key can be generated, what is written reads back, both directories exist, the two files of the coordinator are not
  links, and the directory of the keys is given by an absolute path and holds no file with the name of a key yet (other
  directories may): the parameters, the aggregation key over the keys of all subcircuits, and for each subcircuit the
  key of its owner, in a file or behind a link, though only five keys are generated.
\<close>

theorem generated_keys_in_place:
  assumes params: "gen_test_circuit_params num_subcircuits num_sha2_iters num_portals = Inr params" "op_new (ne_ops env) params = Inr circ"
      "op_num_subcircuits (ne_ops env) circ = n" "4 < n" "op_portal_subtraces (ne_ops env) circ = Inr sts"
    and pks: "\<And>i. i \<in> {0, 1, n - 3, n - 2, n - 1} \<Longrightarrow> rbind (gen_pk_circuit (ne_ops env) (ne_ml env) circ sts i)
       (\<lambda>subcirc. unwrap_res unwrap_err_msg (ne_generate_parameters env subcirc)) = Inr (pk i)"
    and keys: "keys_num_subcircuits keys = n" "\<And>i. i < n \<Longrightarrow> keys_get_pk keys i = Inr (pk (key_owner n i))"
      "node_coordinator_new env keys = Inr nc" "nc_circ_params nc = params" "ip_supported_size (fst (nc_agg_pk nc)) = n"
    and files: "cs = resolve (fs_dirs fs) [] ds" "fs_dirs fs cs" "fs_dirs fs (fst (locate (fs_dirs fs) (fs_cwd fs) coord_dir []))"
      "\<And>p i. p \<in> {''g16_pk'', ''g16_ck''} \<Longrightarrow> fs_nodes fs (cs, file_name p (Some i)) = None"
      "\<And>p. snd p \<in> {file_name ''test_circ_params'' None, file_name ''agg_ck'' None} \<Longrightarrow> plain fs p"
    and rb: "\<And>i. reads_back (ce_pk env) (pk i)" "reads_back (ne_params_codec env) params" "reads_back (ce_agg_ck env) (nc_agg_pk nc)"
  shows "\<exists>fs'. coordinator_main env (GenKeys (Absolute ds) coord_dir num_subcircuits num_sha2_iters num_portals) fs = Inr fs'
     \<and> keys_in_place env keys nc (Absolute ds) coord_dir fs'"
proof -
  let ?owned = "\<lambda>i. pk (key_owner n i)" and ?params = "file_name ''test_circ_params'' None" and ?agg = "file_name ''agg_ck'' None"
  have coord: "fs_dirs fs (fst (file_at fs coord_dir p i))" for p i using files(3) by (metis fst_locate)
  obtain fs0 where fs0: "serialize_to_path (ne_params_codec env) params coord_dir ''test_circ_params'' None fs = Some fs0" "only {?params} fs fs0"
    "fs_nodes fs0 (file_at fs coord_dir ''test_circ_params'' None) = Some (Regular (cod_ser (ne_params_codec env) params))"
    by (rule serialize_plain [where N = "{?params}" and c = "ne_params_codec env" and x = params and fs = fs and d = coord_dir and p = "''test_circ_params''" and index = None, OF files(5) coord], simp, simp) (rule that)
  have start: "saved_upto env fs0 (Absolute ds) cs ?owned 0 fs0"
  proof -
    have "fs_nodes fs0 (cs, file_name p (Some i)) = None" if "p = ''g16_pk'' \<or> p = ''g16_ck''" for p i
    proof -
      have "file_name p (Some i) \<noteq> ?params" using that by (auto simp: file_name_eq)
      then have "fs_nodes fs0 (cs, file_name p (Some i)) = fs_nodes fs (cs, file_name p (Some i))" using fs0(2) unfolding only_def by (metis singletonD snd_conv)
      with files(4) [of p i] that show ?thesis by auto
    qed
    then show ?thesis by (simp add: saved_upto_def)
  qed
  have loc0: "locate (fs_dirs fs0) base (Absolute ds) name = (cs, name)" for base name using files(1) fs0(2) by (simp add: only_def)
  have dir0: "fs_dirs fs0 cs" using files(2) fs0(2) by (simp add: only_def)
  obtain f1 f2 f3 f4 f5 where save: "save_pk env (pk 0) (Absolute ds) 0 fs0 = Inr f1" "save_pks env (pk 1) (Absolute ds) (1, n div 2) f1 = Inr f2"
    "save_pks env (pk (n - 3)) (Absolute ds) (n div 2, n - 2) f2 = Inr f3" "save_pk env (pk (n - 2)) (Absolute ds) (n - 2) f3 = Inr f4"
    "save_pk env (pk (n - 1)) (Absolute ds) (n - 1) f4 = Inr f5" and f5: "saved_upto env fs0 (Absolute ds) cs ?owned n f5"
    by (rule save_all_pks [OF params(4) dir0 start _ loc0]) (use rb(1) in \<open>simp_all add: that\<close>)
  have same: "fs_nodes f5 q = fs_nodes fs0 q" if "snd q \<in> {?params, ?agg}" for q
  proof -
    have "snd q \<notin> names ''g16_pk'' \<union> names ''g16_ck''" using that by (auto simp: file_name_in_names)
    with f5 show ?thesis unfolding saved_upto_def by blast
  qed
  have cwd: "fs_cwd f5 = fs_cwd fs" "fs_dirs f5 = fs_dirs fs" using f5 fs0(2) by (simp_all add: saved_upto_def only_def)
  have agg_ck: "unwrap_res unwrap_err_msg (ne_tipa_setup env n) = Inr (fst (nc_agg_pk nc))"
    "agg_proving_key_new (fst (nc_agg_pk nc)) (keys_get_pk keys) = Inr (snd (nc_agg_pk nc))"
    using keys(1,3) by (auto simp: node_coordinator_new_def generate_agg_key_def Let_def rbind_Inr_iff)
  have "agg_proving_key_new (fst (nc_agg_pk nc)) (pk_fetcher_of n (pk 0) (pk 1) (pk (n - 3)) (pk (n - 2)) (pk (n - 1))) = Inr (snd (nc_agg_pk nc))"
    unfolding agg_ck(2) [symmetric] by (rule agg_proving_key_new_cong) (simp add: keys(2,5) pk_fetcher_of_eq [OF params(4)] del: One_nat_def)
  then have save_agg: "save_agg_ck env n (pk_fetcher_of n (pk 0) (pk 1) (pk (n - 3)) (pk (n - 2)) (pk (n - 1))) coord_dir f5
      = io_unwrap (serialize_to_path (ce_agg_ck env) (nc_agg_pk nc) coord_dir ''agg_ck'' None f5)"
    by (simp add: save_agg_ck_def agg_ck(1))
  have "fs_nodes f5 (file_at f5 coord_dir ''agg_ck'' None) = fs_nodes fs0 (file_at fs coord_dir ''agg_ck'' None)" using same by (simp add: cwd)
  moreover have "plain fs0 (file_at fs coord_dir ''agg_ck'' None)" by (rule only_plain [OF fs0(2) files(5)]) simp
  ultimately have plain5: "plain f5 (file_at f5 coord_dir ''agg_ck'' None)" by (simp add: plain_def)
  obtain fs' where fs': "serialize_to_path (ce_agg_ck env) (nc_agg_pk nc) coord_dir ''agg_ck'' None f5 = Some fs'" "only {?agg} f5 fs'"
    "fs_nodes fs' (file_at f5 coord_dir ''agg_ck'' None) = Some (Regular (cod_ser (ce_agg_ck env) (nc_agg_pk nc)))"
    by (rule serialize_plain [where N = "{?agg}" and c = "ce_agg_ck env" and x = "nc_agg_pk nc", OF plain5], simp add: cwd coord, simp) (rule that)
  have many: "\<not> n \<le> 4" using params(4) by simp
  have "coordinator_main env (GenKeys (Absolute ds) coord_dir num_subcircuits num_sha2_iters num_portals) fs = Inr fs'"
    using fs0(1) fs'(1) many save pks [of 0] pks [of 1] pks [of "n - 3"] pks [of "n - 2"] pks [of "n - 1"]
    by (simp add: generate_g16_pks_def params Let_def save_agg io_unwrap_def del: One_nat_def)
  moreover have "keys_in_place env keys nc (Absolute ds) coord_dir fs'"
  proof -
    have "fs_nodes f5 (file_at fs coord_dir ''test_circ_params'' None) = Some (Regular (cod_ser (ne_params_codec env) params))"
      using same fs0(3) by simp
    then have "stored f5 (ne_params_codec env) coord_dir ''test_circ_params'' None params" by (simp add: stored_def cwd rb(2))
    then have "stored fs' (ne_params_codec env) coord_dir ''test_circ_params'' None params" by (rule stored_other_file [OF fs'(2)]) simp_all
    moreover have "stored fs' (ce_agg_ck env) coord_dir ''agg_ck'' None (nc_agg_pk nc)" using fs'(2,3) rb(3) by (simp add: stored_def only_def)
    moreover have "key_stored (ce_pk env) fs' (Absolute ds) i (pk (key_owner n i))" if "i < n" for i
      by (rule key_stored_only [OF fs'(2)]) (use f5 that in \<open>simp_all add: saved_upto_def file_name_in_names\<close>)
    ultimately show ?thesis using keys(2) by (auto simp: keys_in_place_def keys(1,4))
  qed
  ultimately show ?thesis by blast
qed


definition toy_params8 :: tree_params where
  "toy_params8 = \<lparr>tp_num_leaves = 4, tp_num_sha_iters = 1, tp_num_portals = 1\<rparr>"

definition toy_key :: "(rat, rat) proving_key" where
  "toy_key = toy_agg_pk [1, 1, 1, 1, 1, 1] 0"

definition toy_ops8 :: "(rat, unit, tree_params) circuit_ops" where
  "toy_ops8 = toy_tree_ops\<lparr>op_portal_subtraces := (\<lambda>_. Inr (replicate 8 [])), op_num_subcircuits := (\<lambda>_. 8), op_get_params := (\<lambda>_. toy_params8)\<rparr>"

definition toy_env8 :: "toy_cli_coordinator \<Rightarrow> toy_cli_env" where
  "toy_env8 nc = (toy_cli_env undefined undefined nc undefined)\<lparr>ne_ops := toy_ops8, ne_generate_parameters := (\<lambda>_. Inr toy_key),
     ne_params_codec := one_codec toy_params8, ce_pk := one_codec toy_key\<rparr>"

definition toy_keys8 :: "(rat, rat) proving_keys" where
  "toy_keys8 = \<lparr>ks_circuit_id = ''tree'', ks_serialized_circ_params = [],
     ks_minimal_proving_keys = btree_collect (map (\<lambda>i. (i, toy_key)) [0, 1, 5, 6, 7]),
     ks_representative_map = btree_collect (map (\<lambda>i. (i, key_owner 8 i)) [0, 1, 2, 3, 4, 5, 6, 7])\<rparr>"

lemma toy_keys8_facts: "keys_num_subcircuits toy_keys8 = 8" "i < 8 \<Longrightarrow> keys_get_pk toy_keys8 i = Inr toy_key"
proof -
  show "keys_num_subcircuits toy_keys8 = 8"
    by (simp add: keys_num_subcircuits_def toy_keys8_def btree_collect_def Mapping.size_def)
  assume "i < 8"
  then have "i \<in> {0, 1, 2, 3, 4, 5, 6, 7}" by auto
  then show "keys_get_pk toy_keys8 i = Inr toy_key"
    by (auto simp: keys_get_pk_def toy_keys8_def btree_collect_def lookup_update' key_owner_def)
qed

lemma toy_coordinator8:
  obtains nc where "node_coordinator_new (toy_env8 nc) toy_keys8 = Inr nc" "nc_circ_params nc = toy_params8" "ip_supported_size (fst (nc_agg_pk nc)) = 8"
proof -
  obtain ak where ak: "agg_proving_key_new (toy_ipp 8) (keys_get_pk toy_keys8) = Inr ak"
    by (rule agg_proving_key_new_eq [OF toy_ipp_law, of 8 8 "keys_get_pk toy_keys8" "\<lambda>_. toy_key"])
      (simp_all add: toy_keys8_facts toy_ipp_def, simp add: toy_key_def toy_agg_pk_def)
  let ?nc = "\<lparr>nc_g16_pks = toy_keys8, nc_agg_pk = (toy_ipp 8, ak), nc_circ_params = toy_params8, nc_stage0_state = None, nc_stage1_state = None\<rparr>"
  show thesis
    by (rule that [of ?nc])
      (simp_all add: node_coordinator_new_def generate_agg_key_def toy_keys8_facts toy_env8_def toy_cli_env_def Let_def ak one_codec_def, simp add: toy_ipp_def)
qed

definition empty_fs :: file_system where
  "empty_fs = \<lparr>fs_cwd = [''home''], fs_dirs = (\<lambda>_. True), fs_nodes = Map.empty\<rparr>"

theorem generated_keys_in_place_witness:
  "\<exists>nc fs'. coordinator_main (toy_env8 nc) (GenKeys (Absolute [''keys'']) (Relative [''coord'']) 8 1 1) empty_fs = Inr fs'
     \<and> keys_in_place (toy_env8 nc) toy_keys8 nc (Absolute [''keys'']) (Relative [''coord'']) fs'"
proof -
  obtain nc where nc: "node_coordinator_new (toy_env8 nc) toy_keys8 = Inr nc" "nc_circ_params nc = toy_params8" "ip_supported_size (fst (nc_agg_pk nc)) = 8"
    by (rule toy_coordinator8)
  have ops: "ne_ops (toy_env8 nc) = toy_ops8" by (simp add: toy_env8_def)
  have log: "log2 8 = Inr 3" using log2_power [of 3] by simp
  have "is_power_of_two 8" unfolding is_power_of_two_def by (rule bexI [of _ 3]) simp_all
  then have params: "gen_test_circuit_params 8 1 1 = Inr toy_params8" by (simp add: gen_test_circuit_params_def toy_params8_def)
  have "\<exists>fs'. coordinator_main (toy_env8 nc) (GenKeys (Absolute [''keys'']) (Relative [''coord'']) 8 1 1) empty_fs = Inr fs'
     \<and> keys_in_place (toy_env8 nc) toy_keys8 nc (Absolute [''keys'']) (Relative [''coord'']) fs'"
  proof (rule generated_keys_in_place [where pk = "\<lambda>_. toy_key" and n = 8 and circ = "()" and sts = "replicate 8 []", OF params])
    fix i :: nat assume "i \<in> {0, 1, 8 - 3, 8 - 2, 8 - 1}"
    then have "vindex (replicate 8 []) i = Inr ([] :: rat transcript_entry list)" by (auto simp: vindex_def vget_def)
    then show "rbind (gen_pk_circuit (ne_ops (toy_env8 nc)) (ne_ml (toy_env8 nc)) () (replicate 8 []) i)
        (\<lambda>subcirc. unwrap_res unwrap_err_msg (ne_generate_parameters (toy_env8 nc) subcirc)) = Inr toy_key"
      by (simp add: gen_pk_circuit_def subcircuit_new_def Let_def toy_env8_def toy_ops8_def toy_tree_ops_def log usub_def)
  qed (use nc toy_keys8_facts in \<open>simp_all add: ops toy_ops8_def toy_tree_ops_def empty_fs_def plain_def\<close>,
       simp_all add: toy_env8_def toy_cli_env_def)
  then show ?thesis by blast
qed


section \<open>Relative directories\<close>

text \<open>A link to a place with no file cannot be read.\<close>

lemma read_dangling:
  assumes "fs_nodes fs p = Some (Symlink d name)" "fs_nodes fs (locate (fs_dirs fs) (fst p) d name) = None"
  shows "read_file fs p = None"
  using assms unfolding read_file_def max_links_def by (simp add: eval_nat_numeral)

text \<open>A walk along an absolute path does not depend on where it starts, and a walk along no components stays.\<close>

lemma locate_stays:
  "d = Absolute ds \<Longrightarrow> locate dirs (fst (locate dirs base d name)) d name = locate dirs base d name"
  "d = Relative [''.''] \<Longrightarrow> locate dirs (fst (locate dirs base d name)) d name = locate dirs base d name"
  by simp_all

text \<open>
  C34: Files written for a range of subcircuits into an existing directory that has none of them yet: the first always reads back, and another one reads back
  if the path of the directory, looked up from that directory, leads back to it, as an absolute path or \<open>.\<close> does. If it leads
  to a place with no file, as the plain name of a subdirectory does, all but the first are unreadable: the target of
  a link is looked up from the directory of the link.
\<close>

theorem relative_links_dangle:
  assumes "p = ''g16_pk'' \<or> p = ''g16_ck''" "a < i" "i < b" "reads_back c x" "fs_dirs fs cs"
    and dir: "cs = fst (locate (fs_dirs fs) (fs_cwd fs) d [])"
    and fresh: "\<And>k. a \<le> k \<Longrightarrow> k < b \<Longrightarrow> fs_nodes fs (cs, file_name p (Some k)) = None"
  shows "\<exists>fs'. serialize_to_paths c x d p (a, b) fs = Some fs' \<and> deserialize_from_path c d p (Some a) fs' = Inr x
     \<and> (fst (locate (fs_dirs fs) cs d []) = cs \<longrightarrow> deserialize_from_path c d p (Some i) fs' = Inr x)
     \<and> (fst (locate (fs_dirs fs) cs d []) \<noteq> cs \<and> fs_nodes fs (locate (fs_dirs fs) cs d (file_name p (Some a))) = None \<longrightarrow>
          deserialize_from_path c d p (Some i) fs' = Inl (Panic ''couldn't open file''))"
proof -
  let ?fs = "linked d cs p a b (cod_ser c x) fs" and ?first = "file_name p (Some a)"
  have p: "lettered p" using assms(1) by auto
  have loc: "locate (fs_dirs fs) (fs_cwd fs) d name = (cs, name)" for name
    unfolding dir by (rule prod_eqI, subst fst_locate [of _ _ _ name "[]"]) simp_all
  have saved: "serialize_to_paths c x d p (a, b) fs = Some ?fs"
    by (rule serialize_to_paths_fresh [OF p _ loc assms(5)]) (use fresh assms(2,3) in auto)
  have same: "fs_cwd ?fs = fs_cwd fs" "fs_dirs ?fs = fs_dirs fs" by (simp_all add: linked_def)
  have first: "fs_nodes ?fs (cs, ?first) = Some (Regular (cod_ser c x))" by (simp add: linked_index [OF p])
  then have one: "deserialize_from_path c d p (Some a) ?fs = Inr x"
    using assms(4) by (simp add: deserialize_from_path_def same loc read_regular reads_back_def)
  have link: "fs_nodes ?fs (cs, file_name p (Some i)) = Some (Symlink d ?first)"
    using assms(2,3) by (simp add: linked_index [OF p])
  have reads: "deserialize_from_path c d p (Some i) ?fs = Inr x" if "fst (locate (fs_dirs fs) cs d []) = cs"
  proof -
    have "locate (fs_dirs fs) cs d ?first = (cs, ?first)"
      by (rule prod_eqI, subst fst_locate [of _ _ _ ?first "[]"]) (simp_all add: that)
    then have "read_file ?fs (cs, file_name p (Some i)) = Some (cod_ser c x)"
      by (intro read_link [OF link]) (simp add: same first)
    then show ?thesis using assms(4) by (simp add: deserialize_from_path_def same loc reads_back_def)
  qed
  have dangling: "deserialize_from_path c d p (Some i) ?fs = Inl (Panic ''couldn't open file'')"
    if "fst (locate (fs_dirs fs) cs d []) \<noteq> cs" "fs_nodes fs (locate (fs_dirs fs) cs d ?first) = None"
  proof -
    have "fst (locate (fs_dirs fs) cs d ?first) \<noteq> cs" using that(1) by (subst fst_locate [of _ _ _ _ "[]"])
    then have "fs_nodes ?fs (locate (fs_dirs fs) cs d ?first) = None" using that(2) by (auto simp: linked_def)
    then have "read_file ?fs (cs, file_name p (Some i)) = None" by (intro read_dangling [OF link]) (simp add: same)
    then show ?thesis by (simp add: deserialize_from_path_def same loc)
  qed
  show ?thesis
    by (rule exI [of _ ?fs], rule conjI [OF saved], rule conjI [OF one], rule conjI; intro impI; (rule reads | elim conjE, rule dangling); assumption)
qed

theorem relative_links_dangle_witness:
  "(\<exists>fs'. serialize_to_paths (one_codec toy_key) toy_key (Relative [''pk'']) ''g16_pk'' (1, 4) empty_fs = Some fs'
     \<and> deserialize_from_path (one_codec toy_key) (Relative [''pk'']) ''g16_pk'' (Some 1) fs' = Inr toy_key
     \<and> deserialize_from_path (one_codec toy_key) (Relative [''pk'']) ''g16_pk'' (Some 2) fs' = Inl (Panic ''couldn't open file''))
   \<and> (\<exists>fs'. serialize_to_paths (one_codec toy_key) toy_key (Relative [''..'', ''home'']) ''g16_pk'' (1, 4) empty_fs = Some fs'
     \<and> deserialize_from_path (one_codec toy_key) (Relative [''..'', ''home'']) ''g16_pk'' (Some 2) fs' = Inr toy_key)"
proof -
  have fs: "fs_dirs empty_fs = (\<lambda>_. True)" "fs_cwd empty_fs = [''home'']" "fs_nodes empty_fs = Map.empty" by (simp_all add: empty_fs_def)
  have pk: "fst (locate (fs_dirs empty_fs) (fs_cwd empty_fs) (Relative [''pk'']) []) = [''home'', ''pk'']"
      "fst (locate (fs_dirs empty_fs) [''home'', ''pk''] (Relative [''pk'']) []) \<noteq> [''home'', ''pk'']"
    and up: "fst (locate (fs_dirs empty_fs) [''home''] (Relative [''..'', ''home'']) []) = [''home'']"
      "fst (locate (fs_dirs empty_fs) (fs_cwd empty_fs) (Relative [''..'', ''home'']) []) = [''home'']"
    by (simp_all add: fs)
  have p: "''g16_pk'' = ''g16_pk'' \<or> ''g16_pk'' = ''g16_ck''" "(1 :: nat) < 2" "(2 :: nat) < 4" "fs_dirs empty_fs cs"
    "fs_nodes empty_fs q = None" for cs q by (simp_all add: fs)
  note dangle = relative_links_dangle [OF p(1-3) one_codec_reads [of toy_key] p(4) _ p(5)]
  show ?thesis using dangle [OF pk(1) [symmetric]] dangle [OF up(2) [symmetric]] pk(2) up(1) p(5) by blast
qed

text \<open>The owner of a key is what the circuit calls the representative of the subcircuit.\<close>

lemma key_owner_is_representative:
  assumes "tree_num_subcircuits tc = n" "4 < n" "i < n"
  shows "tree_representative tc i = Inr (key_owner n i)"
  using assms by (auto simp: tree_representative_def key_owner_def usub_def Let_def)

end
