(* ===== verification/Sql_Correct.thy ===== *)
theory Sql_Correct
  imports Sql_Circuits
begin

text \<open>
  The filter circuit completes the protocol and records for every row whether its ship date is
  within the bound. The sort circuit cannot be run: its native trace sets a portal twice as soon as there
  are two layers, its witnesses cannot be installed, and on equal keys its constraints and its trace
  differ.
\<close>

section \<open>The filter\<close>

definition filter_wf :: "nat \<Rightarrow> 'f compare_lib \<Rightarrow> 'f filter_circuit \<Rightarrow> bool" where
  "filter_wf bound cl fc \<longleftrightarrow> length (fc_lineitem_table fc) = fi_num_rows (fc_params fc)
     \<and> (\<forall>row \<in> set (fc_lineitem_table fc). 6 < length row \<and> cl_rep cl (row ! 6) \<le> bound \<and> cl_de cl (cl_ser cl (row ! 6)) = Some (row ! 6))
     \<and> cl_rep cl (fc_right_shipdate fc) < bound \<and> cl_de cl (cl_ser cl (fc_right_shipdate fc)) = Some (fc_right_shipdate fc)"

lemma cmp_wire_inj [simp]: "cmp_wire i = cmp_wire j \<longleftrightarrow> i = j"
  by (simp add: cmp_wire_def)

definition row_result :: "'f::field compare_lib \<Rightarrow> 'f filter_circuit \<Rightarrow> 'f list \<Rightarrow> 'f" where
  "row_result cl fc row = (if cl_rep cl (row ! 6) \<le> cl_rep cl (fc_right_shipdate fc) then 1 else 0)"

lemma filter_trace_row_eq:
  "6 < length row \<Longrightarrow> filter_trace_row cl fc (i, row) = Set (cmp_wire i) (row_result cl fc row) (Return True)"
  by (simp add: filter_trace_row_def row_result_def portal_set_def)

lemma filter_generate_eq:
  assumes "compare_ok bound cl" "filter_wf bound cl fc" "i < fi_num_rows (fc_params fc)"
  shows "filter_generate cl fc i = filter_trace_row cl fc (i, fc_lineitem_table fc ! i)"
proof -
  let ?row = "fc_lineitem_table fc ! i"
  have row: "?row \<in> set (fc_lineitem_table fc)" using assms(2,3) by (simp add: filter_wf_def)
  then have len: "6 < length ?row" and "cl_rep cl (?row ! 6) \<le> bound" "cl_rep cl (fc_right_shipdate fc) < bound"
    using assms(2) by (auto simp: filter_wf_def)
  then have "cl_is_less cl (?row ! 6) (fc_right_shipdate fc) True = (cl_rep cl (?row ! 6) \<le> cl_rep cl (fc_right_shipdate fc), True)"
    using assms(1) by (simp add: compare_ok_def)
  then show ?thesis
    using assms(2,3) len by (simp add: filter_generate_def filter_trace_row_def table_entry_def filter_wf_def)
qed

lemma filter_recorded:
  assumes "\<forall>row \<in> set rows. 6 < length row" "\<forall>i \<ge> k. sr_var_map s (cmp_wire i) = None"
  shows "\<exists>s' trs. rom_setup_run (map (filter_trace_row cl fc) (enumerate k rows)) s = Inr (True, s')
     \<and> sr_subtraces s' = sr_subtraces s @ trs \<and> list_all2 (\<lambda>row tr. \<exists>a. tr = [\<lparr>rom_addr = a, rom_val = row_result cl fc row\<rparr>]) rows trs"
  using assms
proof (induction rows arbitrary: k s)
  case Nil
  then show ?case by (simp add: rom_setup_run_def)
next
  case (Cons row rows)
  have len: "6 < length row" using Cons.prems(1) by simp
  define e where "e = \<lparr>rom_addr = sr_next_var_addr s, rom_val = row_result cl fc row\<rparr>"
  define s1 where "s1 = s\<lparr>sr_next_var_addr := sr_next_var_addr s + 1, sr_var_map := (sr_var_map s)(cmp_wire k \<mapsto> e),
    sr_subtraces := sr_subtraces s @ [[e]]\<rparr>"
  have step: "run_portal setup_rom_get setup_rom_set (filter_trace_row cl fc (k, row)) (setup_rom_start_subtrace s) = Inr (True, s1)"
    using Cons.prems(2)
    by (simp add: filter_trace_row_eq [OF len] setup_rom_set_def setup_rom_start_subtrace_def Let_def s1_def e_def push_last_def)
  have "\<forall>i \<ge> Suc k. sr_var_map s1 (cmp_wire i) = None" using Cons.prems(2) by (simp add: s1_def)
  then obtain s' trs where IH: "rom_setup_run (map (filter_trace_row cl fc) (enumerate (Suc k) rows)) s1 = Inr (True, s')"
    "sr_subtraces s' = sr_subtraces s1 @ trs" "list_all2 (\<lambda>row tr. \<exists>a. tr = [\<lparr>rom_addr = a, rom_val = row_result cl fc row\<rparr>]) rows trs"
    using Cons.IH [of "Suc k" s1] Cons.prems(1) by auto
  then show ?case
    using step by (intro exI [of _ s'] exI [of _ "[e] # trs"]) (simp add: rom_setup_run_def s1_def e_def)
qed

lemma filter_programs:
  assumes "compare_ok bound cl" "filter_wf bound cl fc" "n = fi_num_rows (fc_params fc)"
  shows "map (filter_generate cl fc) [0..<n] = map (filter_trace_row cl fc) (enumerate 0 (fc_lineitem_table fc))"
  using assms(2,3) filter_generate_eq [OF assms(1,2)]
  by (intro nth_equalityI) (simp_all add: filter_wf_def nth_enumerate_eq)

lemma filter_traced:
  assumes "compare_ok bound cl" "filter_wf bound cl fc"
  obtains s where
    "rom_setup_run (map (filter_generate cl fc) [0..<fi_num_rows (fc_params fc)]) setup_rom_new = Inr (True, s)"
    "filter_portal_subtraces cl fc = Inr (map (map RomEntry) (sr_subtraces s))"
    "list_all2 (\<lambda>row tr. \<exists>a. tr = [\<lparr>rom_addr = a, rom_val = row_result cl fc row\<rparr>]) (fc_lineitem_table fc) (sr_subtraces s)"
proof -
  have rows: "\<forall>row \<in> set (fc_lineitem_table fc). 6 < length row" using assms(2) by (simp add: filter_wf_def)
  obtain s trs where s: "rom_setup_run (map (filter_trace_row cl fc) (enumerate 0 (fc_lineitem_table fc))) setup_rom_new = Inr (True, s)"
    "sr_subtraces s = sr_subtraces setup_rom_new @ trs"
    "list_all2 (\<lambda>row tr. \<exists>a. tr = [\<lparr>rom_addr = a, rom_val = row_result cl fc row\<rparr>]) (fc_lineitem_table fc) trs"
    using filter_recorded [OF rows, of 0 setup_rom_new cl fc] by (auto simp: setup_rom_new_def)
  show ?thesis
    by (rule that [of s])
      (use s in \<open>simp_all add: filter_programs [OF assms refl] filter_portal_subtraces_def setup_rom_new_def\<close>)
qed

lemma filter_witness_contract:
  assumes "compare_ok bound cl" "filter_wf bound cl fc" "i < fi_num_rows (fc_params fc)"
  shows "witness_contract (filter_ops cl) fc i"
proof -
  let ?row = "fc_lineitem_table fc ! i"
  have row: "i < length (fc_lineitem_table fc)" "6 < length ?row" "cl_de cl (cl_ser cl (?row ! 6)) = Some (?row ! 6)"
    using assms(2,3) by (auto simp: filter_wf_def)
  have codec: "length (cl_ser cl x) = cl_size cl" for x using assms(1) by (simp add: compare_ok_def)
  have right: "cl_de cl (cl_ser cl (fc_right_shipdate fc)) = Some (fc_right_shipdate fc)" using assms(2) by (simp add: filter_wf_def)
  have "filter_get_witnesses cl fc i = Inr (cl_ser cl (?row ! 6) @ cl_ser cl (fc_right_shipdate fc))"
    using row assms(3) by (simp add: filter_get_witnesses_def table_entry_def)
  moreover have "filter_set_witnesses cl i (cl_ser cl (?row ! 6) @ cl_ser cl (fc_right_shipdate fc)) (filter_new (fc_params fc))
      = Inr (filter_new (fc_params fc)\<lparr>
          fc_lineitem_table := (replicate (fi_num_rows (fc_params fc)) (replicate 7 1))[i := (replicate 7 1)[6 := ?row ! 6]],
          fc_right_shipdate := fc_right_shipdate fc\<rparr>)"
    using assms(3) row(3) right by (simp add: filter_set_witnesses_def filter_new_def slice_range_def codec deserialize_field_def vset_def Let_def)
  ultimately show ?thesis
    using row assms(3)
    by (simp add: witness_contract_def filter_ops_def filter_new_def filter_generate_def table_entry_def filter_num_subcircuits_def)
qed

text \<open> C17: the filter benchmark completes and is right. For every table of 2, 4, 8 or any higher power of two of rows
  (the leaves of the execution tree; the Merkle tree library takes no other number of leaves) whose ship dates are in
  the range of the comparison gadget, the coordinator's trace of row i is one write of 1 or 0, according to whether the
  row's date is at most the bound; the coordinator runs both stages and issues every request without failing,
  and every worker ends with a satisfied stage 1 constraint system. \<close>

theorem filter_end_to_end:
  fixes fc :: "'f::field filter_circuit"
  assumes "compare_ok bound cl" "filter_wf bound cl fc"
    and rows: "fi_num_rows (fc_params fc) = 2 ^ Suc k" "k < 63"
    and ml: "merkle_complete ml" "\<forall>ls. length ls = 2 ^ Suc k \<longrightarrow> mt_new ml ls \<noteq> None"
    and com: "commit_left (map s0_com (sort_key s0_idx resps)) = Inr super_com"
  shows "\<exists>trs st0 st1. filter_portal_subtraces cl fc = Inr trs
     \<and> list_all2 (\<lambda>row tr. \<exists>a. tr = [RomEntry \<lparr>rom_addr = a,
           rom_val = (if cl_rep cl (row ! 6) \<le> cl_rep cl (fc_right_shipdate fc) then 1 else 0)\<rparr>]) (fc_lineitem_table fc) trs
     \<and> coordinator0_new (filter_ops cl) fc = Inr st0
     \<and> process_stage0_responses sha256 ser ml Rom commit_left resps st0 = Inr st1
     \<and> (\<forall>i < fi_num_rows (fc_params fc). \<exists>req0 req1. gen_request0 st0 i = Inr req0 \<and> gen_request1 Rom st1 i = Inr req1
           \<and> result_map snd (process_stage1_request (filter_ops cl) ml (\<lambda>s cb. Inr (commit s cb)) (\<lambda>cb cs rs. Inr (prove cb cs rs)) req0 resp0 req1) = Inr True)"
proof -
  let ?n = "fi_num_rows (fc_params fc)"
  have pos: "0 < ?n" by (simp add: rows(1))
  have "(2 :: nat) ^ Suc k \<le> 2 ^ 63" using rows(2) by (intro power_increasing) simp_all
  then have bound: "?n < 2 ^ 64 - 1" by (simp add: rows(1))
  have new: "\<forall>ls. length ls = ?n \<longrightarrow> mt_new ml ls \<noteq> None" using ml(2) rows(1) by simp
  obtain s where s: "rom_setup_run (map (filter_generate cl fc) [0..<?n]) setup_rom_new = Inr (True, s)"
    "filter_portal_subtraces cl fc = Inr (map (map RomEntry) (sr_subtraces s))"
    "list_all2 (\<lambda>row tr. \<exists>a. tr = [\<lparr>rom_addr = a, rom_val = row_result cl fc row\<rparr>]) (fc_lineitem_table fc) (sr_subtraces s)"
    by (rule filter_traced [OF assms(1,2)])
  have ops: "op_mem_type (filter_ops cl) = Rom" "op_num_subcircuits (filter_ops cl) fc = ?n"
    "op_portal_subtraces (filter_ops cl) fc = Inr (map (map RomEntry) (sr_subtraces s))"
    "rom_setup_run (map (op_generate (filter_ops cl) fc) [0..<?n]) setup_rom_new = Inr (True, s)"
    using s(1,2) by (simp_all add: filter_ops_def filter_num_subcircuits_def)
  have "list_all2 sets_at_most (map (filter_generate cl fc) [0..<?n]) (replicate ?n 1)"
    by (auto simp: list_all2_conv_all_nth filter_generate_def Let_def portal_set_def split: prod.split intro!: sets_at_most_lift_bind)
  from rom_setup_run_size [OF this s(1)] have cap: "card (dom (sr_var_map s)) < 2 ^ 64 - 1"
    using bound by (simp add: setup_rom_new_def sum_list_replicate)
  have len: "length (fc_lineitem_table fc) = ?n" using assms(2) by (simp add: filter_wf_def)
  then have "length (sr_subtraces s) = ?n" using list_all2_lengthD [OF s(3)] by simp
  moreover have "\<exists>a. sr_subtraces s ! 0 = [\<lparr>rom_addr = a, rom_val = row_result cl fc (fc_lineitem_table fc ! 0)\<rparr>]"
    using list_all2_nthD [OF s(3)] len pos by simp
  ultimately have ne: "concat (sr_subtraces s) \<noteq> []" using pos by (cases "sr_subtraces s") auto
  have contract: "\<forall>i < ?n. witness_contract (filter_ops cl) fc i"
    using filter_witness_contract [OF assms(1,2)] by blast
  have trs: "list_all2 (\<lambda>row tr. \<exists>a. tr = [RomEntry \<lparr>rom_addr = a,
      rom_val = (if cl_rep cl (row ! 6) \<le> cl_rep cl (fc_right_shipdate fc) then 1 else 0)\<rparr>])
      (fc_lineitem_table fc) (map (map RomEntry) (sr_subtraces s))"
    using s(3) by (auto simp: list_all2_map2 row_result_def elim!: list_all2_mono)
  from rom_protocol_run [where commit_left = commit_left and resps = resps and ?sha256.0 = sha256 and ser = ser
      and commit = commit and prove = prove and ?resp0.0 = resp0, OF ops(1,2,4,3) cap ne contract ml(1) new com] trs s(2)
  show ?thesis by blast
qed

section \<open>The sort\<close>

lemma sort_layers_bounds: "1 < n \<Longrightarrow> 0 < sort_layers n \<and> 2 ^ (sort_layers n - 1) < n \<and> n \<le> 2 ^ sort_layers n"
proof (induction n rule: sort_layers.induct)
  case (1 n)
  let ?m = "(n + 1) div 2"
  have layers: "sort_layers n = sort_layers ?m + 1" using 1(2) by (subst sort_layers.simps) simp
  show ?case
  proof (cases "1 < ?m")
    case True
    with 1(1) 1(2) have IH: "0 < sort_layers ?m" "2 ^ (sort_layers ?m - 1) < ?m" "?m \<le> 2 ^ sort_layers ?m" by auto
    then have "2 * 2 ^ (sort_layers ?m - 1) < n" by linarith
    moreover have "(2 :: nat) * 2 ^ (sort_layers ?m - 1) = 2 ^ sort_layers ?m" using IH(1) by (cases "sort_layers ?m") simp_all
    moreover have "n \<le> 2 * 2 ^ sort_layers ?m" using IH(3) by linarith
    ultimately show ?thesis by (simp add: layers)
  next
    case False
    then have n: "n = 2" using 1(2) by linarith
    from False have "sort_layers ?m = 0" by (subst sort_layers.simps) (simp only: if_False)
    then have "sort_layers n = 1" using layers by simp
    then show ?thesis by (simp add: n)
  qed
qed

lemma layer_shape_eq:
  assumes "i < sort_num_subcircuits sc"
  obtains seg where "layer_shape sc i = Inr (seg, (so_num_rows (so_params sc) + seg - 1) div seg div 2)"
    "0 < seg" "seg < so_num_rows (so_params sc)" "i = 0 \<Longrightarrow> so_num_rows (so_params sc) \<le> 2 * seg"
proof -
  let ?n = "so_num_rows (so_params sc)"
  let ?L = "sort_num_subcircuits sc"
  have n: "1 < ?n"
  proof (rule ccontr)
    assume "\<not> 1 < ?n"
    then have "sort_layers ?n = 0" by (subst sort_layers.simps) simp
    with assms show False by (simp add: sort_num_subcircuits_def)
  qed
  have b: "0 < ?L" "2 ^ (?L - 1) < ?n" "?n \<le> 2 ^ ?L" using sort_layers_bounds [OF n] by (simp_all add: sort_num_subcircuits_def)
  show ?thesis
  proof (rule that [of "2 ^ (?L - i - 1)"])
    show "layer_shape sc i = Inr (2 ^ (?L - i - 1), (?n + 2 ^ (?L - i - 1) - 1) div 2 ^ (?L - i - 1) div 2)"
      using assms by (simp add: layer_shape_def Let_def)
    have "(2 :: nat) ^ (?L - i - 1) \<le> 2 ^ (?L - 1)" by (rule power_increasing) simp_all
    then show "2 ^ (?L - i - 1) < ?n" using b(2) by (rule le_less_trans)
    show "?n \<le> 2 * 2 ^ (?L - i - 1)" if "i = 0" using b that by (cases ?L) simp_all
  qed simp
qed

lemma two_segments:
  fixes n seg :: nat
  assumes "0 < seg" "seg < n"
  shows "0 < (n + seg - 1) div seg div 2" and "n \<le> 2 * seg \<Longrightarrow> (n + seg - 1) div seg div 2 = 1"
proof -
  have "2 * seg \<le> n + seg - 1" using assms by simp
  then have "2 \<le> (n + seg - 1) div seg" using assms(1) by (simp add: less_eq_div_iff_mult_less_eq)
  then show "0 < (n + seg - 1) div seg div 2" by simp
  assume "n \<le> 2 * seg"
  then have "n + seg - 1 < 3 * seg" using assms by simp
  then have "(n + seg - 1) div seg < 3" by (simp add: less_mult_imp_div_less)
  with \<open>2 \<le> (n + seg - 1) div seg\<close> have "(n + seg - 1) div seg = 2" by simp
  then show "(n + seg - 1) div seg div 2 = 1" by simp
qed

lemma sort_segment_length:
  "sort_segment sc start len = Inr xs \<Longrightarrow> length xs = length (filter (\<lambda>i. start + i < so_num_rows (so_params sc)) [0..<len])"
  unfolding sort_segment_def by (drule rmap_Inr_nth) simp

lemma first_position: "0 < (k :: nat) \<Longrightarrow> start < n \<Longrightarrow> \<exists>js. filter (\<lambda>i. start + i < n) [0..<k] = 0 # js"
  by (simp add: upt_conv_Cons)

lemma merge_native_nonempty: "ls \<noteq> [] \<Longrightarrow> \<exists>x xs. merge_native cl ls rs = x # xs"
  by (cases ls; cases rs) simp_all

text \<open>Every layer writes the first wire of the first pair.\<close>

lemma sort_trace_sets:
  assumes i: "i < sort_num_subcircuits sc" and run: "eval_portal False (sort_trace cl sc i) m = Inr (b, m')"
  shows "m (merged_wire 0 0) = None \<and> m' (merged_wire 0 0) \<noteq> None"
proof -
  obtain seg num_pairs where seg: "layer_shape sc i = Inr (seg, num_pairs)" "0 < seg" "seg < so_num_rows (so_params sc)" "0 < num_pairs"
    using layer_shape_eq [OF i] two_segments(1) by metis
  have k: "[0..<num_pairs] = 0 # [1..<num_pairs]" using seg(4) by (simp add: upt_conv_Cons)
  from run obtain lr where lr: "pair_segments sc seg 0 = Inr lr"
    by (auto simp: sort_trace_def seg(1) k eval_portal_bind rbind_Inr_iff)
  obtain left right where lr': "lr = (left, right)" by (cases lr)
  have "sort_segment sc 0 seg = Inr left" using lr by (auto simp: pair_segments_def lr' Let_def rbind_Inr_iff)
  then have "left \<noteq> []" using sort_segment_length [of sc 0 seg left] first_position [of seg 0 "so_num_rows (so_params sc)"] seg(2,3) by auto
  then obtain x xs where merged: "merge_native cl left right = x # xs" using merge_native_nonempty by blast
  define rest where "rest = (\<lambda>pair_idx (_ :: bool). pbind (lift_res (pair_segments sc seg pair_idx)) (\<lambda>(left, right).
       pbind (set_merged pair_idx (merge_native cl left right)) (\<lambda>_. Return True)) :: ('a, bool) portal)"
  define tail :: "('a, bool) portal" where
    "tail = pbind (pbind (pfold (\<lambda>(i, idx) _. portal_set (merged_wire 0 i) (of_nat idx)) (enumerate 1 xs) ()) (\<lambda>_. Return True))
       (pfold rest [1..<num_pairs])"
  have "sort_trace cl sc i = Set (merged_wire 0 0) (of_nat x) tail"
    by (simp add: sort_trace_def seg(1) k lr lr' merged set_merged_def portal_set_def tail_def rest_def pbind_assoc)
  with run have "m (merged_wire 0 0) = None" "eval_portal False tail (m(merged_wire 0 0 \<mapsto> of_nat x)) = Inr (b, m')"
    by (simp_all add: rbind_Inr_iff ensure_Inr_iff)
  moreover from this(2) have "m(merged_wire 0 0 \<mapsto> of_nat x) \<subseteq>\<^sub>m m'" by (rule eval_portal_rom_extends)
  then have "m' (merged_wire 0 0) = Some (of_nat x)" unfolding map_le_def by (metis domI fun_upd_same)
  ultimately show ?thesis by simp
qed

lemma sort_trace_fails:
  assumes "3 \<le> so_num_rows (so_params sc)"
  shows "\<exists>e. sort_portal_subtraces cl sc = Inl e"
proof -
  let ?n = "so_num_rows (so_params sc)"
  let ?L = "sort_num_subcircuits sc"
  have "?n \<le> 2 ^ ?L" using sort_layers_bounds [of ?n] assms by (simp add: sort_num_subcircuits_def)
  then have L: "1 < ?L"
  proof (rule contrapos_pp)
    assume "\<not> 1 < ?L"
    then have "?L = 0 \<or> ?L = 1" by auto
    with assms show "\<not> ?n \<le> 2 ^ ?L" by auto
  qed
  have ps: "[0..<?L] = 0 # 1 # [2..<?L]" using L by (simp add: upt_conv_Cons numeral_2_eq_2)
  have "\<nexists>r. eval_run False (map (sort_trace cl sc) [0..<?L]) Map.empty = Inr r"
  proof
    assume "\<exists>r. eval_run False (map (sort_trace cl sc) [0..<?L]) Map.empty = Inr r"
    then obtain b1 m1 b2 m2 where r: "eval_portal False (sort_trace cl sc 0) Map.empty = Inr (b1, m1)"
      "eval_portal False (sort_trace cl sc 1) m1 = Inr (b2, m2)"
      by (auto simp: ps rbind_Inr_iff)
    show False
      using sort_trace_sets [OF _ r(1)] sort_trace_sets [OF _ r(2)] L by simp
  qed
  then have "\<exists>e. rom_setup_run (map (sort_trace cl sc) [0..<?L]) setup_rom_new = Inl e"
    using rom_setup_run_eval [of "map (sort_trace cl sc) [0..<?L]" setup_rom_new]
    by (cases "rom_setup_run (map (sort_trace cl sc) [0..<?L]) setup_rom_new") (auto split: prod.splits)
  then show ?thesis by (auto simp: sort_portal_subtraces_def)
qed

lemma length_concat_const: "\<forall>x \<in> set xs. length (f x) = k \<Longrightarrow> length (concat (map f xs)) = length xs * k"
  by (induction xs) simp_all

text \<open>The bytes of the only pair of the first layer end where its sorted indices should start.\<close>

lemma sort_install_fails:
  assumes "compare_ok bound cl" "2 \<le> so_num_rows (so_params sc)" "so_params sc' = so_params sc"
    and "sort_get_witnesses cl sc 0 = Inr w"
  shows "\<exists>msg. sort_set_witnesses cl 0 w sc' = Inl (Panic msg)"
proof -
  let ?n = "so_num_rows (so_params sc)"
  have L: "0 < sort_num_subcircuits sc" using sort_layers_bounds [of ?n] assms(2) by (simp add: sort_num_subcircuits_def)
  obtain seg where seg: "layer_shape sc 0 = Inr (seg, (?n + seg - 1) div seg div 2)" "0 < seg" "seg < ?n" "?n \<le> 2 * seg"
    using layer_shape_eq [OF L] by metis
  have shape: "layer_shape sc 0 = Inr (seg, 1)" using seg(1) two_segments(2) [OF seg(2,3,4)] by simp
  have shape': "layer_shape sc' 0 = Inr (seg, 1)" using shape assms(3) by (simp add: layer_shape_def sort_num_subcircuits_def)
  have right: "min (seg + seg) ?n = ?n" using seg(4) by simp
  from assms(4) obtain left rght where lr: "sort_segment sc 0 seg = Inr left" "sort_segment sc seg (?n - seg) = Inr rght"
    and w: "w = concat (map (\<lambda>(sort_key, idx). cl_ser cl sort_key @ cl_ser cl (of_nat idx)) (left @ rght))"
    using seg(3) by (auto simp: sort_get_witnesses_def shape pair_segments_def Let_def right rbind_Inr_iff)
  have "length left = seg" using sort_segment_length [OF lr(1)] seg(3) by simp
  moreover have "filter (\<lambda>i. seg + i < ?n) [0..<?n - seg] = [0..<?n - seg]" by (rule filter_True) auto
  then have "length rght = ?n - seg" using sort_segment_length [OF lr(2)] by simp
  moreover have "length w = length (left @ rght) * (2 * cl_size cl)"
    unfolding w using assms(1) by (intro length_concat_const) (auto simp: compare_ok_def)
  ultimately have len: "length w = (seg + (?n - seg)) * 2 * cl_size cl" by simp
  have js: "[0..<?n] = 0 # [1..<?n]" using assms(2) by (simp add: upt_conv_Cons)
  show ?thesis
    by (simp add: sort_set_witnesses_def shape' sort_set_pair_def assms(3) Let_def right seg(3) less_imp_le js order.strict_trans1 [OF le0 seg(3)] sort_set_index_def slice_range_def
        len [simplified])
qed

text \<open> C28: the sort benchmark cannot be run. With three or more rows the coordinator fails, because every layer of
  the native trace writes the same portal; and a worker that installs the witnesses serialised for the first
  layer panics, because the sorted indices it reads are never written. \<close>

theorem sort_circuit_fails:
  assumes "compare_ok bound cl" "3 \<le> so_num_rows (so_params sc)"
  shows "(\<exists>e. coordinator0_new (sort_ops cl) sc = Inl e)
    \<and> (\<exists>e. rbind (op_get_witnesses (sort_ops cl) sc 0) (\<lambda>w.
         rbind (op_new (sort_ops cl) (op_get_params (sort_ops cl) sc)) (op_set_witnesses (sort_ops cl) 0 w)) = Inl e)"
proof
  obtain e where "op_portal_subtraces (sort_ops cl) sc = Inl e" using sort_trace_fails [OF assms(2), of cl] by (auto simp: sort_ops_def)
  then show "\<exists>e. coordinator0_new (sort_ops cl) sc = Inl e"
    by (cases "rmap (op_get_witnesses (sort_ops cl) sc) [0..<op_num_subcircuits (sort_ops cl) sc]") (simp_all add: coordinator0_new_def)
next
  show "\<exists>e. rbind (op_get_witnesses (sort_ops cl) sc 0) (\<lambda>w.
      rbind (op_new (sort_ops cl) (op_get_params (sort_ops cl) sc)) (op_set_witnesses (sort_ops cl) 0 w)) = Inl e"
  proof (cases "sort_get_witnesses cl sc 0")
    case (Inr w)
    then show ?thesis
      using sort_install_fails [OF assms(1) _ _ Inr, of "sort_new (so_params sc)"] assms(2)
      by (auto simp: sort_ops_def sort_new_def)
  qed (simp add: sort_ops_def)
qed

text \<open>On two equal keys the trace keeps their order and the constraints swap them.\<close>

lemma sort_layers_2: "sort_layers 2 = 1"
  by (subst sort_layers.simps, subst sort_layers.simps) simp

lemma sort_tie:
  assumes "compare_ok bound cl" "cl_rep cl (12 :: 'f::field) \<le> bound"
  shows "sort_trace cl (sort_new \<lparr>so_num_rows = 2, so_sort_column_idx = 0\<rparr>) 0
      = Set (merged_wire 0 0) 0 (Set (merged_wire 0 1) 1 (Return True))"
    and "sort_generate cl (sort_new \<lparr>so_num_rows = 2, so_sort_column_idx = 0\<rparr> :: 'f sort_circuit) 0
      = Set (merged_wire 0 0) 1 (Set (merged_wire 0 1) 0 (Return True))"
proof -
  let ?sc = "sort_new \<lparr>so_num_rows = 2, so_sort_column_idx = 0\<rparr> :: 'f sort_circuit"
  have shape: "layer_shape ?sc 0 = Inr (1, 1)" by (simp add: layer_shape_def sort_num_subcircuits_def sort_new_def sort_layers_2)
  have pair: "pair_segments ?sc 1 0 = Inr ([(12, 0)], [(12, 1)])"
    by (simp add: pair_segments_def sort_segment_def sort_new_def table_entry_def Let_def numeral_2_eq_2)
  have less: "cl_is_less cl 12 12 False = (False, True)" using assms by (simp add: compare_ok_def)
  show "sort_trace cl ?sc 0 = Set (merged_wire 0 0) 0 (Set (merged_wire 0 1) 1 (Return True))"
    by (simp add: sort_trace_def shape pair [unfolded One_nat_def] set_merged_def portal_set_def)
  show "sort_generate cl ?sc 0 = Set (merged_wire 0 0) 1 (Set (merged_wire 0 1) 0 (Return True))"
    by (simp add: sort_generate_def shape pair [unfolded One_nat_def] less set_merged_def portal_set_def)
qed

section \<open>Instances\<close>

text \<open>A comparison library on the rationals that serialises the two numbers in use as one byte.\<close>

definition toy_compare :: "rat compare_lib" where
  "toy_compare = \<lparr>cl_rep = (\<lambda>x. nat \<lfloor>x\<rfloor>), cl_is_less = (\<lambda>a b eq. (if eq then nat \<lfloor>a\<rfloor> \<le> nat \<lfloor>b\<rfloor> else nat \<lfloor>a\<rfloor> < nat \<lfloor>b\<rfloor>, True)),
     cl_ser = (\<lambda>x. [if x = 1 then 1 else 2]), cl_de = (\<lambda>bs. Some (if bs = [1] then 1 else 12)), cl_size = 1\<rparr>"

lemma toy_compare_ok: "compare_ok bound toy_compare"
  by (simp add: compare_ok_def toy_compare_def)

definition toy_filter :: "rat filter_circuit" where
  "toy_filter = \<lparr>fc_lineitem_table = [[0, 0, 0, 0, 0, 0, 1], [0, 0, 0, 0, 0, 0, 12]], fc_right_shipdate = 1, fc_params = \<lparr>fi_num_rows = 2\<rparr>\<rparr>"

lemma toy_filter_wf: "filter_wf 20 toy_compare toy_filter"
  by (simp add: filter_wf_def toy_filter_def toy_compare_def)

theorem filter_end_to_end_witness:
  "\<exists>trs st0 st1 req0 req1. filter_portal_subtraces toy_compare toy_filter = Inr trs
     \<and> (\<exists>a b. trs = [[RomEntry \<lparr>rom_addr = a, rom_val = 1\<rparr>], [RomEntry \<lparr>rom_addr = b, rom_val = 0\<rparr>]])
     \<and> coordinator0_new (filter_ops toy_compare) toy_filter = Inr st0
     \<and> process_stage0_responses (\<lambda>_. [3]) (\<lambda>_. []) flat_merkle Rom (\<lambda>_. Inr ()) [\<lparr>s0_idx = 0, s0_com = (), s0_seed = ()\<rparr>] st0 = Inr st1
     \<and> gen_request0 st0 1 = Inr req0 \<and> gen_request1 Rom st1 1 = Inr req1
     \<and> result_map snd (process_stage1_request (filter_ops toy_compare) flat_merkle (\<lambda>s cb. Inr ((), ()))
          (\<lambda>cb cs rs. Inr ()) req0 \<lparr>s0_idx = 1, s0_com = (), s0_seed = ()\<rparr> req1) = Inr True"
proof -
  have p: "fi_num_rows (fc_params toy_filter) = 2 ^ Suc 0" "0 < (63 :: nat)"
    by (simp_all add: toy_filter_def)
  have new: "\<forall>ls. length ls = 2 ^ Suc 0 \<longrightarrow> mt_new flat_merkle ls \<noteq> None" by (simp add: flat_merkle_def)
  from filter_end_to_end [where commit_left = "\<lambda>_. Inr ()" and super_com = "()" and ?sha256.0 = "\<lambda>_. [3]" and ser = "\<lambda>_. []"
      and resps = "[\<lparr>s0_idx = 0, s0_com = (), s0_seed = ()\<rparr>]" and ?resp0.0 = "\<lparr>s0_idx = 1, s0_com = (), s0_seed = ()\<rparr>"
      and commit = "\<lambda>s cb. ((), ())" and prove = "\<lambda>cb cs rs. ()",
      OF toy_compare_ok toy_filter_wf p flat_merkle_complete new refl]
  show ?thesis by (fastforce simp: toy_filter_def toy_compare_def list_all2_Cons1)
qed

theorem sort_circuit_fails_witness:
  "(\<exists>e. coordinator0_new (sort_ops toy_compare) (sort_new \<lparr>so_num_rows = 4, so_sort_column_idx = 0\<rparr>) = Inl e)
    \<and> (\<exists>e. rbind (op_get_witnesses (sort_ops toy_compare) (sort_new \<lparr>so_num_rows = 4, so_sort_column_idx = 0\<rparr>) 0) (\<lambda>w.
         rbind (op_new (sort_ops toy_compare) \<lparr>so_num_rows = 4, so_sort_column_idx = 0\<rparr>) (op_set_witnesses (sort_ops toy_compare) 0 w)) = Inl e)"
  using sort_circuit_fails [OF toy_compare_ok, of "sort_new \<lparr>so_num_rows = 4, so_sort_column_idx = 0\<rparr>"]
  by (simp add: sort_new_def sort_ops_def)

end
