(* ===== verification/Node_Correct.thy ===== *)
theory Node_Correct
  imports Node_Main Commands_Correct Vkd_Semantics Sql_Correct "HOL-Library.Log_Nat"
begin

text \<open>
  A key package that a command of the node writes is run by the circuit it was made for. For key directories of up to
  sixteen subcircuits no package can be made.
\<close>

section \<open>Packages\<close>

lemma keys_new_package:
  assumes "keys_new env params name = Inr pks"
  shows "ks_circuit_id pks = name" "ks_serialized_circ_params pks = cod_ser (ne_params_codec env) params"
  using assms by (auto simp: keys_new_def Let_def rbind_Inr_iff serialize_to_vec_def)

text \<open>The package a command writes, and the run it is meant for.\<close>

fun key_package where
  "key_package nd (SetupBigMerkle num_subcircuits num_sha2_iters num_portals key_out) =
     rbind (gen_test_circuit_params num_subcircuits num_sha2_iters num_portals) (\<lambda>params. keys_new (nd_merkle nd) params merkle_circuit_id)"
| "key_package nd (SetupVkd num_subcircuits key_out) =
     rbind (ensure ''#subcircuits MUST be a power of 2'' (is_power_of_two num_subcircuits)) (\<lambda>_.
     rbind (ensure ''num. of subcircuits MUST be > 1'' (num_subcircuits > 1)) (\<lambda>_.
     rbind (unwrap_res unwrap_err_msg (sparse_tree_new (nd_hash nd) vkd_depth)) (\<lambda>tree.
     rbind (vindex (st_initial tree) vkd_depth) (\<lambda>null_leaf.
       keys_new (nd_vkd nd) \<lparr>vp_log_num_subcircuits = nd_log2 nd num_subcircuits, vp_null_leaf = null_leaf\<rparr> vkd_circuit_id))))"
| "key_package nd (SetupVm num_subcircuits use_merkle_memory num_cycles_per_subcircuit key_out) =
     rbind (ensure ''#subcircuits MUST be a power of 2'' (is_power_of_two num_subcircuits)) (\<lambda>_.
     rbind (ensure ''num. of subcircuits MUST be > 1'' (num_subcircuits > 1)) (\<lambda>_.
     rbind (ensure ''num. ops per chunk MUST be a power of 2'' (is_power_of_two num_cycles_per_subcircuit)) (\<lambda>_.
     rbind (ensure ''num. ops per chunk MUST be > 1'' (num_cycles_per_subcircuit > 1)) (\<lambda>_.
       keys_new (nd_vm nd) \<lparr>vp_use_merkle_memory = use_merkle_memory, vp_log_num_subcircuit = nd_log2 nd num_subcircuits,
         vp_dummy_constraint_num = vm_constraints_per_cycle, vp_operations_per_chunk = num_cycles_per_subcircuit\<rparr> vm_circuit_id))))"
| "key_package nd (Work key_file num_workers) = Inl (Panic '''')"

fun package_file where
  "package_file (SetupBigMerkle num_subcircuits num_sha2_iters num_portals key_out) = key_out"
| "package_file (SetupVkd num_subcircuits key_out) = key_out"
| "package_file (SetupVm num_subcircuits use_merkle_memory num_cycles_per_subcircuit key_out) = key_out"
| "package_file (Work key_file num_workers) = key_file"

fun intended_run where
  "intended_run nd num_workers (SetupBigMerkle num_subcircuits num_sha2_iters num_portals key_out) pks = node_work nd (nd_merkle nd) num_workers pks"
| "intended_run nd num_workers (SetupVkd num_subcircuits key_out) pks = node_work nd (nd_vkd nd) num_workers pks"
| "intended_run nd num_workers (SetupVm num_subcircuits use_merkle_memory num_cycles_per_subcircuit key_out) pks = node_work nd (nd_vm nd) num_workers pks"
| "intended_run nd num_workers (Work key_file n) pks = Inl (Panic '''')"

lemma setup_writes_package:
  "(\<forall>key_file num_workers. c \<noteq> Work key_file num_workers) \<Longrightarrow>
   node_main nd c fs = rbind (key_package nd c) (\<lambda>pks. result_map (\<lambda>fs. (fs, None)) (write_keys nd (package_file c) pks fs))"
  by (cases c) (simp_all add: setup_big_merkle_def setup_vkd_def setup_vm_def gen_test_circuit_params_def result_map_def
      vm_constraints_per_cycle_def rbind_assoc Let_def)

lemma run_package_intended:
  assumes "key_package nd c = Inr pks" "\<And>n p. c = SetupVkd n p \<Longrightarrow> 16 \<le> keys_num_subcircuits pks"
    and "\<And>params. keys_new (nd_vm nd) params vm_circuit_id = Inr pks \<Longrightarrow> reads_back (ne_params_codec (nd_vm nd)) params"
  shows "run_package nd num_workers pks = intended_run nd num_workers c pks"
proof (cases c)
  case (SetupVm n use_merkle_memory cycles key_out)
  with assms(1) obtain params where keys: "keys_new (nd_vm nd) params vm_circuit_id = Inr pks" by (auto simp: rbind_Inr_iff)
  from keys_new_package [OF keys] SetupVm show ?thesis
    using assms(3) [OF keys] by (simp add: run_package_def Let_def reads_back_def merkle_circuit_id_def vkd_circuit_id_def vm_circuit_id_def)
next
  case (SetupBigMerkle n iters portals key_out)
  with assms(1) obtain params where "keys_new (nd_merkle nd) params merkle_circuit_id = Inr pks" by (auto simp: rbind_Inr_iff)
  from keys_new_package(1) [OF this] SetupBigMerkle show ?thesis by (simp add: run_package_def Let_def)
next
  case (SetupVkd n key_out)
  with assms(1) obtain params where keys: "keys_new (nd_vkd nd) params vkd_circuit_id = Inr pks" by (auto simp: rbind_Inr_iff)
  have "16 \<le> keys_num_subcircuits pks" by (rule assms(2) [OF SetupVkd])
  then have "1 \<le> (keys_num_subcircuits pks - 8) div 8" "8 \<le> keys_num_subcircuits pks" by simp_all
  then show ?thesis
    using SetupVkd keys_new_package(1) [OF keys]
    by (simp add: run_package_def Let_def usub_def merkle_circuit_id_def vkd_circuit_id_def del: One_nat_def)
qed (use assms(1) in simp)

text \<open>
  C35: A key package is run by the circuit it was made for. The command that generates it writes the package to its file and nothing
  else, and the command that works on that file runs the circuit with exactly this package: for
  the key directory if it has at least sixteen subcircuits, for the virtual machine if its parameters read back.
\<close>

theorem package_runs_its_circuit:
  assumes "key_package nd c = Inr pks" "reads_back (nd_keys nd) pks"
    and "plain fs (package_file c)" "fs_dirs fs (fst (package_file c))"
    and "\<And>n p. c = SetupVkd n p \<Longrightarrow> 16 \<le> keys_num_subcircuits pks"
    and "\<And>params. keys_new (nd_vm nd) params vm_circuit_id = Inr pks \<Longrightarrow> reads_back (ne_params_codec (nd_vm nd)) params"
  shows "\<exists>fs'. node_main nd c fs = Inr (fs', None) \<and> (\<forall>q. q \<noteq> package_file c \<longrightarrow> fs_nodes fs' q = fs_nodes fs q)
     \<and> node_main nd (Work (package_file c) num_workers) fs' = result_map (\<lambda>agg. (fs', Some agg)) (intended_run nd num_workers c pks)"
proof -
  let ?fs = "put (package_file c) (cod_ser (nd_keys nd) pks) fs"
  have is_setup: "\<forall>key_file num_workers. c \<noteq> Work key_file num_workers" using assms(1) by auto
  have "node_main nd c fs = Inr (?fs, None)"
    by (simp add: setup_writes_package [OF is_setup] assms(1) write_keys_def write_plain [OF assms(3,4)])
  moreover have "read_file ?fs (package_file c) = Some (cod_ser (nd_keys nd) pks)" by (rule read_regular) simp
  then have "node_main nd (Work (package_file c) num_workers) ?fs = result_map (\<lambda>agg. (?fs, Some agg)) (intended_run nd num_workers c pks)"
    using assms(2) run_package_intended [OF assms(1,5,6)] by (simp add: reads_back_def)
  ultimately show ?thesis by (intro exI [of _ ?fs]) simp
qed

section \<open>Small directories\<close>

lemma rmap_member_total: "rmap f xs = Inr ys \<Longrightarrow> x \<in> set xs \<Longrightarrow> \<exists>y. f x = Inr y"
  by (induction xs arbitrary: ys) (auto simp: rbind_Inr_iff)

text \<open>Keys exist only if every unique subcircuit has a subtrace.\<close>

lemma keys_new_unique:
  assumes "keys_new env params name = Inr pks" "ne_rand_circuit env params = Inr circ"
    and "op_portal_subtraces (ne_ops env) circ = Inr sts" "op_unique_subcircuits (ne_ops env) circ = Inr idxs" "i \<in> set idxs"
  shows "i < length sts"
proof -
  obtain ys where ys: "rmap (\<lambda>i. rbind (rbind (gen_pk_circuit (ne_ops env) (ne_ml env) circ sts i)
      (\<lambda>subcirc. unwrap_res unwrap_err_msg (ne_generate_parameters env subcirc))) (\<lambda>pk. Inr (i, pk))) idxs = Inr ys"
    using assms(1-4) by (auto simp: keys_new_def Let_def rbind_Inr_iff)
  from rmap_member_total [OF ys assms(5)] obtain sc where "gen_pk_circuit (ne_ops env) (ne_ml env) circ sts i = Inr sc"
    by (auto simp: rbind_Inr_iff)
  then obtain tr where "vindex sts i = Inr tr" by (auto simp: gen_pk_circuit_def rbind_Inr_iff)
  then show ?thesis by (simp add: vindex_def vget_def split: if_splits option.splits)
qed


lemma null_leaf_of_tree:
  assumes "hash_lib_ok hl" "sparse_tree_new hl D = Inr t" "vindex (st_initial t) D = Inr null_leaf"
  shows "hash_leaf hl initial_leaf_value = Inr null_leaf"
proof -
  obtain h where h: "hash_leaf hl initial_leaf_value = Inr h" using hash_leaf_total [OF assms(1)] by blast
  obtain hs where hs: "initial_hashes hl D [h] = Inr hs" "length hs = Suc D" "hs ! 0 = h" using initial_hashes_ok [OF assms(1)] by blast
  from assms(2) h hs(1) have "st_initial t = rev hs" by (auto simp: sparse_tree_new_def Let_def rbind_Inr_iff)
  with assms(3) hs(2,3) have "null_leaf = h" by (simp add: vindex_def vget_def rev_nth split: if_splits option.splits)
  with h show ?thesis by simp
qed

text \<open>
  C36: No keys can be generated for a key directory of up to sixteen subcircuits, which the command accepts and the directory
  itself supports from sixteen on: below, the number of updates underflows, and at sixteen one of the subcircuits
  that count as unique does not exist.
\<close>

theorem small_directories_have_no_keys:
  fixes nd :: "('f::field, 'tree, 'dig, 'path, 'g1::ab_group_add, 'g2::ab_group_add, 'gt::ab_group_add, 'ml, 'scom::ab_group_add, 'agg, 't, 'seed, 'rnd) node"
  assumes hl: "hash_lib_ok (nd_hash nd)" and cd: "vkd_codec_ok cd" and ch: "char_above TYPE('f) (2 ^ 216)"
    and distinct: "user_index (nd_hash nd) (replicate 32 8) \<noteq> user_index (nd_hash nd) (replicate 32 0)"
    and env: "ne_ops (nd_vkd nd) = vkd_ops (nd_hash nd) cd" "ne_rand_circuit (nd_vkd nd) = vkd_random (nd_hash nd) cd"
    and log: "\<And>k. nd_log2 nd (2 ^ k) = k" and small_dir: "num_subcircuits \<le> 16"
  shows "\<exists>e. node_main nd (SetupVkd num_subcircuits key_out) fs = Inl e"
proof (rule ccontr)
  let ?hl = "nd_hash nd"
  assume "\<not> ?thesis"
  then obtain r where "node_main nd (SetupVkd num_subcircuits key_out) fs = Inr r" by (cases "node_main nd (SetupVkd num_subcircuits key_out) fs") auto
  moreover obtain tree where tree: "sparse_tree_new ?hl vkd_depth = Inr tree" using sparse_tree_new_ok [OF hl] by blast
  ultimately obtain pks null_leaf where pow: "is_power_of_two num_subcircuits"
    and leaf: "vindex (st_initial tree) vkd_depth = Inr null_leaf"
    and pks: "keys_new (nd_vkd nd) \<lparr>vp_log_num_subcircuits = nd_log2 nd num_subcircuits, vp_null_leaf = null_leaf\<rparr> vkd_circuit_id = Inr pks"
    by (auto simp: setup_vkd_def result_map_def rbind_Inr_iff ensure_Inr_iff unwrap_res_def Let_def)
  from pow obtain k where k: "num_subcircuits = 2 ^ k" unfolding is_power_of_two_def by blast
  then have "(2 :: nat) ^ k \<le> 2 ^ 4" using small_dir by simp
  then have "k \<le> 4" by (rule power_le_imp_le_exp [rotated]) simp
  let ?params = "\<lparr>vp_log_num_subcircuits = k, vp_null_leaf = null_leaf\<rparr>"
  have keys: "keys_new (nd_vkd nd) ?params vkd_circuit_id = Inr pks" using pks k log by simp
  show False
  proof (cases "k < 4")
    case True
    then have "vkd_random ?hl cd ?params = Inl (Panic ''attempt to subtract with overflow'')"
      by (intro vkd_random_small_panics [OF hl]) simp
    with keys env(2) show False by (simp add: keys_new_def Let_def)
  next
    case False
    with \<open>k \<le> 4\<close> have k4: "k = 4" by simp
    have names: "user_index ?hl random_name \<noteq> user_index ?hl genesis_name" by (rule distinct)
    obtain vc s where vc: "vkd_random ?hl cd ?params = Inr vc" "vc_params vc = ?params"
      "rom_setup_run (map (vkd_generate_constraints ?hl cd vc) [0..<vkd_num_subcircuits vc]) setup_rom_new = Inr (True, s)"
      "vkd_get_portal_subtraces ?hl cd vc = Inr (map (map RomEntry) (sr_subtraces s))"
      by (rule vkd_random_traced [OF hl cd ch _ _ names, of ?params]) (use null_leaf_of_tree [OF hl tree leaf] that in \<open>simp_all add: k4\<close>)
    from rom_recording.setup_run_replay [OF vc(3) [unfolded rom_setup_run_def]]
    have "length (sr_subtraces s) = 16" by (auto simp: vkd_num_subcircuits_def vc(2) k4 setup_rom_new_def)
    moreover have "19 < length (map (map RomEntry) (sr_subtraces s))"
      by (rule keys_new_unique [where idxs = "vkd_unique_subcircuits vc", OF keys, of vc]) (simp_all add: env vc(1,4) vkd_ops_def vkd_unique_subcircuits_def)
    ultimately show False by simp
  qed
qed


section \<open>A node\<close>

definition toy_node_env :: "(rat, 'c, 'p) circuit_ops \<Rightarrow> ('p \<Rightarrow> failure + 'c) \<Rightarrow> 'p codec
    \<Rightarrow> (rat, 'c, 'p, rat list list, rat list list, nat, rat, rat, rat, rat, rat, (rat, rat) ipp_witness, nat, nat, nat) node_env" where
  "toy_node_env ops rand params_codec = \<lparr>ne_ops = ops, ne_rand_circuit = rand, ne_ml = flat_merkle,
     ne_sha256 = (\<lambda>_. [3]), ne_ser_super_com = (\<lambda>_. []), ne_root_elems = concat, ne_pl = groth_toy_pairing,
     ne_tipa_setup = (\<lambda>n. Inr (toy_ipp n)), ne_transcript = toy_transcript, ne_new_transcript = 0,
     ne_generate_parameters = (\<lambda>sc. Inr (toy_agg_pk [1, 1, 1, 1, 1, 1] (sp_idx sc))),
     ne_commit = (\<lambda>pk seed sc. Inr (of_nat (seed + sp_idx sc), seed)),
     ne_prove = (\<lambda>pk sc coms rands. Inr \<lparr>pr_a = 1, pr_b = 1, pr_c = 1, pr_ds = coms\<rparr>), ne_rand_from_seed = id,
     ne_default_com = 0, ne_default_seed = 0, ne_default_rand = 0, ne_default_proof = \<lparr>pr_a = 0, pr_b = 0, pr_c = 0, pr_ds = []\<rparr>,
     ne_params_codec = params_codec,
     ne_requests0 = pair_codec [], ne_requests1 = pair_codec [], ne_responses0 = pair_codec [], ne_responses1 = pair_codec []\<rparr>"

definition toy_tree :: tree_circuit where
  "toy_tree = \<lparr>tc_leaves = [[0]], tc_root_hash = [], tc_params = toy_tree_params\<rparr>"

definition toy_merkle_ops :: "(rat, tree_circuit, tree_params) circuit_ops" where
  "toy_merkle_ops = \<lparr>op_mem_type = Rom, op_get_params = tc_params, op_portal_subtraces = (\<lambda>_. Inr [[], []]),
     op_num_subcircuits = tree_num_subcircuits, op_unique_subcircuits = (\<lambda>_. Inr [0, 1]), op_representative = (\<lambda>_. Inr),
     op_new = (\<lambda>_. Inr toy_tree), op_get_witnesses = (\<lambda>_ _. Inr []), op_set_witnesses = (\<lambda>_ _. Inr), op_generate = (\<lambda>_ _. Return True)\<rparr>"

type_synonym toy_node = "(rat, rat list list, rat list list, nat, rat, rat, rat, rat, rat, (rat, rat) ipp_witness, nat, nat, nat) node"

definition toy_node :: "(rat, rat) proving_keys \<Rightarrow> toy_node" where
  "toy_node pks = \<lparr>nd_merkle = toy_node_env toy_merkle_ops (\<lambda>_. Inr toy_tree) (one_codec toy_tree_params),
     nd_vkd = toy_node_env (vkd_ops toy_hash_lib toy_codec) (vkd_random toy_hash_lib toy_codec) (one_codec \<lparr>vp_log_num_subcircuits = 4, vp_null_leaf = []\<rparr>),
     nd_vm = toy_node_env (vm_ops toy_hash_lib) (\<lambda>params. Inr (vm_new params))
       (one_codec \<lparr>vp_use_merkle_memory = False, vp_log_num_subcircuit = 1, vp_dummy_constraint_num = 2, vp_operations_per_chunk = 2\<rparr>),
     nd_test = toy_node_env (sort_ops toy_compare) (\<lambda>params. Inr (sort_rand params)) (one_codec \<lparr>so_num_rows = 2, so_sort_column_idx = 0\<rparr>),
     nd_hash = toy_hash_lib, nd_log2 = ceillog2, nd_keys = one_codec pks, nd_mpi = toy_mpi, nd_world = 2, nd_parallel = False, nd_threads = 1, nd_seeds = id\<rparr>"

theorem package_runs_its_circuit_witness:
  "\<exists>pks fs'. node_main (toy_node pks) (SetupBigMerkle 2 1 1 ([], ''keys'')) empty_fs = Inr (fs', None)
     \<and> node_main (toy_node pks) (Work ([], ''keys'') 1) fs'
       = result_map (\<lambda>agg. (fs', Some agg)) (node_work (toy_node pks) (nd_merkle (toy_node pks)) 1 pks)"
proof -
  let ?c = "SetupBigMerkle 2 1 1 ([], ''keys'')"
  have "is_power_of_two 2" unfolding is_power_of_two_def by (rule bexI [of _ 1]) simp_all
  then have params: "gen_test_circuit_params 2 1 1 = Inr toy_tree_params" by (simp add: gen_test_circuit_params_def toy_tree_params_def)
  have "\<exists>pks. keys_new (toy_node_env toy_merkle_ops (\<lambda>_. Inr toy_tree) (one_codec toy_tree_params)) toy_tree_params merkle_circuit_id = Inr pks"
    by (simp add: keys_new_def toy_node_env_def toy_merkle_ops_def toy_tree_def tree_num_subcircuits_def gen_pk_circuit_def subcircuit_new_def
        usub_def Let_def vindex_def vget_def upt_0_2)
  then obtain pks where keys: "keys_new (toy_node_env toy_merkle_ops (\<lambda>_. Inr toy_tree) (one_codec toy_tree_params)) toy_tree_params merkle_circuit_id = Inr pks" by blast
  have package: "key_package (toy_node pks) ?c = Inr pks" using keys params by (simp add: toy_node_def)
  have "ks_circuit_id pks = merkle_circuit_id" by (rule keys_new_package(1) [OF keys])
  then have no_vm: "keys_new (nd_vm (toy_node pks)) params vm_circuit_id \<noteq> Inr pks" for params
    using keys_new_package(1) [of "nd_vm (toy_node pks)" params vm_circuit_id pks] by (auto simp: merkle_circuit_id_def vm_circuit_id_def)
  have "plain empty_fs (package_file ?c)" "fs_dirs empty_fs (fst (package_file ?c))" by (simp_all add: empty_fs_def plain_def)
  from package_runs_its_circuit [OF package _ this, of 1] no_vm show ?thesis by (auto simp: toy_node_def)
qed

theorem small_directories_have_no_keys_witness:
  "\<exists>e. node_main (toy_node undefined) (SetupVkd 16 ([], ''keys'')) empty_fs = Inl e"
  by (rule small_directories_have_no_keys [of _ toy_codec])
    (simp_all add: toy_node_def toy_node_env_def toy_hash_lib_ok toy_codec_ok char_above_char_0 toy_names_distinct ceillog2_2_power)

end

