(* ===== verification/Test_Commands.thy ===== *)
theory Test_Commands
  imports Commands Sql_Correct
begin

text \<open>
  The command-line tools for the sort circuit, \<open>bin/test_co.rs\<close>, \<open>bin/test_multi_sort_co.rs\<close> and \<open>bin/test-worker.rs\<close> of
  \<open>distributed-prover\<close>. They copy the tools of \<open>Commands\<close>, with other parameters and key generation. The stages of the
  two coordinators are the same. Neither can generate keys for any table.
\<close>

section \<open>Parameters and keys\<close>

definition test_gen_circuit_params :: "nat \<Rightarrow> failure + sort_params" where
  "test_gen_circuit_params num_rows =
     rbind (ensure ''num. of subcircuits MUST be > 1'' (num_rows > 1)) (\<lambda>_.
       Inr \<lparr>so_num_rows = num_rows, so_sort_column_idx = 0\<rparr>)"

text \<open>The keys are written one by one and read again for the aggregation key.\<close>

definition test_generate_g16_pks where
  "test_generate_g16_pks env circ_params g16_pk_dir coord_state_dir fs =
     (let ops = ne_ops env in
      rbind (op_new ops circ_params) (\<lambda>circ.
      let n = op_num_subcircuits ops circ in
      rbind (op_portal_subtraces ops circ) (\<lambda>time_ordered_subtraces.
      let gen_pk = (\<lambda>i. rbind (gen_pk_circuit ops (ne_ml env) circ time_ordered_subtraces i) (\<lambda>subcirc.
            unwrap_res unwrap_err_msg (ne_generate_parameters env subcirc))) in
      rbind (rfold (\<lambda>i fs. rbind (gen_pk i) (\<lambda>pk. save_pk env pk g16_pk_dir i fs)) [0..<n] fs) (\<lambda>fs.
      rbind (rmap (\<lambda>i. deserialize_from_path (ce_pk env) g16_pk_dir ''g16_pk'' (Some i) fs) [0..<n]) (\<lambda>pks.
        save_agg_ck env n (vindex pks) coord_state_dir fs)))))"

text \<open>The other coordinator generates three keys and links the second.\<close>

definition multi_sort_pk_fetcher :: "nat \<Rightarrow> 'k \<Rightarrow> 'k \<Rightarrow> 'k \<Rightarrow> nat \<Rightarrow> failure + 'k" where
  "multi_sort_pk_fetcher num_subcircuits first_pk middle_pk last_pk subcircuit_idx =
     (if subcircuit_idx = 0 then Inr first_pk
      else rbind (usub num_subcircuits 1) (\<lambda>n1. if subcircuit_idx = n1 then Inr last_pk else Inr middle_pk))"

definition multi_sort_generate_g16_pks where
  "multi_sort_generate_g16_pks env circ_params g16_pk_dir coord_state_dir fs =
     (let ops = ne_ops env in
      rbind (op_new ops circ_params) (\<lambda>circ.
      let n = op_num_subcircuits ops circ in
      rbind (op_portal_subtraces ops circ) (\<lambda>time_ordered_subtraces.
      let gen_pk = (\<lambda>i. rbind (gen_pk_circuit ops (ne_ml env) circ time_ordered_subtraces i) (\<lambda>subcirc.
            unwrap_res unwrap_err_msg (ne_generate_parameters env subcirc))) in
      rbind (gen_pk 0) (\<lambda>first_pk.
      rbind (gen_pk 1) (\<lambda>middle_pk.
      rbind (usub n 1) (\<lambda>n1.
      rbind (gen_pk n1) (\<lambda>last_pk.
      rbind (save_pk env first_pk g16_pk_dir 0 fs) (\<lambda>fs.
      rbind (save_pks env middle_pk g16_pk_dir (1, n1) fs) (\<lambda>fs.
      rbind (save_pk env last_pk g16_pk_dir n1 fs) (\<lambda>fs.
        save_agg_ck env n (multi_sort_pk_fetcher n first_pk middle_pk last_pk) coord_state_dir fs))))))))))"

section \<open>The coordinator's stages\<close>

text \<open>The stages count a subcircuit for every 64 rows; the circuit has one for every layer of its merge sort.\<close>

definition test_num_subcircuits :: "sort_params \<Rightarrow> nat" where
  "test_num_subcircuits circ_params = (so_num_rows circ_params + 63) div 64"

definition test_begin_stage0 where
  "test_begin_stage0 env worker_req_dir coord_state_dir fs =
     rbind (deserialize_from_path (ne_params_codec env) coord_state_dir ''test_circ_params'' None fs) (\<lambda>circ_params.
     let num_subcircuits = test_num_subcircuits circ_params in
     rbind (ne_rand_circuit env circ_params) (\<lambda>circ.
     rbind (coordinator0_new (ne_ops env) circ) (\<lambda>stage0_state.
     rbind (rmap (gen_request0 stage0_state) [0..<num_subcircuits]) (\<lambda>reqs.
     rbind (rfold (\<lambda>(subcircuit_idx, req) fs.
         io_unwrap (serialize_to_path (ce_request0 env) req worker_req_dir ''stage0_req'' (Some subcircuit_idx) fs)) (enumerate 0 reqs) fs) (\<lambda>fs.
       io_unwrap (serialize_to_path (ce_state0 env) stage0_state coord_state_dir ''stage0_coordinator_state'' None fs))))))"

definition test_process_stage0_resps where
  "test_process_stage0_resps env coord_state_dir req_dir resp_dir fs =
     (let mt = op_mem_type (ne_ops env) in
      rbind (deserialize_from_path (ne_params_codec env) coord_state_dir ''test_circ_params'' None fs) (\<lambda>circ_params.
      let num_subcircuits = test_num_subcircuits circ_params in
      rbind (deserialize_from_path (ce_state0 env) coord_state_dir ''stage0_coordinator_state'' None fs) (\<lambda>coord_state.
      rbind (deserialize_from_path (ce_agg_ck env) coord_state_dir ''agg_ck'' None fs) (\<lambda>agg_ck.
      let super_com_key = fst agg_ck in
      rbind (rmap (\<lambda>i. deserialize_from_path (ce_response0 env) resp_dir ''stage0_resp'' (Some i) fs) [0..<num_subcircuits]) (\<lambda>stage0_resps.
      rbind (process_stage0_responses (ne_sha256 env) (ne_ser_super_com env) (ne_ml env) mt (ip_commit_only_left super_com_key)
          stage0_resps coord_state) (\<lambda>new_coord_state.
      rbind (rmap (gen_request1 mt new_coord_state) [0..<num_subcircuits]) (\<lambda>reqs.
      rbind (rfold (\<lambda>(subcircuit_idx, req) fs.
          io_unwrap (serialize_to_path (ce_request1 env) req req_dir ''stage1_req'' (Some subcircuit_idx) fs)) (enumerate 0 reqs) fs) (\<lambda>fs.
      rbind (into_agg_state (ne_root_elems env) new_coord_state) (\<lambda>final_agg_state.
        io_unwrap (serialize_to_path (ce_agg_state env) final_agg_state coord_state_dir ''final_aggregator_state'' None fs))))))))))"

definition test_process_stage1_resps where
  "test_process_stage1_resps env coord_state_dir resp_dir fs =
     rbind (deserialize_from_path (ne_params_codec env) coord_state_dir ''test_circ_params'' None fs) (\<lambda>circ_params.
     let num_subcircuits = test_num_subcircuits circ_params in
     rbind (deserialize_from_path (ce_agg_state env) coord_state_dir ''final_aggregator_state'' None fs) (\<lambda>final_agg_state.
     rbind (deserialize_from_path (ce_agg_ck env) coord_state_dir ''agg_ck'' None fs) (\<lambda>agg_ck.
     rbind (rmap (\<lambda>i. deserialize_from_path (ce_response1 env) resp_dir ''stage1_resp'' (Some i) fs) [0..<num_subcircuits]) (\<lambda>stage1_resps.
     rbind (gen_agg_proof (\<lambda>super_com proofs pub_inputs.
           agg_subcircuit_proofs (ne_pl env) (fst agg_ck) (ne_transcript env) (snd agg_ck) (ne_new_transcript env) super_com proofs pub_inputs)
         final_agg_state stage1_resps) (\<lambda>agg_proof.
       io_unwrap (serialize_to_path (ce_proof env) agg_proof coord_state_dir ''agg_proof'' None fs))))))"

datatype test_coordinator_command =
    TestGenKeys (tgk_g16_pk_dir: dir) (tgk_coord_state_dir: dir) (tgk_num_rows: nat)
  | TestStartStage0 (ts0_coord_state_dir: dir) (ts0_req_dir: dir)
  | TestStartStage1 (ts1_coord_state_dir: dir) (ts1_req_dir: dir) (ts1_resp_dir: dir)
  | TestEndProof (tep_coord_state_dir: dir) (tep_resp_dir: dir)

fun test_coordinator_main where
  "test_coordinator_main env (TestGenKeys g16_pk_dir coord_state_dir num_rows) fs =
     rbind (test_gen_circuit_params num_rows) (\<lambda>circ_params.
     rbind (io_unwrap (serialize_to_path (ne_params_codec env) circ_params coord_state_dir ''test_circ_params'' None fs)) (\<lambda>fs.
       test_generate_g16_pks env circ_params g16_pk_dir coord_state_dir fs))"
| "test_coordinator_main env (TestStartStage0 coord_state_dir req_dir) fs = test_begin_stage0 env req_dir coord_state_dir fs"
| "test_coordinator_main env (TestStartStage1 coord_state_dir req_dir resp_dir) fs = test_process_stage0_resps env coord_state_dir req_dir resp_dir fs"
| "test_coordinator_main env (TestEndProof coord_state_dir resp_dir) fs = test_process_stage1_resps env coord_state_dir resp_dir fs"

text \<open>The second coordinator differs in its key generation only.\<close>

fun multi_sort_main where
  "multi_sort_main env (TestGenKeys g16_pk_dir coord_state_dir num_rows) fs =
     rbind (test_gen_circuit_params num_rows) (\<lambda>circ_params.
     rbind (io_unwrap (serialize_to_path (ne_params_codec env) circ_params coord_state_dir ''test_circ_params'' None fs)) (\<lambda>fs.
       multi_sort_generate_g16_pks env circ_params g16_pk_dir coord_state_dir fs))"
| "multi_sort_main env (TestStartStage0 coord_state_dir req_dir) fs = test_begin_stage0 env req_dir coord_state_dir fs"
| "multi_sort_main env (TestStartStage1 coord_state_dir req_dir resp_dir) fs = test_process_stage0_resps env coord_state_dir req_dir resp_dir fs"
| "multi_sort_main env (TestEndProof coord_state_dir resp_dir) fs = test_process_stage1_resps env coord_state_dir resp_dir fs"

section \<open>No keys\<close>

text \<open>The prover circuit of a single subcircuit cannot be made: its Merkle path would have a negative length.\<close>

lemma gen_pk_circuit_too_few:
  assumes "op_num_subcircuits ops circ = 1"
  shows "\<exists>e. gen_pk_circuit ops ml circ sts i = Inl e"
proof -
  have "log2 1 = Inr 0" using log2_power [of 0] by simp
  then have "\<exists>e. subcircuit_new ops ml (op_num_subcircuits ops circ) = Inl e" by (simp add: assms subcircuit_new_def usub_def del: One_nat_def)
  then show ?thesis by (cases "vindex sts i") (auto simp: gen_pk_circuit_def)
qed

lemma test_keys_fail:
  assumes "ne_ops env = sort_ops cl" "1 < so_num_rows params"
  shows "\<exists>e. test_generate_g16_pks env params g16_pk_dir coord_state_dir fs = Inl e"
    "\<exists>e. multi_sort_generate_g16_pks env params g16_pk_dir coord_state_dir fs = Inl e"
proof -
  let ?sc = "sort_new params"
  have new: "op_new (sort_ops cl) params = Inr ?sc" "op_portal_subtraces (sort_ops cl) ?sc = sort_portal_subtraces cl ?sc"
    "op_num_subcircuits (sort_ops cl) ?sc = sort_layers (so_num_rows params)"
    by (simp_all add: sort_ops_def sort_num_subcircuits_def sort_new_def)
  show "\<exists>e. test_generate_g16_pks env params g16_pk_dir coord_state_dir fs = Inl e"
    "\<exists>e. multi_sort_generate_g16_pks env params g16_pk_dir coord_state_dir fs = Inl e"
  proof (atomize (full), cases "sort_portal_subtraces cl ?sc")
    case (Inl e)
    then show "(\<exists>e. test_generate_g16_pks env params g16_pk_dir coord_state_dir fs = Inl e)
      \<and> (\<exists>e. multi_sort_generate_g16_pks env params g16_pk_dir coord_state_dir fs = Inl e)"
      by (simp add: test_generate_g16_pks_def multi_sort_generate_g16_pks_def assms(1) new Let_def)
  next
    case (Inr sts)
    then have "\<not> 3 \<le> so_num_rows params" using sort_trace_fails [of ?sc cl] by (auto simp: sort_new_def)
    then have "so_num_rows params = 2" using assms(2) by simp
    then have n: "op_num_subcircuits (sort_ops cl) ?sc = 1" by (simp add: new(3) sort_layers_2)
    obtain e where e: "gen_pk_circuit (sort_ops cl) (ne_ml env) ?sc sts 0 = Inl e" using gen_pk_circuit_too_few [OF n] by blast
    have range: "[0..<1] = [0 :: nat]" by simp
    show "(\<exists>e. test_generate_g16_pks env params g16_pk_dir coord_state_dir fs = Inl e)
      \<and> (\<exists>e. multi_sort_generate_g16_pks env params g16_pk_dir coord_state_dir fs = Inl e)"
      unfolding test_generate_g16_pks_def multi_sort_generate_g16_pks_def assms(1) Let_def new(1,2) rbind_simps Inr n range
      by (simp add: e)
  qed
qed

text \<open>
  C37: Neither tool for the sort circuit ever generates keys. Tables of fewer than two rows are refused, those
  of three rows or more cannot be traced, and a table of two rows is a single subcircuit, for which there is no prover circuit.
\<close>

theorem sort_tools_generate_no_keys:
  "(\<exists>e. test_coordinator_main (env\<lparr>ne_ops := sort_ops cl\<rparr>) (TestGenKeys g16_pk_dir coord_state_dir num_rows) fs = Inl e)
    \<and> (\<exists>e. multi_sort_main (env\<lparr>ne_ops := sort_ops cl\<rparr>) (TestGenKeys g16_pk_dir coord_state_dir num_rows) fs = Inl e)"
proof (cases "1 < num_rows")
  case True
  have ops: "ne_ops (env\<lparr>ne_ops := sort_ops cl\<rparr>) = sort_ops cl" by simp
  let ?params = "\<lparr>so_num_rows = num_rows, so_sort_column_idx = 0\<rparr>"
  have params: "test_gen_circuit_params num_rows = Inr ?params" using True by (simp add: test_gen_circuit_params_def)
  have many: "1 < so_num_rows ?params" using True by simp
  show ?thesis
    using test_keys_fail [OF ops many, of g16_pk_dir coord_state_dir]
    by (cases "io_unwrap (serialize_to_path (ne_params_codec (env\<lparr>ne_ops := sort_ops cl\<rparr>)) ?params coord_state_dir ''test_circ_params'' None fs)") (simp_all add: params)
qed (simp add: test_gen_circuit_params_def)

text \<open>Were there keys, the stages would leave subcircuits out.\<close>

lemma stages_too_few: "2 < so_num_rows params \<Longrightarrow> so_num_rows params \<le> 64 \<Longrightarrow> test_num_subcircuits params < sort_num_subcircuits (sort_new params)"
proof -
  assume rows: "2 < so_num_rows params" "so_num_rows params \<le> 64"
  then have "test_num_subcircuits params = 1" by (simp add: test_num_subcircuits_def)
  moreover have "1 < sort_layers (so_num_rows params)"
  proof (rule ccontr)
    assume "\<not> 1 < sort_layers (so_num_rows params)"
    then have "(2 :: nat) ^ sort_layers (so_num_rows params) \<le> 2 ^ 1" by (intro power_increasing) simp_all
    with sort_layers_bounds [of "so_num_rows params"] rows show False by simp
  qed
  ultimately show ?thesis by (simp add: sort_num_subcircuits_def sort_new_def)
qed

end
